(* ===== verification/Locron_Prelude.thy ===== *)
theory Locron_Prelude
  imports Main "HOL-Library.List_Lexorder" "HOL-Library.Char_ord"
begin

text \<open>
  Shared vocabulary of the development. Rust's \<open>Result\<close> is the sum type with
  \<open>Inl\<close> for the error; the operator \<open>?\<close> is \<open>and_then\<close>. The \<open>i64\<close>, \<open>u64\<close> and
  \<open>u32\<close> operations that the sources use never wrap: they are the checked and saturating
  operations of the standard library, written here on \<open>int\<close> and \<open>nat\<close> with their range
  tests. A few generic list lemmas (the last elements of a list, sorted lists of a finite
  set, updates of the rows that satisfy a condition) are shared by the component theories.
\<close>

named_theorems result_simps \<open>rewriting of fallible computations\<close>
named_theorems machine_int \<open>definitions of the machine integer operations\<close>


section \<open>Results\<close>

type_synonym ('e, 'a) result = "'e + 'a"

definition and_then :: "'e + 'a \<Rightarrow> ('a \<Rightarrow> 'e + 'b) \<Rightarrow> 'e + 'b" where
  "and_then m f = (case m of Inl e \<Rightarrow> Inl e | Inr x \<Rightarrow> f x)"

definition ok_or :: "'e \<Rightarrow> 'a option \<Rightarrow> 'e + 'a" where
  "ok_or e x = (case x of None \<Rightarrow> Inl e | Some y \<Rightarrow> Inr y)"

definition map_err :: "('e \<Rightarrow> 'f) \<Rightarrow> 'e + 'a \<Rightarrow> 'f + 'a" where
  "map_err f m = (case m of Inl e \<Rightarrow> Inl (f e) | Inr x \<Rightarrow> Inr x)"

text \<open>\<open>collect::<Result<Vec<_>, _>>()\<close>: left to right, stopping at the first error.\<close>

fun collect :: "('a \<Rightarrow> 'e + 'b) \<Rightarrow> 'a list \<Rightarrow> 'e + 'b list" where
  "collect f [] = Inr []"
| "collect f (x # xs) = and_then (f x) (\<lambda>y. and_then (collect f xs) (\<lambda>ys. Inr (y # ys)))"

lemma and_then_simps [simp, result_simps]:
  "and_then (Inl e) f = Inl e"
  "and_then (Inr x) f = f x"
  by (simp_all add: and_then_def)

lemma and_then_eq_Inr [result_simps]:
  "and_then m f = Inr z \<longleftrightarrow> (\<exists>y. m = Inr y \<and> f y = Inr z)"
  by (cases m) auto

lemma and_then_eq_Inl [result_simps]:
  "and_then m f = Inl e \<longleftrightarrow> m = Inl e \<or> (\<exists>y. m = Inr y \<and> f y = Inl e)"
  by (cases m) auto

lemma ok_or_simps [simp, result_simps]:
  "ok_or e None = Inl e"
  "ok_or e (Some x) = Inr x"
  by (simp_all add: ok_or_def)

lemma ok_or_eq_Inr [result_simps]: "ok_or e x = Inr y \<longleftrightarrow> x = Some y"
  by (cases x) auto

lemma map_err_simps [simp, result_simps]:
  "map_err f (Inl e) = Inl (f e)"
  "map_err f (Inr x) = Inr x"
  by (simp_all add: map_err_def)

lemma map_err_eq_Inr [result_simps]: "map_err f m = Inr y \<longleftrightarrow> m = Inr y"
  by (cases m) auto

lemma collect_Inr: "(\<And>x. x \<in> set xs \<Longrightarrow> f x = Inr (g x)) \<Longrightarrow> collect f xs = Inr (map g xs)"
  by (induction xs) auto

lemma collect_length: "collect f xs = Inr ys \<Longrightarrow> length ys = length xs"
  by (induction xs arbitrary: ys) (auto simp: and_then_eq_Inr)


section \<open>Machine integers\<close>

definition i64_min :: int where
  "i64_min = - 9223372036854775808"

definition i64_max :: int where
  "i64_max = 9223372036854775807"

definition u64_max :: nat where
  "u64_max = 18446744073709551615"

definition u32_max :: nat where
  "u32_max = 4294967295"

lemmas machine_bounds = i64_min_def i64_max_def u64_max_def u32_max_def

definition in_i64 :: "int \<Rightarrow> bool" where
  "in_i64 x \<longleftrightarrow> i64_min \<le> x \<and> x \<le> i64_max"

definition i64_checked :: "int \<Rightarrow> int option" where
  "i64_checked x = (if in_i64 x then Some x else None)"

definition i64_saturating :: "int \<Rightarrow> int" where
  "i64_saturating x = max i64_min (min i64_max x)"

text \<open>\<open>i64::try_from(u64)\<close> and \<open>u64::try_from(i64)\<close>.\<close>

definition i64_try_from :: "nat \<Rightarrow> int option" where
  "i64_try_from n = (if int n \<le> i64_max then Some (int n) else None)"

definition u64_try_from :: "int \<Rightarrow> nat option" where
  "u64_try_from x = (if 0 \<le> x then Some (nat x) else None)"

definition u64_checked :: "nat \<Rightarrow> nat option" where
  "u64_checked n = (if n \<le> u64_max then Some n else None)"

definition u64_saturating :: "nat \<Rightarrow> nat" where
  "u64_saturating n = min u64_max n"

declare i64_checked_def [machine_int] i64_saturating_def [machine_int]
  i64_try_from_def [machine_int] u64_try_from_def [machine_int]
  u64_checked_def [machine_int] u64_saturating_def [machine_int] in_i64_def [machine_int]

lemma i64_checked_Some [simp]: "in_i64 x \<Longrightarrow> i64_checked x = Some x"
  by (simp add: i64_checked_def)

lemma i64_checked_eq_Some: "i64_checked x = Some y \<longleftrightarrow> in_i64 x \<and> y = x"
  by (auto simp: i64_checked_def)

lemma i64_saturating_id [simp]: "in_i64 x \<Longrightarrow> i64_saturating x = x"
  by (simp add: i64_saturating_def in_i64_def)

lemma in_i64_saturating [simp]: "in_i64 (i64_saturating x)"
  by (simp add: i64_saturating_def in_i64_def machine_bounds)

lemma i64_saturating_mono: "x \<le> y \<Longrightarrow> i64_saturating x \<le> i64_saturating y"
  by (auto simp: i64_saturating_def)

lemma in_i64_between: "in_i64 a \<Longrightarrow> in_i64 b \<Longrightarrow> a \<le> x \<Longrightarrow> x \<le> b \<Longrightarrow> in_i64 x"
  by (auto simp: in_i64_def)

lemma in_i64_0 [simp]: "in_i64 0"
  by (simp add: in_i64_def machine_bounds)

end
