(* ===== verification/Locron_Time.thy ===== *)
theory Locron_Time
  imports Locron_Prelude
begin

text \<open>
  Instants, durations and their textual forms: \<^verbatim>\<open>crates/locron-core/src/time.rs\<close>, with the
  field-level \<open>ValidationError\<close> of \<^verbatim>\<open>error.rs\<close>. An instant is a signed count of
  microseconds since the Unix epoch, a duration an unsigned count. A Rust string is the
  list of its UTF-8 bytes. \<open>str::split_at\<close> panics inside a multi-byte character; a panic is
  the value \<open>None\<close>. The civil-time parser of the \<open>jiff\<close> package is a parameter.
\<close>

section \<open>Validation errors\<close>

record validation_error =
  field :: string
  code :: string
  message :: string

definition ValidationError_new :: "string \<Rightarrow> string \<Rightarrow> string \<Rightarrow> validation_error" where
  "ValidationError_new f c m = \<lparr>field = f, code = c, message = m\<rparr>"

lemma ValidationError_new_sel [simp]:
  "field (ValidationError_new f c m) = f"
  "code (ValidationError_new f c m) = c"
  "message (ValidationError_new f c m) = m"
  by (simp_all add: ValidationError_new_def)


section \<open>Durations and instants\<close>

datatype duration_micros = DurationMicros (get: nat)

datatype timestamp = Timestamp (epoch_micros: int)

instantiation timestamp :: linorder
begin

definition less_eq_timestamp :: "timestamp \<Rightarrow> timestamp \<Rightarrow> bool" where
  "less_eq_timestamp a b \<longleftrightarrow> epoch_micros a \<le> epoch_micros b"

definition less_timestamp :: "timestamp \<Rightarrow> timestamp \<Rightarrow> bool" where
  "less_timestamp a b \<longleftrightarrow> epoch_micros a < epoch_micros b"

instance
  by standard
    (auto simp: less_eq_timestamp_def less_timestamp_def timestamp.expand)

end

instantiation duration_micros :: linorder
begin

definition less_eq_duration_micros :: "duration_micros \<Rightarrow> duration_micros \<Rightarrow> bool" where
  "less_eq_duration_micros a b \<longleftrightarrow> get a \<le> get b"

definition less_duration_micros :: "duration_micros \<Rightarrow> duration_micros \<Rightarrow> bool" where
  "less_duration_micros a b \<longleftrightarrow> get a < get b"

instance
  by standard
    (auto simp: less_eq_duration_micros_def less_duration_micros_def duration_micros.expand)

end

lemmas timestamp_order = less_eq_timestamp_def less_timestamp_def

lemma Timestamp_le [simp]: "Timestamp a \<le> Timestamp b \<longleftrightarrow> a \<le> b"
  by (simp add: less_eq_timestamp_def)

lemma Timestamp_less [simp]: "Timestamp a < Timestamp b \<longleftrightarrow> a < b"
  by (simp add: less_timestamp_def)

lemma epoch_micros_inj: "inj epoch_micros"
  by (simp add: inj_def timestamp.expand)

lemma Timestamp_inj: "inj Timestamp"
  by (simp add: inj_def)

text \<open>Values an \<open>i64\<close> and a \<open>u64\<close> can hold.\<close>

definition valid_instant :: "timestamp \<Rightarrow> bool" where
  "valid_instant t \<longleftrightarrow> in_i64 (epoch_micros t)"

definition valid_duration :: "duration_micros \<Rightarrow> bool" where
  "valid_duration d \<longleftrightarrow> get d \<le> u64_max"

definition UNIX_EPOCH :: timestamp where
  "UNIX_EPOCH = Timestamp 0"

definition Timestamp_checked_add :: "timestamp \<Rightarrow> duration_micros \<Rightarrow> timestamp option" where
  "Timestamp_checked_add t d =
     Option.bind (i64_try_from (get d))
       (\<lambda>micros. map_option Timestamp (i64_checked (epoch_micros t + micros)))"

definition Timestamp_checked_sub :: "timestamp \<Rightarrow> duration_micros \<Rightarrow> timestamp option" where
  "Timestamp_checked_sub t d =
     Option.bind (i64_try_from (get d))
       (\<lambda>micros. map_option Timestamp (i64_checked (epoch_micros t - micros)))"

definition Duration_saturating_mul :: "duration_micros \<Rightarrow> nat \<Rightarrow> duration_micros" where
  "Duration_saturating_mul d rhs = DurationMicros (u64_saturating (get d * rhs))"


section \<open>Timestamp text\<close>

definition ends_with_char :: "char \<Rightarrow> string \<Rightarrow> bool" where
  "ends_with_char c s \<longleftrightarrow> s \<noteq> [] \<and> last s = c"

text \<open>The text after the first occurrence of a character, \<open>None\<close> when there is none.\<close>

fun after_first :: "char \<Rightarrow> string \<Rightarrow> string option" where
  "after_first c [] = None"
| "after_first c (x # xs) = (if x = c then Some xs else after_first c xs)"

definition has_explicit_offset :: "string \<Rightarrow> bool" where
  "has_explicit_offset value =
     (if ends_with_char CHR ''Z'' value \<or> ends_with_char CHR ''z'' value then True
      else
        let time = (case after_first CHR ''T'' value of
                      Some rest \<Rightarrow> Some rest
                    | None \<Rightarrow> after_first CHR ''t'' value)
        in case time of
             None \<Rightarrow> False
           | Some rest \<Rightarrow> (\<exists>c \<in> set rest. c = CHR ''+'' \<or> c = CHR ''-''))"

definition Timestamp_from_str ::
    "(string \<Rightarrow> string + timestamp) \<Rightarrow> string \<Rightarrow> validation_error + timestamp" where
  "Timestamp_from_str jiff_parse value =
     (if \<not> has_explicit_offset value
      then Inl (ValidationError_new ''timestamp'' ''offset_required''
                  ''timestamp must include Z or an explicit numeric offset'')
      else map_err (\<lambda>err. ValidationError_new ''timestamp'' ''invalid_timestamp'' err)
             (jiff_parse value))"


section \<open>Unsigned decimal text\<close>

text \<open>
  \<open>str::parse\<close> for the unsigned types: an optional plus sign, then at least one decimal
  digit, nothing else, and a value within the type's range.
\<close>

definition is_digit :: "char \<Rightarrow> bool" where
  "is_digit c \<longleftrightarrow> 48 \<le> (of_char c :: nat) \<and> (of_char c :: nat) \<le> 57"

definition digit_value :: "char \<Rightarrow> nat" where
  "digit_value c = of_char c - 48"

definition decimal_value :: "string \<Rightarrow> nat" where
  "decimal_value ds = foldl (\<lambda>acc d. acc * 10 + digit_value d) 0 ds"

definition strip_plus :: "string \<Rightarrow> string" where
  "strip_plus s = (case s of c # rest \<Rightarrow> if c = CHR ''+'' then rest else s | [] \<Rightarrow> [])"

definition parse_unsigned :: "nat \<Rightarrow> string \<Rightarrow> nat option" where
  "parse_unsigned limit s =
     (let ds = strip_plus s
      in if ds \<noteq> [] \<and> list_all is_digit ds \<and> decimal_value ds \<le> limit
         then Some (decimal_value ds) else None)"

lemma strip_plus_digits:
  assumes "ds \<noteq> []" "list_all is_digit ds"
  shows "strip_plus ds = ds"
  using assms by (cases ds) (auto simp: strip_plus_def is_digit_def)

lemma parse_unsigned_digits:
  "ds \<noteq> [] \<Longrightarrow> list_all is_digit ds \<Longrightarrow>
   parse_unsigned limit ds = (if decimal_value ds \<le> limit then Some (decimal_value ds) else None)"
  by (simp add: parse_unsigned_def strip_plus_digits)

text \<open>The decimal digits of a number, as \<open>to_string\<close> prints them.\<close>

fun show_nat :: "nat \<Rightarrow> string" where
  "show_nat n = (if n < 10 then [char_of (48 + n)]
                 else show_nat (n div 10) @ [char_of (48 + n mod 10)])"

declare show_nat.simps [simp del]

lemma digit_char: "d < 10 \<Longrightarrow> is_digit (char_of (48 + d)) \<and> digit_value (char_of (48 + d)) = d"
  by (simp add: is_digit_def digit_value_def)

lemma decimal_value_snoc: "decimal_value (ds @ [d]) = decimal_value ds * 10 + digit_value d"
  by (simp add: decimal_value_def)

lemma show_nat_decimal:
  "show_nat n \<noteq> [] \<and> list_all is_digit (show_nat n) \<and> decimal_value (show_nat n) = n"
proof (induction n rule: show_nat.induct)
  case (1 n)
  show ?case
  proof (cases "n < 10")
    case True
    then show ?thesis
      using digit_char[of n] by (simp add: show_nat.simps[of n] decimal_value_def)
  next
    case False
    then show ?thesis
      using 1 digit_char[of "n mod 10"]
      by (simp add: show_nat.simps[of n] decimal_value_snoc)
  qed
qed

lemma parse_unsigned_show: "n \<le> limit \<Longrightarrow> parse_unsigned limit (show_nat n) = Some n"
  using show_nat_decimal[of n] by (simp add: parse_unsigned_digits)


section \<open>Duration text\<close>

definition invalid_duration :: validation_error where
  "invalid_duration = ValidationError_new ''duration'' ''invalid_duration''
     ''duration must be an integer followed by s, m, h, or d''"

definition duration_overflow :: validation_error where
  "duration_overflow = ValidationError_new ''duration'' ''duration_overflow''
     ''duration is too large''"

text \<open>
  A byte position is a character boundary unless the byte there continues a multi-byte
  character (\<open>10xxxxxx\<close>).
\<close>

definition is_continuation_byte :: "char \<Rightarrow> bool" where
  "is_continuation_byte c \<longleftrightarrow> 128 \<le> (of_char c :: nat) \<and> (of_char c :: nat) < 192"

definition duration_unit_seconds :: "char \<Rightarrow> nat option" where
  "duration_unit_seconds c =
     (if c = CHR ''s'' then Some 1
      else if c = CHR ''m'' then Some 60
      else if c = CHR ''h'' then Some (60 * 60)
      else if c = CHR ''d'' then Some (24 * 60 * 60)
      else None)"

text \<open>\<open>None\<close> is the panic of \<open>split_at\<close>; otherwise the \<open>Result\<close> the code returns.\<close>

definition DurationMicros_from_str ::
    "string \<Rightarrow> (validation_error + duration_micros) option" where
  "DurationMicros_from_str value =
     (if length value < 2 then Some (Inl invalid_duration)
      else if is_continuation_byte (last value) then None
      else Some (
        and_then (ok_or invalid_duration (parse_unsigned u64_max (butlast value))) (\<lambda>count.
        if count = 0 then Inl (ValidationError_new ''duration'' ''duration_zero''
                                 ''duration must be greater than zero'')
        else case duration_unit_seconds (last value) of
               None \<Rightarrow> Inl invalid_duration
             | Some unit \<Rightarrow>
                 and_then (ok_or duration_overflow (u64_checked (count * unit))) (\<lambda>seconds.
                 and_then (ok_or duration_overflow (u64_checked (seconds * 1000000))) (\<lambda>micros.
                 Inr (DurationMicros micros))))))"

lemma unit_not_continuation:
  "duration_unit_seconds c = Some u \<Longrightarrow> \<not> is_continuation_byte c"
  by (auto simp: duration_unit_seconds_def is_continuation_byte_def split: if_splits)

lemma u64_checked_chain:
  "0 < b \<Longrightarrow>
   and_then (ok_or e (u64_checked a)) (\<lambda>s. and_then (ok_or e (u64_checked (s * b))) (\<lambda>m. Inr (f m)))
   = (if a * b \<le> u64_max then Inr (f (a * b)) else Inl e)"
proof (cases "a * b \<le> u64_max")
  case True
  moreover assume "0 < b"
  then have "a * 1 \<le> a * b" by (intro mult_le_mono2) simp
  ultimately have "a * 1 \<le> u64_max" by (meson order_trans)
  then have "a \<le> u64_max" by simp
  with True show ?thesis by (simp add: u64_checked_def)
next
  case False
  then show ?thesis by (simp add: u64_checked_def)
qed

lemma duration_from_str_snoc:
  assumes "ds \<noteq> []"
  shows "DurationMicros_from_str (ds @ [c]) =
    (if is_continuation_byte c then None
     else Some (case parse_unsigned u64_max ds of
        None \<Rightarrow> Inl invalid_duration
      | Some n \<Rightarrow>
          if n = 0 then Inl (ValidationError_new ''duration'' ''duration_zero''
                               ''duration must be greater than zero'')
          else (case duration_unit_seconds c of
             None \<Rightarrow> Inl invalid_duration
           | Some u \<Rightarrow> if n * u * 1000000 \<le> u64_max
                       then Inr (DurationMicros (n * u * 1000000)) else Inl duration_overflow)))"
  using assms
  by (cases ds) (auto simp: DurationMicros_from_str_def u64_checked_chain split: option.splits)

lemma duration_from_str_accepts:
  "DurationMicros_from_str v = Some (Inr d) \<longleftrightarrow>
   (\<exists>ds c u n. v = ds @ [c] \<and> ds \<noteq> [] \<and> parse_unsigned u64_max ds = Some n \<and> 0 < n \<and>
      duration_unit_seconds c = Some u \<and> n * u * 1000000 \<le> u64_max \<and>
      d = DurationMicros (n * u * 1000000))"
  (is "?lhs \<longleftrightarrow> ?rhs")
proof
  assume l: ?lhs
  then have len: "2 \<le> length v"
    by (auto simp: DurationMicros_from_str_def not_less split: if_splits)
  then have "v \<noteq> []" by auto
  then obtain ds c where v: "v = ds @ [c]" by (cases v rule: rev_cases) auto
  with len have "ds \<noteq> []" by auto
  with l v show ?rhs
    by (auto simp: duration_from_str_snoc split: if_splits option.splits)
next
  assume ?rhs
  then show ?lhs
    by (auto simp: duration_from_str_snoc unit_not_continuation)
qed


section \<open>Properties\<close>

text \<open>
  A duration written as a positive decimal number and one of the units s, m, h, d parses
  back to exactly that many seconds, in microseconds, and is refused as too large exactly
  when the microseconds leave the unsigned 64-bit range.
\<close>

theorem duration_text_roundtrip:
  assumes "0 < n" and "n \<le> u64_max" and "duration_unit_seconds c = Some u"
  shows "DurationMicros_from_str (show_nat n @ [c]) =
    Some (if n * u * 1000000 \<le> u64_max then Inr (DurationMicros (n * u * 1000000))
          else Inl duration_overflow)"
proof -
  have "show_nat n \<noteq> []" using show_nat_decimal[of n] by simp
  with assms show ?thesis
    by (simp add: duration_from_str_snoc parse_unsigned_show unit_not_continuation)
qed

theorem duration_text_roundtrip_witness:
  "DurationMicros_from_str (show_nat 90 @ ''m'') = Some (Inr (DurationMicros 5400000000))"
  using duration_text_roundtrip[of 90 "CHR ''m''" 60]
  by (simp add: u64_max_def duration_unit_seconds_def)

text \<open>
  Every duration the parser accepts is a positive whole number of seconds within the
  unsigned 64-bit range, so an accepted interval never needs rounding.
\<close>

theorem parsed_duration_whole_seconds:
  assumes "DurationMicros_from_str v = Some (Inr d)"
  shows "1000000 \<le> get d \<and> get d \<le> u64_max \<and> get d mod 1000000 = 0"
proof -
  from assms obtain n u c where d: "get d = n * u * 1000000" and n: "0 < n"
    and u: "duration_unit_seconds c = Some u" and le: "n * u * 1000000 \<le> u64_max"
    by (auto simp: duration_from_str_accepts)
  from u have "0 < u" by (auto simp: duration_unit_seconds_def split: if_splits)
  with n have "1 \<le> n * u" by simp
  with d le show ?thesis by simp
qed

theorem parsed_duration_whole_seconds_witness:
  "DurationMicros_from_str ''3s'' = Some (Inr (DurationMicros 3000000)) \<and>
   get (DurationMicros 3000000) mod 1000000 = 0"
proof -
  have "DurationMicros_from_str ''3s'' = Some (Inr (DurationMicros 3000000))"
    by (simp add: DurationMicros_from_str_def u64_max_def duration_unit_seconds_def
        is_continuation_byte_def parse_unsigned_def strip_plus_def is_digit_def
        digit_value_def decimal_value_def u64_checked_def)
  then show ?thesis
    using parsed_duration_whole_seconds[of "''3s''" "DurationMicros 3000000"] by simp
qed

text \<open>
  The duration parser panics exactly on texts of at least two bytes that end in a
  continuation byte, that is, whose last character is not a single byte: the split before
  the last byte then falls inside a character. Such text reaches it from the command line.
\<close>

lemma duration_from_str_panics_iff:
  "DurationMicros_from_str v = None \<longleftrightarrow> 2 \<le> length v \<and> is_continuation_byte (last v)"
  by (auto simp: DurationMicros_from_str_def)

end
