(* ===== verification/Lifecycle.thy ===== *)
theory Lifecycle
  imports Locron_Time
begin

text \<open>
  The durable run and attempt state machines of \<^verbatim>\<open>crates/locron-core/src/lifecycle.rs\<close>, the
  error vocabulary of \<^verbatim>\<open>error.rs\<close>, and the textual state names that the store
  (\<open>parse_run_state\<close>) and the redaction boundary (\<open>terminal_run_state\<close>) read.
\<close>

section \<open>Errors and states\<close>

record persistence_diagnostic =
  diag_operation :: string
  diag_stage :: string
  diag_kind :: string
  diag_elapsed_us :: nat
  diag_admission_wait_us :: nat
  diag_connection_wait_us :: nat
  diag_sqlite_wait_us :: nat
  diag_transaction_us :: nat
  diag_commit_us :: nat
  diag_retries :: nat
  diag_sqlite_primary_code :: "int option"
  diag_sqlite_extended_code :: "int option"
  diag_os_error_code :: "int option"
  diag_retryable :: bool
  diag_durable_outcome :: string
  diag_lock_owner :: string

datatype core_error =
    Validation validation_error
  | NotFound string
  | Conflict string
  | Unavailable string
  | Persistence string
  | PersistenceDiagnostic persistence_diagnostic
  | Execution string
  | InvalidTransition string string

datatype run_state =
    Queued
  | Starting
  | Running
  | RetryWait
  | Succeeded
  | Failed
  | TimedOut
  | Cancelled
  | SkippedOverlap
  | SkippedConcurrency
  | InterruptedUnknown

datatype attempt_state =
    AttStarting
  | AttRunning
  | AttSucceeded
  | AttFailed
  | AttTimedOut
  | AttCancelled
  | AttInterruptedUnknown

definition is_terminal :: "run_state \<Rightarrow> bool" where
  "is_terminal s \<longleftrightarrow> s \<in> {Succeeded, Failed, TimedOut, Cancelled, SkippedOverlap,
                        SkippedConcurrency, InterruptedUnknown}"

text \<open>The names that the derived \<open>Debug\<close> prints.\<close>

fun run_state_debug :: "run_state \<Rightarrow> string" where
  "run_state_debug Queued = ''Queued''"
| "run_state_debug Starting = ''Starting''"
| "run_state_debug Running = ''Running''"
| "run_state_debug RetryWait = ''RetryWait''"
| "run_state_debug Succeeded = ''Succeeded''"
| "run_state_debug Failed = ''Failed''"
| "run_state_debug TimedOut = ''TimedOut''"
| "run_state_debug Cancelled = ''Cancelled''"
| "run_state_debug SkippedOverlap = ''SkippedOverlap''"
| "run_state_debug SkippedConcurrency = ''SkippedConcurrency''"
| "run_state_debug InterruptedUnknown = ''InterruptedUnknown''"

fun attempt_state_debug :: "attempt_state \<Rightarrow> string" where
  "attempt_state_debug AttStarting = ''Starting''"
| "attempt_state_debug AttRunning = ''Running''"
| "attempt_state_debug AttSucceeded = ''Succeeded''"
| "attempt_state_debug AttFailed = ''Failed''"
| "attempt_state_debug AttTimedOut = ''TimedOut''"
| "attempt_state_debug AttCancelled = ''Cancelled''"
| "attempt_state_debug AttInterruptedUnknown = ''InterruptedUnknown''"


section \<open>Transitions\<close>

fun run_legal :: "run_state \<Rightarrow> run_state \<Rightarrow> bool" where
  "run_legal Queued next = (next \<in> {Starting, Cancelled, SkippedOverlap, SkippedConcurrency})"
| "run_legal Starting next = (next \<in> {Running, Failed, Cancelled, InterruptedUnknown})"
| "run_legal Running next =
     (next \<in> {Succeeded, Failed, TimedOut, Cancelled, RetryWait, InterruptedUnknown})"
| "run_legal RetryWait next = (next \<in> {Starting, Cancelled})"
| "run_legal _ _ = False"

text \<open>
  Only the tests of the crate call \<open>transition\<close>: the store changes states in SQL, along
  the relation \<open>store_legal\<close> of the store's theories, which is not this one.
\<close>

definition RunState_transition :: "run_state \<Rightarrow> run_state \<Rightarrow> core_error + run_state" where
  "RunState_transition self next =
     (if run_legal self next then Inr next
      else Inl (InvalidTransition (run_state_debug self) (run_state_debug next)))"

fun attempt_legal :: "attempt_state \<Rightarrow> attempt_state \<Rightarrow> bool" where
  "attempt_legal AttStarting next =
     (next \<in> {AttRunning, AttFailed, AttCancelled, AttInterruptedUnknown})"
| "attempt_legal AttRunning next =
     (next \<in> {AttSucceeded, AttFailed, AttTimedOut, AttCancelled, AttInterruptedUnknown})"
| "attempt_legal _ _ = False"

definition AttemptState_transition ::
    "attempt_state \<Rightarrow> attempt_state \<Rightarrow> core_error + attempt_state" where
  "AttemptState_transition self next =
     (if attempt_legal self next then Inr next
      else Inl (InvalidTransition (attempt_state_debug self) (attempt_state_debug next)))"

text \<open>An attempt state names the run state of the same spelling.\<close>

fun run_of_attempt :: "attempt_state \<Rightarrow> run_state" where
  "run_of_attempt AttStarting = Starting"
| "run_of_attempt AttRunning = Running"
| "run_of_attempt AttSucceeded = Succeeded"
| "run_of_attempt AttFailed = Failed"
| "run_of_attempt AttTimedOut = TimedOut"
| "run_of_attempt AttCancelled = Cancelled"
| "run_of_attempt AttInterruptedUnknown = InterruptedUnknown"


section \<open>State names\<close>

fun run_state_name :: "run_state \<Rightarrow> string" where
  "run_state_name Queued = ''queued''"
| "run_state_name Starting = ''starting''"
| "run_state_name Running = ''running''"
| "run_state_name RetryWait = ''retry_wait''"
| "run_state_name Succeeded = ''succeeded''"
| "run_state_name Failed = ''failed''"
| "run_state_name TimedOut = ''timed_out''"
| "run_state_name Cancelled = ''cancelled''"
| "run_state_name SkippedOverlap = ''skipped_overlap''"
| "run_state_name SkippedConcurrency = ''skipped_concurrency''"
| "run_state_name InterruptedUnknown = ''interrupted_unknown''"

definition parse_run_state :: "string \<Rightarrow> core_error + run_state" where
  "parse_run_state value =
     (if value = ''queued'' then Inr Queued
      else if value = ''starting'' then Inr Starting
      else if value = ''running'' then Inr Running
      else if value = ''retry_wait'' then Inr RetryWait
      else if value = ''succeeded'' then Inr Succeeded
      else if value = ''failed'' then Inr Failed
      else if value = ''timed_out'' then Inr TimedOut
      else if value = ''cancelled'' then Inr Cancelled
      else if value = ''skipped_overlap'' then Inr SkippedOverlap
      else if value = ''skipped_concurrency'' then Inr SkippedConcurrency
      else if value = ''interrupted_unknown'' then Inr InterruptedUnknown
      else Inl (Persistence (''stored run state is outside the domain vocabulary: '' @ value)))"

definition terminal_run_state :: "string \<Rightarrow> bool" where
  "terminal_run_state state \<longleftrightarrow>
     state \<in> {''succeeded'', ''failed'', ''timed_out'', ''cancelled'', ''skipped_overlap'',
              ''skipped_concurrency'', ''interrupted_unknown''}"


section \<open>Terminal states\<close>

lemma run_legal_not_terminal: "run_legal s t \<Longrightarrow> \<not> is_terminal s"
  by (cases s) (auto simp: is_terminal_def)

lemma non_terminal_reaches_terminal:
  "\<not> is_terminal s \<Longrightarrow> run_legal s Cancelled"
  by (cases s) (auto simp: is_terminal_def)


section \<open>Properties\<close>

text \<open>
  A run state is terminal exactly when every transition out of it is refused, so no
  operation that goes through the state machine can leave a terminal state.
\<close>

theorem terminal_iff_no_transition:
  "is_terminal s \<longleftrightarrow> (\<forall>t. RunState_transition s t =
     Inl (InvalidTransition (run_state_debug s) (run_state_debug t)))"
  using run_legal_not_terminal[of s] non_terminal_reaches_terminal[of s]
  by (auto simp: RunState_transition_def)

text \<open>
  The attempt machine refines the run machine: whenever an attempt may change state, a
  run in the state of the same name may make the same change.
\<close>

theorem attempt_refines_run:
  "AttemptState_transition a b = Inr b \<Longrightarrow>
   RunState_transition (run_of_attempt a) (run_of_attempt b) = Inr (run_of_attempt b)"
  by (cases a) (auto simp: AttemptState_transition_def RunState_transition_def split: if_splits)

theorem attempt_refines_run_witness:
  "RunState_transition Running TimedOut = Inr TimedOut"
  using attempt_refines_run[of AttRunning AttTimedOut]
  by (simp add: AttemptState_transition_def)

text \<open>
  The stored name of a run state parses back to the state, every accepted name is the
  name of the state it denotes, and the redaction boundary calls a name terminal exactly
  when it denotes a terminal state of the machine.
\<close>

theorem run_state_names_roundtrip:
  "parse_run_state (run_state_name s) = Inr s \<and>
   (parse_run_state n = Inr s \<longleftrightarrow> n = run_state_name s) \<and>
   (terminal_run_state n \<longleftrightarrow> (\<exists>t. parse_run_state n = Inr t \<and> is_terminal t))"
proof (intro conjI)
  show rt: "parse_run_state (run_state_name s) = Inr s"
    by (cases s) (simp_all add: parse_run_state_def)
  show "parse_run_state n = Inr s \<longleftrightarrow> n = run_state_name s"
    using rt by (auto simp: parse_run_state_def split: if_splits)
  show "terminal_run_state n \<longleftrightarrow> (\<exists>t. parse_run_state n = Inr t \<and> is_terminal t)"
    by (auto simp: parse_run_state_def terminal_run_state_def is_terminal_def)
qed

end
