(* ===== verification/Policy.thy ===== *)
theory Policy
  imports Locron_Time
begin

text \<open>
  The normalized execution policy of a job and its validation:
  \<^verbatim>\<open>crates/locron-core/src/policy.rs\<close>. The small unsigned fields (\<open>u8\<close>, \<open>u16\<close>) are natural
  numbers; no arithmetic is done on them.
\<close>

datatype overlap_policy = OverlapSkip | OverlapReplace | OverlapAllow

datatype missed_run_policy = MissedSkip | MissedLatest | MissedAll

datatype backoff_mode = Fixed | Exponential

record execution_policy =
  overlap :: overlap_policy
  missed_run :: missed_run_policy
  start_deadline :: "duration_micros option"
  catch_up_limit :: nat
  retries :: nat
  retry_delay_base :: duration_micros
  retry_cap :: duration_micros
  backoff :: backoff_mode
  retry_timeout :: bool
  timeout :: "duration_micros option"
  termination_grace :: duration_micros
  per_job_concurrency :: nat

definition ExecutionPolicy_default :: execution_policy where
  "ExecutionPolicy_default =
     \<lparr>overlap = OverlapSkip,
      missed_run = MissedSkip,
      start_deadline = None,
      catch_up_limit = 100,
      retries = 0,
      retry_delay_base = DurationMicros 10000000,
      retry_cap = DurationMicros 300000000,
      backoff = Exponential,
      retry_timeout = False,
      timeout = Some (DurationMicros 60000000),
      termination_grace = DurationMicros 5000000,
      per_job_concurrency = 1\<rparr>"

definition ExecutionPolicy_validate :: "execution_policy \<Rightarrow> nat \<Rightarrow> validation_error + unit" where
  "ExecutionPolicy_validate self global_concurrency =
     (if \<not> (1 \<le> global_concurrency \<and> global_concurrency \<le> 64)
      then Inl (ValidationError_new ''global_concurrency'' ''out_of_range''
                  ''must be from 1 through 64'')
      else if \<not> (1 \<le> catch_up_limit self \<and> catch_up_limit self \<le> 1000)
      then Inl (ValidationError_new ''catch_up_limit'' ''out_of_range''
                  ''must be from 1 through 1000'')
      else if retries self > 10
      then Inl (ValidationError_new ''retries'' ''out_of_range'' ''must be from 0 through 10'')
      else
        let allowed = (case overlap self of
              OverlapAllow \<Rightarrow> 2 \<le> per_job_concurrency self
                              \<and> per_job_concurrency self \<le> global_concurrency
            | _ \<Rightarrow> per_job_concurrency self = 1)
        in if \<not> allowed
           then Inl (ValidationError_new ''per_job_concurrency'' ''invalid_for_overlap''
                  ''skip/replace require 1; allow requires 2 through global concurrency'')
           else Inr ())"

text \<open>The bounds every accepted policy satisfies.\<close>

definition policy_bounds :: "execution_policy \<Rightarrow> nat \<Rightarrow> bool" where
  "policy_bounds p g \<longleftrightarrow>
     1 \<le> g \<and> g \<le> 64 \<and>
     1 \<le> catch_up_limit p \<and> catch_up_limit p \<le> 1000 \<and>
     retries p \<le> 10 \<and>
     1 \<le> per_job_concurrency p \<and> per_job_concurrency p \<le> g \<and>
     (overlap p = OverlapAllow \<longleftrightarrow> 2 \<le> per_job_concurrency p)"

text \<open>
  Policy validation accepts exactly the policies whose limits are in range and whose
  per-job concurrency matches the overlap policy: one slot for skip and replace, two or
  more and at most the global limit for allow. The default policy is accepted under every
  valid global limit.
\<close>

theorem policy_validate_iff:
  "(ExecutionPolicy_validate p g = Inr () \<longleftrightarrow> policy_bounds p g) \<and>
   (ExecutionPolicy_validate ExecutionPolicy_default g = Inr () \<longleftrightarrow> 1 \<le> g \<and> g \<le> 64)"
  by (cases "overlap p")
    (auto simp: ExecutionPolicy_validate_def policy_bounds_def ExecutionPolicy_default_def)

end
