(* ===== verification/Admission.thy ===== *)
theory Admission
  imports Policy "HOL-Library.AList_Mapping" "HOL-Library.Multiset"
begin

text \<open>
  The pure admission and retry helpers of \<^verbatim>\<open>crates/locron-engine/src/admission.rs\<close>:
  round-robin selection across jobs, and the retry delay and decision. The \<open>BTreeMap\<close> of
  queues is a \<open>mapping\<close> whose keys are read in order; \<open>std::time::Duration\<close> is a count of
  nanoseconds with its documented maximum.
\<close>

section \<open>Round-robin selection\<close>

record 'a candidate =
  cand_job_id :: string
  cand_value :: 'a

type_synonym 'a grouped = "(string, 'a candidate list) mapping"

definition group_by_job :: "'a candidate list \<Rightarrow> 'a grouped" where
  "group_by_job cs =
     fold (\<lambda>c g. Mapping.map_default (cand_job_id c) [] (\<lambda>q. q @ [c]) g) cs Mapping.empty"

text \<open>\<open>partition_point\<close> on a slice whose elements that satisfy the predicate come first.\<close>

definition partition_point :: "('a \<Rightarrow> bool) \<Rightarrow> 'a list \<Rightarrow> nat" where
  "partition_point p xs = length (takeWhile p xs)"

definition rotated_jobs :: "string option \<Rightarrow> string list \<Rightarrow> string list" where
  "rotated_jobs after_job jobs =
     (case after_job of
        None \<Rightarrow> jobs
      | Some after \<Rightarrow> rotate (partition_point (\<lambda>job. job \<le> after) jobs) jobs)"

definition pop_front :: "string \<Rightarrow> 'a grouped \<Rightarrow> ('a candidate \<times> 'a grouped) option" where
  "pop_front job g =
     (case Mapping.lookup g job of
        Some (x # q) \<Rightarrow> Some (x, Mapping.update job q g)
      | _ \<Rightarrow> None)"

text \<open>One pass of the inner \<open>for\<close> loop; it breaks when the capacity is reached.\<close>

fun rr_pass ::
    "nat \<Rightarrow> string list \<Rightarrow> 'a grouped \<Rightarrow> 'a candidate list \<Rightarrow> bool
     \<Rightarrow> 'a grouped \<times> 'a candidate list \<times> bool" where
  "rr_pass capacity [] g selected progressed = (g, selected, progressed)"
| "rr_pass capacity (job # jobs) g selected progressed =
     (case pop_front job g of
        None \<Rightarrow> rr_pass capacity jobs g selected progressed
      | Some (item, g') \<Rightarrow>
          (if length (selected @ [item]) = capacity then (g', selected @ [item], True)
           else rr_pass capacity jobs g' (selected @ [item]) True))"

lemma rr_pass_progress:
  "rr_pass capacity jobs g selected progressed = (g', selected', progressed') \<Longrightarrow>
   length selected \<le> length selected' \<and>
   (progressed' \<longrightarrow> \<not> progressed \<longrightarrow> length selected < length selected')"
proof (induction capacity jobs g selected progressed rule: rr_pass.induct)
  case (1 capacity g selected progressed)
  then show ?case by simp
next
  case (2 capacity job jobs g selected progressed)
  show ?case
  proof (cases "pop_front job g")
    case None
    with 2 show ?thesis by simp
  next
    case (Some x)
    with 2 show ?thesis by (cases x) (fastforce split: if_splits)
  qed
qed

text \<open>The outer \<open>while\<close> loop.\<close>

function rr_loop ::
    "nat \<Rightarrow> string list \<Rightarrow> 'a grouped \<Rightarrow> 'a candidate list \<Rightarrow> 'a candidate list" where
  "rr_loop capacity jobs g selected =
     (if length selected < capacity
      then (case rr_pass capacity jobs g selected False of
              (g', selected', progressed) \<Rightarrow>
                if \<not> progressed then selected' else rr_loop capacity jobs g' selected')
      else selected)"
  by pat_completeness auto
termination
  by (relation "measure (\<lambda>(capacity, _, _, selected). capacity - length selected)")
    (auto dest!: sym[of "(_, _, True)"] dest: rr_pass_progress intro!: diff_less_mono2)

declare rr_loop.simps [simp del]

definition round_robin ::
    "'a candidate list \<Rightarrow> string option \<Rightarrow> nat \<Rightarrow> 'a candidate list" where
  "round_robin candidates after_job capacity =
     (if capacity = 0 then []
      else
        let grouped = group_by_job candidates;
            jobs = rotated_jobs after_job (Mapping.ordered_keys grouped)
        in rr_loop capacity jobs grouped [])"

subsection \<open>Queues as functions\<close>

definition queue_of :: "'a grouped \<Rightarrow> string \<Rightarrow> 'a candidate list" where
  "queue_of g job = (case Mapping.lookup g job of None \<Rightarrow> [] | Some q \<Rightarrow> q)"

lemma queue_of_empty [simp]: "queue_of Mapping.empty job = []"
  by (simp add: queue_of_def)

lemma queue_of_map_default:
  "queue_of (Mapping.map_default k [] f g) job = (if job = k then f (queue_of g k) else queue_of g job)"
  by (auto simp: queue_of_def Mapping.lookup_map_default' Mapping.lookup_default_def)

lemma queue_of_update [simp]:
  "queue_of (Mapping.update k q g) job = (if job = k then q else queue_of g job)"
  by (simp add: queue_of_def lookup_update')

lemma pop_front_None: "pop_front job g = None \<longleftrightarrow> queue_of g job = []"
  by (auto simp: pop_front_def queue_of_def split: option.splits list.splits)

lemma pop_front_Some:
  "pop_front job g = Some (x, g') \<longleftrightarrow>
   (\<exists>q. queue_of g job = x # q \<and> g' = Mapping.update job q g)"
  by (auto simp: pop_front_def queue_of_def split: option.splits list.splits)

lemma queue_of_group: "queue_of (group_by_job cs) job = filter (\<lambda>c. cand_job_id c = job) cs"
proof -
  have "queue_of (fold (\<lambda>c g. Mapping.map_default (cand_job_id c) [] (\<lambda>q. q @ [c]) g) cs g) job
        = queue_of g job @ filter (\<lambda>c. cand_job_id c = job) cs" for g
    by (induction cs arbitrary: g) (auto simp: queue_of_map_default)
  then show ?thesis by (simp add: group_by_job_def)
qed

lemma keys_group: "Mapping.keys (group_by_job cs) = cand_job_id ` set cs"
proof -
  have "Mapping.keys (fold (\<lambda>c g. Mapping.map_default (cand_job_id c) [] (\<lambda>q. q @ [c]) g) cs g)
        = Mapping.keys g \<union> cand_job_id ` set cs" for g
    by (induction cs arbitrary: g) auto
  then show ?thesis by (simp add: group_by_job_def)
qed

lemma jobs_group:
  "distinct (rotated_jobs a (Mapping.ordered_keys (group_by_job cs)))"
  "set (rotated_jobs a (Mapping.ordered_keys (group_by_job cs))) = cand_job_id ` set cs"
  by (simp_all add: rotated_jobs_def keys_group split: option.split)


subsection \<open>One pass in closed form\<close>

definition waiting :: "'a grouped \<Rightarrow> string list \<Rightarrow> string list" where
  "waiting g jobs = filter (\<lambda>job. queue_of g job \<noteq> []) jobs"

lemma waiting_simps [simp]:
  "waiting g [] = []"
  "waiting g (job # jobs) = (if queue_of g job = [] then waiting g jobs else job # waiting g jobs)"
  by (simp_all add: waiting_def)

lemma waiting_update [simp]:
  "job \<notin> set jobs \<Longrightarrow> waiting (Mapping.update job q g) jobs = waiting g jobs"
  unfolding waiting_def by (rule filter_cong) auto

lemma set_waiting [simp]: "set (waiting g jobs) = {job \<in> set jobs. queue_of g job \<noteq> []}"
  by (simp add: waiting_def)

text \<open>The jobs a pass serves: those with work left, in order, while there is capacity.\<close>

definition served :: "nat \<Rightarrow> 'a candidate list \<Rightarrow> 'a grouped \<Rightarrow> string list \<Rightarrow> string list" where
  "served capacity selected g jobs = take (capacity - length selected) (waiting g jobs)"

lemma served_waiting:
  "set (served capacity selected g jobs) \<subseteq> set (waiting g jobs)"
  "distinct jobs \<Longrightarrow> distinct (served capacity selected g jobs)"
  by (auto simp: served_def waiting_def dest: in_set_takeD)

lemma rr_pass_closed:
  assumes "distinct jobs" "length selected < capacity"
    and "rr_pass capacity jobs g selected progressed = (g', selected', progressed')"
  shows "selected' = selected @ map (\<lambda>job. hd (queue_of g job)) (served capacity selected g jobs) \<and>
         (\<forall>job. queue_of g' job = (if job \<in> set (served capacity selected g jobs)
                                  then tl (queue_of g job) else queue_of g job)) \<and>
         (progressed' \<longleftrightarrow> progressed \<or> waiting g jobs \<noteq> [])"
  using assms unfolding served_def
proof (induction jobs arbitrary: g selected progressed)
  case Nil
  then show ?case by simp
next
  case (Cons job jobs)
  show ?case
  proof (cases "queue_of g job = []")
    case True
    then have "pop_front job g = None" by (simp add: pop_front_None)
    with Cons True show ?thesis by simp
  next
    case False
    then obtain x q where q: "queue_of g job = x # q" by (cases "queue_of g job") auto
    then have pop: "pop_front job g = Some (x, Mapping.update job q g)"
      by (simp add: pop_front_Some)
    show ?thesis
    proof (cases "length (selected @ [x]) = capacity")
      case True
      then have "g' = Mapping.update job q g" "selected' = selected @ [x]" "progressed'"
        using Cons.prems(3) pop by simp_all
      moreover have "capacity - length selected = 1" using True by auto
      ultimately show ?thesis using q by simp
    next
      case False
      then have less: "length (selected @ [x]) < capacity" using Cons.prems by simp
      have notin: "job \<notin> set jobs" and dist: "distinct jobs" using Cons.prems by simp_all
      have cut: "capacity - length selected = Suc (capacity - length (selected @ [x]))"
        using less by simp
      have unserved: "job \<notin> set (take m (waiting g jobs))" for m
        using notin by (auto dest!: in_set_takeD)
      have heads: "map (\<lambda>j. hd (queue_of (Mapping.update job q g) j)) (take m (waiting g jobs))
          = map (\<lambda>j. hd (queue_of g j)) (take m (waiting g jobs))" for m
        using unserved by auto
      have "rr_pass capacity jobs (Mapping.update job q g) (selected @ [x]) True
          = (g', selected', progressed')"
        using Cons.prems(3) pop False by simp
      from Cons.IH[OF dist less this] q notin unserved show ?thesis
        by (auto simp: cut heads)
    qed
  qed
qed


subsection \<open>The whole selection\<close>

text \<open>
  After any number of completed passes every job has had the same number of turns, as far
  as its queue reaches; the last pass may stop early. This is the shape of a fair state.
\<close>

definition taken :: "'a candidate list \<Rightarrow> string \<Rightarrow> 'a candidate list" where
  "taken selected job = filter (\<lambda>c. cand_job_id c = job) selected"

definition rr_state ::
    "(string \<Rightarrow> 'a candidate list) \<Rightarrow> string list \<Rightarrow> nat \<Rightarrow> 'a grouped \<Rightarrow> 'a candidate list \<Rightarrow> bool" where
  "rr_state Q jobs k g selected \<longleftrightarrow>
     (\<forall>job. Q job = taken selected job @ queue_of g job) \<and>
     (\<forall>job c. c \<in> set (Q job) \<longrightarrow> cand_job_id c = job) \<and>
     (\<forall>job. job \<notin> set jobs \<longrightarrow> Q job = []) \<and>
     (\<forall>job \<in> set jobs. length (taken selected job) = min k (length (Q job)))"

definition rr_result ::
    "(string \<Rightarrow> 'a candidate list) \<Rightarrow> string list \<Rightarrow> nat \<Rightarrow> 'a candidate list \<Rightarrow> bool" where
  "rr_result Q jobs capacity selected \<longleftrightarrow>
     (\<forall>job. \<exists>rest. Q job = taken selected job @ rest) \<and>
     length selected \<le> capacity \<and>
     (length selected < capacity \<longrightarrow> (\<forall>job. Q job = taken selected job)) \<and>
     (\<exists>k. \<forall>job \<in> set jobs.
        length (taken selected job) \<in> {min k (length (Q job)), min (Suc k) (length (Q job))})"

lemma rr_stateD:
  assumes "rr_state Q jobs k g selected"
  shows "Q job = taken selected job @ queue_of g job"
    and "c \<in> set (Q job) \<Longrightarrow> cand_job_id c = job"
    and "job \<notin> set jobs \<Longrightarrow> Q job = []"
    and "job \<in> set jobs \<Longrightarrow> length (taken selected job) = min k (length (Q job))"
  using assms unfolding rr_state_def by blast+

lemma taken_append [simp]: "taken (xs @ ys) job = taken xs job @ taken ys job"
  by (simp add: taken_def)

lemma taken_heads:
  assumes "distinct jobs" "\<And>job. job \<in> set jobs \<Longrightarrow> cand_job_id (h job) = job"
  shows "taken (map h jobs) job = (if job \<in> set jobs then [h job] else [])"
  using assms by (induction jobs) (auto simp: taken_def)

lemma rr_state_pass:
  assumes st: "rr_state Q jobs k g selected" and dist: "distinct jobs"
    and less: "length selected < capacity"
    and pass: "rr_pass capacity jobs g selected False = (g', selected', progressed)"
  shows "taken selected' job = taken selected job @
           (if job \<in> set (served capacity selected g jobs) then [hd (queue_of g job)] else [])"
    and "Q job = taken selected' job @ queue_of g' job"
    and "length selected' = length selected + length (served capacity selected g jobs)"
proof -
  let ?served = "served capacity selected g jobs"
  note closed = rr_pass_closed[OF dist less pass]
  note wait = served_waiting(1)[of capacity selected g jobs] served_waiting(2)[OF dist]
  have head: "cand_job_id (hd (queue_of g j)) = j" if "j \<in> set ?served" for j
  proof -
    from that wait have "queue_of g j \<noteq> []" by auto
    then have "hd (queue_of g j) \<in> set (Q j)" using st by (auto simp: rr_state_def)
    then show ?thesis using st by (auto simp: rr_state_def)
  qed
  show t: "taken selected' job = taken selected job @
      (if job \<in> set ?served then [hd (queue_of g job)] else [])"
    using closed taken_heads[of ?served "\<lambda>j. hd (queue_of g j)", OF wait(2) head] by simp
  have "queue_of g job \<noteq> []" if "job \<in> set ?served" using that wait by auto
  with t closed st show "Q job = taken selected' job @ queue_of g' job"
    by (auto simp: rr_state_def)
  show "length selected' = length selected + length ?served" using closed by simp
qed

lemma rr_state_taken:
  assumes st: "rr_state Q jobs k g selected" and dist: "distinct jobs"
    and less: "length selected < capacity"
    and pass: "rr_pass capacity jobs g selected False = (g', selected', progressed)"
    and job: "job \<in> set jobs"
  shows "length (taken selected' job) =
    (if job \<in> set (served capacity selected g jobs) then min (Suc k) (length (Q job))
     else min k (length (Q job)))"
proof -
  note Q = rr_stateD(1)[OF st, of job] and len = rr_stateD(4)[OF st job]
  have "queue_of g job \<noteq> []" if "job \<in> set (served capacity selected g jobs)"
    using that served_waiting(1)[of capacity selected g jobs] by auto
  then have "k < length (Q job)" if "job \<in> set (served capacity selected g jobs)"
    using that len arg_cong[OF Q, of length] by (cases "queue_of g job") auto
  with len rr_state_pass(1)[OF st dist less pass, of job] show ?thesis
    by (cases "job \<in> set (served capacity selected g jobs)") simp_all
qed

lemma rr_loop_result:
  assumes "rr_state Q jobs k g selected" "distinct jobs" "length selected \<le> capacity"
  shows "rr_result Q jobs capacity (rr_loop capacity jobs g selected)"
  using assms
proof (induction capacity jobs g selected arbitrary: k rule: rr_loop.induct)
  case (1 capacity jobs g selected)
  note st = 1(2) and dist = 1(3) and le = 1(4)
  obtain g' selected' progressed
    where pass: "rr_pass capacity jobs g selected False = (g', selected', progressed)"
    by (metis prod_cases3)
  let ?served = "served capacity selected g jobs"
  show ?case
  proof (cases "length selected < capacity")
    case False
    then have "rr_loop capacity jobs g selected = selected"
      by (simp add: rr_loop.simps[of capacity jobs g selected])
    then show ?thesis
      using rr_stateD(1,4)[OF st] le False unfolding rr_result_def by auto
  next
    case less: True
    note closed = rr_pass_closed[OF dist less pass]
    note len = rr_state_taken[OF st dist less pass]
    show ?thesis
    proof (cases progressed)
      case False
      then have "waiting g jobs = []" using closed by simp
      then have "queue_of g job = []" for job
        using rr_stateD(1)[OF st, of job] rr_stateD(3)[OF st, of job]
        by (cases "job \<in> set jobs") (auto simp: waiting_def filter_empty_conv)
      then have "\<forall>job. Q job = taken selected job"
        using rr_stateD(1)[OF st] by simp
      moreover have "selected' = selected"
        using closed \<open>waiting g jobs = []\<close> by (simp add: served_def)
      moreover have "\<forall>job\<in>set jobs. length (taken selected job) = min k (length (Q job))"
        using rr_stateD(4)[OF st] by simp
      ultimately show ?thesis
        using False less pass unfolding rr_result_def rr_loop.simps[of capacity jobs g selected]
        by auto
    next
      case True
      then have step: "rr_loop capacity jobs g selected = rr_loop capacity jobs g' selected'"
        using less pass by (simp add: rr_loop.simps[of capacity jobs g selected])
      have Q: "Q job = taken selected' job @ queue_of g' job" for job
        by (rule rr_state_pass(2)[OF st dist less pass])
      show ?thesis
      proof (cases "length (waiting g jobs) \<le> capacity - length selected")
        case full: True
        then have serves: "?served = waiting g jobs" by (simp add: served_def)
        have "length (taken selected' job) = min (Suc k) (length (Q job))" if "job \<in> set jobs" for job
        proof (cases "queue_of g job = []")
          case True
          then have "length (Q job) \<le> k"
            using rr_stateD(1)[OF st, of job] rr_stateD(4)[OF st that] by simp
          then show ?thesis using len[OF that] serves True by simp
        next
          case False
          then show ?thesis using len[OF that] serves that by simp
        qed
        then have "rr_state Q jobs (Suc k) g' selected'"
          unfolding rr_state_def using Q rr_stateD(2,3)[OF st] by blast
        moreover have "length selected' \<le> capacity"
          using closed full less by (simp add: served_def)
        ultimately show ?thesis
          using 1(1)[OF less pass[symmetric] refl] True dist step by simp
      next
        case False
        then have "length selected' = capacity"
          using closed less by (simp add: served_def)
        then have "rr_loop capacity jobs g selected = selected'"
          using step by (simp add: rr_loop.simps[of capacity jobs g' selected'])
        moreover have "length (taken selected' job) \<in> {min k (length (Q job)), min (Suc k) (length (Q job))}"
          if "job \<in> set jobs" for job
          using len[OF that] by simp
        ultimately show ?thesis
          unfolding rr_result_def using Q \<open>length selected' = capacity\<close> by (metis nat_less_le order_refl)
      qed
    qed
  qed
qed

lemma rr_pass_extends:
  "rr_pass capacity jobs g selected progressed = (g', selected', progressed') \<Longrightarrow>
   \<exists>more. selected' = selected @ more"
proof (induction capacity jobs g selected progressed rule: rr_pass.induct)
  case (1 capacity g selected progressed)
  then show ?case by simp
next
  case (2 capacity job jobs g selected progressed)
  then show ?case by (cases "pop_front job g") (fastforce split: if_splits)+
qed

lemma rr_loop_extends: "\<exists>more. rr_loop capacity jobs g selected = selected @ more"
proof (induction capacity jobs g selected rule: rr_loop.induct)
  case (1 capacity jobs g selected)
  obtain g' selected' progressed
    where pass: "rr_pass capacity jobs g selected False = (g', selected', progressed)"
    by (metis prod_cases3)
  from rr_pass_extends[OF pass] obtain more where "selected' = selected @ more" by blast
  with 1[OF _ pass[symmetric] refl] pass show ?case
    by (auto simp: rr_loop.simps[of capacity jobs g selected])
qed

lemma group_rr_state:
  "rr_state (\<lambda>job. filter (\<lambda>c. cand_job_id c = job) cs)
     (rotated_jobs a (Mapping.ordered_keys (group_by_job cs))) 0 (group_by_job cs) []"
  by (auto simp: rr_state_def taken_def queue_of_group jobs_group filter_empty_conv)

lemma round_robin_result:
  "rr_result (\<lambda>job. filter (\<lambda>c. cand_job_id c = job) cs)
     (rotated_jobs a (Mapping.ordered_keys (group_by_job cs))) capacity (round_robin cs a capacity)"
proof (cases "capacity = 0")
  case True
  then show ?thesis by (auto simp: round_robin_def rr_result_def taken_def intro!: exI[of _ 0])
next
  case False
  then show ?thesis
    using rr_loop_result[OF group_rr_state[of cs a] jobs_group(1), of capacity]
    by (simp add: round_robin_def Let_def)
qed

lemma rr_result_mset:
  fixes cs :: "'a candidate list"
  assumes "rr_result (\<lambda>job. filter (\<lambda>c. cand_job_id c = job) cs) jobs capacity r"
  shows "mset r \<subseteq># mset cs" and "length r < capacity \<Longrightarrow> mset r = mset cs"
proof -
  have taken: "count (mset (taken r (cand_job_id c))) c = count (mset r) c" for c
    by (simp add: taken_def)
  have all: "count (mset (filter (\<lambda>x. cand_job_id x = cand_job_id c) cs)) c = count (mset cs) c" for c :: "'a candidate"
    by simp
  show "mset r \<subseteq># mset cs"
  proof (rule mset_subset_eqI)
    fix c :: "'a candidate"
    from assms obtain rest
      where "filter (\<lambda>x. cand_job_id x = cand_job_id c) cs = taken r (cand_job_id c) @ rest"
      unfolding rr_result_def by blast
    then have "count (mset (filter (\<lambda>x. cand_job_id x = cand_job_id c) cs)) c
        = count (mset (taken r (cand_job_id c))) c + count (mset rest) c" by (simp del: mset_filter)
    then show "count (mset r) c \<le> count (mset cs) c" unfolding taken all by simp
  qed
  show "mset r = mset cs" if "length r < capacity"
  proof (rule multiset_eqI)
    fix c :: "'a candidate"
    from assms that have "filter (\<lambda>x. cand_job_id x = cand_job_id c) cs = taken r (cand_job_id c)"
      unfolding rr_result_def by blast
    then show "count (mset r) c = count (mset cs) c" using taken[of c] all[of c] by simp
  qed
qed


section \<open>Retry decisions\<close>

type_synonym duration = nat \<comment> \<open>nanoseconds\<close>

definition Duration_MAX :: duration where
  "Duration_MAX = u64_max * 1000000000 + 999999999"

definition Duration_from_micros :: "nat \<Rightarrow> duration" where
  "Duration_from_micros us = us * 1000"

definition Duration_as_micros :: "duration \<Rightarrow> nat" where
  "Duration_as_micros d = d div 1000"

definition Duration_checked_mul :: "duration \<Rightarrow> nat \<Rightarrow> duration option" where
  "Duration_checked_mul d m = (if d * m \<le> Duration_MAX then Some (d * m) else None)"

text \<open>\<open>1_u32.checked_shl(shift)\<close>.\<close>

definition u32_one_checked_shl :: "nat \<Rightarrow> nat option" where
  "u32_one_checked_shl shift = (if shift < 32 then Some (2 ^ shift) else None)"

definition unwrap_or :: "'a \<Rightarrow> 'a option \<Rightarrow> 'a" where
  "unwrap_or d x = (case x of None \<Rightarrow> d | Some y \<Rightarrow> y)"

definition retry_delay :: "duration \<Rightarrow> duration \<Rightarrow> nat \<Rightarrow> bool \<Rightarrow> duration" where
  "retry_delay base cap attempt exponential =
     (if \<not> exponential \<or> attempt \<le> 1 then min base cap
      else
        let shift = min (attempt - 1) 63
        in min (unwrap_or Duration_MAX
                  (Duration_checked_mul base (unwrap_or u32_max (u32_one_checked_shl shift)))) cap)"

datatype retry_class =
    RetrySucceeded
  | KnownFailure
  | Timeout
  | RetryCancelled
  | Configuration
  | Replacement
  | RetryInterruptedUnknown

record retry_decision =
  not_before_us :: int
  classification :: string

definition retry_classification :: "execution_policy \<Rightarrow> retry_class \<Rightarrow> string option" where
  "retry_classification policy class =
     (case class of
        KnownFailure \<Rightarrow> Some ''known_failure''
      | Timeout \<Rightarrow> if retry_timeout policy then Some ''timeout'' else None
      | _ \<Rightarrow> None)"

definition decide_retry ::
    "execution_policy \<Rightarrow> nat \<Rightarrow> int \<Rightarrow> retry_class \<Rightarrow> retry_decision option" where
  "decide_retry policy attempt completed_at_us class =
     (if attempt = 0 \<or> attempt > retries policy then None
      else
        case retry_classification policy class of
          None \<Rightarrow> None
        | Some name \<Rightarrow>
            let delay = retry_delay (Duration_from_micros (get (retry_delay_base policy)))
                          (Duration_from_micros (get (retry_cap policy)))
                          attempt (backoff policy = Exponential)
            in Some \<lparr>not_before_us =
                       i64_saturating (completed_at_us +
                         unwrap_or i64_max (i64_try_from (Duration_as_micros delay))),
                     classification = name\<rparr>)"

lemma unwrap_or_simps [simp]: "unwrap_or d None = d" "unwrap_or d (Some x) = x"
  by (simp_all add: unwrap_or_def)

definition backoff_factor :: "nat \<Rightarrow> nat" where
  "backoff_factor n = unwrap_or u32_max (u32_one_checked_shl (min (n - 1) 63))"

lemma backoff_factor_eq: "backoff_factor n = (if n \<le> 32 then 2 ^ (n - 1) else u32_max)"
  by (auto simp: backoff_factor_def u32_one_checked_shl_def)

lemma backoff_factor_mono: "a \<le> b \<Longrightarrow> backoff_factor a \<le> backoff_factor b"
proof -
  assume "a \<le> b"
  have "(2::nat) ^ (a - 1) \<le> 2 ^ 31" if "a \<le> 32"
    using that by (intro power_increasing) auto
  moreover have "(2::nat) ^ (a - 1) \<le> 2 ^ (b - 1)"
    using \<open>a \<le> b\<close> by (intro power_increasing) auto
  ultimately show ?thesis
    using \<open>a \<le> b\<close> by (auto simp: backoff_factor_eq u32_max_def)
qed

lemma retry_delay_factor:
  assumes "cap \<le> Duration_MAX"
  shows "retry_delay base cap attempt exponential =
    min (base * (if exponential then backoff_factor attempt else 1)) cap"
proof -
  have "backoff_factor attempt = 1" if "attempt \<le> 1"
    using that by (simp add: backoff_factor_eq)
  moreover have "min (unwrap_or Duration_MAX (Duration_checked_mul base m)) cap = min (base * m) cap" for m
    using assms by (auto simp: Duration_checked_mul_def)
  ultimately show ?thesis
    by (auto simp: retry_delay_def Let_def backoff_factor_def[of attempt])
qed

lemma from_micros_le_MAX: "valid_duration d \<Longrightarrow> Duration_from_micros (get d) \<le> Duration_MAX"
  by (simp add: valid_duration_def Duration_from_micros_def Duration_MAX_def u64_max_def)

lemma as_micros_min:
  "Duration_as_micros (min (Duration_from_micros a * m) (Duration_from_micros b)) = min (a * m) b"
proof -
  have "Duration_from_micros a * m = Duration_from_micros (a * m)"
    by (simp add: Duration_from_micros_def)
  then show ?thesis
    by (auto simp: Duration_as_micros_def Duration_from_micros_def min_def)
qed


section \<open>Properties\<close>

text \<open>
  Round-robin selection returns exactly as many items as the capacity and the candidates
  allow, it selects only candidates, each at most as often as it was offered, and within one
  job it takes the candidates from the front of the queue in the order they were queued.
\<close>

theorem round_robin_selects:
  "length (round_robin cs after_job capacity) = min capacity (length cs) \<and>
   mset (round_robin cs after_job capacity) \<subseteq># mset cs \<and>
   (\<exists>rest. filter (\<lambda>c. cand_job_id c = job) cs =
      filter (\<lambda>c. cand_job_id c = job) (round_robin cs after_job capacity) @ rest)"
proof -
  let ?r = "round_robin cs after_job capacity"
  note res = round_robin_result[of cs after_job capacity]
  have sub: "mset ?r \<subseteq># mset cs" by (rule rr_result_mset(1)[OF res])
  have "length ?r \<le> capacity" using res by (simp add: rr_result_def)
  moreover have "length ?r \<le> length cs" using size_mset_mono[OF sub] by simp
  moreover have "length ?r = length cs" if "length ?r < capacity"
    using rr_result_mset(2)[OF res that] by (metis size_mset)
  ultimately have "length ?r = min capacity (length cs)" by linarith
  moreover have "\<exists>rest. filter (\<lambda>c. cand_job_id c = job) cs = taken ?r job @ rest"
    using res unfolding rr_result_def by blast
  ultimately show ?thesis using sub by (simp add: taken_def)
qed

text \<open>
  A job that still has unselected candidates is behind no other job by more than one
  selected item, so a noisy job cannot crowd out the others.
\<close>

theorem round_robin_fair:
  assumes "length (filter (\<lambda>c. cand_job_id c = b) (round_robin cs after_job capacity))
           < length (filter (\<lambda>c. cand_job_id c = b) cs)"
  shows "length (filter (\<lambda>c. cand_job_id c = a) (round_robin cs after_job capacity))
         \<le> Suc (length (filter (\<lambda>c. cand_job_id c = b) (round_robin cs after_job capacity)))"
proof -
  let ?r = "round_robin cs after_job capacity"
  let ?Q = "\<lambda>job. filter (\<lambda>c. cand_job_id c = job) cs"
  note res = round_robin_result[of cs after_job capacity]
  from res obtain k where k: "\<And>job. job \<in> cand_job_id ` set cs \<Longrightarrow>
      length (taken ?r job) \<in> {min k (length (?Q job)), min (Suc k) (length (?Q job))}"
    unfolding rr_result_def jobs_group(2) by blast
  from assms have "b \<in> cand_job_id ` set cs"
    by (cases "?Q b") (auto dest: filter_eq_ConsD)
  with k[of b] assms have "k \<le> length (taken ?r b)" by (auto simp: taken_def)
  moreover have "length (taken ?r a) \<le> Suc k"
  proof (cases "a \<in> cand_job_id ` set cs")
    case True
    then show ?thesis using k[of a] by auto
  next
    case False
    then have "?Q a = []" by (auto simp: filter_empty_conv)
    then show ?thesis using res unfolding rr_result_def by (metis append_is_Nil_conv le0 list.size(3))
  qed
  ultimately show ?thesis by (simp add: taken_def)
qed

text \<open>
  With capacity for it, the first turn goes round every job once, in the order of the job
  identities, starting after the job that was admitted last.
\<close>

theorem round_robin_first_turn:
  "map cand_job_id (take (card (cand_job_id ` set cs)) (round_robin cs after_job capacity)) =
   take capacity (rotated_jobs after_job (sorted_list_of_set (cand_job_id ` set cs)))"
proof (cases "capacity = 0")
  case True
  then show ?thesis by (simp add: round_robin_def)
next
  case False
  let ?g = "group_by_job cs"
  let ?jobs = "rotated_jobs after_job (Mapping.ordered_keys ?g)"
  have keys: "Mapping.ordered_keys ?g = sorted_list_of_set (cand_job_id ` set cs)"
    by (simp add: Mapping.ordered_keys_def keys_group)
  have wait: "waiting ?g ?jobs = ?jobs"
    by (auto simp: waiting_def jobs_group queue_of_group filter_empty_conv intro!: filter_True)
  obtain g' sel' prog where pass: "rr_pass capacity ?jobs ?g [] False = (g', sel', prog)"
    by (metis prod_cases3)
  from False have pos: "length ([] :: 'a candidate list) < capacity" by simp
  note closed = rr_pass_closed[OF jobs_group(1) pos pass]
  have head: "cand_job_id (hd (queue_of ?g job)) = job" if "job \<in> set ?jobs" for job
  proof -
    from that have "queue_of ?g job \<noteq> []" by (auto simp: jobs_group queue_of_group filter_empty_conv)
    then have "hd (queue_of ?g job) \<in> set (queue_of ?g job)" by simp
    then show ?thesis by (simp add: queue_of_group)
  qed
  have sel: "map cand_job_id sel' = take capacity ?jobs"
    using closed head wait by (auto simp: served_def intro!: map_idI dest: in_set_takeD)
  have "\<exists>more. round_robin cs after_job capacity = sel' @ more"
    using False pass rr_loop_extends[of capacity ?jobs g' sel']
    by (auto simp: round_robin_def Let_def rr_loop.simps[of capacity ?jobs ?g "[]"])
  then obtain more where more: "round_robin cs after_job capacity = sel' @ more" by blast
  have card: "card (cand_job_id ` set cs) = length ?jobs"
    using distinct_card[OF jobs_group(1)] by (simp add: jobs_group)
  have len: "length sel' = min capacity (length ?jobs)" using arg_cong[OF sel, of length] by simp
  have "length (round_robin cs after_job capacity) \<le> capacity"
    using round_robin_result[of cs after_job capacity] by (simp add: rr_result_def)
  then have "take (length ?jobs) (sel' @ more) = sel'"
    using len more by (cases "capacity \<le> length ?jobs") auto
  then show ?thesis using sel more card by (simp add: keys)
qed

text \<open>
  C30: under a validated policy a retry is planned exactly for the first attempts up to the
  configured number of retries, after a known failure or, when the policy opts in, a
  timeout; its delay is the base delay, doubled per attempt under exponential backoff,
  capped at the configured maximum, with no overflow.
\<close>

theorem decide_retry_exact:
  assumes "policy_bounds p g" and "valid_duration (retry_cap p)"
  shows "decide_retry p attempt t class =
    (if 1 \<le> attempt \<and> attempt \<le> retries p \<and>
        (class = KnownFailure \<or> class = Timeout \<and> retry_timeout p)
     then Some \<lparr>not_before_us = i64_saturating (t + min i64_max (int (min
                    (get (retry_delay_base p) * (if backoff p = Exponential then 2 ^ (attempt - 1) else 1))
                    (get (retry_cap p))))),
                classification = (if class = KnownFailure then ''known_failure'' else ''timeout'')\<rparr>
     else None)"
proof (cases "1 \<le> attempt \<and> attempt \<le> retries p")
  case True
  with assms(1) have "attempt \<le> 32" by (simp add: policy_bounds_def)
  then have factor: "backoff_factor attempt = 2 ^ (attempt - 1)" by (simp add: backoff_factor_eq)
  have top: "unwrap_or i64_max (i64_try_from n) = min i64_max (int n)" for n
    by (simp add: i64_try_from_def)
  show ?thesis
    using True
    by (cases "class")
      (simp_all add: decide_retry_def retry_classification_def Let_def factor top as_micros_min
        retry_delay_factor[OF from_micros_le_MAX[OF assms(2)]])
next
  case False
  then show ?thesis by (auto simp: decide_retry_def)
qed

theorem decide_retry_exact_witness:
  "decide_retry (ExecutionPolicy_default\<lparr>retries := 3, retry_cap := DurationMicros 25000000\<rparr>)
     3 1000000 KnownFailure = Some \<lparr>not_before_us = 26000000, classification = ''known_failure''\<rparr>"
proof -
  let ?p = "ExecutionPolicy_default\<lparr>retries := 3, retry_cap := DurationMicros 25000000\<rparr>"
  have "policy_bounds ?p 16" "valid_duration (retry_cap ?p)"
    by (simp_all add: policy_bounds_def ExecutionPolicy_default_def valid_duration_def u64_max_def)
  from decide_retry_exact[OF this, of 3 1000000 KnownFailure] show ?thesis
    by (simp add: ExecutionPolicy_default_def machine_bounds in_i64_def)
qed

text \<open>
  For every base delay, cap and attempt number the retry delay never exceeds the cap and
  never shrinks from one attempt to the next.
\<close>

theorem retry_delay_capped_monotone:
  assumes "cap \<le> Duration_MAX" and "a \<le> b"
  shows "retry_delay base cap a exponential \<le> retry_delay base cap b exponential \<and>
         retry_delay base cap b exponential \<le> cap"
  using backoff_factor_mono[OF assms(2)]
  by (auto simp: retry_delay_factor[OF assms(1)] min_le_iff_disj)

theorem retry_delay_capped_monotone_witness:
  "retry_delay 10 300 2 True \<le> retry_delay 10 300 50 True \<and> retry_delay 10 300 50 True \<le> 300"
  by (rule retry_delay_capped_monotone) (simp_all add: Duration_MAX_def u64_max_def)

theorem round_robin_fair_witness:
  "length (filter (\<lambda>c. cand_job_id c = ''a'')
     (round_robin [\<lparr>cand_job_id = ''a'', cand_value = 9\<rparr>, \<lparr>cand_job_id = ''a'', cand_value = 2\<rparr>,
        \<lparr>cand_job_id = ''b'', cand_value = (3::nat)\<rparr>, \<lparr>cand_job_id = ''b'', cand_value = 4\<rparr>] None 2)) \<le> 2"
proof -
  let ?cs = "[\<lparr>cand_job_id = ''a'', cand_value = 9\<rparr>, \<lparr>cand_job_id = ''a'', cand_value = 2\<rparr>,
        \<lparr>cand_job_id = ''b'', cand_value = (3::nat)\<rparr>, \<lparr>cand_job_id = ''b'', cand_value = 4\<rparr>]"
  have r: "round_robin ?cs None 2 =
      [\<lparr>cand_job_id = ''a'', cand_value = 9\<rparr>, \<lparr>cand_job_id = ''b'', cand_value = 3\<rparr>]"
    by code_simp
  show ?thesis using round_robin_fair[of "''b''" ?cs None 2 "''a''"] unfolding r by simp
qed

end
