(* ===== verification/Rust_Text.thy ===== *)
theory Rust_Text
  imports Locron_Prelude
begin

text \<open>
  The string functions of the Rust standard library that the sources call, on text as the
  list of its UTF-8 bytes: ASCII cases, splitting, prefixes, white space, trimming and lines.
\<close>

section \<open>Cases and pieces\<close>

definition ascii_lower :: "char \<Rightarrow> char" where
  "ascii_lower c = (if 65 \<le> (of_char c :: nat) \<and> (of_char c :: nat) \<le> 90
                    then char_of (of_char c + 32 :: nat) else c)"

definition to_ascii_lowercase :: "string \<Rightarrow> string" where
  "to_ascii_lowercase = map ascii_lower"

text \<open>\<open>str::split\<close> on a one-byte character: always at least one piece.\<close>

fun split_on :: "char \<Rightarrow> string \<Rightarrow> string list" where
  "split_on c [] = [[]]"
| "split_on c (x # xs) =
     (if x = c then [] # split_on c xs
      else case split_on c xs of
             [] \<Rightarrow> [[x]]
           | piece # pieces \<Rightarrow> (x # piece) # pieces)"

text \<open>\<open>str::split_once\<close>: the text before and after the first occurrence.\<close>

fun split_once :: "char \<Rightarrow> string \<Rightarrow> (string \<times> string) option" where
  "split_once c [] = None"
| "split_once c (x # xs) =
     (if x = c then Some ([], xs) else map_option (\<lambda>(a, b). (x # a, b)) (split_once c xs))"

definition starts_with :: "string \<Rightarrow> string \<Rightarrow> bool" where
  "starts_with prefix s \<longleftrightarrow> take (length prefix) s = prefix"

definition ascii_upper :: "char \<Rightarrow> char" where
  "ascii_upper c = (if 97 \<le> (of_char c :: nat) \<and> (of_char c :: nat) \<le> 122
                    then char_of (of_char c - 32 :: nat) else c)"

definition to_ascii_uppercase :: "string \<Rightarrow> string" where
  "to_ascii_uppercase = map ascii_upper"

definition is_ascii_alphabetic :: "char \<Rightarrow> bool" where
  "is_ascii_alphabetic c \<longleftrightarrow> (let n = of_char c :: nat in 65 \<le> n \<and> n \<le> 90 \<or> 97 \<le> n \<and> n \<le> 122)"

definition is_ascii_digit :: "char \<Rightarrow> bool" where
  "is_ascii_digit c \<longleftrightarrow> (let n = of_char c :: nat in 48 \<le> n \<and> n \<le> 57)"

definition is_ascii_alphanumeric :: "char \<Rightarrow> bool" where
  "is_ascii_alphanumeric c \<longleftrightarrow> is_ascii_alphabetic c \<or> is_ascii_digit c"

definition NUL :: char where
  "NUL = char_of (0 :: nat)"


section \<open>White space\<close>

text \<open>
  The length of the white space character a text starts with, zero when there is none: the
  Unicode property \<open>White_Space\<close> in UTF-8.
\<close>

fun white_space :: "nat list \<Rightarrow> nat" where
  "white_space (a # rest) =
     (if 9 \<le> a \<and> a \<le> 13 \<or> a = 32 then 1
      else case rest of
        [] \<Rightarrow> 0
      | b # rest' \<Rightarrow>
          if a = 194 \<and> (b = 133 \<or> b = 160) then 2
          else case rest' of
            [] \<Rightarrow> 0
          | c # _ \<Rightarrow>
              if (a = 225 \<and> b = 154 \<and> c = 128)
                 \<or> (a = 226 \<and> b = 128 \<and> (128 \<le> c \<and> c \<le> 138 \<or> c = 168 \<or> c = 169 \<or> c = 175))
                 \<or> (a = 226 \<and> b = 129 \<and> c = 159)
                 \<or> (a = 227 \<and> b = 128 \<and> c = 128)
              then 3 else 0)"
| "white_space [] = 0"

definition white_space_at :: "string \<Rightarrow> nat" where
  "white_space_at s = white_space (map of_char (take 3 s))"

text \<open>\<open>split_whitespace\<close>: \<open>piece\<close> is the part of the current piece read so far.\<close>

function split_whitespace_from :: "string \<Rightarrow> string \<Rightarrow> string list" where
  "split_whitespace_from piece [] = (if piece = [] then [] else [piece])"
| "split_whitespace_from piece (c # cs) =
     (if 0 < white_space_at (c # cs)
      then (if piece = [] then [] else [piece])
           @ split_whitespace_from [] (drop (white_space_at (c # cs)) (c # cs))
      else split_whitespace_from (piece @ [c]) cs)"
  by pat_completeness auto
termination
  by (relation "measure (\<lambda>(piece, s). length s)") auto

definition split_whitespace :: "string \<Rightarrow> string list" where
  "split_whitespace = split_whitespace_from []"

text \<open>\<open>trim\<close>: a text of white space only has no pieces.\<close>

function trim_start :: "string \<Rightarrow> string" where
  "trim_start s = (if 0 < white_space_at s then trim_start (drop (white_space_at s) s) else s)"
  by pat_completeness auto
termination
proof (relation "measure length")
  fix s :: string
  assume "0 < white_space_at s"
  moreover have "white_space_at [] = 0" by (simp add: white_space_at_def)
  ultimately have "s \<noteq> []" by auto
  with \<open>0 < white_space_at s\<close> show "(drop (white_space_at s) s, s) \<in> measure length"
    by simp
qed simp

fun trim_end :: "string \<Rightarrow> string" where
  "trim_end [] = []"
| "trim_end (c # cs) = (if split_whitespace (c # cs) = [] then [] else c # trim_end cs)"

definition trim :: "string \<Rightarrow> string" where
  "trim s = trim_end (trim_start s)"

section \<open>Lines\<close>

text \<open>\<open>str::lines\<close>: the end of a line is \<^verbatim>\<open>\n\<close> or \<^verbatim>\<open>\r\n\<close>; an empty last line is dropped.\<close>

definition strip_cr :: "string \<Rightarrow> string" where
  "strip_cr s = (if s \<noteq> [] \<and> last s = CHR 0x0D then butlast s else s)"

fun lines_from :: "string \<Rightarrow> string \<Rightarrow> string list" where
  "lines_from line [] = (if line = [] then [] else [line])"
| "lines_from line (c # cs) =
     (if c = CHR 0x0A then strip_cr line # lines_from [] cs else lines_from (line @ [c]) cs)"

definition lines :: "string \<Rightarrow> string list" where
  "lines = lines_from []"

lemma lines_from_append:
  assumes "CHR 0x0A \<notin> set a"
  shows "lines_from line (a @ CHR 0x0A # rest) = strip_cr (line @ a) # lines rest"
  using assms by (induction a arbitrary: line) (auto simp: lines_def)

lemma lines_append: "CHR 0x0A \<notin> set a \<Longrightarrow> lines (a @ CHR 0x0A # rest) = strip_cr a # lines rest"
  using lines_from_append[of a "[]" rest] by (simp add: lines_def)

end
