(* ===== verification/Cron_Field.thy ===== *)
theory Cron_Field
  imports Locron_Time Rust_Text
begin

text \<open>
  The text side of calendar schedules in \<^verbatim>\<open>crates/locron-core/src/schedule.rs\<close>: one field of
  a five-field expression (\<open>Field::parse\<close>, \<open>normalize_sunday\<close>, \<open>matches\<close>, \<open>parse_value\<close>),
  over the string functions of \<open>Rust_Text\<close>.
\<close>

section \<open>Fields\<close>

record cron_field =
  field_min :: nat
  field_max :: nat
  allowed :: "nat set"
  wildcard :: bool

definition cron_error :: "string \<Rightarrow> validation_error" where
  "cron_error msg = ValidationError_new ''cron'' ''invalid_cron'' msg"

definition parse_value :: "string \<Rightarrow> (string \<times> nat) list \<Rightarrow> validation_error + nat" where
  "parse_value source names =
     (case find (\<lambda>(name, _). name = source) names of
        Some (_, v) \<Rightarrow> Inr v
      | None \<Rightarrow> ok_or (cron_error ''invalid cron field value'') (parse_unsigned 255 source))"

text \<open>
  The \<open>while\<close> loop of one segment. A step of zero is refused before the loop; the guard
  makes the recursion total.
\<close>

function insert_steps :: "nat \<Rightarrow> nat \<Rightarrow> nat \<Rightarrow> nat set \<Rightarrow> nat set" where
  "insert_steps step value end' acc =
     (if value \<le> end' \<and> 0 < step then
        (if value + step \<le> 255
         then insert_steps step (value + step) end' (insert value acc)
         else insert value acc)
      else acc)"
  by pat_completeness auto
termination
  by (relation "measure (\<lambda>(step, value, end', acc). 256 - value)") auto

declare insert_steps.simps [simp del]

definition parse_segment ::
    "nat \<Rightarrow> nat \<Rightarrow> (string \<times> nat) list \<Rightarrow> string \<Rightarrow> validation_error + (nat \<times> nat \<times> nat)" where
  "parse_segment min' max' names segment =
     and_then
       (case split_once CHR ''/'' segment of
          Some (base, step) \<Rightarrow>
            and_then (parse_value step names) (\<lambda>step.
              if step = 0 then Inl (cron_error ''cron step must be positive'') else Inr (base, step))
        | None \<Rightarrow> Inr (segment, 1))
       (\<lambda>(base, step).
          and_then
            (if base = ''*'' then Inr (min', max')
             else case split_once CHR ''-'' base of
                    Some (start, end') \<Rightarrow>
                      and_then (parse_value start names) (\<lambda>start.
                        and_then (parse_value end' names) (\<lambda>end'. Inr (start, end')))
                  | None \<Rightarrow> and_then (parse_value base names) (\<lambda>v. Inr (v, v)))
            (\<lambda>(start, end').
               if start < min' \<or> end' > max' \<or> start > end'
               then Inl (cron_error ''cron field value is out of range'')
               else Inr (start, end', step)))"

fun parse_segments ::
    "nat \<Rightarrow> nat \<Rightarrow> (string \<times> nat) list \<Rightarrow> string list \<Rightarrow> nat set \<Rightarrow> validation_error + nat set" where
  "parse_segments min' max' names [] acc = Inr acc"
| "parse_segments min' max' names (segment # segments) acc =
     and_then (parse_segment min' max' names segment) (\<lambda>(start, end', step).
       parse_segments min' max' names segments (insert_steps step start end' acc))"

definition Field_parse ::
    "string \<Rightarrow> nat \<Rightarrow> nat \<Rightarrow> (string \<times> nat) list \<Rightarrow> validation_error + cron_field" where
  "Field_parse source0 min' max' names =
     (let source = to_ascii_lowercase source0;
          wild = (source = ''*'' \<or> starts_with ''*/'' source)
      in and_then (parse_segments min' max' names (split_on CHR '','' source) {}) (\<lambda>values.
           if values = {} then Inl (cron_error ''cron field is empty'')
           else Inr \<lparr>field_min = min', field_max = max', allowed = values, wildcard = wild\<rparr>))"

definition normalize_sunday :: "cron_field \<Rightarrow> cron_field" where
  "normalize_sunday self =
     self\<lparr>allowed := (if 7 \<in> allowed self then insert 0 (allowed self - {7}) else allowed self),
          field_max := 6\<rparr>"

definition field_matches :: "cron_field \<Rightarrow> nat \<Rightarrow> bool" where
  "field_matches self v \<longleftrightarrow> v \<ge> field_min self \<and> v \<le> field_max self \<and> v \<in> allowed self"


section \<open>What a segment denotes\<close>

definition progression :: "nat \<times> nat \<times> nat \<Rightarrow> nat set" where
  "progression r = (case r of (start, end', step) \<Rightarrow> {v. start \<le> v \<and> v \<le> end' \<and> step dvd (v - start)})"

lemma progression_unfold:
  assumes "0 < step"
  shows "progression (start, end', step) =
    (if start \<le> end' then insert start (progression (start + step, end', step)) else {})"
proof -
  have "step dvd (v - start) \<longleftrightarrow> v = start \<or> start + step \<le> v \<and> step dvd (v - (start + step))"
    if "start \<le> v" for v
  proof (cases "start + step \<le> v")
    case True
    then have "v - start = (v - (start + step)) + step" by simp
    then have "step dvd (v - start) \<longleftrightarrow> step dvd (v - (start + step))" by simp
    with True assms show ?thesis by auto
  next
    case False
    then show ?thesis using that assms by (auto dest!: dvd_imp_le)
  qed
  then show ?thesis by (auto simp: progression_def)
qed

lemma insert_steps_progression:
  assumes "0 < step" and "end' \<le> 255"
  shows "insert_steps step start end' acc = acc \<union> progression (start, end', step)"
  using assms
proof (induction step start end' acc rule: insert_steps.induct)
  case (1 step start end' acc)
  show ?case
  proof (cases "start \<le> end' \<and> start + step \<le> 255")
    case True
    with 1 show ?thesis
      by (simp add: insert_steps.simps[of step start] progression_unfold[of step start])
  next
    case False
    with 1(2,3) have "progression (start + step, end', step) = {}" if "start \<le> end'"
      using that by (auto simp: progression_def)
    with False 1(2) show ?thesis
      by (auto simp: insert_steps.simps[of step start] progression_unfold[of step start])
  qed
qed

lemma parse_segment_bounds:
  assumes "parse_segment min' max' names segment = Inr (start, end', step)"
  shows "min' \<le> start" and "start \<le> end'" and "end' \<le> max'" and "0 < step"
  using assms
  by (auto simp: parse_segment_def result_simps split: option.splits if_splits prod.splits)

lemma parse_segments_union:
  assumes "max' \<le> 255"
  shows "parse_segments min' max' names segments acc =
    and_then (collect (parse_segment min' max' names) segments)
      (\<lambda>rs. Inr (acc \<union> \<Union> (progression ` set rs)))"
proof (induction segments arbitrary: acc)
  case Nil
  then show ?case by simp
next
  case (Cons segment segments)
  show ?case
  proof (cases "parse_segment min' max' names segment")
    case (Inl e)
    then show ?thesis by simp
  next
    case (Inr r)
    obtain start end' step where r: "r = (start, end', step)" by (cases r) auto
    note b = parse_segment_bounds[OF Inr[unfolded r]]
    with assms have "insert_steps step start end' acc = acc \<union> progression r"
      unfolding r by (intro insert_steps_progression) auto
    then show ?thesis
      using Inr Cons by (cases "collect (parse_segment min' max' names) segments") (auto simp: r)
  qed
qed

lemma progression_bounds:
  "parse_segment min' max' names segment = Inr r \<Longrightarrow> progression r \<noteq> {} \<and> progression r \<subseteq> {min'..max'}"
  using parse_segment_bounds[of min' max' names segment]
  by (cases r) (fastforce simp: progression_def)

lemma collect_set: "collect f xs = Inr ys \<Longrightarrow> set ys = {y. \<exists>x\<in>set xs. f x = Inr y}"
  by (induction xs arbitrary: ys) (auto simp: result_simps)

lemma collected_progressions:
  assumes "collect (parse_segment min' max' names) segments = Inr rs" and "r \<in> set rs"
  shows "progression r \<noteq> {} \<and> progression r \<subseteq> {min'..max'}"
proof -
  from assms obtain segment where "parse_segment min' max' names segment = Inr r"
    by (auto simp: collect_set)
  then show ?thesis by (rule progression_bounds)
qed

lemma split_on_nonempty [simp]: "split_on c s \<noteq> []"
  by (induction s) (auto split: list.splits)

lemma Field_parse_eq:
  assumes "max' \<le> 255"
  shows "Field_parse source min' max' names =
    and_then (collect (parse_segment min' max' names) (split_on CHR '','' (to_ascii_lowercase source)))
      (\<lambda>rs. Inr \<lparr>field_min = min', field_max = max', allowed = \<Union> (progression ` set rs),
                 wildcard = (to_ascii_lowercase source = ''*'' \<or>
                             starts_with ''*/'' (to_ascii_lowercase source))\<rparr>)"
proof -
  let ?segments = "split_on CHR '','' (to_ascii_lowercase source)"
  have "\<Union> (progression ` set rs) \<noteq> {}"
    if rs: "collect (parse_segment min' max' names) ?segments = Inr rs" for rs
  proof -
    from rs have "rs \<noteq> []" using collect_length[OF rs] by auto
    then have "hd rs \<in> set rs" by simp
    with collected_progressions[OF rs] have "progression (hd rs) \<noteq> {}" by blast
    with \<open>hd rs \<in> set rs\<close> show ?thesis by blast
  qed
  then show ?thesis
    by (cases "collect (parse_segment min' max' names) ?segments")
      (auto simp: Field_parse_def Let_def parse_segments_union[OF assms])
qed


section \<open>Printing a field\<close>

text \<open>The comma-separated list of values, the form every calendar field can be written in.\<close>

fun show_values :: "nat list \<Rightarrow> string" where
  "show_values [] = []"
| "show_values [v] = show_nat v"
| "show_values (v # vs) = show_nat v @ CHR '','' # show_values vs"

lemma digit_not_separator:
  "is_digit c \<Longrightarrow> c \<noteq> CHR '','' \<and> c \<noteq> CHR ''/'' \<and> c \<noteq> CHR ''-'' \<and> c \<noteq> CHR ''*'' \<and> ascii_lower c = c"
  by (auto simp: is_digit_def ascii_lower_def)

lemma split_on_none: "CHR '','' \<notin> set s \<Longrightarrow> split_on CHR '','' s = [s]"
  by (induction s) auto

lemma split_on_append:
  "CHR '','' \<notin> set s \<Longrightarrow> split_on CHR '','' (s @ CHR '','' # t) = s # split_on CHR '','' t"
  by (induction s) auto

lemma split_once_none: "c \<notin> set s \<Longrightarrow> split_once c s = None"
  by (induction s) auto

lemma digits_only:
  "list_all is_digit s \<Longrightarrow> CHR '','' \<notin> set s \<and> CHR ''/'' \<notin> set s \<and> CHR ''-'' \<notin> set s \<and>
   CHR ''*'' \<notin> set s \<and> to_ascii_lowercase s = s"
  by (induction s) (auto simp: to_ascii_lowercase_def dest: digit_not_separator)

lemma split_show_values: "vs \<noteq> [] \<Longrightarrow> split_on CHR '','' (show_values vs) = map show_nat vs"
proof (induction vs rule: show_values.induct)
  case (2 v)
  then show ?case using show_nat_decimal[of v] digits_only by (auto simp: split_on_none)
next
  case (3 v w vs)
  then show ?case using show_nat_decimal[of v] digits_only by (auto simp: split_on_append)
qed auto

lemma lower_show_values: "to_ascii_lowercase (show_values vs) = show_values vs"
proof (induction vs rule: show_values.induct)
  case (2 v)
  then show ?case using show_nat_decimal[of v] digits_only by auto
next
  case (3 v w vs)
  then show ?case
    using show_nat_decimal[of v] digits_only[of "show_nat v"]
    by (simp add: to_ascii_lowercase_def ascii_lower_def)
qed (auto simp: to_ascii_lowercase_def)

lemma star_show_values: "show_values vs \<noteq> ''*'' \<and> \<not> starts_with ''*/'' (show_values vs)"
proof -
  have "hd (show_values vs) \<noteq> CHR ''*'' \<or> show_values vs = []"
  proof (cases vs)
    case (Cons v ws)
    obtain d ds where d: "show_nat v = d # ds" "is_digit d"
      using show_nat_decimal[of v] by (cases "show_nat v") auto
    then have "d \<noteq> CHR ''*''" using digit_not_separator by blast
    with Cons d show ?thesis by (cases ws) auto
  qed simp
  then show ?thesis by (cases "show_values vs") (auto simp: starts_with_def)
qed

text \<open>Names such as \<open>jan\<close> never look like numbers.\<close>

definition letter_names :: "(string \<times> nat) list \<Rightarrow> bool" where
  "letter_names names \<longleftrightarrow> (\<forall>(name, _) \<in> set names. \<not> list_all is_digit name)"

lemma parse_segment_show:
  assumes "letter_names names" and "min' \<le> v" and "v \<le> max'" and "max' \<le> 255"
  shows "parse_segment min' max' names (show_nat v) = Inr (v, v, 1)"
proof -
  have d: "list_all is_digit (show_nat v)" using show_nat_decimal by blast
  note only = digits_only[OF d]
  have "find (\<lambda>(name, _). name = show_nat v) names = None"
    using assms(1) d by (force simp: find_None_iff letter_names_def)
  then have "parse_value (show_nat v) names = Inr v"
    using assms by (simp add: parse_value_def parse_unsigned_show)
  moreover have "show_nat v \<noteq> ''*''" using only by auto
  ultimately show ?thesis
    using only assms by (simp add: parse_segment_def split_once_none)
qed


section \<open>Properties\<close>

text \<open>
  A calendar field that parses holds exactly the union of the arithmetic progressions
  its comma-separated segments denote (start, end and step as written), it is not empty, and
  all its values are within the bounds of the field.
\<close>

theorem field_parse_exact:
  assumes "max' \<le> 255" and "Field_parse source min' max' names = Inr f"
  shows "\<exists>rs. collect (parse_segment min' max' names)
            (split_on CHR '','' (to_ascii_lowercase source)) = Inr rs \<and>
          allowed f = {v. \<exists>(start, end', step) \<in> set rs. start \<le> v \<and> v \<le> end' \<and> step dvd (v - start)} \<and>
          allowed f \<noteq> {} \<and> allowed f \<subseteq> {min'..max'} \<and>
          (field_matches f v \<longleftrightarrow> v \<in> allowed f)"
proof -
  from assms(2) obtain rs
    where rs: "collect (parse_segment min' max' names)
        (split_on CHR '','' (to_ascii_lowercase source)) = Inr rs"
      and f: "allowed f = \<Union> (progression ` set rs)" "field_min f = min'" "field_max f = max'"
    by (auto simp: Field_parse_eq[OF assms(1)] result_simps)
  note bounds = collected_progressions[OF rs]
  have "rs \<noteq> []" using collect_length[OF rs] by auto
  with bounds[of "hd rs"] have "allowed f \<noteq> {}" by (auto simp: f intro!: bexI[of _ "hd rs"])
  moreover have sub: "allowed f \<subseteq> {min'..max'}" using bounds by (auto simp: f(1))
  moreover have "allowed f = {v. \<exists>(start, end', step) \<in> set rs. start \<le> v \<and> v \<le> end' \<and> step dvd (v - start)}"
    by (auto simp: f progression_def)
  moreover have "field_matches f v \<longleftrightarrow> v \<in> allowed f"
    using sub by (auto simp: field_matches_def f)
  ultimately show ?thesis using rs by blast
qed

text \<open>
  A field written as a comma-separated list of values in range parses back to exactly
  the set of those values, whatever names (such as jan or mon) the field also accepts.
\<close>

theorem field_values_roundtrip:
  assumes "vs \<noteq> []" and "set vs \<subseteq> {min'..max'}" and "max' \<le> 255" and "letter_names names"
  shows "Field_parse (show_values vs) min' max' names =
    Inr \<lparr>field_min = min', field_max = max', allowed = set vs, wildcard = False\<rparr>"
proof -
  have "collect (parse_segment min' max' names) (map show_nat vs) = Inr (map (\<lambda>v. (v, v, 1)) vs)"
    using assms(2) by (induction vs) (auto simp: parse_segment_show[OF assms(4) _ _ assms(3)])
  moreover have "\<Union> (progression ` set (map (\<lambda>v. (v, v, 1)) vs)) = set vs"
    by (auto simp: progression_def)
  ultimately show ?thesis
    using assms star_show_values[of vs]
    by (simp add: Field_parse_eq lower_show_values split_show_values)
qed

theorem field_parse_exact_witness:
  "\<exists>f. Field_parse ''Mon-fri/2,0'' 0 7 [(''mon'', 1), (''fri'', 5)] = Inr f \<and> allowed f = {0, 1, 3, 5}"
proof -
  let ?f = "\<lparr>field_min = 0, field_max = 7, allowed = {0, 1, 3, 5}, wildcard = False\<rparr>"
  have segs: "collect (parse_segment 0 7 [(''mon'', 1), (''fri'', 5)])
      (split_on CHR '','' (to_ascii_lowercase ''Mon-fri/2,0'')) = Inr [(1, 5, 2), (0, 0, 1)]"
    by code_simp
  have lower: "to_ascii_lowercase ''Mon-fri/2,0'' = ''mon-fri/2,0''" by code_simp
  have "progression (1, 5, 2) = {1, 3, 5}" "progression (0, 0, 1) = {0}"
    by (auto simp: progression_unfold)
  then have parsed: "Field_parse ''Mon-fri/2,0'' 0 7 [(''mon'', 1), (''fri'', 5)] = Inr ?f"
    using segs lower by (auto simp: Field_parse_eq starts_with_def)
  from field_parse_exact[OF _ parsed, of 3] have "allowed ?f \<subseteq> {0..7}" by simp
  with parsed show ?thesis by simp
qed

theorem field_values_roundtrip_witness:
  "Field_parse (show_values [0, 15, 45]) 0 59 [(''jan'', 1)] =
   Inr \<lparr>field_min = 0, field_max = 59, allowed = {0, 15, 45}, wildcard = False\<rparr>"
  using field_values_roundtrip[of "[0, 15, 45]" 0 59 "[(''jan'', 1)]"]
  by (simp add: letter_names_def is_digit_def)

end
