(* ===== verification/Day_Cycle.thy ===== *)
theory Day_Cycle
  imports Locron_Time "HOL-Library.Word"
begin

text \<open>
  The compressed set of matching days of the 400-year Gregorian cycle:
  \<open>MatchingDayCycle\<close> with its rank and select operations, \<open>matching_positions_before\<close> and
  the date search \<open>matching_date\<close> in \<^verbatim>\<open>crates/locron-core/src/schedule.rs\<close>. A cycle is an
  array of 64-bit words with a prefix count per word. Day numbers count from the first day
  of the proleptic year 0.
\<close>

unbundle bit_operations_syntax

section \<open>The cycle\<close>

definition GREGORIAN_CYCLE_DAYS :: int where
  "GREGORIAN_CYCLE_DAYS = 146097"

definition GREGORIAN_CYCLE_WORDS :: nat where
  "GREGORIAN_CYCLE_WORDS = 2283"

record day_cycle =
  words :: "64 word list"
  prefix :: "nat list"
  cycle_count :: nat

text \<open>\<open>u64::count_ones\<close> and \<open>u64::trailing_zeros\<close>.\<close>

definition count_ones :: "64 word \<Rightarrow> nat" where
  "count_ones w = length (filter (bit w) [0..<64])"

definition trailing_zeros :: "64 word \<Rightarrow> nat" where
  "trailing_zeros w = length (takeWhile (\<lambda>i. \<not> bit w i) [0..<64])"

definition u32_saturating :: "nat \<Rightarrow> nat" where
  "u32_saturating n = min u32_max n"

fun push_prefixes :: "64 word list \<Rightarrow> nat list \<Rightarrow> nat list" where
  "push_prefixes [] prefixes = prefixes"
| "push_prefixes (w # ws) prefixes =
     push_prefixes ws (prefixes @ [u32_saturating (last prefixes + count_ones w)])"

definition from_words :: "64 word list \<Rightarrow> day_cycle" where
  "from_words ws =
     (let prefixes = push_prefixes ws [0]
      in \<lparr>words = ws, prefix = prefixes, cycle_count = last prefixes\<rparr>)"

definition cycle_empty :: day_cycle where
  "cycle_empty = from_words (replicate GREGORIAN_CYCLE_WORDS 0)"

definition rank_before :: "day_cycle \<Rightarrow> int \<Rightarrow> nat" where
  "rank_before self offset0 =
     (if offset0 \<le> 0 then 0
      else if offset0 \<ge> GREGORIAN_CYCLE_DAYS then cycle_count self
      else
        let offset = nat offset0;
            word = offset div 64;
            bit' = offset mod 64;
            mask' = (if bit' = 0 then 0 else push_bit bit' 1 - 1)
        in u32_saturating (prefix self ! word + count_ones (words self ! word AND mask')))"

text \<open>The loop that clears the lowest set bits.\<close>

fun clear_lowest :: "nat \<Rightarrow> 64 word \<Rightarrow> 64 word" where
  "clear_lowest 0 w = w"
| "clear_lowest (Suc n) w = clear_lowest n (w AND (w - 1))"

definition select :: "day_cycle \<Rightarrow> nat \<Rightarrow> int option" where
  "select self rank =
     (if rank \<ge> cycle_count self then None
      else
        let word_index = length (takeWhile (\<lambda>p. p \<le> rank) (prefix self)) - 1;
            word = clear_lowest (rank - prefix self ! word_index) (words self ! word_index)
        in Some (int word_index * 64 + int (trailing_zeros word)))"

definition matching_positions_before :: "int \<Rightarrow> day_cycle \<Rightarrow> int" where
  "matching_positions_before day cycle_days =
     day div GREGORIAN_CYCLE_DAYS * int (cycle_count cycle_days)
     + int (rank_before cycle_days (day mod GREGORIAN_CYCLE_DAYS))"

text \<open>
  The day number that \<open>matching_date\<close> turns into a date; \<open>None\<close> in the outer option is a
  failed \<open>expect\<close>.
\<close>

definition matching_day ::
    "int \<Rightarrow> day_cycle \<Rightarrow> bool \<Rightarrow> (validation_error + int option) option" where
  "matching_day day cycle_days forward =
     (if cycle_count cycle_days = 0 then Some (Inr None)
      else
        let cycle = day div GREGORIAN_CYCLE_DAYS;
            within = day mod GREGORIAN_CYCLE_DAYS;
            found =
              (if forward then
                 (case select cycle_days (rank_before cycle_days within) of
                    Some offset \<Rightarrow> Some (cycle, offset)
                  | None \<Rightarrow> map_option (Pair (i64_saturating (cycle + 1))) (select cycle_days 0))
               else
                 let rank = rank_before cycle_days (i64_saturating (within + 1))
                 in if rank > 0 then map_option (Pair cycle) (select cycle_days (rank - 1))
                    else map_option (Pair (i64_saturating (cycle - 1)))
                           (select cycle_days (cycle_count cycle_days - 1)))
        in map_option (\<lambda>(cycle, offset).
             case i64_checked (cycle * GREGORIAN_CYCLE_DAYS) of
               None \<Rightarrow> Inl (ValidationError_new ''cron'' ''invalid_cron'' ''calendar date overflows'')
             | Some base \<Rightarrow>
                 (case i64_checked (base + offset) of
                    None \<Rightarrow> Inl (ValidationError_new ''cron'' ''invalid_cron'' ''calendar date overflows'')
                  | Some target \<Rightarrow> Inr (Some target))) found)"


section \<open>Bits of a word\<close>

definition bits_of :: "64 word \<Rightarrow> nat list" where
  "bits_of w = filter (bit w) [0..<64]"

lemma set_bits_of [simp]: "set (bits_of w) = {i. bit w i}"
  by (auto simp: bits_of_def dest: bit_imp_le_length)

lemma sorted_bits_of [simp]: "sorted_wrt (<) (bits_of w)"
  by (simp add: bits_of_def sorted_wrt_filter)

lemma bits_of_eqI: "sorted_wrt (<) xs \<Longrightarrow> set xs = {i. bit w i} \<Longrightarrow> bits_of w = xs"
  by (metis set_bits_of sorted_bits_of strict_sorted_equal)

lemma count_ones_bits: "count_ones w = length (bits_of w)"
  by (simp add: count_ones_def bits_of_def)

lemma bits_of_Cons:
  assumes "bits_of w = i # is"
  shows "bit w i" and "i < 64" and "\<And>j. bit w j \<Longrightarrow> i \<le> j" and "set is = {j. bit w j} - {i}"
proof -
  have set: "insert i (set is) = {j. bit w j}" using set_bits_of[of w] assms by simp
  then show bit: "bit w i" by blast
  then show "i < 64" using bit_imp_le_length[of w i] by simp
  have sorted: "sorted_wrt (<) (i # is)" using sorted_bits_of[of w] assms by simp
  show "i \<le> j" if "bit w j" for j
  proof -
    from that set have "j \<in> insert i (set is)" by blast
    with sorted show ?thesis by auto
  qed
  show "set is = {j. bit w j} - {i}" using set sorted by auto
qed

lemma trailing_zeros_bits:
  assumes "bits_of w = i # is"
  shows "trailing_zeros w = i"
proof -
  note b = bits_of_Cons[OF assms]
  have "[0..<64] = [0..<i] @ i # [Suc i..<64]" using b(2) by (metis upt_add_eq_append upt_conv_Cons le_add_diff_inverse less_imp_le zero_le add_0)
  moreover have "\<forall>j\<in>set [0..<i]. \<not> bit w j" using b(3) by fastforce
  ultimately show ?thesis using b(1) by (simp add: trailing_zeros_def takeWhile_append)
qed

lemma clear_lowest_bit:
  assumes "bits_of w = i # is"
  shows "bits_of (w AND (w - 1)) = is"
proof -
  note b = bits_of_Cons[OF assms]
  define r where "r = unset_bit i w"
  have bit_r: "bit r j \<longleftrightarrow> bit w j \<and> j \<noteq> i" for j by (auto simp: r_def bit_simps)
  have "r + push_bit i 1 = r OR push_bit i 1"
    by (rule disjunctive_add_eq_or, rule bit_eqI) (auto simp: bit_simps bit_r)
  also have "\<dots> = w" using b(1,2) by (intro bit_eqI) (auto simp: bit_simps bit_r)
  finally have w: "w = r + push_bit i 1" by simp
  have "r + mask i = r OR mask i"
    using b(3) by (intro disjunctive_add_eq_or bit_eqI) (fastforce simp: bit_simps bit_r)
  moreover have "w - 1 = r + mask i"
    by (subst w) (simp add: mask_eq_exp_minus_1 push_bit_eq_mult algebra_simps)
  ultimately have "w AND (w - 1) = r"
    using b(3) by (intro bit_eqI) (fastforce simp: bit_simps bit_r)
  moreover have "bits_of r = is"
    using assms sorted_bits_of[of w] b(4) by (intro bits_of_eqI) (auto simp: bit_r)
  ultimately show ?thesis by simp
qed

lemma select_in_word: "n < length (bits_of w) \<Longrightarrow> trailing_zeros (clear_lowest n w) = bits_of w ! n"
proof (induction n arbitrary: w)
  case 0
  then show ?case by (cases "bits_of w") (auto simp: trailing_zeros_bits)
next
  case (Suc n)
  then obtain i "is" where i: "bits_of w = i # is" by (cases "bits_of w") auto
  with Suc.prems Suc.IH[of "w AND (w - 1)"] show ?case by (simp add: clear_lowest_bit)
qed

lemma count_ones_masked:
  assumes "b < 64"
  shows "count_ones (w AND (if b = 0 then 0 else push_bit b 1 - 1)) = length (filter (\<lambda>i. i < b) (bits_of w))"
proof -
  have "(if b = 0 then 0 else push_bit b 1 - 1 :: 64 word) = mask b"
    by (simp add: mask_eq_exp_minus_1 push_bit_eq_mult)
  moreover have "bits_of (w AND mask b) = filter (\<lambda>i. i < b) (bits_of w)"
    using assms by (intro bits_of_eqI) (auto simp: bit_simps sorted_wrt_filter)
  ultimately show ?thesis by (simp add: count_ones_bits)
qed


section \<open>Days of a cycle\<close>

fun days_from :: "nat \<Rightarrow> 64 word list \<Rightarrow> nat list" where
  "days_from k [] = []"
| "days_from k (w # ws) = map (\<lambda>b. 64 * k + b) (bits_of w) @ days_from (Suc k) ws"

lemma days_from_append: "days_from k (ws @ vs) = days_from k ws @ days_from (k + length ws) vs"
  by (induction ws arbitrary: k) auto

lemma days_from_bounds: "d \<in> set (days_from k ws) \<Longrightarrow> 64 * k \<le> d \<and> d < 64 * (k + length ws)"
proof (induction ws arbitrary: k)
  case (Cons w ws)
  then show ?case by (fastforce dest: bit_imp_le_length)
qed simp

lemma days_from_sorted: "sorted_wrt (<) (days_from k ws)"
proof (induction ws arbitrary: k)
  case (Cons w ws)
  then show ?case
    by (fastforce simp: sorted_wrt_append sorted_wrt_map dest: bit_imp_le_length days_from_bounds)
qed simp

lemma length_days_from: "length (days_from k ws) = sum_list (map count_ones ws)"
  by (induction ws arbitrary: k) (auto simp: count_ones_bits)

lemma count_ones_le: "count_ones w \<le> 64"
  using length_filter_le[of "bit w" "[0..<64]"] by (simp add: count_ones_def)

lemma sum_count_ones_le: "sum_list (map count_ones ws) \<le> 64 * length ws"
  by (induction ws) (auto intro: add_mono count_ones_le)

lemma push_prefixes_eq:
  assumes "ps \<noteq> []" and "last ps + 64 * length ws \<le> u32_max"
  shows "push_prefixes ws ps =
    ps @ map (\<lambda>i. last ps + sum_list (map count_ones (take (Suc i) ws))) [0..<length ws]"
  using assms
proof (induction ws arbitrary: ps)
  case (Cons w ws)
  have sat: "u32_saturating (last ps + count_ones w) = last ps + count_ones w"
    using Cons.prems count_ones_le[of w] by (simp add: u32_saturating_def)
  have "push_prefixes ws (ps @ [last ps + count_ones w]) =
      (ps @ [last ps + count_ones w]) @
      map (\<lambda>i. last ps + count_ones w + sum_list (map count_ones (take (Suc i) ws))) [0..<length ws]"
    using Cons.IH[of "ps @ [last ps + count_ones w]"] Cons.prems count_ones_le[of w] by simp
  then show ?case
    by (simp add: sat map_upt_Suc add.assoc del: upt_Suc)
qed simp

lemma from_words_prefix:
  assumes "64 * length ws \<le> u32_max"
  shows "prefix (from_words ws) = map (\<lambda>i. length (days_from 0 (take i ws))) [0..<Suc (length ws)]"
    and "cycle_count (from_words ws) = length (days_from 0 ws)"
    and "words (from_words ws) = ws"
proof -
  have "push_prefixes ws [0] = map (\<lambda>i. length (days_from 0 (take i ws))) [0..<Suc (length ws)]"
    using push_prefixes_eq[of "[0]" ws] assms
    by (simp add: length_days_from map_upt_Suc del: upt_Suc)
  then show "prefix (from_words ws) = map (\<lambda>i. length (days_from 0 (take i ws))) [0..<Suc (length ws)]"
    and "cycle_count (from_words ws) = length (days_from 0 ws)"
    and "words (from_words ws) = ws"
    by (simp_all add: from_words_def Let_def)
qed


section \<open>Rank and select\<close>

text \<open>The words that \<open>build_matching_day_offsets\<close> produces: no bit past the last day.\<close>

definition cycle_words :: "64 word list \<Rightarrow> bool" where
  "cycle_words ws \<longleftrightarrow> length ws = GREGORIAN_CYCLE_WORDS \<and>
     (\<forall>d \<in> set (days_from 0 ws). int d < GREGORIAN_CYCLE_DAYS)"

abbreviation cycle_days :: "64 word list \<Rightarrow> nat list" where
  "cycle_days ws \<equiv> days_from 0 ws"

lemma cycle_words_small: "cycle_words ws \<Longrightarrow> 64 * length ws \<le> u32_max"
  by (simp add: cycle_words_def GREGORIAN_CYCLE_WORDS_def u32_max_def)

lemma days_split_at_word:
  assumes "j < length ws"
  shows "days_from 0 ws = days_from 0 (take j ws) @ map (\<lambda>b. 64 * j + b) (bits_of (ws ! j))
    @ days_from (Suc j) (drop (Suc j) ws)"
proof -
  have "ws = take j ws @ ws ! j # drop (Suc j) ws" using assms by (rule id_take_nth_drop)
  then have "days_from 0 ws = days_from 0 (take j ws @ ws ! j # drop (Suc j) ws)" by (rule arg_cong)
  also have "\<dots> = days_from 0 (take j ws) @ days_from j (ws ! j # drop (Suc j) ws)"
    using assms by (subst days_from_append) simp
  finally show ?thesis by simp
qed

lemma rank_before_exact:
  assumes "cycle_words ws"
  shows "rank_before (from_words ws) offset = length (filter (\<lambda>d. int d < offset) (cycle_days ws))"
proof -
  note small = cycle_words_small[OF assms]
  note fw = from_words_prefix[OF small]
  consider "offset \<le> 0" | "offset \<ge> GREGORIAN_CYCLE_DAYS" | "0 < offset" "offset < GREGORIAN_CYCLE_DAYS"
    by linarith
  then show ?thesis
  proof cases
    case 1
    then have "filter (\<lambda>d. int d < offset) (cycle_days ws) = []" by (simp add: filter_empty_conv)
    with 1 show ?thesis by (simp add: rank_before_def)
  next
    case 2
    then have "filter (\<lambda>d. int d < offset) (cycle_days ws) = cycle_days ws"
      using assms by (fastforce simp: cycle_words_def intro!: filter_True)
    with 2 show ?thesis by (simp add: rank_before_def fw GREGORIAN_CYCLE_DAYS_def)
  next
    case 3
    define o' j b where "o' = nat offset" and "j = o' div 64" and "b = o' mod 64"
    have o': "offset = int o'" "o' = 64 * j + b" "b < 64" using 3 by (auto simp: o'_def j_def b_def)
    have j: "j < length ws"
      using 3 assms by (simp add: o' cycle_words_def GREGORIAN_CYCLE_DAYS_def GREGORIAN_CYCLE_WORDS_def)
    have "filter (\<lambda>d. int d < offset) (cycle_days ws) =
        days_from 0 (take j ws) @ map (\<lambda>b. 64 * j + b) (filter (\<lambda>i. i < b) (bits_of (ws ! j)))"
    proof -
      have "filter (\<lambda>d. d < o') (days_from 0 (take j ws)) = days_from 0 (take j ws)"
        using j by (fastforce simp: o' dest: days_from_bounds intro!: filter_True)
      moreover have "filter (\<lambda>d. d < o') (days_from (Suc j) (drop (Suc j) ws)) = []"
      proof -
        have "o' \<le> d" if "d \<in> set (days_from (Suc j) (drop (Suc j) ws))" for d
          using days_from_bounds[OF that] o'(2,3) by simp
        then show ?thesis by (auto simp: filter_empty_conv not_less)
      qed
      ultimately show ?thesis
        by (simp add: days_split_at_word[OF j] o'(1) filter_map comp_def) (simp add: o'(2))
    qed
    then have len: "length (filter (\<lambda>d. int d < offset) (cycle_days ws)) =
        length (days_from 0 (take j ws)) + length (filter (\<lambda>i. i < b) (bits_of (ws ! j)))" by simp
    have "length (filter (\<lambda>d. int d < offset) (cycle_days ws)) \<le> u32_max"
      using length_filter_le[of "\<lambda>d. int d < offset" "cycle_days ws"] sum_count_ones_le[of ws] small
      by (simp add: length_days_from)
    with len have "u32_saturating (length (days_from 0 (take j ws)) + length (filter (\<lambda>i. i < b) (bits_of (ws ! j))))
        = length (filter (\<lambda>d. int d < offset) (cycle_days ws))"
      by (simp add: u32_saturating_def)
    moreover have "prefix (from_words ws) ! j = length (days_from 0 (take j ws))"
      using j by (simp add: fw del: upt_Suc)
    ultimately show ?thesis
      using 3 count_ones_masked[OF o'(3), of "ws ! j"]
      by (cases "b = 0") (simp_all add: rank_before_def Let_def fw(3) flip: o'_def j_def b_def)
  qed
qed

lemma select_exact:
  assumes "cycle_words ws"
  shows "select (from_words ws) r =
    (if r < length (cycle_days ws) then Some (int (cycle_days ws ! r)) else None)"
proof (cases "r < length (cycle_days ws)")
  case False
  then show ?thesis
    using from_words_prefix[OF cycle_words_small[OF assms]] by (simp add: select_def)
next
  case True
  note fw = from_words_prefix[OF cycle_words_small[OF assms]]
  define f where "f i = length (days_from 0 (take i ws))" for i
  define n where "n = length (takeWhile (\<lambda>p. p \<le> r) (map f [0..<Suc (length ws)]))"
  have pos: "0 < n" by (simp add: n_def f_def upt_rec)
  have n_le: "n \<le> Suc (length ws)"
    using length_takeWhile_le[of "\<lambda>p. p \<le> r" "map f [0..<Suc (length ws)]"] by (simp add: n_def)
  have le_n: "f i \<le> r" if "i < n" for i
  proof -
    have "takeWhile (\<lambda>p. p \<le> r) (map f [0..<Suc (length ws)]) ! i \<le> r"
      using that nth_mem[of i "takeWhile (\<lambda>p. p \<le> r) (map f [0..<Suc (length ws)])"]
      unfolding n_def by (blast dest: set_takeWhileD)
    then show ?thesis
      using that n_le by (simp add: n_def takeWhile_nth del: upt_Suc)
  qed
  have "f (length ws) = length (cycle_days ws)" by (simp add: f_def)
  then have "n \<noteq> Suc (length ws)" using le_n[of "length ws"] True by auto
  then have n: "n \<le> length ws" using n_le by simp
  then have "n < length (map f [0..<Suc (length ws)])" by simp
  from nth_length_takeWhile[OF this[unfolded n_def]] n have rn: "r < f n"
    by (simp add: not_le del: upt_Suc flip: n_def)
  define j where "j = n - 1"
  have j: "j < length ws" "f j \<le> r" "r < f (Suc j)" "Suc j = n"
    using pos n rn le_n[of j] by (auto simp: j_def)
  have fS: "f (Suc j) = f j + length (bits_of (ws ! j))"
    using j(1) by (simp add: f_def take_Suc_conv_app_nth days_from_append)
  then have b: "r - f j < length (bits_of (ws ! j))" using j by simp
  have "cycle_days ws ! r = 64 * j + bits_of (ws ! j) ! (r - f j)"
    using j(2) b by (simp add: days_split_at_word[OF j(1)] nth_append f_def)
  moreover have "select (from_words ws) r =
      Some (int j * 64 + int (trailing_zeros (clear_lowest (r - f j) (ws ! j))))"
  proof -
    have pre: "prefix (from_words ws) = map f [0..<Suc (length ws)]" by (simp add: fw f_def del: upt_Suc)
    have "map f [0..<Suc (length ws)] ! j = f j" using j by (simp del: upt_Suc)
    then show ?thesis
      using True by (simp add: select_def Let_def fw(2,3) pre j_def n_def del: upt_Suc)
  qed
  ultimately show ?thesis using True by (simp add: select_in_word[OF b])
qed


section \<open>Searching for days\<close>

definition day_matches :: "64 word list \<Rightarrow> int \<Rightarrow> bool" where
  "day_matches ws day \<longleftrightarrow> nat (day mod GREGORIAN_CYCLE_DAYS) \<in> set (cycle_days ws)"

lemma day_matches_iff:
  assumes "cycle_words ws"
  shows "day_matches ws day \<longleftrightarrow> (\<exists>r < length (cycle_days ws).
    day mod GREGORIAN_CYCLE_DAYS = int (cycle_days ws ! r))"
proof -
  have "0 \<le> day mod GREGORIAN_CYCLE_DAYS" by (simp add: GREGORIAN_CYCLE_DAYS_def)
  then show ?thesis by (auto simp: day_matches_def in_set_conv_nth)
qed

lemma day_parts: "day = day div GREGORIAN_CYCLE_DAYS * GREGORIAN_CYCLE_DAYS + day mod GREGORIAN_CYCLE_DAYS"
  by simp

lemma day_of_parts:
  assumes "cycle_words ws" and "r < length (cycle_days ws)"
  shows "(c * GREGORIAN_CYCLE_DAYS + int (cycle_days ws ! r)) div GREGORIAN_CYCLE_DAYS = c"
    and "(c * GREGORIAN_CYCLE_DAYS + int (cycle_days ws ! r)) mod GREGORIAN_CYCLE_DAYS = int (cycle_days ws ! r)"
proof -
  have "int (cycle_days ws ! r) < GREGORIAN_CYCLE_DAYS"
    using assms by (auto simp: cycle_words_def)
  then show "(c * GREGORIAN_CYCLE_DAYS + int (cycle_days ws ! r)) div GREGORIAN_CYCLE_DAYS = c"
    and "(c * GREGORIAN_CYCLE_DAYS + int (cycle_days ws ! r)) mod GREGORIAN_CYCLE_DAYS = int (cycle_days ws ! r)"
    by (simp_all add: GREGORIAN_CYCLE_DAYS_def)
qed

lemma sorted_rank:
  fixes xs :: "nat list"
  assumes "sorted_wrt (<) xs" and "r < length xs"
  shows "xs ! r < x \<longleftrightarrow> r < length (filter (\<lambda>d. d < x) xs)"
proof -
  have none: "filter (\<lambda>d. d < x) ys = []" if "\<not> y < x" "\<forall>z\<in>set ys. y < z" for y ys
    using that by (auto simp: filter_empty_conv)
  show ?thesis
    using assms
  proof (induction xs arbitrary: r)
    case (Cons y ys)
    show ?case
    proof (cases "y < x")
      case True
      with Cons show ?thesis by (cases r) auto
    next
      case False
      moreover have "(y # ys) ! r \<in> set (y # ys)" using Cons.prems(2) by (rule nth_mem)
      ultimately have "\<not> (y # ys) ! r < x" using Cons.prems(1) by auto
      with False none[OF False] Cons.prems show ?thesis by simp
    qed
  qed simp
qed

lemma days_rank:
  assumes "cycle_words ws" and "r < length (cycle_days ws)"
  shows "int (cycle_days ws ! r) < x \<longleftrightarrow> r < rank_before (from_words ws) x"
proof (cases "0 \<le> x")
  case True
  then have "(\<lambda>d. int d < x) = (\<lambda>d. d < nat x)" by auto
  then show ?thesis
    using sorted_rank[OF days_from_sorted assms(2), of "nat x"] rank_before_exact[OF assms(1), of x] True
    by auto
next
  case False
  then show ?thesis by (simp add: rank_before_def)
qed

lemma days_order:
  assumes "q < length (cycle_days ws)" and "r < length (cycle_days ws)"
  shows "cycle_days ws ! q < cycle_days ws ! r \<longleftrightarrow> q < r"
  using sorted_wrt_nth_less[OF days_from_sorted] assms
  by (metis linorder_neqE_nat not_less_iff_gr_or_eq)

definition searchable_day :: "int \<Rightarrow> bool" where
  "searchable_day day \<longleftrightarrow> \<bar>day\<bar> \<le> 4611686018427387904"

lemma matching_day_forward:
  assumes ws: "cycle_words ws" and ne: "cycle_days ws \<noteq> []" and ok: "searchable_day day"
  shows "\<exists>d. matching_day day (from_words ws) True = Some (Inr (Some d)) \<and> day \<le> d \<and>
    day_matches ws d \<and> (\<forall>x. day \<le> x \<longrightarrow> x < d \<longrightarrow> \<not> day_matches ws x)"
proof -
  let ?N = GREGORIAN_CYCLE_DAYS and ?D = "cycle_days ws"
  let ?c = "day div ?N" and ?w = "day mod ?N" and ?r = "rank_before (from_words ws) (day mod ?N)"
  have N: "?N = 146097" by (simp add: GREGORIAN_CYCLE_DAYS_def)
  have count: "cycle_count (from_words ws) = length ?D"
    by (rule from_words_prefix(2)[OF cycle_words_small[OF ws]])
  have c: "i64_saturating (?c + 1) = ?c + 1"
    using ok unfolding searchable_day_def N i64_saturating_def machine_bounds by simp
  have result: "matching_day day (from_words ws) True = Some (Inr (Some (k * ?N + int (?D ! q))))"
    if "(k = ?c \<and> q = ?r) \<or> (k = ?c + 1 \<and> \<not> ?r < length ?D \<and> q = 0)" and "q < length ?D" for k q
  proof -
    have "int (?D ! q) < ?N" using ws that(2) by (auto simp: cycle_words_def)
    moreover have "k * ?N = ?c * ?N \<or> k * ?N = ?c * ?N + ?N"
      using that distrib_right[of ?c 1 ?N] by auto
    moreover have "?c * ?N \<le> day" "day < ?c * ?N + ?N"
      using day_parts[of day] pos_mod_bound[of ?N day] pos_mod_sign[of ?N day] N by linarith+
    ultimately have "in_i64 (k * ?N)" "in_i64 (k * ?N + int (?D ! q))"
      using ok unfolding searchable_day_def N in_i64_def machine_bounds by linarith+
    then show ?thesis
      using that ne by (auto simp: matching_day_def Let_def count select_exact[OF ws] c)
  qed
  have none: "\<not> day_matches ws x" if x: "day \<le> x" "x < k * ?N + int (?D ! q)" "q < length ?D"
    and kq: "(k = ?c \<and> q = ?r) \<or> (k = ?c + 1 \<and> \<not> ?r < length ?D \<and> q = 0)" for x k q
  proof
    assume "day_matches ws x"
    then obtain p where p: "p < length ?D" "x mod ?N = int (?D ! p)" by (auto simp: day_matches_iff[OF ws])
    have cx: "?c \<le> x div ?N" using x(1) N by (intro zdiv_mono1) auto
    have "x div ?N \<le> (k * ?N + int (?D ! q)) div ?N" using x(2) N by (intro zdiv_mono1) auto
    then have "x div ?N \<le> k" using day_of_parts(1)[OF ws x(3)] by simp
    with cx kq consider "x div ?N = ?c" | "k = ?c + 1" "x div ?N = k" "q = 0" by linarith
    then show False
    proof cases
      case 1
      then have "x div ?N * ?N = ?c * ?N" by simp
      then have "\<not> int (?D ! p) < ?w" using x(1) p(2) day_parts[of day] day_parts[of x] by linarith
      then have "\<not> p < ?r" using days_rank[OF ws p(1), of ?w] by simp
      moreover have "p < q" if "k = ?c"
        using x 1 that p day_parts[of x] days_order[OF p(1) x(3)] by simp
      ultimately show False using kq p(1) by auto
    next
      case 2
      then have "?D ! p < ?D ! q" using x(2) p(2) day_parts[of x] by simp
      then show False using days_order[OF p(1) x(3)] 2 by simp
    qed
  qed
  show ?thesis
  proof (cases "?r < length ?D")
    case True
    let ?d = "?c * ?N + int (?D ! ?r)"
    have "?w \<le> int (?D ! ?r)" using days_rank[OF ws True, of ?w] by simp
    then have "day \<le> ?d" using day_parts[of day] by linarith
    moreover have "day_matches ws ?d"
      using True day_of_parts(2)[OF ws True] by (auto simp: day_matches_iff[OF ws])
    ultimately show ?thesis
      using result[of ?c ?r] none[of _ ?c ?r] True by auto
  next
    case False
    then have "0 < length ?D" using ne by simp
    let ?d = "(?c + 1) * ?N + int (?D ! 0)"
    have "day \<le> ?d"
      using day_parts[of day] pos_mod_bound[of ?N day] N distrib_right[of ?c 1 ?N] by linarith
    moreover have "day_matches ws ?d"
      using day_of_parts(2)[OF ws \<open>0 < length ?D\<close>] \<open>0 < length ?D\<close> by (auto simp: day_matches_iff[OF ws])
    ultimately show ?thesis
      using result[of "?c + 1" 0] none[of _ "?c + 1" 0] False \<open>0 < length ?D\<close> by auto
  qed
qed


lemma matching_day_backward:
  assumes ws: "cycle_words ws" and ne: "cycle_days ws \<noteq> []" and ok: "searchable_day day"
  shows "\<exists>d. matching_day day (from_words ws) False = Some (Inr (Some d)) \<and> d \<le> day \<and>
    day_matches ws d \<and> (\<forall>x. d < x \<longrightarrow> x \<le> day \<longrightarrow> \<not> day_matches ws x)"
proof -
  let ?N = GREGORIAN_CYCLE_DAYS and ?D = "cycle_days ws"
  let ?c = "day div ?N" and ?w = "day mod ?N" and ?r = "rank_before (from_words ws) (day mod ?N + 1)"
  let ?top = "length ?D - 1"
  have N: "?N = 146097" by (simp add: GREGORIAN_CYCLE_DAYS_def)
  have count: "cycle_count (from_words ws) = length ?D"
    by (rule from_words_prefix(2)[OF cycle_words_small[OF ws]])
  have c: "i64_saturating (?c - 1) = ?c - 1" "i64_saturating (?w + 1) = ?w + 1"
    using ok unfolding searchable_day_def N i64_saturating_def machine_bounds by simp_all
  have r: "?r \<le> length ?D" by (simp add: rank_before_exact[OF ws])
  have result: "matching_day day (from_words ws) False = Some (Inr (Some (k * ?N + int (?D ! q))))"
    if "(k = ?c \<and> 0 < ?r \<and> q = ?r - 1) \<or> (k = ?c - 1 \<and> ?r = 0 \<and> q = ?top)" and "q < length ?D" for k q
  proof -
    have "int (?D ! q) < ?N" using ws that(2) by (auto simp: cycle_words_def)
    moreover have "k * ?N = ?c * ?N \<or> k * ?N = ?c * ?N - ?N"
      using that left_diff_distrib[of ?c 1 ?N] by auto
    moreover have "?c * ?N \<le> day" "day < ?c * ?N + ?N"
      using day_parts[of day] pos_mod_bound[of ?N day] pos_mod_sign[of ?N day] N by linarith+
    ultimately have "in_i64 (k * ?N)" "in_i64 (k * ?N + int (?D ! q))"
      using ok unfolding searchable_day_def N in_i64_def machine_bounds by linarith+
    then show ?thesis
      using that ne by (auto simp: matching_day_def Let_def count select_exact[OF ws] c)
  qed
  have none: "\<not> day_matches ws x" if x: "x \<le> day" "k * ?N + int (?D ! q) < x" "q < length ?D"
    and kq: "(k = ?c \<and> 0 < ?r \<and> q = ?r - 1) \<or> (k = ?c - 1 \<and> ?r = 0 \<and> q = ?top)" for x k q
  proof
    assume "day_matches ws x"
    then obtain p where p: "p < length ?D" "x mod ?N = int (?D ! p)" by (auto simp: day_matches_iff[OF ws])
    have cx: "x div ?N \<le> ?c" using x(1) N by (intro zdiv_mono1) auto
    have "(k * ?N + int (?D ! q)) div ?N \<le> x div ?N" using x(2) N by (intro zdiv_mono1) auto
    then have "k \<le> x div ?N" using day_of_parts(1)[OF ws x(3)] by simp
    with cx kq consider "x div ?N = ?c" | "k = ?c - 1" "x div ?N = k" "q = ?top" by linarith
    then show False
    proof cases
      case 1
      then have "x div ?N * ?N = ?c * ?N" by simp
      then have "int (?D ! p) < ?w + 1" using x(1) p(2) day_parts[of day] day_parts[of x] by linarith
      then have "p < ?r" using days_rank[OF ws p(1), of "?w + 1"] by simp
      moreover have "q < p" if "k = ?c"
        using x 1 that p day_parts[of x] days_order[OF x(3) p(1)] by simp
      ultimately show False using kq p(1) by auto
    next
      case 2
      then have "?D ! q < ?D ! p" using x(2) p(2) day_parts[of x] by simp
      then show False using days_order[OF x(3) p(1)] 2 p(1) by simp
    qed
  qed
  show ?thesis
  proof (cases "0 < ?r")
    case True
    then have q: "?r - 1 < length ?D" using r by simp
    let ?d = "?c * ?N + int (?D ! (?r - 1))"
    have "int (?D ! (?r - 1)) < ?w + 1" using days_rank[OF ws q, of "?w + 1"] True by simp
    then have "?d \<le> day" using day_parts[of day] by linarith
    moreover have "day_matches ws ?d"
      using q day_of_parts(2)[OF ws q] by (auto simp: day_matches_iff[OF ws])
    ultimately show ?thesis
      using result[of ?c "?r - 1"] none[of _ ?c "?r - 1"] True q by auto
  next
    case False
    have q: "?top < length ?D" using ne by simp
    let ?d = "(?c - 1) * ?N + int (?D ! ?top)"
    have "int (?D ! ?top) < ?N" using ws q by (auto simp: cycle_words_def)
    then have "?d \<le> day"
      using day_parts[of day] pos_mod_sign[of ?N day] N left_diff_distrib[of ?c 1 ?N] by linarith
    moreover have "day_matches ws ?d"
      using day_of_parts(2)[OF ws q] q by (auto simp: day_matches_iff[OF ws])
    ultimately show ?thesis
      using result[of "?c - 1" ?top] none[of _ "?c - 1" ?top] False q by auto
  qed
qed


lemma rank_before_step:
  assumes "cycle_words ws" and "0 \<le> x"
  shows "rank_before (from_words ws) (x + 1) =
    rank_before (from_words ws) x + (if nat x \<in> set (cycle_days ws) then 1 else 0)"
proof -
  have "length (filter (\<lambda>d. int d < x + 1) ds) =
      length (filter (\<lambda>d. int d < x) ds) + (if nat x \<in> set ds then 1 else 0)" if "distinct ds" for ds
    using that assms(2) by (induction ds) (auto simp: nat_eq_iff)
  moreover have "distinct (cycle_days ws)" using days_from_sorted strict_sorted_iff by blast
  ultimately show ?thesis by (simp add: rank_before_exact[OF assms(1)])
qed

lemma positions_step:
  assumes "cycle_words ws"
  shows "matching_positions_before (day + 1) (from_words ws) =
    matching_positions_before day (from_words ws) + (if day_matches ws day then 1 else 0)"
proof -
  let ?N = GREGORIAN_CYCLE_DAYS
  have N: "?N = 146097" by (simp add: GREGORIAN_CYCLE_DAYS_def)
  have step: "rank_before (from_words ws) (day mod ?N + 1) =
      rank_before (from_words ws) (day mod ?N) + (if day_matches ws day then 1 else 0)"
    using rank_before_step[OF assms, of "day mod ?N"] N by (simp add: day_matches_def)
  show ?thesis
  proof (cases "day mod ?N + 1 = ?N")
    case True
    then have "day + 1 = (day div ?N + 1) * ?N"
      using day_parts[of day] distrib_right[of "day div ?N" 1 ?N] by linarith
    then have "(day + 1) div ?N = day div ?N + 1" "(day + 1) mod ?N = 0" using N by simp_all
    moreover have "rank_before (from_words ws) (day mod ?N + 1) = cycle_count (from_words ws)"
      using True N by (simp add: rank_before_def)
    moreover have "rank_before (from_words ws) 0 = 0" by (simp add: rank_before_def)
    ultimately show ?thesis
      using step by (simp add: matching_positions_before_def algebra_simps)
  next
    case False
    then have within: "0 \<le> day mod ?N + 1" "day mod ?N + 1 < ?N"
      using pos_mod_bound[of ?N day] pos_mod_sign[of ?N day] N by linarith+
    have "day + 1 = (day mod ?N + 1) + day div ?N * ?N" using day_parts[of day] by linarith
    then have "(day + 1) div ?N = day div ?N" "(day + 1) mod ?N = day mod ?N + 1"
      using within N by (metis add_0 div_mult_self1 div_pos_pos_trivial less_irrefl zero_less_numeral add.commute,
          metis mod_mult_self1 mod_pos_pos_trivial)
    with step show ?thesis by (simp add: matching_positions_before_def)
  qed
qed

lemma days_from_zeros: "days_from k (replicate n 0) = []"
  by (induction n arbitrary: k) (auto simp: bits_of_def)

text \<open>A cycle with only its first day, for concrete instances.\<close>

definition first_day_words :: "64 word list" where
  "first_day_words = 1 # replicate 2282 0"

lemma first_day_cycle: "cycle_words first_day_words" "cycle_days first_day_words = [0]"
proof -
  have "bits_of 1 = [0]" by (rule bits_of_eqI) (auto simp: bit_1_iff)
  then show "cycle_days first_day_words = [0]" by (simp add: first_day_words_def days_from_zeros)
  then show "cycle_words first_day_words"
    by (simp add: cycle_words_def GREGORIAN_CYCLE_DAYS_def)
      (simp add: GREGORIAN_CYCLE_WORDS_def first_day_words_def)
qed


section \<open>Properties\<close>

text \<open>
  On the words of a cycle, select returns the day of the given rank in increasing order
  and nothing past the last rank, and rank counts the matching days before an offset; the
  two are inverse to each other, so the bit tricks on words and prefix counts implement the
  sorted list of matching days.
\<close>

theorem cycle_rank_select:
  assumes "cycle_words ws"
  shows "select (from_words ws) r =
      (if r < length (cycle_days ws) then Some (int (cycle_days ws ! r)) else None) \<and>
    rank_before (from_words ws) offset = card {d \<in> set (cycle_days ws). int d < offset} \<and>
    (\<forall>d. select (from_words ws) r = Some d \<longrightarrow> rank_before (from_words ws) d = r)"
proof (intro conjI allI impI)
  show "select (from_words ws) r =
      (if r < length (cycle_days ws) then Some (int (cycle_days ws ! r)) else None)"
    by (rule select_exact[OF assms])
  have "distinct (cycle_days ws)" using days_from_sorted strict_sorted_iff by blast
  then show "rank_before (from_words ws) offset = card {d \<in> set (cycle_days ws). int d < offset}"
    using distinct_card[of "filter (\<lambda>d. int d < offset) (cycle_days ws)"]
    by (simp add: rank_before_exact[OF assms])
  fix d assume "select (from_words ws) r = Some d"
  then have r: "r < length (cycle_days ws)" and d: "d = int (cycle_days ws ! r)"
    by (auto simp: select_exact[OF assms] split: if_splits)
  have *: "q < rank_before (from_words ws) d \<longleftrightarrow> q < r" if "q < length (cycle_days ws)" for q
    using days_rank[OF assms that, of d] days_order[OF that r] by (simp add: d)
  have "rank_before (from_words ws) d \<le> length (cycle_days ws)" by (simp add: rank_before_exact[OF assms])
  with *[of r] *[of "rank_before (from_words ws) d"] r show "rank_before (from_words ws) d = r"
    by (metis le_neq_implies_less less_irrefl linorder_neqE_nat)
qed


text \<open>
  The difference of two position counts is the number of matching days in the range,
  over any number of cycles and for days before the epoch of the calendar.
\<close>

theorem positions_count_days:
  assumes "cycle_words ws" and "a \<le> b"
  shows "matching_positions_before b (from_words ws) - matching_positions_before a (from_words ws) =
    int (card {d. a \<le> d \<and> d < b \<and> day_matches ws d})"
  using assms(2)
proof (induction b rule: int_ge_induct)
  case base
  have "{d. a \<le> d \<and> d < a \<and> day_matches ws d} = {}" by auto
  then show ?case by (simp only: card.empty)
next
  case (step b)
  let ?S = "{d. a \<le> d \<and> d < b \<and> day_matches ws d}"
  have "finite ?S" by (rule finite_subset[of _ "{a..b}"]) auto
  moreover have "{d. a \<le> d \<and> d < b + 1 \<and> day_matches ws d} =
      (if day_matches ws b then insert b ?S else ?S)"
    using step(1) by (auto simp: le_less)
  ultimately show ?case using step(2) positions_step[OF assms(1), of b] by simp
qed

theorem cycle_rank_select_witness:
  "select (from_words first_day_words) 0 = Some 0 \<and>
   rank_before (from_words first_day_words) 1 = 1"
proof -
  have "{d \<in> set [0::nat]. int d < 1} = {0}" by auto
  then show ?thesis
    using cycle_rank_select[OF first_day_cycle(1), of 0 1] by (simp add: first_day_cycle(2))
qed


theorem positions_count_days_witness:
  "matching_positions_before 7 (from_words first_day_words)
     - matching_positions_before (- 3) (from_words first_day_words) =
   int (card {d. - 3 \<le> d \<and> d < 7 \<and> day_matches first_day_words d})"
  by (rule positions_count_days[OF first_day_cycle(1)]) simp

end
