(* ===== verification/Interval_Schedule.thy ===== *)
theory Interval_Schedule
  imports Locron_Time
begin

text \<open>
  Fixed-interval schedules and the occurrence statistics shared by every kind of schedule:
  \<^verbatim>\<open>crates/locron-core/src/schedule.rs\<close>, functions \<open>interval_occurrences\<close>,
  \<open>interval_bounds\<close>, \<open>interval_at\<close>, \<open>interval_range_stats\<close>, \<open>interval_newest\<close> and the
  struct \<open>OccurrenceStats\<close>. The reference is the sorted list \<open>window\<close> of the occurrences
  in a half-open range of instants.
\<close>

section \<open>Occurrence statistics\<close>

record occurrence_stats =
  stats_count :: nat
  stats_first :: "timestamp option"
  stats_last :: "timestamp option"

definition OccurrenceStats_default :: occurrence_stats where
  "OccurrenceStats_default = \<lparr>stats_count = 0, stats_first = None, stats_last = None\<rparr>"

definition OccurrenceStats_one :: "timestamp \<Rightarrow> occurrence_stats" where
  "OccurrenceStats_one at = \<lparr>stats_count = 1, stats_first = Some at, stats_last = Some at\<rparr>"


section \<open>Interval arithmetic\<close>

definition whole_seconds_required :: validation_error where
  "whole_seconds_required = ValidationError_new ''every'' ''whole_seconds_required''
     ''interval must be a positive whole number of seconds''"

definition interval_too_large :: validation_error where
  "interval_too_large = ValidationError_new ''every'' ''duration_overflow''
     ''interval is too large''"

definition next_overflows :: validation_error where
  "next_overflows = ValidationError_new ''every'' ''time_overflow'' ''next occurrence overflows''"

definition occurrence_overflows :: validation_error where
  "occurrence_overflows = ValidationError_new ''every'' ''time_overflow''
     ''occurrence time overflows''"

text \<open>The collecting loop of \<open>interval_occurrences\<close>.\<close>

fun push_occurrences :: "int \<Rightarrow> nat \<Rightarrow> int \<Rightarrow> timestamp list \<Rightarrow> validation_error + timestamp list" where
  "push_occurrences step 0 current result = Inr result"
| "push_occurrences step (Suc n) current result =
     and_then (ok_or next_overflows (i64_checked (current + step)))
       (\<lambda>next. push_occurrences step n next (result @ [Timestamp current]))"

text \<open>
  \<open>checked_div(step).unwrap_or(0)\<close> truncates towards zero; it is only used on a
  non-negative dividend.
\<close>

definition interval_occurrences ::
    "duration_micros \<Rightarrow> timestamp \<Rightarrow> timestamp \<Rightarrow> nat \<Rightarrow> validation_error + timestamp list" where
  "interval_occurrences interval anchor after count =
     (if get interval < 1000000 \<or> get interval mod 1000000 \<noteq> 0 then Inl whole_seconds_required
      else if count = 0 then Inr []
      else
        and_then (ok_or interval_too_large (i64_try_from (get interval))) (\<lambda>step.
          let delta = i64_saturating (epoch_micros after - epoch_micros anchor);
              multiple = (if delta < 0 then 0 else i64_saturating (delta div step + 1))
          in and_then (ok_or next_overflows (i64_checked (multiple * step))) (\<lambda>offset.
             and_then (ok_or next_overflows (i64_checked (epoch_micros anchor + offset)))
               (\<lambda>current. push_occurrences step count current []))))"

text \<open>For a positive divisor \<open>div_euclid\<close> is the floored division of HOL.\<close>

definition interval_bounds ::
    "duration_micros \<Rightarrow> timestamp \<Rightarrow> timestamp \<Rightarrow> timestamp
     \<Rightarrow> validation_error + (int \<times> int \<times> int) option" where
  "interval_bounds interval anchor after through =
     and_then (ok_or interval_too_large (i64_try_from (get interval))) (\<lambda>step.
       if step < 1000000 \<or> step mod 1000000 \<noteq> 0 then Inl whole_seconds_required
       else
         let first = max (i64_saturating
               (i64_saturating (epoch_micros after - epoch_micros anchor) div step + 1)) 0;
             last = i64_saturating (epoch_micros through - epoch_micros anchor) div step
         in Inr (if last \<ge> first then Some (step, first, last) else None))"

definition interval_at :: "timestamp \<Rightarrow> int \<Rightarrow> int \<Rightarrow> validation_error + timestamp" where
  "interval_at anchor step index =
     and_then (ok_or occurrence_overflows (i64_checked (index * step))) (\<lambda>offset.
       ok_or occurrence_overflows
         (map_option Timestamp (i64_checked (epoch_micros anchor + offset))))"

definition interval_range_stats ::
    "duration_micros \<Rightarrow> timestamp \<Rightarrow> timestamp \<Rightarrow> timestamp
     \<Rightarrow> validation_error + occurrence_stats" where
  "interval_range_stats interval anchor after through =
     and_then (interval_bounds interval anchor after through) (\<lambda>bounds.
       case bounds of
         None \<Rightarrow> Inr OccurrenceStats_default
       | Some (step, first, last') \<Rightarrow>
           and_then (interval_at anchor step first) (\<lambda>first_at.
           and_then (interval_at anchor step last') (\<lambda>last_at.
             Inr \<lparr>stats_count = (case u64_try_from (i64_saturating (i64_saturating (last' - first) + 1)) of
                       None \<Rightarrow> u64_max | Some n \<Rightarrow> n),
                  stats_first = Some first_at,
                  stats_last = Some last_at\<rparr>)))"

definition interval_newest ::
    "duration_micros \<Rightarrow> timestamp \<Rightarrow> timestamp \<Rightarrow> timestamp \<Rightarrow> nat
     \<Rightarrow> validation_error + timestamp list" where
  "interval_newest interval anchor after through limit =
     and_then (interval_bounds interval anchor after through) (\<lambda>bounds.
       case bounds of
         None \<Rightarrow> Inr []
       | Some (step, first, last') \<Rightarrow>
           let retain = (case i64_try_from limit of None \<Rightarrow> i64_max | Some n \<Rightarrow> n);
               bounded_first = max first (i64_saturating (last' - i64_saturating (retain - 1)))
           in collect (interval_at anchor step) [bounded_first..last'])"


section \<open>Windows of occurrences\<close>

definition window :: "timestamp set \<Rightarrow> timestamp \<Rightarrow> timestamp \<Rightarrow> timestamp list" where
  "window occ after through = sorted_list_of_set (occ \<inter> {after<..through})"

definition stats_of :: "timestamp list \<Rightarrow> occurrence_stats" where
  "stats_of ts =
     (if ts = [] then OccurrenceStats_default
      else \<lparr>stats_count = length ts, stats_first = Some (hd ts), stats_last = Some (last ts)\<rparr>)"

definition take_last :: "nat \<Rightarrow> 'a list \<Rightarrow> 'a list" where
  "take_last n xs = drop (length xs - n) xs"

lemma finite_timestamps_between [simp]: "finite {a<..b :: timestamp}"
proof -
  have "{a<..b} \<subseteq> Timestamp ` {epoch_micros a<..epoch_micros b}"
  proof
    fix t assume "t \<in> {a<..b}"
    then show "t \<in> Timestamp ` {epoch_micros a<..epoch_micros b}"
      by (cases t) (auto simp: less_timestamp_def less_eq_timestamp_def)
  qed
  then show ?thesis by (rule finite_subset) simp
qed

lemma set_window [simp]: "set (window occ a b) = occ \<inter> {a<..b}"
  by (simp add: window_def)

lemma sorted_window [simp]: "sorted_wrt (<) (window occ a b)"
  by (simp add: window_def strict_sorted_list_of_set)

lemma window_empty [simp]: "b \<le> a \<Longrightarrow> window occ a b = []"
  by (simp add: window_def)

lemma window_eqI: "sorted_wrt (<) xs \<Longrightarrow> set xs = occ \<inter> {a<..b} \<Longrightarrow> window occ a b = xs"
  by (metis set_window sorted_window strict_sorted_equal)

lemma window_split:
  assumes "a \<le> b" and "b \<le> c"
  shows "window occ a c = window occ a b @ window occ b c"
  using assms by (intro window_eqI) (auto simp: sorted_wrt_append)

lemma take_last_simps [simp]:
  "take_last 0 xs = []"
  "take_last n [] = []"
  by (simp_all add: take_last_def)

lemma length_take_last [simp]: "length (take_last n xs) = min n (length xs)"
  by (simp add: take_last_def)

lemma take_last_all: "length xs \<le> n \<Longrightarrow> take_last n xs = xs"
  by (simp add: take_last_def)

lemma take_last_append: "take_last n (xs @ ys) = take_last (n - length ys) xs @ take_last n ys"
  by (cases "n \<le> length ys") (simp_all add: take_last_def)

lemma set_take_last: "set (take_last n xs) \<subseteq> set xs"
  by (simp add: take_last_def set_drop_subset)

lemma take_drop_last: "take (length xs - n) xs @ take_last n xs = xs"
  by (simp add: take_last_def)

lemma take_last_take_last: "take_last m (take_last n xs) = take_last (min m n) xs"
  by (cases "n \<le> length xs"; cases "m \<le> n")
    (auto simp: take_last_def min_def)

lemma take_last_one: "xs \<noteq> [] \<Longrightarrow> take_last 1 xs = [last xs]"
  by (induction xs rule: rev_induct) (auto simp: take_last_def)


section \<open>Interval windows\<close>

definition valid_interval :: "duration_micros \<Rightarrow> bool" where
  "valid_interval d \<longleftrightarrow>
     1000000 \<le> get d \<and> get d mod 1000000 = 0 \<and> int (get d) \<le> i64_max"

definition every_occurrences :: "duration_micros \<Rightarrow> timestamp \<Rightarrow> timestamp set" where
  "every_occurrences interval anchor =
     {Timestamp (epoch_micros anchor + k * int (get interval)) | k. 0 \<le> k}"

text \<open>Instants whose distance from the anchor an \<open>i64\<close> can hold.\<close>

definition within_reach :: "timestamp \<Rightarrow> timestamp \<Rightarrow> bool" where
  "within_reach anchor t \<longleftrightarrow> valid_instant t \<and> epoch_micros t - epoch_micros anchor \<le> i64_max"

lemma int_le_div_iff:
  assumes "0 < (s::int)"
  shows "k \<le> x div s \<longleftrightarrow> k * s \<le> x"
proof
  assume "k \<le> x div s"
  with assms have "k * s \<le> x div s * s" by (intro mult_right_mono) auto
  also have "x div s * s = x - x mod s" by (simp add: minus_mod_eq_div_mult)
  also have "\<dots> \<le> x" using pos_mod_sign[OF assms, of x] by linarith
  finally show "k * s \<le> x" .
next
  assume "k * s \<le> x"
  with assms have "k * s div s \<le> x div s" by (intro zdiv_mono1) auto
  with assms show "k \<le> x div s" by simp
qed

lemma saturating_first_index:
  assumes "1000000 \<le> s" and "a \<le> i64_max"
  shows "max (i64_saturating (i64_saturating a div s + 1)) 0 = max 0 (a div s + 1)"
proof (cases "a < 0")
  case True
  then have "i64_saturating a < 0" by (auto simp: i64_saturating_def machine_bounds)
  with True assms(1) have "i64_saturating a div s < 0" "a div s < 0"
    by (simp_all add: pos_imp_zdiv_neg_iff)
  then show ?thesis by (auto simp: i64_saturating_def machine_bounds)
next
  case False
  with assms(2) have id: "i64_saturating a = a" by (simp add: i64_saturating_def machine_bounds)
  have "a div s \<le> a div 1000000" using False assms(1) by (intro zdiv_mono2) auto
  also have "\<dots> < i64_max" using assms(2) by (simp add: machine_bounds)
  finally have "i64_saturating (a div s + 1) = a div s + 1"
    using False assms(1) by (simp add: i64_saturating_def machine_bounds pos_imp_zdiv_nonneg_iff)
  with id show ?thesis by (simp add: max.commute)
qed

lemma interval_bounds_exact:
  assumes "valid_interval d" and "valid_instant anchor"
    and "within_reach anchor after" and "within_reach anchor through"
  shows "interval_bounds d anchor after through =
    (let step = int (get d);
         first = max 0 ((epoch_micros after - epoch_micros anchor) div step + 1);
         last = (epoch_micros through - epoch_micros anchor) div step
     in Inr (if first \<le> last then Some (step, first, last) else None))"
proof -
  let ?s = "int (get d)"
  let ?a = "epoch_micros after - epoch_micros anchor"
  let ?t = "epoch_micros through - epoch_micros anchor"
  from assms(1) have s: "1000000 \<le> ?s" "?s mod 1000000 = 0" "?s \<le> i64_max"
    by (auto simp: valid_interval_def simp flip: zmod_int)
  have a: "?a \<le> i64_max" and t: "?t \<le> i64_max" using assms by (auto simp: within_reach_def)
  have neg: "x div ?s < 0 \<longleftrightarrow> x < 0" for x using s by (simp add: neg_imp_zdiv_neg_iff pos_imp_zdiv_neg_iff)
  have sat: "i64_saturating x = x \<or> x < 0 \<and> i64_saturating x < 0" if "x \<le> i64_max" for x
    using that by (auto simp: i64_saturating_def machine_bounds)
  note first = saturating_first_index[OF s(1) a]
  have last: "i64_saturating ?t div ?s = ?t div ?s \<or> i64_saturating ?t div ?s < 0 \<and> ?t div ?s < 0"
    using sat[OF t] unfolding neg by metis
  have conv: "i64_try_from (get d) = Some ?s" using s(3) by (simp add: i64_try_from_def)
  have whole: "\<not> (?s < 1000000 \<or> ?s mod 1000000 \<noteq> 0)" using s(1,2) by linarith
  have "interval_bounds d anchor after through =
      Inr (if max 0 (?a div ?s + 1) \<le> i64_saturating ?t div ?s
           then Some (?s, max 0 (?a div ?s + 1), i64_saturating ?t div ?s) else None)"
    by (simp only: interval_bounds_def conv ok_or_simps and_then_simps whole if_False Let_def first)
  then show ?thesis using last unfolding Let_def by fastforce
qed

definition every_indices :: "duration_micros \<Rightarrow> timestamp \<Rightarrow> timestamp \<Rightarrow> timestamp \<Rightarrow> int list" where
  "every_indices d anchor after through =
     [max 0 ((epoch_micros after - epoch_micros anchor) div int (get d) + 1)
      .. (epoch_micros through - epoch_micros anchor) div int (get d)]"

definition every_at :: "duration_micros \<Rightarrow> timestamp \<Rightarrow> int \<Rightarrow> timestamp" where
  "every_at d anchor k = Timestamp (epoch_micros anchor + k * int (get d))"

lemma every_at_less: "valid_interval d \<Longrightarrow> every_at d anchor i < every_at d anchor j \<longleftrightarrow> i < j"
  by (auto simp: every_at_def valid_interval_def)

lemma window_every:
  assumes "valid_interval d"
  shows "window (every_occurrences d anchor) after through =
    map (every_at d anchor) (every_indices d anchor after through)"
proof (rule window_eqI)
  have "sorted_wrt (\<lambda>i j. every_at d anchor i < every_at d anchor j) (every_indices d anchor after through)"
    unfolding every_at_less[OF assms] every_indices_def
    by (rule sorted_wrt_upto)
  then show "sorted_wrt (<) (map (every_at d anchor) (every_indices d anchor after through))"
    by (simp add: sorted_wrt_map)
  from assms have s: "0 < int (get d)" by (simp add: valid_interval_def)
  have lower: "(epoch_micros after - epoch_micros anchor) div int (get d) < k \<longleftrightarrow>
      epoch_micros after < epoch_micros anchor + k * int (get d)" for k
    using int_le_div_iff[OF s, of k "epoch_micros after - epoch_micros anchor"] by linarith
  have upper: "k \<le> (epoch_micros through - epoch_micros anchor) div int (get d) \<longleftrightarrow>
      epoch_micros anchor + k * int (get d) \<le> epoch_micros through" for k
    using int_le_div_iff[OF s, of k "epoch_micros through - epoch_micros anchor"] by linarith
  have "set (every_indices d anchor after through) =
      {k. 0 \<le> k \<and> epoch_micros after < epoch_micros anchor + k * int (get d) \<and>
          epoch_micros anchor + k * int (get d) \<le> epoch_micros through}"
    unfolding every_indices_def set_upto atLeastAtMost_def atLeast_def atMost_def Collect_conj_eq[symmetric]
      max.bounded_iff upper add1_zle_eq lower conj_assoc by (rule refl)
  then show "set (map (every_at d anchor) (every_indices d anchor after through)) =
      every_occurrences d anchor \<inter> {after<..through}"
    by (auto simp: every_at_def every_occurrences_def timestamp_order)
qed


lemma every_at_reach:
  assumes "valid_instant anchor" and "within_reach anchor through" and "valid_interval d"
    and "k \<in> set (every_indices d anchor after through)"
  shows "interval_at anchor (int (get d)) k = Inr (every_at d anchor k)"
proof -
  have "0 < int (get d)" using assms(3) by (simp add: valid_interval_def)
  from int_le_div_iff[OF this] assms(4)
  have up: "k * int (get d) \<le> epoch_micros through - epoch_micros anchor"
    and "0 \<le> k" by (auto simp: every_indices_def)
  then have low: "0 \<le> k * int (get d)" by simp
  have "in_i64 (k * int (get d))" "in_i64 (epoch_micros anchor + k * int (get d))"
    using up low assms(1,2) by (auto simp: in_i64_def within_reach_def valid_instant_def machine_bounds)
  then show ?thesis by (simp add: interval_at_def every_at_def)
qed

lemma every_last_bound:
  assumes "valid_interval d" and "within_reach anchor through"
  shows "(epoch_micros through - epoch_micros anchor) div int (get d) < i64_max"
proof (rule ccontr)
  let ?l = "(epoch_micros through - epoch_micros anchor) div int (get d)"
  assume "\<not> ?l < i64_max"
  then have big: "i64_max \<le> ?l" by simp
  have s: "0 < int (get d)" "1000000 \<le> int (get d)" using assms(1) by (simp_all add: valid_interval_def)
  from int_le_div_iff[OF s(1), of ?l "epoch_micros through - epoch_micros anchor"]
  have "?l * int (get d) \<le> i64_max" using assms(2) by (simp add: within_reach_def)
  moreover have "i64_max * 1000000 \<le> ?l * int (get d)"
    using big s(2) by (intro mult_mono) (auto simp: machine_bounds)
  ultimately show False by (simp add: machine_bounds)
qed

lemma interval_range_stats_exact:
  assumes "valid_interval d" and "valid_instant anchor"
    and "within_reach anchor after" and "within_reach anchor through"
  shows "interval_range_stats d anchor after through =
    Inr (stats_of (window (every_occurrences d anchor) after through))"
proof -
  let ?ks = "every_indices d anchor after through"
  define f l where "f = max 0 ((epoch_micros after - epoch_micros anchor) div int (get d) + 1)"
    and "l = (epoch_micros through - epoch_micros anchor) div int (get d)"
  have ks: "?ks = [f..l]" by (simp add: every_indices_def f_def l_def)
  have bounds: "interval_bounds d anchor after through =
      Inr (if f \<le> l then Some (int (get d), f, l) else None)"
    using interval_bounds_exact[OF assms] by (simp add: f_def l_def Let_def)
  show ?thesis
  proof (cases "f \<le> l")
    case False
    then show ?thesis
      by (simp add: interval_range_stats_def bounds window_every[OF assms(1)] ks stats_of_def)
  next
    case True
    have "l < i64_max" using every_last_bound[OF assms(1,4)] by (simp add: l_def)
    moreover have "0 \<le> f" by (simp add: f_def)
    ultimately have count: "i64_saturating (i64_saturating (l - f) + 1) = l - f + 1"
      using True by (simp add: i64_saturating_def machine_bounds)
    have ends: "interval_at anchor (int (get d)) f = Inr (every_at d anchor f)"
      "interval_at anchor (int (get d)) l = Inr (every_at d anchor l)"
      using True by (auto intro!: every_at_reach[OF assms(2,4,1), where after = after] simp: ks)
    have upto: "[f..l] \<noteq> []" "hd [f..l] = f" "last [f..l] = l"
      using upto_rec1[OF True] upto_rec2[OF True] by (metis list.distinct(1), metis list.sel(1), metis last_snoc)
    show ?thesis
      using True
      by (simp add: interval_range_stats_def bounds window_every[OF assms(1)] ks stats_of_def
          u64_try_from_def last_map hd_map ends count upto)
  qed
qed

lemma upto_take_last:
  "[max f (l - (int n - 1))..l] = take_last n [f..l]"
proof (cases "f \<le> l - (int n - 1)")
  case True
  then have "[f..l] = [f..l - int n] @ [l - int n + 1..l]"
    by (cases "f = l - int n + 1") (auto intro!: upto_split2)
  moreover have "length [l - int n + 1..l] = n" by simp
  ultimately show ?thesis
    using True by (simp add: take_last_append take_last_all max_def algebra_simps)
next
  case False
  then have "length [f..l] \<le> n" by simp
  with False show ?thesis by (simp add: take_last_all max_def)
qed

lemma interval_newest_exact:
  assumes "valid_interval d" and "valid_instant anchor"
    and "within_reach anchor after" and "within_reach anchor through" and "int limit \<le> i64_max"
  shows "interval_newest d anchor after through limit =
    Inr (take_last limit (window (every_occurrences d anchor) after through))"
proof -
  define f l where "f = max 0 ((epoch_micros after - epoch_micros anchor) div int (get d) + 1)"
    and "l = (epoch_micros through - epoch_micros anchor) div int (get d)"
  have ks: "every_indices d anchor after through = [f..l]" by (simp add: every_indices_def f_def l_def)
  have bounds: "interval_bounds d anchor after through =
      Inr (if f \<le> l then Some (int (get d), f, l) else None)"
    using interval_bounds_exact[OF assms(1-4)] by (simp add: f_def l_def Let_def)
  have sat: "max f (i64_saturating (l - i64_saturating (int limit - 1))) = max f (l - (int limit - 1))"
    if "f \<le> l"
  proof -
    have "l < i64_max" using every_last_bound[OF assms(1,4)] by (simp add: l_def)
    moreover have "0 \<le> f" by (simp add: f_def)
    ultimately show ?thesis using that assms(5) by (simp add: i64_saturating_def machine_bounds)
  qed
  show ?thesis
  proof (cases "f \<le> l")
    case False
    then show ?thesis by (simp add: interval_newest_def bounds window_every[OF assms(1)] ks)
  next
    case True
    have "collect (interval_at anchor (int (get d))) (take_last limit [f..l]) =
        Inr (map (every_at d anchor) (take_last limit [f..l]))"
      using set_take_last[of limit "[f..l]"]
      by (intro collect_Inr every_at_reach[OF assms(2,4,1), where after = after]) (auto simp: ks)
    with True assms(5) show ?thesis
      by (simp add: interval_newest_def bounds window_every[OF assms(1)] ks i64_try_from_def
          sat upto_take_last take_last_def drop_map)
  qed
qed


section \<open>The next occurrences\<close>

text \<open>The index of the first occurrence after an instant.\<close>

definition next_index :: "duration_micros \<Rightarrow> timestamp \<Rightarrow> timestamp \<Rightarrow> int" where
  "next_index d anchor after =
     max 0 ((epoch_micros after - epoch_micros anchor) div int (get d) + 1)"

lemma push_occurrences_eq:
  "push_occurrences step n current result =
    (if \<forall>i<n. in_i64 (current + int (Suc i) * step)
     then Inr (result @ map (\<lambda>i. Timestamp (current + int i * step)) [0..<n])
     else Inl next_overflows)"
proof (induction n arbitrary: current result)
  case 0
  then show ?case by simp
next
  case (Suc n)
  have split: "(\<forall>i<Suc n. in_i64 (current + int (Suc i) * step)) \<longleftrightarrow>
      in_i64 (current + step) \<and> (\<forall>i<n. in_i64 (current + step + int (Suc i) * step))"
    unfolding All_less_Suc2 by (simp add: algebra_simps)
  have tail: "map (\<lambda>i. Timestamp (current + int i * step)) [0..<Suc n] =
      Timestamp current # map (\<lambda>i. Timestamp (current + step + int i * step)) [0..<n]"
    unfolding map_upt_Suc by (simp add: algebra_simps)
  show ?case
    using Suc[of "current + step" "result @ [Timestamp current]"] unfolding split tail
    by (auto simp: i64_checked_def)
qed

lemma next_index_window:
  assumes "valid_interval d"
  shows "window (every_occurrences d anchor) after (every_at d anchor (next_index d anchor after + int n))
    = map (\<lambda>i. every_at d anchor (next_index d anchor after + int i)) [0..<Suc n]"
proof -
  have s: "0 < int (get d)" using assms by (simp add: valid_interval_def)
  have "every_indices d anchor after (every_at d anchor (next_index d anchor after + int n)) =
      [next_index d anchor after..next_index d anchor after + int n]"
    using s by (simp add: every_indices_def every_at_def next_index_def)
  also have "\<dots> = map (\<lambda>i. next_index d anchor after + int i) [0..<Suc n]"
    by (rule nth_equalityI) (auto simp: nth_upto simp del: upt_Suc)
  finally show ?thesis by (simp add: window_every[OF assms] comp_def del: upt_Suc)
qed

lemma interval_occurrences_closed:
  assumes "valid_interval d" and "valid_instant anchor" and "within_reach anchor after"
    and "0 < count"
  shows "interval_occurrences d anchor after count =
    (if in_i64 (next_index d anchor after * int (get d)) \<and>
        valid_instant (every_at d anchor (next_index d anchor after + int count))
     then Inr (map (\<lambda>i. every_at d anchor (next_index d anchor after + int i)) [0..<count])
     else Inl next_overflows)"
proof -
  let ?s = "int (get d)" and ?k = "next_index d anchor after" and ?c = "epoch_micros anchor"
  have s: "1000000 \<le> ?s" "get d mod 1000000 = 0" "?s \<le> i64_max"
    using assms(1) by (simp_all add: valid_interval_def)
  have index: "(if x < 0 then 0 else i64_saturating (x div ?s + 1)) =
      max (i64_saturating (x div ?s + 1)) 0" for x
  proof (cases "x < 0")
    case True
    with s(1) have "x div ?s < 0" by (simp add: pos_imp_zdiv_neg_iff)
    with True show ?thesis by (auto simp: i64_saturating_def machine_bounds)
  next
    case False
    with s(1) have "0 \<le> x div ?s" by (simp add: pos_imp_zdiv_nonneg_iff)
    with False show ?thesis by (auto simp: i64_saturating_def machine_bounds)
  qed
  have multiple: "max (i64_saturating (i64_saturating (epoch_micros after - ?c) div ?s + 1)) 0 = ?k"
    using saturating_first_index[OF s(1)] assms(3) by (simp add: within_reach_def next_index_def)
  have "interval_occurrences d anchor after count =
    and_then (ok_or next_overflows (i64_checked (?k * ?s))) (\<lambda>offset.
      and_then (ok_or next_overflows (i64_checked (?c + offset)))
        (\<lambda>current. push_occurrences ?s count current []))"
    using s assms(4) by (simp add: interval_occurrences_def Let_def index multiple i64_try_from_def)
  moreover have "(in_i64 (?c + ?k * ?s) \<and> (\<forall>i<count. in_i64 (?c + ?k * ?s + int (Suc i) * ?s))) \<longleftrightarrow>
      valid_instant (every_at d anchor (?k + int count))" (is "?L \<longleftrightarrow> ?R")
  proof
    assume ?L
    with assms(4) have "in_i64 (?c + ?k * ?s + int (Suc (count - 1)) * ?s)" by (meson diff_less zero_less_one)
    with assms(4) show ?R by (simp add: valid_instant_def every_at_def algebra_simps)
  next
    assume ?R
    then have top: "in_i64 (?c + ?k * ?s + int count * ?s)"
      by (simp add: valid_instant_def every_at_def algebra_simps)
    have "in_i64 (?c + ?k * ?s + int i * ?s)" if "i \<le> count" for i
    proof (rule in_i64_between[OF _ top])
      show "in_i64 ?c" using assms(2) by (simp add: valid_instant_def)
      show "?c \<le> ?c + ?k * ?s + int i * ?s" by (simp add: next_index_def)
      show "?c + ?k * ?s + int i * ?s \<le> ?c + ?k * ?s + int count * ?s"
        using that by (simp add: mult_right_mono)
    qed
    from this[of 0] this[of "Suc _"] show ?L by (auto simp: Suc_le_eq)
  qed
  ultimately show ?thesis
    by (auto simp: push_occurrences_eq i64_checked_def every_at_def algebra_simps)
qed

end
