(* ===== verification/Cron.thy ===== *)
theory Cron
  imports Cron_Field Day_Cycle Interval_Schedule
begin

text \<open>
  Calendar schedules of \<^verbatim>\<open>crates/locron-core/src/schedule.rs\<close>: \<open>CronExpression\<close> with its
  parser, the compiled cycle of matching days and the searches for occurrences in a time
  zone. Dates, instants and time zones are those of the jiff package: its operations are
  fields of two records that every definition takes as arguments, and the laws of the
  proleptic Gregorian calendar that the code relies on are named hypotheses.

  A computation is an option of a result: \<open>None\<close> is a failed \<open>expect\<close>, an index out of
  bounds or a loop that does not end.
\<close>

section \<open>The calendar interface\<close>

record 'd jiff_dates =
  date_zero :: 'd
  cycle_end_date :: 'd
  date_day_of_month :: "'d \<Rightarrow> nat"
  date_month :: "'d \<Rightarrow> nat"
  date_weekday :: "'d \<Rightarrow> nat"
  date_tomorrow :: "'d \<Rightarrow> string + 'd"
  date_yesterday :: "'d \<Rightarrow> string + 'd"
  secs_since_zero :: "'d \<Rightarrow> int"
  zero_plus_days :: "int \<Rightarrow> 'd option"

datatype civil_resolution = Gap | Earlier "string + int"

record ('d, 'z) jiff_zones =
  system_zone :: 'z
  zone_get :: "string \<Rightarrow> string + 'z"
  jiff_instant :: "int \<Rightarrow> string + int"
  to_zoned :: "'z \<Rightarrow> int \<Rightarrow> 'd \<times> int"
  to_ambiguous :: "'z \<Rightarrow> 'd \<Rightarrow> nat \<Rightarrow> nat \<Rightarrow> civil_resolution"
  following :: "'z \<Rightarrow> int \<Rightarrow> int list"

abbreviation chain ::
    "(validation_error + 'a) option \<Rightarrow> ('a \<Rightarrow> (validation_error + 'b) option)
     \<Rightarrow> (validation_error + 'b) option" where
  "chain m f \<equiv> Option.bind m (\<lambda>r. case r of Inl e \<Rightarrow> Some (Inl e) | Inr x \<Rightarrow> f x)"

abbreviation jiff_result :: "string + 'a \<Rightarrow> (validation_error + 'a) option" where
  "jiff_result m \<equiv> Some (map_err cron_error m)"


section \<open>Expressions\<close>

record cron_expression =
  minute :: cron_field
  hour :: cron_field
  day :: cron_field
  month :: cron_field
  weekday :: cron_field
  matching_days :: day_cycle

definition month_names :: "(string \<times> nat) list" where
  "month_names = [(''jan'', 1), (''feb'', 2), (''mar'', 3), (''apr'', 4), (''may'', 5), (''jun'', 6),
     (''jul'', 7), (''aug'', 8), (''sep'', 9), (''oct'', 10), (''nov'', 11), (''dec'', 12)]"

definition weekday_names :: "(string \<times> nat) list" where
  "weekday_names = [(''sun'', 0), (''mon'', 1), (''tue'', 2), (''wed'', 3), (''thu'', 4), (''fri'', 5),
     (''sat'', 6)]"

definition date_matches :: "'d jiff_dates \<Rightarrow> cron_expression \<Rightarrow> 'd \<Rightarrow> bool" where
  "date_matches J self date =
     (let day_ok = field_matches (day self) (date_day_of_month J date);
          weekday_ok = field_matches (weekday self) (date_weekday J date);
          calendar_ok =
            (if wildcard (day self) \<and> wildcard (weekday self) then True
             else if wildcard (day self) then weekday_ok
             else if wildcard (weekday self) then day_ok
             else day_ok \<or> weekday_ok)
      in field_matches (month self) (date_month J date) \<and> calendar_ok)"

partial_function (option) build_loop ::
    "'d::linorder jiff_dates \<Rightarrow> cron_expression \<Rightarrow> 'd \<Rightarrow> nat \<Rightarrow> 64 word list \<Rightarrow> 64 word list option" where
  "build_loop J self date offset ws =
     (if date < cycle_end_date J then
        Option.bind
          (if date_matches J self date
           then (if offset div 64 < length ws
                 then Some (ws[offset div 64 := ws ! (offset div 64) OR push_bit (offset mod 64) 1])
                 else None)
           else Some ws)
          (\<lambda>ws'. case date_tomorrow J date of
             Inl _ \<Rightarrow> None
           | Inr next \<Rightarrow> build_loop J self next (offset + 1) ws')
      else Some ws)"

definition build_matching_day_offsets :: "'d::linorder jiff_dates \<Rightarrow> cron_expression \<Rightarrow> day_cycle option" where
  "build_matching_day_offsets J self =
     map_option from_words (build_loop J self (date_zero J) 0 (replicate GREGORIAN_CYCLE_WORDS 0))"

definition expand_alias :: "string \<Rightarrow> validation_error + string" where
  "expand_alias source =
     (let alias = to_ascii_lowercase (trim source)
      in if alias = ''@yearly'' \<or> alias = ''@annually'' then Inr ''0 0 1 1 *''
         else if alias = ''@monthly'' then Inr ''0 0 1 * *''
         else if alias = ''@weekly'' then Inr ''0 0 * * 0''
         else if alias = ''@daily'' \<or> alias = ''@midnight'' then Inr ''0 0 * * *''
         else if alias = ''@hourly'' then Inr ''0 * * * *''
         else if starts_with ''@'' alias then Inl (cron_error ''unsupported cron alias'')
         else Inr source)"

definition parse_fields :: "string \<Rightarrow> validation_error + cron_expression" where
  "parse_fields source =
     and_then (expand_alias source) (\<lambda>expanded.
       case split_whitespace expanded of
         [minute_text, hour_text, day_text, month_text, weekday_text] \<Rightarrow>
           and_then (Field_parse minute_text 0 59 []) (\<lambda>minute_field.
           and_then (Field_parse hour_text 0 23 []) (\<lambda>hour_field.
           and_then (Field_parse day_text 1 31 []) (\<lambda>day_field.
           and_then (Field_parse month_text 1 12 month_names) (\<lambda>month_field.
           and_then (Field_parse weekday_text 0 7 weekday_names) (\<lambda>weekday_field.
             Inr \<lparr>minute = minute_field, hour = hour_field, day = day_field, month = month_field,
                  weekday = normalize_sunday weekday_field, matching_days = cycle_empty\<rparr>)))))
       | _ \<Rightarrow> Inl (cron_error ''cron expression must have exactly five fields''))"

definition CronExpression_parse ::
    "'d::linorder jiff_dates \<Rightarrow> string \<Rightarrow> (validation_error + cron_expression) option" where
  "CronExpression_parse J source =
     chain (Some (parse_fields source)) (\<lambda>expression.
       Option.bind (build_matching_day_offsets J expression) (\<lambda>days.
         if cycle_count days = 0
         then Some (Inl (cron_error ''calendar fields can never match a Gregorian date''))
         else Some (Inr (expression\<lparr>matching_days := days\<rparr>))))"


section \<open>Dates and candidates\<close>

text \<open>\<open>as_secs() / 86_400\<close> truncates towards zero; the seconds are a multiple of a day.\<close>

definition date_day :: "'d jiff_dates \<Rightarrow> 'd \<Rightarrow> int" where
  "date_day J date = sgn (secs_since_zero J date) * (\<bar>secs_since_zero J date\<bar> div 86400)"

definition date_from_day :: "'d jiff_dates \<Rightarrow> int \<Rightarrow> 'd option" where
  "date_from_day J n = zero_plus_days J n"

definition matching_date ::
    "'d jiff_dates \<Rightarrow> int \<Rightarrow> day_cycle \<Rightarrow> bool \<Rightarrow> (validation_error + 'd option) option" where
  "matching_date J n cycle forward =
     map_option (map_sum id (\<lambda>target. Option.bind target (date_from_day J)))
       (matching_day n cycle forward)"

definition matching_date_at_or_after ::
    "'d jiff_dates \<Rightarrow> cron_expression \<Rightarrow> 'd \<Rightarrow> (validation_error + 'd option) option" where
  "matching_date_at_or_after J self date = matching_date J (date_day J date) (matching_days self) True"

definition matching_date_at_or_before ::
    "'d jiff_dates \<Rightarrow> cron_expression \<Rightarrow> 'd \<Rightarrow> (validation_error + 'd option) option" where
  "matching_date_at_or_before J self date = matching_date J (date_day J date) (matching_days self) False"

definition matching_days_inclusive ::
    "'d::linorder jiff_dates \<Rightarrow> cron_expression \<Rightarrow> 'd \<Rightarrow> 'd \<Rightarrow> nat" where
  "matching_days_inclusive J self first last' =
     (if last' < first then 0
      else
        let before_first = matching_positions_before (date_day J first) (matching_days self);
            after_last = matching_positions_before (i64_saturating (date_day J last' + 1)) (matching_days self)
        in if 0 \<le> after_last - before_first \<and> after_last - before_first \<le> int u64_max
           then nat (after_last - before_first) else u64_max)"

definition resolve_civil ::
    "('d, 'z) jiff_zones \<Rightarrow> 'd \<Rightarrow> nat \<Rightarrow> nat \<Rightarrow> 'z \<Rightarrow> validation_error + timestamp option" where
  "resolve_civil Z date h m zone =
     (case to_ambiguous Z zone date h m of
        Gap \<Rightarrow> Inr None
      | Earlier t \<Rightarrow> and_then (map_err cron_error t) (\<lambda>us. Inr (Some (Timestamp us))))"

definition candidates_on_date ::
    "'d jiff_dates \<Rightarrow> ('d, 'z) jiff_zones \<Rightarrow> cron_expression \<Rightarrow> 'd \<Rightarrow> 'z
     \<Rightarrow> validation_error + timestamp list" where
  "candidates_on_date J Z self date zone =
     (if \<not> date_matches J self date then Inr []
      else
        and_then (collect (\<lambda>(h, m). resolve_civil Z date h m zone)
            (List.product (sorted_list_of_set (allowed (hour self)))
               (sorted_list_of_set (allowed (minute self)))))
          (\<lambda>ts. Inr (remdups_adj (sort (List.map_filter id ts)))))"



section \<open>Searching for occurrences\<close>

text \<open>\<open>jiff::Timestamp::from_microsecond(..).to_zoned(..).date()\<close>.\<close>

definition civil_date :: "('d, 'z) jiff_zones \<Rightarrow> 'z \<Rightarrow> timestamp \<Rightarrow> validation_error + 'd" where
  "civil_date Z zone t =
     and_then (map_err cron_error (jiff_instant Z (epoch_micros t))) (\<lambda>us. Inr (fst (to_zoned Z zone us)))"

text \<open>The step to the neighbouring matching date at the end of each loop body.\<close>

definition next_matching_date ::
    "'d jiff_dates \<Rightarrow> cron_expression \<Rightarrow> 'd \<Rightarrow> (validation_error + 'd option) option" where
  "next_matching_date J self date =
     (case date_tomorrow J date of
        Inl _ \<Rightarrow> Some (Inr None)
      | Inr next \<Rightarrow> matching_date_at_or_after J self next)"

definition previous_matching_date ::
    "'d jiff_dates \<Rightarrow> cron_expression \<Rightarrow> 'd \<Rightarrow> (validation_error + 'd option) option" where
  "previous_matching_date J self date =
     (case date_yesterday J date of
        Inl _ \<Rightarrow> Some (Inr None)
      | Inr previous \<Rightarrow> matching_date_at_or_before J self previous)"

text \<open>
  Pushes candidates until the limit is reached; the flag says that it was, which is the
  early return of the callers.
\<close>

fun push_candidates ::
    "(timestamp \<Rightarrow> bool) \<Rightarrow> nat \<Rightarrow> timestamp list \<Rightarrow> timestamp list \<Rightarrow> timestamp list \<times> bool" where
  "push_candidates keep limit [] result = (result, False)"
| "push_candidates keep limit (c # cs) result =
     (if keep c
      then (if length (result @ [c]) = limit then (result @ [c], True)
            else push_candidates keep limit cs (result @ [c]))
      else push_candidates keep limit cs result)"

partial_function (option) next_loop ::
    "'d jiff_dates \<Rightarrow> ('d, 'z) jiff_zones \<Rightarrow> cron_expression \<Rightarrow> 'z \<Rightarrow> timestamp \<Rightarrow> nat
     \<Rightarrow> 'd option \<Rightarrow> timestamp list \<Rightarrow> (validation_error + timestamp list) option" where
  "next_loop J Z self zone after count date result =
     (case date of
        None \<Rightarrow> Some (Inr result)
      | Some d \<Rightarrow>
          chain (Some (candidates_on_date J Z self d zone)) (\<lambda>candidates.
            case push_candidates (\<lambda>c. c > after) count candidates result of
              (result', full) \<Rightarrow>
                if full then Some (Inr result')
                else chain (next_matching_date J self d)
                       (\<lambda>date'. next_loop J Z self zone after count date' result')))"

definition next_in_zone ::
    "'d jiff_dates \<Rightarrow> ('d, 'z) jiff_zones \<Rightarrow> cron_expression \<Rightarrow> timestamp \<Rightarrow> nat \<Rightarrow> 'z
     \<Rightarrow> (validation_error + timestamp list) option" where
  "next_in_zone J Z self after count zone =
     (if count = 0 then Some (Inr [])
      else chain (Some (civil_date Z zone after)) (\<lambda>lower.
             chain (matching_date_at_or_after J self lower) (\<lambda>date.
               next_loop J Z self zone after count date [])))"

partial_function (option) newest_loop ::
    "'d::linorder jiff_dates \<Rightarrow> ('d, 'z) jiff_zones \<Rightarrow> cron_expression \<Rightarrow> 'z \<Rightarrow> timestamp \<Rightarrow> timestamp
     \<Rightarrow> nat \<Rightarrow> 'd \<Rightarrow> 'd option \<Rightarrow> timestamp list \<Rightarrow> (validation_error + timestamp list) option" where
  "newest_loop J Z self zone after through limit lower date newest =
     (case date of
        None \<Rightarrow> Some (Inr (rev newest))
      | Some d \<Rightarrow>
          if d < lower then Some (Inr (rev newest))
          else chain (Some (candidates_on_date J Z self d zone)) (\<lambda>candidates.
            case push_candidates (\<lambda>c. c > after \<and> c \<le> through) limit (rev candidates) newest of
              (newest', full) \<Rightarrow>
                if full then Some (Inr (rev newest'))
                else chain (previous_matching_date J self d)
                       (\<lambda>date'. newest_loop J Z self zone after through limit lower date' newest')))"

definition cron_newest_between ::
    "'d::linorder jiff_dates \<Rightarrow> ('d, 'z) jiff_zones \<Rightarrow> cron_expression \<Rightarrow> timestamp \<Rightarrow> timestamp
     \<Rightarrow> nat \<Rightarrow> 'z \<Rightarrow> (validation_error + timestamp list) option" where
  "cron_newest_between J Z self after through limit zone =
     chain (Some (civil_date Z zone after)) (\<lambda>lower.
       chain (Some (civil_date Z zone through)) (\<lambda>upper.
         chain (matching_date_at_or_before J self upper) (\<lambda>date.
           newest_loop J Z self zone after through limit lower date [])))"

partial_function (option) first_loop ::
    "'d::linorder jiff_dates \<Rightarrow> ('d, 'z) jiff_zones \<Rightarrow> cron_expression \<Rightarrow> 'z \<Rightarrow> timestamp \<Rightarrow> timestamp
     \<Rightarrow> 'd \<Rightarrow> 'd option \<Rightarrow> (validation_error + timestamp option) option" where
  "first_loop J Z self zone after through upper date =
     (case date of
        None \<Rightarrow> Some (Inr None)
      | Some d \<Rightarrow>
          if d > upper then Some (Inr None)
          else chain (Some (candidates_on_date J Z self d zone)) (\<lambda>candidates.
            case find (\<lambda>c. c > after \<and> c \<le> through) candidates of
              Some c \<Rightarrow> Some (Inr (Some c))
            | None \<Rightarrow> chain (next_matching_date J self d)
                        (\<lambda>date'. first_loop J Z self zone after through upper date')))"

definition cron_first_between ::
    "'d::linorder jiff_dates \<Rightarrow> ('d, 'z) jiff_zones \<Rightarrow> cron_expression \<Rightarrow> timestamp \<Rightarrow> timestamp
     \<Rightarrow> 'z \<Rightarrow> (validation_error + timestamp option) option" where
  "cron_first_between J Z self after through zone =
     chain (Some (civil_date Z zone after)) (\<lambda>lower.
       chain (Some (civil_date Z zone through)) (\<lambda>upper.
         chain (matching_date_at_or_after J self lower) (\<lambda>date.
           first_loop J Z self zone after through upper date)))"

text \<open>The dates a forward transition skips or shortens, added to the exceptional dates.\<close>

partial_function (option) skipped_dates ::
    "'d::linorder jiff_dates \<Rightarrow> 'd \<Rightarrow> 'd \<Rightarrow> 'd set \<Rightarrow> (validation_error + 'd set) option" where
  "skipped_dates J date target dates =
     (if date \<ge> target then Some (Inr (insert date dates))
      else chain (jiff_result (date_tomorrow J date))
             (\<lambda>next. skipped_dates J next target (insert date dates)))"

fun exceptional_dates ::
    "'d::linorder jiff_dates \<Rightarrow> ('d, 'z) jiff_zones \<Rightarrow> 'z \<Rightarrow> int \<Rightarrow> int list \<Rightarrow> 'd set
     \<Rightarrow> (validation_error + 'd set) option" where
  "exceptional_dates J Z zone upper [] dates = Some (Inr dates)"
| "exceptional_dates J Z zone upper (at # transitions) dates =
     (if at > upper then Some (Inr dates)
      else chain (jiff_result (jiff_instant Z (at - 1))) (\<lambda>before_us.
        let before = to_zoned Z zone before_us;
            after_transition = to_zoned Z zone at
        in chain (if fst before < fst after_transition \<or>
                   fst before = fst after_transition \<and> snd before < snd after_transition
                then skipped_dates J (fst before) (fst after_transition) dates
                else Some (Inr dates))
             (\<lambda>dates'. exceptional_dates J Z zone upper transitions dates')))"

fun correct_count ::
    "'d::linorder jiff_dates \<Rightarrow> ('d, 'z) jiff_zones \<Rightarrow> cron_expression \<Rightarrow> 'z \<Rightarrow> timestamp \<Rightarrow> timestamp
     \<Rightarrow> 'd \<Rightarrow> 'd \<Rightarrow> nat \<Rightarrow> 'd list \<Rightarrow> nat \<Rightarrow> validation_error + nat" where
  "correct_count J Z self zone after through lower upper time_count [] count = Inr count"
| "correct_count J Z self zone after through lower upper time_count (date # dates) count =
     (if date < lower \<or> date > upper \<or> \<not> date_matches J self date
      then correct_count J Z self zone after through lower upper time_count dates count
      else and_then (candidates_on_date J Z self date zone) (\<lambda>candidates.
        let actual = length (filter (\<lambda>c. c > after \<and> c \<le> through) candidates)
        in correct_count J Z self zone after through lower upper time_count dates
             (u64_saturating (count - time_count + actual))))"

definition cron_range_stats ::
    "'d::linorder jiff_dates \<Rightarrow> ('d, 'z) jiff_zones \<Rightarrow> cron_expression \<Rightarrow> timestamp \<Rightarrow> timestamp
     \<Rightarrow> 'z \<Rightarrow> (validation_error + occurrence_stats) option" where
  "cron_range_stats J Z self after through zone =
     chain (Some (civil_date Z zone after)) (\<lambda>lower.
     chain (Some (civil_date Z zone through)) (\<lambda>upper.
     chain (jiff_result (jiff_instant Z (epoch_micros after))) (\<lambda>lower_us.
     chain (jiff_result (jiff_instant Z (epoch_micros through))) (\<lambda>upper_us.
       let time_count = u64_saturating (card (allowed (hour self)) * card (allowed (minute self)));
           count = u64_saturating (matching_days_inclusive J self lower upper * time_count)
       in chain (exceptional_dates J Z zone upper_us (following Z zone lower_us) {lower, upper}) (\<lambda>dates.
          chain (Some (correct_count J Z self zone after through lower upper time_count
                 (sorted_list_of_set dates) count)) (\<lambda>count.
            if count = 0 then Some (Inr OccurrenceStats_default)
            else
              chain (cron_first_between J Z self after through zone) (\<lambda>first.
              chain (Some (ok_or (cron_error ''counted range has no first occurrence'') first)) (\<lambda>first_at.
              chain (cron_newest_between J Z self after through 1 zone) (\<lambda>newest.
              chain (Some (ok_or (cron_error ''counted range has no last occurrence'')
                     (case newest of [] \<Rightarrow> None | t # _ \<Rightarrow> Some t))) (\<lambda>last_at.
                Some (Inr \<lparr>stats_count = count, stats_first = Some first_at,
                            stats_last = Some last_at\<rparr>)))))))))))"

end
