(* ===== verification/Schedule_Types.thy ===== *)
theory Schedule_Types
  imports Locron_Time
begin

text \<open>
  The schedule of a job as it is stored and validated (\<open>Schedule\<close> and \<open>ScheduleTimeZone\<close> in
  \<^verbatim>\<open>crates/locron-core/src/schedule.rs\<close>), shared by the schedule computations and the store.
\<close>

datatype schedule_time_zone = Local | Iana string

datatype schedule =
    ScheduleCron string schedule_time_zone
  | ScheduleEvery duration_micros timestamp
  | ScheduleAt timestamp

end
