(* ===== verification/Schedule.thy ===== *)
theory Schedule
  imports Cron Policy Schedule_Types
begin

text \<open>
  Schedules and their reconciliation: \<open>Schedule\<close>, \<open>CompiledSchedule\<close> and their operations in
  \<^verbatim>\<open>crates/locron-core/src/schedule.rs\<close>. Reconciliation asks a compiled schedule two
  questions about a range of instants: how many occurrences it has with the first and the
  last one, and which are the newest ones. The locale \<open>occurrence_source\<close> states what exact
  answers are, and the lemmas about reconciliation are proved in it once. One-time and
  fixed-interval schedules interpret it.
\<close>

section \<open>Data\<close>

datatype omitted_range_kind = StartDeadline | MissedRunOmission | CatchUpLimit

record omitted_range =
  range_kind :: omitted_range_kind
  range_count :: nat
  range_first :: timestamp
  range_last :: timestamp

record selected_occurrence =
  nominal :: timestamp
  catch_up :: bool

record schedule_reconciliation =
  selected :: "selected_occurrence list"
  omitted :: "omitted_range list"

datatype elapsed_kind = Normal | Missed

datatype compiled_schedule =
    CompiledCron cron_expression schedule_time_zone
  | CompiledEvery duration_micros timestamp
  | CompiledAt timestamp


section \<open>Compilation and the next occurrences\<close>

definition unknown_timezone :: "string \<Rightarrow> validation_error" where
  "unknown_timezone msg = ValidationError_new ''timezone'' ''unknown_timezone'' msg"

definition zone_resolve :: "('d, 'z) jiff_zones \<Rightarrow> schedule_time_zone \<Rightarrow> validation_error + 'z" where
  "zone_resolve Z self =
     (case self of
        Local \<Rightarrow> Inr (system_zone Z)
      | Iana name \<Rightarrow> map_err unknown_timezone (zone_get Z name))"

definition zone_resolve_with ::
    "('d, 'z) jiff_zones \<Rightarrow> schedule_time_zone \<Rightarrow> 'z \<Rightarrow> validation_error + 'z" where
  "zone_resolve_with Z self local =
     (case self of
        Local \<Rightarrow> Inr local
      | Iana name \<Rightarrow> map_err unknown_timezone (zone_get Z name))"

definition Schedule_compile ::
    "'d::linorder jiff_dates \<Rightarrow> ('d, 'z) jiff_zones \<Rightarrow> schedule
     \<Rightarrow> (validation_error + compiled_schedule) option" where
  "Schedule_compile J Z self =
     (case self of
        ScheduleCron expression timezone \<Rightarrow>
          chain (Some (zone_resolve Z timezone)) (\<lambda>_.
          chain (CronExpression_parse J expression) (\<lambda>compiled.
            Some (Inr (CompiledCron compiled timezone))))
      | ScheduleEvery interval anchor \<Rightarrow>
          chain (Some (interval_occurrences interval anchor anchor 0)) (\<lambda>_.
            Some (Inr (CompiledEvery interval anchor)))
      | ScheduleAt at \<Rightarrow> Some (Inr (CompiledAt at)))"

definition Schedule_validate ::
    "'d::linorder jiff_dates \<Rightarrow> ('d, 'z) jiff_zones \<Rightarrow> schedule \<Rightarrow> (validation_error + unit) option" where
  "Schedule_validate J Z self = chain (Schedule_compile J Z self) (\<lambda>_. Some (Inr ()))"

definition Schedule_next ::
    "'d::linorder jiff_dates \<Rightarrow> ('d, 'z) jiff_zones \<Rightarrow> schedule \<Rightarrow> timestamp \<Rightarrow> nat
     \<Rightarrow> (validation_error + timestamp list) option" where
  "Schedule_next J Z self after count =
     (if count > 1000
      then Some (Inl (ValidationError_new ''count'' ''out_of_range'' ''count must not exceed 1000''))
      else
        case self of
          ScheduleAt at \<Rightarrow> Some (Inr (if at > after \<and> count > 0 then [at] else []))
        | ScheduleEvery interval anchor \<Rightarrow> Some (interval_occurrences interval anchor after count)
        | ScheduleCron expression timezone \<Rightarrow>
            chain (CronExpression_parse J expression) (\<lambda>compiled.
            chain (Some (zone_resolve Z timezone)) (\<lambda>zone.
              next_in_zone J Z compiled after count zone)))"


section \<open>The two questions\<close>

definition range_stats ::
    "'d::linorder jiff_dates \<Rightarrow> ('d, 'z) jiff_zones \<Rightarrow> compiled_schedule \<Rightarrow> 'z \<Rightarrow> timestamp \<Rightarrow> timestamp
     \<Rightarrow> (validation_error + occurrence_stats) option" where
  "range_stats J Z self local_timezone after through =
     (if through \<le> after then Some (Inr OccurrenceStats_default)
      else
        case self of
          CompiledAt at \<Rightarrow>
            Some (Inr (if at > after \<and> at \<le> through then OccurrenceStats_one at
                       else OccurrenceStats_default))
        | CompiledEvery interval anchor \<Rightarrow> Some (interval_range_stats interval anchor after through)
        | CompiledCron expression timezone \<Rightarrow>
            chain (Some (zone_resolve_with Z timezone local_timezone)) (\<lambda>zone.
              cron_range_stats J Z expression after through zone))"

definition newest_between ::
    "'d::linorder jiff_dates \<Rightarrow> ('d, 'z) jiff_zones \<Rightarrow> compiled_schedule \<Rightarrow> 'z \<Rightarrow> timestamp \<Rightarrow> timestamp
     \<Rightarrow> nat \<Rightarrow> (validation_error + timestamp list) option" where
  "newest_between J Z self local_timezone after through limit =
     (if limit = 0 \<or> through \<le> after then Some (Inr [])
      else
        case self of
          CompiledAt at \<Rightarrow> Some (Inr (if at > after \<and> at \<le> through then [at] else []))
        | CompiledEvery interval anchor \<Rightarrow> Some (interval_newest interval anchor after through limit)
        | CompiledCron expression timezone \<Rightarrow>
            chain (Some (zone_resolve_with Z timezone local_timezone)) (\<lambda>zone.
              cron_newest_between J Z expression after through limit zone))"


section \<open>Reconciliation\<close>

text \<open>A failed \<open>expect\<close> is \<open>None\<close>.\<close>

definition into_range :: "occurrence_stats \<Rightarrow> omitted_range_kind \<Rightarrow> omitted_range option" where
  "into_range self kind =
     (case (stats_first self, stats_last self) of
        (Some first, Some last') \<Rightarrow>
          Some \<lparr>range_kind = kind, range_count = stats_count self,
                range_first = first, range_last = last'\<rparr>
      | _ \<Rightarrow> None)"

definition deadline_start :: "timestamp \<Rightarrow> timestamp \<Rightarrow> duration_micros option \<Rightarrow> timestamp" where
  "deadline_start after now start_deadline' =
     (case start_deadline' of
        None \<Rightarrow> after
      | Some deadline \<Rightarrow>
          let cutoff = i64_saturating (epoch_micros now
                - (case i64_try_from (get deadline) of None \<Rightarrow> i64_max | Some d \<Rightarrow> d))
          in Timestamp (max (epoch_micros after) (i64_saturating (cutoff - 1))))"

text \<open>\<open>&xs[xs.len().saturating_sub(1)..]\<close> for the policy \<open>latest\<close>.\<close>

definition retained :: "missed_run_policy \<Rightarrow> timestamp list \<Rightarrow> timestamp list" where
  "retained missed_run' newest =
     (case missed_run' of
        MissedAll \<Rightarrow> newest
      | MissedSkip \<Rightarrow> []
      | MissedLatest \<Rightarrow> drop (length newest - 1) newest)"

definition select_occurrences ::
    "elapsed_kind \<Rightarrow> missed_run_policy \<Rightarrow> timestamp list \<Rightarrow> selected_occurrence list" where
  "select_occurrences elapsed missed_run' newest =
     (case elapsed of
        Missed \<Rightarrow> map (\<lambda>t. \<lparr>nominal = t, catch_up = True\<rparr>) (retained missed_run' newest)
      | Normal \<Rightarrow>
          (if newest = [] then []
           else map (\<lambda>t. \<lparr>nominal = t, catch_up = True\<rparr>) (retained missed_run' (butlast newest))
                @ [\<lparr>nominal = last newest, catch_up = False\<rparr>]))"

definition reconcile_using ::
    "(timestamp \<Rightarrow> timestamp \<Rightarrow> (validation_error + occurrence_stats) option)
     \<Rightarrow> (timestamp \<Rightarrow> timestamp \<Rightarrow> nat \<Rightarrow> (validation_error + timestamp list) option)
     \<Rightarrow> timestamp \<Rightarrow> timestamp \<Rightarrow> missed_run_policy \<Rightarrow> duration_micros option \<Rightarrow> nat \<Rightarrow> elapsed_kind
     \<Rightarrow> (validation_error + schedule_reconciliation) option" where
  "reconcile_using stats newest_in after now missed_run' start_deadline' catch_up_limit' elapsed =
     (if \<not> (1 \<le> catch_up_limit' \<and> catch_up_limit' \<le> 1000)
      then Some (Inl (ValidationError_new ''catch_up_limit'' ''out_of_range''
                        ''must be from 1 through 1000''))
      else if now \<le> after then Some (Inr \<lparr>selected = [], omitted = []\<rparr>)
      else
        let deadline_after = deadline_start after now start_deadline'
        in chain (if deadline_after > after then stats after deadline_after
                else Some (Inr OccurrenceStats_default)) (\<lambda>expired.
           chain (stats deadline_after now) (\<lambda>eligible.
           chain (newest_in deadline_after now (catch_up_limit' + (if elapsed = Normal then 1 else 0))) (\<lambda>newest.
             let chosen = select_occurrences elapsed missed_run' newest;
                 missed_total = stats_count eligible
                   - (if elapsed = Normal \<and> stats_count eligible > 0 then 1 else 0);
                 omitted_count = missed_total - length (filter catch_up chosen)
             in Option.bind
                  (if stats_count expired > 0
                   then map_option (\<lambda>r. [r]) (into_range expired StartDeadline) else Some [])
                  (\<lambda>expired_ranges.
                if omitted_count > 0 then
                  chain (Some (ok_or (cron_error ''non-empty range has no first occurrence'')
                         (stats_first eligible))) (\<lambda>first.
                  chain (case chosen of
                         item # _ \<Rightarrow>
                           chain (newest_in deadline_after
                                  (Timestamp (i64_saturating (epoch_micros (nominal item) - 1))) 1) (\<lambda>before.
                             Some (ok_or (cron_error ''omitted prefix has no last occurrence'')
                                     (case before of [] \<Rightarrow> None | t # _ \<Rightarrow> Some t)))
                       | [] \<Rightarrow> Some (ok_or (cron_error ''non-empty range has no last occurrence'')
                                     (stats_last eligible))) (\<lambda>last'.
                    Some (Inr \<lparr>selected = chosen,
                       omitted = expired_ranges @
                         [\<lparr>range_kind = (if missed_run' = MissedAll then CatchUpLimit else MissedRunOmission),
                           range_count = omitted_count, range_first = first, range_last = last'\<rparr>]\<rparr>)))
                else Some (Inr \<lparr>selected = chosen, omitted = expired_ranges\<rparr>))))))"

definition CompiledSchedule_reconcile ::
    "'d::linorder jiff_dates \<Rightarrow> ('d, 'z) jiff_zones \<Rightarrow> compiled_schedule \<Rightarrow> timestamp \<Rightarrow> timestamp
     \<Rightarrow> missed_run_policy \<Rightarrow> duration_micros option \<Rightarrow> nat \<Rightarrow> 'z \<Rightarrow> elapsed_kind
     \<Rightarrow> (validation_error + schedule_reconciliation) option" where
  "CompiledSchedule_reconcile J Z self after now missed_run' start_deadline' limit local_timezone elapsed =
     reconcile_using (range_stats J Z self local_timezone) (newest_between J Z self local_timezone)
       after now missed_run' start_deadline' limit elapsed"

definition Schedule_reconcile ::
    "'d::linorder jiff_dates \<Rightarrow> ('d, 'z) jiff_zones \<Rightarrow> schedule \<Rightarrow> timestamp \<Rightarrow> timestamp
     \<Rightarrow> missed_run_policy \<Rightarrow> duration_micros option \<Rightarrow> nat \<Rightarrow> 'z \<Rightarrow> elapsed_kind
     \<Rightarrow> (validation_error + schedule_reconciliation) option" where
  "Schedule_reconcile J Z self after now missed_run' start_deadline' limit local_timezone elapsed =
     chain (Schedule_compile J Z self) (\<lambda>compiled.
       CompiledSchedule_reconcile J Z compiled after now missed_run' start_deadline' limit
         local_timezone elapsed)"


section \<open>What reconciliation should return\<close>

definition range_of :: "omitted_range_kind \<Rightarrow> timestamp list \<Rightarrow> omitted_range list" where
  "range_of kind ts =
     (if ts = [] then []
      else [\<lparr>range_kind = kind, range_count = length ts, range_first = hd ts, range_last = last ts\<rparr>])"

text \<open>The missed occurrences a policy keeps of an eligible range.\<close>

definition kept_missed :: "missed_run_policy \<Rightarrow> nat \<Rightarrow> timestamp list \<Rightarrow> timestamp list" where
  "kept_missed missed_run' limit pool =
     (case missed_run' of
        MissedAll \<Rightarrow> take_last limit pool
      | MissedSkip \<Rightarrow> []
      | MissedLatest \<Rightarrow> take_last 1 pool)"

definition missed_pool :: "elapsed_kind \<Rightarrow> timestamp list \<Rightarrow> timestamp list" where
  "missed_pool elapsed eligible = (if elapsed = Normal then butlast eligible else eligible)"

definition current_occurrence :: "elapsed_kind \<Rightarrow> timestamp list \<Rightarrow> timestamp list" where
  "current_occurrence elapsed eligible =
     (if elapsed = Normal \<and> eligible \<noteq> [] then [last eligible] else [])"

definition dropped_missed :: "missed_run_policy \<Rightarrow> nat \<Rightarrow> timestamp list \<Rightarrow> timestamp list" where
  "dropped_missed missed_run' limit pool =
     take (length pool - length (kept_missed missed_run' limit pool)) pool"

definition reconciliation_of ::
    "missed_run_policy \<Rightarrow> nat \<Rightarrow> elapsed_kind \<Rightarrow> timestamp list \<Rightarrow> timestamp list
     \<Rightarrow> schedule_reconciliation" where
  "reconciliation_of missed_run' limit elapsed expired eligible =
     (let pool = missed_pool elapsed eligible
      in \<lparr>selected = map (\<lambda>t. \<lparr>nominal = t, catch_up = True\<rparr>) (kept_missed missed_run' limit pool)
             @ map (\<lambda>t. \<lparr>nominal = t, catch_up = False\<rparr>) (current_occurrence elapsed eligible),
          omitted = range_of StartDeadline expired
             @ range_of (if missed_run' = MissedAll then CatchUpLimit else MissedRunOmission)
                 (dropped_missed missed_run' limit pool)\<rparr>)"


section \<open>Exact sources of occurrences\<close>

locale occurrence_source =
  fixes stats :: "timestamp \<Rightarrow> timestamp \<Rightarrow> (validation_error + occurrence_stats) option"
    and newest_in :: "timestamp \<Rightarrow> timestamp \<Rightarrow> nat \<Rightarrow> (validation_error + timestamp list) option"
    and occ :: "timestamp set"
    and valid :: "timestamp \<Rightarrow> bool"
  assumes valid_in_range: "valid t \<Longrightarrow> valid_instant t"
    and valid_convex: "valid a \<Longrightarrow> valid b \<Longrightarrow> a \<le> t \<Longrightarrow> t \<le> b \<Longrightarrow> valid t"
    and stats_exact: "valid a \<Longrightarrow> valid b \<Longrightarrow> stats a b = Some (Inr (stats_of (window occ a b)))"
    and newest_exact: "valid a \<Longrightarrow> valid b \<Longrightarrow> limit \<le> 1001 \<Longrightarrow>
           newest_in a b limit = Some (Inr (take_last limit (window occ a b)))"

lemma deadline_start_bounds:
  assumes "valid_instant after" and "valid_instant now" and "after < now"
  shows "after \<le> deadline_start after now dl" and "deadline_start after now dl < now"
  using assms
  by (cases after; cases now; auto simp: deadline_start_def Let_def valid_instant_def in_i64_def
      i64_saturating_def i64_try_from_def machine_bounds split: option.splits)+

lemma window_before:
  assumes "window occ a b = xs @ s # ys"
  shows "window occ a (Timestamp (epoch_micros s - 1)) = xs"
proof (rule window_eqI)
  have sorted: "sorted_wrt (<) (xs @ s # ys)" using sorted_window[of occ a b] assms by simp
  then show "sorted_wrt (<) xs" by (simp add: sorted_wrt_append)
  have before: "t \<le> Timestamp (epoch_micros s - 1) \<longleftrightarrow> t < s" for t
    by (cases t; cases s) auto
  have set: "occ \<inter> {a<..b} = set xs \<union> {s} \<union> set ys" using set_window[of occ a b] assms by auto
  then have s: "s \<le> b" by auto
  show "set xs = occ \<inter> {a<..Timestamp (epoch_micros s - 1)}"
  proof (intro equalityI subsetI)
    fix t assume "t \<in> set xs"
    then have "t < s" "t \<in> occ \<inter> {a<..b}" using sorted set by (auto simp: sorted_wrt_append)
    then show "t \<in> occ \<inter> {a<..Timestamp (epoch_micros s - 1)}" by (auto simp: before)
  next
    fix t assume "t \<in> occ \<inter> {a<..Timestamp (epoch_micros s - 1)}"
    then have "t < s" "t \<in> occ \<inter> {a<..b}" using s by (auto simp: before)
    then show "t \<in> set xs" using set sorted by (auto simp: sorted_wrt_append)
  qed
qed

lemma retained_kept: "1 \<le> limit \<Longrightarrow> retained m (take_last limit xs) = kept_missed m limit xs"
proof -
  assume "1 \<le> limit"
  moreover have "retained MissedLatest ys = take_last 1 ys" for ys
    by (simp add: retained_def take_last_def)
  ultimately show ?thesis
    by (cases m) (simp_all add: kept_missed_def take_last_take_last, simp_all add: retained_def)
qed

lemma butlast_take_last: "butlast (take_last (Suc n) xs) = take_last n (butlast xs)"
  by (induction xs rule: rev_induct) (auto simp: take_last_append take_last_all)

lemma select_occurrences_eq:
  assumes "1 \<le> limit"
  shows "select_occurrences elapsed m (take_last (limit + (if elapsed = Normal then 1 else 0)) xs) =
    map (\<lambda>t. \<lparr>nominal = t, catch_up = True\<rparr>) (kept_missed m limit (missed_pool elapsed xs))
    @ map (\<lambda>t. \<lparr>nominal = t, catch_up = False\<rparr>) (current_occurrence elapsed xs)"
proof (cases elapsed)
  case Missed
  then show ?thesis
    using assms by (simp add: select_occurrences_def retained_kept missed_pool_def current_occurrence_def)
next
  case Normal
  have "take_last (Suc limit) xs = [] \<longleftrightarrow> xs = []" by (cases xs) (auto simp: take_last_def)
  moreover have "last (take_last (Suc limit) xs) = last xs" if "xs \<noteq> []"
    using that by (simp add: take_last_def)
  ultimately show ?thesis
    using Normal assms retained_kept[OF assms, of m "butlast xs"]
    by (auto simp: select_occurrences_def missed_pool_def current_occurrence_def butlast_take_last
        kept_missed_def split: missed_run_policy.splits)
qed

lemma length_kept: "length (kept_missed m limit pool) \<le> length pool"
  by (cases m) (auto simp: kept_missed_def)

lemma pool_split: "1 \<le> limit \<Longrightarrow> dropped_missed m limit pool @ kept_missed m limit pool = pool"
  by (cases m) (auto simp: dropped_missed_def kept_missed_def take_last_def)

lemma eligible_split: "missed_pool elapsed xs @ current_occurrence elapsed xs = xs"
  by (simp add: missed_pool_def current_occurrence_def)

context occurrence_source
begin

lemma newest_before_selected:
  assumes "valid a" and "valid b" and "window occ a b = xs @ s # ys"
  shows "newest_in a (Timestamp (i64_saturating (epoch_micros s - 1))) 1 = Some (Inr (take_last 1 xs))"
proof -
  have "s \<in> {a<..b}" using set_window[of occ a b] assms(3) by auto
  then have le: "a \<le> Timestamp (epoch_micros s - 1)" "Timestamp (epoch_micros s - 1) \<le> b"
    by (cases a; cases b; cases s; auto)+
  then have valid: "valid (Timestamp (epoch_micros s - 1))"
    by (rule valid_convex[OF assms(1,2)])
  then have "in_i64 (epoch_micros s - 1)" using valid_in_range by (force simp: valid_instant_def)
  then show ?thesis
    using newest_exact[OF assms(1) valid, of 1] window_before[OF assms(3)] by simp
qed

lemma omitted_last:
  assumes "valid a" and "valid b" and W: "window occ a b = xs @ ys" and "xs \<noteq> []"
    and ys: "map nominal chosen = ys"
  shows "(case chosen of
      item # _ \<Rightarrow>
        chain (newest_in a (Timestamp (i64_saturating (epoch_micros (nominal item) - 1))) 1) (\<lambda>before.
          Some (ok_or e (case before of [] \<Rightarrow> None | t # _ \<Rightarrow> Some t)))
    | [] \<Rightarrow> Some (ok_or e' (stats_last (stats_of (window occ a b))))) = Some (Inr (last xs))"
proof (cases chosen)
  case Nil
  with ys W \<open>xs \<noteq> []\<close> show ?thesis by (simp add: stats_of_def)
next
  case (Cons item items)
  then have "window occ a b = xs @ nominal item # map nominal items" using W ys by auto
  from newest_before_selected[OF assms(1,2) this] Cons show ?thesis
    using \<open>xs \<noteq> []\<close> take_last_one[OF \<open>xs \<noteq> []\<close>] by simp
qed

lemma reconcile_exact:
  assumes va: "valid a" and vn: "valid now" and less: "a < now" and limit: "1 \<le> limit" "limit \<le> 1000"
    and D_def: "D = deadline_start a now dl"
  shows "reconcile_using stats newest_in a now m dl limit elapsed =
    Some (Inr (reconciliation_of m limit elapsed (window occ a D) (window occ D now)))"
proof -
  have D: "a \<le> D" "D < now"
    using deadline_start_bounds[OF valid_in_range[OF va] valid_in_range[OF vn] less]
    by (simp_all add: D_def)
  then have vD: "valid D" by (intro valid_convex[OF va vn]) auto
  let ?W = "window occ D now" and ?E = "window occ a D"
  let ?pool = "missed_pool elapsed ?W"
  let ?kept = "kept_missed m limit ?pool" and ?cur = "current_occurrence elapsed ?W"
  let ?drop = "dropped_missed m limit ?pool"
  let ?chosen = "map (\<lambda>t. \<lparr>nominal = t, catch_up = True\<rparr>) ?kept @ map (\<lambda>t. \<lparr>nominal = t, catch_up = False\<rparr>) ?cur"
  have expired: "(if D > a then stats a D else Some (Inr OccurrenceStats_default)) = Some (Inr (stats_of ?E))"
    using stats_exact[OF va vD] D by (auto simp: stats_of_def)
  have newest: "newest_in D now (limit + (if elapsed = Normal then 1 else 0)) =
      Some (Inr (take_last (limit + (if elapsed = Normal then 1 else 0)) ?W))"
    using limit by (intro newest_exact[OF vD vn]) auto
  have "length (filter catch_up ?chosen) = length ?kept" by (simp add: comp_def)
  then have count: "stats_count (stats_of ?W)
      - (if elapsed = Normal \<and> stats_count (stats_of ?W) > 0 then 1 else 0)
      - length (filter catch_up ?chosen) = length ?drop"
    by (auto simp: stats_of_def missed_pool_def OccurrenceStats_default_def dropped_missed_def)
  have ranges: "(if stats_count (stats_of ts) > 0
      then map_option (\<lambda>r. [r]) (into_range (stats_of ts) StartDeadline) else Some []) =
      Some (range_of StartDeadline ts)" for ts
    by (simp add: stats_of_def range_of_def into_range_def OccurrenceStats_default_def)
  have W: "?W = ?drop @ map nominal ?chosen"
  proof -
    have "(?drop @ ?kept) @ ?cur = ?W"
      using pool_split[OF limit(1), of m ?pool] eligible_split[of elapsed ?W] by (simp only:)
    then show ?thesis by (simp add: comp_def)
  qed
  have first: "stats_first (stats_of ?W) = Some (hd ?drop)" if "?drop \<noteq> []"
    using W that by (metis append_is_Nil_conv hd_append2 occurrence_stats.select_convs(2) stats_of_def)
  have guards: "(1 \<le> limit \<and> limit \<le> 1000) = True" "(now \<le> a) = False" using limit less by auto
  note unfolded = reconcile_using_def D_def[symmetric] guards not_True_eq_False if_False Let_def
    expired stats_exact[OF vD vn] newest Option.bind.simps sum.case select_occurrences_eq[OF limit(1)]
    count ranges
  show ?thesis
  proof (cases "?drop = []")
    case True
    then have "(length ?drop > 0) = False" by simp
    then have "reconcile_using stats newest_in a now m dl limit elapsed =
        Some (Inr \<lparr>selected = ?chosen, omitted = range_of StartDeadline ?E\<rparr>)"
      by (simp only: unfolded)
    with True show ?thesis by (simp add: reconciliation_of_def range_of_def[of _ "[]"])
  next
    case False
    note last' = omitted_last[OF vD vn W False refl]
    from False have "(length ?drop > 0) = True" by simp
    then have "reconcile_using stats newest_in a now m dl limit elapsed =
        Some (Inr \<lparr>selected = ?chosen, omitted = range_of StartDeadline ?E
          @ [\<lparr>range_kind = (if m = MissedAll then CatchUpLimit else MissedRunOmission),
              range_count = length ?drop, range_first = hd ?drop, range_last = last ?drop\<rparr>]\<rparr>)"
      by (simp only: unfolded if_True first[OF False] last' ok_or_simps)
    with False show ?thesis by (simp add: reconciliation_of_def range_of_def[of _ ?drop] Let_def)
  qed
qed

end


section \<open>One-time and fixed-interval schedules are exact\<close>

text \<open>
  The occurrences of a one-time or an interval schedule. Calendar schedules are left out: their
  set is empty here, and every theorem that speaks of this set requires \<open>exact_range\<close>, which
  excludes them.
\<close>

fun schedule_occurrences :: "compiled_schedule \<Rightarrow> timestamp set" where
  "schedule_occurrences (CompiledAt at) = {at}"
| "schedule_occurrences (CompiledEvery interval anchor) = every_occurrences interval anchor"
| "schedule_occurrences (CompiledCron _ _) = {}"

text \<open>
  The instants at which the answers of a schedule are exact: for an interval those whose
  distance from the anchor an \<open>i64\<close> can hold. Calendar schedules are not included.
\<close>

fun exact_range :: "compiled_schedule \<Rightarrow> timestamp \<Rightarrow> bool" where
  "exact_range (CompiledAt at) t = valid_instant t"
| "exact_range (CompiledEvery interval anchor) t =
     (valid_interval interval \<and> valid_instant anchor \<and> within_reach anchor t)"
| "exact_range (CompiledCron _ _) t = False"

lemma window_at: "window {at} a b = (if at > a \<and> at \<le> b then [at] else [])"
  by (auto intro!: window_eqI)

lemma range_stats_exact:
  assumes "exact_range c a" and "exact_range c b"
  shows "range_stats J Z c zone a b = Some (Inr (stats_of (window (schedule_occurrences c) a b)))"
proof (cases "b \<le> a")
  case True
  then show ?thesis by (simp add: range_stats_def stats_of_def)
next
  case False
  then show ?thesis
  proof (cases c)
    case (CompiledAt at)
    with False show ?thesis
      by (simp add: range_stats_def window_at stats_of_def OccurrenceStats_one_def)
  next
    case (CompiledEvery d anchor)
    with False assms show ?thesis by (simp add: range_stats_def interval_range_stats_exact)
  qed (use assms in simp)
qed

lemma newest_between_exact:
  assumes "exact_range c a" and "exact_range c b" and "limit \<le> 1001"
  shows "newest_between J Z c zone a b limit =
    Some (Inr (take_last limit (window (schedule_occurrences c) a b)))"
proof (cases "limit = 0 \<or> b \<le> a")
  case True
  then show ?thesis by (auto simp: newest_between_def)
next
  case False
  then show ?thesis
  proof (cases c)
    case (CompiledAt at)
    with False show ?thesis by (auto simp: newest_between_def window_at take_last_all)
  next
    case (CompiledEvery d anchor)
    have "int limit \<le> i64_max" using assms(3) by (simp add: machine_bounds)
    with CompiledEvery False assms show ?thesis by (simp add: newest_between_def interval_newest_exact)
  qed (use assms in simp)
qed

interpretation compiled: occurrence_source
  "range_stats J Z c zone" "newest_between J Z c zone" "schedule_occurrences c" "exact_range c"
  for J :: "'d::linorder jiff_dates" and Z :: "('d, 'z) jiff_zones" and c and zone
proof
  show "valid_instant t" if "exact_range c t" for t
    using that by (cases c) (auto simp: within_reach_def)
  show "exact_range c t" if "exact_range c a" "exact_range c b" "a \<le> t" "t \<le> b" for a b t
    using that by (cases c)
      (auto simp: within_reach_def valid_instant_def less_eq_timestamp_def intro: in_i64_between)
qed (rule range_stats_exact newest_between_exact; assumption)+


section \<open>Accounting\<close>

lemma omitted_counts:
  "sum_list (map range_count (omitted (reconciliation_of m limit elapsed expired eligible))) =
    length expired + length (dropped_missed m limit (missed_pool elapsed eligible))"
  by (simp add: reconciliation_of_def Let_def range_of_def)

lemma selected_nominals:
  "map nominal (selected (reconciliation_of m limit elapsed expired eligible)) =
    kept_missed m limit (missed_pool elapsed eligible) @ current_occurrence elapsed eligible"
  by (simp add: reconciliation_of_def Let_def comp_def)

lemma reconciliation_split:
  assumes "1 \<le> limit"
  shows "eligible = dropped_missed m limit (missed_pool elapsed eligible)
    @ map nominal (selected (reconciliation_of m limit elapsed expired eligible))"
proof -
  let ?p = "missed_pool elapsed eligible"
  have "(dropped_missed m limit ?p @ kept_missed m limit ?p) @ current_occurrence elapsed eligible = eligible"
    using pool_split[OF assms, of m ?p] eligible_split[of elapsed eligible] by (simp only:)
  then show ?thesis unfolding selected_nominals by simp
qed

lemma range_of_ends: "x \<in> set (range_of kind ts) \<Longrightarrow> range_first x \<in> set ts \<and> range_last x \<in> set ts"
  by (auto simp: range_of_def split: if_splits)

lemma omitted_ends:
  assumes "x \<in> set (omitted (reconciliation_of m limit elapsed expired eligible))"
  defines "dropped \<equiv> dropped_missed m limit (missed_pool elapsed eligible)"
  shows "range_first x \<in> set expired \<union> set dropped \<and> range_last x \<in> set expired \<union> set dropped"
  using assms(1) by (auto simp: reconciliation_of_def Let_def dropped_def dest!: range_of_ends)

lemma compiled_reconcile:
  assumes "exact_range c a" and "exact_range c now" and "a < now"
    and "1 \<le> limit" and "limit \<le> 1000"
    and "CompiledSchedule_reconcile J Z c a now m dl limit zone elapsed = Some (Inr r)"
  shows "r = reconciliation_of m limit elapsed
    (window (schedule_occurrences c) a (deadline_start a now dl))
    (window (schedule_occurrences c) (deadline_start a now dl) now)"
  using compiled.reconcile_exact[OF assms(1-5) refl, of J Z zone m dl elapsed] assms(6)
  unfolding CompiledSchedule_reconcile_def by simp

lemma length_window: "length (window occ a b) = card (occ \<inter> {a<..b})"
  by (simp add: window_def)


section \<open>A concrete calendar for instances\<close>

text \<open>
  Day numbers as dates, one zone without offset: enough to evaluate the schedule operations
  at concrete inputs. The day of the month is not the Gregorian one.
\<close>

definition sample_dates :: "int jiff_dates" where
  "sample_dates =
     \<lparr>date_zero = 0, cycle_end_date = 146097,
      date_day_of_month = (\<lambda>n. nat (n mod 21) + 1), date_month = (\<lambda>n. nat (n mod 3) + 1),
      date_weekday = (\<lambda>n. nat (n mod 7)),
      date_tomorrow = (\<lambda>n. Inr (n + 1)), date_yesterday = (\<lambda>n. Inr (n - 1)),
      secs_since_zero = (\<lambda>n. 86400 * n), zero_plus_days = Some\<rparr>"

definition sample_zones :: "(int, unit) jiff_zones" where
  "sample_zones =
     \<lparr>system_zone = (), zone_get = (\<lambda>_. Inr ()), jiff_instant = Inr,
      to_zoned = (\<lambda>_ us. (us div 86400000000, us mod 86400000000)),
      to_ambiguous = (\<lambda>_ n h m. Earlier (Inr (n * 86400000000 + (int h * 60 + int m) * 60000000))),
      following = (\<lambda>_ _. [])\<rparr>"

text \<open>A one-minute interval from the epoch.\<close>

definition sample_every :: compiled_schedule where
  "sample_every = CompiledEvery (DurationMicros 60000000) (Timestamp 0)"

lemma sample_exact: "0 \<le> t \<Longrightarrow> t \<le> 1000000000 \<Longrightarrow> exact_range sample_every (Timestamp t)"
  by (simp add: sample_every_def valid_interval_def within_reach_def valid_instant_def in_i64_def
      machine_bounds)

lemma sample_window:
  "window (schedule_occurrences sample_every) (Timestamp 0) (Timestamp 200000000) =
    [Timestamp 60000000, Timestamp 120000000, Timestamp 180000000]"
  by (simp add: sample_every_def window_every valid_interval_def machine_bounds every_indices_def
      every_at_def upto.simps)

definition sample_result :: schedule_reconciliation where
  "sample_result =
     \<lparr>selected = [\<lparr>nominal = Timestamp 180000000, catch_up = True\<rparr>],
      omitted = [\<lparr>range_kind = MissedRunOmission, range_count = 2,
                  range_first = Timestamp 60000000, range_last = Timestamp 120000000\<rparr>]\<rparr>"

lemma sample_reconciliation:
  "reconciliation_of MissedLatest 100 Missed [] [Timestamp 60000000, Timestamp 120000000, Timestamp 180000000]
    = sample_result"
  by (simp add: sample_result_def reconciliation_of_def range_of_def dropped_missed_def kept_missed_def
      missed_pool_def current_occurrence_def take_last_def)

lemma sample_reconcile:
  "CompiledSchedule_reconcile sample_dates sample_zones sample_every (Timestamp 0) (Timestamp 200000000)
     MissedLatest None 100 () Missed = Some (Inr sample_result)"
  unfolding CompiledSchedule_reconcile_def
  using compiled.reconcile_exact[OF sample_exact[of 0] sample_exact[of 200000000] _ _ _ refl,
      of 100 sample_dates sample_zones "()" MissedLatest None Missed]
  by (simp add: deadline_start_def sample_window sample_reconciliation)

lemma sample_reconcile_later:
  "CompiledSchedule_reconcile sample_dates sample_zones sample_every (Timestamp 200000000)
     (Timestamp 210000000) MissedLatest None 100 () Normal = Some (Inr \<lparr>selected = [], omitted = []\<rparr>)"
proof -
  have "window (schedule_occurrences sample_every) (Timestamp 200000000) (Timestamp 210000000) = []"
    by (simp add: sample_every_def window_every valid_interval_def machine_bounds every_indices_def)
  then show ?thesis
    unfolding CompiledSchedule_reconcile_def
    using compiled.reconcile_exact[OF sample_exact[of 200000000] sample_exact[of 210000000] _ _ _ refl,
        of 100 sample_dates sample_zones "()" MissedLatest None Normal]
    by (simp add: deadline_start_def reconciliation_of_def range_of_def dropped_missed_def
        kept_missed_def missed_pool_def current_occurrence_def)
qed


section \<open>Properties\<close>

text \<open>
  C15: reconciling a one-time or fixed-interval schedule over a range of instants returns
  exactly what the list of its occurrences in the range says, without error or panic: those
  outside the start deadline are one omitted range, of the missed ones the policy keeps none,
  the latest or the newest up to the catch-up limit, the others are one omitted range with
  its exact count, first and last instant, and in normal operation the newest occurrence is
  selected as current work.
\<close>

theorem schedule_reconcile_exact:
  assumes "exact_range c a" and "exact_range c now" and "a < now"
    and "1 \<le> limit" and "limit \<le> 1000"
  shows "CompiledSchedule_reconcile J Z c a now m dl limit zone elapsed =
    Some (Inr (reconciliation_of m limit elapsed
      (window (schedule_occurrences c) a (deadline_start a now dl))
      (window (schedule_occurrences c) (deadline_start a now dl) now)))"
  unfolding CompiledSchedule_reconcile_def
  using compiled.reconcile_exact[OF assms refl] .

lemma range_accounted:
  assumes "exact_range c a" and "exact_range c now" and "a < now"
    and "1 \<le> limit" and "limit \<le> 1000"
    and "CompiledSchedule_reconcile J Z c a now m dl limit zone elapsed = Some (Inr r)"
  shows "sum_list (map range_count (omitted r)) + length (selected r) =
      card (schedule_occurrences c \<inter> {a<..now}) \<and>
    sorted_wrt (<) (map nominal (selected r)) \<and>
    nominal ` set (selected r) \<subseteq> schedule_occurrences c \<inter> {a<..now} \<and>
    (\<forall>x \<in> set (omitted r). range_first x \<in> schedule_occurrences c \<inter> {a<..now} \<and>
                            range_last x \<in> schedule_occurrences c \<inter> {a<..now})"
proof -
  let ?occ = "schedule_occurrences c" and ?D = "deadline_start a now dl"
  let ?E = "window ?occ a ?D" and ?W = "window ?occ ?D now"
  let ?drop = "dropped_missed m limit (missed_pool elapsed ?W)"
  have r: "r = reconciliation_of m limit elapsed ?E ?W"
    by (rule compiled_reconcile[OF assms])
  have D: "a \<le> ?D" "?D \<le> now"
    using deadline_start_bounds[OF compiled.valid_in_range[OF assms(1)]
        compiled.valid_in_range[OF assms(2)] assms(3)] by (auto simp: less_imp_le)
  have split: "?W = ?drop @ map nominal (selected r)"
    unfolding r by (rule reconciliation_split[OF assms(4)])
  have all: "window ?occ a now = ?E @ ?drop @ map nominal (selected r)"
    using window_split[OF D, of ?occ] split by simp
  have "card (?occ \<inter> {a<..now}) = length ?E + length ?drop + length (selected r)"
    using arg_cong[OF all, of length] by (simp add: length_window)
  then have total: "sum_list (map range_count (omitted r)) + length (selected r) = card (?occ \<inter> {a<..now})"
    by (simp add: r omitted_counts)
  have sorted: "sorted_wrt (<) (map nominal (selected r))"
    using sorted_window[of ?occ a now] unfolding all by (simp add: sorted_wrt_append)
  have members: "set ?E \<union> set ?drop \<union> nominal ` set (selected r) = ?occ \<inter> {a<..now}"
    using arg_cong[OF all, of set] by auto
  have ends: "range_first x \<in> set ?E \<union> set ?drop \<and> range_last x \<in> set ?E \<union> set ?drop"
    if "x \<in> set (omitted r)" for x
    using that unfolding r by (rule omitted_ends)
  show ?thesis using total sorted members ends by blast
qed

text \<open>
  Reconciliation respects the policy: no more catch-up occurrences than the limit, none
  under skip and at most one under latest, at most one occurrence is current work, and no
  occurrence older than the start deadline is selected.
\<close>

theorem schedule_reconcile_policy:
  assumes "exact_range c a" and "exact_range c now" and "a < now"
    and "1 \<le> limit" and "limit \<le> 1000"
    and "CompiledSchedule_reconcile J Z c a now m dl limit zone elapsed = Some (Inr r)"
  shows "length (filter catch_up (selected r)) \<le>
      (case m of MissedSkip \<Rightarrow> 0 | MissedLatest \<Rightarrow> 1 | MissedAll \<Rightarrow> limit) \<and>
    length (filter (\<lambda>s. \<not> catch_up s) (selected r)) \<le> (if elapsed = Normal then 1 else 0) \<and>
    (\<forall>s \<in> set (selected r). \<forall>d. dl = Some d \<longrightarrow>
       epoch_micros now - epoch_micros (nominal s) \<le> int (get d))"
proof -
  let ?occ = "schedule_occurrences c" and ?D = "deadline_start a now dl"
  have r: "r = reconciliation_of m limit elapsed (window ?occ a ?D) (window ?occ ?D now)"
    by (rule compiled_reconcile[OF assms])
  have "length (filter catch_up (selected r)) =
      length (kept_missed m limit (missed_pool elapsed (window ?occ ?D now)))"
    by (simp add: r reconciliation_of_def Let_def comp_def)
  then have caught: "length (filter catch_up (selected r)) \<le>
      (case m of MissedSkip \<Rightarrow> 0 | MissedLatest \<Rightarrow> 1 | MissedAll \<Rightarrow> limit)"
    by (cases m) (simp_all add: kept_missed_def)
  have current: "length (filter (\<lambda>s. \<not> catch_up s) (selected r)) \<le> (if elapsed = Normal then 1 else 0)"
    by (simp add: r reconciliation_of_def Let_def comp_def current_occurrence_def)
  have "epoch_micros now - epoch_micros (nominal s) \<le> int (get d)"
    if s: "s \<in> set (selected r)" and d: "dl = Some d" for s d
  proof -
    have "nominal s \<in> set (window ?occ ?D now)"
      using s reconciliation_split[OF assms(4), of "window ?occ ?D now" m elapsed "window ?occ a ?D"]
      unfolding r by (metis Un_iff imageI list.set_map set_append)
    then have "?D < nominal s" by simp
    moreover have "valid_instant now" by (rule compiled.valid_in_range[OF assms(2)])
    ultimately show ?thesis
      by (auto simp: d deadline_start_def less_timestamp_def valid_instant_def Let_def in_i64_def
          i64_saturating_def i64_try_from_def machine_bounds split: if_splits)
  qed
  with caught current show ?thesis by blast
qed


text \<open>
  Reconciling two adjacent ranges one after the other accounts for the same occurrences
  as the whole range: none is selected twice, none is lost at the boundary.
\<close>

theorem schedule_reconcile_tiles:
  assumes "exact_range c a" and "exact_range c b" and "exact_range c now"
    and "a < b" and "b < now" and "1 \<le> limit" and "limit \<le> 1000"
    and "CompiledSchedule_reconcile J Z c a b m dl limit zone e = Some (Inr r)"
    and "CompiledSchedule_reconcile J Z c b now m dl limit zone e' = Some (Inr r')"
  shows "set (map nominal (selected r)) \<inter> set (map nominal (selected r')) = {} \<and>
    sum_list (map range_count (omitted r)) + length (selected r)
      + sum_list (map range_count (omitted r')) + length (selected r') =
    card (schedule_occurrences c \<inter> {a<..now})"
proof -
  let ?occ = "schedule_occurrences c"
  let ?D = "deadline_start a b dl" and ?D' = "deadline_start b now dl"
  have r: "r = reconciliation_of m limit e (window ?occ a ?D) (window ?occ ?D b)"
    by (rule compiled_reconcile[OF assms(1,2,4,6,7,8)])
  have r': "r' = reconciliation_of m limit e' (window ?occ b ?D') (window ?occ ?D' now)"
    by (rule compiled_reconcile[OF assms(2,3,5,6,7,9)])
  note ok = compiled.valid_in_range
  have D: "a \<le> ?D" "?D \<le> b" "b \<le> ?D'" "?D' \<le> now"
    using deadline_start_bounds[OF ok[OF assms(1)] ok[OF assms(2)] assms(4), of dl]
      deadline_start_bounds[OF ok[OF assms(2)] ok[OF assms(3)] assms(5), of dl] by auto
  let ?drop = "dropped_missed m limit (missed_pool e (window ?occ ?D b))"
  let ?drop' = "dropped_missed m limit (missed_pool e' (window ?occ ?D' now))"
  have one: "window ?occ a b = window ?occ a ?D @ ?drop @ map nominal (selected r)"
    using window_split[OF D(1,2), of ?occ] reconciliation_split[OF assms(6)] unfolding r by metis
  have two: "window ?occ b now = window ?occ b ?D' @ ?drop' @ map nominal (selected r')"
    using window_split[OF D(3,4), of ?occ] reconciliation_split[OF assms(6)] unfolding r' by metis
  have all: "window ?occ a now = window ?occ a b @ window ?occ b now"
    using assms(4,5) by (intro window_split) auto
  have "card (?occ \<inter> {a<..now}) = length (window ?occ a b) + length (window ?occ b now)"
    using arg_cong[OF all, of length] by (simp add: length_window)
  also have "\<dots> = (length (window ?occ a ?D) + length ?drop) + length (selected r)
      + (length (window ?occ b ?D') + length ?drop') + length (selected r')"
    using arg_cong[OF one, of length] arg_cong[OF two, of length] by simp
  finally have total: "sum_list (map range_count (omitted r)) + length (selected r)
      + sum_list (map range_count (omitted r')) + length (selected r') = card (?occ \<inter> {a<..now})"
    by (simp add: r r' omitted_counts)
  have "set (map nominal (selected r)) \<subseteq> {a<..b}" "set (map nominal (selected r')) \<subseteq> {b<..now}"
    using arg_cong[OF one, of set] arg_cong[OF two, of set] by auto
  then have "set (map nominal (selected r)) \<inter> set (map nominal (selected r')) = {}"
    by (meson disjoint_iff greaterThanAtMost_iff leD subsetD)
  with total show ?thesis by blast
qed

text \<open>
  Asking a fixed-interval schedule for its next occurrences returns exactly the first
  ones after the given instant, in order and with none left out, as long as the instant
  after the last of them still fits the machine integer; otherwise it reports the overflow.
\<close>

theorem schedule_next_exact:
  assumes "valid_interval d" and "valid_instant anchor" and "within_reach anchor after"
    and "0 < count" and "count \<le> 1000"
    and "Schedule_next J Z (ScheduleEvery d anchor) after count = Some res"
  shows "res = Inl next_overflows \<or>
    (\<exists>ts. res = Inr ts \<and> length ts = count \<and>
       ts = window (every_occurrences d anchor) after (last ts))"
proof -
  let ?k = "next_index d anchor after"
  let ?ts = "map (\<lambda>i. every_at d anchor (?k + int i)) [0..<count]"
  from assms(4) obtain n where n: "count = Suc n" by (cases count) auto
  have "res = interval_occurrences d anchor after count"
    using assms(5,6) by (simp add: Schedule_next_def)
  then have "res = Inl next_overflows \<or> res = Inr ?ts"
    using interval_occurrences_closed[OF assms(1-4)] by (simp split: if_splits)
  moreover have "?ts = window (every_occurrences d anchor) after (last ?ts)"
    using next_index_window[OF assms(1), of anchor after n] by (simp add: n)
  ultimately show ?thesis by (metis length_map length_upt diff_zero)
qed


theorem schedule_reconcile_exact_witness:
  "CompiledSchedule_reconcile sample_dates sample_zones sample_every (Timestamp 0) (Timestamp 200000000)
     MissedLatest None 100 () Missed = Some (Inr sample_result)"
  using schedule_reconcile_exact[OF sample_exact[of 0] sample_exact[of 200000000], of 100
      sample_dates sample_zones MissedLatest None "()" Missed]
  by (simp add: deadline_start_def sample_window sample_reconciliation)

theorem schedule_reconcile_policy_witness:
  "length (filter catch_up (selected sample_result)) \<le> 1"
  using schedule_reconcile_policy[OF sample_exact[of 0] sample_exact[of 200000000] _ _ _ sample_reconcile]
  by simp

theorem schedule_reconcile_tiles_witness:
  "sum_list (map range_count (omitted sample_result)) + length (selected sample_result) =
   card (schedule_occurrences sample_every \<inter> {Timestamp 0<..Timestamp 210000000})"
  using schedule_reconcile_tiles[OF sample_exact[of 0] sample_exact[of 200000000] sample_exact[of 210000000]
      _ _ _ _ sample_reconcile sample_reconcile_later]
  by simp

theorem schedule_next_exact_witness:
  "Schedule_next sample_dates sample_zones (ScheduleEvery (DurationMicros 60000000) (Timestamp 0))
     (Timestamp 61000000) 2 = Some (Inr [Timestamp 120000000, Timestamp 180000000]) \<and>
   [Timestamp 120000000, Timestamp 180000000] =
     window (every_occurrences (DurationMicros 60000000) (Timestamp 0)) (Timestamp 61000000) (Timestamp 180000000)"
proof -
  have two: "Schedule_next sample_dates sample_zones (ScheduleEvery (DurationMicros 60000000) (Timestamp 0))
     (Timestamp 61000000) 2 = Some (Inr [Timestamp 120000000, Timestamp 180000000])"
    by (simp add: Schedule_next_def interval_occurrences_def i64_try_from_def i64_checked_def
        i64_saturating_def in_i64_def machine_bounds numeral_2_eq_2)
  have "valid_interval (DurationMicros 60000000)" "valid_instant (Timestamp 0)"
    "within_reach (Timestamp 0) (Timestamp 61000000)"
    by (simp_all add: valid_interval_def valid_instant_def within_reach_def in_i64_def machine_bounds)
  from schedule_next_exact[OF this _ _ two] two show ?thesis by simp
qed

end
