(* ===== verification/Environment.thy ===== *)
theory Environment
  imports Locron_Time Rust_Text
begin

text \<open>
  The layered environment of \<^verbatim>\<open>crates/locron-core/src/execution.rs\<close>: validation of one
  configuration layer, merging of layers by canonical name, environment files, and the
  environment of an attempt. A \<open>BTreeMap\<close> is the list of its entries in key order. The flag
  \<open>windows\<close> is the platform of the build: names are compared without case there. The
  variables of the process and the reading of a file are arguments.
\<close>

section \<open>Ordered maps\<close>

type_synonym env = "(string \<times> string) list"

definition btree_insert :: "string \<Rightarrow> 'v \<Rightarrow> (string \<times> 'v) list \<Rightarrow> (string \<times> 'v) list" where
  "btree_insert k v m = filter (\<lambda>e. fst e < k) m @ (k, v) # filter (\<lambda>e. k < fst e) m"

definition btree_wf :: "(string \<times> 'v) list \<Rightarrow> bool" where
  "btree_wf m \<longleftrightarrow> sorted_wrt (<) (map fst m)"


section \<open>Names\<close>

definition environment_name :: "bool \<Rightarrow> string \<Rightarrow> string" where
  "environment_name windows name = (if windows then to_ascii_uppercase name else name)"

fun environment_value :: "bool \<Rightarrow> env \<Rightarrow> string \<Rightarrow> string option" where
  "environment_value windows [] name = None"
| "environment_value windows ((key, value) # rest) name =
     (if environment_name windows key = environment_name windows name then Some value
      else environment_value windows rest name)"

definition is_reserved_environment_name :: "bool \<Rightarrow> string \<Rightarrow> bool" where
  "is_reserved_environment_name windows name \<longleftrightarrow> starts_with ''LOCRON_'' (environment_name windows name)"

definition is_valid_environment_name :: "string \<Rightarrow> bool" where
  "is_valid_environment_name name \<longleftrightarrow>
     (case name of
        [] \<Rightarrow> False
      | first # rest \<Rightarrow>
          (first = CHR ''_'' \<or> is_ascii_alphabetic first)
          \<and> list_all (\<lambda>b. b = CHR ''_'' \<or> is_ascii_alphanumeric b) rest)"


section \<open>Layers\<close>

definition invalid_entry :: "bool \<Rightarrow> string \<Rightarrow> bool" where
  "invalid_entry windows name \<longleftrightarrow>
     \<not> is_valid_environment_name name \<or> is_reserved_environment_name windows name"

fun check_layer :: "bool \<Rightarrow> string list \<Rightarrow> env \<Rightarrow> string + unit" where
  "check_layer windows names [] = Inr ()"
| "check_layer windows names ((name, value) # rest) =
     (if invalid_entry windows name then Inl (''invalid or reserved environment name '' @ name)
      else if NUL \<in> set value then Inl (''environment value for '' @ name @ '' contains NUL'')
      else if environment_name windows name \<in> set names
      then Inl (''environment names collide in one configuration layer: '' @ name)
      else check_layer windows (environment_name windows name # names) rest)"

definition validate_environment_layer :: "bool \<Rightarrow> env \<Rightarrow> string + unit" where
  "validate_environment_layer windows environment = check_layer windows [] environment"

definition merge_entry :: "bool \<Rightarrow> string \<times> string \<Rightarrow> env \<Rightarrow> env" where
  "merge_entry windows entry environment =
     (let key = environment_name windows (fst entry)
      in btree_insert key (snd entry)
           (filter (\<lambda>e. environment_name windows (fst e) \<noteq> key) environment))"

definition apply_environment_layer :: "bool \<Rightarrow> env \<Rightarrow> env \<Rightarrow> string + env" where
  "apply_environment_layer windows environment layer =
     and_then (validate_environment_layer windows layer) (\<lambda>_.
       Inr (fold (merge_entry windows) layer environment))"


section \<open>Environment files\<close>

fun parse_lines :: "bool \<Rightarrow> nat \<Rightarrow> string list \<Rightarrow> string list \<Rightarrow> env \<Rightarrow> string + env" where
  "parse_lines windows index names [] layer = Inr layer"
| "parse_lines windows index names (raw # rest) layer =
     (let line = trim raw
      in if line = [] \<or> starts_with ''#'' line
         then parse_lines windows (index + 1) names rest layer
         else case split_once (CHR ''='') line of
                None \<Rightarrow> Inl (''environment file line '' @ show_nat (index + 1) @ '' is malformed'')
              | Some (name, value) \<Rightarrow>
                  if windows \<and> environment_name windows name \<in> set names
                  then Inl (''environment file repeats a name in one layer: '' @ name)
                  else parse_lines windows (index + 1) (environment_name windows name # names) rest
                         (btree_insert name value layer))"

definition parse_environment_file :: "bool \<Rightarrow> string \<Rightarrow> string + env" where
  "parse_environment_file windows content =
     and_then (parse_lines windows 0 [] (lines content) []) (\<lambda>layer.
     and_then (validate_environment_layer windows layer) (\<lambda>_. Inr layer))"


section \<open>The environment of an attempt\<close>

definition runtime_names :: "bool \<Rightarrow> string list" where
  "runtime_names windows =
     (if windows
      then [''SYSTEMROOT'', ''COMSPEC'', ''TEMP'', ''TMP'', ''USERPROFILE'', ''LOCALAPPDATA'', ''APPDATA'',
            ''USERNAME'', ''PATH'', ''PATHEXT'']
      else [''HOME'', ''USER'', ''LOGNAME'', ''LANG'', ''LC_ALL'', ''TMPDIR'', ''PATH''])"

text \<open>A variable of the process; \<open>None\<close> where the name or the value is not Unicode text.\<close>

type_synonym process_variable = "string option \<times> string option"

definition minimal_entry :: "bool \<Rightarrow> process_variable \<Rightarrow> (string \<times> string) option" where
  "minimal_entry windows var =
     (case var of
        (Some name, value) \<Rightarrow>
          (let key = environment_name windows name
           in if key \<in> set (runtime_names windows) then map_option (Pair key) value else None)
      | (None, _) \<Rightarrow> None)"

definition minimal_environment :: "bool \<Rightarrow> process_variable list \<Rightarrow> env" where
  "minimal_environment windows vars =
     fold (\<lambda>(k, v). btree_insert k v) (List.map_filter (minimal_entry windows) vars) []"

record environment =
  env_file :: "string option"
  env_values :: env
  env_path :: "string option"

definition effective_environment ::
    "bool \<Rightarrow> process_variable list \<Rightarrow> (string \<Rightarrow> string + string) \<Rightarrow> string \<Rightarrow> env
     \<Rightarrow> environment \<Rightarrow> string + env" where
  "effective_environment windows vars read_to_string execution_path global job =
     and_then (apply_environment_layer windows
         (btree_insert ''PATH'' execution_path (minimal_environment windows vars)) global) (\<lambda>e1.
     let e2 = (case env_path job of None \<Rightarrow> e1 | Some path \<Rightarrow> btree_insert ''PATH'' path e1)
     in and_then (case env_file job of
            None \<Rightarrow> Inr e2
          | Some file \<Rightarrow>
              and_then (map_err (\<lambda>error. ''environment file: '' @ error) (read_to_string file)) (\<lambda>content.
              and_then (parse_environment_file windows content)
                (apply_environment_layer windows e2))) (\<lambda>e3.
          apply_environment_layer windows e3 (env_values job)))"


section \<open>Ordered maps as maps\<close>

lemma btree_wf_empty [simp]: "btree_wf []"
  by (simp add: btree_wf_def)

lemma btree_wf_distinct: "btree_wf m \<Longrightarrow> distinct (map fst m)"
  by (simp add: btree_wf_def strict_sorted_iff)

lemma btree_wf_filter [simp]: "btree_wf m \<Longrightarrow> btree_wf (filter p m)"
  by (simp add: btree_wf_def sorted_wrt_map sorted_wrt_filter)

lemma btree_wf_insert [simp]: "btree_wf m \<Longrightarrow> btree_wf (btree_insert k v m)"
  by (auto simp: btree_wf_def btree_insert_def sorted_wrt_append sorted_wrt_map sorted_wrt_filter)

lemma keys_btree_insert [simp]: "fst ` set (btree_insert k v m) = insert k (fst ` set m)"
  by (force simp: btree_insert_def image_iff)

lemma map_of_btree_insert [simp]: "map_of (btree_insert k v m) = (map_of m)(k \<mapsto> v)"
proof
  fix x
  have f: "map_of (filter (\<lambda>e. P (fst e)) m) x = (if P x then map_of m x else None)" for P
    by (induction m) auto
  show "map_of (btree_insert k v m) x = ((map_of m)(k \<mapsto> v)) x"
    using f[of "\<lambda>x. x < k"] f[of "\<lambda>x. k < x"]
    by (auto simp: btree_insert_def map_add_def split: option.split)
qed

lemma map_of_filter_keys: "map_of (filter (\<lambda>e. P (fst e)) m) x = (if P x then map_of m x else None)"
  by (induction m) auto



section \<open>Canonical names\<close>

lemma ascii_upper_idem [simp]: "ascii_upper (ascii_upper c) = ascii_upper c"
proof -
  have "of_char (ascii_upper c) = (if 97 \<le> (of_char c :: nat) \<and> (of_char c :: nat) \<le> 122
      then of_char c - 32 else (of_char c :: nat))"
    by (auto simp: ascii_upper_def)
  then show ?thesis by (auto simp: ascii_upper_def)
qed

lemma environment_name_idem [simp]: "environment_name w (environment_name w n) = environment_name w n"
  by (simp add: environment_name_def to_ascii_uppercase_def)

text \<open>An environment whose keys are canonical, as the merge keeps it.\<close>

definition canonical_env :: "bool \<Rightarrow> env \<Rightarrow> bool" where
  "canonical_env windows e \<longleftrightarrow> btree_wf e \<and> (\<forall>k \<in> fst ` set e. environment_name windows k = k)"

lemma canonical_insert:
  "canonical_env w e \<Longrightarrow> environment_name w k = k \<Longrightarrow> canonical_env w (btree_insert k v e)"
  by (simp add: canonical_env_def)

lemma environment_value_canonical:
  "\<forall>k \<in> fst ` set e. environment_name w k = k \<Longrightarrow> environment_value w e name = map_of e (environment_name w name)"
  by (induction e) auto

lemma merge_entry_canonical: "canonical_env w e \<Longrightarrow> canonical_env w (merge_entry w entry e)"
  by (auto simp: merge_entry_def Let_def canonical_env_def)

lemma map_of_merge_entry:
  "map_of (merge_entry w entry e) =
     (\<lambda>x. if x = environment_name w (fst entry) then Some (snd entry)
          else if environment_name w x = environment_name w (fst entry) then None else map_of e x)"
  using map_of_filter_keys[of "\<lambda>k. environment_name w k \<noteq> environment_name w (fst entry)" e]
  by (auto simp: merge_entry_def Let_def fun_eq_iff)

text \<open>What a valid layer says about a name.\<close>

lemma check_layer_ok:
  "check_layer w names layer = Inr () \<longleftrightarrow>
     (\<forall>(n, v) \<in> set layer. \<not> invalid_entry w n \<and> NUL \<notin> set v)
     \<and> distinct (map (environment_name w \<circ> fst) layer)
     \<and> set names \<inter> (environment_name w \<circ> fst) ` set layer = {}"
  by (induction w names layer rule: check_layer.induct) (auto split: prod.splits)

lemma merge_layer:
  assumes "canonical_env w e" and "distinct (map (environment_name w \<circ> fst) layer)"
  shows "canonical_env w (fold (merge_entry w) layer e)
    \<and> map_of (fold (merge_entry w) layer e) (environment_name w x)
      = (case environment_value w layer x of None \<Rightarrow> map_of e (environment_name w x) | Some v \<Rightarrow> Some v)"
  using assms
proof (induction layer arbitrary: e)
  case (Cons entry layer)
  obtain n v where entry: "entry = (n, v)" by (cases entry)
  note ih = Cons.IH[OF merge_entry_canonical[OF Cons.prems(1)], of entry] Cons.prems(2)
  have none: "environment_value w layer x = None"
    if "environment_name w n = environment_name w x" "environment_name w n \<notin> (environment_name w \<circ> fst) ` set layer"
    using that by (induction layer) (auto simp: image_iff)
  show ?case using ih none by (auto simp: entry map_of_merge_entry split: option.splits)
qed simp

text \<open>The canonical names that a valid layer can set.\<close>

definition layer_names :: "bool \<Rightarrow> string set" where
  "layer_names windows = environment_name windows ` {n. \<not> invalid_entry windows n}"

lemma union_insert_trans: "A \<subseteq> insert x B \<Longrightarrow> x \<in> K \<Longrightarrow> C \<subseteq> A \<union> K \<Longrightarrow> C \<subseteq> B \<union> K"
  by blast

lemma union_trans: "C \<subseteq> B \<union> K \<Longrightarrow> B \<subseteq> A \<union> K \<Longrightarrow> C \<subseteq> A \<union> K"
  by blast

lemma apply_environment_layer_ok:
  assumes "apply_environment_layer w e layer = Inr e'" and "canonical_env w e"
  shows "canonical_env w e'"
    and "map_of e' (environment_name w x)
      = (case environment_value w layer x of None \<Rightarrow> map_of e (environment_name w x) | Some v \<Rightarrow> Some v)"
    and "fst ` set e' \<subseteq> fst ` set e \<union> layer_names w"
proof -
  from assms(1) have ok: "check_layer w [] layer = Inr ()" and e': "e' = fold (merge_entry w) layer e"
    by (auto simp: apply_environment_layer_def validate_environment_layer_def and_then_eq_Inr)
  then show "canonical_env w e'" "map_of e' (environment_name w x)
      = (case environment_value w layer x of None \<Rightarrow> map_of e (environment_name w x) | Some v \<Rightarrow> Some v)"
    using merge_layer[OF assms(2)] by (simp_all add: check_layer_ok)
  have "fst ` set (fold (merge_entry w) layer e) \<subseteq> fst ` set e \<union> layer_names w"
    if "\<forall>(n, v) \<in> set layer. \<not> invalid_entry w n" for layer e
    using that
  proof (induction layer arbitrary: e)
    case (Cons entry layer)
    have "fst ` set (merge_entry w entry e) \<subseteq> insert (environment_name w (fst entry)) (fst ` set e)"
      unfolding merge_entry_def Let_def keys_btree_insert by auto
    moreover have "environment_name w (fst entry) \<in> layer_names w"
      using Cons.prems by (cases entry) (simp add: layer_names_def)
    moreover have "fst ` set (fold (merge_entry w) layer (merge_entry w entry e))
        \<subseteq> fst ` set (merge_entry w entry e) \<union> layer_names w"
      using Cons.prems by (intro Cons.IH) simp
    ultimately show ?case unfolding fold_simps by (rule union_insert_trans)
  qed simp
  moreover have "\<forall>(n, v) \<in> set layer. \<not> invalid_entry w n" using ok by (auto simp: check_layer_ok)
  ultimately show "fst ` set e' \<subseteq> fst ` set e \<union> layer_names w"
    unfolding e' by blast
qed

lemma runtime_name_canonical: "k \<in> set (runtime_names w) \<Longrightarrow> environment_name w k = k"
proof -
  have "list_all (\<lambda>k. environment_name True k = k) (runtime_names True)" by code_simp
  then show "k \<in> set (runtime_names w) \<Longrightarrow> environment_name w k = k"
    by (cases w) (auto simp: list_all_iff environment_name_def)
qed

lemma minimal_environment_ok:
  "canonical_env w (minimal_environment w vars) \<and> fst ` set (minimal_environment w vars) \<subseteq> set (runtime_names w)"
proof -
  have "canonical_env w (fold (\<lambda>(k, v). btree_insert k v) kvs e)
      \<and> fst ` set (fold (\<lambda>(k, v). btree_insert k v) kvs e) \<subseteq> set (runtime_names w)"
    if "fst ` set kvs \<subseteq> set (runtime_names w)" "canonical_env w e" "fst ` set e \<subseteq> set (runtime_names w)" for kvs e
    using that
  proof (induction kvs arbitrary: e)
    case (Cons kv kvs)
    obtain k v where kv: "kv = (k, v)" by (cases kv)
    with Cons.prems have "canonical_env w (btree_insert k v e)" "fst ` set (btree_insert k v e) \<subseteq> set (runtime_names w)"
      by (auto simp: canonical_insert runtime_name_canonical)
    with Cons.IH[OF _ this] Cons.prems(1) show ?case by (simp add: kv)
  qed simp
  moreover have "fst ` set (List.map_filter (minimal_entry w) vars) \<subseteq> set (runtime_names w)"
    by (auto simp: List.map_filter_def minimal_entry_def Let_def split: option.splits if_splits)
  moreover have "canonical_env w []" by (simp add: canonical_env_def)
  ultimately show ?thesis by (simp add: minimal_environment_def)
qed


section \<open>The environment of an attempt\<close>

text \<open>The layers of an attempt, the strongest first.\<close>

fun first_some :: "'a option list \<Rightarrow> 'a option" where
  "first_some [] = None"
| "first_some (None # xs) = first_some xs"
| "first_some (Some x # xs) = Some x"

lemma first_some_Cons [simp]: "first_some (x # xs) = (case x of None \<Rightarrow> first_some xs | Some y \<Rightarrow> Some y)"
  by (cases x) simp_all

definition path_only :: "bool \<Rightarrow> string \<Rightarrow> 'a option \<Rightarrow> 'a option" where
  "path_only windows name v = (if environment_name windows name = ''PATH'' then v else None)"

definition file_layer ::
    "bool \<Rightarrow> (string \<Rightarrow> string + string) \<Rightarrow> environment \<Rightarrow> env" where
  "file_layer windows read_to_string job =
     (case env_file job of
        None \<Rightarrow> []
      | Some file \<Rightarrow>
          (case and_then (read_to_string file) (parse_environment_file windows) of
             Inl _ \<Rightarrow> []
           | Inr layer \<Rightarrow> layer))"

lemma path_name [simp]: "environment_name w ''PATH'' = ''PATH''"
  by (rule runtime_name_canonical) (simp add: runtime_names_def)

lemma effective_environment_layers:
  assumes "effective_environment w vars rd execution_path global job = Inr e"
  shows "canonical_env w e"
    and "map_of e (environment_name w name) =
      first_some [environment_value w (env_values job) name, environment_value w (file_layer w rd job) name,
        path_only w name (env_path job), environment_value w global name, path_only w name (Some execution_path),
        environment_value w (minimal_environment w vars) name]"
    and "fst ` set e \<subseteq> set (runtime_names w) \<union> layer_names w"
proof -
  let ?e0 = "btree_insert ''PATH'' execution_path (minimal_environment w vars)"
  note m = minimal_environment_ok[of w vars]
  have path: "''PATH'' \<in> set (runtime_names w)" by (simp add: runtime_names_def)
  have c0: "canonical_env w ?e0" "fst ` set ?e0 \<subseteq> set (runtime_names w)"
    using m path by (auto simp: canonical_insert)
  from assms obtain e1 where e1: "apply_environment_layer w ?e0 global = Inr e1"
    by (auto simp: effective_environment_def and_then_eq_Inr)
  define e2 where "e2 = (case env_path job of None \<Rightarrow> e1 | Some path \<Rightarrow> btree_insert ''PATH'' path e1)"
  have c2: "canonical_env w e2"
    using apply_environment_layer_ok(1)[OF e1 c0(1)] by (auto simp: e2_def canonical_insert split: option.splits)
  have "and_then (case env_file job of None \<Rightarrow> Inr e2 | Some file \<Rightarrow>
          and_then (map_err (\<lambda>error. ''environment file: '' @ error) (rd file)) (\<lambda>content.
          and_then (parse_environment_file w content) (apply_environment_layer w e2)))
        (\<lambda>e3. apply_environment_layer w e3 (env_values job)) = Inr e"
    using assms e1 unfolding effective_environment_def e2_def by (simp add: Let_def)
  then obtain e3 where
    e3: "(case env_file job of None \<Rightarrow> Inr e2 | Some file \<Rightarrow>
          and_then (map_err (\<lambda>error. ''environment file: '' @ error) (rd file)) (\<lambda>content.
          and_then (parse_environment_file w content) (apply_environment_layer w e2))) = Inr e3"
    and e: "apply_environment_layer w e3 (env_values job) = Inr e"
    unfolding and_then_eq_Inr by blast
  have f: "e3 = e2 \<and> file_layer w rd job = [] \<or> apply_environment_layer w e2 (file_layer w rd job) = Inr e3"
    using e3 by (cases "env_file job") (auto simp: file_layer_def and_then_eq_Inr map_err_eq_Inr)
  have c3: "canonical_env w e3" using f c2 apply_environment_layer_ok(1) by blast
  show "canonical_env w e" using apply_environment_layer_ok(1)[OF e c3] .
  let ?x = "environment_name w name"
  have m0: "map_of (minimal_environment w vars) ?x = environment_value w (minimal_environment w vars) name"
    using m by (simp add: environment_value_canonical canonical_env_def)
  have v1: "map_of e1 ?x = first_some [environment_value w global name, path_only w name (Some execution_path),
      environment_value w (minimal_environment w vars) name]"
    using apply_environment_layer_ok(2)[OF e1 c0(1), of name] m0
    by (auto simp: path_only_def simp del: first_some.simps(2,3) split: option.splits)
  have v2: "map_of e2 ?x = first_some [path_only w name (env_path job), environment_value w global name,
      path_only w name (Some execution_path), environment_value w (minimal_environment w vars) name]"
    using v1 by (auto simp: e2_def path_only_def simp del: first_some.simps(2,3) split: option.splits)
  have v3: "map_of e3 ?x = (case environment_value w (file_layer w rd job) name of
      None \<Rightarrow> map_of e2 ?x | Some v \<Rightarrow> Some v)"
    using f apply_environment_layer_ok(2)[OF _ c2, of _ e3 name] by auto
  show "map_of e ?x = first_some [environment_value w (env_values job) name,
      environment_value w (file_layer w rd job) name, path_only w name (env_path job),
      environment_value w global name, path_only w name (Some execution_path),
      environment_value w (minimal_environment w vars) name]"
    using apply_environment_layer_ok(2)[OF e c3, of name] v2 v3 by (auto simp del: first_some.simps(2,3) split: option.splits)
  have k1: "fst ` set e1 \<subseteq> set (runtime_names w) \<union> layer_names w"
    by (rule union_trans[OF apply_environment_layer_ok(3)[OF e1 c0(1)]]) (rule le_supI1[OF c0(2)])
  then have k2: "fst ` set e2 \<subseteq> set (runtime_names w) \<union> layer_names w"
    using path by (cases "env_path job") (simp_all add: e2_def)
  then have k3: "fst ` set e3 \<subseteq> set (runtime_names w) \<union> layer_names w"
    using f union_trans[OF apply_environment_layer_ok(3)[OF _ c2], of "file_layer w rd job" e3] by metis
  then show "fst ` set e \<subseteq> set (runtime_names w) \<union> layer_names w"
    by (rule union_trans[OF apply_environment_layer_ok(3)[OF e c3]])
qed


lemma effective_keys_not_reserved:
  assumes "k \<in> set (runtime_names w) \<union> layer_names w"
  shows "\<not> is_reserved_environment_name w k"
proof -
  have "list_all (\<lambda>k. \<not> starts_with ''LOCRON_'' k) (runtime_names w)"
    by (simp add: runtime_names_def starts_with_def)
  then have "\<not> starts_with ''LOCRON_'' k" if "k \<in> set (runtime_names w)" using that by (simp add: list_all_iff)
  then show ?thesis
    using assms runtime_name_canonical[of k w]
    by (auto simp: is_reserved_environment_name_def layer_names_def invalid_entry_def)
qed

text \<open>
  C34: The environment of an attempt follows the order of its layers: the job's own values win
  over its environment file, then its PATH, then the global values, then the configured
  execution path, then the whitelisted variables of the process; names are compared as the
  platform does, each name is set once, and no reserved runtime name gets in.
\<close>

theorem effective_environment_precedence:
  assumes "effective_environment w vars rd execution_path global job = Inr e"
  shows "environment_value w e name =
      first_some [environment_value w (env_values job) name, environment_value w (file_layer w rd job) name,
        path_only w name (env_path job), environment_value w global name, path_only w name (Some execution_path),
        environment_value w (minimal_environment w vars) name]
    \<and> distinct (map (environment_name w \<circ> fst) e)
    \<and> list_all (\<lambda>(k, v). \<not> is_reserved_environment_name w k) e"
proof (intro conjI)
  note c = effective_environment_layers(1)[OF assms]
  then have keys: "\<forall>k \<in> fst ` set e. environment_name w k = k" and wf: "btree_wf e" by (simp_all add: canonical_env_def)
  show "environment_value w e name =
      first_some [environment_value w (env_values job) name, environment_value w (file_layer w rd job) name,
        path_only w name (env_path job), environment_value w global name, path_only w name (Some execution_path),
        environment_value w (minimal_environment w vars) name]"
    using environment_value_canonical[OF keys] effective_environment_layers(2)[OF assms] by metis
  have "map (environment_name w \<circ> fst) e = map fst e" using keys by (intro map_cong) auto
  then show "distinct (map (environment_name w \<circ> fst) e)" using btree_wf_distinct[OF wf] by (simp only:)
  show "list_all (\<lambda>(k, v). \<not> is_reserved_environment_name w k) e"
    using effective_environment_layers(3)[OF assms] effective_keys_not_reserved
    by (fastforce simp: list_all_iff)
qed

definition sample_job_environment :: environment where
  "sample_job_environment = \<lparr>env_file = None, env_values = [(''mode'', ''fast'')], env_path = Some ''/opt/bin''\<rparr>"

theorem effective_environment_precedence_witness:
  "effective_environment True [(Some ''path'', Some ''/sys'')] (\<lambda>_. Inl ''absent'') ''/usr/bin''
      [(''MODE'', ''slow'')] sample_job_environment = Inr [(''MODE'', ''fast''), (''PATH'', ''/opt/bin'')]
   \<and> environment_value True [(''MODE'', ''fast''), (''PATH'', ''/opt/bin'')] ''Mode'' = Some ''fast''"
proof -
  have run: "effective_environment True [(Some ''path'', Some ''/sys'')] (\<lambda>_. Inl ''absent'') ''/usr/bin''
      [(''MODE'', ''slow'')] sample_job_environment = Inr [(''MODE'', ''fast''), (''PATH'', ''/opt/bin'')]"
    by code_simp
  from effective_environment_precedence[OF run, of "''Mode''"]
  have "environment_value True [(''MODE'', ''fast''), (''PATH'', ''/opt/bin'')] ''Mode'' =
      first_some [environment_value True (env_values sample_job_environment) ''Mode'',
        environment_value True (file_layer True (\<lambda>_. Inl ''absent'') sample_job_environment) ''Mode'',
        path_only True ''Mode'' (env_path sample_job_environment),
        environment_value True [(''MODE'', ''slow'')] ''Mode'', path_only True ''Mode'' (Some ''/usr/bin''),
        environment_value True (minimal_environment True [(Some ''path'', Some ''/sys'')]) ''Mode'']"
    by (rule conjunct1)
  also have "\<dots> = Some ''fast''" by code_simp
  finally show ?thesis using run by simp
qed


section \<open>Environment files\<close>

definition printable :: "char \<Rightarrow> bool" where
  "printable c \<longleftrightarrow> 32 < (of_char c :: nat) \<and> (of_char c :: nat) < 128"

lemma white_space_bytes:
  assumes "c \<in> set (take (white_space_at s) s)"
  shows "\<not> printable c"
proof -
  obtain a t where s: "s = a # t" using assms by (cases s) auto
  show ?thesis
  proof (cases t)
    case Nil
    with assms s show ?thesis by (auto simp: white_space_at_def printable_def split: if_splits)
  next
    case (Cons b u)
    with assms s show ?thesis
      by (cases u) (auto simp: white_space_at_def printable_def numeral_2_eq_2 numeral_3_eq_3 split: if_splits)
  qed
qed

lemma white_space_at_printable: "printable c \<Longrightarrow> white_space_at (c # cs) = 0"
  using white_space_bytes[of c "c # cs"] by (cases "white_space_at (c # cs)") auto

lemma split_whitespace_piece: "piece \<noteq> [] \<Longrightarrow> split_whitespace_from piece s \<noteq> []"
  by (induction piece s rule: split_whitespace_from.induct) auto

lemma split_whitespace_printable:
  "c \<in> set s \<Longrightarrow> printable c \<Longrightarrow> split_whitespace_from piece s \<noteq> []"
proof (induction piece s rule: split_whitespace_from.induct)
  case (2 piece x xs)
  show ?case
  proof (cases "0 < white_space_at (x # xs)")
    case True
    then have "c \<in> set (drop (white_space_at (x # xs)) (x # xs))"
      using 2(3,4) white_space_bytes[of c "x # xs"] by (metis Un_iff append_take_drop_id set_append)
    with 2(1)[OF True _ 2(4)] True show ?thesis by simp
  qed (simp add: split_whitespace_piece)
qed simp

text \<open>The lines of a file that are neither blank nor comments, and the assignments they make.\<close>

definition significant :: "string \<Rightarrow> bool" where
  "significant raw \<longleftrightarrow> trim raw \<noteq> [] \<and> hd (trim raw) \<noteq> CHR ''#''"

definition assignment :: "string \<Rightarrow> string \<times> string" where
  "assignment line = (takeWhile (\<lambda>c. c \<noteq> CHR ''='') line, tl (dropWhile (\<lambda>c. c \<noteq> CHR ''='') line))"

definition assignments :: "string list \<Rightarrow> env" where
  "assignments ls = map (assignment \<circ> trim) (filter significant ls)"

lemma split_once_assignment:
  "split_once (CHR ''='') s = (if CHR ''='' \<in> set s then Some (assignment s) else None)"
  by (induction s) (auto simp: assignment_def)

lemma significant_line: "(trim raw = [] \<or> starts_with ''#'' (trim raw)) \<longleftrightarrow> \<not> significant raw"
  by (cases "trim raw") (auto simp: significant_def starts_with_def)

lemma parse_lines_exact:
  "parse_lines w index names ls layer = Inr layer' \<longleftrightarrow>
     (\<forall>raw \<in> set ls. significant raw \<longrightarrow> CHR ''='' \<in> set (trim raw))
     \<and> (w \<longrightarrow> distinct (map (environment_name w \<circ> fst) (assignments ls))
          \<and> set names \<inter> (environment_name w \<circ> fst) ` set (assignments ls) = {})
     \<and> layer' = fold (\<lambda>(n, v). btree_insert n v) (assignments ls) layer"
proof (induction ls arbitrary: index names layer)
  case (Cons raw ls)
  obtain n v where nv: "assignment (trim raw) = (n, v)" by fastforce
  show ?case
    using Cons.IH[of "index + 1" names layer] Cons.IH[of "index + 1" "environment_name w n # names" "btree_insert n v layer"]
    by (auto simp: significant_line split_once_assignment assignments_def nv Let_def simp del: disj_not1)
qed (auto simp: assignments_def)

lemma assignments_lookup:
  "map_of (fold (\<lambda>(n, v). btree_insert n v) es m) name =
     (case map_of (rev es) name of Some v \<Rightarrow> Some v | None \<Rightarrow> map_of m name)"
  by (induction es arbitrary: m) (auto simp: map_add_def split: option.splits)

lemma assignments_wf: "btree_wf m \<Longrightarrow> btree_wf (fold (\<lambda>(n, v). btree_insert n v) es m)"
  by (induction es arbitrary: m) auto

lemma assignments_keys: "fst ` set (fold (\<lambda>(n, v). btree_insert n v) es m) = fst ` set es \<union> fst ` set m"
  by (induction es arbitrary: m) (simp_all add: case_prod_unfold)

lemma btree_wf_unique:
  assumes "btree_wf m" and "btree_wf m'" and "\<And>k. map_of m k = map_of m' k"
  shows "m = m'"
proof -
  have keys: "sorted (map fst m)" "sorted (map fst m')" "distinct (map fst m)" "distinct (map fst m')"
    using assms(1,2) by (simp_all only: btree_wf_def strict_sorted_iff)
  have "set m = set m'"
    using map_of_inject_set[OF keys(3,4)] assms(3) by auto
  then show ?thesis using keys by (intro map_sorted_distinct_set_unique[where f = fst and xs = m and ys = m'])
      (auto simp: distinct_map)
qed

text \<open>
  C35: an environment file is read exactly so. Blank lines and lines that begin with \<open>#\<close> after
  leading white space count for nothing; every other line, trimmed, is split at its first
  equals sign. The file is accepted with a layer exactly when every such line has an equals
  sign, on Windows no name is repeated up to case, and the layer is the sorted map that gives
  every name the value of its last line, all its names are valid and not reserved and none of
  its values contains a NUL.
\<close>

theorem environment_file_exact:
  "parse_environment_file w content = Inr layer \<longleftrightarrow>
     (\<forall>raw \<in> set (lines content). significant raw \<longrightarrow> CHR ''='' \<in> set (trim raw))
     \<and> (w \<longrightarrow> distinct (map (environment_name w \<circ> fst) (assignments (lines content))))
     \<and> btree_wf layer
     \<and> (\<forall>name. map_of layer name = map_of (rev (assignments (lines content))) name)
     \<and> (\<forall>(name, val) \<in> set layer. is_valid_environment_name name \<and> \<not> is_reserved_environment_name w name \<and> NUL \<notin> set val)"
  (is "?L \<longleftrightarrow> ?lines \<and> ?names \<and> ?wf \<and> ?map \<and> ?valid")
proof -
  let ?es = "assignments (lines content)" and ?layer = "fold (\<lambda>(n, v). btree_insert n v) (assignments (lines content)) []"
  have built: "btree_wf ?layer" "\<forall>name. map_of ?layer name = map_of (rev ?es) name"
    using assignments_wf[of "[]" ?es] by (simp_all add: assignments_lookup split: option.split)
  then have layer: "layer = ?layer \<longleftrightarrow> ?wf \<and> ?map"
    using btree_wf_unique[of layer ?layer] by metis
  have unique: "distinct (map (environment_name w \<circ> fst) layer)" if ?names "layer = ?layer" ?wf
  proof (cases w)
    case True
    then have "inj_on (environment_name w) (fst ` set ?es)" using that(1) by (auto simp: distinct_map inj_on_def)
    then have "inj_on (environment_name w) (set (map fst layer))" by (simp add: that(2) assignments_keys)
    with btree_wf_distinct[OF that(3)] show ?thesis unfolding map_map[symmetric] by (simp only: distinct_map)
  qed (use btree_wf_distinct[OF that(3)] in \<open>simp add: environment_name_def comp_def\<close>)
  have parsed: "?L \<longleftrightarrow> (?lines \<and> ?names \<and> layer = ?layer) \<and> validate_environment_layer w layer = Inr ()"
    by (auto simp: parse_environment_file_def and_then_eq_Inr parse_lines_exact)
  have "validate_environment_layer w layer = Inr () \<longleftrightarrow> ?valid \<and> distinct (map (environment_name w \<circ> fst) layer)"
    by (auto simp: validate_environment_layer_def check_layer_ok invalid_entry_def)
  then show ?thesis unfolding parsed using layer unique by blast
qed

theorem environment_file_exact_witness:
  "parse_environment_file False (''# note'' @ CHR 0x0A # '' MODE=a=b '' @ CHR 0x0A # CHR 0x0A # ''MODE=fast'') = Inr [(''MODE'', ''fast'')]
   \<and> map_of [(''MODE'', ''fast'')] ''MODE''
       = map_of (rev (assignments (lines (''# note'' @ CHR 0x0A # '' MODE=a=b '' @ CHR 0x0A # CHR 0x0A # ''MODE=fast'')))) ''MODE''"
proof -
  have run: "parse_environment_file False (''# note'' @ CHR 0x0A # '' MODE=a=b '' @ CHR 0x0A # CHR 0x0A # ''MODE=fast'')
      = Inr [(''MODE'', ''fast'')]" by code_simp
  from run environment_file_exact[THEN iffD1, OF run] show ?thesis by blast
qed

end
