(* ===== verification/Target.thy ===== *)
theory Target
  imports Environment
begin

text \<open>
  Targets and environments of \<^verbatim>\<open>crates/locron-core/src/target.rs\<close> with the two shell helpers of
  \<^verbatim>\<open>execution.rs\<close> that their validation calls, in the build for Unix: a path is absolute when
  it starts with a slash. The parser of the url package is an argument that gives the scheme
  and the host of a text, or the text of its error. A \<open>BTreeMap\<close> of headers is the list of its
  entries in key order.
\<close>

section \<open>Data\<close>

datatype http_header_source = Inline string | FromEnvironment string

datatype http_method = Get | Post | Put | Patch | DeleteMethod | Head

definition HttpMethod_as_str :: "http_method \<Rightarrow> string" where
  "HttpMethod_as_str m =
     (case m of Get \<Rightarrow> ''GET'' | Post \<Rightarrow> ''POST'' | Put \<Rightarrow> ''PUT'' | Patch \<Rightarrow> ''PATCH''
      | DeleteMethod \<Rightarrow> ''DELETE'' | Head \<Rightarrow> ''HEAD'')"

record http_target =
  http_method :: http_method
  http_url :: string
  http_headers :: "(string \<times> http_header_source) list"
  http_body :: "nat list option"
  http_body_file :: "string option"
  http_success_statuses :: "nat list"
  http_follow_redirects :: bool

datatype target =
    Process string "string list"
  | Shell string string
  | Http http_target

type_synonym url_parser = "string \<Rightarrow> string + string \<times> string option"

definition is_absolute :: "string \<Rightarrow> bool" where
  "is_absolute path \<longleftrightarrow> starts_with ''/'' path"


section \<open>Validation\<close>

definition is_valid_http_header_name :: "string \<Rightarrow> bool" where
  "is_valid_http_header_name name \<longleftrightarrow>
     name \<noteq> [] \<and> list_all (\<lambda>b. is_ascii_alphanumeric b \<or> b \<in> set ''!#$%&'' \<or> b = CHR 0x27
       \<or> b \<in> set ''*+-.^_'' \<or> b = CHR 0x60 \<or> b \<in> set ''|~'') name"

definition shell_arguments :: "string \<Rightarrow> string \<Rightarrow> string + string list" where
  "shell_arguments shell command =
     (if NUL \<in> set command then Inl ''shell command contains NUL'' else Inr [''-c'', command])"

definition validate_direct_executable :: "string \<Rightarrow> string + unit" where
  "validate_direct_executable executable = Inr ()"

definition prohibited_in_header :: "char set" where
  "prohibited_in_header = {CHR 0x0D, CHR 0x0A, NUL}"

definition check_header_source :: "string \<Rightarrow> http_header_source \<Rightarrow> validation_error + unit" where
  "check_header_source name source =
     (case source of
        Inline value \<Rightarrow>
          if list_ex (\<lambda>c. c \<in> prohibited_in_header) value
          then Inl (ValidationError_new ''header'' ''invalid_value''
                 (''header '' @ name @ '' contains a prohibited character''))
          else Inr ()
      | FromEnvironment variable \<Rightarrow>
          if \<not> is_valid_environment_name variable
          then Inl (ValidationError_new ''header_env'' ''invalid_environment_name''
                 (''invalid environment name: '' @ variable))
          else Inr ())"

fun check_headers ::
    "string list \<Rightarrow> (string \<times> http_header_source) list \<Rightarrow> validation_error + unit" where
  "check_headers normalized_names [] = Inr ()"
| "check_headers normalized_names ((name, source) # rest) =
     (if \<not> is_valid_http_header_name name
      then Inl (ValidationError_new ''header'' ''invalid_name'' (''invalid HTTP header name: '' @ name))
      else if to_ascii_lowercase name \<in> set normalized_names
      then Inl (ValidationError_new ''header'' ''duplicate_name''
             (''duplicate case-insensitive HTTP header: '' @ name))
      else and_then (check_header_source name source) (\<lambda>_.
             check_headers (to_ascii_lowercase name # normalized_names) rest))"

definition HttpTarget_validate :: "url_parser \<Rightarrow> http_target \<Rightarrow> validation_error + unit" where
  "HttpTarget_validate url_parse self =
     and_then (map_err (ValidationError_new ''url'' ''absolute_url_required'') (url_parse (http_url self))) (\<lambda>(scheme, host).
       if scheme \<notin> {''http'', ''https''} \<or> host = None
       then Inl (ValidationError_new ''url'' ''absolute_url_required'' ''URL must be absolute HTTP or HTTPS'')
       else if http_body self \<noteq> None \<and> http_body_file self \<noteq> None
       then Inl (ValidationError_new ''body'' ''conflicting_body_sources''
              ''inline body and body file are mutually exclusive'')
       else if (case http_body_file self of None \<Rightarrow> False | Some path \<Rightarrow> \<not> is_absolute path)
       then Inl (ValidationError_new ''body_file'' ''absolute_path_required'' ''HTTP body file must be absolute'')
       else if list_ex (\<lambda>status. \<not> (100 \<le> status \<and> status \<le> 599)) (http_success_statuses self)
       then Inl (ValidationError_new ''success_status'' ''out_of_range'' ''status must be from 100 through 599'')
       else check_headers [] (http_headers self))"

definition Target_validate :: "url_parser \<Rightarrow> target \<Rightarrow> validation_error + unit" where
  "Target_validate url_parse self =
     (case self of
        Process executable args \<Rightarrow>
          if trim executable = [] \<or> NUL \<in> set executable \<or> list_ex (\<lambda>a. NUL \<in> set a) args
          then Inl (ValidationError_new ''process'' ''invalid_argument_vector''
                 ''executable must be non-empty and argv cannot contain NUL'')
          else if CHR ''/'' \<in> set executable \<and> \<not> is_absolute executable
          then Inl (ValidationError_new ''executable'' ''absolute_path_required''
                 ''an executable containing a path separator must be absolute'')
          else map_err (ValidationError_new ''executable'' ''explicit_shell_required'')
                 (validate_direct_executable executable)
      | Shell command shell \<Rightarrow>
          if trim command = [] \<or> NUL \<in> set command \<or> \<not> is_absolute shell
          then Inl (ValidationError_new ''shell'' ''invalid_shell''
                 ''command must be non-empty without NUL and shell must be absolute'')
          else map_err (ValidationError_new ''shell'' ''unsupported_shell'')
                 (map_sum id (\<lambda>_. ()) (shell_arguments shell command))
      | Http http \<Rightarrow> HttpTarget_validate url_parse http)"

fun check_values :: "bool \<Rightarrow> string list \<Rightarrow> env \<Rightarrow> validation_error + unit" where
  "check_values windows names [] = Inr ()"
| "check_values windows names ((name, value) # rest) =
     (if \<not> is_valid_environment_name name
      then Inl (ValidationError_new ''environment'' ''invalid_name'' (''invalid environment name: '' @ name))
      else if is_reserved_environment_name windows name
      then Inl (ValidationError_new ''environment'' ''reserved_name'' (name @ '' is reserved''))
      else if NUL \<in> set value
      then Inl (ValidationError_new ''environment'' ''invalid_value'' (name @ '' contains NUL''))
      else if environment_name windows name \<in> set names
      then Inl (ValidationError_new ''environment'' ''colliding_names''
             ''environment names collide in one configuration layer'')
      else check_values windows (environment_name windows name # names) rest)"

definition Environment_validate :: "bool \<Rightarrow> environment \<Rightarrow> validation_error + unit" where
  "Environment_validate windows self =
     (if (case env_file self of None \<Rightarrow> False | Some path \<Rightarrow> \<not> is_absolute path)
      then Inl (ValidationError_new ''environment_file'' ''absolute_path_required''
             ''environment file must be absolute'')
      else and_then (check_values windows [] (env_values self)) (\<lambda>_.
        if (case env_path self of None \<Rightarrow> False | Some path \<Rightarrow> NUL \<in> set path)
        then Inl (ValidationError_new ''path'' ''invalid_value'' ''PATH contains NUL'')
        else Inr ()))"


section \<open>What validation accepts\<close>

lemma check_headers_ok:
  "check_headers names headers = Inr () \<longleftrightarrow>
     (\<forall>(n, source) \<in> set headers. is_valid_http_header_name n \<and> check_header_source n source = Inr ())
     \<and> distinct (map (to_ascii_lowercase \<circ> fst) headers)
     \<and> set names \<inter> (to_ascii_lowercase \<circ> fst) ` set headers = {}"
  by (induction names headers rule: check_headers.induct) (auto simp: and_then_eq_Inr)

lemma check_values_layer:
  "check_values windows names vals = Inr () \<longleftrightarrow> check_layer windows names vals = Inr ()"
  by (induction windows names vals rule: check_values.induct) (auto simp: invalid_entry_def)

text \<open>
  Target validation is exact. A process target is accepted when its executable is not blank,
  nothing in it holds a NUL and a path is absolute; a shell target when its command is not
  blank, has no NUL and its shell is absolute; an HTTP target when the URL is absolute HTTP or
  HTTPS with a host, there is at most one body source with an absolute path, the statuses are
  in range and the headers have valid, case-insensitively distinct names and clean values.
\<close>

theorem target_validate_iff:
  "Target_validate url_parse t = Inr () \<longleftrightarrow>
     (case t of
        Process executable args \<Rightarrow>
          trim executable \<noteq> [] \<and> (\<forall>a \<in> set (executable # args). NUL \<notin> set a)
          \<and> (CHR ''/'' \<in> set executable \<longrightarrow> is_absolute executable)
      | Shell command shell \<Rightarrow> trim command \<noteq> [] \<and> NUL \<notin> set command \<and> is_absolute shell
      | Http h \<Rightarrow>
          (\<exists>scheme host. url_parse (http_url h) = Inr (scheme, Some host) \<and> scheme \<in> {''http'', ''https''})
          \<and> (http_body h = None \<or> http_body_file h = None)
          \<and> (\<forall>path. http_body_file h = Some path \<longrightarrow> is_absolute path)
          \<and> (\<forall>status \<in> set (http_success_statuses h). 100 \<le> status \<and> status \<le> 599)
          \<and> distinct (map (to_ascii_lowercase \<circ> fst) (http_headers h))
          \<and> (\<forall>(n, source) \<in> set (http_headers h). is_valid_http_header_name n \<and>
               (case source of
                  Inline v \<Rightarrow> set v \<inter> prohibited_in_header = {}
                | FromEnvironment v \<Rightarrow> is_valid_environment_name v)))"
proof (cases t)
  case (Process executable args)
  then show ?thesis by (auto simp: Target_validate_def validate_direct_executable_def list_ex_iff)
next
  case (Shell command shell)
  then show ?thesis by (auto simp: Target_validate_def shell_arguments_def)
next
  case (Http h)
  have source: "check_header_source n src = Inr () \<longleftrightarrow>
      (case src of Inline v \<Rightarrow> set v \<inter> prohibited_in_header = {} | FromEnvironment v \<Rightarrow> is_valid_environment_name v)" for n src
    by (cases src) (auto simp: check_header_source_def list_ex_iff)
  show ?thesis
    by (cases "url_parse (http_url h)"; cases "http_body_file h")
      (auto simp: Http Target_validate_def HttpTarget_validate_def check_headers_ok source list_ex_iff
        split: option.splits prod.splits)
qed

definition sample_http :: target where
  "sample_http = Http \<lparr>http_method = Get, http_url = ''https://example.org/'',
     http_headers = [(''Accept'', Inline ''text/plain''), (''X-Token'', FromEnvironment ''TOKEN'')],
     http_body = None, http_body_file = None, http_success_statuses = [200, 204], http_follow_redirects = False\<rparr>"

theorem target_validate_iff_witness:
  "Target_validate (\<lambda>_. Inr (''https'', Some ''example.org'')) sample_http = Inr ()
   \<and> Target_validate (\<lambda>_. Inl ''not a URL'') (Process ''bin/tool'' []) \<noteq> Inr ()"
proof
  have "distinct (map (to_ascii_lowercase \<circ> fst) [(''Accept'', ()), (''X-Token'', ())])"
    "list_all is_valid_http_header_name [''Accept'', ''X-Token'']" "is_valid_environment_name ''TOKEN''"
    "\<not> list_ex (\<lambda>c. c \<in> prohibited_in_header) ''text/plain''" by code_simp+
  then show "Target_validate (\<lambda>_. Inr (''https'', Some ''example.org'')) sample_http = Inr ()"
    unfolding target_validate_iff by (auto simp: sample_http_def list_ex_iff)
  show "Target_validate (\<lambda>_. Inl ''not a URL'') (Process ''bin/tool'' []) \<noteq> Inr ()"
    unfolding target_validate_iff by (simp add: is_absolute_def starts_with_def)
qed

end
