(* ===== verification/Job_Definition.thy ===== *)
theory Job_Definition
  imports Schedule_Types Policy Target
begin

text \<open>
  The normalized job definition of \<^verbatim>\<open>crates/locron-core/src/command.rs\<close> that revisions and run
  snapshots carry.
\<close>

datatype completion_action = Retain | Delete

record job_definition =
  definition_schedule :: schedule
  definition_target :: target
  definition_cwd :: string
  definition_environment :: environment
  definition_policy :: execution_policy
  definition_action :: completion_action

end
