(* ===== verification/Command.thy ===== *)
theory Command
  imports Schedule Job_Definition
begin

text \<open>
  The application commands of \<^verbatim>\<open>crates/locron-core/src/command.rs\<close> and their validation: job
  definitions, adding and updating a job, changes of the configuration, and the identities of
  \<^verbatim>\<open>id.rs\<close> that they carry, kept as their canonical text. \<open>JobDefinition::validate\<close> calls the
  schedule parser, so its result is an option of a result: \<open>None\<close> is a loop that does not end
  or a failed \<open>expect\<close> in the calendar code.
\<close>

section \<open>Job definitions\<close>

definition JobDefinition_validate ::
    "'d::linorder jiff_dates \<Rightarrow> ('d, 'z) jiff_zones \<Rightarrow> url_parser \<Rightarrow> bool \<Rightarrow> nat \<Rightarrow> job_definition
     \<Rightarrow> (validation_error + unit) option" where
  "JobDefinition_validate J Z url_parse windows global_concurrency self =
     chain (Schedule_validate J Z (definition_schedule self)) (\<lambda>_.
     chain (Some (Target_validate url_parse (definition_target self))) (\<lambda>_.
     chain (Some (Environment_validate windows (definition_environment self))) (\<lambda>_.
     chain (Some (ExecutionPolicy_validate (definition_policy self) global_concurrency)) (\<lambda>_.
       Some (if definition_action self = Delete
                \<and> \<not> (case definition_schedule self of ScheduleAt _ \<Rightarrow> True | _ \<Rightarrow> False)
             then Inl (ValidationError_new ''completion_action'' ''one_time_schedule_required''
                    ''delete completion action requires a one-time schedule'')
             else if \<not> is_absolute (definition_cwd self)
             then Inl (ValidationError_new ''cwd'' ''absolute_path_required''
                    ''working directory must be absolute'')
             else Inr ())))))"

definition validate_job_name :: "string \<Rightarrow> validation_error + unit" where
  "validate_job_name name =
     (if trim name = [] \<or> NUL \<in> set name
      then Inl (ValidationError_new ''name'' ''invalid_name''
             ''job name must be non-empty and cannot contain NUL'')
      else Inr ())"

record add_job =
  add_id :: string
  add_name :: string
  add_description :: "string option"
  add_tags :: "string list"
  add_enabled :: bool
  add_definition :: job_definition
  add_created_at :: timestamp
  add_cursor_at :: timestamp

definition AddJob_validate ::
    "'d::linorder jiff_dates \<Rightarrow> ('d, 'z) jiff_zones \<Rightarrow> url_parser \<Rightarrow> bool \<Rightarrow> nat \<Rightarrow> add_job
     \<Rightarrow> (validation_error + unit) option" where
  "AddJob_validate J Z url_parse windows global_concurrency self =
     chain (Some (validate_job_name (add_name self))) (\<lambda>_.
       JobDefinition_validate J Z url_parse windows global_concurrency (add_definition self))"

record update_job_command =
  upd_job_id :: string
  upd_expected_revision :: nat
  upd_name :: string
  upd_description :: "string option"
  upd_tags :: "string list"
  upd_enabled :: bool
  upd_definition :: job_definition
  upd_updated_at :: timestamp
  upd_cursor_at :: timestamp

definition UpdateJob_validate ::
    "'d::linorder jiff_dates \<Rightarrow> ('d, 'z) jiff_zones \<Rightarrow> url_parser \<Rightarrow> bool \<Rightarrow> nat \<Rightarrow> update_job_command
     \<Rightarrow> (validation_error + unit) option" where
  "UpdateJob_validate J Z url_parse windows global_concurrency self =
     chain (Some (validate_job_name (upd_name self))) (\<lambda>_.
       JobDefinition_validate J Z url_parse windows global_concurrency (upd_definition self))"


section \<open>Configuration\<close>

datatype configuration_change =
    GlobalConcurrency nat
  | ExecutionPath string
  | RunRetentionCount nat
  | RunRetentionAge duration_micros
  | OutputLimitBytes nat
  | PerRunOutputLimitBytes nat
  | EnvironmentChange string "string option"

definition ConfigurationChange_validate :: "bool \<Rightarrow> configuration_change \<Rightarrow> validation_error + unit" where
  "ConfigurationChange_validate windows self =
     (case self of
        GlobalConcurrency value \<Rightarrow>
          if \<not> (1 \<le> value \<and> value \<le> 64)
          then Inl (ValidationError_new ''global_concurrency'' ''out_of_range'' ''must be from 1 through 64'')
          else Inr ()
      | EnvironmentChange name value \<Rightarrow>
          if \<not> is_valid_environment_name name \<or> is_reserved_environment_name windows name
             \<or> (case value of None \<Rightarrow> False | Some item \<Rightarrow> NUL \<in> set item)
          then Inl (ValidationError_new ''environment'' ''invalid_value''
                 ''environment names and values must be safe and non-reserved'')
          else Inr ()
      | ExecutionPath value \<Rightarrow>
          if NUL \<in> set value
          then Inl (ValidationError_new ''execution_path'' ''invalid_value'' ''execution PATH cannot contain NUL'')
          else Inr ()
      | _ \<Rightarrow> Inr ())"

record configuration =
  conf_global_concurrency :: nat
  conf_execution_path :: string
  conf_run_retention_count :: nat
  conf_run_retention_age :: "duration_micros option"
  conf_output_limit_bytes :: nat
  conf_per_run_output_limit_bytes :: nat
  conf_environment :: env

end
