(* ===== verification/Json_Values.thy ===== *)
theory Json_Values
  imports Main
begin

text \<open>
  The values of \<open>serde_json::Value\<close>, shared by the events of the store and the redaction
  boundary. The members of an object are listed in the order of their keys, as the ordered map
  of the package keeps them; a number that is not an integer keeps its text.
\<close>

datatype json =
    JNull
  | JBool bool
  | JInt int
  | JFloat string
  | JString string
  | JArray "json list"
  | JObject "(string \<times> json) list"

end
