(* ===== verification/Store_Tables.thy ===== *)
theory Store_Tables
  imports Lifecycle Job_Definition Json_Values
begin

text \<open>
  The durable state of \<^verbatim>\<open>crates/locron-store/src/store.rs\<close>: the tables of the schema in
  \<^verbatim>\<open>migrations/0001_initial.sql\<close> and its successors as lists of rows, the records the store
  exchanges with its callers, and the small functions on transactions that several
  operations share. An operation is a function from a database to an error or a database
  with a result; an error rolls the transaction back, so it carries no database. A statement
  \<open>UPDATE .. WHERE\<close> is \<open>update_where\<close>, its row count \<open>count_where\<close>; the constraints of a table
  that an \<open>INSERT\<close> can violate are tested by the definition of that insert. Text columns that
  hold JSON keep the text; the details of an event keep the JSON value.
\<close>

section \<open>Values\<close>

datatype store_error =
    StoreObserved string
  | StoreAdmissionTimeout
  | StoreMaintenanceDeferred
  | StoreReadOnly
  | StoreIo string
  | StoreSqlite string
  | StoreJson string
  | StoreDaemonAlreadyRunning
  | StoreMigrationRequiresDaemonRestart
  | StoreSchemaTooNew int int
  | StoreNotLocronDatabase int
  | StoreMigrationChecksumMismatch int string string
  | StoreMissingMigration int
  | StoreMigrationConflict
  | StoreStateDirectoryUnavailable
  | StoreStateDirectoryDiscoveryFailed string
  | StoreUnsafePath string
  | StoreInvalidIdentity string
  | StoreNotFound string
  | StoreConflict string

type_synonym 'a store_result = "store_error + 'a"

datatype run_trigger = TriggerScheduled | TriggerCatchUp | TriggerManual

text \<open>
  The codecs of the serde and uuid packages: text to a JSON value, text to a job definition,
  text to the hyphenated form of the UUID it denotes, and the map of environment variables
  from and to text.
\<close>

record codecs =
  from_str :: "string \<Rightarrow> string + json"
  definition_from_str :: "string \<Rightarrow> job_definition option"
  uuid_hyphenated :: "string \<Rightarrow> string option"
  environment_from_str :: "string \<Rightarrow> string + env"
  environment_to_string :: "env \<Rightarrow> string"

definition show_int :: "int \<Rightarrow> string" where
  "show_int n = (if n < 0 then CHR ''-'' # show_nat (nat (- n)) else show_nat (nat n))"


section \<open>Rows\<close>

record job_row =
  job_id :: string
  job_name :: string
  job_description :: "string option"
  job_tags_json :: string
  job_enabled :: bool
  job_created_at :: int
  job_updated_at :: int
  job_removed_at :: "int option"
  job_current_revision :: int

record revision_row =
  rev_job :: string
  rev_revision :: int
  rev_definition_json :: string
  rev_created_at :: int
  rev_created_by :: string

record cursor_row =
  cur_job :: string
  cur_revision :: int
  cur_cursor :: int
  cur_one_time_resolved :: bool
  cur_updated_at :: int
  cur_disabled_since :: "int option"

record lifetime_row =
  life_id :: string
  life_pid :: nat
  life_binary_version :: string
  life_started_at :: int
  life_heartbeat_at :: int
  life_ended_at :: "int option"
  life_exit_class :: "string option"

record run_row =
  run_id :: string
  run_job :: string
  run_revision :: int
  run_trig :: run_trigger
  run_nominal :: "int option"
  run_requested_at :: int
  run_eligible_at :: int
  run_sequence :: int
  run_snapshot_json :: string
  run_st :: run_state
  run_reason :: "string option"
  run_replacement_candidate :: bool
  run_cancellation_requested_at :: "int option"
  run_cancellation_reason :: "string option"
  run_finished_at :: "int option"

record attempt_row =
  att_run :: string
  att_number :: int
  att_lifetime :: string
  att_st :: attempt_state
  att_started_at :: int
  att_running_at :: "int option"
  att_finished_at :: "int option"
  att_duration :: "int option"
  att_resolved_executable :: "string option"
  att_exit_code :: "int option"
  att_http_status :: "int option"
  att_http_content_type :: "string option"
  att_result_class :: "string option"
  att_error_message :: "string option"

record intent_row =
  intent_run :: string
  intent_prior_attempt :: int
  intent_not_before :: int
  intent_classification :: string
  intent_created_at :: int

record event_row =
  event_at :: int
  event_kind :: string
  event_job :: "string option"
  event_run :: "string option"
  event_details :: json

datatype artifact_state = ArtPending | ArtActive | ArtFinalized | ArtPrunePending | ArtPruned | ArtMissing

record artifact_row =
  art_run :: string
  art_attempt :: int
  art_path :: string
  art_st :: artifact_state
  art_retained :: int
  art_physical :: int
  art_discarded :: int
  art_truncated :: bool
  art_truncated_at :: "int option"
  art_finalized_at :: "int option"
  art_prune_started_at :: "int option"
  art_pruned_at :: "int option"

text \<open>The singleton row of settings, and the record that reading it gives.\<close>

record settings_row =
  set_global_concurrency :: int
  set_execution_path :: string
  set_run_retention_count :: int
  set_run_retention_age :: "int option"
  set_output_limit :: int
  set_per_run_output_limit :: int
  set_environment_json :: string
  set_updated_at :: int

record settings_record =
  rec_global_concurrency :: int
  rec_execution_path :: string
  rec_run_retention_count :: int
  rec_run_retention_age :: "int option"
  rec_output_limit :: int
  rec_per_run_output_limit :: int
  rec_environment :: env

record store =
  jobs :: "job_row list"
  job_revisions :: "revision_row list"
  cursors :: "cursor_row list"
  lifetimes :: "lifetime_row list"
  last_admitted_job :: "string option"
  next_sequence :: int
  runs :: "run_row list"
  attempts :: "attempt_row list"
  retry_intents :: "intent_row list"
  events :: "event_row list"
  artifacts :: "artifact_row list"
  retention_pending :: "(string \<times> int) list"
  settings :: settings_row


section \<open>Statements\<close>

definition update_where :: "('r \<Rightarrow> bool) \<Rightarrow> ('r \<Rightarrow> 'r) \<Rightarrow> 'r list \<Rightarrow> 'r list" where
  "update_where p f rows = map (\<lambda>r. if p r then f r else r) rows"

definition count_where :: "('r \<Rightarrow> bool) \<Rightarrow> 'r list \<Rightarrow> nat" where
  "count_where p rows = length (filter p rows)"

text \<open>\<open>query_row(..).optional()\<close>: the first matching row.\<close>

definition query_row :: "('r \<Rightarrow> bool) \<Rightarrow> 'r list \<Rightarrow> 'r option" where
  "query_row p rows = find p rows"

abbreviation active_state :: "run_state \<Rightarrow> bool" where
  "active_state s \<equiv> s \<in> {Queued, Starting, Running, RetryWait}"

abbreviation executing :: "run_state \<Rightarrow> bool" where
  "executing s \<equiv> s \<in> {Starting, Running}"

abbreviation pending :: "run_state \<Rightarrow> bool" where
  "pending s \<equiv> s \<in> {Queued, RetryWait}"

abbreviation active_attempt :: "attempt_row \<Rightarrow> bool" where
  "active_attempt a \<equiv> att_st a \<in> {AttStarting, AttRunning}"

abbreviation quarantined :: "run_row \<Rightarrow> bool" where
  "quarantined r \<equiv> run_st r = Running \<and> run_reason r = Some ''termination_unconfirmed''"

definition push_event ::
    "int \<Rightarrow> string \<Rightarrow> string option \<Rightarrow> string option \<Rightarrow> json \<Rightarrow> store \<Rightarrow> store" where
  "push_event at kind job run details s =
     s\<lparr>events := events s @ [\<lparr>event_at = at, event_kind = kind, event_job = job, event_run = run,
                              event_details = details\<rparr>]\<rparr>"

definition delete_intents :: "string \<Rightarrow> store \<Rightarrow> store" where
  "delete_intents run s = s\<lparr>retry_intents := filter (\<lambda>i. intent_run i \<noteq> run) (retry_intents s)\<rparr>"

definition update_runs :: "(run_row \<Rightarrow> bool) \<Rightarrow> (run_row \<Rightarrow> run_row) \<Rightarrow> store \<Rightarrow> store" where
  "update_runs p f s = s\<lparr>runs := update_where p f (runs s)\<rparr>"

definition update_attempts :: "(attempt_row \<Rightarrow> bool) \<Rightarrow> (attempt_row \<Rightarrow> attempt_row) \<Rightarrow> store \<Rightarrow> store" where
  "update_attempts p f s = s\<lparr>attempts := update_where p f (attempts s)\<rparr>"

definition update_artifacts :: "(artifact_row \<Rightarrow> bool) \<Rightarrow> (artifact_row \<Rightarrow> artifact_row) \<Rightarrow> store \<Rightarrow> store" where
  "update_artifacts p f s = s\<lparr>artifacts := update_where p f (artifacts s)\<rparr>"

definition next_queue_sequence :: "store \<Rightarrow> int \<times> store" where
  "next_queue_sequence s = (next_sequence s, s\<lparr>next_sequence := next_sequence s + 1\<rparr>)"

text \<open>
  \<open>INSERT INTO runs\<close>: the primary key, the unique queue sequence, one scheduled occurrence
  per revision and instant, one replacement candidate per job, and the check that exactly
  the manual runs have no nominal time. The result says whether a constraint is violated.
\<close>

definition run_constraints :: "store \<Rightarrow> run_row \<Rightarrow> bool" where
  "run_constraints s r \<longleftrightarrow>
     (\<forall>x \<in> set (runs s). run_id x \<noteq> run_id r \<and> run_sequence x \<noteq> run_sequence r
        \<and> \<not> (run_trig x \<noteq> TriggerManual \<and> run_trig r \<noteq> TriggerManual \<and> run_job x = run_job r
              \<and> run_revision x = run_revision r \<and> run_nominal x = run_nominal r)
        \<and> \<not> (run_replacement_candidate x \<and> run_replacement_candidate r \<and> run_job x = run_job r))
     \<and> run_sequence r > 0
     \<and> (run_trig r = TriggerManual \<longleftrightarrow> run_nominal r = None)"

definition insert_run :: "run_row \<Rightarrow> store \<Rightarrow> store" where
  "insert_run r s = s\<lparr>runs := runs s @ [r]\<rparr>"

text \<open>The foreign keys of a run: its job and the revision of the job.\<close>

definition run_references :: "store \<Rightarrow> run_row \<Rightarrow> bool" where
  "run_references s r \<longleftrightarrow>
     (\<exists>j \<in> set (jobs s). job_id j = run_job r) \<and>
     (\<exists>v \<in> set (job_revisions s). rev_job v = run_job r \<and> rev_revision v = run_revision r)"


section \<open>Policies read from snapshots\<close>

record snapshot_policy =
  snap_overlap :: string
  snap_per_job_concurrency :: int

definition json_get :: "string \<Rightarrow> json \<Rightarrow> json option" where
  "json_get key v = (case v of JObject kvs \<Rightarrow> map_of kvs key | _ \<Rightarrow> None)"

definition json_as_str :: "json \<Rightarrow> string option" where
  "json_as_str v = (case v of JString x \<Rightarrow> Some x | _ \<Rightarrow> None)"

definition json_as_i64 :: "json \<Rightarrow> int option" where
  "json_as_i64 v = (case v of JInt n \<Rightarrow> i64_checked n | _ \<Rightarrow> None)"

definition snapshot_admission_policy :: "codecs \<Rightarrow> string \<Rightarrow> snapshot_policy store_result" where
  "snapshot_admission_policy D snapshot =
     and_then (map_err StoreJson (from_str D snapshot)) (\<lambda>v.
       let policy = json_get ''policy'' v
       in Inr \<lparr>snap_overlap =
                 (case Option.bind (Option.bind policy (json_get ''overlap'')) json_as_str of
                    None \<Rightarrow> ''skip'' | Some x \<Rightarrow> x),
               snap_per_job_concurrency =
                 (case Option.bind (Option.bind policy (json_get ''per_job_concurrency'')) json_as_i64 of
                    None \<Rightarrow> 1 | Some n \<Rightarrow> n)\<rparr>)"


section \<open>Shared transaction steps\<close>

definition validate_uuid :: "codecs \<Rightarrow> string \<Rightarrow> unit store_result" where
  "validate_uuid D text =
     (case uuid_hyphenated D text of
        None \<Rightarrow> Inl (StoreInvalidIdentity (''invalid UUID: '' @ text))
      | Some h \<Rightarrow>
          if h \<noteq> text \<or> to_ascii_lowercase text \<noteq> text
          then Inl (StoreInvalidIdentity (''UUID is not lowercase canonical text: '' @ text))
          else Inr ())"

text \<open>
  Soft-removes the job whose scheduled one-time run reached a terminal state and asked for
  deletion.
\<close>

definition soft_remove_after_one_time_completion :: "codecs \<Rightarrow> string \<Rightarrow> int \<Rightarrow> store \<Rightarrow> store" where
  "soft_remove_after_one_time_completion D rid now s =
     (case query_row (\<lambda>r. run_id r = rid \<and> run_finished_at r \<noteq> None) (runs s) of
        None \<Rightarrow> s
      | Some r \<Rightarrow>
          (case definition_from_str D (run_snapshot_json r) of
             None \<Rightarrow> s
           | Some d \<Rightarrow>
               if run_trig r = TriggerManual \<or> definition_action d \<noteq> Delete
                  \<or> \<not> (case definition_schedule d of ScheduleAt _ \<Rightarrow> True | _ \<Rightarrow> False)
               then s
               else
                 let live = (\<lambda>j. job_id j = run_job r \<and> job_removed_at j = None);
                     removed = count_where live (jobs s);
                     s' = s\<lparr>jobs := update_where live
                              (\<lambda>j. j\<lparr>job_enabled := False, job_removed_at := Some now, job_updated_at := now\<rparr>)
                              (jobs s)\<rparr>
                 in if removed = 1
                    then push_event now ''job_auto_removed'' (Some (run_job r)) (Some rid)
                           (JObject [(''completion_action'', JString ''delete'')]) s'
                    else s'))"

text \<open>One iteration of the loop over superseded runs.\<close>

definition supersede_one :: "string \<Rightarrow> int \<Rightarrow> string option \<Rightarrow> string \<Rightarrow> store \<Rightarrow> store" where
  "supersede_one job now successor run s =
     push_event now ''replacement_superseded'' (Some job) (Some run)
       (JObject [(''reason'', JString ''superseded_by_newer_replacement''),
                 (''successor_run_id'', case successor of None \<Rightarrow> JNull | Some x \<Rightarrow> JString x)])
       (update_runs (\<lambda>r. run_id r = run \<and> pending (run_st r))
          (\<lambda>r. r\<lparr>run_st := SkippedOverlap, run_reason := Some ''superseded by newer replacement'',
                 run_finished_at := Some now, run_replacement_candidate := False\<rparr>)
          (delete_intents run s))"

definition supersede_for_replacement :: "string \<Rightarrow> int \<Rightarrow> string option \<Rightarrow> store \<Rightarrow> store" where
  "supersede_for_replacement job now successor s =
     (let superseded = map run_id (sort_key run_sequence (filter (\<lambda>r. run_job r = job \<and>
            (run_st r = RetryWait \<or> run_st r = Queued \<and> run_trig r \<noteq> TriggerCatchUp)) (runs s)));
          s1 = fold (supersede_one job now successor) superseded s;
          active = (\<lambda>r. run_job r = job \<and> executing (run_st r));
          s2 = update_runs active
                 (\<lambda>r. r\<lparr>run_cancellation_requested_at :=
                          (case run_cancellation_requested_at r of None \<Rightarrow> Some now | Some t \<Rightarrow> Some t),
                        run_cancellation_reason :=
                          (case run_cancellation_reason r of None \<Rightarrow> Some ''replacement'' | Some x \<Rightarrow> Some x),
                        run_replacement_candidate := False\<rparr>) s1
      in if count_where active (runs s1) > 0
         then push_event now ''replacement_requested'' (Some job) None
                (JObject [(''source'', JString ''replacement''),
                          (''successor_run_id'', case successor of None \<Rightarrow> JNull | Some x \<Rightarrow> JString x)]) s2
         else s2)"


section \<open>The migrated, empty database\<close>

text \<open>
  What the migrations leave: no rows but the two singletons, with the retention age of 90
  days that the third migration sets and the empty environment of the fourth.
\<close>

definition initial_store :: store where
  "initial_store =
     \<lparr>jobs = [], job_revisions = [], cursors = [], lifetimes = [], last_admitted_job = None, next_sequence = 1,
      runs = [], attempts = [], retry_intents = [], events = [], artifacts = [], retention_pending = [],
      settings = \<lparr>set_global_concurrency = 16, set_execution_path = ''/usr/local/bin:/usr/bin:/bin'',
        set_run_retention_count = 10000, set_run_retention_age = Some 7776000000000,
        set_output_limit = 268435456, set_per_run_output_limit = 10485760,
        set_environment_json = ''{}'', set_updated_at = 0\<rparr>\<rparr>"

end
