(* ===== verification/Store_Runs.thy ===== *)
theory Store_Runs
  imports Store_Tables Admission "HOL-Library.Product_Lexorder"
begin

text \<open>
  The operations of \<^verbatim>\<open>crates/locron-store/src/store.rs\<close> on runs and attempts: queueing manual
  runs, materializing scheduled runs with the cursor, cancellation with its read-only preview
  (\<^verbatim>\<open>store/cancellation.rs\<close>), scheduler lifetimes, admission, the start of an attempt and its
  completion on every path. Operations that read before their transaction take what they
  prepared as an argument, so that another writer may act in between.
\<close>

section \<open>Reading jobs and runs\<close>

record job_record =
  jr_id :: string
  jr_name :: string
  jr_description :: "string option"
  jr_tags_json :: string
  jr_enabled :: bool
  jr_removed_at :: "int option"
  jr_current_revision :: int
  jr_definition_json :: string
  jr_cursor :: int
  jr_updated_at :: int
  jr_cursor_updated_at :: int
  jr_disabled_since :: "int option"

definition map_job :: "job_row \<Rightarrow> revision_row \<Rightarrow> cursor_row \<Rightarrow> job_record" where
  "map_job j v c =
     \<lparr>jr_id = job_id j, jr_name = job_name j, jr_description = job_description j,
      jr_tags_json = job_tags_json j, jr_enabled = job_enabled j, jr_removed_at = job_removed_at j,
      jr_current_revision = job_current_revision j, jr_definition_json = rev_definition_json v,
      jr_cursor = cur_cursor c, jr_updated_at = job_updated_at j,
      jr_cursor_updated_at = cur_updated_at c, jr_disabled_since = cur_disabled_since c\<rparr>"

text \<open>The join of a job with its current revision and cursor.\<close>

definition current_revision_of :: "store \<Rightarrow> job_row \<Rightarrow> revision_row option" where
  "current_revision_of s j =
     query_row (\<lambda>v. rev_job v = job_id j \<and> rev_revision v = job_current_revision j) (job_revisions s)"

definition current_cursor_of :: "store \<Rightarrow> job_row \<Rightarrow> cursor_row option" where
  "current_cursor_of s j =
     query_row (\<lambda>c. cur_job c = job_id j \<and> cur_revision c = job_current_revision j) (cursors s)"

definition joined_job :: "store \<Rightarrow> job_row \<Rightarrow> job_record option" where
  "joined_job s j =
     (case (current_revision_of s j, current_cursor_of s j) of
        (Some v, Some c) \<Rightarrow> Some (map_job j v c)
      | _ \<Rightarrow> None)"

definition names_job :: "string \<Rightarrow> job_row \<Rightarrow> bool" where
  "names_job reference j \<longleftrightarrow> (job_id j = reference \<or> job_name j = reference) \<and> job_removed_at j = None"

definition read_job :: "store \<Rightarrow> string \<Rightarrow> job_record store_result" where
  "read_job s reference =
     ok_or (StoreNotFound reference)
       (case List.map_filter (joined_job s) (filter (names_job reference) (jobs s)) of
          [] \<Rightarrow> None
        | r # _ \<Rightarrow> Some r)"

definition read_run :: "store \<Rightarrow> string \<Rightarrow> run_row store_result" where
  "read_run s rid = ok_or (StoreNotFound rid) (query_row (\<lambda>r. run_id r = rid) (runs s))"


section \<open>Queueing\<close>

text \<open>The state, reason and replacement flag that a new run gets from the overlap policy.\<close>

datatype overlap_outcome = Enqueue | Replace | SkipRun run_state string

definition overlap_decision ::
    "snapshot_policy \<Rightarrow> bool \<Rightarrow> bool \<Rightarrow> int \<Rightarrow> overlap_outcome" where
  "overlap_decision policy is_quarantined exempt active_count =
     (if is_quarantined then
        (if snap_overlap policy = ''replace''
         then SkipRun Failed ''replacement failed: predecessor termination unconfirmed''
         else SkipRun SkippedOverlap ''predecessor termination unconfirmed'')
      else if \<not> exempt \<and> active_count > 0 then
        (if snap_overlap policy = ''skip''
         then SkipRun SkippedOverlap ''active same-job work exists''
         else if snap_overlap policy = ''allow'' \<and> active_count \<ge> snap_per_job_concurrency policy
         then SkipRun SkippedConcurrency ''per-job concurrency limit reached''
         else if snap_overlap policy = ''replace'' then Replace
         else Enqueue)
      else Enqueue)"

definition active_runs :: "store \<Rightarrow> string \<Rightarrow> int" where
  "active_runs s job = int (count_where (\<lambda>r. run_job r = job \<and> active_state (run_st r)) (runs s))"

definition job_quarantined :: "store \<Rightarrow> string \<Rightarrow> bool" where
  "job_quarantined s job \<longleftrightarrow> (\<exists>r \<in> set (runs s). run_job r = job \<and> quarantined r)"

definition outcome_state :: "overlap_outcome \<Rightarrow> run_state" where
  "outcome_state out = (case out of SkipRun st _ \<Rightarrow> st | _ \<Rightarrow> Queued)"

definition outcome_reason :: "overlap_outcome \<Rightarrow> string option" where
  "outcome_reason out = (case out of SkipRun _ why \<Rightarrow> Some why | _ \<Rightarrow> None)"

definition outcome_finished :: "int \<Rightarrow> overlap_outcome \<Rightarrow> int option" where
  "outcome_finished now out =
     (if outcome_state out \<in> {SkippedOverlap, SkippedConcurrency, Failed} then Some now else None)"

text \<open>Supersession before the insert, where the outcome asks for it.\<close>

definition make_room :: "string \<Rightarrow> int \<Rightarrow> string \<Rightarrow> overlap_outcome \<Rightarrow> store \<Rightarrow> store" where
  "make_room job now successor outcome s =
     (if outcome = Replace then supersede_for_replacement job now (Some successor) s else s)"

definition manual_row :: "string \<Rightarrow> int \<Rightarrow> job_record \<Rightarrow> int \<Rightarrow> overlap_outcome \<Rightarrow> run_row" where
  "manual_row rid now job sequence outcome =
     \<lparr>run_id = rid, run_job = jr_id job, run_revision = jr_current_revision job,
      run_trig = TriggerManual, run_nominal = None, run_requested_at = now,
      run_eligible_at = now, run_sequence = sequence,
      run_snapshot_json = jr_definition_json job,
      run_st = outcome_state outcome, run_reason = outcome_reason outcome,
      run_replacement_candidate = (outcome = Replace),
      run_cancellation_requested_at = None, run_cancellation_reason = None,
      run_finished_at = outcome_finished now outcome\<rparr>"

definition enqueue_manual_prepare ::
    "codecs \<Rightarrow> string \<Rightarrow> store \<Rightarrow> (job_record \<times> snapshot_policy) store_result" where
  "enqueue_manual_prepare D reference s =
     and_then (read_job s reference) (\<lambda>job.
     and_then (snapshot_admission_policy D (jr_definition_json job)) (\<lambda>policy. Inr (job, policy)))"

definition enqueue_manual_tx ::
    "string \<Rightarrow> string \<Rightarrow> int \<Rightarrow> job_record \<times> snapshot_policy \<Rightarrow> store \<Rightarrow> store store_result" where
  "enqueue_manual_tx reference rid now prepared s =
     (case prepared of (job, policy) \<Rightarrow>
        case Option.bind (query_row (\<lambda>j. job_id j = jr_id job) (jobs s))
               (\<lambda>j. map_option (\<lambda>v. (j, v)) (current_revision_of s j)) of
          None \<Rightarrow> Inl (StoreNotFound reference)
        | Some (j, v) \<Rightarrow>
            if job_removed_at j \<noteq> None then Inl (StoreNotFound reference)
            else if job_current_revision j \<noteq> jr_current_revision job
                    \<or> rev_definition_json v \<noteq> jr_definition_json job
            then Inl (StoreConflict ''job revision changed before manual enqueue'')
            else
              let (sequence, s1) = next_queue_sequence s;
                  outcome = overlap_decision policy (job_quarantined s1 (jr_id job)) False
                              (active_runs s1 (jr_id job));
                  s2 = make_room (jr_id job) now rid outcome s1;
                  row = manual_row rid now job sequence outcome
              in if run_constraints s2 row \<and> run_references s2 row
                 then Inr (push_event now ''manual_enqueued'' (Some (jr_id job)) (Some rid) (JObject [])
                             (insert_run row s2))
                 else Inl (StoreSqlite ''constraint failed''))"

text \<open>The record is read after the commit: its error leaves the database changed.\<close>

definition enqueue_manual ::
    "codecs \<Rightarrow> string \<Rightarrow> string \<Rightarrow> int \<Rightarrow> store \<Rightarrow> (store \<times> run_row store_result) store_result" where
  "enqueue_manual D reference rid now s =
     and_then (validate_uuid D rid) (\<lambda>_.
     and_then (enqueue_manual_prepare D reference s) (\<lambda>prepared.
     and_then (enqueue_manual_tx reference rid now prepared s) (\<lambda>s'.
       Inr (s', read_run s' rid))))"


section \<open>Materializing scheduled runs\<close>

record new_scheduled_run =
  ns_id :: string
  ns_job :: string
  ns_revision :: int
  ns_trigger :: run_trigger
  ns_nominal :: int
  ns_requested_at :: int
  ns_eligible_at :: int
  ns_snapshot_json :: string

record cursor_update =
  cu_expected_revision :: int
  cu_expected_cursor :: int
  cu_new_cursor :: int
  cu_resolve_one_time :: bool

record reconciliation_summary =
  rs_kind :: string
  rs_count :: nat
  rs_first_nominal :: int
  rs_last_nominal :: int

record materialized_run =
  mat_inserted :: nat
  mat_duplicates :: nat

definition materialize_prepare ::
    "codecs \<Rightarrow> string \<Rightarrow> cursor_update \<Rightarrow> new_scheduled_run list \<Rightarrow> reconciliation_summary list
     \<Rightarrow> (snapshot_policy list \<times> json list) store_result" where
  "materialize_prepare D job cursor new_runs summaries =
     and_then (collect (\<lambda>n.
         if ns_job n \<noteq> job \<or> ns_revision n \<noteq> cu_expected_revision cursor
         then Inl (StoreConflict ''scheduled run does not match reconciled job revision'')
         else snapshot_admission_policy D (ns_snapshot_json n)) new_runs) (\<lambda>policies.
     and_then (collect (\<lambda>m.
         if rs_count m = 0 \<or> rs_first_nominal m > rs_last_nominal m
         then Inl (StoreConflict ''invalid reconciliation summary range'')
         else Inr (JObject [(''count'', JInt (int (rs_count m))),
                            (''first_nominal_us'', JInt (rs_first_nominal m)),
                            (''last_nominal_us'', JInt (rs_last_nominal m))])) summaries) (\<lambda>details.
       Inr (policies, details)))"

definition scheduled_row :: "new_scheduled_run \<Rightarrow> int \<Rightarrow> int \<Rightarrow> overlap_outcome \<Rightarrow> run_row" where
  "scheduled_row n now sequence outcome =
     \<lparr>run_id = ns_id n, run_job = ns_job n, run_revision = ns_revision n,
      run_trig = ns_trigger n, run_nominal = Some (ns_nominal n),
      run_requested_at = ns_requested_at n, run_eligible_at = ns_eligible_at n,
      run_sequence = sequence, run_snapshot_json = ns_snapshot_json n,
      run_st = outcome_state outcome, run_reason = outcome_reason outcome,
      run_replacement_candidate = (outcome = Replace),
      run_cancellation_requested_at = None, run_cancellation_reason = None,
      run_finished_at = outcome_finished now outcome\<rparr>"

text \<open>
  One iteration of the insertion loop. \<open>INSERT OR IGNORE\<close> skips a row that violates a
  constraint, but not one whose foreign keys are dangling.
\<close>

definition materialize_one ::
    "int \<Rightarrow> new_scheduled_run \<times> snapshot_policy \<Rightarrow> store \<times> materialized_run
     \<Rightarrow> (store \<times> materialized_run) store_result" where
  "materialize_one now item acc =
     (case (item, acc) of ((n, policy), (s, result)) \<Rightarrow>
        let (sequence, s1) = next_queue_sequence s;
            outcome = overlap_decision policy (job_quarantined s1 (ns_job n))
                        (ns_trigger n = TriggerCatchUp) (active_runs s1 (ns_job n));
            s2 = make_room (ns_job n) now (ns_id n) outcome s1;
            row = scheduled_row n now sequence outcome
        in if run_constraints s2 row
           then (if run_references s2 row
                 then Inr (insert_run row s2, result\<lparr>mat_inserted := mat_inserted result + 1\<rparr>)
                 else Inl (StoreSqlite ''constraint failed''))
           else Inr (s2, result\<lparr>mat_duplicates := mat_duplicates result + 1\<rparr>))"

fun materialize_all ::
    "int \<Rightarrow> (new_scheduled_run \<times> snapshot_policy) list \<Rightarrow> store \<times> materialized_run
     \<Rightarrow> (store \<times> materialized_run) store_result" where
  "materialize_all now [] acc = Inr acc"
| "materialize_all now (item # items) acc =
     and_then (materialize_one now item acc) (materialize_all now items)"

definition cursor_matches :: "store \<Rightarrow> string \<Rightarrow> cursor_update \<Rightarrow> cursor_row \<Rightarrow> bool" where
  "cursor_matches s job cursor c \<longleftrightarrow>
     cur_job c = job \<and> cur_revision c = cu_expected_revision cursor
     \<and> map_option job_current_revision (query_row (\<lambda>j. job_id j = job \<and> job_removed_at j = None) (jobs s))
         = Some (cur_revision c)
     \<and> cur_cursor c = cu_expected_cursor cursor"

definition advance_cursor :: "string \<Rightarrow> cursor_update \<Rightarrow> int \<Rightarrow> store \<Rightarrow> store" where
  "advance_cursor job cursor now s =
     s\<lparr>cursors := update_where (cursor_matches s job cursor)
         (\<lambda>c. c\<lparr>cur_cursor := cu_new_cursor cursor,
                cur_one_time_resolved := (cu_resolve_one_time cursor \<or> cur_one_time_resolved c),
                cur_updated_at := now, cur_disabled_since := None\<rparr>) (cursors s)\<rparr>"

definition resolve_one_time :: "string \<Rightarrow> int \<Rightarrow> store \<Rightarrow> store" where
  "resolve_one_time job now s =
     push_event now ''one_time_resolved'' (Some job) None (JObject [])
       (s\<lparr>jobs := update_where (\<lambda>j. job_id j = job)
            (\<lambda>j. j\<lparr>job_enabled := False, job_updated_at := now\<rparr>) (jobs s)\<rparr>)"

definition materialize_tx ::
    "string \<Rightarrow> cursor_update \<Rightarrow> new_scheduled_run list \<Rightarrow> reconciliation_summary list \<Rightarrow> int
     \<Rightarrow> snapshot_policy list \<times> json list \<Rightarrow> store \<Rightarrow> (store \<times> materialized_run) store_result" where
  "materialize_tx job cursor new_runs summaries now prepared s =
     (case prepared of (policies, details) \<Rightarrow>
        if count_where (cursor_matches s job cursor) (cursors s) \<noteq> 1
        then Inl (StoreConflict ''schedule cursor changed'')
        else
          let s1 = advance_cursor job cursor now s;
              s2 = (if cu_resolve_one_time cursor then resolve_one_time job now s1 else s1)
          in and_then (materialize_all now (zip new_runs policies)
                        (s2, \<lparr>mat_inserted = 0, mat_duplicates = 0\<rparr>)) (\<lambda>(s3, result).
               Inr (fold (\<lambda>(m, d). push_event now (rs_kind m) (Some job) None d) (zip summaries details) s3,
                    result)))"

definition materialize_with_summaries ::
    "codecs \<Rightarrow> string \<Rightarrow> cursor_update \<Rightarrow> new_scheduled_run list \<Rightarrow> reconciliation_summary list \<Rightarrow> int
     \<Rightarrow> store \<Rightarrow> (store \<times> materialized_run) store_result" where
  "materialize_with_summaries D job cursor new_runs summaries now s =
     and_then (materialize_prepare D job cursor new_runs summaries) (\<lambda>prepared.
       materialize_tx job cursor new_runs summaries now prepared s)"


section \<open>Cancellation\<close>

datatype cancel_outcome = CancelledBeforeExecution | CancellationRequested | AcknowledgedUnconfirmed

definition cancel_decision ::
    "string \<Rightarrow> run_state \<Rightarrow> string option \<Rightarrow> bool \<Rightarrow> cancel_outcome store_result" where
  "cancel_decision rid state reason acknowledge_unconfirmed =
     (let is_quarantined = (state = Running \<and> reason = Some ''termination_unconfirmed'')
      in if acknowledge_unconfirmed then
           (if \<not> is_quarantined
            then Inl (StoreConflict (''run '' @ rid @ '' is not an active termination-unconfirmed quarantine''))
            else Inr AcknowledgedUnconfirmed)
         else if is_quarantined
         then Inl (StoreConflict (''run '' @ rid @ '' termination is unconfirmed; repeat cancel with --acknowledge-unconfirmed to accept the risk and release the quarantine''))
         else if state \<in> {Queued, RetryWait} then Inr CancelledBeforeExecution
         else if state \<in> {Starting, Running} then Inr CancellationRequested
         else Inl (StoreConflict (''run '' @ rid @ '' is already terminal ('' @ run_state_name state @ '')'')))"

record cancellation_preview =
  preview_state :: run_state
  preview_outcome :: cancel_outcome
  preview_already_requested :: bool

definition preview_cancellation ::
    "store \<Rightarrow> string \<Rightarrow> bool \<Rightarrow> cancellation_preview store_result" where
  "preview_cancellation s rid acknowledge_unconfirmed =
     (case query_row (\<lambda>r. run_id r = rid) (runs s) of
        None \<Rightarrow> Inl (StoreNotFound rid)
      | Some r \<Rightarrow>
          and_then (cancel_decision rid (run_st r) (run_reason r) acknowledge_unconfirmed) (\<lambda>outcome.
            Inr \<lparr>preview_state = run_st r, preview_outcome = outcome,
                 preview_already_requested = (run_cancellation_requested_at r \<noteq> None)\<rparr>))"

definition cancel_with_acknowledgement ::
    "codecs \<Rightarrow> string \<Rightarrow> int \<Rightarrow> bool \<Rightarrow> store \<Rightarrow> (store \<times> cancel_outcome) store_result" where
  "cancel_with_acknowledgement D rid now acknowledge_unconfirmed s =
     (case query_row (\<lambda>r. run_id r = rid) (runs s) of
        None \<Rightarrow> Inl (StoreNotFound rid)
      | Some r \<Rightarrow>
          and_then (cancel_decision rid (run_st r) (run_reason r) acknowledge_unconfirmed) (\<lambda>outcome.
            case outcome of
              AcknowledgedUnconfirmed \<Rightarrow>
                (if count_where (\<lambda>x. run_id x = rid \<and> quarantined x) (runs s) \<noteq> 1
                 then Inl (StoreConflict (''run '' @ rid @ '' quarantine changed before acknowledgement''))
                 else Inr (soft_remove_after_one_time_completion D rid now
                   (push_event now ''termination_unconfirmed_acknowledged'' (Some (run_job r)) (Some rid)
                      (JObject [(''source'', JString ''user''), (''risk'', JString ''process_liveness_unconfirmed'')])
                      (delete_intents rid
                        (update_runs (\<lambda>x. run_id x = rid \<and> quarantined x)
                           (\<lambda>x. x\<lparr>run_st := InterruptedUnknown,
                                  run_reason := Some ''termination unconfirmed; risk acknowledged by operator'',
                                  run_finished_at := Some now, run_replacement_candidate := False\<rparr>) s))),
                   outcome))
            | CancelledBeforeExecution \<Rightarrow>
                Inr (soft_remove_after_one_time_completion D rid now
                   (push_event now ''run_cancelled'' (Some (run_job r)) (Some rid)
                      (JObject [(''source'', JString ''user''), (''before_execution'', JBool True)])
                      (delete_intents rid
                        (update_runs (\<lambda>x. run_id x = rid)
                           (\<lambda>x. x\<lparr>run_st := Cancelled,
                                  run_reason := Some ''cancelled by user before execution'',
                                  run_finished_at := Some now,
                                  run_cancellation_requested_at := Some now,
                                  run_cancellation_reason := Some ''user'',
                                  run_replacement_candidate := False\<rparr>) s))), outcome)
            | CancellationRequested \<Rightarrow>
                Inr (if run_cancellation_requested_at r = None
                     then push_event now ''cancellation_requested'' (Some (run_job r)) (Some rid)
                            (JObject [(''source'', JString ''user'')])
                            (update_runs (\<lambda>x. run_id x = rid)
                               (\<lambda>x. x\<lparr>run_cancellation_requested_at := Some now,
                                      run_cancellation_reason := Some ''user''\<rparr>) s)
                     else s, outcome)))"

definition cancel :: "codecs \<Rightarrow> string \<Rightarrow> int \<Rightarrow> store \<Rightarrow> (store \<times> cancel_outcome) store_result" where
  "cancel D rid now s = cancel_with_acknowledgement D rid now False s"

definition cancellation_requested :: "store \<Rightarrow> string \<Rightarrow> bool" where
  "cancellation_requested s rid \<longleftrightarrow>
     (case query_row (\<lambda>r. run_id r = rid) (runs s) of
        None \<Rightarrow> False
      | Some r \<Rightarrow> run_cancellation_requested_at r \<noteq> None)"


section \<open>Scheduler lifetimes\<close>

definition stale_run :: "run_row \<Rightarrow> bool" where
  "stale_run r \<longleftrightarrow> executing (run_st r) \<and> run_reason r \<noteq> Some ''termination_unconfirmed''"

definition begin_lifetime ::
    "codecs \<Rightarrow> nat \<Rightarrow> string \<Rightarrow> int \<Rightarrow> string \<Rightarrow> store \<Rightarrow> (store \<times> nat) store_result" where
  "begin_lifetime D pid lid now binary_version s =
     (let stale_run_ids = map run_id (filter stale_run (runs s));
          interrupted = att_run ` set (filter active_attempt (attempts s));
          s1 = s\<lparr>retry_intents := filter (\<lambda>i. intent_run i \<notin> interrupted) (retry_intents s)\<rparr>;
          stale = count_where active_attempt (attempts s1);
          s2 = update_attempts active_attempt
                 (\<lambda>a. a\<lparr>att_st := AttInterruptedUnknown, att_finished_at := Some now,
                        att_error_message := Some ''scheduler lifetime ended without a durable result''\<rparr>) s1;
          s3 = update_runs stale_run
                 (\<lambda>r. r\<lparr>run_st := InterruptedUnknown, run_finished_at := Some now,
                        run_reason := Some ''scheduler lifetime ended without a durable result''\<rparr>) s2;
          s4 = fold (\<lambda>rid. soft_remove_after_one_time_completion D rid now) stale_run_ids s3;
          s5 = s4\<lparr>lifetimes := update_where (\<lambda>l. life_ended_at l = None)
                 (\<lambda>l. l\<lparr>life_ended_at := Some now, life_exit_class := Some ''stale''\<rparr>) (lifetimes s4)\<rparr>
      in if \<exists>l \<in> set (lifetimes s5). life_id l = lid
         then Inl (StoreSqlite ''constraint failed'')
         else Inr (s5\<lparr>lifetimes := lifetimes s5 @
                [\<lparr>life_id = lid, life_pid = pid, life_binary_version = binary_version,
                  life_started_at = now, life_heartbeat_at = now, life_ended_at = None,
                  life_exit_class = None\<rparr>]\<rparr>, stale))"

definition end_lifetime :: "string \<Rightarrow> int \<Rightarrow> store \<Rightarrow> store" where
  "end_lifetime lid now s =
     s\<lparr>lifetimes := update_where (\<lambda>l. life_id l = lid \<and> life_ended_at l = None)
         (\<lambda>l. l\<lparr>life_ended_at := Some now, life_heartbeat_at := now, life_exit_class := Some ''clean''\<rparr>)
         (lifetimes s)\<rparr>"


section \<open>Admission\<close>

record admit_attempt =
  ad_run :: string
  ad_job :: string
  ad_number :: int
  ad_trigger :: run_trigger
  ad_nominal :: "int option"
  ad_snapshot_json :: string

text \<open>The \<open>WHERE\<close> clause of the admission queries.\<close>

definition admissible :: "store \<Rightarrow> int \<Rightarrow> run_row \<Rightarrow> bool" where
  "admissible s now r \<longleftrightarrow>
     pending (run_st r) \<and> run_eligible_at r \<le> now \<and> run_cancellation_requested_at r = None
     \<and> \<not> (\<exists>q \<in> set (runs s). run_job q = run_job r \<and> quarantined q)
     \<and> (\<not> run_replacement_candidate r \<or>
         \<not> (\<exists>p \<in> set (runs s). run_job p = run_job r \<and> run_id p \<noteq> run_id r
               \<and> run_st p \<in> {Starting, Running, RetryWait}))
     \<and> (run_trig r \<noteq> TriggerCatchUp \<or>
         \<not> (\<exists>e \<in> set (runs s). run_job e = run_job r \<and> run_sequence e < run_sequence r
               \<and> active_state (run_st e)))"

definition eligible_runs :: "store \<Rightarrow> int \<Rightarrow> nat \<Rightarrow> run_row list" where
  "eligible_runs s now limit =
     take limit (sort_key (\<lambda>r. (run_eligible_at r, run_sequence r)) (filter (admissible s now) (runs s)))"

definition next_attempt_number :: "store \<Rightarrow> string \<Rightarrow> int" where
  "next_attempt_number s rid =
     (let numbers = map att_number (filter (\<lambda>a. att_run a = rid) (attempts s))
      in (if numbers = [] then 0 else Max (set numbers)) + 1)"

definition admission_capacity :: "store \<Rightarrow> nat \<Rightarrow> nat store_result" where
  "admission_capacity s hard_guard_available =
     (let configured = set_global_concurrency (settings s);
          active = int (count_where active_attempt (attempts s))
      in if \<not> (1 \<le> configured \<and> configured \<le> 64)
         then Inl (StoreConflict ''global_concurrency must be from 1 through 64'')
         else Inr (min hard_guard_available (nat (max 0 (configured - active)))))"

definition scan_limit :: "nat \<Rightarrow> nat" where
  "scan_limit capacity = max (capacity * 64) capacity"

type_synonym prepared_admission = "(string, string \<times> (store_error + snapshot_policy)) mapping"

definition admit_prepare ::
    "codecs \<Rightarrow> int \<Rightarrow> nat \<Rightarrow> store \<Rightarrow> prepared_admission store_result" where
  "admit_prepare D now hard_guard_available s =
     and_then (admission_capacity s hard_guard_available) (\<lambda>preliminary.
       Inr (fold (\<lambda>r m. Mapping.update (run_id r)
                   (run_snapshot_json r, snapshot_admission_policy D (run_snapshot_json r)) m)
              (eligible_runs s now (scan_limit preliminary)) Mapping.empty))"

type_synonym admission_row = "run_row \<times> int"

definition group_rows :: "admission_row list \<Rightarrow> (string, admission_row list) mapping" where
  "group_rows rows =
     fold (\<lambda>row g. Mapping.map_default (run_job (fst row)) [] (\<lambda>q. q @ [row]) g) rows Mapping.empty"

text \<open>The state of the selection loop.\<close>

record selection =
  sel_grouped :: "(string, admission_row list) mapping"
  sel_prepared :: prepared_admission
  sel_by_job :: "(string, int) mapping"
  sel_rows :: "admission_row list"

definition policy_limit :: "snapshot_policy \<Rightarrow> int" where
  "policy_limit policy =
     (if snap_overlap policy = ''allow'' then max (snap_per_job_concurrency policy) 1 else 1)"

definition job_count :: "(string, int) mapping \<Rightarrow> string \<Rightarrow> int" where
  "job_count m job = (case Mapping.lookup m job of None \<Rightarrow> 0 | Some n \<Rightarrow> n)"

text \<open>One pass over the jobs; it breaks when the capacity is reached.\<close>

fun select_pass ::
    "nat \<Rightarrow> (string, int) mapping \<Rightarrow> string list \<Rightarrow> selection \<Rightarrow> bool \<Rightarrow> (selection \<times> bool) store_result" where
  "select_pass capacity active_by_job [] sel progressed = Inr (sel, progressed)"
| "select_pass capacity active_by_job (job # job_list) sel progressed =
     (case Mapping.lookup (sel_grouped sel) job of
        Some (row # queue) \<Rightarrow>
          (let sel1 = sel\<lparr>sel_grouped := Mapping.update job queue (sel_grouped sel)\<rparr>
           in case Mapping.lookup (sel_prepared sel1) (run_id (fst row)) of
                None \<Rightarrow> select_pass capacity active_by_job job_list sel1 True
              | Some (snapshot, policy) \<Rightarrow>
                  (let sel2 = sel1\<lparr>sel_prepared := Mapping.delete (run_id (fst row)) (sel_prepared sel1)\<rparr>
                   in if snapshot \<noteq> run_snapshot_json (fst row)
                      then select_pass capacity active_by_job job_list sel2 True
                      else and_then policy (\<lambda>policy.
                        if job_count active_by_job job + job_count (sel_by_job sel2) job < policy_limit policy
                        then
                          (let sel3 = sel2\<lparr>sel_rows := sel_rows sel2 @ [row],
                                           sel_by_job := Mapping.update job
                                             (job_count (sel_by_job sel2) job + 1) (sel_by_job sel2)\<rparr>
                           in if length (sel_rows sel3) = capacity then Inr (sel3, True)
                              else select_pass capacity active_by_job job_list sel3 True)
                        else select_pass capacity active_by_job job_list sel2 True)))
      | _ \<Rightarrow> select_pass capacity active_by_job job_list sel progressed)"

text \<open>
  The outer loop with fuel: every pass that makes progress takes a row from a queue, so one
  pass more than the number of rows is enough.
\<close>

fun select_loop ::
    "nat \<Rightarrow> nat \<Rightarrow> (string, int) mapping \<Rightarrow> string list \<Rightarrow> selection \<Rightarrow> selection store_result" where
  "select_loop 0 capacity active_by_job job_list sel = Inr sel"
| "select_loop (Suc fuel) capacity active_by_job job_list sel =
     (if length (sel_rows sel) < capacity
      then and_then (select_pass capacity active_by_job job_list sel False) (\<lambda>(sel', progressed).
             if progressed then select_loop fuel capacity active_by_job job_list sel' else Inr sel')
      else Inr sel)"

definition active_by_job :: "store \<Rightarrow> (string, int) mapping" where
  "active_by_job s =
     fold (\<lambda>r m. if executing (run_st r)
                 then Mapping.update (run_job r) (job_count m (run_job r) + 1) m else m)
       (runs s) Mapping.empty"

definition partial_path :: "string \<Rightarrow> int \<Rightarrow> string" where
  "partial_path rid n = rid @ ''/'' @ show_int n @ ''.partial''"

definition pending_artifact :: "string \<Rightarrow> int \<Rightarrow> artifact_row" where
  "pending_artifact rid n =
     \<lparr>art_run = rid, art_attempt = n, art_path = partial_path rid n, art_st = ArtPending,
      art_retained = 0, art_physical = 0, art_discarded = 0, art_truncated = False,
      art_truncated_at = None, art_finalized_at = None, art_prune_started_at = None,
      art_pruned_at = None\<rparr>"

definition starting_attempt :: "string \<Rightarrow> int \<Rightarrow> string \<Rightarrow> int \<Rightarrow> attempt_row" where
  "starting_attempt rid n lid now =
     \<lparr>att_run = rid, att_number = n, att_lifetime = lid, att_st = AttStarting, att_started_at = now,
      att_running_at = None, att_finished_at = None, att_duration = None,
      att_resolved_executable = None, att_exit_code = None, att_http_status = None,
      att_http_content_type = None, att_result_class = None, att_error_message = None\<rparr>"

text \<open>One selected row: the constraints are those of the three inserts and updates.\<close>

definition admit_row :: "string \<Rightarrow> int \<Rightarrow> admission_row \<Rightarrow> store \<Rightarrow> store store_result" where
  "admit_row lid now row s =
     (case row of (r, n) \<Rightarrow>
        let s1 = update_runs (\<lambda>x. run_id x = run_id r \<and> pending (run_st x)) (\<lambda>x. x\<lparr>run_st := Starting\<rparr>) s
        in if n \<le> 0 \<or> (\<exists>a \<in> set (attempts s1). att_run a = run_id r \<and> att_number a = n)
              \<or> \<not> (\<exists>l \<in> set (lifetimes s1). life_id l = lid)
              \<or> (\<exists>o' \<in> set (artifacts s1). art_path o' = partial_path (run_id r) n
                    \<or> art_run o' = run_id r \<and> art_attempt o' = n)
           then Inl (StoreSqlite ''constraint failed'')
           else Inr (s1\<lparr>attempts := attempts s1 @ [starting_attempt (run_id r) n lid now],
                        artifacts := artifacts s1 @ [pending_artifact (run_id r) n],
                        last_admitted_job := Some (run_job r)\<rparr>))"

fun admit_rows :: "string \<Rightarrow> int \<Rightarrow> admission_row list \<Rightarrow> store \<Rightarrow> store store_result" where
  "admit_rows lid now [] s = Inr s"
| "admit_rows lid now (row # rows) s = and_then (admit_row lid now row s) (admit_rows lid now rows)"

definition admitted :: "admission_row \<Rightarrow> admit_attempt" where
  "admitted row =
     (case row of (r, n) \<Rightarrow>
        \<lparr>ad_run = run_id r, ad_job = run_job r, ad_number = n, ad_trigger = run_trig r,
         ad_nominal = run_nominal r, ad_snapshot_json = run_snapshot_json r\<rparr>)"

definition admit_select :: "int \<Rightarrow> nat \<Rightarrow> prepared_admission \<Rightarrow> store \<Rightarrow> admission_row list store_result" where
  "admit_select now capacity prepared s =
     (let rows = map (\<lambda>r. (r, next_attempt_number s (run_id r)))
                   (eligible_runs s now (scan_limit capacity));
          grouped = group_rows rows;
          job_list = rotated_jobs (last_admitted_job s) (Mapping.ordered_keys grouped)
      in and_then (select_loop (Suc (length rows)) capacity (active_by_job s) job_list
             \<lparr>sel_grouped = grouped, sel_prepared = prepared, sel_by_job = Mapping.empty, sel_rows = []\<rparr>)
           (\<lambda>sel. Inr (sel_rows sel)))"

definition admit_tx ::
    "string \<Rightarrow> int \<Rightarrow> nat \<Rightarrow> prepared_admission \<Rightarrow> store \<Rightarrow> (store \<times> admit_attempt list) store_result" where
  "admit_tx lid now hard_guard_available prepared s =
     and_then (admission_capacity s hard_guard_available) (\<lambda>capacity.
       if capacity = 0 then Inr (s, [])
       else and_then (admit_select now capacity prepared s) (\<lambda>rows.
              and_then (admit_rows lid now rows s) (\<lambda>s'. Inr (s', map admitted rows))))"

definition admit ::
    "codecs \<Rightarrow> string \<Rightarrow> int \<Rightarrow> nat \<Rightarrow> store \<Rightarrow> (store \<times> admit_attempt list) store_result" where
  "admit D lid now hard_guard_available s =
     (if hard_guard_available = 0 then Inr (s, [])
      else and_then (admit_prepare D now hard_guard_available s) (\<lambda>prepared.
             admit_tx lid now hard_guard_available prepared s))"

definition earliest_pending_eligible_at :: "store \<Rightarrow> int option" where
  "earliest_pending_eligible_at s =
     (let ts = map run_eligible_at (filter (\<lambda>r. pending (run_st r)) (runs s))
      in if ts = [] then None else Some (Min (set ts)))"


section \<open>Starting an attempt\<close>

datatype start_decision = Ready | CancelledBeforeSpawn

definition this_attempt :: "string \<Rightarrow> int \<Rightarrow> attempt_row \<Rightarrow> bool" where
  "this_attempt rid n a \<longleftrightarrow> att_run a = rid \<and> att_number a = n"

definition this_artifact :: "string \<Rightarrow> int \<Rightarrow> artifact_row \<Rightarrow> bool" where
  "this_artifact rid n o' \<longleftrightarrow> art_run o' = rid \<and> art_attempt o' = n"

definition cancel_before_spawn ::
    "codecs \<Rightarrow> string \<Rightarrow> int \<Rightarrow> int \<Rightarrow> string \<Rightarrow> string \<Rightarrow> store \<Rightarrow> (store \<times> start_decision) store_result" where
  "cancel_before_spawn D rid n now source job s =
     (let reason = (if source = ''replacement'' then ''replacement requested before spawn''
                    else ''cancelled by user before spawn'');
          active = (\<lambda>a. this_attempt rid n a \<and> active_attempt a)
      in if count_where active (attempts s) \<noteq> 1
         then Inl (StoreConflict ''admitted attempt is no longer starting'')
         else Inr (soft_remove_after_one_time_completion D rid now
           (push_event now ''cancelled_before_spawn'' (Some job) (Some rid)
              (JObject [(''source'', JString source)])
              (delete_intents rid
                (update_runs (\<lambda>r. run_id r = rid \<and> executing (run_st r))
                   (\<lambda>r. r\<lparr>run_st := Cancelled, run_reason := Some reason, run_finished_at := Some now,
                          run_replacement_candidate := False\<rparr>)
                   (update_artifacts (\<lambda>o'. this_artifact rid n o' \<and> art_st o' = ArtPending)
                      (\<lambda>o'. o'\<lparr>art_st := ArtMissing, art_finalized_at := Some now\<rparr>)
                      (update_attempts active
                         (\<lambda>a. a\<lparr>att_st := AttCancelled, att_finished_at := Some now,
                                att_duration := Some 0, att_result_class := Some ''cancelled'',
                                att_error_message := Some reason\<rparr>) s))))),
           CancelledBeforeSpawn))"

definition mark_attempt_running_inner ::
    "codecs \<Rightarrow> string \<Rightarrow> int \<Rightarrow> int \<Rightarrow> string option \<Rightarrow> store \<Rightarrow> (store \<times> start_decision) store_result" where
  "mark_attempt_running_inner D rid n now resolved_executable s =
     (case query_row (\<lambda>r. run_id r = rid) (runs s) of
        None \<Rightarrow> Inl (StoreNotFound rid)
      | Some r \<Rightarrow>
          if \<not> executing (run_st r)
          then Inl (StoreConflict ''admitted run is no longer at the pre-spawn boundary'')
          else
            case run_cancellation_reason r of
              Some source \<Rightarrow> cancel_before_spawn D rid n now source (run_job r) s
            | None \<Rightarrow>
                if run_st r = Running then
                  (if map_option att_st (query_row (this_attempt rid n) (attempts s)) \<noteq> Some AttRunning
                   then Inl (StoreConflict ''running run does not match the admitted attempt'')
                   else Inr (s, Ready))
                else
                  let waiting = (\<lambda>a. this_attempt rid n a \<and> att_st a = AttStarting);
                      started = (\<lambda>x. run_id x = rid \<and> run_st x = Starting)
                  in if count_where waiting (attempts s) \<noteq> 1 \<or> count_where started (runs s) \<noteq> 1
                     then Inl (StoreConflict ''admitted attempt is no longer starting'')
                     else Inr (update_runs started (\<lambda>x. x\<lparr>run_st := Running\<rparr>)
                            (update_attempts waiting
                               (\<lambda>a. a\<lparr>att_st := AttRunning, att_running_at := Some now,
                                      att_resolved_executable := resolved_executable\<rparr>) s), Ready))"

definition mark_attempt_running ::
    "codecs \<Rightarrow> string \<Rightarrow> int \<Rightarrow> int \<Rightarrow> store \<Rightarrow> (store \<times> start_decision) store_result" where
  "mark_attempt_running D rid n now s = mark_attempt_running_inner D rid n now None s"


section \<open>Completing an attempt\<close>

record retry_plan =
  rp_not_before :: int
  rp_classification :: string

text \<open>
  The text of a completion state: the name of an attempt state, the quarantine marker, or
  anything else, which the check of the attempts table refuses.
\<close>

datatype completion_state = CompletedAs attempt_state | TerminationUnconfirmed | UnknownState string

record attempt_completion =
  comp_run :: string
  comp_number :: int
  comp_now :: int
  comp_duration :: int
  comp_state :: completion_state
  comp_exit_code :: "int option"
  comp_http_status :: "nat option"
  comp_http_content_type :: "string option"
  comp_reason :: string
  comp_retry :: "retry_plan option"

definition attempt_state_name :: "attempt_state \<Rightarrow> string" where
  "attempt_state_name st = run_state_name (run_of_attempt st)"

definition termination_completion_committed :: "store \<Rightarrow> attempt_completion \<Rightarrow> bool" where
  "termination_completion_committed s c \<longleftrightarrow>
     (case (query_row (this_attempt (comp_run c) (comp_number c)) (attempts s),
            query_row (\<lambda>r. run_id r = comp_run c) (runs s)) of
        (Some a, Some r) \<Rightarrow>
          att_st a = AttInterruptedUnknown \<and> att_finished_at a = Some (comp_now c)
          \<and> att_duration a = Some (comp_duration c) \<and> att_error_message a = Some (comp_reason c)
          \<and> run_st r = Running \<and> run_reason r = Some ''termination_unconfirmed''
      | _ \<Rightarrow> False)"

definition completion_already_committed :: "store \<Rightarrow> attempt_completion \<Rightarrow> attempt_state \<Rightarrow> bool" where
  "completion_already_committed s c st \<longleftrightarrow>
     (case (query_row (this_attempt (comp_run c) (comp_number c)) (attempts s),
            query_row (\<lambda>r. run_id r = comp_run c) (runs s)) of
        (Some a, Some r) \<Rightarrow>
          att_st a = st \<and> att_finished_at a = Some (comp_now c)
          \<and> att_duration a = Some (comp_duration c) \<and> att_exit_code a = comp_exit_code c
          \<and> att_http_status a = map_option int (comp_http_status c)
          \<and> att_http_content_type a = comp_http_content_type c
          \<and> att_error_message a = Some (comp_reason c) \<and> run_reason r = Some (comp_reason c)
          \<and> (case comp_retry c of
               Some plan \<Rightarrow>
                 run_st r = RetryWait \<and> run_eligible_at r = rp_not_before plan \<and> run_finished_at r = None
                 \<and> (\<exists>i \<in> set (retry_intents s). intent_run i = comp_run c
                      \<and> intent_prior_attempt i = comp_number c \<and> intent_not_before i = rp_not_before plan
                      \<and> intent_classification i = rp_classification plan \<and> intent_created_at i = comp_now c)
             | None \<Rightarrow>
                 \<not> (\<exists>i \<in> set (retry_intents s). intent_run i = comp_run c)
                 \<and> run_st r = run_of_attempt st \<and> run_finished_at r = Some (comp_now c))
      | _ \<Rightarrow> False)"

definition fail_replacements :: "string \<Rightarrow> int \<Rightarrow> store \<Rightarrow> store" where
  "fail_replacements job now s =
     (let candidates = run_id ` set (filter (\<lambda>r. run_job r = job \<and> run_replacement_candidate r) (runs s))
      in update_runs (\<lambda>r. run_job r = job \<and> run_replacement_candidate r \<and> pending (run_st r))
           (\<lambda>r. r\<lparr>run_st := Failed,
                  run_reason := Some ''replacement failed: predecessor termination unconfirmed'',
                  run_finished_at := Some now, run_replacement_candidate := False\<rparr>)
           (s\<lparr>retry_intents := filter (\<lambda>i. intent_run i \<notin> candidates) (retry_intents s)\<rparr>))"

definition complete_unconfirmed :: "attempt_completion \<Rightarrow> store \<Rightarrow> store store_result" where
  "complete_unconfirmed c s =
     (let active = (\<lambda>a. this_attempt (comp_run c) (comp_number c) a \<and> active_attempt a)
      in if comp_retry c \<noteq> None
         then Inl (StoreConflict ''termination-unconfirmed attempts cannot retry'')
         else if count_where active (attempts s) \<noteq> 1
         then (if termination_completion_committed s c then Inr s
               else Inl (StoreConflict ''attempt is not active for quarantine''))
         else if comp_duration c < 0 then Inl (StoreSqlite ''constraint failed'')
         else
           let s1 = delete_intents (comp_run c) (update_attempts active
                 (\<lambda>a. a\<lparr>att_st := AttInterruptedUnknown, att_finished_at := Some (comp_now c),
                        att_duration := Some (comp_duration c),
                        att_result_class := Some ''termination_unconfirmed'',
                        att_error_message := Some (comp_reason c)\<rparr>) s)
           in case query_row (\<lambda>r. run_id r = comp_run c \<and> executing (run_st r)) (runs s1) of
                None \<Rightarrow> Inl (StoreSqlite ''query returned no rows'')
              | Some r \<Rightarrow>
                  let s2 = update_runs (\<lambda>x. run_id x = comp_run c)
                        (\<lambda>x. x\<lparr>run_st := Running, run_reason := Some ''termination_unconfirmed'',
                               run_finished_at := None\<rparr>) s1;
                      s3 = (if run_cancellation_reason r = Some ''replacement''
                            then fail_replacements (run_job r) (comp_now c) s2 else s2)
                  in Inr (push_event (comp_now c) ''termination_unconfirmed'' (Some (run_job r))
                            (Some (comp_run c)) (JObject [(''detail'', JString (comp_reason c))]) s3))"

text \<open>\<open>INSERT OR REPLACE INTO retry_intents\<close>: the run is the primary key.\<close>

definition replace_intent :: "intent_row \<Rightarrow> store \<Rightarrow> store" where
  "replace_intent i s =
     s\<lparr>retry_intents := filter (\<lambda>x. intent_run x \<noteq> intent_run i) (retry_intents s) @ [i]\<rparr>"

definition complete_known ::
    "codecs \<Rightarrow> attempt_completion \<Rightarrow> attempt_state \<Rightarrow> store \<Rightarrow> store store_result" where
  "complete_known D c st s =
     (let active = (\<lambda>a. this_attempt (comp_run c) (comp_number c) a \<and> active_attempt a)
      in if comp_retry c \<noteq> None \<and> st \<notin> {AttFailed, AttTimedOut}
         then Inl (StoreConflict ''retry intent requires a known failed or timed-out attempt'')
         else if count_where active (attempts s) \<noteq> 1
         then (if completion_already_committed s c st then Inr s
               else Inl (StoreConflict ''attempt is not active for completion''))
         else if comp_duration c < 0
                 \<or> (case comp_http_status c of None \<Rightarrow> False | Some h \<Rightarrow> h < 100 \<or> 599 < h)
         then Inl (StoreSqlite ''constraint failed'')
         else
           let s1 = update_attempts active
                 (\<lambda>a. a\<lparr>att_st := st, att_finished_at := Some (comp_now c),
                        att_duration := Some (comp_duration c), att_exit_code := comp_exit_code c,
                        att_http_status := map_option int (comp_http_status c),
                        att_http_content_type := comp_http_content_type c,
                        att_result_class := Some (attempt_state_name st),
                        att_error_message := Some (comp_reason c)\<rparr>) s
           in case comp_retry c of
                Some plan \<Rightarrow>
                  Inr (replace_intent
                    \<lparr>intent_run = comp_run c, intent_prior_attempt = comp_number c,
                     intent_not_before = rp_not_before plan,
                     intent_classification = rp_classification plan, intent_created_at = comp_now c\<rparr>
                    (update_runs (\<lambda>x. run_id x = comp_run c)
                       (\<lambda>x. x\<lparr>run_st := RetryWait, run_eligible_at := rp_not_before plan,
                              run_reason := Some (comp_reason c)\<rparr>) s1))
              | None \<Rightarrow>
                  Inr (soft_remove_after_one_time_completion D (comp_run c) (comp_now c)
                    (update_runs (\<lambda>x. run_id x = comp_run c)
                       (\<lambda>x. x\<lparr>run_st := run_of_attempt st, run_reason := Some (comp_reason c),
                              run_finished_at := Some (comp_now c)\<rparr>)
                       (delete_intents (comp_run c) s1))))"

definition complete_attempt :: "codecs \<Rightarrow> attempt_completion \<Rightarrow> store \<Rightarrow> store store_result" where
  "complete_attempt D c s =
     (case comp_state c of
        TerminationUnconfirmed \<Rightarrow> complete_unconfirmed c s
      | CompletedAs st \<Rightarrow> complete_known D c st s
      | UnknownState text \<Rightarrow>
          (if comp_retry c \<noteq> None
           then Inl (StoreConflict ''retry intent requires a known failed or timed-out attempt'')
           else if count_where (\<lambda>a. this_attempt (comp_run c) (comp_number c) a \<and> active_attempt a)
                     (attempts s) \<noteq> 1
           then Inl (StoreConflict ''attempt is not active for completion'')
           else Inl (StoreSqlite ''constraint failed'')))"

record output_record =
  out_run :: string
  out_number :: int
  out_retained :: int
  out_physical :: int
  out_discarded :: int
  out_truncated :: bool

definition log_path :: "string \<Rightarrow> int \<Rightarrow> string" where
  "log_path rid n = rid @ ''/'' @ show_int n @ ''.log''"

text \<open>\<open>UPDATE output_artifacts SET relative_path=.., state='finalized', ..\<close>.\<close>

definition finalize_artifact :: "output_record \<Rightarrow> int \<Rightarrow> artifact_row \<Rightarrow> artifact_row" where
  "finalize_artifact out now o' =
     o'\<lparr>art_path := log_path (out_run out) (out_number out), art_st := ArtFinalized,
        art_retained := out_retained out, art_physical := out_physical out,
        art_discarded := out_discarded out, art_truncated := out_truncated out,
        art_truncated_at := (if out_truncated out then Some now else None),
        art_finalized_at := Some now\<rparr>"

text \<open>The checks on byte counts and the unique path that finalizing can violate.\<close>

definition finalize_constraints :: "store \<Rightarrow> output_record \<Rightarrow> bool" where
  "finalize_constraints s out \<longleftrightarrow>
     0 \<le> out_retained out \<and> 0 \<le> out_physical out \<and> 0 \<le> out_discarded out
     \<and> \<not> (\<exists>o' \<in> set (artifacts s). \<not> this_artifact (out_run out) (out_number out) o'
            \<and> art_path o' = log_path (out_run out) (out_number out))"

definition missing_artifact :: "int \<Rightarrow> artifact_row \<Rightarrow> artifact_row" where
  "missing_artifact now o' =
     o'\<lparr>art_st := ArtMissing, art_retained := 0, art_physical := 0, art_discarded := 0,
        art_truncated := False, art_truncated_at := None, art_finalized_at := Some now\<rparr>"

definition complete_pre_execution_failure ::
    "codecs \<Rightarrow> string \<Rightarrow> int \<Rightarrow> output_record option \<Rightarrow> int \<Rightarrow> string \<Rightarrow> store \<Rightarrow> store store_result" where
  "complete_pre_execution_failure D rid n output now reason s =
     (let waiting = (\<lambda>o'. this_artifact rid n o' \<and> art_st o' = ArtPending);
          active = (\<lambda>a. this_attempt rid n a \<and> active_attempt a)
      in if case output of None \<Rightarrow> False | Some out \<Rightarrow> out_run out \<noteq> rid \<or> out_number out \<noteq> n
         then Inl (StoreConflict ''output identity does not match admitted attempt'')
         else if count_where waiting (artifacts s) \<noteq> 1
         then Inl (StoreConflict ''admitted output artifact is not pending'')
         else if case output of None \<Rightarrow> False | Some out \<Rightarrow> \<not> finalize_constraints s out
         then Inl (StoreSqlite ''constraint failed'')
         else if count_where active (attempts s) \<noteq> 1
         then Inl (StoreConflict ''admitted attempt is not active'')
         else
           let s1 = update_artifacts waiting
                 (case output of
                    None \<Rightarrow> (\<lambda>o'. o'\<lparr>art_st := ArtMissing, art_finalized_at := Some now\<rparr>)
                  | Some out \<Rightarrow> finalize_artifact out now) s;
               s2 = delete_intents rid (update_attempts active
                 (\<lambda>a. a\<lparr>att_st := AttFailed, att_finished_at := Some now, att_duration := Some 0,
                        att_result_class := Some ''failed'', att_error_message := Some reason\<rparr>) s1)
           in case query_row (\<lambda>r. run_id r = rid) (runs s2) of
                None \<Rightarrow> Inl (StoreSqlite ''query returned no rows'')
              | Some r \<Rightarrow>
                  Inr (soft_remove_after_one_time_completion D rid now
                    (push_event now ''attempt_configuration_failed'' (Some (run_job r)) (Some rid)
                       (JObject [(''retryable'', JBool False)])
                       (update_runs (\<lambda>x. run_id x = rid \<and> executing (run_st x))
                          (\<lambda>x. x\<lparr>run_st := Failed, run_reason := Some reason,
                                 run_finished_at := Some now\<rparr>) s2))))"

definition runner_failure_committed ::
    "store \<Rightarrow> string \<Rightarrow> int \<Rightarrow> attempt_state \<Rightarrow> string \<Rightarrow> string \<Rightarrow> bool" where
  "runner_failure_committed s rid n st result_class reason \<longleftrightarrow>
     (\<exists>a \<in> set (attempts s). \<exists>r \<in> set (runs s). \<exists>o' \<in> set (artifacts s).
        this_attempt rid n a \<and> run_id r = rid \<and> this_artifact rid n o'
        \<and> att_st a = st \<and> att_result_class a = Some result_class \<and> att_error_message a = Some reason
        \<and> run_st r = run_of_attempt st \<and> run_reason r = Some reason \<and> art_st o' = ArtMissing)
     \<and> \<not> (\<exists>i \<in> set (retry_intents s). intent_run i = rid)"

text \<open>The three updates and the deletion of a runner failure.\<close>

definition unfinished_artifact :: "string \<Rightarrow> int \<Rightarrow> artifact_row \<Rightarrow> bool" where
  "unfinished_artifact rid n o' \<longleftrightarrow> this_artifact rid n o' \<and> art_st o' \<in> {ArtPending, ArtActive}"

definition runner_failure_changes ::
    "string \<Rightarrow> int \<Rightarrow> int \<Rightarrow> string \<Rightarrow> attempt_state \<Rightarrow> string \<Rightarrow> int \<Rightarrow> store \<Rightarrow> store" where
  "runner_failure_changes rid n now reason st result_class duration s =
     delete_intents rid
       (update_runs (\<lambda>r. run_id r = rid \<and> executing (run_st r))
          (\<lambda>r. r\<lparr>run_st := run_of_attempt st, run_reason := Some reason,
                 run_finished_at := Some now, run_replacement_candidate := False\<rparr>)
          (update_attempts (\<lambda>a. this_attempt rid n a \<and> active_attempt a)
             (\<lambda>a. a\<lparr>att_st := st, att_finished_at := Some now, att_duration := Some duration,
                    att_result_class := Some result_class, att_error_message := Some reason\<rparr>)
             (update_artifacts (unfinished_artifact rid n) (missing_artifact now) s)))"

definition runner_failure_duration :: "string \<Rightarrow> int \<Rightarrow> int \<Rightarrow> bool \<Rightarrow> store \<Rightarrow> int store_result" where
  "runner_failure_duration rid n now may_have_started s =
     (if may_have_started
      then (case query_row (this_attempt rid n) (attempts s) of
              None \<Rightarrow> Inl (StoreSqlite ''query returned no rows'')
            | Some a \<Rightarrow> Inr (max 0 (now - (case att_running_at a of None \<Rightarrow> att_started_at a | Some t \<Rightarrow> t))))
      else Inr 0)"

text \<open>The end of the transaction: \<open>s\<close> is the database before the changes, \<open>s1\<close> after them.\<close>

definition runner_failure_end ::
    "codecs \<Rightarrow> string \<Rightarrow> int \<Rightarrow> int \<Rightarrow> string \<Rightarrow> bool \<Rightarrow> attempt_state \<Rightarrow> string \<Rightarrow> store \<Rightarrow> store
     \<Rightarrow> store store_result" where
  "runner_failure_end D rid n now reason may_have_started st result_class s s1 =
     (if count_where (unfinished_artifact rid n) (artifacts s) = 1
         \<and> count_where (\<lambda>a. this_attempt rid n a \<and> active_attempt a) (attempts s) = 1
         \<and> count_where (\<lambda>r. run_id r = rid \<and> executing (run_st r)) (runs s) = 1
      then (case query_row (\<lambda>r. run_id r = rid) (runs s1) of
              None \<Rightarrow> Inl (StoreSqlite ''query returned no rows'')
            | Some r \<Rightarrow>
                Inr (soft_remove_after_one_time_completion D rid now
                  (push_event now
                     (if may_have_started then ''attempt_infrastructure_interrupted''
                      else ''attempt_output_preparation_failed'')
                     (Some (run_job r)) (Some rid)
                     (JObject [(''retryable'', JBool False),
                               (''execution_may_have_started'', JBool may_have_started)]) s1)))
      else if runner_failure_committed s1 rid n st result_class reason then Inr s1
      else Inl (StoreConflict ''runner failure is not applicable to this attempt''))"

definition complete_runner_failure ::
    "codecs \<Rightarrow> string \<Rightarrow> int \<Rightarrow> int \<Rightarrow> string \<Rightarrow> bool \<Rightarrow> store \<Rightarrow> store store_result" where
  "complete_runner_failure D rid n now reason may_have_started s =
     (let st = (if may_have_started then AttInterruptedUnknown else AttFailed);
          result_class = (if may_have_started then ''interrupted_unknown'' else ''output_preparation_failed'')
      in and_then (runner_failure_duration rid n now may_have_started s) (\<lambda>duration.
           runner_failure_end D rid n now reason may_have_started st result_class s
             (runner_failure_changes rid n now reason st result_class duration s)))"


section \<open>Output artifacts\<close>

definition reconcile_output_finalized :: "output_record \<Rightarrow> int \<Rightarrow> store \<Rightarrow> store store_result" where
  "reconcile_output_finalized out now s =
     (let mine = this_artifact (out_run out) (out_number out);
          unfinished = (\<lambda>o'. mine o' \<and> art_st o' \<in> {ArtPending, ArtActive})
      in if count_where unfinished (artifacts s) = 1
         then (if finalize_constraints s out
               then Inr (update_artifacts unfinished (finalize_artifact out now) s)
               else Inl (StoreSqlite ''constraint failed''))
         else if \<exists>o' \<in> set (artifacts s). mine o' \<and> art_st o' = ArtFinalized
                 \<and> art_path o' = log_path (out_run out) (out_number out)
                 \<and> art_retained o' = out_retained out \<and> art_physical o' = out_physical out
                 \<and> art_discarded o' = out_discarded out \<and> art_truncated o' = out_truncated out
         then Inr s
         else Inl (StoreConflict ''output artifact is not recoverable for finalization''))"

definition reconcile_output_missing :: "string \<Rightarrow> int \<Rightarrow> int \<Rightarrow> store \<Rightarrow> store store_result" where
  "reconcile_output_missing rid n now s =
     (let unfinished = (\<lambda>o'. this_artifact rid n o' \<and> art_st o' \<in> {ArtPending, ArtActive})
      in if count_where unfinished (artifacts s) = 1
         then Inr (update_artifacts unfinished (missing_artifact now) s)
         else if \<exists>o' \<in> set (artifacts s). this_artifact rid n o' \<and> art_st o' = ArtMissing
         then Inr s
         else Inl (StoreConflict ''output artifact is not recoverable as missing''))"

end
