(* ===== verification/Store_Jobs.thy ===== *)
theory Store_Jobs
  imports Store_Runs
begin

text \<open>
  The operations of \<^verbatim>\<open>crates/locron-store/src/store.rs\<close> on jobs, revisions and settings:
  creation, optimistic update, listing, import, enabling, removal, the global environment and
  the configuration keys. A write is a transaction, then a read of the result after the
  commit, whose error leaves the database changed. The flag \<open>windows\<close> is the platform of the
  build, as in \<open>Environment\<close>.
\<close>

section \<open>Creating and updating\<close>

record CreateJob =
  cj_id :: string
  cj_name :: string
  cj_description :: "string option"
  cj_tags_json :: string
  cj_enabled :: bool
  cj_definition_json :: string
  cj_now :: int
  cj_cursor :: int

record UpdateJob =
  uj_id :: string
  uj_expected_revision :: int
  uj_name :: string
  uj_description :: "string option"
  uj_tags_json :: string
  uj_enabled :: bool
  uj_definition_json :: string
  uj_now :: int
  uj_cursor :: int

definition job_id_exists :: "store \<Rightarrow> string \<Rightarrow> bool" where
  "job_id_exists s jid \<longleftrightarrow> (\<exists>j \<in> set (jobs s). job_id j = jid)"

definition live_name_exists :: "store \<Rightarrow> string \<Rightarrow> bool" where
  "live_name_exists s name \<longleftrightarrow> (\<exists>j \<in> set (jobs s). job_name j = name \<and> job_removed_at j = None)"

definition other_live_name :: "store \<Rightarrow> string \<Rightarrow> string \<Rightarrow> bool" where
  "other_live_name s name jid \<longleftrightarrow>
     (\<exists>j \<in> set (jobs s). job_name j = name \<and> job_id j \<noteq> jid \<and> job_removed_at j = None)"

text \<open>The keys of the revision and cursor tables.\<close>

definition revision_exists :: "store \<Rightarrow> string \<Rightarrow> int \<Rightarrow> bool" where
  "revision_exists s jid revision \<longleftrightarrow>
     (\<exists>v \<in> set (job_revisions s). rev_job v = jid \<and> rev_revision v = revision)
     \<or> (\<exists>c \<in> set (cursors s). cur_job c = jid \<and> cur_revision c = revision)"

definition add_revision ::
    "string \<Rightarrow> int \<Rightarrow> string \<Rightarrow> int \<Rightarrow> string \<Rightarrow> int \<Rightarrow> bool \<Rightarrow> store \<Rightarrow> store store_result" where
  "add_revision jid revision definition_json now created_by cursor enabled s =
     (if revision_exists s jid revision \<or> revision \<le> 0 \<or> \<not> job_id_exists s jid
      then Inl (StoreSqlite ''constraint failed'')
      else Inr (s\<lparr>job_revisions := job_revisions s @
                    [\<lparr>rev_job = jid, rev_revision = revision, rev_definition_json = definition_json,
                      rev_created_at = now, rev_created_by = created_by\<rparr>],
                  cursors := cursors s @
                    [\<lparr>cur_job = jid, cur_revision = revision, cur_cursor = cursor,
                      cur_one_time_resolved = False, cur_updated_at = now,
                      cur_disabled_since = (if enabled then None else Some now)\<rparr>]\<rparr>))"

definition new_job_row :: "CreateJob \<Rightarrow> int \<Rightarrow> job_row" where
  "new_job_row job now =
     \<lparr>job_id = cj_id job, job_name = cj_name job, job_description = cj_description job,
      job_tags_json = cj_tags_json job, job_enabled = cj_enabled job, job_created_at = now,
      job_updated_at = now, job_removed_at = None, job_current_revision = 1\<rparr>"

text \<open>The insert of a job fails on a known identity or on the index of live names.\<close>

definition insert_job :: "CreateJob \<Rightarrow> int \<Rightarrow> string \<Rightarrow> store \<Rightarrow> store store_result" where
  "insert_job job now created_by s =
     (if job_id_exists s (cj_id job) \<or> live_name_exists s (cj_name job)
      then Inl (StoreSqlite ''constraint failed'')
      else add_revision (cj_id job) 1 (cj_definition_json job) now created_by (cj_cursor job) (cj_enabled job)
             (s\<lparr>jobs := jobs s @ [new_job_row job now]\<rparr>))"

definition create_job_tx :: "CreateJob \<Rightarrow> store \<Rightarrow> store store_result" where
  "create_job_tx job s =
     (if job_id_exists s (cj_id job) \<or> live_name_exists s (cj_name job)
      then Inl (StoreConflict (''job identity or live name already exists: '' @ cj_name job))
      else and_then (insert_job job (cj_now job) ''add'' s) (\<lambda>s'.
             Inr (push_event (cj_now job) ''job_added'' (Some (cj_id job)) None (JObject []) s')))"

definition create_job ::
    "codecs \<Rightarrow> CreateJob \<Rightarrow> store \<Rightarrow> (store \<times> job_record store_result) store_result" where
  "create_job D job s =
     and_then (validate_uuid D (cj_id job)) (\<lambda>_.
     and_then (create_job_tx job s) (\<lambda>s'. Inr (s', read_job s' (cj_id job))))"

text \<open>\<open>UPDATE jobs .. WHERE id\<close> with the index of live names.\<close>

definition update_job_row :: "UpdateJob \<Rightarrow> int \<Rightarrow> int \<Rightarrow> store \<Rightarrow> store store_result" where
  "update_job_row job now revision s =
     (if other_live_name s (uj_name job) (uj_id job) then Inl (StoreSqlite ''constraint failed'')
      else Inr (s\<lparr>jobs := update_where (\<lambda>j. job_id j = uj_id job)
             (\<lambda>j. j\<lparr>job_name := uj_name job, job_description := uj_description job,
                    job_tags_json := uj_tags_json job, job_enabled := uj_enabled job,
                    job_updated_at := now, job_current_revision := revision\<rparr>) (jobs s)\<rparr>))"

text \<open>
  The next revision is computed in \<open>int\<close>; the code's \<open>i64\<close> could overflow only after \<open>2 ^ 63\<close> updates
  of one job.
\<close>

definition update_job_tx :: "UpdateJob \<Rightarrow> store \<Rightarrow> store store_result" where
  "update_job_tx job s =
     (case query_row (\<lambda>j. job_id j = uj_id job \<and> job_removed_at j = None) (jobs s) of
        None \<Rightarrow> Inl (StoreNotFound (uj_id job))
      | Some j \<Rightarrow>
          if job_current_revision j \<noteq> uj_expected_revision job
          then Inl (StoreConflict (''expected revision '' @ show_int (uj_expected_revision job) @ '', found ''
                 @ show_int (job_current_revision j)))
          else if other_live_name s (uj_name job) (uj_id job)
          then Inl (StoreConflict (''job live name already exists: '' @ uj_name job))
          else
            let revision = job_current_revision j + 1
            in and_then (update_job_row job (uj_now job) revision s) (\<lambda>s1.
               and_then (add_revision (uj_id job) revision (uj_definition_json job) (uj_now job) ''update''
                           (uj_cursor job) (uj_enabled job) s1) (\<lambda>s2.
                 Inr (push_event (uj_now job) ''job_updated'' (Some (uj_id job)) None
                        (JObject [(''revision'', JInt revision)]) s2))))"

definition update_job :: "UpdateJob \<Rightarrow> store \<Rightarrow> (store \<times> job_record store_result) store_result" where
  "update_job job s = and_then (update_job_tx job s) (\<lambda>s'. Inr (s', read_job s' (uj_id job)))"


section \<open>Listing\<close>

definition Store_job :: "store \<Rightarrow> string \<Rightarrow> job_record store_result" where
  "Store_job s reference = read_job s reference"

text \<open>The rows of the listing query: the live jobs by name, the disabled ones on request.\<close>

definition listed_jobs :: "store \<Rightarrow> bool \<Rightarrow> job_row list" where
  "listed_jobs s all =
     sort_key job_name (filter (\<lambda>j. job_removed_at j = None \<and> (all \<or> job_enabled j)) (jobs s))"

definition list_jobs :: "store \<Rightarrow> bool \<Rightarrow> job_record list" where
  "list_jobs s all = List.map_filter (joined_job s) (listed_jobs s all)"

record job_list_record =
  jl_job :: job_record
  jl_latest_run :: "(string \<times> run_state) option"

text \<open>The last run by request time and then identity.\<close>

definition latest_run :: "store \<Rightarrow> string \<Rightarrow> run_row option" where
  "latest_run s jid =
     (case sort_key (\<lambda>r. (run_requested_at r, run_id r)) (filter (\<lambda>r. run_job r = jid) (runs s)) of
        [] \<Rightarrow> None
      | rs \<Rightarrow> Some (last rs))"

definition list_jobs_with_latest_run :: "store \<Rightarrow> bool \<Rightarrow> job_list_record list" where
  "list_jobs_with_latest_run s all =
     List.map_filter (\<lambda>j. map_option (\<lambda>r.
         \<lparr>jl_job = r, jl_latest_run = map_option (\<lambda>x. (run_id x, run_st x)) (latest_run s (job_id j))\<rparr>)
       (joined_job s j)) (listed_jobs s all)"

record job_identity =
  ji_id :: string
  ji_name :: string
  ji_removed :: bool

definition job_identities :: "store \<Rightarrow> job_identity list" where
  "job_identities s =
     map (\<lambda>j. \<lparr>ji_id = job_id j, ji_name = job_name j, ji_removed = (job_removed_at j \<noteq> None)\<rparr>)
       (sort_key job_id (jobs s))"


section \<open>Enabling and removing\<close>

definition set_enabled_tx :: "string \<Rightarrow> bool \<Rightarrow> int \<Rightarrow> store \<Rightarrow> (store \<times> string) store_result" where
  "set_enabled_tx reference enabled now s =
     (case query_row (names_job reference) (jobs s) of
        None \<Rightarrow> Inl (StoreNotFound reference)
      | Some j \<Rightarrow>
          let s1 = s\<lparr>jobs := update_where (\<lambda>x. job_id x = job_id j)
                 (\<lambda>x. x\<lparr>job_enabled := enabled, job_updated_at := now\<rparr>) (jobs s)\<rparr>;
              mine = (\<lambda>c. cur_job c = job_id j \<and> cur_revision c = job_current_revision j);
              s2 = (if enabled \<and> \<not> job_enabled j
                    then s1\<lparr>cursors := update_where mine
                           (\<lambda>c. c\<lparr>cur_disabled_since :=
                              (case cur_disabled_since c of None \<Rightarrow> Some (cur_cursor c) | Some t \<Rightarrow> Some t)\<rparr>)
                           (cursors s1)\<rparr>
                    else if \<not> enabled \<and> job_enabled j
                    then s1\<lparr>cursors := update_where mine
                           (\<lambda>c. c\<lparr>cur_disabled_since :=
                              (case cur_disabled_since c of None \<Rightarrow> Some now | Some t \<Rightarrow> Some t)\<rparr>)
                           (cursors s1)\<rparr>
                    else s1)
          in Inr (s2, job_id j))"

definition set_enabled ::
    "string \<Rightarrow> bool \<Rightarrow> int \<Rightarrow> store \<Rightarrow> (store \<times> job_record store_result) store_result" where
  "set_enabled reference enabled now s =
     and_then (set_enabled_tx reference enabled now s) (\<lambda>(s', jid). Inr (s', read_job s' jid))"

definition remove_job :: "string \<Rightarrow> int \<Rightarrow> store \<Rightarrow> store store_result" where
  "remove_job reference now s =
     and_then (read_job s reference) (\<lambda>j.
       let live = (\<lambda>x. job_id x = jr_id j \<and> job_removed_at x = None)
       in if count_where live (jobs s) \<noteq> 1
          then Inl (StoreConflict ''resolved job changed before removal'')
          else Inr (s\<lparr>jobs := update_where live
                 (\<lambda>x. x\<lparr>job_enabled := False, job_removed_at := Some now, job_updated_at := now\<rparr>) (jobs s)\<rparr>))"


section \<open>Settings\<close>

definition validate_environment_entry :: "bool \<Rightarrow> string \<Rightarrow> string option \<Rightarrow> unit store_result" where
  "validate_environment_entry windows name value =
     (if \<not> is_valid_environment_name name \<or> is_reserved_environment_name windows name
      then Inl (StoreConflict (''invalid or reserved environment name '' @ name))
      else if (case value of None \<Rightarrow> False | Some v \<Rightarrow> NUL \<in> set v)
      then Inl (StoreConflict (''environment value for '' @ name @ '' contains NUL''))
      else Inr ())"

definition validate_entries :: "bool \<Rightarrow> env \<Rightarrow> unit store_result" where
  "validate_entries windows environment =
     and_then (map_err StoreConflict (validate_environment_layer windows environment)) (\<lambda>_.
     and_then (collect (\<lambda>(name, value). validate_environment_entry windows name (Some value)) environment)
       (\<lambda>_. Inr ()))"

definition parse_environment_json :: "codecs \<Rightarrow> bool \<Rightarrow> string \<Rightarrow> env store_result" where
  "parse_environment_json D windows source =
     and_then (map_err StoreJson (environment_from_str D source)) (\<lambda>environment.
     and_then (validate_entries windows environment) (\<lambda>_.
       if environment_to_string D environment \<noteq> source
       then Inl (StoreConflict ''global environment is not canonical JSON'')
       else Inr environment))"

definition read_settings :: "codecs \<Rightarrow> bool \<Rightarrow> store \<Rightarrow> settings_record store_result" where
  "read_settings D windows s =
     and_then (parse_environment_json D windows (set_environment_json (settings s))) (\<lambda>environment.
       Inr \<lparr>rec_global_concurrency = set_global_concurrency (settings s),
            rec_execution_path = set_execution_path (settings s),
            rec_run_retention_count = set_run_retention_count (settings s),
            rec_run_retention_age = set_run_retention_age (settings s),
            rec_output_limit = set_output_limit (settings s),
            rec_per_run_output_limit = set_per_run_output_limit (settings s),
            rec_environment = environment\<rparr>)"

definition set_environment_tx ::
    "codecs \<Rightarrow> bool \<Rightarrow> string \<Rightarrow> string option \<Rightarrow> int \<Rightarrow> store \<Rightarrow> store store_result" where
  "set_environment_tx D windows name value now s =
     and_then (parse_environment_json D windows (set_environment_json (settings s))) (\<lambda>environment.
       let canonical_name = environment_name windows name;
           kept = filter (\<lambda>e. environment_name windows (fst e) \<noteq> canonical_name) environment;
           updated = (case value of None \<Rightarrow> kept | Some v \<Rightarrow> btree_insert canonical_name v kept)
       in Inr (s\<lparr>settings := (settings s)\<lparr>set_environment_json := environment_to_string D updated,
                                          set_updated_at := now\<rparr>\<rparr>))"

definition set_environment ::
    "codecs \<Rightarrow> bool \<Rightarrow> string \<Rightarrow> string option \<Rightarrow> int \<Rightarrow> store
     \<Rightarrow> (store \<times> settings_record store_result) store_result" where
  "set_environment D windows name value now s =
     and_then (validate_environment_entry windows name value) (\<lambda>_.
     and_then (set_environment_tx D windows name value now s) (\<lambda>s'. Inr (s', read_settings D windows s')))"

text \<open>\<open>str::parse\<close> for \<open>i64\<close>: an optional sign, then digits.\<close>

definition parse_i64 :: "string \<Rightarrow> int option" where
  "parse_i64 s =
     (case s of
        CHR ''-'' # ds \<Rightarrow>
          if ds \<noteq> [] \<and> list_all is_digit ds then i64_checked (- int (decimal_value ds)) else None
      | _ \<Rightarrow> Option.bind (parse_unsigned (nat i64_max) s) (\<lambda>n. Some (int n)))"

datatype setting_value =
    SetGlobalConcurrency int
  | SetExecutionPath string
  | SetRunRetentionCount int
  | SetRunRetentionAge "int option"
  | SetOutputLimit int
  | SetPerRunOutputLimit int

definition non_negative :: "string \<Rightarrow> string \<Rightarrow> int store_result" where
  "non_negative key value =
     (case parse_i64 value of
        None \<Rightarrow> Inl (StoreConflict (key @ '' must be a non-negative integer''))
      | Some n \<Rightarrow> if n < 0 then Inl (StoreConflict (key @ '' must be non-negative'')) else Inr n)"

definition setting_value_of :: "string \<Rightarrow> string \<Rightarrow> setting_value store_result" where
  "setting_value_of key value =
     (if key = ''global_concurrency'' then
        (case parse_i64 value of
           None \<Rightarrow> Inl (StoreConflict ''global_concurrency must be an integer'')
         | Some n \<Rightarrow>
             if \<not> (1 \<le> n \<and> n \<le> 64)
             then Inl (StoreConflict ''global_concurrency must be from 1 through 64'')
             else Inr (SetGlobalConcurrency n))
      else if key = ''execution_path'' then Inr (SetExecutionPath value)
      else if key = ''run_retention_age_us'' \<and> value = ''none'' then Inr (SetRunRetentionAge None)
      else if key = ''run_retention_count'' then map_sum id SetRunRetentionCount (non_negative key value)
      else if key = ''run_retention_age_us''
      then map_sum id (\<lambda>n. SetRunRetentionAge (Some n)) (non_negative key value)
      else if key = ''output_limit_bytes'' then map_sum id SetOutputLimit (non_negative key value)
      else if key = ''per_run_output_limit_bytes'' then map_sum id SetPerRunOutputLimit (non_negative key value)
      else Inl (StoreNotFound (''configuration key '' @ key)))"

fun write_setting :: "setting_value \<Rightarrow> settings_row \<Rightarrow> settings_row" where
  "write_setting (SetGlobalConcurrency n) r = r\<lparr>set_global_concurrency := n\<rparr>"
| "write_setting (SetExecutionPath p) r = r\<lparr>set_execution_path := p\<rparr>"
| "write_setting (SetRunRetentionCount n) r = r\<lparr>set_run_retention_count := n\<rparr>"
| "write_setting (SetRunRetentionAge a) r = r\<lparr>set_run_retention_age := a\<rparr>"
| "write_setting (SetOutputLimit n) r = r\<lparr>set_output_limit := n\<rparr>"
| "write_setting (SetPerRunOutputLimit n) r = r\<lparr>set_per_run_output_limit := n\<rparr>"

definition set_setting_tx :: "string \<Rightarrow> string \<Rightarrow> int \<Rightarrow> store \<Rightarrow> store store_result" where
  "set_setting_tx key value now s =
     and_then (setting_value_of key value) (\<lambda>v.
       Inr (s\<lparr>settings := (write_setting v (settings s))\<lparr>set_updated_at := now\<rparr>\<rparr>))"

definition set_setting ::
    "codecs \<Rightarrow> bool \<Rightarrow> string \<Rightarrow> string \<Rightarrow> int \<Rightarrow> store
     \<Rightarrow> (store \<times> settings_record store_result) store_result" where
  "set_setting D windows key value now s =
     and_then (set_setting_tx key value now s) (\<lambda>s'. Inr (s', read_settings D windows s'))"


section \<open>Import\<close>

record import_resolution =
  ir_source_id :: string
  ir_source_name :: string
  ir_expected_id_destination :: "string option"
  ir_expected_name_destination :: "string option"

datatype import_job =
    ImportCreate CreateJob import_resolution
  | ImportUpdate UpdateJob import_resolution
  | ImportVerify UpdateJob import_resolution

record import_batch =
  ib_settings :: settings_record
  ib_jobs :: "import_job list"
  ib_now :: int

record import_summary =
  is_created :: nat
  is_updated :: nat

fun import_resolution_of :: "import_job \<Rightarrow> import_resolution" where
  "import_resolution_of (ImportCreate _ r) = r"
| "import_resolution_of (ImportUpdate _ r) = r"
| "import_resolution_of (ImportVerify _ r) = r"

definition validate_import_resolution :: "store \<Rightarrow> import_resolution \<Rightarrow> unit store_result" where
  "validate_import_resolution s resolution =
     (let by_id = map_option job_id (query_row (\<lambda>j. job_id j = ir_source_id resolution \<and> job_removed_at j = None) (jobs s));
          by_name = map_option job_id (query_row (\<lambda>j. job_name j = ir_source_name resolution \<and> job_removed_at j = None) (jobs s))
      in if by_id \<noteq> ir_expected_id_destination resolution \<or> by_name \<noteq> ir_expected_name_destination resolution
         then Inl (StoreConflict (''import source mapping changed for '' @ ir_source_name resolution))
         else Inr ())"

definition import_destination :: "store \<Rightarrow> string \<Rightarrow> job_record store_result" where
  "import_destination s jid =
     ok_or (StoreNotFound jid)
       (case List.map_filter (joined_job s) (filter (\<lambda>j. job_id j = jid \<and> job_removed_at j = None) (jobs s)) of
          [] \<Rightarrow> None
        | r # _ \<Rightarrow> Some r)"

definition import_job_matches :: "job_record \<Rightarrow> UpdateJob \<Rightarrow> bool" where
  "import_job_matches current expected \<longleftrightarrow>
     jr_id current = uj_id expected \<and> jr_current_revision current = uj_expected_revision expected
     \<and> jr_name current = uj_name expected \<and> jr_description current = uj_description expected
     \<and> jr_tags_json current = uj_tags_json expected \<and> jr_enabled current = uj_enabled expected
     \<and> jr_definition_json current = uj_definition_json expected \<and> jr_cursor current = uj_cursor expected"

definition validate_import_settings :: "bool \<Rightarrow> settings_record \<Rightarrow> unit store_result" where
  "validate_import_settings windows r =
     (if \<not> (1 \<le> rec_global_concurrency r \<and> rec_global_concurrency r \<le> 64)
      then Inl (StoreConflict ''import global_concurrency must be from 1 through 64'')
      else if rec_run_retention_count r < 0 \<or> rec_output_limit r < 0 \<or> rec_per_run_output_limit r < 0
              \<or> (case rec_run_retention_age r of None \<Rightarrow> False | Some a \<Rightarrow> a < 0)
      then Inl (StoreConflict ''import retention and output limits must be non-negative'')
      else validate_entries windows (rec_environment r))"

text \<open>The checks that an update or a verification makes of its destination.\<close>

definition check_destination ::
    "store \<Rightarrow> UpdateJob \<Rightarrow> (job_record \<Rightarrow> unit store_result) \<Rightarrow> unit store_result" where
  "check_destination s job verify =
     and_then (import_destination s (uj_id job)) (\<lambda>current.
       if jr_current_revision current \<noteq> uj_expected_revision job
       then Inl (StoreConflict (''expected revision '' @ show_int (uj_expected_revision job) @ '', found ''
              @ show_int (jr_current_revision current)))
       else if other_live_name s (uj_name job) (uj_id job)
       then Inl (StoreConflict (''import update name collision for '' @ uj_name job))
       else verify current)"

definition check_import :: "codecs \<Rightarrow> store \<Rightarrow> import_job \<Rightarrow> unit store_result" where
  "check_import D s import =
     and_then (validate_import_resolution s (import_resolution_of import)) (\<lambda>_.
       case import of
         ImportCreate job _ \<Rightarrow>
           and_then (validate_uuid D (cj_id job)) (\<lambda>_.
             if job_id_exists s (cj_id job) \<or> live_name_exists s (cj_name job)
             then Inl (StoreConflict (''import create identity collision for '' @ cj_name job))
             else Inr ())
       | ImportUpdate job _ \<Rightarrow> check_destination s job (\<lambda>_. Inr ())
       | ImportVerify job resolution \<Rightarrow> check_destination s job (\<lambda>current.
           if \<not> import_job_matches current job
           then Inl (StoreConflict (''import no-op destination changed for '' @ ir_source_name resolution))
           else Inr ()))"

fun import_one :: "int \<Rightarrow> import_job \<Rightarrow> store \<times> import_summary \<Rightarrow> (store \<times> import_summary) store_result" where
  "import_one now (ImportCreate job _) (s, summary) =
     and_then (insert_job job now ''import'' s) (\<lambda>s'.
       Inr (push_event now ''job_imported'' (Some (cj_id job)) None (JObject [(''action'', JString ''create'')]) s',
            summary\<lparr>is_created := is_created summary + 1\<rparr>))"
| "import_one now (ImportUpdate job _) (s, summary) =
     and_then (update_job_row job now (uj_expected_revision job + 1) s) (\<lambda>s1.
     and_then (add_revision (uj_id job) (uj_expected_revision job + 1) (uj_definition_json job) now ''import''
                 (uj_cursor job) (uj_enabled job) s1) (\<lambda>s2.
       Inr (push_event now ''job_imported'' (Some (uj_id job)) None (JObject [(''action'', JString ''update'')]) s2,
            summary\<lparr>is_updated := is_updated summary + 1\<rparr>)))"
| "import_one now (ImportVerify _ _) (s, summary) = Inr (s, summary)"

fun import_all ::
    "int \<Rightarrow> import_job list \<Rightarrow> store \<times> import_summary \<Rightarrow> (store \<times> import_summary) store_result" where
  "import_all now [] acc = Inr acc"
| "import_all now (i # is) acc = and_then (import_one now i acc) (import_all now is)"

definition import_settings :: "codecs \<Rightarrow> settings_record \<Rightarrow> int \<Rightarrow> store \<Rightarrow> store" where
  "import_settings D r now s =
     s\<lparr>settings := \<lparr>set_global_concurrency = rec_global_concurrency r,
         set_execution_path = rec_execution_path r, set_run_retention_count = rec_run_retention_count r,
         set_run_retention_age = rec_run_retention_age r, set_output_limit = rec_output_limit r,
         set_per_run_output_limit = rec_per_run_output_limit r,
         set_environment_json = environment_to_string D (rec_environment r), set_updated_at = now\<rparr>\<rparr>"

definition apply_import ::
    "codecs \<Rightarrow> bool \<Rightarrow> import_batch \<Rightarrow> store \<Rightarrow> (store \<times> import_summary) store_result" where
  "apply_import D windows batch s =
     and_then (validate_import_settings windows (ib_settings batch)) (\<lambda>_.
     and_then (collect (check_import D s) (ib_jobs batch)) (\<lambda>_.
     and_then (import_all (ib_now batch) (ib_jobs batch) (s, \<lparr>is_created = 0, is_updated = 0\<rparr>)) (\<lambda>(s1, summary).
       Inr (push_event (ib_now batch) ''import_applied'' None None (JObject [])
              (import_settings D (ib_settings batch) (ib_now batch) s1), summary))))"

end
