(* ===== verification/Job_Catalogue.thy ===== *)
theory Job_Catalogue
  imports Store_Jobs "HOL-Library.Sublist"
begin

text \<open>
  The catalogue of jobs: the invariant of the tables \<open>jobs\<close>, \<open>job_revisions\<close> and
  \<open>cursors\<close> that the schema's keys and the transactions of \<^verbatim>\<open>store.rs\<close> keep,
  the preservation lemmas of every job operation and of the import, and the contracts of the
  operations on jobs and settings.
\<close>

section \<open>The invariant of jobs\<close>

definition rev_key :: "revision_row \<Rightarrow> string \<times> int" where
  "rev_key v = (rev_job v, rev_revision v)"

definition cur_key :: "cursor_row \<Rightarrow> string \<times> int" where
  "cur_key c = (cur_job c, cur_revision c)"

definition job_key :: "job_row \<Rightarrow> string \<times> int" where
  "job_key j = (job_id j, job_current_revision j)"

definition live :: "job_row \<Rightarrow> bool" where
  "live j \<longleftrightarrow> job_removed_at j = None"

definition known_revision :: "job_row list \<Rightarrow> string \<times> int \<Rightarrow> bool" where
  "known_revision js k \<longleftrightarrow> (\<exists>j \<in> set js. job_id j = fst k \<and> snd k \<le> job_current_revision j)"

definition jobs_wf :: "store \<Rightarrow> bool" where
  "jobs_wf s \<longleftrightarrow>
     distinct (map job_id (jobs s)) \<and> distinct (map job_name (filter live (jobs s)))
     \<and> distinct (map rev_key (job_revisions s)) \<and> distinct (map cur_key (cursors s))
     \<and> (\<forall>j \<in> set (jobs s). 0 < job_current_revision j \<and> job_key j \<in> rev_key ` set (job_revisions s)
          \<and> job_key j \<in> cur_key ` set (cursors s))
     \<and> (\<forall>v \<in> set (job_revisions s). known_revision (jobs s) (rev_key v))
     \<and> (\<forall>c \<in> set (cursors s). known_revision (jobs s) (cur_key c))"


lemma jobs_wfD:
  assumes "jobs_wf s"
  shows wf_job_ids: "distinct (map job_id (jobs s))"
    and wf_live_names: "distinct (map job_name (filter live (jobs s)))"
    and wf_rev_keys: "distinct (map rev_key (job_revisions s))"
    and wf_cur_keys: "distinct (map cur_key (cursors s))"
    and wf_current: "j \<in> set (jobs s) \<Longrightarrow> 0 < job_current_revision j
      \<and> job_key j \<in> rev_key ` set (job_revisions s) \<and> job_key j \<in> cur_key ` set (cursors s)"
    and wf_revs_known: "v \<in> set (job_revisions s) \<Longrightarrow> known_revision (jobs s) (rev_key v)"
    and wf_curs_known: "c \<in> set (cursors s) \<Longrightarrow> known_revision (jobs s) (cur_key c)"
  using assms unfolding jobs_wf_def by blast+

lemma jobs_evolve:
  assumes wf: "jobs_wf s" and jobs: "jobs s' = map F (jobs s)" and revs: "job_revisions s' = job_revisions s"
    and curs: "cursors s' = map G (cursors s)"
    and F: "\<And>j. job_key (F j) = job_key j \<and> job_name (F j) = job_name j \<and> (live (F j) \<longrightarrow> live j)"
    and G: "\<And>c. cur_key (G c) = cur_key c"
  shows "jobs_wf s'"
proof -
  have key: "job_id (F j) = job_id j" "job_current_revision (F j) = job_current_revision j" for j
    using F[of j] by (simp_all add: job_key_def)
  have "map job_id (jobs s') = map job_id (jobs s)" by (simp add: jobs key)
  moreover have "distinct (map job_name (filter live (map F js)))" if "distinct (map job_name (filter live js))" for js
  proof -
    have "map job_name (filter live (map F js)) = map job_name (filter (live \<circ> F) (filter live js))"
      using F by (induction js) auto
    then show ?thesis using that by (simp only: distinct_map_filter)
  qed
  moreover have "known_revision (jobs s') k \<longleftrightarrow> known_revision (jobs s) k" for k
    by (auto simp: known_revision_def jobs key)
  moreover have "map cur_key (cursors s') = map cur_key (cursors s)" by (simp add: curs G)
  moreover from this have "cur_key ` set (cursors s') = cur_key ` set (cursors s)" by (metis list.set_map)
  moreover have "\<forall>j \<in> set (jobs s'). 0 < job_current_revision j \<and> job_key j \<in> rev_key ` set (job_revisions s)
      \<and> job_key j \<in> cur_key ` set (cursors s)"
    using wf_current[OF wf] F by (auto simp: jobs key)
  moreover have "\<forall>c \<in> set (cursors s'). known_revision (jobs s) (cur_key c)"
    using wf_curs_known[OF wf] by (auto simp: curs G)
  ultimately show ?thesis
    using wf_job_ids[OF wf] wf_live_names[OF wf] wf_rev_keys[OF wf] wf_cur_keys[OF wf] wf_revs_known[OF wf]
    unfolding jobs_wf_def jobs revs by (auto simp only: jobs)
qed

lemma known_revision_mono:
  assumes "known_revision js k" and "\<And>j. j \<in> set js \<Longrightarrow> \<exists>j' \<in> set js'. job_id j' = job_id j \<and> job_current_revision j \<le> job_current_revision j'"
  shows "known_revision js' k"
  using assms unfolding known_revision_def by (metis order_trans)

text \<open>Adding a revision to a job whose current revision is made to be that one.\<close>

lemma add_revision_wf:
  assumes wf: "distinct (map rev_key (job_revisions s))" "distinct (map cur_key (cursors s))"
    and add: "add_revision jid n d now by c en s = Inr s'"
  shows "distinct (map rev_key (job_revisions s')) \<and> distinct (map cur_key (cursors s'))
    \<and> jobs s' = jobs s \<and> rev_key ` set (job_revisions s') = insert (jid, n) (rev_key ` set (job_revisions s))
    \<and> cur_key ` set (cursors s') = insert (jid, n) (cur_key ` set (cursors s)) \<and> 0 < n
    \<and> (jid, n) \<notin> rev_key ` set (job_revisions s) \<and> job_id_exists s jid"
  using assms
  by (auto simp: add_revision_def revision_exists_def rev_key_def cur_key_def image_iff split: if_splits)

lemma rename_one_distinct:
  assumes "distinct (map job_id js)" and "distinct (map job_name (filter live js))"
    and "\<And>j. live (f j) \<longleftrightarrow> live j" and "\<And>j. job_name (f j) = name"
    and "\<And>j. j \<in> set js \<Longrightarrow> job_id j \<noteq> jid \<Longrightarrow> live j \<Longrightarrow> job_name j \<noteq> name"
  shows "distinct (map job_name (filter live (map (\<lambda>j. if job_id j = jid then f j else j) js)))"
  using assms
proof (induction js)
  case (Cons j js)
  have rest: "job_name x \<noteq> name" if "x \<in> set js" "live x" "job_id j = jid" for x
    using that Cons.prems(1) Cons.prems(5)[of x] by (metis distinct.simps(2) image_eqI list.set_intros(2) list.set_map list.simps(9))
  show ?case
  proof (cases "job_id j = jid")
    case True
    have "job_id x \<noteq> jid" if "x \<in> set js" for x
      using Cons.prems(1) True that by (auto simp: image_iff)
    then have "map (\<lambda>j. if job_id j = jid then f j else j) js = js"
      by (intro map_idI) simp
    then show ?thesis using Cons rest True by (auto split: if_splits)
  next
    case False
    with Cons show ?thesis by (auto split: if_splits)
  qed
qed simp

lemma insert_job_wf:
  assumes wf: "jobs_wf s" and ins: "insert_job job now by s = Inr s'"
  shows "jobs_wf s'"
proof -
  let ?s1 = "s\<lparr>jobs := jobs s @ [new_job_row job now]\<rparr>"
  have fresh: "\<not> job_id_exists s (cj_id job)" "\<not> live_name_exists s (cj_name job)"
    and add: "add_revision (cj_id job) 1 (cj_definition_json job) now by (cj_cursor job) (cj_enabled job) ?s1 = Inr s'"
    using ins by (auto simp: insert_job_def split: if_splits)
  note a = add_revision_wf[OF _ _ add, simplified, OF wf_rev_keys[OF wf] wf_cur_keys[OF wf]]
  have jobs: "jobs s' = jobs s @ [new_job_row job now]" using a by simp
  have known: "known_revision (jobs s') k" if "known_revision (jobs s) k \<or> k = (cj_id job, 1)" for k
    using that by (auto simp: known_revision_def jobs new_job_row_def)
  show ?thesis
    unfolding jobs_wf_def
  proof (intro conjI)
    show "distinct (map job_id (jobs s'))"
      using wf_job_ids[OF wf] fresh(1) by (auto simp: jobs new_job_row_def job_id_exists_def)
    show "distinct (map job_name (filter live (jobs s')))"
      using wf_live_names[OF wf] fresh(2) by (auto simp: jobs new_job_row_def live_name_exists_def live_def)
    show "\<forall>j \<in> set (jobs s'). 0 < job_current_revision j \<and> job_key j \<in> rev_key ` set (job_revisions s')
        \<and> job_key j \<in> cur_key ` set (cursors s')"
      using wf_current[OF wf] a by (auto simp: jobs new_job_row_def job_key_def)
    show "\<forall>v \<in> set (job_revisions s'). known_revision (jobs s') (rev_key v)"
      using wf_revs_known[OF wf] known a by (metis (no_types, lifting) imageE image_eqI insertE)
    show "\<forall>c \<in> set (cursors s'). known_revision (jobs s') (cur_key c)"
      using wf_curs_known[OF wf] known a by (metis (no_types, lifting) imageE image_eqI insertE)
  qed (use a in simp_all)
qed

lemma bump_revision_wf:
  assumes wf: "jobs_wf s" and upd: "update_job_row job now n s = Inr s1"
    and add: "add_revision (uj_id job) n d now by c en s1 = Inr s'"
    and le: "\<And>j. j \<in> set (jobs s) \<Longrightarrow> job_id j = uj_id job \<Longrightarrow> job_current_revision j \<le> n"
  shows "jobs_wf s'"
proof -
  let ?F = "\<lambda>j. if job_id j = uj_id job then j\<lparr>job_name := uj_name job, job_description := uj_description job,
     job_tags_json := uj_tags_json job, job_enabled := uj_enabled job, job_updated_at := now,
     job_current_revision := n\<rparr> else j"
  have free: "\<not> other_live_name s (uj_name job) (uj_id job)"
    and s1: "jobs s1 = map ?F (jobs s)" "job_revisions s1 = job_revisions s" "cursors s1 = cursors s"
    using upd by (auto simp: update_job_row_def update_where_def split: if_splits)
  note a = add_revision_wf[OF _ _ add, unfolded s1(2,3), OF wf_rev_keys[OF wf] wf_cur_keys[OF wf]]
  have jobs: "jobs s' = map ?F (jobs s)" using a s1(1) by simp
  obtain j0 where j0: "j0 \<in> set (jobs s)" "job_id j0 = uj_id job"
    using a by (auto simp: job_id_exists_def s1(1) split: if_splits)
  have only: "j = j0" if "j \<in> set (jobs s)" "job_id j = uj_id job" for j
    using that j0 wf_job_ids[OF wf] by (auto simp: distinct_map inj_on_def)
  have known: "known_revision (jobs s') k" if "known_revision (jobs s) k" for k
  proof (rule known_revision_mono[OF that])
    fix j assume "j \<in> set (jobs s)"
    then show "\<exists>j' \<in> set (jobs s'). job_id j' = job_id j \<and> job_current_revision j \<le> job_current_revision j'"
      using le[of j] by (intro bexI[of _ "?F j"]) (auto simp: jobs)
  qed
  have here: "known_revision (jobs s') (uj_id job, n)"
    unfolding known_revision_def jobs by (rule bexI[of _ "?F j0"]) (use j0 in auto)
  show ?thesis
    unfolding jobs_wf_def
  proof (intro conjI)
    have "map job_id (jobs s') = map job_id (jobs s)" by (simp add: jobs)
    then show "distinct (map job_id (jobs s'))" using wf_job_ids[OF wf] by simp
    show "distinct (map job_name (filter live (jobs s')))"
      unfolding jobs by (rule rename_one_distinct[OF wf_job_ids[OF wf] wf_live_names[OF wf]])
        (use free in \<open>auto simp: other_live_name_def live_def\<close>)
    show "\<forall>j \<in> set (jobs s'). 0 < job_current_revision j \<and> job_key j \<in> rev_key ` set (job_revisions s')
        \<and> job_key j \<in> cur_key ` set (cursors s')"
    proof
      fix y assume "y \<in> set (jobs s')"
      then obtain x where x: "x \<in> set (jobs s)" "y = ?F x" unfolding jobs set_map by blast
      have keys: "rev_key ` set (job_revisions s') = insert (uj_id job, n) (rev_key ` set (job_revisions s))"
        "cur_key ` set (cursors s') = insert (uj_id job, n) (cur_key ` set (cursors s))" "0 < n" using a by blast+
      show "0 < job_current_revision y \<and> job_key y \<in> rev_key ` set (job_revisions s')
          \<and> job_key y \<in> cur_key ` set (cursors s')"
        unfolding keys(1,2) using wf_current[OF wf x(1)] keys(3) x(2) by (simp add: job_key_def)
    qed
    show "\<forall>v \<in> set (job_revisions s'). known_revision (jobs s') (rev_key v)"
      using wf_revs_known[OF wf] known here a by (metis (no_types, lifting) imageE image_eqI insertE)
    show "\<forall>c \<in> set (cursors s'). known_revision (jobs s') (cur_key c)"
      using wf_curs_known[OF wf] known here a by (metis (no_types, lifting) imageE image_eqI insertE)
  qed (use a in simp_all)
qed

lemma push_event_jobs [simp]:
  "jobs (push_event t k j r d s) = jobs s" "job_revisions (push_event t k j r d s) = job_revisions s"
  "cursors (push_event t k j r d s) = cursors s" "settings (push_event t k j r d s) = settings s"
  by (simp_all add: push_event_def)

lemma jobs_wf_cong:
  "jobs s' = jobs s \<Longrightarrow> job_revisions s' = job_revisions s \<Longrightarrow> cursors s' = cursors s \<Longrightarrow> jobs_wf s' \<longleftrightarrow> jobs_wf s"
  by (simp add: jobs_wf_def)

lemma create_job_tx_wf: "jobs_wf s \<Longrightarrow> create_job_tx job s = Inr s' \<Longrightarrow> jobs_wf s'"
  by (auto simp: create_job_tx_def and_then_eq_Inr jobs_wf_cong[of "push_event t k j r d x" x for t k j r d x]
      split: if_splits intro: insert_job_wf)

lemma update_job_tx_wf:
  assumes "jobs_wf s" and "update_job_tx job s = Inr s'"
  shows "jobs_wf s'"
proof -
  from assms(2) obtain j s1 s2 where j: "query_row (\<lambda>j. job_id j = uj_id job \<and> job_removed_at j = None) (jobs s) = Some j"
    and u: "update_job_row job (uj_now job) (job_current_revision j + 1) s = Inr s1"
    and a: "add_revision (uj_id job) (job_current_revision j + 1) (uj_definition_json job) (uj_now job) ''update''
        (uj_cursor job) (uj_enabled job) s1 = Inr s2"
    and s': "jobs s' = jobs s2" "job_revisions s' = job_revisions s2" "cursors s' = cursors s2"
    by (auto simp: update_job_tx_def Let_def and_then_eq_Inr split: option.splits if_splits)
  have "j \<in> set (jobs s)" "job_id j = uj_id job" using j by (auto simp: query_row_def find_Some_iff)
  then have "job_current_revision x \<le> job_current_revision j + 1" if "x \<in> set (jobs s)" "job_id x = uj_id job" for x
    using that wf_job_ids[OF assms(1)] by (auto simp: distinct_map inj_on_def)
  from bump_revision_wf[OF assms(1) u a this] s' show ?thesis using jobs_wf_cong by blast
qed

lemma update_where_map: "update_where p f xs = map (\<lambda>x. if p x then f x else x) xs"
  by (simp add: update_where_def)

lemma jobs_evolve_where:
  assumes "jobs_wf s" and "jobs s' = update_where p f (jobs s)" and "job_revisions s' = job_revisions s"
    and "cursors s' = update_where q g (cursors s)"
    and "\<And>j. job_key (f j) = job_key j \<and> job_name (f j) = job_name j \<and> (live (f j) \<longrightarrow> live j)"
    and "\<And>c. cur_key (g c) = cur_key c"
  shows "jobs_wf s'"
  using assms(5,6) by (intro jobs_evolve[OF assms(1) assms(2,3,4)[unfolded update_where_map]]) auto

lemma update_where_nothing: "update_where (\<lambda>x. False) f xs = xs"
  by (simp add: update_where_def)

lemma set_enabled_tx_wf:
  assumes wf: "jobs_wf s" and ok: "set_enabled_tx reference enabled now s = Inr (s', jid)"
  shows "jobs_wf s'"
proof -
  obtain j where j: "query_row (names_job reference) (jobs s) = Some j"
    using ok by (cases "query_row (names_job reference) (jobs s)") (auto simp: set_enabled_tx_def)
  define stamp :: "cursor_row \<Rightarrow> cursor_row" where "stamp = (\<lambda>c. c\<lparr>cur_disabled_since :=
      (case cur_disabled_since c of None \<Rightarrow> Some (if enabled then cur_cursor c else now) | Some t \<Rightarrow> Some t)\<rparr>)"
  show ?thesis
    by (rule jobs_evolve_where[OF wf, where p = "\<lambda>x. job_id x = job_id j"
        and f = "\<lambda>x. x\<lparr>job_enabled := enabled, job_updated_at := now\<rparr>"
        and q = "\<lambda>c. enabled \<noteq> job_enabled j \<and> cur_job c = job_id j \<and> cur_revision c = job_current_revision j"
        and g = stamp])
      (use ok j in \<open>auto simp: set_enabled_tx_def Let_def stamp_def job_key_def cur_key_def live_def update_where_nothing cong: option.case_cong\<close>)
qed

lemma remove_job_wf:
  assumes wf: "jobs_wf s" and ok: "remove_job reference now s = Inr s'"
  shows "jobs_wf s'"
proof -
  obtain y where y: "read_job s reference = Inr y"
    using ok by (auto simp: remove_job_def and_then_eq_Inr)
  show ?thesis
    by (rule jobs_evolve_where[OF wf, where p = "\<lambda>x. job_id x = jr_id y \<and> job_removed_at x = None"
        and f = "\<lambda>x. x\<lparr>job_enabled := False, job_removed_at := Some now, job_updated_at := now\<rparr>"
        and q = "\<lambda>c. False" and g = id])
      (use ok y in \<open>auto simp: remove_job_def Let_def job_key_def live_def update_where_nothing and_then_def split: if_splits\<close>)
qed

lemma distinct_map_filter_hd:
  "distinct (map f xs) \<Longrightarrow> x \<in> set xs \<Longrightarrow> hd (filter (\<lambda>y. f y = f x) xs) = x"
  by (induction xs) (auto simp: image_iff)

text \<open>
  The batch checks read the store before the first import is written. What they found of the
  destinations of the updates, \<open>r\<close> being their revisions, stays true up to the update itself.
\<close>

definition imports_ready :: "(string \<Rightarrow> int) \<Rightarrow> store \<Rightarrow> import_job list \<Rightarrow> bool" where
  "imports_ready r s is \<longleftrightarrow>
     (\<forall>u res. ImportUpdate u res \<in> set is \<longrightarrow> uj_expected_revision u = r (uj_id u) \<and> job_id_exists s (uj_id u)
        \<and> (\<forall>j \<in> set (jobs s). job_id j = uj_id u \<longrightarrow> job_current_revision j \<le> r (uj_id u) + 1))"

lemma add_revision_jobs: "add_revision jid n d now by c en s = Inr s' \<Longrightarrow> jobs s' = jobs s"
  by (auto simp: add_revision_def split: if_splits)

lemma insert_job_jobs:
  "insert_job job now by s = Inr s' \<Longrightarrow> jobs s' = jobs s @ [new_job_row job now] \<and> \<not> job_id_exists s (cj_id job)"
  by (auto simp: insert_job_def dest: add_revision_jobs split: if_splits)

lemma update_job_row_jobs:
  "update_job_row job now n s = Inr s' \<Longrightarrow>
   jobs s' = update_where (\<lambda>j. job_id j = uj_id job) (\<lambda>j. j\<lparr>job_name := uj_name job, job_description := uj_description job,
     job_tags_json := uj_tags_json job, job_enabled := uj_enabled job, job_updated_at := now,
     job_current_revision := n\<rparr>) (jobs s)"
  by (auto simp: update_job_row_def split: if_splits)

lemma imports_ready_next:
  assumes ready: "imports_ready r s (i # is)"
    and ids: "\<And>jid. job_id_exists s jid \<Longrightarrow> job_id_exists s' jid"
    and js: "\<And>j. j \<in> set (jobs s') \<Longrightarrow> j \<in> set (jobs s) \<or> \<not> job_id_exists s (job_id j)
      \<or> job_current_revision j \<le> r (job_id j) + 1"
  shows "imports_ready r s' is"
  unfolding imports_ready_def
proof (intro allI impI conjI ballI)
  fix u res assume "ImportUpdate u res \<in> set is"
  then have u: "uj_expected_revision u = r (uj_id u)" "job_id_exists s (uj_id u)"
      "\<forall>j \<in> set (jobs s). job_id j = uj_id u \<longrightarrow> job_current_revision j \<le> r (uj_id u) + 1"
    using ready by (auto simp: imports_ready_def)
  show "uj_expected_revision u = r (uj_id u)" "job_id_exists s' (uj_id u)" using u ids by blast+
  show "job_current_revision j \<le> r (uj_id u) + 1" if "j \<in> set (jobs s')" "job_id j = uj_id u" for j
    using js[OF that(1)] u that(2) by metis
qed

lemma import_one_ready:
  assumes wf: "jobs_wf s" and ready: "imports_ready r s (i # is)" and ok: "import_one now i (s, m) = Inr (s', m')"
  shows "jobs_wf s' \<and> imports_ready r s' is"
proof (cases i)
  case (ImportCreate job res)
  then obtain s1 where ins: "insert_job job now ''import'' s = Inr s1"
    and s': "jobs s' = jobs s1" "job_revisions s' = job_revisions s1" "cursors s' = cursors s1"
    using ok by (auto simp: and_then_eq_Inr)
  then have "jobs_wf s'" using insert_job_wf[OF wf ins] jobs_wf_cong by blast
  moreover have "imports_ready r s' is"
    by (rule imports_ready_next[OF ready])
      (use insert_job_jobs[OF ins] s'(1) in \<open>auto simp: job_id_exists_def new_job_row_def\<close>)
  ultimately show ?thesis ..
next
  case (ImportUpdate u res)
  let ?F = "\<lambda>j. if job_id j = uj_id u then j\<lparr>job_name := uj_name u, job_description := uj_description u,
     job_tags_json := uj_tags_json u, job_enabled := uj_enabled u, job_updated_at := now,
     job_current_revision := uj_expected_revision u + 1\<rparr> else j"
  from ImportUpdate obtain s1 s2 where upd: "update_job_row u now (uj_expected_revision u + 1) s = Inr s1"
    and add: "add_revision (uj_id u) (uj_expected_revision u + 1) (uj_definition_json u) now ''import''
        (uj_cursor u) (uj_enabled u) s1 = Inr s2"
    and s': "jobs s' = jobs s2" "job_revisions s' = job_revisions s2" "cursors s' = cursors s2"
    using ok by (auto simp: and_then_eq_Inr)
  have "ImportUpdate u res \<in> set (i # is)" by (simp add: ImportUpdate)
  note here = ready[unfolded imports_ready_def, rule_format, OF this]
  have r: "uj_expected_revision u = r (uj_id u)" using here by (rule conjunct1)
  have le: "\<And>j. j \<in> set (jobs s) \<Longrightarrow> job_id j = uj_id u \<Longrightarrow> job_current_revision j \<le> uj_expected_revision u + 1"
    using here unfolding r by blast
  have "jobs_wf s'" using bump_revision_wf[OF wf upd add le] s' jobs_wf_cong by blast
  moreover have "imports_ready r s' is"
  proof (rule imports_ready_next[OF ready])
    have js: "jobs s' = map ?F (jobs s)"
      using update_job_row_jobs[OF upd] add_revision_jobs[OF add] s'(1) by (simp add: update_where_def)
    have "map job_id (jobs s') = map job_id (jobs s)" by (simp add: js)
    then have "job_id ` set (jobs s') = job_id ` set (jobs s)" by (metis list.set_map)
    then show "job_id_exists s' jid" if "job_id_exists s jid" for jid
      using that unfolding job_id_exists_def by (metis imageE image_eqI)
    fix j assume "j \<in> set (jobs s')"
    then obtain x where "x \<in> set (jobs s)" "j = ?F x" unfolding js set_map by blast
    then show "j \<in> set (jobs s) \<or> \<not> job_id_exists s (job_id j) \<or> job_current_revision j \<le> r (job_id j) + 1"
      using r by (cases "job_id x = uj_id u") simp_all
  qed
  ultimately show ?thesis ..
next
  case (ImportVerify u res)
  then show ?thesis using wf ready ok by (auto simp: imports_ready_def)
qed

lemma import_all_wf:
  "jobs_wf s \<Longrightarrow> imports_ready r s is \<Longrightarrow> import_all now is (s, m) = Inr (s', m') \<Longrightarrow> jobs_wf s'"
proof (induction "is" arbitrary: s m)
  case (Cons i "is")
  from Cons.prems(3) obtain s1 m1 where one: "import_one now i (s, m) = Inr (s1, m1)"
    and rest: "import_all now is (s1, m1) = Inr (s', m')" by (auto simp: and_then_eq_Inr)
  from import_one_ready[OF Cons.prems(1,2) one] Cons.IH rest show ?case by blast
qed simp

lemma collect_Inr_all: "collect f xs = Inr ys \<Longrightarrow> x \<in> set xs \<Longrightarrow> \<exists>y. f x = Inr y"
  by (induction xs arbitrary: ys) (auto simp: and_then_eq_Inr)

lemma import_destination_job:
  assumes "import_destination s jid = Inr c"
  shows "\<exists>j \<in> set (jobs s). job_id j = jid \<and> live j \<and> joined_job s j = Some c"
proof -
  obtain rest where "List.map_filter (joined_job s) (filter (\<lambda>j. job_id j = jid \<and> job_removed_at j = None) (jobs s)) = c # rest"
    using assms by (auto simp: import_destination_def ok_or_def split: list.splits)
  then have "c \<in> set (List.map_filter (joined_job s) (filter (\<lambda>j. job_id j = jid \<and> job_removed_at j = None) (jobs s)))"
    by simp
  then show ?thesis by (auto simp: List.map_filter_def live_def)
qed

lemma joined_job_identity: "joined_job s j = Some c \<Longrightarrow> jr_id c = job_id j \<and> jr_current_revision c = job_current_revision j"
  by (auto simp: joined_job_def map_job_def split: option.splits)

lemma checks_ready:
  assumes wf: "jobs_wf s" and checks: "collect (check_import D s) is = Inr us"
  shows "\<exists>r. imports_ready r s is"
proof -
  define r where "r = (\<lambda>jid. job_current_revision (hd (filter (\<lambda>j. job_id j = jid) (jobs s))))"
  have r: "r (job_id j) = job_current_revision j" if "j \<in> set (jobs s)" for j
    using distinct_map_filter_hd[OF wf_job_ids[OF wf] that] by (simp add: r_def)
  have "imports_ready r s is"
    unfolding imports_ready_def
  proof (intro allI impI)
    fix u res assume "ImportUpdate u res \<in> set is"
    from collect_Inr_all[OF checks this] obtain c where c: "import_destination s (uj_id u) = Inr c"
      "jr_current_revision c = uj_expected_revision u"
      by (auto simp: check_import_def check_destination_def and_then_eq_Inr split: if_splits)
    from import_destination_job[OF c(1)] c(2) joined_job_identity obtain j
      where j: "j \<in> set (jobs s)" "job_id j = uj_id u" "job_current_revision j = uj_expected_revision u" by metis
    then show "uj_expected_revision u = r (uj_id u) \<and> job_id_exists s (uj_id u)
        \<and> (\<forall>j \<in> set (jobs s). job_id j = uj_id u \<longrightarrow> job_current_revision j \<le> r (uj_id u) + 1)"
      using r by (force simp: job_id_exists_def)
  qed
  then show ?thesis by blast
qed

lemma apply_import_wf:
  assumes wf: "jobs_wf s" and ok: "apply_import D windows batch s = Inr (s', summary)"
  shows "jobs_wf s'"
proof -
  from ok obtain us s1 where checks: "collect (check_import D s) (ib_jobs batch) = Inr us"
    and all: "import_all (ib_now batch) (ib_jobs batch) (s, \<lparr>is_created = 0, is_updated = 0\<rparr>) = Inr (s1, summary)"
    and s': "jobs s' = jobs s1" "job_revisions s' = job_revisions s1" "cursors s' = cursors s1"
    by (auto simp: apply_import_def import_settings_def and_then_eq_Inr)
  from checks_ready[OF wf checks] obtain r where "imports_ready r s (ib_jobs batch)" ..
  from import_all_wf[OF wf this all] s' show ?thesis using jobs_wf_cong by blast
qed


section \<open>What the job operations keep\<close>

text \<open>
  Revisions are only added, jobs stay, their current revision never goes back, and a removed
  job stays removed.
\<close>

definition catalogue_grows :: "store \<Rightarrow> store \<Rightarrow> bool" where
  "catalogue_grows s s' \<longleftrightarrow>
     prefix (job_revisions s) (job_revisions s')
     \<and> (\<forall>j \<in> set (jobs s). \<exists>j' \<in> set (jobs s'). job_id j' = job_id j
          \<and> job_current_revision j \<le> job_current_revision j' \<and> (live j' \<longrightarrow> live j))"

lemma catalogue_grows_refl [simp]: "catalogue_grows s s"
  by (auto simp: catalogue_grows_def)

lemma catalogue_grows_trans [trans]:
  assumes "catalogue_grows a b" and "catalogue_grows b c"
  shows "catalogue_grows a c"
proof -
  have "\<exists>j' \<in> set (jobs c). job_id j' = job_id j \<and> job_current_revision j \<le> job_current_revision j' \<and> (live j' \<longrightarrow> live j)"
    if "j \<in> set (jobs a)" for j
    using assms that unfolding catalogue_grows_def by (metis order_trans)
  then show ?thesis using assms prefix_order.order_trans unfolding catalogue_grows_def by blast
qed

lemma catalogue_grows_map:
  assumes "jobs s' = map F (jobs s)" and "prefix (job_revisions s) (job_revisions s')"
    and "\<And>j. j \<in> set (jobs s) \<Longrightarrow> job_id (F j) = job_id j \<and> job_current_revision j \<le> job_current_revision (F j)
      \<and> (live (F j) \<longrightarrow> live j)"
  shows "catalogue_grows s s'"
  using assms by (force simp: catalogue_grows_def)

lemma insert_job_grows: "insert_job job now by s = Inr s' \<Longrightarrow> catalogue_grows s s'"
  by (auto simp: insert_job_def add_revision_def catalogue_grows_def split: if_splits)

lemma bump_revision_grows:
  assumes upd: "update_job_row u now n s = Inr s1" and add: "add_revision (uj_id u) n d now by c en s1 = Inr s'"
    and le: "\<And>j. j \<in> set (jobs s) \<Longrightarrow> job_id j = uj_id u \<Longrightarrow> job_current_revision j \<le> n"
  shows "catalogue_grows s s'"
proof (rule catalogue_grows_map)
  show "jobs s' = map (\<lambda>j. if job_id j = uj_id u then j\<lparr>job_name := uj_name u, job_description := uj_description u,
     job_tags_json := uj_tags_json u, job_enabled := uj_enabled u, job_updated_at := now,
     job_current_revision := n\<rparr> else j) (jobs s)"
    using update_job_row_jobs[OF upd] add_revision_jobs[OF add] by (simp add: update_where_def)
  have "job_revisions s1 = job_revisions s" using upd by (auto simp: update_job_row_def split: if_splits)
  then show "prefix (job_revisions s) (job_revisions s')" using add by (auto simp: add_revision_def split: if_splits)
qed (use le in \<open>auto simp: live_def\<close>)

lemma import_one_grows:
  assumes ready: "imports_ready r s (i # is)" and ok: "import_one now i (s, m) = Inr (s', m')"
  shows "catalogue_grows s s'"
proof (cases i)
  case (ImportCreate job res)
  then show ?thesis using ok insert_job_grows by (auto simp: and_then_eq_Inr catalogue_grows_def)
next
  case (ImportUpdate u res)
  then have "ImportUpdate u res \<in> set (i # is)" by simp
  from ready[unfolded imports_ready_def, rule_format, OF this]
  have le: "job_current_revision j \<le> uj_expected_revision u + 1" if "j \<in> set (jobs s)" "job_id j = uj_id u" for j
    using that by auto
  from ok ImportUpdate obtain s1 s2 where "update_job_row u now (uj_expected_revision u + 1) s = Inr s1"
    "add_revision (uj_id u) (uj_expected_revision u + 1) (uj_definition_json u) now ''import''
        (uj_cursor u) (uj_enabled u) s1 = Inr s2"
    and s': "jobs s' = jobs s2" "job_revisions s' = job_revisions s2"
    by (auto simp: and_then_eq_Inr)
  from bump_revision_grows[OF this(1,2) le] s' show ?thesis by (simp add: catalogue_grows_def)
qed (use ok in auto)

lemma import_all_grows:
  "jobs_wf s \<Longrightarrow> imports_ready r s is \<Longrightarrow> import_all now is (s, m) = Inr (s', m') \<Longrightarrow> catalogue_grows s s'"
proof (induction "is" arbitrary: s m)
  case (Cons i "is")
  from Cons.prems(3) obtain s1 m1 where one: "import_one now i (s, m) = Inr (s1, m1)"
    and rest: "import_all now is (s1, m1) = Inr (s', m')" by (auto simp: and_then_eq_Inr)
  from import_one_ready[OF Cons.prems(1,2) one] Cons.IH rest have "catalogue_grows s1 s'" by blast
  with import_one_grows[OF Cons.prems(2) one] show ?case by (rule catalogue_grows_trans)
qed simp

lemma apply_import_grows:
  assumes wf: "jobs_wf s" and ok: "apply_import D windows batch s = Inr (s', summary)"
  shows "catalogue_grows s s'"
proof -
  from ok obtain us s1 where checks: "collect (check_import D s) (ib_jobs batch) = Inr us"
    and all: "import_all (ib_now batch) (ib_jobs batch) (s, \<lparr>is_created = 0, is_updated = 0\<rparr>) = Inr (s1, summary)"
    and s': "jobs s' = jobs s1" "job_revisions s' = job_revisions s1"
    by (auto simp: apply_import_def import_settings_def and_then_eq_Inr)
  from checks_ready[OF wf checks] obtain r where "imports_ready r s (ib_jobs batch)" ..
  from import_all_grows[OF wf this all] s' show ?thesis by (simp add: catalogue_grows_def)
qed

lemma create_job_tx_grows: "create_job_tx job s = Inr s' \<Longrightarrow> catalogue_grows s s'"
  by (auto simp: create_job_tx_def and_then_eq_Inr catalogue_grows_def split: if_splits dest!: insert_job_grows)

lemma update_job_tx_grows:
  assumes "jobs_wf s" and "update_job_tx u s = Inr s'"
  shows "catalogue_grows s s'"
proof -
  from assms(2) obtain j s1 s2 where j: "query_row (\<lambda>j. job_id j = uj_id u \<and> job_removed_at j = None) (jobs s) = Some j"
    and u: "update_job_row u (uj_now u) (job_current_revision j + 1) s = Inr s1"
    and a: "add_revision (uj_id u) (job_current_revision j + 1) (uj_definition_json u) (uj_now u) ''update''
        (uj_cursor u) (uj_enabled u) s1 = Inr s2"
    and s': "jobs s' = jobs s2" "job_revisions s' = job_revisions s2"
    by (auto simp: update_job_tx_def Let_def and_then_eq_Inr split: option.splits if_splits)
  have "j \<in> set (jobs s)" "job_id j = uj_id u" using j by (auto simp: query_row_def find_Some_iff)
  then have "job_current_revision x \<le> job_current_revision j + 1" if "x \<in> set (jobs s)" "job_id x = uj_id u" for x
    using that wf_job_ids[OF assms(1)] by (auto simp: distinct_map inj_on_def)
  from bump_revision_grows[OF u a this] s' show ?thesis by (simp add: catalogue_grows_def)
qed

lemma update_where_grows:
  assumes "jobs s' = update_where p f (jobs s)" and "job_revisions s' = job_revisions s"
    and "\<And>j. job_key (f j) = job_key j \<and> (live (f j) \<longrightarrow> live j)"
  shows "catalogue_grows s s'"
  by (rule catalogue_grows_map[OF assms(1)[unfolded update_where_map]]) (use assms(2,3) in \<open>auto simp: job_key_def\<close>)

lemma set_enabled_tx_grows: "set_enabled_tx reference enabled now s = Inr (s', jid) \<Longrightarrow> catalogue_grows s s'"
  by (auto simp: set_enabled_tx_def Let_def job_key_def live_def split: option.splits if_splits
      intro!: update_where_grows[where f = "\<lambda>x. x\<lparr>job_enabled := enabled, job_updated_at := now\<rparr>"])

lemma remove_job_grows: "remove_job reference now s = Inr s' \<Longrightarrow> catalogue_grows s s'"
  by (auto simp: remove_job_def and_then_eq_Inr Let_def job_key_def live_def split: if_splits
      intro!: update_where_grows[where f = "\<lambda>x. x\<lparr>job_enabled := False, job_removed_at := Some now, job_updated_at := now\<rparr>"])

end
