(* ===== verification/Job_Contracts.thy ===== *)
theory Job_Contracts
  imports Job_Catalogue
begin

text \<open>
  The contracts of the job and settings operations of \<^verbatim>\<open>store.rs\<close>: when creation and
  optimistic update succeed, what a read returns afterwards, and what the configuration
  keys and the global environment hold.
\<close>

section \<open>Rows found by a key\<close>

lemma query_row_key:
  assumes "distinct (map key xs)" and "x \<in> set xs" and "p x" and "\<And>y. y \<in> set xs \<Longrightarrow> p y \<Longrightarrow> key y = key x"
  shows "query_row p xs = Some x"
  using assms unfolding query_row_def
proof (induction xs)
  case (Cons y ys)
  show ?case
  proof (cases "p y")
    case True
    then have "key y = key x" using Cons.prems(4) by simp
    then have "y = x" using Cons.prems(1,2) by (metis distinct_map inj_onD list.set_intros(1))
    then show ?thesis using True by simp
  next
    case False
    have "x \<in> set ys" using False Cons.prems(2,3) by auto
    from Cons.IH[OF _ this Cons.prems(3)] Cons.prems(1,4) have "find p ys = Some x"
      by (metis distinct.simps(2) list.set_intros(2) list.simps(9))
    then show ?thesis using False by simp
  qed
qed simp

lemma filter_key:
  "distinct (map key xs) \<Longrightarrow> x \<in> set xs \<Longrightarrow> p x \<Longrightarrow> (\<And>y. y \<in> set xs \<Longrightarrow> p y \<Longrightarrow> key y = key x) \<Longrightarrow> filter p xs = [x]"
proof (induction xs)
  case (Cons y ys)
  show ?case
  proof (cases "y = x")
    case True
    then have "\<not> p z" if "z \<in> set ys" for z
      using Cons.prems(1,4) that by (metis distinct.simps(2) image_eqI list.set_intros(2) list.set_map list.simps(9))
    then show ?thesis using True Cons.prems(3) by (simp add: filter_empty_conv)
  next
    case False
    then have x: "x \<in> set ys" using Cons.prems(2) by simp
    then have "key y \<noteq> key x" using Cons.prems(1) by (auto simp: image_iff)
    then have "\<not> p y" using Cons.prems(4) by (metis list.set_intros(1))
    moreover from Cons.IH[OF _ x Cons.prems(3)] Cons.prems(1,4) have "filter p ys = [x]"
      by (metis distinct.simps(2) list.set_intros(2) list.simps(9))
    ultimately show ?thesis by simp
  qed
qed simp

lemma live_row:
  assumes "jobs_wf s" and "j \<in> set (jobs s)" and "live j"
  shows "query_row (\<lambda>x. job_id x = job_id j \<and> job_removed_at x = None) (jobs s) = Some j"
  by (rule query_row_key[OF wf_job_ids[OF assms(1)] assms(2)]) (use assms(3) in \<open>auto simp: live_def\<close>)

text \<open>A live job is read by its identity, unless another live job is named by that identity.\<close>

lemma read_job_by_id:
  assumes wf: "jobs_wf s" and j: "j \<in> set (jobs s)" "live j"
    and alone: "\<And>x. x \<in> set (jobs s) \<Longrightarrow> live x \<Longrightarrow> job_name x = job_id j \<Longrightarrow> x = j"
    and v: "v \<in> set (job_revisions s)" "rev_key v = job_key j"
    and c: "c \<in> set (cursors s)" "cur_key c = job_key j"
  shows "read_job s (job_id j) = Inr (map_job j v c)"
proof -
  have "current_revision_of s j = Some v" unfolding current_revision_of_def
    by (rule query_row_key[OF wf_rev_keys[OF wf] v(1)]) (use v(2) in \<open>auto simp: rev_key_def job_key_def\<close>)
  moreover have "current_cursor_of s j = Some c" unfolding current_cursor_of_def
    by (rule query_row_key[OF wf_cur_keys[OF wf] c(1)]) (use c(2) in \<open>auto simp: cur_key_def job_key_def\<close>)
  moreover have "filter (names_job (job_id j)) (jobs s) = [j]"
    by (rule filter_key[OF wf_job_ids[OF wf] j(1)]) (use j(2) alone in \<open>auto simp: names_job_def live_def\<close>)
  ultimately show ?thesis by (simp add: read_job_def joined_job_def List.map_filter_def ok_or_def)
qed


section \<open>Creation\<close>

definition created_record :: "CreateJob \<Rightarrow> job_record" where
  "created_record job =
     \<lparr>jr_id = cj_id job, jr_name = cj_name job, jr_description = cj_description job,
      jr_tags_json = cj_tags_json job, jr_enabled = cj_enabled job, jr_removed_at = None,
      jr_current_revision = 1, jr_definition_json = cj_definition_json job, jr_cursor = cj_cursor job,
      jr_updated_at = cj_now job, jr_cursor_updated_at = cj_now job,
      jr_disabled_since = (if cj_enabled job then None else Some (cj_now job))\<rparr>"

lemma no_revision_of_unknown:
  assumes "jobs_wf s" and "\<not> job_id_exists s jid"
  shows "\<not> revision_exists s jid n"
  using wf_revs_known[OF assms(1)] wf_curs_known[OF assms(1)] assms(2)
  by (auto simp: revision_exists_def known_revision_def rev_key_def cur_key_def job_id_exists_def)

lemma create_job_tx_run:
  assumes wf: "jobs_wf s" and fresh: "\<not> job_id_exists s (cj_id job)" "\<not> live_name_exists s (cj_name job)"
  shows "\<exists>s'. create_job_tx job s = Inr s' \<and> jobs s' = jobs s @ [new_job_row job (cj_now job)]
    \<and> job_revisions s' = job_revisions s @ [\<lparr>rev_job = cj_id job, rev_revision = 1,
         rev_definition_json = cj_definition_json job, rev_created_at = cj_now job, rev_created_by = ''add''\<rparr>]
    \<and> cursors s' = cursors s @ [\<lparr>cur_job = cj_id job, cur_revision = 1, cur_cursor = cj_cursor job,
         cur_one_time_resolved = False, cur_updated_at = cj_now job,
         cur_disabled_since = (if cj_enabled job then None else Some (cj_now job))\<rparr>]"
  using fresh no_revision_of_unknown[OF wf fresh(1)]
  by (simp add: create_job_tx_def insert_job_def add_revision_def revision_exists_def job_id_exists_def new_job_row_def)

lemma create_job_reads:
  assumes wf: "jobs_wf s" and fresh: "\<not> job_id_exists s (cj_id job)" "\<not> live_name_exists s (cj_name job)"
    and alone: "\<not> live_name_exists s (cj_id job)"
    and ok: "create_job_tx job s = Inr s'"
  shows "read_job s' (cj_id job) = Inr (created_record job)"
proof -
  from create_job_tx_run[OF wf fresh] ok
  have s': "jobs s' = jobs s @ [new_job_row job (cj_now job)]"
    "job_revisions s' = job_revisions s @ [\<lparr>rev_job = cj_id job, rev_revision = 1,
         rev_definition_json = cj_definition_json job, rev_created_at = cj_now job, rev_created_by = ''add''\<rparr>]"
    "cursors s' = cursors s @ [\<lparr>cur_job = cj_id job, cur_revision = 1, cur_cursor = cj_cursor job,
         cur_one_time_resolved = False, cur_updated_at = cj_now job,
         cur_disabled_since = (if cj_enabled job then None else Some (cj_now job))\<rparr>]"
    by auto
  have "read_job s' (job_id (new_job_row job (cj_now job))) = Inr (map_job (new_job_row job (cj_now job))
      \<lparr>rev_job = cj_id job, rev_revision = 1,
         rev_definition_json = cj_definition_json job, rev_created_at = cj_now job, rev_created_by = ''add''\<rparr>
      \<lparr>cur_job = cj_id job, cur_revision = 1, cur_cursor = cj_cursor job,
         cur_one_time_resolved = False, cur_updated_at = cj_now job,
         cur_disabled_since = (if cj_enabled job then None else Some (cj_now job))\<rparr>)"
    by (rule read_job_by_id[OF create_job_tx_wf[OF wf ok]])
      (use alone in \<open>auto simp: s' new_job_row_def live_def live_name_exists_def rev_key_def cur_key_def job_key_def\<close>)
  then show ?thesis by (simp add: new_job_row_def map_job_def created_record_def)
qed

text \<open>
  On a well-formed catalogue a job is created exactly when its identity is a valid UUID
  that no job has and no live job has its name, and then, unless a live job is named by the
  new identity, the record that is read back has the fields of the request, revision 1, and
  the disabled mark of a job created disabled.
\<close>

theorem create_job_outcome:
  assumes "jobs_wf s"
  shows "((\<exists>x. create_job D job s = Inr x) \<longleftrightarrow>
      validate_uuid D (cj_id job) = Inr () \<and> \<not> job_id_exists s (cj_id job) \<and> \<not> live_name_exists s (cj_name job))
    \<and> (\<forall>s' r. create_job D job s = Inr (s', r) \<longrightarrow>
         (\<not> live_name_exists s (cj_id job) \<longrightarrow> r = Inr (created_record job)) \<and> jobs_wf s')"
proof (intro conjI allI impI)
  show "(\<exists>x. create_job D job s = Inr x) \<longleftrightarrow>
      validate_uuid D (cj_id job) = Inr () \<and> \<not> job_id_exists s (cj_id job) \<and> \<not> live_name_exists s (cj_name job)"
    using create_job_tx_run[OF assms, of job] unfolding create_job_def and_then_eq_Inr
    by (auto simp: create_job_tx_def split: if_splits)
  fix s' r assume "create_job D job s = Inr (s', r)"
  then have tx: "create_job_tx job s = Inr s'" and r: "r = read_job s' (cj_id job)"
    by (auto simp: create_job_def and_then_eq_Inr)
  then have fresh: "\<not> job_id_exists s (cj_id job)" "\<not> live_name_exists s (cj_name job)"
    by (auto simp: create_job_tx_def split: if_splits)
  show "r = Inr (created_record job)" if "\<not> live_name_exists s (cj_id job)"
    using create_job_reads[OF assms fresh that tx] r by simp
  show "jobs_wf s'" by (rule create_job_tx_wf[OF assms tx])
qed


section \<open>Update\<close>

lemma next_revision_free:
  assumes wf: "jobs_wf s" and j: "j \<in> set (jobs s)"
  shows "\<not> revision_exists s (job_id j) (job_current_revision j + 1)"
proof -
  have "x = j" if "x \<in> set (jobs s)" "job_id x = job_id j" for x
    using that j wf_job_ids[OF wf] by (auto simp: distinct_map inj_on_def)
  then show ?thesis
    using wf_revs_known[OF wf] wf_curs_known[OF wf]
    by (fastforce simp: revision_exists_def known_revision_def rev_key_def cur_key_def)
qed

lemma update_job_tx_run:
  assumes wf: "jobs_wf s" and j: "j \<in> set (jobs s)" "live j" "job_id j = uj_id u"
      "job_current_revision j = uj_expected_revision u"
    and name: "\<not> other_live_name s (uj_name u) (uj_id u)"
  shows "\<exists>s'. update_job_tx u s = Inr s'"
proof -
  define s1 where "s1 = s\<lparr>jobs := update_where (\<lambda>j. job_id j = uj_id u)
       (\<lambda>x. x\<lparr>job_name := uj_name u, job_description := uj_description u,
              job_tags_json := uj_tags_json u, job_enabled := uj_enabled u,
              job_updated_at := uj_now u, job_current_revision := job_current_revision j + 1\<rparr>) (jobs s)\<rparr>"
  have row: "update_job_row u (uj_now u) (job_current_revision j + 1) s = Inr s1"
    using name by (simp add: update_job_row_def s1_def)
  have free: "\<not> revision_exists s1 (uj_id u) (job_current_revision j + 1)"
    using next_revision_free[OF wf j(1)] j(3) by (simp add: revision_exists_def s1_def)
  have "map job_id (jobs s1) = map job_id (jobs s)" by (simp add: s1_def update_where_def)
  then have "job_id ` set (jobs s1) = job_id ` set (jobs s)" by (metis list.set_map)
  then have known: "job_id_exists s1 (uj_id u)" using j(1,3) unfolding job_id_exists_def by (metis imageE image_eqI)
  have "0 < job_current_revision j" using wf_current[OF wf j(1)] by simp
  with free known obtain s2 where "add_revision (uj_id u) (job_current_revision j + 1) (uj_definition_json u) (uj_now u)
      ''update'' (uj_cursor u) (uj_enabled u) s1 = Inr s2" by (auto simp: add_revision_def)
  with live_row[OF wf j(1,2)] row name j(3,4) show ?thesis by (simp add: update_job_tx_def)
qed

lemma update_job_tx_effect:
  assumes ok: "update_job_tx u s = Inr s'"
  shows "\<exists>j v. j \<in> set (jobs s') \<and> live j \<and> job_id j = uj_id u \<and> job_name j = uj_name u
    \<and> job_current_revision j = uj_expected_revision u + 1
    \<and> job_revisions s' = job_revisions s @ [v] \<and> rev_definition_json v = uj_definition_json u
    \<and> rev_key v = (uj_id u, uj_expected_revision u + 1)"
proof -
  from ok obtain j s1 s2 where j: "query_row (\<lambda>j. job_id j = uj_id u \<and> job_removed_at j = None) (jobs s) = Some j"
      "job_current_revision j = uj_expected_revision u"
    and row: "update_job_row u (uj_now u) (uj_expected_revision u + 1) s = Inr s1"
    and add: "add_revision (uj_id u) (uj_expected_revision u + 1) (uj_definition_json u) (uj_now u) ''update''
        (uj_cursor u) (uj_enabled u) s1 = Inr s2"
    and s': "jobs s' = jobs s2" "job_revisions s' = job_revisions s2"
    by (auto simp: update_job_tx_def Let_def and_then_eq_Inr split: option.splits if_splits)
  have js: "j \<in> set (jobs s)" "job_id j = uj_id u" "live j" using j(1) by (auto simp: query_row_def find_Some_iff live_def)
  let ?j = "j\<lparr>job_name := uj_name u, job_description := uj_description u,
     job_tags_json := uj_tags_json u, job_enabled := uj_enabled u, job_updated_at := uj_now u,
     job_current_revision := uj_expected_revision u + 1\<rparr>"
  have "?j \<in> set (jobs s')"
    unfolding s' add_revision_jobs[OF add] update_job_row_jobs[OF row] update_where_def set_map
    by (rule image_eqI[OF _ js(1)]) (simp add: js(2))
  moreover have "job_revisions s1 = job_revisions s" using row by (auto simp: update_job_row_def split: if_splits)
  moreover have "\<exists>v. job_revisions s2 = job_revisions s1 @ [v] \<and> rev_definition_json v = uj_definition_json u
      \<and> rev_key v = (uj_id u, uj_expected_revision u + 1)"
    using add by (auto simp: add_revision_def rev_key_def split: if_splits)
  moreover have "live ?j \<and> job_id ?j = uj_id u \<and> job_name ?j = uj_name u
      \<and> job_current_revision ?j = uj_expected_revision u + 1" using js by (simp add: live_def)
  ultimately show ?thesis unfolding s'(2) by metis
qed

text \<open>
  C20: the optimistic update of a job on a well-formed catalogue succeeds exactly when a live
  job has the identity and the expected revision and no other live job has the new name; it
  moves the job to the next revision, leaves the definitions of all earlier revisions as they
  are, and any other update made with the same expected revision then fails with a conflict,
  so that no update is lost.
\<close>

theorem update_job_optimistic:
  assumes wf: "jobs_wf s"
  shows "((\<exists>s'. update_job_tx u s = Inr s') \<longleftrightarrow>
      (\<exists>j \<in> set (jobs s). job_id j = uj_id u \<and> job_removed_at j = None
          \<and> job_current_revision j = uj_expected_revision u)
      \<and> \<not> other_live_name s (uj_name u) (uj_id u))
    \<and> (\<forall>s'. update_job_tx u s = Inr s' \<longrightarrow>
         jobs_wf s'
         \<and> (\<exists>j \<in> set (jobs s'). live j \<and> job_id j = uj_id u \<and> job_name j = uj_name u
              \<and> job_current_revision j = uj_expected_revision u + 1)
         \<and> (\<exists>v. job_revisions s' = job_revisions s @ [v] \<and> rev_definition_json v = uj_definition_json u
              \<and> rev_key v = (uj_id u, uj_expected_revision u + 1))
         \<and> (\<forall>w. uj_id w = uj_id u \<longrightarrow> uj_expected_revision w = uj_expected_revision u \<longrightarrow>
              (\<exists>e. update_job_tx w s' = Inl (StoreConflict e))))"
proof (intro conjI allI impI iffI)
  assume "\<exists>s'. update_job_tx u s = Inr s'"
  then show "\<exists>j \<in> set (jobs s). job_id j = uj_id u \<and> job_removed_at j = None
          \<and> job_current_revision j = uj_expected_revision u" "\<not> other_live_name s (uj_name u) (uj_id u)"
    by (auto simp: update_job_tx_def query_row_def find_Some_iff split: option.splits if_splits)
next
  assume "(\<exists>j \<in> set (jobs s). job_id j = uj_id u \<and> job_removed_at j = None
          \<and> job_current_revision j = uj_expected_revision u) \<and> \<not> other_live_name s (uj_name u) (uj_id u)"
  then show "\<exists>s'. update_job_tx u s = Inr s'" using update_job_tx_run[OF wf] unfolding live_def by blast
next
  fix s' assume ok: "update_job_tx u s = Inr s'"
  show wf': "jobs_wf s'" by (rule update_job_tx_wf[OF wf ok])
  from update_job_tx_effect[OF ok] obtain j v where
    j: "j \<in> set (jobs s')" "live j" "job_id j = uj_id u" "job_name j = uj_name u"
       "job_current_revision j = uj_expected_revision u + 1"
    and v: "job_revisions s' = job_revisions s @ [v]" "rev_definition_json v = uj_definition_json u"
      "rev_key v = (uj_id u, uj_expected_revision u + 1)" by blast
  show "\<exists>j \<in> set (jobs s'). live j \<and> job_id j = uj_id u \<and> job_name j = uj_name u
      \<and> job_current_revision j = uj_expected_revision u + 1" using j by blast
  show "\<exists>v. job_revisions s' = job_revisions s @ [v] \<and> rev_definition_json v = uj_definition_json u
      \<and> rev_key v = (uj_id u, uj_expected_revision u + 1)" using v by blast
  fix w :: UpdateJob assume "uj_id w = uj_id u" "uj_expected_revision w = uj_expected_revision u"
  then show "\<exists>e. update_job_tx w s' = Inl (StoreConflict e)"
    using live_row[OF wf' j(1,2)] j(3,5) by (simp add: update_job_tx_def)
qed


section \<open>Configuration keys\<close>

text \<open>The bounds of the settings row, as the validators and the schema's checks state them.\<close>

definition settings_ok :: "settings_row \<Rightarrow> bool" where
  "settings_ok r \<longleftrightarrow>
     1 \<le> set_global_concurrency r \<and> set_global_concurrency r \<le> 64
     \<and> 0 \<le> set_run_retention_count r \<and> 0 \<le> set_output_limit r \<and> 0 \<le> set_per_run_output_limit r
     \<and> (case set_run_retention_age r of None \<Rightarrow> True | Some a \<Rightarrow> 0 \<le> a)"

lemma non_negative_Inr: "non_negative key value = Inr n \<longleftrightarrow> parse_i64 value = Some n \<and> 0 \<le> n"
  by (auto simp: non_negative_def split: option.splits if_splits)

lemma map_sum_Inr: "map_sum f g x = Inr y \<longleftrightarrow> (\<exists>z. x = Inr z \<and> y = g z)"
  by (cases x) auto

lemma setting_value_cases:
  assumes "setting_value_of key value = Inr v"
  shows "(\<exists>n. v = SetGlobalConcurrency n \<and> 1 \<le> n \<and> n \<le> 64) \<or> (\<exists>p. v = SetExecutionPath p)
    \<or> (\<exists>n \<ge> 0. v = SetRunRetentionCount n) \<or> v = SetRunRetentionAge None
    \<or> (\<exists>n \<ge> 0. v = SetRunRetentionAge (Some n)) \<or> (\<exists>n \<ge> 0. v = SetOutputLimit n)
    \<or> (\<exists>n \<ge> 0. v = SetPerRunOutputLimit n)"
  using assms unfolding setting_value_of_def
  by (auto simp: map_sum_Inr non_negative_Inr split: option.splits if_splits)

lemma set_setting_tx_ok:
  "settings_ok (settings s) \<Longrightarrow> set_setting_tx key value now s = Inr s' \<Longrightarrow> settings_ok (settings s')"
  unfolding set_setting_tx_def and_then_eq_Inr
  by (auto dest!: setting_value_cases simp: settings_ok_def)

lemma set_environment_tx_ok:
  "settings_ok (settings s) \<Longrightarrow> set_environment_tx D windows name value now s = Inr s' \<Longrightarrow> settings_ok (settings s')"
  by (auto simp: set_environment_tx_def and_then_eq_Inr Let_def settings_ok_def)


section \<open>The global environment\<close>

lemma validate_entries_layer:
  "validate_entries w e = Inr () \<longleftrightarrow> validate_environment_layer w e = Inr ()"
proof
  assume "validate_entries w e = Inr ()"
  then show "validate_environment_layer w e = Inr ()"
    by (cases "validate_environment_layer w e") (simp_all add: validate_entries_def map_err_def)
next
  assume ok: "validate_environment_layer w e = Inr ()"
  then have "\<forall>(n, v) \<in> set e. \<not> invalid_entry w n \<and> NUL \<notin> set v"
    by (simp add: validate_environment_layer_def check_layer_ok)
  then have "\<exists>us. collect (\<lambda>(name, value). validate_environment_entry w name (Some value)) e = Inr us"
    by (induction e) (auto simp: invalid_entry_def validate_environment_entry_def)
  then show "validate_entries w e = Inr ()" using ok by (auto simp: validate_entries_def map_err_def)
qed

lemma of_char_underscore: "of_char (CHR ''_'') = (95 :: nat)"
  by simp

lemma ascii_upper_classes:
  "is_ascii_alphabetic (ascii_upper c) = is_ascii_alphabetic c" "ascii_upper c = CHR ''_'' \<longleftrightarrow> c = CHR ''_''"
  "is_ascii_alphanumeric (ascii_upper c) = is_ascii_alphanumeric c"
proof -
  have up: "of_char (ascii_upper c) = (if 97 \<le> (of_char c :: nat) \<and> (of_char c :: nat) \<le> 122
      then of_char c - 32 else (of_char c :: nat))" by (auto simp: ascii_upper_def)
  have underscore: "x = CHR ''_'' \<longleftrightarrow> of_char x = (95 :: nat)" for x :: char
    by (metis of_char_eq_iff of_char_underscore)
  show "is_ascii_alphabetic (ascii_upper c) = is_ascii_alphabetic c" "ascii_upper c = CHR ''_'' \<longleftrightarrow> c = CHR ''_''"
    "is_ascii_alphanumeric (ascii_upper c) = is_ascii_alphanumeric c"
    by (auto simp: is_ascii_alphabetic_def is_ascii_alphanumeric_def is_ascii_digit_def Let_def up underscore)
qed

lemma valid_name_canonical:
  assumes "is_valid_environment_name n"
  shows "is_valid_environment_name (environment_name w n)"
proof -
  show ?thesis
    using assms by (auto simp: is_valid_environment_name_def environment_name_def to_ascii_uppercase_def
        ascii_upper_classes list_all_iff split: list.splits)
qed

lemma invalid_entry_canonical: "\<not> invalid_entry w n \<Longrightarrow> \<not> invalid_entry w (environment_name w n)"
  by (simp add: invalid_entry_def is_reserved_environment_name_def valid_name_canonical)

lemma layer_iff:
  "validate_environment_layer w e = Inr () \<longleftrightarrow>
     (\<forall>(n, v) \<in> set e. \<not> invalid_entry w n \<and> NUL \<notin> set v) \<and> distinct (map (environment_name w \<circ> fst) e)"
  by (simp add: validate_environment_layer_def check_layer_ok)

lemma layer_filter:
  "validate_environment_layer w e = Inr () \<Longrightarrow> validate_environment_layer w (filter p e) = Inr ()"
  by (auto simp: layer_iff distinct_map_filter)

lemma distinct_filter_filter:
  "distinct (map f xs) \<Longrightarrow> (\<And>x. \<not> (P x \<and> Q x)) \<Longrightarrow> distinct (map f (filter P xs @ filter Q xs))"
proof (induction xs)
  case (Cons x xs)
  have "f x \<notin> f ` set xs" using Cons.prems(1) by simp
  then have "f x \<notin> f ` set (filter P xs)" "f x \<notin> f ` set (filter Q xs)" by auto
  then show ?case using Cons by auto
qed simp

lemma layer_insert:
  assumes e: "validate_environment_layer w e = Inr ()" and n: "\<not> invalid_entry w n" "NUL \<notin> set v"
    and fresh: "\<And>x. x \<in> set e \<Longrightarrow> environment_name w (fst x) \<noteq> environment_name w n"
  shows "validate_environment_layer w (btree_insert (environment_name w n) v e) = Inr ()"
proof -
  let ?k = "environment_name w n"
  let ?a = "filter (\<lambda>x. fst x < ?k) e" let ?b = "filter (\<lambda>x. ?k < fst x) e"
  let ?f = "environment_name w \<circ> fst"
  have "distinct (map ?f e)" using e by (simp add: layer_iff)
  then have "distinct (map ?f (?a @ ?b))"
    by (rule distinct_filter_filter) (blast dest: order_less_asym)
  moreover have "environment_name w n \<notin> ?f ` set (?a @ ?b)" using fresh by force
  ultimately have "distinct (map ?f (?a @ (?k, v) # ?b))" by (auto simp: image_iff)
  moreover have "\<forall>(m, x) \<in> set (?a @ (?k, v) # ?b). \<not> invalid_entry w m \<and> NUL \<notin> set x"
    using e n invalid_entry_canonical[OF n(1)] by (auto simp: layer_iff)
  ultimately show ?thesis unfolding layer_iff btree_insert_def by blast
qed

text \<open>
  The environment's JSON codec (a third-party serializer over ordered maps): printing a map
  and parsing it gives the map back, and a parse gives an ordered map.
\<close>

definition environment_codec :: "codecs \<Rightarrow> bool" where
  "environment_codec D \<longleftrightarrow>
     (\<forall>e. btree_wf e \<longrightarrow> environment_from_str D (environment_to_string D e) = Inr e)
     \<and> (\<forall>t e. environment_from_str D t = Inr e \<longrightarrow> btree_wf e)"

definition updated_environment :: "bool \<Rightarrow> string \<Rightarrow> string option \<Rightarrow> env \<Rightarrow> env" where
  "updated_environment w name val e =
     (let kept = filter (\<lambda>x. environment_name w (fst x) \<noteq> environment_name w name) e
      in case val of None \<Rightarrow> kept | Some v \<Rightarrow> btree_insert (environment_name w name) v kept)"

lemma updated_environment_ok:
  assumes "validate_environment_layer w e = Inr ()" and "btree_wf e" and "\<not> invalid_entry w n"
    and "\<And>v. val = Some v \<Longrightarrow> NUL \<notin> set v"
  shows "validate_environment_layer w (updated_environment w n val e) = Inr () \<and> btree_wf (updated_environment w n val e)"
  using assms by (cases val) (auto simp: updated_environment_def layer_filter intro!: layer_insert)

lemma environment_value_find:
  "environment_value w e name = map_option snd (find (\<lambda>x. environment_name w (fst x) = environment_name w name) e)"
  by (induction e) auto

lemma parse_printed:
  assumes "environment_codec D" and "btree_wf e" and "validate_environment_layer w e = Inr ()"
  shows "parse_environment_json D w (environment_to_string D e) = Inr e"
  using assms(1,2) validate_entries_layer[THEN iffD2, OF assms(3)]
  by (simp add: parse_environment_json_def environment_codec_def)

lemma environment_value_filter:
  "environment_value w (filter (\<lambda>x. environment_name w (fst x) \<noteq> environment_name w n) e) m =
     (if environment_name w m = environment_name w n then None else environment_value w e m)"
  by (induction e) auto

text \<open>With at most one entry per canonical name the lookup does not depend on the order.\<close>

lemma environment_value_Some:
  "distinct (map (environment_name w \<circ> fst) e) \<Longrightarrow>
   environment_value w e m = Some v \<longleftrightarrow> (\<exists>k. (k, v) \<in> set e \<and> environment_name w k = environment_name w m)"
  by (induction e) (force simp: image_iff)+

lemma set_btree_insert: "k \<notin> fst ` set m \<Longrightarrow> set (btree_insert k v m) = insert (k, v) (set m)"
  by (force simp: btree_insert_def)

lemma updated_environment_value:
  assumes e: "validate_environment_layer w e = Inr ()" "btree_wf e" and n: "\<not> invalid_entry w n"
    and v: "\<And>v. val = Some v \<Longrightarrow> NUL \<notin> set v"
  shows "environment_value w (updated_environment w n val e) m =
     (if environment_name w m = environment_name w n then val else environment_value w e m)"
proof (cases val)
  case None
  then show ?thesis by (simp add: updated_environment_def environment_value_filter)
next
  case (Some x)
  let ?kept = "filter (\<lambda>x. environment_name w (fst x) \<noteq> environment_name w n) e"
  let ?u = "updated_environment w n val e"
  have u: "?u = btree_insert (environment_name w n) x ?kept" using Some by (simp add: updated_environment_def)
  have "environment_name w n \<notin> fst ` set ?kept" by auto
  then have "set ?u = insert (environment_name w n, x) (set ?kept)" unfolding u by (rule set_btree_insert)
  moreover have "distinct (map (environment_name w \<circ> fst) ?u)"
    using updated_environment_ok[OF e n v] by (simp add: layer_iff)
  moreover have "distinct (map (environment_name w \<circ> fst) ?kept)"
    using layer_filter[OF e(1)] by (simp add: layer_iff)
  ultimately have "environment_value w ?u m = Some y \<longleftrightarrow>
      (if environment_name w m = environment_name w n then y = x else environment_value w ?kept m = Some y)" for y
    by (auto simp: environment_value_Some)
  then show ?thesis
    using Some environment_value_filter[of w n e m]
    by (cases "environment_value w ?u m"; cases "environment_value w e m") (auto split: if_splits)
qed

lemma read_back_environment:
  assumes codec: "environment_codec D" and before: "read_settings D w s = Inr before"
    and e: "btree_wf (rec_environment before)" "validate_environment_layer w (rec_environment before) = Inr ()"
    and ok: "\<not> invalid_entry w n" "\<forall>v. val = Some v \<longrightarrow> NUL \<notin> set v"
  shows "read_settings D w (s\<lparr>settings := (settings s)\<lparr>set_environment_json :=
      environment_to_string D (updated_environment w n val (rec_environment before)), set_updated_at := now\<rparr>\<rparr>)
    = Inr (before\<lparr>rec_environment := updated_environment w n val (rec_environment before)\<rparr>)"
proof -
  let ?u = "updated_environment w n val (rec_environment before)"
  have "validate_environment_layer w ?u = Inr () \<and> btree_wf ?u"
    by (rule updated_environment_ok[OF e(2,1) ok(1)]) (use ok(2) in simp)
  then have "parse_environment_json D w (environment_to_string D ?u) = Inr ?u"
    by (intro parse_printed[OF codec]) simp_all
  then show ?thesis using before by (auto simp: read_settings_def and_then_eq_Inr)
qed

text \<open>
  C37: setting or unsetting a variable of the global environment of a store whose settings
  read back is accepted exactly when the name is a valid, unreserved one and the value has no
  NUL; the settings then read back with the variable's new value (none when unset), under
  every spelling that the platform identifies with it, every other variable as before, and
  every other setting unchanged.
\<close>

theorem set_environment_effect:
  assumes codec: "environment_codec D" and before: "read_settings D w s = Inr before"
  shows "((\<exists>x. set_environment D w n val now s = Inr x) \<longleftrightarrow>
       \<not> invalid_entry w n \<and> (\<forall>v. val = Some v \<longrightarrow> NUL \<notin> set v))
    \<and> (\<forall>s' r. set_environment D w n val now s = Inr (s', r) \<longrightarrow>
         (\<exists>after. r = Inr after \<and> read_settings D w s' = Inr after
            \<and> (\<forall>m. environment_value w (rec_environment after) m =
                 (if environment_name w m = environment_name w n then val
                  else environment_value w (rec_environment before) m))
            \<and> after\<lparr>rec_environment := rec_environment before\<rparr> = before))"
proof -
  let ?e = "rec_environment before" let ?u = "updated_environment w n val (rec_environment before)"
  have parse: "parse_environment_json D w (set_environment_json (settings s)) = Inr ?e"
    using before by (auto simp: read_settings_def and_then_eq_Inr)
  then have e: "btree_wf ?e" "validate_environment_layer w ?e = Inr ()"
    using codec by (auto simp: parse_environment_json_def and_then_eq_Inr environment_codec_def map_err_eq_Inr
        validate_entries_layer split: if_splits)
  have entry: "validate_environment_entry w n val = Inr () \<longleftrightarrow>
      \<not> invalid_entry w n \<and> (\<forall>v. val = Some v \<longrightarrow> NUL \<notin> set v)"
    by (auto simp: validate_environment_entry_def invalid_entry_def split: option.splits)
  define s1 where "s1 = s\<lparr>settings := (settings s)\<lparr>set_environment_json := environment_to_string D ?u, set_updated_at := now\<rparr>\<rparr>"
  have run: "set_environment D w n val now s =
      and_then (validate_environment_entry w n val) (\<lambda>_. Inr (s1, read_settings D w s1))"
    by (simp add: set_environment_def set_environment_tx_def parse s1_def updated_environment_def Let_def)
  note reads = read_back_environment[OF codec before e, of n val now, folded s1_def]
  show ?thesis
  proof (intro conjI allI impI)
    show "(\<exists>x. set_environment D w n val now s = Inr x) \<longleftrightarrow>
       \<not> invalid_entry w n \<and> (\<forall>v. val = Some v \<longrightarrow> NUL \<notin> set v)"
      unfolding run and_then_eq_Inr entry[symmetric] by simp
    fix s' r assume "set_environment D w n val now s = Inr (s', r)"
    then have eqs: "s' = s1" "r = read_settings D w s1"
      and ok: "\<not> invalid_entry w n" "\<forall>v. val = Some v \<longrightarrow> NUL \<notin> set v"
      using entry unfolding run and_then_eq_Inr by auto
    have "environment_value w ?u m = (if environment_name w m = environment_name w n then val
        else environment_value w ?e m)" for m
      by (rule updated_environment_value[OF e(2,1) ok(1)]) (use ok(2) in simp)
    then show "\<exists>after. r = Inr after \<and> read_settings D w s' = Inr after
            \<and> (\<forall>m. environment_value w (rec_environment after) m =
                 (if environment_name w m = environment_name w n then val
                  else environment_value w (rec_environment before) m))
            \<and> after\<lparr>rec_environment := rec_environment before\<rparr> = before"
      unfolding eqs reads[OF ok] by (intro exI[of _ "before\<lparr>rec_environment := ?u\<rparr>"]) simp
  qed
qed


section \<open>Concrete instances\<close>

definition plain_word :: "string \<Rightarrow> string" where
  "plain_word s = concat (map (\<lambda>c. [CHR ''1'', c]) s) @ [CHR ''0'']"

fun plain_words :: "string \<Rightarrow> string list \<Rightarrow> string \<Rightarrow> string list option" where
  "plain_words acc ws [] = (if acc = [] then Some (rev ws) else None)"
| "plain_words acc ws (x # r) =
     (if x = CHR ''0'' then plain_words [] (rev acc # ws) r
      else case r of [] \<Rightarrow> None | c # r' \<Rightarrow> plain_words (c # acc) ws r')"

fun plain_pairs :: "string list \<Rightarrow> env option" where
  "plain_pairs [] = Some []"
| "plain_pairs [k] = None"
| "plain_pairs (k # v # r) = map_option ((#) (k, v)) (plain_pairs r)"

definition plain_codecs :: codecs where
  "plain_codecs =
     \<lparr>from_str = (\<lambda>t. Inr (JObject [])), definition_from_str = (\<lambda>t. None), uuid_hyphenated = (\<lambda>t. Some t),
      environment_from_str = (\<lambda>t. if t = ''{}'' then Inr []
        else case Option.bind (plain_words [] [] t) plain_pairs of
               None \<Rightarrow> Inl ''syntax''
             | Some e \<Rightarrow> if btree_wf e then Inr e else Inl ''order''),
      environment_to_string = (\<lambda>e. if e = [] then ''{}''
        else concat (map plain_word (concat (map (\<lambda>(k, v). [k, v]) e))))\<rparr>"

lemma plain_words_word: "plain_words acc ws (plain_word s @ r) = plain_words [] ((rev acc @ s) # ws) r"
  by (induction s arbitrary: acc) (simp_all add: plain_word_def)

lemma plain_words_words: "plain_words [] ws (concat (map plain_word xs)) = Some (rev ws @ xs)"
  by (induction xs arbitrary: ws) (simp_all add: plain_words_word)

lemma plain_pairs_pairs: "plain_pairs (concat (map (\<lambda>(k, v). [k, v]) e)) = Some e"
  by (induction e) auto

lemma plain_word_head: "plain_word s @ r \<noteq> ''{}''"
  by (cases s) (simp_all add: plain_word_def)

lemma plain_codecs_environment: "environment_codec plain_codecs"
  unfolding environment_codec_def
proof (intro conjI allI impI)
  fix e :: env assume "btree_wf e"
  then show "environment_from_str plain_codecs (environment_to_string plain_codecs e) = Inr e"
    by (cases e) (auto simp: plain_codecs_def plain_word_head plain_words_word plain_words_words plain_pairs_pairs)
next
  fix t e assume "environment_from_str plain_codecs t = Inr e"
  then show "btree_wf e" by (auto simp: plain_codecs_def split: if_splits option.splits)
qed

definition sample_create :: CreateJob where
  "sample_create =
     \<lparr>cj_id = ''a'', cj_name = ''backup'', cj_description = None, cj_tags_json = ''[]'', cj_enabled = True,
      cj_definition_json = ''{}'', cj_now = 5, cj_cursor = 5\<rparr>"

definition sample_update :: UpdateJob where
  "sample_update =
     \<lparr>uj_id = ''a'', uj_expected_revision = 1, uj_name = ''nightly'', uj_description = None, uj_tags_json = ''[]'',
      uj_enabled = True, uj_definition_json = ''{}'', uj_now = 7, uj_cursor = 7\<rparr>"

definition sample_store :: store where
  "sample_store = (case create_job_tx sample_create initial_store of Inr s \<Rightarrow> s | Inl _ \<Rightarrow> initial_store)"

lemma initial_jobs_wf: "jobs_wf initial_store"
  by (simp add: jobs_wf_def initial_store_def)

lemmas sample_simps = sample_create_def sample_update_def initial_store_def create_job_tx_def insert_job_def
  add_revision_def revision_exists_def job_id_exists_def live_name_exists_def other_live_name_def new_job_row_def

lemma sample_created: "create_job_tx sample_create initial_store = Inr sample_store"
  by (simp add: sample_store_def sample_simps)

lemma sample_jobs_wf: "jobs_wf sample_store"
  by (rule create_job_tx_wf[OF initial_jobs_wf sample_created])

theorem create_job_outcome_witness:
  "\<exists>s'. create_job plain_codecs sample_create initial_store = Inr (s', Inr (created_record sample_create)) \<and> jobs_wf s'"
proof -
  have lower: "to_ascii_lowercase ''a'' = ''a''" by code_simp
  note outcome = create_job_outcome[OF initial_jobs_wf, of plain_codecs sample_create]
  have free: "\<not> live_name_exists initial_store (cj_id sample_create)" "\<not> job_id_exists initial_store (cj_id sample_create)"
      "\<not> live_name_exists initial_store (cj_name sample_create)" "validate_uuid plain_codecs (cj_id sample_create) = Inr ()"
    by (simp_all add: sample_simps validate_uuid_def plain_codecs_def lower)
  with outcome obtain s' r where "create_job plain_codecs sample_create initial_store = Inr (s', r)" by fastforce
  with outcome free show ?thesis by blast
qed

theorem update_job_optimistic_witness:
  "\<exists>s'. update_job_tx sample_update sample_store = Inr s' \<and> jobs_wf s'
     \<and> (\<exists>e. update_job_tx (sample_update\<lparr>uj_name := ''weekly''\<rparr>) s' = Inl (StoreConflict e))"
proof -
  note optimistic = update_job_optimistic[OF sample_jobs_wf, of sample_update]
  have "jobs sample_store = [new_job_row sample_create 5]" by (simp add: sample_store_def sample_simps)
  then have "(\<exists>j \<in> set (jobs sample_store). job_id j = uj_id sample_update \<and> job_removed_at j = None
      \<and> job_current_revision j = uj_expected_revision sample_update)
      \<and> \<not> other_live_name sample_store (uj_name sample_update) (uj_id sample_update)"
    by (simp add: sample_simps)
  with optimistic obtain s' where "update_job_tx sample_update sample_store = Inr s'" by blast
  with optimistic show ?thesis by fastforce
qed

theorem set_environment_effect_witness:
  "\<exists>s' after. set_environment plain_codecs True ''Lang'' (Some ''C'') 9 initial_store = Inr (s', Inr after)
     \<and> environment_value True (rec_environment after) ''LANG'' = Some ''C''"
proof -
  have "\<exists>before. read_settings plain_codecs True initial_store = Inr before"
    by (simp add: read_settings_def initial_store_def parse_environment_json_def plain_codecs_def validate_entries_def
        validate_environment_layer_def)
  then obtain before where before: "read_settings plain_codecs True initial_store = Inr before" ..
  note effect = set_environment_effect[OF plain_codecs_environment before, of "''Lang''" "Some ''C''" 9]
  have "\<not> invalid_entry True ''Lang''" "NUL \<notin> set ''C''" by code_simp+
  with conjunct1[OF effect] have "\<exists>x. set_environment plain_codecs True ''Lang'' (Some ''C'') 9 initial_store = Inr x"
    by blast
  then obtain s' r where ok: "set_environment plain_codecs True ''Lang'' (Some ''C'') 9 initial_store = Inr (s', r)"
    by (metis surj_pair)
  from conjunct2[OF effect, rule_format, OF ok] obtain after where "r = Inr after"
    and val: "\<And>m. environment_value True (rec_environment after) m = (if environment_name True m = environment_name True ''Lang''
        then Some ''C'' else environment_value True (rec_environment before) m)" by blast
  moreover have "environment_name True ''LANG'' = environment_name True ''Lang''" by code_simp
  ultimately show ?thesis using ok val[of "''LANG''"] by auto
qed

end
