(* ===== verification/Store_Invariant.thy ===== *)
theory Store_Invariant
  imports Store_Runs
begin

text \<open>
  The invariant that ties the runs of a database to their attempts, and how the operations
  change it. A run is in execution exactly when it has one active attempt in the same state,
  unless its termination is unconfirmed; it is finished exactly when its state is terminal;
  its queue position is unique and below the next one to be handed out. An operation either
  lets the existing rows \<open>evolve\<close>, adds one run, or adds one attempt to a pending run.
\<close>

section \<open>The invariant\<close>

definition attempts_of :: "store \<Rightarrow> string \<Rightarrow> attempt_row list" where
  "attempts_of s rid = filter (\<lambda>a. att_run a = rid) (attempts s)"

definition expected_active :: "run_row \<Rightarrow> attempt_state list" where
  "expected_active r =
     (if run_st r = Starting then [AttStarting]
      else if run_st r = Running \<and> \<not> quarantined r then [AttRunning]
      else [])"

definition lost_attempt :: "attempt_row \<Rightarrow> bool" where
  "lost_attempt a \<longleftrightarrow>
     att_result_class a \<in> {Some ''output_preparation_failed'', Some ''interrupted_unknown''}"

definition run_ok :: "run_row \<Rightarrow> attempt_row list \<Rightarrow> bool" where
  "run_ok r as \<longleftrightarrow>
     (run_finished_at r \<noteq> None \<longleftrightarrow> is_terminal (run_st r))
     \<and> map att_st (filter active_attempt as) = expected_active r
     \<and> (run_reason r = Some ''termination_unconfirmed'' \<longrightarrow> run_st r = Running \<or> is_terminal (run_st r))
     \<and> (is_terminal (run_st r) \<or> \<not> list_ex lost_attempt as)"

definition attempt_key :: "attempt_row \<Rightarrow> string \<times> int" where
  "attempt_key a = (att_run a, att_number a)"

definition store_wf :: "store \<Rightarrow> bool" where
  "store_wf s \<longleftrightarrow>
     distinct (map run_id (runs s))
     \<and> distinct (map attempt_key (attempts s))
     \<and> (\<forall>a \<in> set (attempts s). att_run a \<in> run_id ` set (runs s))
     \<and> (\<forall>r \<in> set (runs s). run_ok r (attempts_of s (run_id r)))
     \<and> distinct (map run_sequence (runs s))
     \<and> (\<forall>r \<in> set (runs s). 0 < run_sequence r \<and> run_sequence r < next_sequence s)
     \<and> 0 < next_sequence s
     \<and> (\<forall>r \<in> set (runs s). \<forall>x \<in> set (runs s).
          run_replacement_candidate r \<and> run_replacement_candidate x \<and> run_job r = run_job x \<longrightarrow>
          run_id r = run_id x)"

text \<open>The changes of state that the store makes: those of the run machine and a few more.\<close>

definition store_legal :: "run_state \<Rightarrow> run_state \<Rightarrow> bool" where
  "store_legal st st' \<longleftrightarrow>
     st' = st \<or> run_legal st st'
     \<or> (st, st') \<in> {(RetryWait, SkippedOverlap), (Queued, Failed), (RetryWait, Failed),
                     (Starting, Succeeded), (Starting, TimedOut), (Starting, RetryWait)}"


section \<open>Rows that evolve\<close>

definition keeps_identity :: "run_row \<Rightarrow> run_row \<Rightarrow> bool" where
  "keeps_identity r r' \<longleftrightarrow>
     run_id r' = run_id r \<and> run_job r' = run_job r \<and> run_sequence r' = run_sequence r
     \<and> run_revision r' = run_revision r \<and> run_trig r' = run_trig r \<and> run_nominal r' = run_nominal r
     \<and> run_snapshot_json r' = run_snapshot_json r
     \<and> (run_replacement_candidate r' \<longrightarrow> run_replacement_candidate r)"

definition evolves_by :: "(run_row \<Rightarrow> run_row) \<Rightarrow> (attempt_row \<Rightarrow> attempt_row) \<Rightarrow> store \<Rightarrow> store \<Rightarrow> bool" where
  "evolves_by F G s s' \<longleftrightarrow>
     runs s' = map F (runs s) \<and> attempts s' = map G (attempts s) \<and> next_sequence s \<le> next_sequence s'
     \<and> (\<forall>r \<in> set (runs s). keeps_identity r (F r) \<and> store_legal (run_st r) (run_st (F r))
          \<and> run_ok (F r) (map G (attempts_of s (run_id r))))
     \<and> (\<forall>a \<in> set (attempts s). attempt_key (G a) = attempt_key a)"

text \<open>What an operation keeps of a database: the invariant and the history of every run.\<close>

definition run_moves :: "store \<Rightarrow> store \<Rightarrow> bool" where
  "run_moves s s' \<longleftrightarrow>
     (\<forall>r \<in> set (runs s). \<exists>r' \<in> set (runs s'). run_id r' = run_id r \<and> run_job r' = run_job r
        \<and> run_snapshot_json r' = run_snapshot_json r \<and> store_legal\<^sup>*\<^sup>* (run_st r) (run_st r')
        \<and> (is_terminal (run_st r) \<longrightarrow> run_st r' = run_st r))"

definition preserves :: "store \<Rightarrow> store \<Rightarrow> bool" where
  "preserves s s' \<longleftrightarrow> (store_wf s \<longrightarrow> store_wf s' \<and> run_moves s s')"

lemma run_okD:
  assumes "run_ok r as"
  shows run_ok_finished: "run_finished_at r \<noteq> None \<longleftrightarrow> is_terminal (run_st r)"
    and run_ok_active: "map att_st (filter active_attempt as) = expected_active r"
    and run_ok_reason: "run_reason r = Some ''termination_unconfirmed'' \<Longrightarrow> run_st r = Running \<or> is_terminal (run_st r)"
    and run_ok_lost: "is_terminal (run_st r) \<or> \<not> list_ex lost_attempt as"
  using assms unfolding run_ok_def by blast+

lemma store_wfD:
  assumes "store_wf s"
  shows wf_ids: "distinct (map run_id (runs s))"
    and wf_keys: "distinct (map attempt_key (attempts s))"
    and wf_owner: "a \<in> set (attempts s) \<Longrightarrow> att_run a \<in> run_id ` set (runs s)"
    and wf_run_ok: "r \<in> set (runs s) \<Longrightarrow> run_ok r (attempts_of s (run_id r))"
    and wf_sequences: "distinct (map run_sequence (runs s))"
    and wf_sequence: "r \<in> set (runs s) \<Longrightarrow> 0 < run_sequence r \<and> run_sequence r < next_sequence s"
    and wf_next: "0 < next_sequence s"
    and wf_candidate: "r \<in> set (runs s) \<Longrightarrow> x \<in> set (runs s) \<Longrightarrow> run_replacement_candidate r \<Longrightarrow>
      run_replacement_candidate x \<Longrightarrow> run_job r = run_job x \<Longrightarrow> run_id r = run_id x"
  using assms unfolding store_wf_def by blast+

lemma active_not_terminal: "active_state st \<Longrightarrow> \<not> is_terminal st"
  by (auto simp: is_terminal_def)

lemma store_legal_terminal: "store_legal st st' \<Longrightarrow> is_terminal st \<Longrightarrow> st' = st"
  by (cases st) (auto simp: store_legal_def is_terminal_def)

lemma run_moves_refl [simp]: "run_moves s s"
  by (auto simp: run_moves_def)

lemma run_moves_trans: "run_moves a b \<Longrightarrow> run_moves b c \<Longrightarrow> run_moves a c"
  unfolding run_moves_def by (metis (no_types, lifting) rtranclp_trans)

lemma preserves_refl [simp]: "preserves s s"
  by (simp add: preserves_def)

lemma evolves_attempts_of:
  assumes "evolves_by F G s s'" and "r \<in> set (runs s)"
  shows "attempts_of s' (run_id (F r)) = map G (attempts_of s (run_id r))"
proof -
  have "run_id (F r) = run_id r" and "attempts s' = map G (attempts s)"
    and G: "\<forall>a \<in> set (attempts s). attempt_key (G a) = attempt_key a"
    using assms by (auto simp: evolves_by_def keeps_identity_def)
  moreover have "filter (\<lambda>a. att_run a = rid) (map G as) = map G (filter (\<lambda>a. att_run a = rid) as)"
    if "\<forall>a \<in> set as. attempt_key (G a) = attempt_key a" for as rid
    using that by (induction as) (auto simp: attempt_key_def)
  ultimately show ?thesis by (simp add: attempts_of_def)
qed

lemma evolves_wf:
  assumes wf: "store_wf s" and ev: "evolves_by F G s s'"
  shows "store_wf s'"
proof -
  have runs: "runs s' = map F (runs s)" and atts: "attempts s' = map G (attempts s)"
    and seq: "next_sequence s \<le> next_sequence s'"
    and F: "\<And>r. r \<in> set (runs s) \<Longrightarrow> keeps_identity r (F r)"
    and ok: "\<And>r. r \<in> set (runs s) \<Longrightarrow> run_ok (F r) (map G (attempts_of s (run_id r)))"
    and G: "\<And>a. a \<in> set (attempts s) \<Longrightarrow> attempt_key (G a) = attempt_key a"
    using ev by (auto simp: evolves_by_def)
  have ids: "map run_id (runs s') = map run_id (runs s)"
    and seqs: "map run_sequence (runs s') = map run_sequence (runs s)"
    and keys: "map attempt_key (attempts s') = map attempt_key (attempts s)"
    using F G by (auto simp: runs atts keeps_identity_def)
  have "run_id ` set (runs s') = run_id ` set (runs s)" using ids by (metis list.set_map)
  moreover have "att_run (G a) = att_run a" if "a \<in> set (attempts s)" for a
    using G[OF that] by (simp add: attempt_key_def)
  ultimately have owners: "\<forall>a \<in> set (attempts s'). att_run a \<in> run_id ` set (runs s')"
    using wf by (auto simp: atts store_wf_def)
  have oks: "\<forall>r \<in> set (runs s'). run_ok r (attempts_of s' (run_id r))"
    using ok evolves_attempts_of[OF ev] by (auto simp: runs)
  have "\<forall>r \<in> set (runs s'). 0 < run_sequence r \<and> run_sequence r < next_sequence s'"
    using wf seq F by (fastforce simp: runs store_wf_def keeps_identity_def)
  moreover have "\<forall>r \<in> set (runs s'). \<forall>x \<in> set (runs s').
      run_replacement_candidate r \<and> run_replacement_candidate x \<and> run_job r = run_job x \<longrightarrow> run_id r = run_id x"
  proof (intro ballI impI)
    fix r' x' assume "r' \<in> set (runs s')" "x' \<in> set (runs s')"
      and cand: "run_replacement_candidate r' \<and> run_replacement_candidate x' \<and> run_job r' = run_job x'"
    then obtain r x where r: "r \<in> set (runs s)" "r' = F r" and x: "x \<in> set (runs s)" "x' = F x"
      by (auto simp: runs)
    have "run_replacement_candidate r \<and> run_replacement_candidate x \<and> run_job r = run_job x"
      using cand F[OF r(1)] F[OF x(1)] by (auto simp: r x keeps_identity_def)
    then have "run_id r = run_id x" using wf r(1) x(1) unfolding store_wf_def by blast
    then show "run_id r' = run_id x'" using F[OF r(1)] F[OF x(1)] by (simp add: r x keeps_identity_def)
  qed
  moreover have "0 < next_sequence s'" using wf seq by (auto simp: store_wf_def)
  moreover have "distinct (map run_id (runs s'))" "distinct (map run_sequence (runs s'))"
    "distinct (map attempt_key (attempts s'))"
    using wf unfolding ids seqs keys by (simp_all add: store_wf_def)
  ultimately show ?thesis using owners oks unfolding store_wf_def by blast
qed

lemma evolves_moves:
  assumes "evolves_by F G s s'"
  shows "run_moves s s'"
proof -
  have "\<exists>r' \<in> set (runs s'). run_id r' = run_id r \<and> run_job r' = run_job r
        \<and> run_snapshot_json r' = run_snapshot_json r \<and> store_legal\<^sup>*\<^sup>* (run_st r) (run_st r')
        \<and> (is_terminal (run_st r) \<longrightarrow> run_st r' = run_st r)" if r: "r \<in> set (runs s)" for r
  proof (rule bexI[of _ "F r"])
    show "F r \<in> set (runs s')" using assms r by (simp add: evolves_by_def)
    have "keeps_identity r (F r)" "store_legal (run_st r) (run_st (F r))"
      using assms r by (auto simp: evolves_by_def)
    then show "run_id (F r) = run_id r \<and> run_job (F r) = run_job r
        \<and> run_snapshot_json (F r) = run_snapshot_json r \<and> store_legal\<^sup>*\<^sup>* (run_st r) (run_st (F r))
        \<and> (is_terminal (run_st r) \<longrightarrow> run_st (F r) = run_st r)"
      by (auto simp: keeps_identity_def dest: store_legal_terminal)
  qed
  then show ?thesis by (simp add: run_moves_def)
qed

lemma evolves_preserves: "(store_wf s \<Longrightarrow> evolves_by F G s s') \<Longrightarrow> preserves s s'"
  using evolves_wf evolves_moves by (auto simp: preserves_def)

lemma preserves_trans [trans]: "preserves a b \<Longrightarrow> preserves b c \<Longrightarrow> preserves a c"
  using run_moves_trans by (auto simp: preserves_def)

text \<open>Changes of other tables.\<close>

lemma same_rows_preserves:
  assumes "runs s' = runs s" and "attempts s' = attempts s" and "next_sequence s \<le> next_sequence s'"
  shows "preserves s s'"
proof (rule evolves_preserves)
  assume "store_wf s"
  then show "evolves_by id id s s'"
    using assms by (simp add: evolves_by_def store_wf_def keeps_identity_def store_legal_def)
qed

lemma other_tables [simp]:
  "runs (push_event t k j r d s) = runs s" "attempts (push_event t k j r d s) = attempts s"
  "next_sequence (push_event t k j r d s) = next_sequence s"
  "runs (delete_intents x s) = runs s" "attempts (delete_intents x s) = attempts s"
  "next_sequence (delete_intents x s) = next_sequence s"
  "runs (update_artifacts p f s) = runs s" "attempts (update_artifacts p f s) = attempts s"
  "next_sequence (update_artifacts p f s) = next_sequence s"
  "runs (update_attempts q g s) = runs s" "attempts (update_runs p' f' s) = attempts s"
  "next_sequence (update_runs p' f' s) = next_sequence s"
  "next_sequence (update_attempts q g s) = next_sequence s"
  "runs (update_runs p' f' s) = update_where p' f' (runs s)"
  "attempts (update_attempts q g s) = update_where q g (attempts s)"
  "runs (replace_intent i s) = runs s" "attempts (replace_intent i s) = attempts s"
  "next_sequence (replace_intent i s) = next_sequence s"
  by (simp_all add: push_event_def delete_intents_def update_artifacts_def update_attempts_def
      update_runs_def replace_intent_def)

lemma soft_remove_tables [simp]:
  "runs (soft_remove_after_one_time_completion D rid now s) = runs s"
  "attempts (soft_remove_after_one_time_completion D rid now s) = attempts s"
  "next_sequence (soft_remove_after_one_time_completion D rid now s) = next_sequence s"
  by (simp_all add: soft_remove_after_one_time_completion_def Let_def split: option.splits)


section \<open>Operations on one run\<close>

lemma wf_run_unique:
  assumes "store_wf s" and "r \<in> set (runs s)" and "x \<in> set (runs s)" and "run_id r = run_id x"
  shows "r = x"
  using assms by (auto simp: store_wf_def distinct_map inj_on_def)

lemma evolves_one:
  assumes wf: "store_wf s" and r: "r \<in> set (runs s)"
    and p: "\<And>x. p x \<Longrightarrow> run_id x = run_id r" and q: "\<And>a. q a \<Longrightarrow> att_run a = run_id r"
    and f: "keeps_identity r (if p r then f r else r)"
      "store_legal (run_st r) (run_st (if p r then f r else r))"
    and g: "\<And>a. attempt_key (g a) = attempt_key a"
    and ok: "run_ok (if p r then f r else r) (update_where q g (attempts_of s (run_id r)))"
    and s': "runs s' = update_where p f (runs s)" "attempts s' = update_where q g (attempts s)"
      "next_sequence s \<le> next_sequence s'"
  shows "evolves_by (\<lambda>x. if p x then f x else x) (\<lambda>a. if q a then g a else a) s s'"
  unfolding evolves_by_def
proof (intro conjI ballI)
  fix x assume x: "x \<in> set (runs s)"
  show "run_ok (if p x then f x else x) (map (\<lambda>a. if q a then g a else a) (attempts_of s (run_id x)))"
  proof (cases "run_id x = run_id r")
    case True
    then have "x = r" using wf_run_unique[OF wf x r] by simp
    with ok show ?thesis by (simp only: update_where_def)
  next
    case False
    then have "\<not> p x" using p by auto
    moreover have "map (\<lambda>a. if q a then g a else a) (attempts_of s (run_id x)) = attempts_of s (run_id x)"
      using q False by (intro map_idI) (auto simp: attempts_of_def)
    ultimately show ?thesis using wf x by (simp add: store_wf_def)
  qed
  show "keeps_identity x (if p x then f x else x)"
  proof (cases "run_id x = run_id r")
    case True
    then have "x = r" using wf_run_unique[OF wf x r] by simp
    with f show ?thesis by (simp only:)
  next
    case False
    then have "\<not> p x" using p by auto
    then show ?thesis by (simp add: keeps_identity_def)
  qed
  show "store_legal (run_st x) (run_st (if p x then f x else x))"
  proof (cases "run_id x = run_id r")
    case True
    then have "x = r" using wf_run_unique[OF wf x r] by simp
    with f show ?thesis by (simp only:)
  next
    case False
    then have "\<not> p x" using p by auto
    then show ?thesis by (simp add: store_legal_def)
  qed
qed (use g s' in \<open>auto simp: update_where_def\<close>)


lemma update_where_none: "(\<And>x. x \<in> set xs \<Longrightarrow> \<not> p x) \<Longrightarrow> update_where p f xs = xs"
  by (simp add: update_where_def map_idI)

lemma ball_update_where:
  "(\<forall>x \<in> set (update_where q g xs). P x) \<longleftrightarrow> (\<forall>x \<in> set xs. P (if q x then g x else x))"
  by (induction xs) (simp_all add: update_where_def)

lemma update_where_False [simp]: "update_where (\<lambda>_. False) f xs = xs"
  by (simp add: update_where_none)

lemma query_row_Some: "query_row p xs = Some x \<Longrightarrow> x \<in> set xs \<and> p x"
  by (auto simp: query_row_def find_Some_iff)

lemma query_row_None: "query_row p xs = None \<longleftrightarrow> (\<forall>x \<in> set xs. \<not> p x)"
  by (auto simp: query_row_def find_None_iff)

text \<open>Changing a run alone, without its attempts.\<close>

lemma change_run:
  assumes "store_wf s" and r: "r \<in> set (runs s)" and p: "\<And>x. p x \<Longrightarrow> run_id x = run_id r" and "p r"
    and f: "keeps_identity r (f r)" "store_legal (run_st r) (run_st (f r))"
    and ok: "run_ok (f r) (attempts_of s (run_id r))"
    and s': "runs s' = update_where p f (runs s)" "attempts s' = attempts s"
      "next_sequence s \<le> next_sequence s'"
  shows "store_wf s' \<and> run_moves s s'"
proof -
  have "evolves_by (\<lambda>x. if p x then f x else x) (\<lambda>a. if False then a else a) s s'"
    using assms(4) f ok s' by (intro evolves_one[OF assms(1) r p]) simp_all
  then show ?thesis using evolves_wf[OF assms(1)] evolves_moves by blast
qed

lemma run_ok_pending:
  assumes "run_ok r as" and "pending (run_st r) \<or> quarantined r"
  shows "filter active_attempt as = []"
  using assms by (auto simp: run_ok_def expected_active_def)

lemma run_ok_finish:
  assumes "filter active_attempt as = []" and "is_terminal (run_st r)" and "run_finished_at r \<noteq> None"
  shows "run_ok r as"
  using assms by (auto simp: run_ok_def expected_active_def is_terminal_def)

lemma cancel_decision_cases:
  assumes "cancel_decision rid st reason ack = Inr outcome"
  shows "(outcome = AcknowledgedUnconfirmed \<longrightarrow> st = Running \<and> reason = Some ''termination_unconfirmed'')
    \<and> (outcome = CancelledBeforeExecution \<longrightarrow> pending st)
    \<and> (outcome = CancellationRequested \<longrightarrow> executing st)"
  using assms by (auto simp: cancel_decision_def Let_def split: if_splits)

lemma cancel_result:
  assumes "cancel_with_acknowledgement D rid now ack s = Inr (s', outcome)"
  obtains r where "query_row (\<lambda>r. run_id r = rid) (runs s) = Some r"
    and "cancel_decision rid (run_st r) (run_reason r) ack = Inr outcome"
proof -
  from assms obtain r where q: "query_row (\<lambda>r. run_id r = rid) (runs s) = Some r"
    by (auto simp: cancel_with_acknowledgement_def split: option.splits)
  from assms q obtain out where dec: "cancel_decision rid (run_st r) (run_reason r) ack = Inr out"
    by (auto simp: cancel_with_acknowledgement_def and_then_eq_Inr)
  have "out = outcome"
    using assms q dec by (cases out) (auto simp: cancel_with_acknowledgement_def split: if_splits)
  with q dec that show ?thesis by blast
qed

lemma cancel_preserves:
  assumes "cancel_with_acknowledgement D rid now ack s = Inr (s', outcome)"
  shows "preserves s s'"
  unfolding preserves_def
proof
  assume wf: "store_wf s"
  from assms obtain r where q: "query_row (\<lambda>r. run_id r = rid) (runs s) = Some r"
    and dec: "cancel_decision rid (run_st r) (run_reason r) ack = Inr outcome"
    by (rule cancel_result)
  from query_row_Some[OF q] have r: "r \<in> set (runs s)" and rid: "rid = run_id r" by auto
  note ok = wf_run_ok[OF wf r] and c = cancel_decision_cases[OF dec]
  note change = change_run[OF wf r]
  show "store_wf s' \<and> run_moves s s'"
  proof (cases outcome)
    case CancelledBeforeExecution
    let ?f = "\<lambda>x. x\<lparr>run_st := Cancelled, run_reason := Some ''cancelled by user before execution'',
              run_finished_at := Some now, run_cancellation_requested_at := Some now,
              run_cancellation_reason := Some ''user'', run_replacement_candidate := False\<rparr>"
    have rows: "runs s' = update_where (\<lambda>x. run_id x = rid) ?f (runs s)" "attempts s' = attempts s"
      "next_sequence s' = next_sequence s"
      using assms q dec CancelledBeforeExecution by (auto simp: cancel_with_acknowledgement_def)
    have "pending (run_st r)" using c CancelledBeforeExecution by simp
    then have "store_legal (run_st r) Cancelled" "filter active_attempt (attempts_of s (run_id r)) = []"
      using run_ok_pending[OF ok] by (auto simp: store_legal_def)
    then show ?thesis
      by (intro change[OF _ _ _ _ _ rows(1,2)])
        (simp_all add: rid rows keeps_identity_def run_ok_finish is_terminal_def)
  next
    case CancellationRequested
    let ?f = "\<lambda>x. x\<lparr>run_cancellation_requested_at := Some now, run_cancellation_reason := Some ''user''\<rparr>"
    consider "s' = s" | "runs s' = update_where (\<lambda>x. run_id x = rid) ?f (runs s)"
        "attempts s' = attempts s" "next_sequence s' = next_sequence s"
      using assms q dec CancellationRequested
      by (cases "run_cancellation_requested_at r") (auto simp: cancel_with_acknowledgement_def)
    then show ?thesis
    proof cases
      case 2
      have "run_ok (?f r) (attempts_of s (run_id r))"
        using ok by (simp add: run_ok_def expected_active_def)
      with 2 show ?thesis
        by (intro change[OF _ _ _ _ _ 2(1,2)]) (simp_all add: rid keeps_identity_def store_legal_def)
    qed (use wf in simp)
  next
    case AcknowledgedUnconfirmed
    let ?f = "\<lambda>x. x\<lparr>run_st := InterruptedUnknown,
              run_reason := Some ''termination unconfirmed; risk acknowledged by operator'',
              run_finished_at := Some now, run_replacement_candidate := False\<rparr>"
    have rows: "runs s' = update_where (\<lambda>x. run_id x = rid \<and> quarantined x) ?f (runs s)"
      "attempts s' = attempts s" "next_sequence s' = next_sequence s"
      using assms q dec AcknowledgedUnconfirmed
      by (auto simp: cancel_with_acknowledgement_def split: if_splits)
    have "quarantined r" using c AcknowledgedUnconfirmed by simp
    then have "store_legal (run_st r) InterruptedUnknown" "filter active_attempt (attempts_of s (run_id r)) = []"
      using run_ok_pending[OF ok] by (auto simp: store_legal_def)
    with \<open>quarantined r\<close> show ?thesis
      by (intro change[OF _ _ _ _ _ rows(1,2)])
        (simp_all add: rid rows keeps_identity_def run_ok_finish is_terminal_def)
  qed
qed


section \<open>Attempts that end\<close>

lemma count_attempts_of:
  assumes "\<And>a. q a \<Longrightarrow> att_run a = rid"
  shows "count_where q (attempts s) = count_where q (attempts_of s rid)"
proof -
  have "filter q (attempts s) = filter q (filter (\<lambda>a. att_run a = rid) (attempts s))"
    using assms by (auto intro!: filter_cong)
  then show ?thesis by (simp add: count_where_def attempts_of_def)
qed

lemma count_attempt_le_1:
  assumes "store_wf s"
  shows "count_where (\<lambda>a. this_attempt rid n a \<and> p a) (attempts s) \<le> 1"
proof -
  have key: "this_attempt rid n a \<longleftrightarrow> attempt_key a = (rid, n)" for a
    by (auto simp: this_attempt_def attempt_key_def)
  have "length (filter (\<lambda>a. attempt_key a = k \<and> p a) as) \<le> 1" if "distinct (map attempt_key as)" for as k
    using that by (induction as) (auto simp: filter_empty_conv image_iff)
  with assms show ?thesis by (simp add: count_where_def key store_wf_def)
qed

lemma active_attempt_run:
  assumes wf: "store_wf s" and one: "count_where (\<lambda>a. this_attempt rid n a \<and> active_attempt a) (attempts s) = 1"
  obtains r where "r \<in> set (runs s)" and "run_id r = rid" and "executing (run_st r)"
    and "run_reason r \<noteq> Some ''termination_unconfirmed''"
    and "\<And>a. a \<in> set (attempts_of s rid) \<Longrightarrow> active_attempt a \<Longrightarrow> this_attempt rid n a"
    and "\<not> list_ex lost_attempt (attempts_of s rid)"
proof -
  let ?q = "\<lambda>a. this_attempt rid n a \<and> active_attempt a"
  have len: "length (filter ?q (attempts_of s rid)) = 1"
    using one count_attempts_of[of ?q rid s] by (simp add: this_attempt_def count_where_def)
  then obtain a where a: "a \<in> set (attempts_of s rid)" "?q a"
    by (metis (mono_tags, lifting) filter_False length_0_conv one_neq_zero)
  then have "att_run a \<in> run_id ` set (runs s)" using wf by (auto simp: attempts_of_def store_wf_def)
  then obtain r where r: "r \<in> set (runs s)" "run_id r = rid" using a by (auto simp: this_attempt_def)
  have ok: "run_ok r (attempts_of s rid)" using wf_run_ok[OF wf r(1)] r(2) by simp
  have "filter active_attempt (attempts_of s rid) \<noteq> []" using a by (auto simp: filter_empty_conv)
  then have exp: "expected_active r \<noteq> []" using run_ok_active[OF ok] by (metis map_is_Nil_conv)
  then have ex: "executing (run_st r)" "\<not> quarantined r"
    by (auto simp: expected_active_def split: if_splits)
  then have alive: "\<not> is_terminal (run_st r)" by (intro active_not_terminal) auto
  with ex have reason: "run_reason r \<noteq> Some ''termination_unconfirmed''"
    using run_ok_reason[OF ok] by blast
  have "length (filter active_attempt (attempts_of s rid)) = 1"
  proof -
    have "length (map att_st (filter active_attempt (attempts_of s rid))) = length (expected_active r)"
      by (simp only: run_ok_active[OF ok])
    then show ?thesis using exp by (simp add: expected_active_def split: if_splits)
  qed
  moreover have "filter ?q (attempts_of s rid) = filter ?q (filter active_attempt (attempts_of s rid))"
    by (auto intro!: filter_cong)
  ultimately have "\<not> length (filter ?q (filter active_attempt (attempts_of s rid)))
      < length (filter active_attempt (attempts_of s rid))" using len by simp
  then have only: "?q x" if "x \<in> set (attempts_of s rid)" "active_attempt x" for x
    using that length_filter_less[of x "filter active_attempt (attempts_of s rid)" ?q] by auto
  have "\<not> list_ex lost_attempt (attempts_of s rid)"
    using run_ok_lost[OF ok] alive by blast
  with r ex reason only that show ?thesis by blast
qed

lemma finish_attempt:
  assumes wf: "store_wf s" and one: "count_where (\<lambda>a. this_attempt rid n a \<and> active_attempt a) (attempts s) = 1"
    and g: "\<And>a. attempt_key (g a) = attempt_key a" "\<And>a. \<not> active_attempt (g a)"
    and p: "\<And>x. p x \<Longrightarrow> run_id x = rid"
    and pf: "\<And>x. run_id x = rid \<Longrightarrow> executing (run_st x) \<Longrightarrow>
        run_reason x \<noteq> Some ''termination_unconfirmed'' \<Longrightarrow> run_finished_at x = None \<Longrightarrow>
        p x \<and> keeps_identity x (f x) \<and> store_legal (run_st x) (run_st (f x)) \<and> expected_active (f x) = []
        \<and> (run_finished_at (f x) \<noteq> None \<longleftrightarrow> is_terminal (run_st (f x)))
        \<and> (run_reason (f x) = Some ''termination_unconfirmed'' \<longrightarrow> run_st (f x) = Running \<or> is_terminal (run_st (f x)))
        \<and> (is_terminal (run_st (f x)) \<or> (\<forall>a. \<not> lost_attempt (g a)))"
    and s': "runs s' = update_where p f (runs s)"
      "attempts s' = update_where (\<lambda>a. this_attempt rid n a \<and> active_attempt a) g (attempts s)"
      "next_sequence s' = next_sequence s"
  shows "store_wf s' \<and> run_moves s s'"
proof -
  let ?q = "\<lambda>a. this_attempt rid n a \<and> active_attempt a"
  obtain r where r: "r \<in> set (runs s)" "run_id r = rid" "executing (run_st r)"
    and reason: "run_reason r \<noteq> Some ''termination_unconfirmed''"
    and only: "\<And>a. a \<in> set (attempts_of s rid) \<Longrightarrow> active_attempt a \<Longrightarrow> this_attempt rid n a"
    and lost: "\<not> list_ex lost_attempt (attempts_of s rid)"
    using active_attempt_run[OF wf one] by metis
  have "run_finished_at r = None"
    using run_ok_finished[OF wf_run_ok[OF wf r(1)]] active_not_terminal[of "run_st r"] r(3) by blast
  note f = pf[OF r(2,3) reason this]
  have none: "filter active_attempt (update_where ?q g (attempts_of s rid)) = []"
  proof -
    have "\<not> active_attempt (if ?q a then g a else a)" if "a \<in> set (attempts_of s rid)" for a
      using only[OF that] g(2)[of a] by (cases "active_attempt a") simp_all
    then show ?thesis unfolding filter_empty_conv ball_update_where by blast
  qed
  have "list_ex lost_attempt (update_where ?q g as) \<Longrightarrow> list_ex lost_attempt as \<or> (\<exists>a. lost_attempt (g a))" for as
    by (induction as) (auto simp: update_where_def split: if_splits)
  with lost f have "is_terminal (run_st (f r)) \<or> \<not> list_ex lost_attempt (update_where ?q g (attempts_of s rid))"
    by blast
  with f none have "run_ok (f r) (update_where ?q g (attempts_of s rid))"
    by (simp add: run_ok_def)
  then have "evolves_by (\<lambda>x. if p x then f x else x) (\<lambda>a. if ?q a then g a else a) s s'"
    using f s' r(2) p by (intro evolves_one[OF wf r(1)]) (simp_all add: this_attempt_def g)
  then show ?thesis using evolves_wf[OF wf] evolves_moves by blast
qed


lemma complete_known_preserves:
  assumes "complete_known D c st s = Inr s'"
    and "st \<notin> {AttStarting, AttRunning}" and "comp_reason c \<noteq> ''termination_unconfirmed''"
  shows "preserves s s'"
  unfolding preserves_def
proof
  assume wf: "store_wf s"
  let ?q = "\<lambda>a. this_attempt (comp_run c) (comp_number c) a \<and> active_attempt a"
  let ?g = "\<lambda>a. a\<lparr>att_st := st, att_finished_at := Some (comp_now c),
                 att_duration := Some (comp_duration c), att_exit_code := comp_exit_code c,
                 att_http_status := map_option int (comp_http_status c),
                 att_http_content_type := comp_http_content_type c,
                 att_result_class := Some (attempt_state_name st),
                 att_error_message := Some (comp_reason c)\<rparr>"
  show "store_wf s' \<and> run_moves s s'"
  proof (cases "count_where ?q (attempts s) = 1")
    case False
    with assms(1) have "s' = s" by (auto simp: complete_known_def Let_def split: if_splits)
    with wf show ?thesis by simp
  next
    case one: True
    note finish = finish_attempt[OF wf one, where g = ?g and p = "\<lambda>x. run_id x = comp_run c"]
    have key: "attempt_key (?g a) = attempt_key a" "\<not> active_attempt (?g a)" for a
      using assms(2) by (simp_all add: attempt_key_def)
    show ?thesis
    proof (cases "comp_retry c")
      case None
      let ?f = "\<lambda>x. x\<lparr>run_st := run_of_attempt st, run_reason := Some (comp_reason c),
                       run_finished_at := Some (comp_now c)\<rparr>"
      have "runs s' = update_where (\<lambda>x. run_id x = comp_run c) ?f (runs s)"
        "attempts s' = update_where ?q ?g (attempts s)" "next_sequence s' = next_sequence s"
        using assms(1) one None by (auto simp: complete_known_def Let_def split: if_splits)
      moreover have "is_terminal (run_of_attempt st)" "expected_active (?f x) = []"
        "\<And>st0. executing st0 \<Longrightarrow> store_legal st0 (run_of_attempt st)" for x
        using assms(2)
        by (cases st; auto simp: is_terminal_def expected_active_def store_legal_def)+
      ultimately show ?thesis
        using assms(2) by (intro finish[where f = ?f]) (simp_all add: key keeps_identity_def)
    next
      case (Some plan)
      then have st: "st \<in> {AttFailed, AttTimedOut}"
        using assms(1) by (auto simp: complete_known_def Let_def split: if_splits)
      let ?f = "\<lambda>x. x\<lparr>run_st := RetryWait, run_eligible_at := rp_not_before plan,
                       run_reason := Some (comp_reason c)\<rparr>"
      have "runs s' = update_where (\<lambda>x. run_id x = comp_run c) ?f (runs s)"
        "attempts s' = update_where ?q ?g (attempts s)" "next_sequence s' = next_sequence s"
        using assms(1) one Some by (auto simp: complete_known_def Let_def split: if_splits)
      moreover have "\<not> lost_attempt (?g a)" for a
        using st by (auto simp: lost_attempt_def attempt_state_name_def)
      moreover have "expected_active (?f x) = []" "\<not> is_terminal RetryWait" for x
        by (simp_all add: expected_active_def is_terminal_def)
      moreover have "store_legal st0 RetryWait" if "executing st0" for st0
        using that by (auto simp: store_legal_def)
      ultimately show ?thesis
        using assms(2,3) by (intro finish[where f = ?f]) (simp_all add: key keeps_identity_def)
    qed
  qed
qed


lemma cancel_before_spawn_preserves:
  assumes "cancel_before_spawn D rid n now source job s = Inr (s', d)"
  shows "preserves s s'"
  unfolding preserves_def
proof
  assume wf: "store_wf s"
  let ?why = "if source = ''replacement'' then ''replacement requested before spawn''
    else ''cancelled by user before spawn''"
  let ?q = "\<lambda>a. this_attempt rid n a \<and> active_attempt a"
  let ?g = "\<lambda>a. a\<lparr>att_st := AttCancelled, att_finished_at := Some now, att_duration := Some 0,
     att_result_class := Some ''cancelled'', att_error_message := Some ?why\<rparr>"
  let ?f = "\<lambda>r. r\<lparr>run_st := Cancelled, run_reason := Some ?why, run_finished_at := Some now,
     run_replacement_candidate := False\<rparr>"
  have one: "count_where ?q (attempts s) = 1"
    using assms by (auto simp: cancel_before_spawn_def Let_def split: if_splits)
  have "runs s' = update_where (\<lambda>r. run_id r = rid \<and> executing (run_st r)) ?f (runs s)"
    "attempts s' = update_where ?q ?g (attempts s)" "next_sequence s' = next_sequence s"
    using assms one by (auto simp: cancel_before_spawn_def Let_def)
  then show "store_wf s' \<and> run_moves s s'"
    by (intro finish_attempt[OF wf one, where f = ?f and g = ?g and
          p = "\<lambda>r. run_id r = rid \<and> executing (run_st r)"])
      (auto simp: attempt_key_def keeps_identity_def expected_active_def store_legal_def is_terminal_def)
qed

lemma mark_attempt_running_preserves:
  assumes "mark_attempt_running_inner D rid n now exe s = Inr (s', d)"
  shows "preserves s s'"
proof -
  from assms obtain r where q: "query_row (\<lambda>r. run_id r = rid) (runs s) = Some r" "executing (run_st r)"
    by (auto simp: mark_attempt_running_inner_def split: option.splits if_splits)
  show ?thesis
  proof (cases "run_cancellation_reason r")
    case (Some source)
    with assms q show ?thesis
      by (auto simp: mark_attempt_running_inner_def intro: cancel_before_spawn_preserves)
  next
    case None
    let ?w = "\<lambda>a. this_attempt rid n a \<and> att_st a = AttStarting"
    let ?s = "\<lambda>x. run_id x = rid \<and> run_st x = Starting"
    let ?g = "\<lambda>a. a\<lparr>att_st := AttRunning, att_running_at := Some now, att_resolved_executable := exe\<rparr>"
    let ?f = "\<lambda>x. x\<lparr>run_st := Running\<rparr>"
    consider "s' = s" | "count_where ?w (attempts s) = 1" "count_where ?s (runs s) = 1"
        "runs s' = update_where ?s ?f (runs s)"
        "attempts s' = update_where ?w ?g (attempts s)" "next_sequence s' = next_sequence s" "run_st r = Starting"
      using assms q None
      by (auto simp: mark_attempt_running_inner_def Let_def split: if_splits)
    then show ?thesis
    proof cases
      case 2
      from query_row_Some[OF q(1)] have r: "r \<in> set (runs s)" "run_id r = rid" by auto
      show ?thesis
      proof (rule evolves_preserves)
        assume wf: "store_wf s"
        note ok = wf_run_ok[OF wf r(1), unfolded r(2)]
        have act: "map att_st (filter active_attempt (attempts_of s rid)) = [AttStarting]"
          using run_ok_active[OF ok] 2 by (simp add: expected_active_def)
        have w: "count_where ?w (attempts_of s rid) = 1"
          using 2(1) count_attempts_of[of ?w rid s] by (simp add: this_attempt_def)
        have "map att_st (filter active_attempt (update_where ?w ?g as)) = [AttRunning]"
          if "map att_st (filter active_attempt as) = [AttStarting]" "count_where ?w as = 1" for as
          using that
        proof (induction as)
          case (Cons a as)
          then show ?case
            by (cases "?w a") (auto simp: update_where_def count_where_def filter_empty_conv split: if_splits)
        qed simp
        from this[OF act w] have "map att_st (filter active_attempt (update_where ?w ?g (attempts_of s rid))) = [AttRunning]" .
        moreover have "run_reason r \<noteq> Some ''termination_unconfirmed''"
          using run_ok_reason[OF ok] 2 by (auto simp: is_terminal_def)
        moreover have "run_finished_at r = None"
          using run_ok_finished[OF ok] 2 by (simp add: is_terminal_def)
        moreover have "\<not> list_ex lost_attempt (update_where ?w ?g (attempts_of s rid))"
        proof -
          have "list_ex lost_attempt (update_where ?w ?g as) \<longleftrightarrow> list_ex lost_attempt as" for as
            by (induction as) (auto simp: update_where_def lost_attempt_def)
          then show ?thesis using run_ok_lost[OF ok] 2 by (simp add: is_terminal_def)
        qed
        ultimately have "run_ok (?f r) (update_where ?w ?g (attempts_of s rid))"
          by (simp add: run_ok_def expected_active_def is_terminal_def)
        then show "evolves_by (\<lambda>x. if ?s x then ?f x else x) (\<lambda>a. if ?w a then ?g a else a) s s'"
          using 2 r
          by (intro evolves_one[OF wf r(1)])
            (simp_all add: this_attempt_def attempt_key_def keeps_identity_def store_legal_def)
      qed
    qed simp
  qed
qed


lemma pre_execution_failure_preserves:
  assumes "complete_pre_execution_failure D rid n out now why s = Inr s'"
  shows "preserves s s'"
  unfolding preserves_def
proof
  assume wf: "store_wf s"
  let ?q = "\<lambda>a. this_attempt rid n a \<and> active_attempt a"
  let ?g = "\<lambda>a. a\<lparr>att_st := AttFailed, att_finished_at := Some now, att_duration := Some 0,
     att_result_class := Some ''failed'', att_error_message := Some why\<rparr>"
  let ?f = "\<lambda>x. x\<lparr>run_st := Failed, run_reason := Some why, run_finished_at := Some now\<rparr>"
  let ?p = "\<lambda>x. run_id x = rid \<and> executing (run_st x)"
  have one: "count_where ?q (attempts s) = 1"
    using assms by (auto simp: complete_pre_execution_failure_def Let_def split: if_splits option.splits)
  have "runs s' = update_where ?p ?f (runs s) \<and> attempts s' = update_where ?q ?g (attempts s)
      \<and> next_sequence s' = next_sequence s"
    using assms unfolding complete_pre_execution_failure_def Let_def
    by (simp split: if_splits option.splits) auto
  then show "store_wf s' \<and> run_moves s s'"
    by (intro finish_attempt[OF wf one, where f = ?f and g = ?g and p = ?p])
      (auto simp: attempt_key_def keeps_identity_def expected_active_def store_legal_def is_terminal_def)
qed

lemma runner_failure_end_rows:
  assumes "runner_failure_end D rid n now why started st result_class s s1 = Inr s'"
  shows "runs s' = runs s1 \<and> attempts s' = attempts s1 \<and> next_sequence s' = next_sequence s1 \<and>
    (count_where (\<lambda>a. this_attempt rid n a \<and> active_attempt a) (attempts s) = 1 \<or>
     (\<exists>a \<in> set (attempts s'). this_attempt rid n a \<and> att_result_class a = Some result_class))"
  using assms unfolding runner_failure_end_def
  by (simp split: if_splits option.splits; (auto simp: runner_failure_committed_def)?)

text \<open>A runner failure of either kind, by the state and the class it writes.\<close>

lemma runner_failure_changes_preserve:
  assumes wf: "store_wf s"
    and st: "(st, rc) \<in> {(AttInterruptedUnknown, ''interrupted_unknown''), (AttFailed, ''output_preparation_failed'')}"
    and rows: "runs s' = update_where (\<lambda>x. run_id x = rid \<and> executing (run_st x))
         (\<lambda>r. r\<lparr>run_st := run_of_attempt st, run_reason := Some why, run_finished_at := Some now,
                run_replacement_candidate := False\<rparr>) (runs s)"
      "attempts s' = update_where (\<lambda>a. this_attempt rid n a \<and> active_attempt a)
         (\<lambda>a. a\<lparr>att_st := st, att_finished_at := Some now, att_duration := Some duration,
                att_result_class := Some rc, att_error_message := Some why\<rparr>) (attempts s)"
      "next_sequence s' = next_sequence s"
    and found: "count_where (\<lambda>a. this_attempt rid n a \<and> active_attempt a) (attempts s) = 1 \<or>
       (\<exists>a \<in> set (attempts s'). this_attempt rid n a \<and> att_result_class a = Some rc)"
  shows "store_wf s' \<and> run_moves s s'"
proof (cases "count_where (\<lambda>a. this_attempt rid n a \<and> active_attempt a) (attempts s) = 1")
  case True
  have facts: "is_terminal (run_of_attempt st)" "run_of_attempt st \<noteq> Starting" "run_of_attempt st \<noteq> Running"
    "st \<noteq> AttStarting" "st \<noteq> AttRunning"
    using st by (auto simp: is_terminal_def)
  have legal: "executing st0 \<Longrightarrow> store_legal st0 (run_of_attempt st)" for st0
    using st by (auto simp: store_legal_def)
  show ?thesis
    using facts legal
    by (intro finish_attempt[OF wf True _ _ _ _ rows])
      (simp_all add: attempt_key_def keeps_identity_def expected_active_def)
next
  case False
  let ?q = "\<lambda>a. this_attempt rid n a \<and> active_attempt a"
  have "count_where ?q (attempts s) = 0" using False count_attempt_le_1[OF wf, of rid n active_attempt] by linarith
  then have "\<not> ?q a" if "a \<in> set (attempts s)" for a
    using that unfolding count_where_def length_0_conv filter_empty_conv by blast
  then have atts: "attempts s' = attempts s" unfolding rows(2) by (rule update_where_none)
  with found False obtain a where a: "a \<in> set (attempts s)" "this_attempt rid n a" "att_result_class a = Some rc"
    by metis
  then have lost: "lost_attempt a" using st by (auto simp: lost_attempt_def)
  have "\<not> (run_id r = rid \<and> executing (run_st r))" if "r \<in> set (runs s)" for r
  proof
    assume r: "run_id r = rid \<and> executing (run_st r)"
    then have "list_ex lost_attempt (attempts_of s (run_id r))"
      using a lost by (auto simp: attempts_of_def this_attempt_def list_ex_iff)
    then show False using run_ok_lost[OF wf_run_ok[OF wf that]] r active_not_terminal[of "run_st r"] by auto
  qed
  then have "runs s' = runs s" unfolding rows(1) by (rule update_where_none)
  with atts rows(3) wf show ?thesis
    using same_rows_preserves[of s' s] by (simp add: preserves_def)
qed

lemma runner_failure_preserves:
  assumes "complete_runner_failure D rid n now why started s = Inr s'"
  shows "preserves s s'"
  unfolding preserves_def
proof
  assume wf: "store_wf s"
  define st where "st = (if started then AttInterruptedUnknown else AttFailed)"
  define rc where "rc = (if started then ''interrupted_unknown'' else ''output_preparation_failed'')"
  have kinds: "(st, rc) \<in> {(AttInterruptedUnknown, ''interrupted_unknown''), (AttFailed, ''output_preparation_failed'')}"
    by (simp add: st_def rc_def)
  from assms obtain duration
    where "runner_failure_end D rid n now why started st rc s
      (runner_failure_changes rid n now why st rc duration s) = Inr s'"
    by (auto simp: complete_runner_failure_def Let_def and_then_eq_Inr st_def rc_def)
  note e = runner_failure_end_rows[OF this]
  from e have found: "count_where (\<lambda>a. this_attempt rid n a \<and> active_attempt a) (attempts s) = 1 \<or>
     (\<exists>a \<in> set (attempts s'). this_attempt rid n a \<and> att_result_class a = Some rc)" by (elim conjE)
  show "store_wf s' \<and> run_moves s s'"
    by (rule runner_failure_changes_preserve[OF wf kinds _ _ _ found, where why = why
          and now = now and duration = duration])
      (simp_all add: runner_failure_changes_def e)
qed

end
