(* ===== verification/Store_Steps.thy ===== *)
theory Store_Steps
  imports Store_Invariant
begin

text \<open>
  The operations of the store that touch many runs at once or add rows: quarantine, the start
  of a scheduler lifetime, supersession, queueing, materialization and admission. Each keeps
  the invariant of \<open>Store_Invariant\<close>; the step relation at the end collects every operation,
  so that the invariant and the permanence of terminal states hold in all reachable databases.
\<close>

section \<open>Many runs at once\<close>

lemma finish_pending:
  assumes p: "\<And>x. p x \<Longrightarrow> pending (run_st x)"
    and f: "\<And>x. p x \<Longrightarrow> keeps_identity x (f x) \<and> store_legal (run_st x) (run_st (f x))
              \<and> is_terminal (run_st (f x)) \<and> run_finished_at (f x) \<noteq> None"
    and s': "runs s' = update_where p f (runs s)" "attempts s' = attempts s" "next_sequence s \<le> next_sequence s'"
  shows "preserves s s'"
proof (rule evolves_preserves)
  assume wf: "store_wf s"
  show "evolves_by (\<lambda>x. if p x then f x else x) id s s'"
    unfolding evolves_by_def
  proof (intro conjI ballI)
    fix r assume r: "r \<in> set (runs s)"
    note ok = wf_run_ok[OF wf r]
    show "keeps_identity r (if p r then f r else r)" "store_legal (run_st r) (run_st (if p r then f r else r))"
      using f[of r] by (simp_all add: keeps_identity_def store_legal_def)
    show "run_ok (if p r then f r else r) (map id (attempts_of s (run_id r)))"
    proof (cases "p r")
      case True
      then show ?thesis using f[OF True] run_ok_pending[OF ok disjI1[OF p[OF True]]] by (simp add: run_ok_finish)
    qed (use ok in simp)
  qed (use s' in \<open>simp_all add: update_where_def\<close>)
qed

lemma touch_runs:
  assumes f: "\<And>x. keeps_identity x (f x) \<and> run_st (f x) = run_st x \<and> run_reason (f x) = run_reason x
              \<and> run_finished_at (f x) = run_finished_at x"
    and s': "runs s' = update_where p f (runs s)" "attempts s' = attempts s" "next_sequence s \<le> next_sequence s'"
  shows "preserves s s'"
proof (rule evolves_preserves)
  assume wf: "store_wf s"
  have ok: "run_ok (f r) as \<longleftrightarrow> run_ok r as" for r as
    using f[of r] by (simp add: run_ok_def expected_active_def)
  show "evolves_by (\<lambda>x. if p x then f x else x) id s s'"
    unfolding evolves_by_def
    using s' f ok wf_run_ok[OF wf]
    by (auto simp: update_where_def store_legal_def keeps_identity_def)
qed

lemma push_event_preserves: "preserves s (push_event t k j r d s)"
  by (rule same_rows_preserves) simp_all

lemma fail_replacements_preserves: "preserves s (fail_replacements job now s)"
  by (rule finish_pending[where p = "\<lambda>r. run_job r = job \<and> run_replacement_candidate r \<and> pending (run_st r)"])
    (auto simp: fail_replacements_def Let_def update_runs_def keeps_identity_def store_legal_def is_terminal_def)

lemma complete_unconfirmed_preserves:
  assumes "complete_unconfirmed c s = Inr s'"
  shows "preserves s s'"
proof -
  let ?q = "\<lambda>a. this_attempt (comp_run c) (comp_number c) a \<and> active_attempt a"
  let ?g = "\<lambda>a. a\<lparr>att_st := AttInterruptedUnknown, att_finished_at := Some (comp_now c),
     att_duration := Some (comp_duration c), att_result_class := Some ''termination_unconfirmed'',
     att_error_message := Some (comp_reason c)\<rparr>"
  let ?f = "\<lambda>x. x\<lparr>run_st := Running, run_reason := Some ''termination_unconfirmed'', run_finished_at := None\<rparr>"
  define s2 where "s2 = update_runs (\<lambda>x. run_id x = comp_run c) ?f (delete_intents (comp_run c) (update_attempts ?q ?g s))"
  show ?thesis
  proof (cases "count_where ?q (attempts s) = 1")
    case False
    with assms show ?thesis by (auto simp: complete_unconfirmed_def Let_def split: if_splits)
  next
    case one: True
    have "preserves s s2"
      unfolding preserves_def
    proof
      assume wf: "store_wf s"
      show "store_wf s2 \<and> run_moves s s2"
        by (rule finish_attempt[OF wf one, where f = ?f and g = ?g and p = "\<lambda>x. run_id x = comp_run c"])
          (auto simp: s2_def attempt_key_def keeps_identity_def expected_active_def store_legal_def
            is_terminal_def lost_attempt_def)
    qed
    moreover have "preserves s2 s'"
      using assms[unfolded complete_unconfirmed_def Let_def, folded s2_def] one
      by (auto split: if_splits option.splits
          intro: push_event_preserves preserves_trans[OF fail_replacements_preserves push_event_preserves])
    ultimately show ?thesis by (rule preserves_trans)
  qed
qed

lemma fold_soft_remove_tables [simp]:
  "runs (fold (\<lambda>rid. soft_remove_after_one_time_completion D rid now) rids s) = runs s"
  "attempts (fold (\<lambda>rid. soft_remove_after_one_time_completion D rid now) rids s) = attempts s"
  "next_sequence (fold (\<lambda>rid. soft_remove_after_one_time_completion D rid now) rids s) = next_sequence s"
  by (induction rids arbitrary: s) simp_all

lemma begin_lifetime_rows:
  assumes "begin_lifetime D pid lid now v s = Inr (s', n)"
  shows "runs s' = update_where stale_run
     (\<lambda>r. r\<lparr>run_st := InterruptedUnknown, run_finished_at := Some now,
            run_reason := Some ''scheduler lifetime ended without a durable result''\<rparr>) (runs s)"
    and "attempts s' = update_where active_attempt
     (\<lambda>a. a\<lparr>att_st := AttInterruptedUnknown, att_finished_at := Some now,
            att_error_message := Some ''scheduler lifetime ended without a durable result''\<rparr>) (attempts s)"
    and "next_sequence s' = next_sequence s"
    and "n = count_where active_attempt (attempts s)"
  using assms by (auto simp: begin_lifetime_def Let_def split: if_splits)

lemma begin_lifetime_preserves:
  assumes "begin_lifetime D pid lid now v s = Inr (s', n)"
  shows "preserves s s'"
proof (rule evolves_preserves)
  assume wf: "store_wf s"
  note rows = begin_lifetime_rows[OF assms]
  let ?F = "\<lambda>r. if stale_run r then r\<lparr>run_st := InterruptedUnknown, run_finished_at := Some now,
            run_reason := Some ''scheduler lifetime ended without a durable result''\<rparr> else r"
  let ?G = "\<lambda>a. if active_attempt a then a\<lparr>att_st := AttInterruptedUnknown, att_finished_at := Some now,
            att_error_message := Some ''scheduler lifetime ended without a durable result''\<rparr> else a"
  have none: "filter active_attempt (map ?G as) = []" for as by (auto simp: filter_empty_conv)
  have lost: "list_ex lost_attempt (map ?G as) \<longleftrightarrow> list_ex lost_attempt as" for as
    by (induction as) (auto simp: lost_attempt_def)
  show "evolves_by ?F ?G s s'"
    unfolding evolves_by_def
  proof (intro conjI ballI)
    fix r assume r: "r \<in> set (runs s)"
    note ok = wf_run_ok[OF wf r]
    show "keeps_identity r (?F r)" by (simp add: keeps_identity_def)
    show "store_legal (run_st r) (run_st (?F r))" by (auto simp: store_legal_def stale_run_def)
    show "run_ok (?F r) (map ?G (attempts_of s (run_id r)))"
    proof (cases "stale_run r")
      case True
      then show ?thesis using none by (simp add: run_ok_finish is_terminal_def)
    next
      case False
      then have "\<not> executing (run_st r) \<or> quarantined r"
        using run_ok_reason[OF ok] active_not_terminal[of "run_st r"] by (auto simp: stale_run_def)
      then have "expected_active r = []" by (auto simp: expected_active_def)
      with False ok none lost show ?thesis by (simp add: run_ok_def)
    qed
  qed (use rows in \<open>simp_all add: update_where_def attempt_key_def\<close>)
qed


section \<open>Supersession\<close>

lemma supersede_one_preserves: "preserves s (supersede_one job now successor rid s)"
  by (rule finish_pending[where p = "\<lambda>r. run_id r = rid \<and> pending (run_st r)"])
    (auto simp: supersede_one_def keeps_identity_def store_legal_def is_terminal_def)

lemma fold_supersede_preserves: "preserves s (fold (supersede_one job now successor) rids s)"
proof (induction rids arbitrary: s)
  case (Cons rid rids)
  show ?case using preserves_trans[OF supersede_one_preserves Cons] by simp
qed simp

lemma fold_supersede_next [simp]:
  "next_sequence (fold (supersede_one job now successor) rids s) = next_sequence s"
  "attempts (fold (supersede_one job now successor) rids s) = attempts s"
  by (induction rids arbitrary: s) (simp_all add: supersede_one_def)

lemma supersede_for_replacement_next [simp]:
  "next_sequence (supersede_for_replacement job now successor s) = next_sequence s"
  "attempts (supersede_for_replacement job now successor s) = attempts s"
  by (simp_all add: supersede_for_replacement_def Let_def)

lemma supersede_for_replacement_preserves: "preserves s (supersede_for_replacement job now successor s)"
proof -
  define s1 where "s1 = fold (supersede_one job now successor)
    (map run_id (sort_key run_sequence (filter (\<lambda>r. run_job r = job \<and>
            (run_st r = RetryWait \<or> run_st r = Queued \<and> run_trig r \<noteq> TriggerCatchUp)) (runs s)))) s"
  have "preserves s1 (supersede_for_replacement job now successor s)"
    by (rule touch_runs[where p = "\<lambda>r. run_job r = job \<and> executing (run_st r)" and
          f = "\<lambda>r. r\<lparr>run_cancellation_requested_at :=
                   (case run_cancellation_requested_at r of None \<Rightarrow> Some now | Some t \<Rightarrow> Some t),
                 run_cancellation_reason :=
                   (case run_cancellation_reason r of None \<Rightarrow> Some ''replacement'' | Some x \<Rightarrow> Some x),
                 run_replacement_candidate := False\<rparr>"])
      (auto simp: supersede_for_replacement_def Let_def s1_def[symmetric] keeps_identity_def)
  then show ?thesis using fold_supersede_preserves preserves_trans unfolding s1_def by blast
qed


section \<open>New runs\<close>

lemma insert_run_tables [simp]:
  "runs (insert_run r s) = runs s @ [r]" "attempts (insert_run r s) = attempts s"
  "next_sequence (insert_run r s) = next_sequence s"
  by (simp_all add: insert_run_def)

lemma insert_run_preserves:
  assumes con: "run_constraints s r" and seq: "run_sequence r < next_sequence s" and ok: "run_ok r []"
  shows "preserves s (insert_run r s)"
  unfolding preserves_def
proof
  assume wf: "store_wf s"
  have fresh: "\<And>x. x \<in> set (runs s) \<Longrightarrow> run_id x \<noteq> run_id r \<and> run_sequence x \<noteq> run_sequence r
      \<and> \<not> (run_replacement_candidate x \<and> run_replacement_candidate r \<and> run_job x = run_job r)"
    using con by (auto simp: run_constraints_def)
  have none: "attempts_of s (run_id r) = []"
  proof -
    have "att_run a \<noteq> run_id r" if "a \<in> set (attempts s)" for a
      using wf that fresh unfolding store_wf_def by (metis image_iff)
    then show ?thesis by (auto simp: attempts_of_def filter_empty_conv)
  qed
  have "attempts_of (insert_run r s) = attempts_of s" by (simp add: attempts_of_def fun_eq_iff)
  then have oks: "\<forall>x \<in> set (runs (insert_run r s)). run_ok x (attempts_of (insert_run r s) (run_id x))"
    using wf_run_ok[OF wf] ok none by simp
  have seqs: "\<forall>x \<in> set (runs (insert_run r s)). 0 < run_sequence x \<and> run_sequence x < next_sequence (insert_run r s)"
    using wf seq con by (simp add: store_wf_def run_constraints_def)
  have one: "run_id x = run_id y" if "x \<in> set (runs s @ [r])" "y \<in> set (runs s @ [r])"
    "run_replacement_candidate x \<and> run_replacement_candidate y \<and> run_job x = run_job y" for x y
    using that fresh[of x] fresh[of y] wf_candidate[OF wf, of x y] by auto
  have dist: "distinct (map run_id (runs s @ [r]))" "distinct (map run_sequence (runs s @ [r]))"
    using wf_ids[OF wf] wf_sequences[OF wf] fresh by (force simp: image_iff)+
  have "store_wf (insert_run r s)"
    unfolding store_wf_def
  proof (intro conjI)
    show "\<forall>a \<in> set (attempts (insert_run r s)). att_run a \<in> run_id ` set (runs (insert_run r s))"
      using wf by (simp add: store_wf_def)
    show "\<forall>x \<in> set (runs (insert_run r s)). \<forall>y \<in> set (runs (insert_run r s)).
      run_replacement_candidate x \<and> run_replacement_candidate y \<and> run_job x = run_job y \<longrightarrow> run_id x = run_id y"
      using one by (metis insert_run_tables(1))
    show "\<forall>x \<in> set (runs (insert_run r s)). run_ok x (attempts_of (insert_run r s) (run_id x))" by (rule oks)
    show "\<forall>x \<in> set (runs (insert_run r s)). 0 < run_sequence x \<and> run_sequence x < next_sequence (insert_run r s)"
      by (rule seqs)
    show "distinct (map run_id (runs (insert_run r s)))" "distinct (map run_sequence (runs (insert_run r s)))"
      using dist by simp_all
    show "distinct (map attempt_key (attempts (insert_run r s)))" "0 < next_sequence (insert_run r s)"
      using wf by (simp_all add: store_wf_def)
  qed
  moreover have "run_moves s (insert_run r s)" by (auto simp: run_moves_def)
  ultimately show "store_wf (insert_run r s) \<and> run_moves s (insert_run r s)" ..
qed

lemma new_run_ok:
  assumes "outcome = overlap_decision policy q exempt n" and "run_st r = outcome_state outcome"
    and "run_reason r = outcome_reason outcome" and "run_finished_at r = outcome_finished now outcome"
  shows "run_ok r []"
proof (cases outcome)
  case (SkipRun st why)
  with assms(1) have "st \<in> {Failed, SkippedOverlap, SkippedConcurrency}"
    by (auto simp: overlap_decision_def split: if_splits)
  with SkipRun assms show ?thesis
    by (auto simp: run_ok_def outcome_state_def outcome_finished_def expected_active_def is_terminal_def)
qed (use assms in \<open>auto simp: run_ok_def outcome_state_def outcome_finished_def outcome_reason_def
       expected_active_def is_terminal_def\<close>)

lemma next_queue_sequence_preserves: "next_queue_sequence s = (n, s1) \<Longrightarrow> preserves s s1"
  by (intro same_rows_preserves) (auto simp: next_queue_sequence_def)

lemma make_room_preserves: "preserves s (make_room job now successor outcome s)"
  by (simp add: make_room_def supersede_for_replacement_preserves)

lemma make_room_next [simp]: "next_sequence (make_room job now successor outcome s) = next_sequence s"
  by (simp add: make_room_def)

lemma room_preserves:
  assumes "next_queue_sequence s = (sequence, s1)"
  shows "preserves s (make_room job now successor outcome s1)"
  using preserves_trans[OF next_queue_sequence_preserves[OF assms] make_room_preserves] .

lemma add_run_preserves:
  assumes seq: "next_queue_sequence s = (sequence, s1)"
    and con: "run_constraints (make_room job now successor (overlap_decision policy q exempt k) s1) r"
    and row: "run_st r = outcome_state (overlap_decision policy q exempt k)"
      "run_reason r = outcome_reason (overlap_decision policy q exempt k)"
      "run_finished_at r = outcome_finished now' (overlap_decision policy q exempt k)" "run_sequence r = sequence"
  shows "preserves s (insert_run r (make_room job now successor (overlap_decision policy q exempt k) s1))"
  using preserves_trans[OF room_preserves[OF seq] insert_run_preserves[OF con _ new_run_ok[OF refl row(1,2,3)]]]
    seq row(4)
  by (auto simp: next_queue_sequence_def)

lemma enqueue_manual_tx_preserves:
  assumes "enqueue_manual_tx reference rid now prepared s = Inr s'"
  shows "preserves s s'"
proof -
  obtain job policy sequence s1
    where p: "prepared = (job, policy)" and seq: "next_queue_sequence s = (sequence, s1)"
    by fastforce
  let ?out = "overlap_decision policy (job_quarantined s1 (jr_id job)) False (active_runs s1 (jr_id job))"
  let ?s2 = "make_room (jr_id job) now rid ?out s1"
  let ?row = "manual_row rid now job sequence ?out"
  have "run_constraints ?s2 ?row"
    "s' = push_event now ''manual_enqueued'' (Some (jr_id job)) (Some rid) (JObject []) (insert_run ?row ?s2)"
    using assms by (auto simp: enqueue_manual_tx_def p seq Let_def split: option.splits if_splits)
  moreover from add_run_preserves[OF seq this(1), of now]
  have "preserves s (insert_run ?row ?s2)" by (simp add: manual_row_def)
  ultimately show ?thesis using push_event_preserves preserves_trans by blast
qed

lemma enqueue_manual_preserves:
  "enqueue_manual D reference rid now s = Inr (s', row) \<Longrightarrow> preserves s s'"
  by (auto simp: enqueue_manual_def and_then_eq_Inr intro: enqueue_manual_tx_preserves)

lemma materialize_one_preserves:
  assumes "materialize_one now (n, policy) (s, result) = Inr (s', result')"
  shows "preserves s s'"
proof -
  obtain sequence s1 where seq: "next_queue_sequence s = (sequence, s1)" by fastforce
  let ?out = "overlap_decision policy (job_quarantined s1 (ns_job n)) (ns_trigger n = TriggerCatchUp)
    (active_runs s1 (ns_job n))"
  let ?s2 = "make_room (ns_job n) now (ns_id n) ?out s1"
  let ?row = "scheduled_row n now sequence ?out"
  consider "run_constraints ?s2 ?row" "s' = insert_run ?row ?s2" | "s' = ?s2"
    using assms by (auto simp: materialize_one_def seq Let_def split: if_splits)
  then show ?thesis
  proof cases
    case 1
    from add_run_preserves[OF seq 1(1), of now] 1(2) show ?thesis by (simp add: scheduled_row_def)
  qed (use room_preserves[OF seq] in simp)
qed

lemma materialize_all_preserves:
  "materialize_all now items (s, result) = Inr (s', result') \<Longrightarrow> preserves s s'"
proof (induction items arbitrary: s result)
  case (Cons item items)
  obtain n policy where item: "item = (n, policy)" by (cases item)
  from Cons.prems obtain s1 r1 where "materialize_one now (n, policy) (s, result) = Inr (s1, r1)"
    and "materialize_all now items (s1, r1) = Inr (s', result')"
    by (auto simp: and_then_eq_Inr item)
  then show ?case using materialize_one_preserves Cons.IH preserves_trans by blast
qed simp

lemma fold_push_event_preserves:
  "preserves s (fold (\<lambda>(m, d). push_event now (rs_kind m) (Some job) None d) items s)"
proof (induction items arbitrary: s)
  case (Cons item items)
  obtain m d where "item = (m, d)" by (cases item)
  then show ?case
    using preserves_trans[OF push_event_preserves Cons, of s now "rs_kind m" "Some job" None d] by simp
qed simp

lemma materialize_preserves:
  assumes "materialize_tx job cursor new_runs summaries now prepared s = Inr (s', result)"
  shows "preserves s s'"
proof -
  obtain policies details where p: "prepared = (policies, details)" by (cases prepared)
  define s2 where "s2 = (if cu_resolve_one_time cursor then resolve_one_time job now (advance_cursor job cursor now s)
     else advance_cursor job cursor now s)"
  have "preserves s s2"
    by (rule same_rows_preserves) (simp_all add: s2_def resolve_one_time_def advance_cursor_def)
  moreover from assms obtain s3 where
    "materialize_all now (zip new_runs policies) (s2, \<lparr>mat_inserted = 0, mat_duplicates = 0\<rparr>) = Inr (s3, result)"
    and s': "s' = fold (\<lambda>(m, d). push_event now (rs_kind m) (Some job) None d) (zip summaries details) s3"
    by (auto simp: materialize_tx_def p Let_def s2_def[symmetric] and_then_eq_Inr split: if_splits)
  then have "preserves s2 s3" by (blast intro: materialize_all_preserves)
  moreover have "preserves s3 s'" unfolding s' by (rule fold_push_event_preserves)
  ultimately show ?thesis by (blast intro: preserves_trans)
qed

end
