(* ===== verification/Store_Admission.thy ===== *)
theory Store_Admission
  imports Store_Steps
begin

text \<open>
  Admission: the fair selection loop of \<open>Store::admit\<close> takes at most the free capacity, never
  more than a job's limit, each run once; it ends with free capacity only when every scanned
  run is taken, changed since it was prepared, or held back by the limit of its job. The rows
  it takes are admitted under the invariant of the store.
\<close>

section \<open>The state of the selection loop\<close>

abbreviation row_id :: "admission_row \<Rightarrow> string" where
  "row_id row \<equiv> run_id (fst row)"

abbreviation row_job :: "admission_row \<Rightarrow> string" where
  "row_job row \<equiv> run_job (fst row)"

abbreviation row_snapshot :: "admission_row \<Rightarrow> string" where
  "row_snapshot row \<equiv> run_snapshot_json (fst row)"

definition queue :: "selection \<Rightarrow> string \<Rightarrow> admission_row list" where
  "queue sel job = (case Mapping.lookup (sel_grouped sel) job of None \<Rightarrow> [] | Some q \<Rightarrow> q)"

definition rows_of :: "string \<Rightarrow> admission_row list \<Rightarrow> admission_row list" where
  "rows_of job rows = filter (\<lambda>row. row_job row = job) rows"

definition row_policy :: "prepared_admission \<Rightarrow> admission_row \<Rightarrow> snapshot_policy \<Rightarrow> bool" where
  "row_policy prepared row policy \<longleftrightarrow> Mapping.lookup prepared (row_id row) = Some (row_snapshot row, Inr policy)"

definition unprepared :: "prepared_admission \<Rightarrow> admission_row \<Rightarrow> bool" where
  "unprepared prepared row \<longleftrightarrow>
     (\<forall>policy. Mapping.lookup prepared (row_id row) \<noteq> Some (row_snapshot row, policy))"

definition at_limit :: "prepared_admission \<Rightarrow> (string, int) mapping \<Rightarrow> admission_row list \<Rightarrow> admission_row \<Rightarrow> bool" where
  "at_limit prepared active selected row \<longleftrightarrow>
     (\<exists>policy. row_policy prepared row policy \<and>
        policy_limit policy \<le> job_count active (row_job row) + int (length (rows_of (row_job row) selected)))"

definition within_limits :: "prepared_admission \<Rightarrow> (string, int) mapping \<Rightarrow> admission_row list \<Rightarrow> bool" where
  "within_limits prepared active selected \<longleftrightarrow>
     (\<forall>i < length selected. \<exists>policy. row_policy prepared (selected ! i) policy \<and>
        job_count active (row_job (selected ! i))
          + int (length (rows_of (row_job (selected ! i)) (take i selected))) < policy_limit policy)"

definition settled :: "prepared_admission \<Rightarrow> (string, int) mapping \<Rightarrow> admission_row list \<Rightarrow> admission_row \<Rightarrow> bool" where
  "settled prepared active selected row \<longleftrightarrow>
     row \<in> set selected \<or> unprepared prepared row \<or> at_limit prepared active selected row"

definition sel_inv ::
    "admission_row list \<Rightarrow> prepared_admission \<Rightarrow> (string, int) mapping \<Rightarrow> selection \<Rightarrow> bool" where
  "sel_inv rows prepared active sel \<longleftrightarrow>
     distinct (map row_id (sel_rows sel)) \<and> set (sel_rows sel) \<subseteq> set rows
     \<and> (\<forall>row \<in> set (sel_rows sel). Mapping.lookup (sel_prepared sel) (row_id row) = None)
     \<and> (\<forall>job. job_count (sel_by_job sel) job = int (length (rows_of job (sel_rows sel))))
     \<and> (\<forall>job. distinct (queue sel job) \<and> set (queue sel job) \<subseteq> set (rows_of job rows))
     \<and> (\<forall>job. \<forall>row \<in> set (queue sel job).
          Mapping.lookup (sel_prepared sel) (row_id row) = Mapping.lookup prepared (row_id row))
     \<and> (\<forall>row \<in> set rows. row \<in> set (queue sel (row_job row)) \<or> settled prepared active (sel_rows sel) row)
     \<and> within_limits prepared active (sel_rows sel)"

lemma sel_invD:
  assumes "sel_inv rows prepared active sel"
  shows inv_distinct: "distinct (map row_id (sel_rows sel))"
    and inv_rows: "set (sel_rows sel) \<subseteq> set rows"
    and inv_removed: "row \<in> set (sel_rows sel) \<Longrightarrow> Mapping.lookup (sel_prepared sel) (row_id row) = None"
    and inv_count: "job_count (sel_by_job sel) job = int (length (rows_of job (sel_rows sel)))"
    and inv_queue: "distinct (queue sel job)" "set (queue sel job) \<subseteq> set (rows_of job rows)"
    and inv_prepared: "row \<in> set (queue sel job) \<Longrightarrow>
      Mapping.lookup (sel_prepared sel) (row_id row) = Mapping.lookup prepared (row_id row)"
    and inv_settled: "row \<in> set rows \<Longrightarrow>
      row \<in> set (queue sel (row_job row)) \<or> settled prepared active (sel_rows sel) row"
    and inv_limits: "within_limits prepared active (sel_rows sel)"
  using assms unfolding sel_inv_def by blast+

lemma lookup_delete_if: "Mapping.lookup (Mapping.delete k m) x = (if x = k then None else Mapping.lookup m x)"
  by (simp add: lookup_delete lookup_delete_neq)

lemma at_limit_mono: "at_limit p a selected row \<Longrightarrow> at_limit p a (selected @ extra) row"
  by (force simp: at_limit_def rows_of_def)

lemma settled_mono: "settled p a selected row \<Longrightarrow> settled p a (selected @ extra) row"
  using at_limit_mono[of p a selected row extra] by (auto simp: settled_def)

lemma within_limits_snoc:
  assumes "within_limits p a selected" and "row_policy p row policy"
    and "job_count a (row_job row) + int (length (rows_of (row_job row) selected)) < policy_limit policy"
  shows "within_limits p a (selected @ [row])"
  using assms by (auto simp: within_limits_def nth_append less_Suc_eq)

lemma queue_update [simp]:
  "queue (sel\<lparr>sel_grouped := Mapping.update job q (sel_grouped sel)\<rparr>) j = (if j = job then q else queue sel j)"
  by (simp add: queue_def lookup_update')

lemma queue_other [simp]:
  "queue (sel\<lparr>sel_prepared := p\<rparr>) = queue sel" "queue (sel\<lparr>sel_rows := r\<rparr>) = queue sel"
  "queue (sel\<lparr>sel_by_job := b\<rparr>) = queue sel"
  by (simp_all add: queue_def fun_eq_iff)

lemma queue_tail_ids:
  assumes inv: "sel_inv rows prepared active sel" and inj: "inj_on row_id (set rows)"
    and head: "queue sel job = row # q" and x: "x \<in> set (if j = job then q else queue sel j)"
  shows "row_id x \<noteq> row_id row \<and> x \<in> set (queue sel j)"
proof
  show xq: "x \<in> set (queue sel j)" using x head by (auto split: if_splits)
  show "row_id x \<noteq> row_id row"
  proof
    assume same: "row_id x = row_id row"
    have row: "row \<in> set rows" "row_job row = job"
      using inv_queue(2)[OF inv, of job] head by (auto simp: rows_of_def)
    have "x \<in> set rows" "row_job x = j" using inv_queue(2)[OF inv, of j] xq by (auto simp: rows_of_def)
    then have "x = row" using inj row same by (auto simp: inj_on_def)
    then show False
      using x \<open>row_job x = j\<close> row(2) inv_queue(1)[OF inv, of job] head by simp
  qed
qed

text \<open>Taking the head of a queue that turns out not to be selected.\<close>

lemma sel_inv_drop:
  assumes inv: "sel_inv rows prepared active sel" and inj: "inj_on row_id (set rows)"
    and head: "queue sel job = row # q"
    and settled: "settled prepared active (sel_rows sel) row"
    and prep: "p = sel_prepared sel \<or> p = Mapping.delete (row_id row) (sel_prepared sel)"
  shows "sel_inv rows prepared active
    (sel\<lparr>sel_grouped := Mapping.update job q (sel_grouped sel), sel_prepared := p\<rparr>)"
proof -
  let ?sel = "sel\<lparr>sel_grouped := Mapping.update job q (sel_grouped sel), sel_prepared := p\<rparr>"
  have q: "queue ?sel j = (if j = job then q else queue sel j)" for j by (simp add: queue_def lookup_update')
  have row: "row \<in> set rows" "row_job row = job"
    using inv_queue(2)[OF inv, of job] head by (auto simp: rows_of_def)
  have lookup: "Mapping.lookup p k = (if p = sel_prepared sel \<or> k \<noteq> row_id row
      then Mapping.lookup (sel_prepared sel) k else None)" for k
    using prep by (auto simp: lookup_delete_if)
  show ?thesis
    unfolding sel_inv_def
  proof (intro conjI)
    show "\<forall>j. distinct (queue ?sel j) \<and> set (queue ?sel j) \<subseteq> set (rows_of j rows)"
    proof
      fix j
      show "distinct (queue ?sel j) \<and> set (queue ?sel j) \<subseteq> set (rows_of j rows)"
        using inv_queue[OF inv, of j] head by (cases "j = job") (simp_all only: q if_True if_False, simp_all)
    qed
    show "\<forall>j. \<forall>x \<in> set (queue ?sel j). Mapping.lookup (sel_prepared ?sel) (row_id x) = Mapping.lookup prepared (row_id x)"
    proof (intro allI ballI)
      fix j x assume x: "x \<in> set (queue ?sel j)"
      then have "row_id x \<noteq> row_id row \<and> x \<in> set (queue sel j)"
        using queue_tail_ids[OF inv inj head] by (simp only: q simp_thms)
      then show "Mapping.lookup (sel_prepared ?sel) (row_id x) = Mapping.lookup prepared (row_id x)"
        using inv_prepared[OF inv, of x j] by (simp add: lookup)
    qed
    show "\<forall>x \<in> set rows. x \<in> set (queue ?sel (row_job x)) \<or> settled prepared active (sel_rows ?sel) x"
    proof
      fix x assume "x \<in> set rows"
      then show "x \<in> set (queue ?sel (row_job x)) \<or> settled prepared active (sel_rows ?sel) x"
        using inv_settled[OF inv, of x] settled head by (auto simp: q)
    qed
    show "\<forall>x \<in> set (sel_rows ?sel). Mapping.lookup (sel_prepared ?sel) (row_id x) = None"
      using inv_removed[OF inv] by (simp add: lookup)
  qed (use inv in \<open>simp_all add: sel_inv_def\<close>)
qed

text \<open>Selecting the head of a queue.\<close>

lemma sel_inv_take:
  assumes inv: "sel_inv rows prepared active sel" and inj: "inj_on row_id (set rows)"
    and head: "queue sel job = row # q"
    and prep: "Mapping.lookup (sel_prepared sel) (row_id row) = Some (row_snapshot row, Inr policy)"
    and limit: "job_count active job + job_count (sel_by_job sel) job < policy_limit policy"
  shows "sel_inv rows prepared active
    (sel\<lparr>sel_grouped := Mapping.update job q (sel_grouped sel),
         sel_prepared := Mapping.delete (row_id row) (sel_prepared sel),
         sel_rows := sel_rows sel @ [row],
         sel_by_job := Mapping.update job (job_count (sel_by_job sel) job + 1) (sel_by_job sel)\<rparr>)"
proof -
  let ?p = "Mapping.delete (row_id row) (sel_prepared sel)"
  let ?mid = "sel\<lparr>sel_grouped := Mapping.update job q (sel_grouped sel), sel_prepared := ?p,
    sel_rows := sel_rows sel @ [row]\<rparr>"
  let ?sel = "?mid\<lparr>sel_by_job := Mapping.update job (job_count (sel_by_job sel) job + 1) (sel_by_job sel)\<rparr>"
  have row: "row \<in> set rows" "row_job row = job"
    using inv_queue(2)[OF inv, of job] head by (auto simp: rows_of_def)
  have policy: "row_policy prepared row policy"
    using prep inv_prepared[OF inv, of row job] head by (simp add: row_policy_def)
  have q: "queue ?sel j = (if j = job then q else queue sel j)" for j by (simp add: queue_def lookup_update')
  have fresh: "row_id row \<notin> row_id ` set (sel_rows sel)"
    using inv_removed[OF inv] prep by (metis (no_types, lifting) imageE option.distinct(1))
  show ?thesis
    unfolding sel_inv_def
  proof (intro conjI)
    show "distinct (map row_id (sel_rows ?sel))" using inv_distinct[OF inv] fresh by simp
    show "set (sel_rows ?sel) \<subseteq> set rows" using inv_rows[OF inv] row by simp
    show "\<forall>x \<in> set (sel_rows ?sel). Mapping.lookup (sel_prepared ?sel) (row_id x) = None"
      using inv_removed[OF inv] by (simp add: lookup_delete_if)
    show "\<forall>j. job_count (sel_by_job ?sel) j = int (length (rows_of j (sel_rows ?sel)))"
      using inv_count[OF inv] row(2) by (simp add: job_count_def lookup_update' rows_of_def)
    show "\<forall>j. distinct (queue ?sel j) \<and> set (queue ?sel j) \<subseteq> set (rows_of j rows)"
    proof
      fix j
      show "distinct (queue ?sel j) \<and> set (queue ?sel j) \<subseteq> set (rows_of j rows)"
        using inv_queue[OF inv, of j] head by (cases "j = job") (simp_all only: q if_True if_False, simp_all)
    qed
    show "\<forall>j. \<forall>x \<in> set (queue ?sel j). Mapping.lookup (sel_prepared ?sel) (row_id x) = Mapping.lookup prepared (row_id x)"
    proof (intro allI ballI)
      fix j x assume x: "x \<in> set (queue ?sel j)"
      then have "row_id x \<noteq> row_id row \<and> x \<in> set (queue sel j)"
        using queue_tail_ids[OF inv inj head] by (simp only: q simp_thms)
      then show "Mapping.lookup (sel_prepared ?sel) (row_id x) = Mapping.lookup prepared (row_id x)"
        using inv_prepared[OF inv, of x j] by (simp add: lookup_delete_if)
    qed
    show "\<forall>x \<in> set rows. x \<in> set (queue ?sel (row_job x)) \<or> settled prepared active (sel_rows ?sel) x"
    proof
      fix x assume "x \<in> set rows"
      then show "x \<in> set (queue ?sel (row_job x)) \<or> settled prepared active (sel_rows ?sel) x"
        using inv_settled[OF inv, of x] settled_mono[of prepared active "sel_rows sel" x "[row]"] head
        by (auto simp: q settled_def)
    qed
    show "within_limits prepared active (sel_rows ?sel)"
      using within_limits_snoc[OF inv_limits[OF inv] policy] limit inv_count[OF inv] row(2) by simp
  qed
qed


section \<open>One pass and the whole loop\<close>

lemma queue_lookup:
  "Mapping.lookup (sel_grouped sel) job = Some q \<Longrightarrow> queue sel job = q"
  by (simp add: queue_def)

text \<open>
  What one job of a pass does: it leaves an empty queue alone, or it takes the head of the
  queue and decides about it.
\<close>

definition take_head :: "string \<Rightarrow> admission_row \<Rightarrow> admission_row list \<Rightarrow> selection \<Rightarrow> selection \<Rightarrow> bool" where
  "take_head job row q sel sel' \<longleftrightarrow>
     queue sel job = row # q \<and> (\<forall>j. queue sel' j = (if j = job then q else queue sel j))"

lemma select_pass_Cons:
  assumes run: "select_pass capacity active (job # js) sel progressed = Inr (sel', b)"
    and inv: "sel_inv rows prepared active sel" and inj: "inj_on row_id (set rows)"
    and room: "length (sel_rows sel) < capacity"
  obtains
    (empty) "queue sel job = []" and "select_pass capacity active js sel progressed = Inr (sel', b)"
  | (full) row q where "take_head job row q sel sel'" and "b" and "sel_inv rows prepared active sel'"
      and "length (sel_rows sel') = capacity"
  | (next_job) row q sel1 where "take_head job row q sel sel1" and "sel_inv rows prepared active sel1"
      and "length (sel_rows sel1) < capacity" and "select_pass capacity active js sel1 True = Inr (sel', b)"
proof (cases "queue sel job")
  case Nil
  then have "select_pass capacity active js sel progressed = Inr (sel', b)"
    using run by (simp add: queue_def split: option.splits)
  with Nil empty show ?thesis by blast
next
  case (Cons row q)
  then have look: "Mapping.lookup (sel_grouped sel) job = Some (row # q)"
    by (simp add: queue_def split: option.splits)
  let ?g = "Mapping.update job q (sel_grouped sel)"
  let ?p = "Mapping.delete (row_id row) (sel_prepared sel)"
  have prep: "Mapping.lookup (sel_prepared sel) (row_id row) = Mapping.lookup prepared (row_id row)"
    using inv_prepared[OF inv, of row job] Cons by simp
  have row: "row_job row = job" using inv_queue(2)[OF inv, of job] Cons by (auto simp: rows_of_def)
  note drop = sel_inv_drop[OF inv inj Cons]
  show ?thesis
  proof (cases "Mapping.lookup (sel_prepared sel) (row_id row)")
    case None
    then have "settled prepared active (sel_rows sel) row" using prep by (simp add: settled_def unprepared_def)
    from drop[OF this, of "sel_prepared sel"] None run look show ?thesis
      by (intro next_job[of row q "sel\<lparr>sel_grouped := ?g\<rparr>"])
        (use Cons room in \<open>simp_all add: take_head_def\<close>)
  next
    case (Some sp)
    obtain snapshot policy where sp: "sp = (snapshot, policy)" by (cases sp)
    let ?dropped = "sel\<lparr>sel_grouped := ?g, sel_prepared := ?p\<rparr>"
    have skip: thesis if "settled prepared active (sel_rows sel) row"
      and "select_pass capacity active js ?dropped True = Inr (sel', b)"
      using drop[OF that(1), of ?p] that(2) Cons room
      by (intro next_job[of row q ?dropped]) (simp_all add: take_head_def queue_def lookup_update')
    show ?thesis
    proof (cases "snapshot = row_snapshot row")
      case False
      then have "settled prepared active (sel_rows sel) row"
        using prep[symmetric] Some sp by (simp add: settled_def unprepared_def)
      then show ?thesis using skip run look Some sp False by simp
    next
      case True
      from run look Some sp True obtain pol where pol: "policy = Inr pol"
        by (cases policy) simp_all
      show ?thesis
      proof (cases "job_count active job + job_count (sel_by_job sel) job < policy_limit pol")
        case False
        then have "at_limit prepared active (sel_rows sel) row"
          using prep[symmetric] Some sp True pol inv_count[OF inv, of job] row by (simp add: at_limit_def row_policy_def)
        then show ?thesis using skip run look Some sp True pol False by (simp add: settled_def)
      next
        case fits: True
        define sel3 where "sel3 = sel\<lparr>sel_grouped := ?g, sel_prepared := ?p, sel_rows := sel_rows sel @ [row],
          sel_by_job := Mapping.update job (job_count (sel_by_job sel) job + 1) (sel_by_job sel)\<rparr>"
        have inv3: "sel_inv rows prepared active sel3" "take_head job row q sel sel3"
          using sel_inv_take[OF inv inj Cons _ fits] Some sp True pol Cons
          by (simp_all add: sel3_def take_head_def queue_def lookup_update')
        have len: "length (sel_rows sel3) = Suc (length (sel_rows sel))" by (simp add: sel3_def)
        have "if length (sel_rows sel3) = capacity then sel' = sel3 \<and> b
              else select_pass capacity active js sel3 True = Inr (sel', b)"
          using run look Some sp True pol fits by (simp add: sel3_def Let_def split: if_splits)
        then show ?thesis using inv3 len room full[of row q] next_job[of row q sel3]
          by (cases "length (sel_rows sel3) = capacity") auto
      qed
    qed
  qed
qed

lemma select_pass_effect:
  assumes "select_pass capacity active js sel progressed = Inr (sel', b)"
    and "sel_inv rows prepared active sel" and "inj_on row_id (set rows)"
    and "length (sel_rows sel) < capacity"
  shows "sel_inv rows prepared active sel' \<and> length (sel_rows sel') \<le> capacity
    \<and> (\<forall>j. length (queue sel' j) \<le> length (queue sel j))
    \<and> (if b then progressed \<or> (\<exists>j \<in> set js. length (queue sel' j) < length (queue sel j))
       else \<not> progressed \<and> sel' = sel \<and> (\<forall>j \<in> set js. queue sel j = []))"
  using assms
proof (induction js arbitrary: sel progressed)
  case (Cons job js)
  from Cons.prems show ?case
  proof (cases rule: select_pass_Cons)
    case empty
    from Cons.IH[OF empty(2) Cons.prems(2,3,4)] empty(1) show ?thesis by (auto split: if_splits)
  next
    case (full row q)
    then show ?thesis by (auto simp: take_head_def)
  next
    case (next_job row q sel1)
    note ih = Cons.IH[OF next_job(4,2) Cons.prems(3) next_job(3)]
    have heads: "length (queue sel1 j) \<le> length (queue sel j)" "length (queue sel1 job) < length (queue sel job)" for j
      using next_job(1) by (simp_all add: take_head_def)
    with ih have "length (queue sel' j) \<le> length (queue sel j)" "length (queue sel' job) < length (queue sel job)" for j
      by (meson le_trans le_less_trans)+
    with ih show ?thesis by (auto split: if_splits)
  qed
qed simp


definition backlog :: "string list \<Rightarrow> selection \<Rightarrow> nat" where
  "backlog js sel = sum_list (map (\<lambda>j. length (queue sel j)) js)"

lemma sum_list_less:
  fixes f g :: "'a \<Rightarrow> nat"
  assumes "\<And>x. f x \<le> g x" and "x \<in> set xs" and "f x < g x"
  shows "sum_list (map f xs) < sum_list (map g xs)"
  using assms(2)
proof (induction xs)
  case (Cons y ys)
  have "sum_list (map f ys) \<le> sum_list (map g ys)" using assms(1) by (intro sum_list_mono) auto
  with Cons assms(1)[of y] assms(3) show ?case by (cases "x = y") (auto intro: add_less_le_mono add_le_less_mono)
qed simp

lemma select_loop_effect:
  assumes "select_loop fuel capacity active js sel = Inr sel'"
    and "sel_inv rows prepared active sel" and inj: "inj_on row_id (set rows)"
    and "length (sel_rows sel) \<le> capacity"
  shows "sel_inv rows prepared active sel' \<and> length (sel_rows sel') \<le> capacity
    \<and> (backlog js sel < fuel \<longrightarrow> length (sel_rows sel') = capacity \<or> (\<forall>j \<in> set js. queue sel' j = []))"
  using assms(1,2,4)
proof (induction fuel arbitrary: sel)
  case (Suc fuel)
  show ?case
  proof (cases "length (sel_rows sel) < capacity")
    case True
    then obtain sel1 b where pass: "select_pass capacity active js sel False = Inr (sel1, b)"
      and rest: "if b then select_loop fuel capacity active js sel1 = Inr sel' else sel' = sel1"
      using Suc.prems by (auto simp: and_then_eq_Inr split: if_splits)
    note e = select_pass_effect[OF pass Suc.prems(2) inj True]
    show ?thesis
    proof (cases b)
      case False
      with e rest show ?thesis by auto
    next
      case b: True
      with e have "backlog js sel1 < backlog js sel"
        using sum_list_less[of "\<lambda>j. length (queue sel1 j)" "\<lambda>j. length (queue sel j)"] by (auto simp: backlog_def)
      moreover from Suc.IH[of sel1] e b rest have "sel_inv rows prepared active sel' \<and> length (sel_rows sel') \<le> capacity
        \<and> (backlog js sel1 < fuel \<longrightarrow> length (sel_rows sel') = capacity \<or> (\<forall>j \<in> set js. queue sel' j = []))"
        by simp
      ultimately show ?thesis by auto
    qed
  qed (use Suc.prems in simp)
qed simp


section \<open>The selection of a database\<close>

lemma lookup_group_rows:
  "Mapping.lookup (group_rows rows) job = (if rows_of job rows = [] then None else Some (rows_of job rows))"
proof (induction rows rule: rev_induct)
  case Nil
  then show ?case by (simp add: group_rows_def rows_of_def)
next
  case (snoc row rows)
  have "group_rows (rows @ [row]) = Mapping.map_default (row_job row) [] (\<lambda>q. q @ [row]) (group_rows rows)"
    by (simp add: group_rows_def)
  with snoc show ?case
    by (auto simp: rows_of_def lookup_map_default' Mapping.lookup_default_def)
qed

lemma keys_group_rows: "Mapping.keys (group_rows rows) = row_job ` set rows"
  by (auto simp: Mapping.keys_dom_lookup dom_def lookup_group_rows rows_of_def filter_empty_conv image_iff
      split: if_splits)

lemma rotated_group_rows:
  "distinct (rotated_jobs a (Mapping.ordered_keys (group_rows rows)))"
  "set (rotated_jobs a (Mapping.ordered_keys (group_rows rows))) = row_job ` set rows"
  by (simp_all add: rotated_jobs_def keys_group_rows split: option.split)

lemma backlog_start:
  assumes "distinct js"
  shows "sum_list (map (\<lambda>j. length (rows_of j rows)) js) \<le> length rows"
proof (induction rows)
  case (Cons row rows)
  have "sum_list (map (\<lambda>j. length (rows_of j (row # rows))) js)
      = sum_list (map (\<lambda>j. length (rows_of j rows)) js) + (if row_job row \<in> set js then 1 else 0)"
    using assms by (induction js) (auto simp: rows_of_def)
  with Cons show ?case by simp
qed (simp add: rows_of_def)

lemma admit_select_effect:
  assumes "admit_select now capacity prepared s = Inr selected" and wf: "store_wf s"
  defines "rows \<equiv> map (\<lambda>r. (r, next_attempt_number s (run_id r))) (eligible_runs s now (scan_limit capacity))"
  shows "distinct (map row_id selected)" and "set selected \<subseteq> set rows" and "length selected \<le> capacity"
    and "within_limits prepared (active_by_job s) selected"
    and "length selected < capacity \<Longrightarrow> row \<in> set rows \<Longrightarrow> settled prepared (active_by_job s) selected row"
proof -
  let ?start = "\<lparr>sel_grouped = group_rows rows, sel_prepared = prepared, sel_by_job = Mapping.empty, sel_rows = []\<rparr>"
  let ?js = "rotated_jobs (last_admitted_job s) (Mapping.ordered_keys (group_rows rows))"
  from assms(1) obtain sel where loop: "select_loop (Suc (length rows)) capacity (active_by_job s) ?js ?start = Inr sel"
    and sel: "selected = sel_rows sel"
    by (auto simp: admit_select_def Let_def and_then_eq_Inr rows_def simp del: select_loop.simps)
  have sub: "set (eligible_runs s now k) \<subseteq> set (runs s)" for k
    using set_take_subset by (fastforce simp: eligible_runs_def)
  have ids: "distinct (map row_id rows)"
  proof -
    have "distinct (map run_id (eligible_runs s now (scan_limit capacity)))"
      using wf_ids[OF wf] by (auto simp: eligible_runs_def distinct_map intro!: distinct_take inj_on_subset[of run_id "set (runs s)"]
          dest: in_set_takeD)
    then show ?thesis by (simp add: rows_def comp_def)
  qed
  then have inj: "inj_on row_id (set rows)" "distinct rows" by (simp_all add: distinct_map)
  have q: "queue ?start j = rows_of j rows" for j by (simp add: queue_def lookup_group_rows)
  have inv: "sel_inv rows prepared (active_by_job s) ?start"
    using inj(2) by (auto simp: sel_inv_def q rows_of_def job_count_def within_limits_def)
  have "backlog ?js ?start < Suc (length rows)"
    using backlog_start[OF rotated_group_rows(1)[of "last_admitted_job s" rows], of rows] by (simp add: backlog_def q)
  note e = select_loop_effect[OF loop inv inj(1)]
  with \<open>backlog ?js ?start < Suc (length rows)\<close> have inv': "sel_inv rows prepared (active_by_job s) sel"
    and len: "length (sel_rows sel) \<le> capacity"
    and ended: "length (sel_rows sel) = capacity \<or> (\<forall>j \<in> set ?js. queue sel j = [])"
    by auto
  show "distinct (map row_id selected)" "set selected \<subseteq> set rows" "length selected \<le> capacity"
    "within_limits prepared (active_by_job s) selected"
    using inv_distinct[OF inv'] inv_rows[OF inv'] inv_limits[OF inv'] len by (simp_all add: sel)
  show "settled prepared (active_by_job s) selected row" if "length selected < capacity" "row \<in> set rows"
    using inv_settled[OF inv' that(2)] ended that rotated_group_rows(2) by (auto simp: sel)
qed


section \<open>Admitting the selected rows\<close>

lemma admit_row_tables:
  assumes "admit_row lid now (r, n) s = Inr s'"
  shows "runs s' = update_where (\<lambda>x. run_id x = run_id r \<and> pending (run_st x)) (\<lambda>x. x\<lparr>run_st := Starting\<rparr>) (runs s)"
    and "attempts s' = attempts s @ [starting_attempt (run_id r) n lid now]"
    and "next_sequence s' = next_sequence s" and "settings s' = settings s"
    and "\<forall>a \<in> set (attempts s). attempt_key a \<noteq> (run_id r, n)" and "0 < n"
  using assms
  by (auto simp: admit_row_def Let_def update_runs_def attempt_key_def split: if_splits)

lemma run_ok_start:
  assumes "run_ok r as" and "pending (run_st r)" and "att_st a = AttStarting" and "\<not> lost_attempt a"
  shows "run_ok (r\<lparr>run_st := Starting\<rparr>) (as @ [a])"
proof -
  have alive: "\<not> is_terminal (run_st r)" using assms(2) by (intro active_not_terminal) auto
  have "filter active_attempt as = []" using run_ok_pending[OF assms(1)] assms(2) by blast
  moreover have "run_finished_at r = None" using run_ok_finished[OF assms(1)] alive by blast
  moreover have "run_reason r \<noteq> Some ''termination_unconfirmed''"
    using run_ok_reason[OF assms(1)] alive assms(2) by auto
  moreover have "\<not> list_ex lost_attempt as" using run_ok_lost[OF assms(1)] alive by blast
  ultimately show ?thesis
    using assms(3,4) by (simp add: run_ok_def expected_active_def is_terminal_def)
qed

lemma admit_row_preserves:
  assumes wf: "store_wf s" and adm: "admit_row lid now (r, n) s = Inr s'"
    and r0: "r0 \<in> set (runs s)" "run_id r0 = run_id r" "pending (run_st r0)"
  shows "store_wf s' \<and> run_moves s s'"
proof -
  note t = admit_row_tables[OF adm]
  let ?a = "starting_attempt (run_id r) n lid now"
  let ?F = "\<lambda>x. if run_id x = run_id r \<and> pending (run_st x) then x\<lparr>run_st := Starting\<rparr> else x"
  have runs: "runs s' = map ?F (runs s)" using t(1) by (simp add: update_where_def)
  have same: "run_id (?F x) = run_id x" "run_sequence (?F x) = run_sequence x" "run_job (?F x) = run_job x"
    "run_replacement_candidate (?F x) = run_replacement_candidate x" "run_snapshot_json (?F x) = run_snapshot_json x" for x
    by simp_all
  have ids: "map run_id (runs s') = map run_id (runs s)" "map run_sequence (runs s') = map run_sequence (runs s)"
    by (simp_all add: runs)
  then have idset: "run_id ` set (runs s') = run_id ` set (runs s)" by (metis list.set_map)
  have of: "attempts_of s' rid = attempts_of s rid @ (if rid = run_id r then [?a] else [])" for rid
    by (simp add: attempts_of_def t(2) starting_attempt_def)
  have ok: "run_ok (?F x) (attempts_of s' (run_id x))" if x: "x \<in> set (runs s)" for x
  proof (cases "run_id x = run_id r")
    case True
    then have "x = r0" using wf_run_unique[OF wf x r0(1)] r0(2) by simp
    then show ?thesis
      using run_ok_start[OF wf_run_ok[OF wf r0(1)] r0(3), of ?a] r0 True
      by (simp add: of starting_attempt_def lost_attempt_def)
  next
    case False
    then show ?thesis using wf_run_ok[OF wf x] by (simp add: of)
  qed
  have "store_wf s'"
    unfolding store_wf_def
  proof (intro conjI)
    show "distinct (map attempt_key (attempts s'))"
      using wf_keys[OF wf] t(5) by (auto simp: t(2) attempt_key_def starting_attempt_def)
    show "\<forall>a \<in> set (attempts s'). att_run a \<in> run_id ` set (runs s')"
      unfolding idset using wf_owner[OF wf] imageI[OF r0(1), of run_id] r0(2) by (auto simp: t(2) starting_attempt_def)
    show "\<forall>x \<in> set (runs s'). run_ok x (attempts_of s' (run_id x))"
    proof
      fix y assume "y \<in> set (runs s')"
      then obtain x where "x \<in> set (runs s)" "y = ?F x" unfolding runs set_map by blast
      then show "run_ok y (attempts_of s' (run_id y))" using ok[of x] same(1)[of x] by (simp only:)
    qed
    show "\<forall>x \<in> set (runs s'). 0 < run_sequence x \<and> run_sequence x < next_sequence s'"
      using wf_sequence[OF wf] by (auto simp: runs t(3))
    show "\<forall>x \<in> set (runs s'). \<forall>y \<in> set (runs s').
        run_replacement_candidate x \<and> run_replacement_candidate y \<and> run_job x = run_job y \<longrightarrow> run_id x = run_id y"
      unfolding runs set_map ball_simps same using wf_candidate[OF wf] by blast
  qed (use wf_ids[OF wf] wf_sequences[OF wf] wf_next[OF wf] ids t(3) in simp_all)
  moreover have "run_moves s s'"
    unfolding run_moves_def
  proof
    fix x assume x: "x \<in> set (runs s)"
    have "store_legal (run_st x) (run_st (?F x))" by (auto simp: store_legal_def)
    moreover have "is_terminal (run_st x) \<Longrightarrow> run_st (?F x) = run_st x" by (auto simp: is_terminal_def)
    ultimately show "\<exists>r' \<in> set (runs s'). run_id r' = run_id x \<and> run_job r' = run_job x
        \<and> run_snapshot_json r' = run_snapshot_json x \<and> store_legal\<^sup>*\<^sup>* (run_st x) (run_st r')
        \<and> (is_terminal (run_st x) \<longrightarrow> run_st r' = run_st x)"
      using x same[of x] by (intro bexI[of _ "?F x"]) (auto simp only: runs set_map intro!: r_into_rtranclp)
  qed
  ultimately show ?thesis ..
qed

text \<open>The other pending runs stay as they are.\<close>

lemma admit_row_others:
  assumes "admit_row lid now (r, n) s = Inr s'" and "x \<in> set (runs s)" and "run_id x \<noteq> run_id r"
  shows "x \<in> set (runs s')"
  using admit_row_tables(1)[OF assms(1)] assms(2,3) by (force simp: update_where_def)

lemma admit_rows_preserves:
  assumes "admit_rows lid now rows s = Inr s'" and "store_wf s" and "distinct (map row_id rows)"
    and "\<And>row. row \<in> set rows \<Longrightarrow> \<exists>x \<in> set (runs s). run_id x = row_id row \<and> pending (run_st x)"
  shows "store_wf s' \<and> run_moves s s'"
  using assms
proof (induction rows arbitrary: s)
  case (Cons row rows)
  obtain r n where row: "row = (r, n)" by (cases row)
  from Cons.prems(1) obtain s1 where s1: "admit_row lid now (r, n) s = Inr s1"
    and rest: "admit_rows lid now rows s1 = Inr s'" by (auto simp: and_then_eq_Inr row)
  obtain x where x: "x \<in> set (runs s)" "run_id x = run_id r" "pending (run_st x)"
    using Cons.prems(4)[of row] by (auto simp: row)
  note step = admit_row_preserves[OF Cons.prems(2) s1 x]
  have "\<exists>x \<in> set (runs s1). run_id x = row_id y \<and> pending (run_st x)" if y: "y \<in> set rows" for y
  proof -
    from Cons.prems(4)[of y] y obtain x where "x \<in> set (runs s)" "run_id x = row_id y" "pending (run_st x)" by auto
    moreover have "row_id y \<noteq> run_id r" using Cons.prems(3) y by (force simp: row)
    ultimately show ?thesis using admit_row_others[OF s1, of x] by auto
  qed
  from Cons.IH[OF rest _ _ this] step Cons.prems(3) have "store_wf s' \<and> run_moves s1 s'" by simp
  then show ?case using step run_moves_trans by blast
qed simp

lemma admit_rows_attempts:
  "admit_rows lid now rows s = Inr s' \<Longrightarrow>
     attempts s' = attempts s @ map (\<lambda>(r, n). starting_attempt (run_id r) n lid now) rows
     \<and> settings s' = settings s"
proof (induction rows arbitrary: s)
  case (Cons row rows)
  obtain r n where row: "row = (r, n)" by (cases row)
  with Cons.prems obtain s1 where s1: "admit_row lid now (r, n) s = Inr s1"
    and rest: "admit_rows lid now rows s1 = Inr s'" by (auto simp: and_then_eq_Inr)
  from Cons.IH[OF rest] admit_row_tables(2,4)[OF s1] show ?case by (simp add: row)
qed simp

lemma eligible_runs_admissible:
  "set (eligible_runs s now k) \<subseteq> {r \<in> set (runs s). admissible s now r}"
  using set_take_subset by (fastforce simp: eligible_runs_def)

lemma admit_tx_result:
  assumes "admit_tx lid now hard prepared s = Inr (s', as)"
  obtains "as = []" and "s' = s"
  | capacity rows where "admission_capacity s hard = Inr capacity" and "0 < capacity"
      and "admit_select now capacity prepared s = Inr rows"
      and "admit_rows lid now rows s = Inr s'" and "as = map admitted rows"
  using assms by (auto simp: admit_tx_def and_then_eq_Inr split: if_splits)

lemma selected_pending:
  assumes "admit_select now capacity prepared s = Inr rows" and "store_wf s" and "row \<in> set rows"
  shows "fst row \<in> set (runs s)" and "admissible s now (fst row)" and "snd row = next_attempt_number s (row_id row)"
  using admit_select_effect(2)[OF assms(1,2)] assms(3) eligible_runs_admissible by fastforce+

lemma admit_tx_preserves:
  assumes "admit_tx lid now hard prepared s = Inr (s', as)"
  shows "preserves s s'"
  unfolding preserves_def
proof
  assume wf: "store_wf s"
  from assms show "store_wf s' \<and> run_moves s s'"
  proof (cases rule: admit_tx_result)
    case 1
    with wf show ?thesis by simp
  next
    case (2 capacity rows)
    have "\<exists>x \<in> set (runs s). run_id x = row_id row \<and> pending (run_st x)" if "row \<in> set rows" for row
      using selected_pending(1,2)[OF 2(3) wf that] by (auto simp: admissible_def)
    with admit_rows_preserves[OF 2(4) wf admit_select_effect(1)[OF 2(3) wf]] show ?thesis by blast
  qed
qed

end
