(* ===== verification/Store_Retention.thy ===== *)
theory Store_Retention
  imports Store_Invariant
begin

text \<open>
  Retention in \<^verbatim>\<open>crates/locron-store/src/store.rs\<close>: the candidate queries of finished
  runs and of output artifacts, the two-phase deletion of both, and the byte totals. A
  query's \<open>LIMIT\<close> is \<open>maintenance_limit\<close>, and the window function \<open>row_number\<close> is the
  position in the sorted partition.
\<close>

section \<open>Queries\<close>

definition MAINTENANCE_BATCH_LIMIT :: nat where
  "MAINTENANCE_BATCH_LIMIT = 100"

definition maintenance_limit :: "nat \<Rightarrow> nat" where
  "maintenance_limit limit = min limit MAINTENANCE_BATCH_LIMIT"

text \<open>The order of a nullable column: \<open>NULL\<close> comes first.\<close>

definition null_key :: "int option \<Rightarrow> nat \<times> int" where
  "null_key t = (case t of None \<Rightarrow> (0, 0) | Some x \<Rightarrow> (1, x))"

record retention_candidate =
  rc_run :: string
  rc_attempt :: int
  rc_path :: string
  rc_physical :: int
  rc_finalized_at :: int

record output_recovery_candidate =
  orc_run :: string
  orc_attempt :: int
  orc_path :: string
  orc_state :: artifact_state

record run_retention_candidate =
  rrc_run :: string
  rrc_job :: string
  rrc_finished_at :: int

definition finalize_output :: "output_record \<Rightarrow> int \<Rightarrow> store \<Rightarrow> store store_result" where
  "finalize_output out now s = reconcile_output_finalized out now s"

definition referenced_partial_artifacts :: "nat \<Rightarrow> string \<Rightarrow> store \<Rightarrow> output_recovery_candidate list" where
  "referenced_partial_artifacts limit lifetime s =
     map (\<lambda>o'. \<lparr>orc_run = art_run o', orc_attempt = art_attempt o', orc_path = art_path o', orc_state = art_st o'\<rparr>)
       (take (maintenance_limit limit)
         (sort_key (\<lambda>o'. (art_run o', art_attempt o'))
           (filter (\<lambda>o'. art_st o' \<in> {ArtPending, ArtActive}
                \<and> (\<exists>a \<in> set (attempts s). att_run a = art_run o' \<and> att_number a = art_attempt o'
                     \<and> (\<not> active_attempt a \<or> att_lifetime a \<noteq> lifetime)))
             (artifacts s))))"

definition output_artifact_references :: "string \<Rightarrow> string \<Rightarrow> store \<Rightarrow> bool" where
  "output_artifact_references rid path s \<longleftrightarrow> (\<exists>o' \<in> set (artifacts s). art_run o' = rid \<and> art_path o' = path)"

definition retention_candidate_of :: "int \<Rightarrow> artifact_row \<Rightarrow> retention_candidate" where
  "retention_candidate_of at o' =
     \<lparr>rc_run = art_run o', rc_attempt = art_attempt o', rc_path = art_path o', rc_physical = art_physical o',
      rc_finalized_at = at\<rparr>"

definition pending_output_prunes :: "nat \<Rightarrow> store \<Rightarrow> retention_candidate list" where
  "pending_output_prunes limit s =
     map (\<lambda>o'. retention_candidate_of
            (case art_finalized_at o' of Some t \<Rightarrow> t
             | None \<Rightarrow> (case art_prune_started_at o' of Some t \<Rightarrow> t | None \<Rightarrow> 0)) o')
       (take (maintenance_limit limit)
         (sort_key (\<lambda>o'. (null_key (art_prune_started_at o'), art_run o', art_attempt o'))
           (filter (\<lambda>o'. art_st o' = ArtPrunePending) (artifacts s))))"

text \<open>A finalized artifact with no finalization time would make the row mapping fail.\<close>

definition output_retention_candidates :: "nat \<Rightarrow> store \<Rightarrow> retention_candidate list store_result" where
  "output_retention_candidates limit s =
     collect (\<lambda>o'. case art_finalized_at o' of
                None \<Rightarrow> Inl (StoreSqlite ''invalid column type Null'')
              | Some t \<Rightarrow> Inr (retention_candidate_of t o'))
       (take (maintenance_limit limit)
         (sort_key (\<lambda>o'. (null_key (art_finalized_at o'), art_run o', art_attempt o'))
           (filter (\<lambda>o'. art_st o' = ArtFinalized
                \<and> (\<exists>r \<in> set (runs s). run_id r = art_run o' \<and> is_terminal (run_st r)))
             (artifacts s))))"

definition retained_output_bytes :: "store \<Rightarrow> int" where
  "retained_output_bytes s = sum_list (map art_physical (filter (\<lambda>o'. art_st o' = ArtFinalized) (artifacts s)))"

definition retained_run_output_bytes :: "string \<Rightarrow> store \<Rightarrow> int" where
  "retained_run_output_bytes rid s =
     sum_list (map art_retained
       (filter (\<lambda>o'. art_run o' = rid \<and> art_st o' \<in> {ArtActive, ArtFinalized, ArtPrunePending}) (artifacts s)))"


section \<open>Runs past retention\<close>

definition age_cutoff :: "store \<Rightarrow> int \<Rightarrow> int option" where
  "age_cutoff s now = map_option (\<lambda>age. i64_saturating (now - age)) (set_run_retention_age (settings s))"

text \<open>The rows of the common table expression, and the order of its windows.\<close>

definition terminal_rows :: "store \<Rightarrow> run_row list" where
  "terminal_rows s = filter (\<lambda>r. is_terminal (run_st r) \<and> run_finished_at r \<noteq> None) (runs s)"

definition window_key :: "run_row \<Rightarrow> int \<times> string" where
  "window_key r = (the (run_finished_at r), run_id r)"

definition row_number :: "run_row \<Rightarrow> run_row list \<Rightarrow> nat" where
  "row_number r rows = Suc (length (takeWhile (\<lambda>x. x \<noteq> r) (rev (sort_key window_key rows))))"

definition past_age :: "int option \<Rightarrow> int \<Rightarrow> bool" where
  "past_age cutoff t \<longleftrightarrow> (case cutoff of None \<Rightarrow> False | Some c \<Rightarrow> t < c)"

definition run_candidate :: "run_row \<Rightarrow> run_retention_candidate" where
  "run_candidate r = \<lparr>rrc_run = run_id r, rrc_job = run_job r, rrc_finished_at = the (run_finished_at r)\<rparr>"

definition run_retention_candidates :: "int \<Rightarrow> nat \<Rightarrow> store \<Rightarrow> run_retention_candidate list" where
  "run_retention_candidates now limit s =
     (let retention_count = set_run_retention_count (settings s);
          cutoff = age_cutoff s now;
          terminal = terminal_rows s
      in map run_candidate
           (take (maintenance_limit limit)
             (sort_key window_key
               (filter (\<lambda>r. run_id r \<notin> fst ` set (retention_pending s)
                    \<and> (past_age cutoff (the (run_finished_at r))
                       \<or> row_number r (filter (\<lambda>x. run_job x = run_job r) terminal) > 1000
                       \<or> int (row_number r terminal) > retention_count))
                 terminal))))"

text \<open>The subqueries of the recheck count the newer runs, up to their \<open>LIMIT\<close>.\<close>

definition newer :: "run_row \<Rightarrow> run_row \<Rightarrow> bool" where
  "newer candidate x \<longleftrightarrow>
     is_terminal (run_st x) \<and> (case (run_finished_at x, run_finished_at candidate) of
       (Some t, Some t') \<Rightarrow> t > t' \<or> (t = t' \<and> run_id x > run_id candidate)
     | _ \<Rightarrow> False)"

definition sql_limit :: "int \<Rightarrow> 'a list \<Rightarrow> 'a list" where
  "sql_limit n xs = (if n < 0 then xs else take (nat n) xs)"

definition retention_eligible :: "run_retention_candidate \<Rightarrow> int \<Rightarrow> store \<Rightarrow> bool" where
  "retention_eligible c now s \<longleftrightarrow>
     (let retention_count = set_run_retention_count (settings s);
          cutoff = age_cutoff s now
      in \<exists>r \<in> set (runs s). run_id r = rrc_run c \<and> run_job r = rrc_job c
           \<and> run_finished_at r = Some (rrc_finished_at c) \<and> is_terminal (run_st r)
           \<and> (past_age cutoff (rrc_finished_at c)
              \<or> length (sql_limit 1000 (filter (\<lambda>x. run_job x = run_job r \<and> newer r x) (runs s))) \<ge> 1000
              \<or> int (length (sql_limit retention_count (filter (newer r) (runs s)))) \<ge> retention_count))"

definition mark_run_retention_pending :: "run_retention_candidate \<Rightarrow> int \<Rightarrow> store \<Rightarrow> store store_result" where
  "mark_run_retention_pending c now s =
     (if \<not> retention_eligible c now s
      then Inl (StoreConflict ''run is no longer eligible for metadata retention'')
      else if rrc_run c \<in> fst ` set (retention_pending s) then Inr s
      else Inr (s\<lparr>retention_pending := retention_pending s @ [(rrc_run c, now)]\<rparr>))"

text \<open>A pending run without a finish time would make the row mapping fail.\<close>

definition pending_run_retention :: "nat \<Rightarrow> store \<Rightarrow> run_retention_candidate list store_result" where
  "pending_run_retention limit s =
     collect (\<lambda>(selected, r). case run_finished_at r of
                None \<Rightarrow> Inl (StoreSqlite ''invalid column type Null'')
              | Some t \<Rightarrow> Inr \<lparr>rrc_run = run_id r, rrc_job = run_job r, rrc_finished_at = t\<rparr>)
       (take (maintenance_limit limit)
         (sort_key (\<lambda>(selected, r). (selected, null_key (run_finished_at r), run_id r))
           (concat (map (\<lambda>(rid, selected). map (Pair selected) (filter (\<lambda>r. run_id r = rid) (runs s)))
             (retention_pending s)))))"

definition retention_safe :: "run_retention_candidate \<Rightarrow> store \<Rightarrow> bool" where
  "retention_safe c s \<longleftrightarrow>
     (\<exists>r \<in> set (runs s). run_id r = rrc_run c \<and> run_job r = rrc_job c
        \<and> run_finished_at r = Some (rrc_finished_at c) \<and> is_terminal (run_st r))
     \<and> \<not> (\<exists>o' \<in> set (artifacts s). art_run o' = rrc_run c \<and> art_st o' \<notin> {ArtPruned, ArtMissing})"

text \<open>The deletes; the events of the run stay, their reference set to \<open>NULL\<close> by the foreign key.\<close>

definition delete_run :: "string \<Rightarrow> store \<Rightarrow> store" where
  "delete_run rid s =
     s\<lparr>retry_intents := filter (\<lambda>i. intent_run i \<noteq> rid) (retry_intents s),
       artifacts := filter (\<lambda>o'. art_run o' \<noteq> rid) (artifacts s),
       attempts := filter (\<lambda>a. att_run a \<noteq> rid) (attempts s),
       retention_pending := filter (\<lambda>p. fst p \<noteq> rid) (retention_pending s),
       runs := filter (\<lambda>r. run_id r \<noteq> rid) (runs s),
       events := update_where (\<lambda>e. event_run e = Some rid) (\<lambda>e. e\<lparr>event_run := None\<rparr>) (events s)\<rparr>"

definition finish_run_retention :: "run_retention_candidate \<Rightarrow> store \<Rightarrow> store store_result" where
  "finish_run_retention c s =
     (if rrc_run c \<notin> fst ` set (retention_pending s)
      then if \<exists>r \<in> set (runs s). run_id r = rrc_run c
           then Inl (StoreConflict ''run metadata is not pending retention deletion'')
           else Inr s
      else if \<not> retention_safe c s
      then Inl (StoreConflict ''run output must be pruned or missing before metadata deletion'')
      else if count_where (\<lambda>r. run_id r = rrc_run c) (runs s) \<noteq> 1
      then Inl (StoreConflict ''run metadata disappeared during retention deletion'')
      else Inr (delete_run (rrc_run c) s))"


section \<open>Pruning output\<close>

definition candidate_artifact :: "retention_candidate \<Rightarrow> artifact_state \<Rightarrow> artifact_row \<Rightarrow> bool" where
  "candidate_artifact c st o' \<longleftrightarrow> art_run o' = rc_run c \<and> art_attempt o' = rc_attempt c \<and> art_st o' = st"

definition mark_output_prune_pending :: "retention_candidate \<Rightarrow> int \<Rightarrow> store \<Rightarrow> store store_result" where
  "mark_output_prune_pending c now s =
     (if count_where (candidate_artifact c ArtFinalized) (artifacts s) \<noteq> 1
      then Inl (StoreConflict ''output is no longer eligible for pruning'')
      else Inr (update_artifacts (candidate_artifact c ArtFinalized)
             (\<lambda>o'. o'\<lparr>art_st := ArtPrunePending, art_prune_started_at := Some now\<rparr>) s))"

text \<open>Pruning an artifact that is already pruned is accepted and changes nothing.\<close>

definition finish_output_prune :: "retention_candidate \<Rightarrow> int \<Rightarrow> store \<Rightarrow> store store_result" where
  "finish_output_prune c now s =
     (let s' = update_artifacts (candidate_artifact c ArtPrunePending)
            (\<lambda>o'. o'\<lparr>art_st := ArtPruned, art_retained := 0, art_physical := 0, art_pruned_at := Some now\<rparr>) s
      in if count_where (candidate_artifact c ArtPrunePending) (artifacts s) = 1 then Inr s'
         else if \<exists>o' \<in> set (artifacts s'). candidate_artifact c ArtPruned o' \<and> art_physical o' = 0 then Inr s'
         else Inl (StoreConflict ''output is not pending durable prune completion''))"


section \<open>Ranks and counts\<close>

lemma takeWhile_descending:
  "sorted_wrt (\<lambda>a b. k b < k a) ys \<Longrightarrow> r \<in> set ys \<Longrightarrow>
   takeWhile (\<lambda>x. x \<noteq> r) ys = filter (\<lambda>x. k r < (k x :: 'k :: linorder)) ys"
proof (induction ys)
  case (Cons y ys)
  show ?case
  proof (cases "y = r")
    case True
    then have "\<not> k r < k x" if "x \<in> set ys" for x using Cons.prems(1) that by (auto dest: order_less_asym)
    then show ?thesis using True by (simp add: filter_empty_conv)
  next
    case False
    then show ?thesis using Cons by auto
  qed
qed simp

lemma descending_rev_sort:
  assumes "distinct (map k xs)"
  shows "sorted_wrt (\<lambda>a b. k b < (k a :: 'k :: linorder)) (rev (sort_key k xs))"
proof -
  have "mset (map k (sort_key k xs)) = mset (map k xs)" by simp
  then have "distinct (map k (sort_key k xs))" using assms by (metis mset_eq_imp_distinct_iff)
  then have "sorted_wrt (<) (map k (sort_key k xs))" by (simp add: strict_sorted_iff)
  then show ?thesis by (simp add: sorted_wrt_rev sorted_wrt_map)
qed

lemma row_number_newer:
  assumes "distinct (map run_id rows)" and "r \<in> set rows"
  shows "row_number r rows = Suc (length (filter (\<lambda>x. window_key r < window_key x) rows))"
proof -
  have dist: "distinct (map window_key rows)" using assms(1) by (auto simp: distinct_map inj_on_def window_key_def)
  have "length (takeWhile (\<lambda>x. x \<noteq> r) (rev (sort_key window_key rows))) =
      size (filter_mset (\<lambda>x. window_key r < window_key x) (mset rows))"
    using takeWhile_descending[OF descending_rev_sort[OF dist], of r] assms(2)
    by (simp add: size_mset[symmetric] del: size_mset)
  then show ?thesis by (simp add: row_number_def flip: mset_filter)
qed

lemma filter_newer:
  assumes "is_terminal (run_st r)" and "run_finished_at r = Some t"
  shows "filter (\<lambda>x. window_key r < window_key x) (terminal_rows s) = filter (newer r) (runs s)"
  unfolding terminal_rows_def filter_filter
  by (rule filter_cong[OF refl]) (auto simp: newer_def window_key_def assms split: option.splits)

lemma sql_limit_reached: "0 \<le> n \<Longrightarrow> n \<le> int (length (sql_limit n xs)) \<longleftrightarrow> n \<le> int (length xs)"
  by (auto simp: sql_limit_def)

text \<open>The ranks of the candidate query and the counts of the recheck agree.\<close>

definition retention_due :: "int \<Rightarrow> store \<Rightarrow> run_row \<Rightarrow> bool" where
  "retention_due now s r \<longleftrightarrow>
     past_age (age_cutoff s now) (the (run_finished_at r))
     \<or> row_number r (filter (\<lambda>x. run_job x = run_job r) (terminal_rows s)) > 1000
     \<or> int (row_number r (terminal_rows s)) > set_run_retention_count (settings s)"

lemma retention_due_eligible:
  assumes ids: "distinct (map run_id (runs s))" and count: "0 \<le> set_run_retention_count (settings s)"
    and r: "r \<in> set (terminal_rows s)"
  shows "retention_eligible (run_candidate r) now s \<longleftrightarrow> retention_due now s r"
proof -
  from r obtain t where t: "r \<in> set (runs s)" "is_terminal (run_st r)" "run_finished_at r = Some t"
    by (auto simp: terminal_rows_def)
  have dist: "distinct (map run_id (terminal_rows s))" unfolding terminal_rows_def by (rule distinct_map_filter[OF ids])
  have "row_number r (terminal_rows s) = Suc (length (filter (newer r) (runs s)))"
    using row_number_newer[OF dist r] filter_newer[OF t(2,3)] by simp
  moreover have "row_number r (filter (\<lambda>x. run_job x = run_job r) (terminal_rows s)) =
      Suc (length (filter (\<lambda>x. run_job x = run_job r \<and> newer r x) (runs s)))"
  proof -
    have "filter (\<lambda>x. window_key r < window_key x) (filter (\<lambda>x. run_job x = run_job r) (terminal_rows s)) =
        filter (\<lambda>x. run_job x = run_job r) (filter (newer r) (runs s))"
      by (simp add: filter_newer[OF t(2,3), symmetric] conj_commute)
    then show ?thesis
      using row_number_newer[OF distinct_map_filter[OF dist], of r "\<lambda>x. run_job x = run_job r"] r
      by (simp add: conj_commute)
  qed
  moreover have "(\<exists>x \<in> set (runs s). run_id x = run_id r \<and> P x) \<longleftrightarrow> P r" for P
    using t(1) ids unfolding distinct_map inj_on_def by blast
  moreover have "1000 \<le> length (sql_limit 1000 xs) \<longleftrightarrow> 1000 \<le> length xs" for xs :: "run_row list"
    by (simp add: sql_limit_def)
  ultimately show ?thesis
    using t count sql_limit_reached[OF count, of "filter (newer r) (runs s)"]
    by (simp add: retention_eligible_def retention_due_def run_candidate_def) linarith
qed

definition due_rows :: "int \<Rightarrow> store \<Rightarrow> run_row list" where
  "due_rows now s =
     sort_key window_key (filter (\<lambda>r. run_id r \<notin> fst ` set (retention_pending s) \<and> retention_due now s r) (terminal_rows s))"

lemma run_retention_candidates_due:
  "run_retention_candidates now limit s = map run_candidate (take (maintenance_limit limit) (due_rows now s))"
  by (simp add: run_retention_candidates_def due_rows_def retention_due_def Let_def)

lemma eligible_due_row:
  assumes ids: "distinct (map run_id (runs s))" and count: "0 \<le> set_run_retention_count (settings s)"
  shows "c \<in> run_candidate ` set (due_rows now s) \<longleftrightarrow>
    retention_eligible c now s \<and> rrc_run c \<notin> fst ` set (retention_pending s)"
proof
  assume "c \<in> run_candidate ` set (due_rows now s)"
  then obtain r where r: "c = run_candidate r" "r \<in> set (terminal_rows s)" "retention_due now s r"
      "run_id r \<notin> fst ` set (retention_pending s)"
    by (auto simp: due_rows_def)
  then show "retention_eligible c now s \<and> rrc_run c \<notin> fst ` set (retention_pending s)"
    using retention_due_eligible[OF ids count r(2)] by (simp add: run_candidate_def)
next
  assume c: "retention_eligible c now s \<and> rrc_run c \<notin> fst ` set (retention_pending s)"
  then obtain r where r: "r \<in> set (runs s)" "run_id r = rrc_run c" "run_job r = rrc_job c"
      "run_finished_at r = Some (rrc_finished_at c)" "is_terminal (run_st r)"
    by (auto simp: retention_eligible_def Let_def)
  then have eq: "c = run_candidate r" by (simp add: run_candidate_def)
  have fin: "r \<in> set (terminal_rows s)" using r by (simp add: terminal_rows_def)
  have "retention_due now s r" using c retention_due_eligible[OF ids count fin] eq by simp
  then have "r \<in> set (due_rows now s)" using fin r(2) c by (simp add: due_rows_def)
  then show "c \<in> run_candidate ` set (due_rows now s)" using eq by blast
qed

text \<open>
  C33: the candidate query of metadata retention, which ranks the finished runs with window
  functions, and the recheck inside the reserving transaction, which counts the newer runs,
  describe the same runs: every candidate is reserved by the recheck on the same database,
  no candidate is listed twice or after it was reserved, and when the batch limit was not
  reached the candidates are all the runs that the recheck would accept.
\<close>

theorem retention_query_matches_recheck:
  assumes "store_wf s" and "0 \<le> set_run_retention_count (settings s)"
  shows "distinct (map rrc_run (run_retention_candidates now limit s))
    \<and> (\<forall>c \<in> set (run_retention_candidates now limit s).
         mark_run_retention_pending c now s = Inr (s\<lparr>retention_pending := retention_pending s @ [(rrc_run c, now)]\<rparr>))
    \<and> (length (run_retention_candidates now limit s) < maintenance_limit limit \<longrightarrow>
         set (run_retention_candidates now limit s) =
           {c. retention_eligible c now s \<and> rrc_run c \<notin> fst ` set (retention_pending s)})"
proof (intro conjI ballI impI)
  note eligible = eligible_due_row[OF wf_ids[OF assms(1)] assms(2)]
  have "distinct (map run_id (terminal_rows s))"
    unfolding terminal_rows_def by (rule distinct_map_filter[OF wf_ids[OF assms(1)]])
  then have "distinct (map run_id (filter (\<lambda>r. run_id r \<notin> fst ` set (retention_pending s) \<and> retention_due now s r)
      (terminal_rows s)))" by (rule distinct_map_filter)
  moreover have "mset (map run_id (due_rows now s)) = mset (map run_id
      (filter (\<lambda>r. run_id r \<notin> fst ` set (retention_pending s) \<and> retention_due now s r) (terminal_rows s)))"
    by (simp add: due_rows_def)
  ultimately have "distinct (map run_id (due_rows now s))" by (metis mset_eq_imp_distinct_iff)
  then show "distinct (map rrc_run (run_retention_candidates now limit s))"
    by (simp add: run_retention_candidates_due run_candidate_def comp_def take_map[symmetric] distinct_take)
  fix c assume "c \<in> set (run_retention_candidates now limit s)"
  then have "c \<in> run_candidate ` set (due_rows now s)"
    unfolding run_retention_candidates_due by (auto dest: in_set_takeD)
  then show "mark_run_retention_pending c now s =
      Inr (s\<lparr>retention_pending := retention_pending s @ [(rrc_run c, now)]\<rparr>)"
    unfolding eligible by (simp add: mark_run_retention_pending_def)
next
  assume "length (run_retention_candidates now limit s) < maintenance_limit limit"
  then have "run_retention_candidates now limit s = map run_candidate (due_rows now s)"
    by (simp add: run_retention_candidates_due)
  then show "set (run_retention_candidates now limit s) =
      {c. retention_eligible c now s \<and> rrc_run c \<notin> fst ` set (retention_pending s)}"
    using eligible_due_row[OF wf_ids[OF assms(1)] assms(2)] by auto
qed


section \<open>Deletion\<close>

lemma delete_run_wf:
  assumes "store_wf s"
  shows "store_wf (delete_run rid s)"
proof -
  let ?s = "delete_run rid s"
  have runs: "runs ?s = filter (\<lambda>r. run_id r \<noteq> rid) (runs s)"
    and atts: "attempts ?s = filter (\<lambda>a. att_run a \<noteq> rid) (attempts s)"
    and seq: "next_sequence ?s = next_sequence s" by (simp_all add: delete_run_def)
  have same: "attempts_of ?s (run_id r) = attempts_of s (run_id r)" if "r \<in> set (runs ?s)" for r
    using that by (auto simp: attempts_of_def atts runs intro!: filter_cong)
  show ?thesis
    unfolding store_wf_def
  proof (intro conjI)
    show "\<forall>a \<in> set (attempts ?s). att_run a \<in> run_id ` set (runs ?s)"
      using wf_owner[OF assms] by (force simp: atts runs)
    show "\<forall>r \<in> set (runs ?s). run_ok r (attempts_of ?s (run_id r))"
      using wf_run_ok[OF assms] same by (simp add: runs)
  qed (use store_wfD[OF assms] in \<open>auto simp: runs atts seq distinct_map_filter\<close>)
qed

lemma store_wf_same_rows:
  "runs s' = runs s \<Longrightarrow> attempts s' = attempts s \<Longrightarrow> next_sequence s' = next_sequence s \<Longrightarrow> store_wf s' \<longleftrightarrow> store_wf s"
  by (simp add: store_wf_def attempts_of_def)

lemma count_where_key: "distinct (map f xs) \<Longrightarrow> x \<in> set xs \<Longrightarrow> count_where (\<lambda>y. f y = f x) xs = 1"
  unfolding count_where_def by (induction xs) (auto simp: image_iff filter_empty_conv)

definition mentions_run :: "store \<Rightarrow> string \<Rightarrow> bool" where
  "mentions_run s rid \<longleftrightarrow>
     rid \<in> run_id ` set (runs s) \<or> rid \<in> att_run ` set (attempts s) \<or> rid \<in> art_run ` set (artifacts s)
     \<or> rid \<in> intent_run ` set (retry_intents s) \<or> rid \<in> fst ` set (retention_pending s)
     \<or> Some rid \<in> event_run ` set (events s)"

lemma delete_run_mentions: "\<not> mentions_run (delete_run rid s) rid"
  by (auto simp: mentions_run_def delete_run_def update_where_def split: if_splits)

lemma finish_retention_after_delete: "finish_run_retention c (delete_run (rrc_run c) s) = Inr (delete_run (rrc_run c) s)"
  by (auto simp: finish_run_retention_def delete_run_def)

text \<open>
  The deletion of a reserved run's metadata keeps the invariant of the store, and when it
  changes anything then the run had finished, all its output had been pruned or lost, every
  other run stays, the number of events stays, and no table refers to the run any more; a
  repeated deletion is accepted and changes nothing.
\<close>

theorem retention_deletes_only_finished:
  assumes wf: "store_wf s" and ok: "finish_run_retention c s = Inr s'"
  shows "store_wf s' \<and> finish_run_retention c s' = Inr s'
    \<and> (s' \<noteq> s \<longrightarrow>
         (\<exists>r \<in> set (runs s). run_id r = rrc_run c \<and> is_terminal (run_st r) \<and> run_finished_at r = Some (rrc_finished_at c)
            \<and> \<not> (\<exists>a \<in> set (attempts_of s (run_id r)). active_attempt a))
         \<and> (\<forall>o' \<in> set (artifacts s). art_run o' = rrc_run c \<longrightarrow> art_st o' \<in> {ArtPruned, ArtMissing})
         \<and> (\<forall>r \<in> set (runs s). run_id r \<noteq> rrc_run c \<longrightarrow> r \<in> set (runs s'))
         \<and> length (events s') = length (events s) \<and> \<not> mentions_run s' (rrc_run c))"
proof (cases "s' = s")
  case True
  then show ?thesis using wf ok by simp
next
  case False
  with ok have safe: "retention_safe c s" and s': "s' = delete_run (rrc_run c) s"
    by (auto simp: finish_run_retention_def split: if_splits)
  from safe obtain r where r: "r \<in> set (runs s)" "run_id r = rrc_run c" "is_terminal (run_st r)"
      "run_finished_at r = Some (rrc_finished_at c)" by (auto simp: retention_safe_def)
  have "filter active_attempt (attempts_of s (run_id r)) = []"
    using run_ok_active[OF wf_run_ok[OF wf r(1)]] r(3) by (auto simp: expected_active_def is_terminal_def split: run_state.splits)
  then have "\<not> (\<exists>a \<in> set (attempts_of s (run_id r)). active_attempt a)" by (auto simp: filter_empty_conv)
  with r safe show ?thesis
    unfolding s' using delete_run_wf[OF wf] finish_retention_after_delete delete_run_mentions
    by (auto simp: retention_safe_def delete_run_def update_where_def)
qed

text \<open>
  Two-phase deletion makes progress: a run that the candidate query lists and whose
  output is pruned or missing is reserved by the first transaction and then deleted by the
  second, which leaves the database without the run and otherwise as it was.
\<close>

theorem retention_two_phase:
  assumes wf: "store_wf s" and count: "0 \<le> set_run_retention_count (settings s)"
    and c: "c \<in> set (run_retention_candidates now limit s)"
    and gone: "\<forall>o' \<in> set (artifacts s). art_run o' = rrc_run c \<longrightarrow> art_st o' \<in> {ArtPruned, ArtMissing}"
  shows "\<exists>s1. mark_run_retention_pending c now s = Inr s1 \<and> finish_run_retention c s1 = Inr (delete_run (rrc_run c) s)"
proof -
  have "c \<in> run_candidate ` set (due_rows now s)"
    using c unfolding run_retention_candidates_due by (auto dest: in_set_takeD)
  then have el: "retention_eligible c now s" and free: "rrc_run c \<notin> fst ` set (retention_pending s)"
    using eligible_due_row[OF wf_ids[OF wf] count] by blast+
  define s1 where "s1 = s\<lparr>retention_pending := retention_pending s @ [(rrc_run c, now)]\<rparr>"
  have mark: "mark_run_retention_pending c now s = Inr s1"
    using el free by (simp add: mark_run_retention_pending_def s1_def)
  from el obtain r where r: "r \<in> set (runs s)" "run_id r = rrc_run c" "run_job r = rrc_job c"
      "run_finished_at r = Some (rrc_finished_at c)" "is_terminal (run_st r)"
    by (auto simp: retention_eligible_def Let_def)
  have one: "count_where (\<lambda>x. run_id x = rrc_run c) (runs s) = 1"
    using count_where_key[OF wf_ids[OF wf] r(1)] r(2) by simp
  have "retention_safe c s1" using r gone by (auto simp: retention_safe_def s1_def)
  then have "finish_run_retention c s1 = Inr (delete_run (rrc_run c) s1)"
    using one by (simp add: finish_run_retention_def s1_def)
  moreover have "delete_run (rrc_run c) s1 = delete_run (rrc_run c) s" by (simp add: delete_run_def s1_def)
  ultimately show ?thesis using mark by auto
qed


section \<open>A concrete instance\<close>

definition finished_run :: run_row where
  "finished_run =
     \<lparr>run_id = ''r'', run_job = ''a'', run_revision = 1, run_trig = TriggerManual, run_nominal = None,
      run_requested_at = 1, run_eligible_at = 1, run_sequence = 1, run_snapshot_json = ''{}'', run_st = Succeeded,
      run_reason = None, run_replacement_candidate = False, run_cancellation_requested_at = None,
      run_cancellation_reason = None, run_finished_at = Some 3\<rparr>"

definition finished_store :: store where
  "finished_store = initial_store\<lparr>next_sequence := 2, runs := [finished_run],
     settings := (settings initial_store)\<lparr>set_run_retention_count := 0\<rparr>\<rparr>"

lemma finished_store_wf: "store_wf finished_store"
  by (simp add: store_wf_def finished_store_def initial_store_def finished_run_def run_ok_def attempts_of_def
      expected_active_def is_terminal_def)

lemma finished_candidates: "run_retention_candidates 9 5 finished_store = [run_candidate finished_run]"
  by code_simp

theorem retention_query_matches_recheck_witness:
  "mark_run_retention_pending (run_candidate finished_run) 9 finished_store =
     Inr (finished_store\<lparr>retention_pending := [(''r'', 9)]\<rparr>)"
proof -
  have "0 \<le> set_run_retention_count (settings finished_store)" by (simp add: finished_store_def)
  from retention_query_matches_recheck[OF finished_store_wf this, of 9 5] show ?thesis
    unfolding finished_candidates by (simp add: run_candidate_def finished_run_def finished_store_def initial_store_def)
qed

theorem retention_deletes_only_finished_witness:
  "\<exists>s'. finish_run_retention (run_candidate finished_run) (finished_store\<lparr>retention_pending := [(''r'', 9)]\<rparr>) = Inr s'
     \<and> store_wf s' \<and> \<not> mentions_run s' ''r''"
proof -
  let ?s = "finished_store\<lparr>retention_pending := [(''r'', 9)]\<rparr>"
  have wf: "store_wf ?s" using finished_store_wf store_wf_same_rows[of ?s finished_store] by simp
  have ok: "finish_run_retention (run_candidate finished_run) ?s = Inr (delete_run ''r'' ?s)"
    by (simp add: finish_run_retention_def retention_safe_def run_candidate_def finished_run_def finished_store_def
        initial_store_def is_terminal_def count_where_def)
  have "retention_pending (delete_run ''r'' ?s) \<noteq> retention_pending ?s" by (simp add: delete_run_def)
  then have "delete_run ''r'' ?s \<noteq> ?s" by metis
  moreover have "rrc_run (run_candidate finished_run) = ''r''" by (simp add: run_candidate_def finished_run_def)
  ultimately show ?thesis using retention_deletes_only_finished[OF wf ok] ok by metis
qed

theorem retention_two_phase_witness:
  "\<exists>s1. mark_run_retention_pending (run_candidate finished_run) 9 finished_store = Inr s1
     \<and> finish_run_retention (run_candidate finished_run) s1 = Inr (delete_run ''r'' finished_store)"
  using retention_two_phase[OF finished_store_wf, of "run_candidate finished_run" 9 5]
  unfolding finished_candidates by (simp add: finished_store_def initial_store_def run_candidate_def finished_run_def)

end
