(* ===== verification/Catalogue_Frame.thy ===== *)
theory Catalogue_Frame
  imports Job_Contracts Store_Admission Store_Retention
begin

text \<open>
  What the operations on runs leave of the job catalogue: they keep the settings and every
  revision, they keep the identity, name and current revision of every job, and they never
  bring a removed job back. So they keep the invariant of the catalogue.
\<close>

definition catalogue_kept :: "store \<Rightarrow> store \<Rightarrow> bool" where
  "catalogue_kept s s' \<longleftrightarrow>
     job_revisions s' = job_revisions s \<and> settings s' = settings s
     \<and> (\<exists>F. jobs s' = map F (jobs s)
          \<and> (\<forall>j. job_key (F j) = job_key j \<and> job_name (F j) = job_name j \<and> (live (F j) \<longrightarrow> live j)))
     \<and> (\<exists>G. cursors s' = map G (cursors s) \<and> (\<forall>c. cur_key (G c) = cur_key c))"

lemma catalogue_kept_wf: "catalogue_kept s s' \<Longrightarrow> jobs_wf s \<Longrightarrow> jobs_wf s'"
  unfolding catalogue_kept_def using jobs_evolve by blast

lemma catalogue_same:
  assumes "jobs s' = jobs s" "job_revisions s' = job_revisions s" "cursors s' = cursors s" "settings s' = settings s"
  shows "catalogue_kept s s'"
proof -
  have "jobs s' = map id (jobs s)" "cursors s' = map id (cursors s)" using assms by simp_all
  then show ?thesis unfolding catalogue_kept_def using assms(2,4) by (metis id_apply)
qed

lemma catalogue_refl [simp]: "catalogue_kept s s"
  by (rule catalogue_same) simp_all

lemma catalogue_trans [trans]:
  assumes "catalogue_kept a b" and "catalogue_kept b c"
  shows "catalogue_kept a c"
proof -
  from assms obtain F F' G G' where
    "jobs b = map F (jobs a)" "jobs c = map F' (jobs b)" "cursors b = map G (cursors a)" "cursors c = map G' (cursors b)"
    and F: "\<And>j. job_key (F j) = job_key j \<and> job_name (F j) = job_name j \<and> (live (F j) \<longrightarrow> live j)"
      "\<And>j. job_key (F' j) = job_key j \<and> job_name (F' j) = job_name j \<and> (live (F' j) \<longrightarrow> live j)"
    and G: "\<And>c. cur_key (G c) = cur_key c" "\<And>c. cur_key (G' c) = cur_key c"
    unfolding catalogue_kept_def by metis
  then have "jobs c = map (F' \<circ> F) (jobs a)" "cursors c = map (G' \<circ> G) (cursors a)" by simp_all
  moreover have "job_revisions c = job_revisions a" "settings c = settings a"
    using assms by (simp_all add: catalogue_kept_def)
  ultimately show ?thesis
    unfolding catalogue_kept_def using F G by (metis comp_apply)
qed

lemma catalogue_update:
  assumes "jobs s' = update_where p f (jobs s)" "job_revisions s' = job_revisions s" "cursors s' = update_where q g (cursors s)"
    "settings s' = settings s"
    and f: "\<And>j. job_key (f j) = job_key j \<and> job_name (f j) = job_name j \<and> (live (f j) \<longrightarrow> live j)"
    and g: "\<And>c. cur_key (g c) = cur_key c"
  shows "catalogue_kept s s'"
  unfolding catalogue_kept_def
proof (intro conjI)
  show "\<exists>F. jobs s' = map F (jobs s) \<and> (\<forall>j. job_key (F j) = job_key j \<and> job_name (F j) = job_name j \<and> (live (F j) \<longrightarrow> live j))"
    using assms(1) f by (intro exI[of _ "\<lambda>x. if p x then f x else x"]) (simp add: update_where_def)
  show "\<exists>G. cursors s' = map G (cursors s) \<and> (\<forall>c. cur_key (G c) = cur_key c)"
    using assms(3) g by (intro exI[of _ "\<lambda>x. if q x then g x else x"]) (simp add: update_where_def)
qed (use assms in simp_all)


section \<open>The shared transaction steps\<close>

lemma run_updates_catalogue [simp]:
  "catalogue_kept s (push_event t k j r d x) \<longleftrightarrow> catalogue_kept s x"
  "catalogue_kept s (update_runs p f x) \<longleftrightarrow> catalogue_kept s x"
  "catalogue_kept s (update_attempts q g x) \<longleftrightarrow> catalogue_kept s x"
  "catalogue_kept s (update_artifacts o' h x) \<longleftrightarrow> catalogue_kept s x"
  "catalogue_kept s (delete_intents rid x) \<longleftrightarrow> catalogue_kept s x"
  "catalogue_kept s (replace_intent i x) \<longleftrightarrow> catalogue_kept s x"
  "catalogue_kept s (insert_run row x) \<longleftrightarrow> catalogue_kept s x"
  "catalogue_kept s (x\<lparr>retry_intents := is\<rparr>) \<longleftrightarrow> catalogue_kept s x"
  "catalogue_kept s (x\<lparr>lifetimes := ls\<rparr>) \<longleftrightarrow> catalogue_kept s x"
  "catalogue_kept s (x\<lparr>attempts := as\<rparr>) \<longleftrightarrow> catalogue_kept s x"
  "catalogue_kept s (x\<lparr>artifacts := os\<rparr>) \<longleftrightarrow> catalogue_kept s x"
  "catalogue_kept s (x\<lparr>last_admitted_job := la\<rparr>) \<longleftrightarrow> catalogue_kept s x"
  "catalogue_kept s (x\<lparr>next_sequence := n\<rparr>) \<longleftrightarrow> catalogue_kept s x"
  by (simp_all add: catalogue_kept_def push_event_def update_runs_def update_attempts_def update_artifacts_def
      delete_intents_def replace_intent_def insert_run_def)

lemma soft_remove_kept [simp]:
  assumes "catalogue_kept s x"
  shows "catalogue_kept s (soft_remove_after_one_time_completion D rid now x)"
proof -
  have "catalogue_kept x (x\<lparr>jobs := update_where p
      (\<lambda>j. j\<lparr>job_enabled := False, job_removed_at := Some now, job_updated_at := now\<rparr>) (jobs x)\<rparr>)" for p
    by (rule catalogue_update[where q = "\<lambda>c. False" and g = id]) (auto simp: job_key_def live_def update_where_nothing)
  note step = catalogue_trans[OF assms this]
  show ?thesis
    unfolding soft_remove_after_one_time_completion_def Let_def
    by (auto simp: assms step split: option.splits)
qed

lemma fold_kept:
  assumes "\<And>x y. catalogue_kept s y \<Longrightarrow> catalogue_kept s (f x y)" and "catalogue_kept s y"
  shows "catalogue_kept s (fold f xs y)"
  using assms by (induction xs arbitrary: y) simp_all

lemma supersede_kept: "catalogue_kept s x \<Longrightarrow> catalogue_kept s (supersede_for_replacement job now successor x)"
  unfolding supersede_for_replacement_def Let_def
  by (auto intro!: fold_kept simp: supersede_one_def)

lemma make_room_kept: "catalogue_kept s x \<Longrightarrow> catalogue_kept s (make_room job now successor outcome x)"
  by (simp add: make_room_def supersede_kept)


section \<open>The operations\<close>

lemma cancel_kept: "cancel_with_acknowledgement D rid now ack s = Inr (s', outcome) \<Longrightarrow> catalogue_kept s s'"
  unfolding cancel_with_acknowledgement_def
  by (auto simp: and_then_eq_Inr split: option.splits if_splits) (auto split: cancel_outcome.split_asm if_splits)

lemma cancel_before_spawn_kept: "cancel_before_spawn D rid n now source job s = Inr (s', d) \<Longrightarrow> catalogue_kept s s'"
  unfolding cancel_before_spawn_def Let_def by (auto split: if_splits)

lemma mark_attempt_running_kept: "mark_attempt_running_inner D rid n now exe s = Inr (s', d) \<Longrightarrow> catalogue_kept s s'"
  unfolding mark_attempt_running_inner_def Let_def
  by (auto split: option.splits if_splits intro: cancel_before_spawn_kept)

lemma complete_unconfirmed_kept: "complete_unconfirmed c s = Inr s' \<Longrightarrow> catalogue_kept s s'"
  unfolding complete_unconfirmed_def Let_def
  by (auto simp: fail_replacements_def Let_def split: option.splits if_splits)

lemma complete_known_kept: "complete_known D c st s = Inr s' \<Longrightarrow> catalogue_kept s s'"
  unfolding complete_known_def Let_def by (auto split: option.splits if_splits)

lemma complete_attempt_kept: "complete_attempt D c s = Inr s' \<Longrightarrow> catalogue_kept s s'"
  unfolding complete_attempt_def
  by (auto split: completion_state.splits if_splits intro: complete_unconfirmed_kept complete_known_kept)

lemma pre_execution_failure_kept:
  "complete_pre_execution_failure D rid n out now why s = Inr s' \<Longrightarrow> catalogue_kept s s'"
  unfolding complete_pre_execution_failure_def Let_def by (auto split: option.splits if_splits)

lemma runner_failure_kept: "complete_runner_failure D rid n now why started s = Inr s' \<Longrightarrow> catalogue_kept s s'"
  unfolding complete_runner_failure_def Let_def and_then_eq_Inr runner_failure_end_def runner_failure_changes_def
  by (auto split: option.splits if_splits)

lemma begin_lifetime_kept: "begin_lifetime D pid lid now v s = Inr (s', n) \<Longrightarrow> catalogue_kept s s'"
  unfolding begin_lifetime_def Let_def by (auto split: if_splits intro!: fold_kept)

lemma end_lifetime_kept: "catalogue_kept s (end_lifetime lid now s)"
  by (simp add: end_lifetime_def)

lemma reconcile_kept:
  "reconcile_output_finalized out now s = Inr s' \<Longrightarrow> catalogue_kept s s'"
  "reconcile_output_missing rid n now s = Inr s' \<Longrightarrow> catalogue_kept s s'"
  unfolding reconcile_output_finalized_def reconcile_output_missing_def Let_def by (auto split: if_splits)

lemma prune_kept:
  "mark_output_prune_pending pc now s = Inr s' \<Longrightarrow> catalogue_kept s s'"
  "finish_output_prune pc now s = Inr s' \<Longrightarrow> catalogue_kept s s'"
  unfolding mark_output_prune_pending_def finish_output_prune_def Let_def by (auto split: if_splits)

lemma retention_kept:
  "mark_run_retention_pending rc now s = Inr s' \<Longrightarrow> catalogue_kept s s'"
  "finish_run_retention rc s = Inr s' \<Longrightarrow> catalogue_kept s s'"
  unfolding mark_run_retention_pending_def finish_run_retention_def
  by (auto simp: delete_run_def split: if_splits intro!: catalogue_same)

lemma next_queue_sequence_kept: "next_queue_sequence s = (n, s1) \<Longrightarrow> catalogue_kept s s1"
  by (auto simp: next_queue_sequence_def)

lemma enqueue_manual_kept: "enqueue_manual_tx reference rid now prepared s = Inr s' \<Longrightarrow> catalogue_kept s s'"
  unfolding enqueue_manual_tx_def Let_def
  by (auto split: prod.splits option.splits if_splits intro!: make_room_kept dest: next_queue_sequence_kept)

lemma materialize_one_kept:
  "materialize_one now item (x, m) = Inr (x', m') \<Longrightarrow> catalogue_kept s x \<Longrightarrow> catalogue_kept s x'"
  unfolding materialize_one_def Let_def
  by (auto split: prod.splits if_splits intro!: make_room_kept dest: next_queue_sequence_kept catalogue_trans)

lemma materialize_all_kept:
  "materialize_all now items (x, m) = Inr (x', m') \<Longrightarrow> catalogue_kept s x \<Longrightarrow> catalogue_kept s x'"
proof (induction items arbitrary: x m)
  case (Cons item items)
  then show ?case by (auto simp: and_then_eq_Inr intro: materialize_one_kept)
qed simp

lemma advance_cursor_kept: "catalogue_kept s (advance_cursor job cursor now s)"
  unfolding advance_cursor_def
  by (rule catalogue_update[where p = "\<lambda>j. False" and f = id and q = "cursor_matches s job cursor"
      and g = "\<lambda>c. c\<lparr>cur_cursor := cu_new_cursor cursor,
                cur_one_time_resolved := (cu_resolve_one_time cursor \<or> cur_one_time_resolved c),
                cur_updated_at := now, cur_disabled_since := None\<rparr>"])
    (simp_all add: update_where_nothing cur_key_def)

lemma resolve_one_time_kept: "catalogue_kept s x \<Longrightarrow> catalogue_kept s (resolve_one_time job now x)"
  unfolding resolve_one_time_def run_updates_catalogue
  by (erule catalogue_trans, rule catalogue_update[where q = "\<lambda>c. False" and g = id])
    (auto simp: update_where_nothing job_key_def live_def)

lemma materialize_kept:
  "materialize_tx job cursor new_runs summaries now prepared s = Inr (s', result) \<Longrightarrow> catalogue_kept s s'"
  unfolding materialize_tx_def Let_def
  by (auto simp: and_then_eq_Inr split: prod.splits if_splits intro!: fold_kept
      intro: materialize_all_kept resolve_one_time_kept advance_cursor_kept)

lemma admit_row_kept: "admit_row lid now row x = Inr x' \<Longrightarrow> catalogue_kept s x \<Longrightarrow> catalogue_kept s x'"
  unfolding admit_row_def Let_def by (auto split: prod.splits if_splits)

lemma admit_rows_kept: "admit_rows lid now rows x = Inr x' \<Longrightarrow> catalogue_kept s x \<Longrightarrow> catalogue_kept s x'"
  by (induction rows arbitrary: x) (auto simp: and_then_eq_Inr intro: admit_row_kept)

lemma admit_kept: "admit_tx lid now hard prepared s = Inr (s', as) \<Longrightarrow> catalogue_kept s s'"
  unfolding admit_tx_def by (auto simp: and_then_eq_Inr split: if_splits intro: admit_rows_kept)

end
