(* ===== verification/Transition_Systems.thy ===== *)
theory Transition_Systems
  imports Main
begin

text \<open>
  State machines with an invariant, and relations between the earlier and the later states of
  their runs. The store and the daemon are instances.
\<close>

section \<open>Transition systems\<close>

locale transition_system =
  fixes init :: "'s \<Rightarrow> bool" and step :: "'s \<Rightarrow> 's \<Rightarrow> bool" and inv :: "'s \<Rightarrow> bool"
  assumes inv_init: "init s \<Longrightarrow> inv s"
    and inv_step: "inv s \<Longrightarrow> step s s' \<Longrightarrow> inv s'"
begin

lemma inv_steps: "step\<^sup>*\<^sup>* s s' \<Longrightarrow> inv s \<Longrightarrow> inv s'"
  by (induction rule: rtranclp_induct) (auto intro: inv_step)

lemma reachable_inv: "init s \<Longrightarrow> step\<^sup>*\<^sup>* s s' \<Longrightarrow> inv s'"
  using inv_steps inv_init by blast

end

text \<open>A relation that every step of the invariant states satisfies is one of all runs.\<close>

locale history_system = transition_system +
  fixes related :: "'s \<Rightarrow> 's \<Rightarrow> bool"
  assumes related_refl: "related s s"
    and related_trans: "related a b \<Longrightarrow> related b c \<Longrightarrow> related a c"
    and related_step: "inv s \<Longrightarrow> step s s' \<Longrightarrow> related s s'"
begin

lemma related_steps: "step\<^sup>*\<^sup>* s s' \<Longrightarrow> inv s \<Longrightarrow> related s s'"
proof (induction rule: rtranclp_induct)
  case (step b c)
  then show ?case using inv_steps related_step related_trans by blast
qed (rule related_refl)

end

end
