(* ===== verification/Store_Machine.thy ===== *)
theory Store_Machine
  imports Catalogue_Frame Transition_Systems
begin

text \<open>
  The store as a state machine: one step per write transaction of \<^verbatim>\<open>store.rs\<close>, in any
  order and with any arguments. What an operation reads before its transaction (the policies
  of an admission, the prepared occurrences and the job of a manual run) is arbitrary in its
  step, so the steps cover every interleaving with the transactions of other processes. The
  invariants of the components hold in every reachable state.
\<close>

section \<open>Steps\<close>

text \<open>
  The completions that the engine sends: a finished attempt state, or the quarantine marker,
  and never the marker as the reason of another state.
\<close>

definition documented_completion :: "attempt_completion \<Rightarrow> bool" where
  "documented_completion c \<longleftrightarrow>
     (case comp_state c of
        CompletedAs st \<Rightarrow> st \<notin> {AttStarting, AttRunning} \<and> comp_reason c \<noteq> ''termination_unconfirmed''
      | TerminationUnconfirmed \<Rightarrow> True
      | UnknownState _ \<Rightarrow> True)"

inductive store_step :: "codecs \<Rightarrow> bool \<Rightarrow> store \<Rightarrow> store \<Rightarrow> bool" for D windows where
  step_create: "create_job D job s = Inr (s', r) \<Longrightarrow> store_step D windows s s'"
| step_update: "update_job u s = Inr (s', r) \<Longrightarrow> store_step D windows s s'"
| step_enable: "set_enabled reference enabled now s = Inr (s', r) \<Longrightarrow> store_step D windows s s'"
| step_remove: "remove_job reference now s = Inr s' \<Longrightarrow> store_step D windows s s'"
| step_import: "apply_import D windows batch s = Inr (s', summary) \<Longrightarrow> store_step D windows s s'"
| step_environment: "set_environment D windows name val now s = Inr (s', r) \<Longrightarrow> store_step D windows s s'"
| step_setting: "set_setting D windows key val now s = Inr (s', r) \<Longrightarrow> store_step D windows s s'"
| step_enqueue: "enqueue_manual_tx reference rid now prepared s = Inr s' \<Longrightarrow> store_step D windows s s'"
| step_materialize:
    "materialize_tx job cursor new_runs summaries now planned s = Inr (s', result) \<Longrightarrow> store_step D windows s s'"
| step_cancel: "cancel_with_acknowledgement D rid now ack s = Inr (s', outcome) \<Longrightarrow> store_step D windows s s'"
| step_begin: "begin_lifetime D pid lid now v s = Inr (s', n) \<Longrightarrow> store_step D windows s s'"
| step_end: "store_step D windows s (end_lifetime lid now s)"
| step_admit: "admit_tx lid now hard policies s = Inr (s', as) \<Longrightarrow> store_step D windows s s'"
| step_start: "mark_attempt_running_inner D rid n now exe s = Inr (s', d) \<Longrightarrow> store_step D windows s s'"
| step_complete: "documented_completion c \<Longrightarrow> complete_attempt D c s = Inr s' \<Longrightarrow> store_step D windows s s'"
| step_pre_execution:
    "complete_pre_execution_failure D rid n out now why s = Inr s' \<Longrightarrow> store_step D windows s s'"
| step_runner_failure:
    "complete_runner_failure D rid n now why started s = Inr s' \<Longrightarrow> store_step D windows s s'"
| step_finalized: "reconcile_output_finalized out now s = Inr s' \<Longrightarrow> store_step D windows s s'"
| step_missing: "reconcile_output_missing rid n now s = Inr s' \<Longrightarrow> store_step D windows s s'"
| step_prune: "mark_output_prune_pending pc now s = Inr s' \<Longrightarrow> store_step D windows s s'"
| step_pruned: "finish_output_prune pc now s = Inr s' \<Longrightarrow> store_step D windows s s'"
| step_reserve: "mark_run_retention_pending rc now s = Inr s' \<Longrightarrow> store_step D windows s s'"
| step_delete: "finish_run_retention rc s = Inr s' \<Longrightarrow> store_step D windows s s'"


section \<open>Preservation\<close>

lemma same_runs_preserves:
  "runs s' = runs s \<Longrightarrow> attempts s' = attempts s \<Longrightarrow> next_sequence s' = next_sequence s \<Longrightarrow> preserves s s'"
  by (rule same_rows_preserves) simp_all

lemma add_revision_runs:
  "add_revision jid n d now by c en s = Inr s' \<Longrightarrow>
   runs s' = runs s \<and> attempts s' = attempts s \<and> next_sequence s' = next_sequence s \<and> settings s' = settings s"
  by (auto simp: add_revision_def split: if_splits)

lemma insert_job_runs:
  "insert_job job now by s = Inr s' \<Longrightarrow>
   runs s' = runs s \<and> attempts s' = attempts s \<and> next_sequence s' = next_sequence s \<and> settings s' = settings s"
  by (auto simp: insert_job_def split: if_splits dest: add_revision_runs)

lemma update_job_row_runs:
  "update_job_row u now n s = Inr s' \<Longrightarrow>
   runs s' = runs s \<and> attempts s' = attempts s \<and> next_sequence s' = next_sequence s \<and> settings s' = settings s"
  by (auto simp: update_job_row_def split: if_splits)

lemma push_event_runs [simp]:
  "runs (push_event t k j r d s) = runs s" "attempts (push_event t k j r d s) = attempts s"
  "next_sequence (push_event t k j r d s) = next_sequence s"
  by (simp_all add: push_event_def)

lemma create_job_runs:
  "create_job_tx job s = Inr s' \<Longrightarrow>
   runs s' = runs s \<and> attempts s' = attempts s \<and> next_sequence s' = next_sequence s \<and> settings s' = settings s"
  by (auto simp: create_job_tx_def and_then_eq_Inr split: if_splits dest: insert_job_runs)

lemma update_job_runs:
  "update_job_tx u s = Inr s' \<Longrightarrow>
   runs s' = runs s \<and> attempts s' = attempts s \<and> next_sequence s' = next_sequence s \<and> settings s' = settings s"
  by (auto simp: update_job_tx_def Let_def and_then_eq_Inr split: option.splits if_splits
      dest!: update_job_row_runs add_revision_runs)

lemma import_one_runs:
  "import_one now i (s, m) = Inr (s', m') \<Longrightarrow>
   runs s' = runs s \<and> attempts s' = attempts s \<and> next_sequence s' = next_sequence s \<and> settings s' = settings s"
  by (cases i) (auto simp: and_then_eq_Inr dest!: insert_job_runs update_job_row_runs add_revision_runs)

lemma import_all_runs:
  "import_all now is (s, m) = Inr (s', m') \<Longrightarrow>
   runs s' = runs s \<and> attempts s' = attempts s \<and> next_sequence s' = next_sequence s \<and> settings s' = settings s"
proof (induction "is" arbitrary: s m)
  case (Cons i "is")
  then show ?case by (fastforce simp: and_then_eq_Inr dest: import_one_runs)
qed simp

lemma apply_import_runs:
  "apply_import D windows batch s = Inr (s', m) \<Longrightarrow>
   runs s' = runs s \<and> attempts s' = attempts s \<and> next_sequence s' = next_sequence s"
  by (auto simp: apply_import_def import_settings_def and_then_eq_Inr dest!: import_all_runs)

lemma apply_import_settings_ok:
  "apply_import D windows batch s = Inr (s', m) \<Longrightarrow> settings_ok (settings s')"
  by (auto simp: apply_import_def import_settings_def and_then_eq_Inr validate_import_settings_def settings_ok_def
      split: if_splits option.splits)

lemma set_enabled_runs:
  "set_enabled_tx reference enabled now s = Inr (s', jid) \<Longrightarrow>
   runs s' = runs s \<and> attempts s' = attempts s \<and> next_sequence s' = next_sequence s \<and> settings s' = settings s"
  by (auto simp: set_enabled_tx_def Let_def split: option.splits if_splits)

lemma remove_job_runs:
  "remove_job reference now s = Inr s' \<Longrightarrow>
   runs s' = runs s \<and> attempts s' = attempts s \<and> next_sequence s' = next_sequence s \<and> settings s' = settings s"
  by (auto simp: remove_job_def Let_def and_then_eq_Inr split: if_splits)

lemma settings_ops_frame:
  "set_environment_tx D windows name val now s = Inr s' \<Longrightarrow> \<exists>r. s' = s\<lparr>settings := r\<rparr>"
  "set_setting_tx key content now s = Inr s' \<Longrightarrow> \<exists>r. s' = s\<lparr>settings := r\<rparr>"
  by (auto simp: set_environment_tx_def set_setting_tx_def and_then_eq_Inr Let_def)

lemma artifact_ops_preserve:
  "reconcile_output_finalized out now s = Inr s' \<Longrightarrow> preserves s s'"
  "reconcile_output_missing rid n now s = Inr s' \<Longrightarrow> preserves s s'"
  "mark_output_prune_pending pc now s = Inr s' \<Longrightarrow> preserves s s'"
  "finish_output_prune pc now s = Inr s' \<Longrightarrow> preserves s s'"
  "mark_run_retention_pending rc now s = Inr s' \<Longrightarrow> preserves s s'"
  by (auto simp: reconcile_output_finalized_def reconcile_output_missing_def mark_output_prune_pending_def
      finish_output_prune_def mark_run_retention_pending_def update_artifacts_def Let_def
      split: if_splits intro!: same_runs_preserves)

lemma complete_attempt_preserves:
  assumes "documented_completion c" and "complete_attempt D c s = Inr s'"
  shows "preserves s s'"
  using assms unfolding complete_attempt_def documented_completion_def
  by (auto split: completion_state.splits if_splits
      intro: complete_unconfirmed_preserves complete_known_preserves)

text \<open>Every step but the deletion by retention keeps the runs and moves them legally.\<close>

lemma step_preserves:
  assumes "store_step D windows s s'"
  shows "preserves s s' \<or> (\<exists>rc. finish_run_retention rc s = Inr s')"
  using assms
proof cases
  case step_delete
  then show ?thesis by blast
qed (auto simp: create_job_def update_job_def set_enabled_def set_environment_def set_setting_def and_then_eq_Inr
    end_lifetime_def
    dest!: create_job_runs update_job_runs set_enabled_runs remove_job_runs apply_import_runs settings_ops_frame
    intro: same_runs_preserves enqueue_manual_tx_preserves materialize_preserves cancel_preserves
      begin_lifetime_preserves admit_tx_preserves mark_attempt_running_preserves complete_attempt_preserves
      pre_execution_failure_preserves runner_failure_preserves artifact_ops_preserve)

lemma retention_wf: "store_wf s \<Longrightarrow> finish_run_retention rc s = Inr s' \<Longrightarrow> store_wf s'"
  by (auto simp: finish_run_retention_def split: if_splits intro: delete_run_wf)

definition store_inv :: "store \<Rightarrow> bool" where
  "store_inv s \<longleftrightarrow> store_wf s \<and> jobs_wf s \<and> settings_ok (settings s)"

lemma step_store_wf: "store_step D windows s s' \<Longrightarrow> store_wf s \<Longrightarrow> store_wf s'"
  using step_preserves[of D windows s s'] retention_wf unfolding preserves_def by blast

text \<open>The catalogue changes by a job operation, or is kept.\<close>

lemma step_catalogue:
  assumes "store_step D windows s s'"
  obtains (create) job where "create_job_tx job s = Inr s'"
  | (update) u where "update_job_tx u s = Inr s'"
  | (enable) reference enabled now jid where "set_enabled_tx reference enabled now s = Inr (s', jid)"
  | (remove) reference now where "remove_job reference now s = Inr s'"
  | (batch) batch m where "apply_import D windows batch s = Inr (s', m)"
  | (environment) name val now where "set_environment_tx D windows name val now s = Inr s'"
  | (setting) key content now where "set_setting_tx key content now s = Inr s'"
  | (kept) "catalogue_kept s s'"
  using assms
proof cases
  case (step_create job r)
  then show ?thesis using create by (auto simp: create_job_def and_then_eq_Inr)
next
  case (step_update u r)
  then show ?thesis using update by (auto simp: update_job_def and_then_eq_Inr)
next
  case (step_enable reference enabled now r)
  then show ?thesis using enable by (auto simp: set_enabled_def and_then_eq_Inr)
next
  case (step_environment name val now r)
  then show ?thesis using environment by (auto simp: set_environment_def and_then_eq_Inr)
next
  case (step_setting key val now r)
  then show ?thesis using setting by (auto simp: set_setting_def and_then_eq_Inr)
next
  case step_end
  then show ?thesis using kept end_lifetime_kept by blast
qed (use remove batch kept in \<open>blast intro: enqueue_manual_kept materialize_kept cancel_kept begin_lifetime_kept admit_kept
    mark_attempt_running_kept complete_attempt_kept pre_execution_failure_kept runner_failure_kept reconcile_kept
    prune_kept retention_kept\<close>)+

lemma step_jobs_wf:
  assumes "store_step D windows s s'" and "jobs_wf s"
  shows "jobs_wf s'"
  using assms(1)
proof (cases rule: step_catalogue)
  case environment
  from settings_ops_frame(1)[OF this] assms(2) jobs_wf_cong[of s' s] show ?thesis by auto
next
  case setting
  from settings_ops_frame(2)[OF this] assms(2) jobs_wf_cong[of s' s] show ?thesis by auto
qed (use assms(2) in \<open>blast intro: create_job_tx_wf update_job_tx_wf set_enabled_tx_wf remove_job_wf apply_import_wf
    catalogue_kept_wf\<close>)+

lemma step_settings_ok:
  assumes "store_step D windows s s'" and "settings_ok (settings s)"
  shows "settings_ok (settings s')"
  using assms(1)
proof (cases rule: step_catalogue)
  case kept
  then show ?thesis using assms(2) by (simp add: catalogue_kept_def)
qed (use assms(2) in \<open>auto dest: create_job_runs update_job_runs set_enabled_runs remove_job_runs apply_import_settings_ok
    set_environment_tx_ok set_setting_tx_ok\<close>)

lemma initial_store_inv: "store_inv initial_store"
  using initial_jobs_wf by (simp add: store_inv_def store_wf_def settings_ok_def initial_store_def)

interpretation machine: transition_system "\<lambda>s. s = initial_store" "store_step D windows" store_inv for D windows
proof unfold_locales
  show "store_inv s" if "s = initial_store" for s using that initial_store_inv by simp
  show "store_inv s'" if "store_inv s" "store_step D windows s s'" for s s'
    using that step_store_wf step_jobs_wf step_settings_ok unfolding store_inv_def by blast
qed


section \<open>Histories\<close>

text \<open>
  A history is a sequence of databases \<open>\<sigma> 0, \<sigma> 1, \<dots>\<close>, each reached from the one before by one
  transaction. A row is the same run later on when it has the same identity, job and snapshot,
  its state moved along the store's transitions, and did not move if it was terminal.
\<close>

definition same_run :: "run_row \<Rightarrow> run_row \<Rightarrow> bool" where
  "same_run r r' \<longleftrightarrow> run_id r' = run_id r \<and> run_job r' = run_job r \<and> run_snapshot_json r' = run_snapshot_json r
     \<and> store_legal\<^sup>*\<^sup>* (run_st r) (run_st r') \<and> (is_terminal (run_st r) \<longrightarrow> run_st r' = run_st r)"

lemma same_run_refl: "same_run r r"
  by (simp add: same_run_def)

lemma same_run_trans: "same_run a b \<Longrightarrow> same_run b c \<Longrightarrow> same_run a c"
  unfolding same_run_def by (metis rtranclp_trans)

text \<open>
  A transaction may drop a run only when it is terminal, retention has claimed it, and no output
  of it is left on disk.
\<close>

definition run_droppable :: "store \<Rightarrow> run_row \<Rightarrow> bool" where
  "run_droppable s r \<longleftrightarrow> is_terminal (run_st r) \<and> run_id r \<in> fst ` set (retention_pending s)
     \<and> (\<forall>o' \<in> set (artifacts s). art_run o' = run_id r \<longrightarrow> art_st o' \<in> {ArtPruned, ArtMissing})"

definition run_lost_at :: "(nat \<Rightarrow> store) \<Rightarrow> run_row \<Rightarrow> nat \<Rightarrow> bool" where
  "run_lost_at \<sigma> r k \<longleftrightarrow> (\<exists>r' \<in> set (runs (\<sigma> k)). same_run r r' \<and> run_droppable (\<sigma> k) r')
     \<and> run_id r \<notin> run_id ` set (runs (\<sigma> (Suc k)))"

lemma run_moves_same: "run_moves s s' \<longleftrightarrow> (\<forall>r \<in> set (runs s). \<exists>r' \<in> set (runs s'). same_run r r')"
  by (simp add: run_moves_def same_run_def)

lemma retention_drops:
  assumes ok: "finish_run_retention rc s = Inr s'" and wf: "store_wf s" and r: "r \<in> set (runs s)"
  shows "r \<in> set (runs s') \<or> run_droppable s r \<and> run_id r \<notin> run_id ` set (runs s')"
proof (cases "s' = s")
  case False
  with ok have safe: "retention_safe rc s" and claimed: "rrc_run rc \<in> fst ` set (retention_pending s)"
    and s': "s' = delete_run (rrc_run rc) s"
    by (auto simp: finish_run_retention_def split: if_splits)
  from safe obtain x where x: "x \<in> set (runs s)" "run_id x = rrc_run rc" "is_terminal (run_st x)"
    by (auto simp: retention_safe_def)
  have "x = r" if "run_id r = rrc_run rc"
    using that r x wf_ids[OF wf] by (auto simp: distinct_map inj_on_def)
  then show ?thesis using r x(3) safe claimed by (auto simp: run_droppable_def retention_safe_def s' delete_run_def)
qed (use r in simp)

lemma step_run:
  assumes "store_inv s" and "store_step D windows s s'" and "r \<in> set (runs s)"
  shows "(\<exists>r' \<in> set (runs s'). same_run r r') \<or> run_droppable s r \<and> run_id r \<notin> run_id ` set (runs s')"
  using step_preserves[OF assms(2)]
proof
  assume "preserves s s'"
  with assms show ?thesis by (auto simp: preserves_def run_moves_same store_inv_def)
next
  assume "\<exists>rc. finish_run_retention rc s = Inr s'"
  with assms(1,3) retention_drops same_run_refl show ?thesis unfolding store_inv_def by blast
qed

lemma history_reachable:
  assumes "\<And>i. i < n \<Longrightarrow> store_step D windows (\<sigma> i) (\<sigma> (Suc i))" and "i \<le> j" "j \<le> n"
  shows "(store_step D windows)\<^sup>*\<^sup>* (\<sigma> i) (\<sigma> j)"
  using assms(2,3)
proof (induction rule: dec_induct)
  case (step m)
  with assms(1)[of m] show ?case by (auto intro: rtranclp.rtrancl_into_rtrancl)
qed simp

lemma run_along_history:
  assumes inv: "\<And>k. k \<le> n \<Longrightarrow> store_inv (\<sigma> k)" and steps: "\<And>i. i < n \<Longrightarrow> store_step D windows (\<sigma> i) (\<sigma> (Suc i))"
    and "i \<le> j" "j \<le> n" and r: "r \<in> set (runs (\<sigma> i))"
  shows "(\<exists>r' \<in> set (runs (\<sigma> j)). same_run r r') \<or> (\<exists>k. i \<le> k \<and> k < j \<and> run_lost_at \<sigma> r k)"
  using assms(3,4)
proof (induction rule: dec_induct)
  case base
  show ?case using r same_run_refl by blast
next
  case (step m)
  then consider (kept) r' where "r' \<in> set (runs (\<sigma> m))" "same_run r r'" | (lost) k where "i \<le> k" "k < m" "run_lost_at \<sigma> r k"
    by auto
  then show ?case
  proof cases
    case kept
    with step step_run[OF inv steps, of m r'] have
      "(\<exists>r'' \<in> set (runs (\<sigma> (Suc m))). same_run r' r'') \<or> run_droppable (\<sigma> m) r' \<and> run_id r' \<notin> run_id ` set (runs (\<sigma> (Suc m)))"
      by simp
    moreover have "run_id r' = run_id r" using kept by (simp add: same_run_def)
    ultimately show ?thesis using kept step(1) same_run_trans unfolding run_lost_at_def by (metis lessI)
  qed (metis less_Suc_eq)
qed

lemma catalogue_kept_grows: "catalogue_kept s s' \<Longrightarrow> catalogue_grows s s'"
  unfolding catalogue_kept_def by (auto simp: job_key_def intro!: catalogue_grows_map)

lemma step_catalogue_grows:
  assumes "store_inv s" and "store_step D windows s s'"
  shows "catalogue_grows s s'"
  using assms(2)
proof (cases rule: step_catalogue)
  case environment
  from settings_ops_frame(1)[OF this] show ?thesis by (auto simp: catalogue_grows_def)
next
  case setting
  from settings_ops_frame(2)[OF this] show ?thesis by (auto simp: catalogue_grows_def)
qed (use assms(1) in \<open>auto simp: store_inv_def intro: create_job_tx_grows update_job_tx_grows set_enabled_tx_grows
    remove_job_grows apply_import_grows catalogue_kept_grows\<close>)

interpretation catalogue_history:
  history_system "\<lambda>s. s = initial_store" "store_step D windows" store_inv catalogue_grows for D windows
  by unfold_locales (auto intro: catalogue_grows_trans step_catalogue_grows)


section \<open>The store's safety properties\<close>

text \<open>
  C1: every database that the write transactions can produce from the migrated empty one, in
  any order and interleaving, is well formed: run identities, attempt keys and queue
  sequences are unique, every attempt belongs to a run, a run has a finish time exactly when
  it is terminal, an executing run has exactly its one active attempt and every other run
  none, a job has at most one replacement candidate, job identities and live names are
  unique, every job's current revision and its cursor exist, no revision lies beyond it, and
  the settings are within their bounds.
\<close>

theorem reachable_store_invariant:
  assumes "(store_step D windows)\<^sup>*\<^sup>* initial_store s"
  shows "store_wf s \<and> jobs_wf s \<and> settings_ok (settings s)"
  using machine.reachable_inv[OF refl assms] by (simp add: store_inv_def)

text \<open>
  C3: along any sequence of write transactions from the migrated empty database, a run of the
  \<open>i\<close>-th database is in every later one with its job and its snapshot, its state moved only
  along the store's transitions and unchanged once terminal, unless some transaction in
  between dropped it; and a transaction drops a run only when it is terminal, has been
  claimed for retention, and its output is already pruned or missing.
\<close>

theorem runs_never_lost:
  assumes "\<sigma> 0 = initial_store" and "\<And>i. i < n \<Longrightarrow> store_step D windows (\<sigma> i) (\<sigma> (Suc i))"
    and "i \<le> j" and "j \<le> n" and "r \<in> set (runs (\<sigma> i))"
  shows "(\<exists>r' \<in> set (runs (\<sigma> j)). same_run r r')
    \<or> (\<exists>k. i \<le> k \<and> k < j \<and> run_lost_at \<sigma> r k)"
proof (rule run_along_history)
  show "store_inv (\<sigma> k)" if "k \<le> n" for k
    using history_reachable[where \<sigma> = \<sigma> and D = D and windows = windows and i = 0 and j = k and n = n] that assms(1,2)
      machine.reachable_inv[OF refl, of D windows "\<sigma> k"] by simp
qed (use assms in simp_all)

text \<open>
  C21: along any sequence of write transactions the revisions of the jobs are an append-only
  list, so a recorded definition never changes or disappears, the jobs stay, their current
  revision never goes back, and a removed job stays removed.
\<close>

theorem revisions_append_only:
  assumes "(store_step D windows)\<^sup>*\<^sup>* initial_store s" and "(store_step D windows)\<^sup>*\<^sup>* s s'"
  shows "catalogue_grows s s'"
  using machine.reachable_inv[OF refl assms(1)] catalogue_history.related_steps[OF assms(2)] by blast

end
