(* ===== verification/Concurrency_Bound.thy ===== *)
theory Concurrency_Bound
  imports Store_Machine
begin

text \<open>
  The bound on concurrent attempts: only an admission adds an active attempt, and an
  admission stays within the configured concurrency, the engine's hard guard and the limit
  of every job.
\<close>

section \<open>Active attempts\<close>

definition active_count :: "store \<Rightarrow> nat" where
  "active_count s = count_where active_attempt (attempts s)"

lemma count_update_where:
  assumes "\<And>a. p a \<Longrightarrow> att_st a = AttStarting \<or> att_st a = AttRunning"
  shows "count_where (\<lambda>a. att_st a = AttStarting \<or> att_st a = AttRunning) (update_where p f as)
    \<le> count_where (\<lambda>a. att_st a = AttStarting \<or> att_st a = AttRunning) as"
  using assms by (induction as) (auto simp: count_where_def update_where_def le_SucI)

lemma attempts_frame [simp]:
  "attempts (update_runs p f x) = attempts x" "attempts (update_artifacts o' h x) = attempts x"
  "attempts (delete_intents rid x) = attempts x" "attempts (replace_intent i x) = attempts x"
  "attempts (insert_run row x) = attempts x"
  "attempts (update_attempts q g x) = update_where q g (attempts x)"
  by (simp_all add: update_runs_def update_artifacts_def delete_intents_def replace_intent_def insert_run_def
      update_attempts_def)

lemma attempts_soft_remove [simp]: "attempts (soft_remove_after_one_time_completion D rid now x) = attempts x"
  by (simp add: soft_remove_after_one_time_completion_def Let_def split: option.splits)

lemma attempts_fold:
  "(\<And>x y. attempts (f x y) = attempts y) \<Longrightarrow> attempts (fold f xs y) = attempts y"
  by (induction xs arbitrary: y) simp_all

lemma attempts_supersede [simp]: "attempts (supersede_for_replacement job now successor x) = attempts x"
  by (simp add: supersede_for_replacement_def supersede_one_def Let_def attempts_fold)

lemma attempts_make_room [simp]: "attempts (make_room job now successor outcome x) = attempts x"
  by (simp add: make_room_def)

lemma attempts_next_sequence: "next_queue_sequence s = (n, s1) \<Longrightarrow> attempts s1 = attempts s"
  by (auto simp: next_queue_sequence_def)

lemma enqueue_attempts: "enqueue_manual_tx reference rid now prepared s = Inr s' \<Longrightarrow> attempts s' = attempts s"
  unfolding enqueue_manual_tx_def Let_def
  by (auto split: prod.splits option.splits if_splits dest: attempts_next_sequence)

lemma materialize_all_attempts:
  "materialize_all now items (x, m) = Inr (x', m') \<Longrightarrow> attempts x' = attempts x"
proof (induction items arbitrary: x m)
  case (Cons item items)
  from Cons.prems obtain x1 m1 where one: "materialize_one now item (x, m) = Inr (x1, m1)"
    and rest: "materialize_all now items (x1, m1) = Inr (x', m')" by (auto simp: and_then_eq_Inr)
  have "attempts x1 = attempts x"
    using one unfolding materialize_one_def Let_def by (auto split: prod.splits if_splits dest: attempts_next_sequence)
  with Cons.IH[OF rest] show ?case by simp
qed simp

lemma materialize_attempts:
  "materialize_tx job cursor new_runs summaries now planned s = Inr (s', result) \<Longrightarrow> attempts s' = attempts s"
  unfolding materialize_tx_def Let_def
  by (auto simp: and_then_eq_Inr attempts_fold advance_cursor_def resolve_one_time_def
      split: prod.splits if_splits dest!: materialize_all_attempts)

lemma cancel_attempts: "cancel_with_acknowledgement D rid now ack s = Inr (s', outcome) \<Longrightarrow> attempts s' = attempts s"
  unfolding cancel_with_acknowledgement_def
  by (auto simp: and_then_eq_Inr split: option.splits if_splits) (auto split: cancel_outcome.split_asm if_splits)

lemma start_active: "mark_attempt_running_inner D rid n now exe s = Inr (s', d) \<Longrightarrow> active_count s' \<le> active_count s"
  unfolding mark_attempt_running_inner_def cancel_before_spawn_def Let_def active_count_def
  by (auto split: option.splits if_splits intro!: count_update_where)

lemma complete_active: "complete_attempt D c s = Inr s' \<Longrightarrow> active_count s' \<le> active_count s"
  unfolding complete_attempt_def complete_unconfirmed_def complete_known_def fail_replacements_def Let_def active_count_def
  by (auto split: completion_state.splits option.splits if_splits intro!: count_update_where)

lemma failure_active:
  "complete_pre_execution_failure D rid n out now why s = Inr s' \<Longrightarrow> active_count s' \<le> active_count s"
  "complete_runner_failure D rid n now why started s = Inr s' \<Longrightarrow> active_count s' \<le> active_count s"
  unfolding complete_pre_execution_failure_def complete_runner_failure_def runner_failure_end_def
    runner_failure_changes_def Let_def and_then_eq_Inr active_count_def
  by (auto split: option.splits if_splits intro!: count_update_where)

lemma begin_active: "begin_lifetime D pid lid now v s = Inr (s', n) \<Longrightarrow> active_count s' = 0"
  unfolding begin_lifetime_def Let_def active_count_def
  by (auto simp: attempts_fold count_where_def update_where_def filter_empty_conv split: if_splits)

lemma artifact_ops_attempts:
  "reconcile_output_finalized out now s = Inr s' \<Longrightarrow> attempts s' = attempts s"
  "reconcile_output_missing rid n now s = Inr s' \<Longrightarrow> attempts s' = attempts s"
  "mark_output_prune_pending pc now s = Inr s' \<Longrightarrow> attempts s' = attempts s"
  "finish_output_prune pc now s = Inr s' \<Longrightarrow> attempts s' = attempts s"
  "mark_run_retention_pending rc now s = Inr s' \<Longrightarrow> attempts s' = attempts s"
  by (auto simp: reconcile_output_finalized_def reconcile_output_missing_def mark_output_prune_pending_def
      finish_output_prune_def mark_run_retention_pending_def Let_def split: if_splits)

lemma count_where_filter: "count_where p (filter q xs) \<le> count_where p xs"
  unfolding count_where_def by (induction xs) (auto simp: le_SucI)

lemma retention_active: "finish_run_retention rc s = Inr s' \<Longrightarrow> active_count s' \<le> active_count s"
  by (auto simp: finish_run_retention_def delete_run_def active_count_def count_where_filter split: if_splits)

section \<open>Admission\<close>

lemma admit_active:
  assumes "admit_tx lid now hard policies s = Inr (s', as)" and "store_wf s"
  shows "active_count s' = active_count s + length as" and "length as \<le> hard"
    and "as \<noteq> [] \<Longrightarrow> int (active_count s') \<le> set_global_concurrency (settings s) \<and> set_global_concurrency (settings s) \<le> 64"
proof -
  have "active_count s' = active_count s + length as \<and> length as \<le> hard
    \<and> (as \<noteq> [] \<longrightarrow> int (active_count s') \<le> set_global_concurrency (settings s) \<and> set_global_concurrency (settings s) \<le> 64)"
    using assms(1)
  proof (cases rule: admit_tx_result)
    case (2 capacity rows)
    have "length rows \<le> capacity" by (rule admit_select_effect(3)[OF 2(3) assms(2)])
    moreover have "attempts s' = attempts s @ map (\<lambda>(r, n). starting_attempt (run_id r) n lid now) rows"
      using admit_rows_attempts[OF 2(4)] by blast
    then have "active_count s' = active_count s + length rows"
      by (simp add: active_count_def count_where_def starting_attempt_def filter_map comp_def case_prod_beta)
    moreover have "capacity \<le> hard" "set_global_concurrency (settings s) \<le> 64"
      "capacity \<le> nat (max 0 (set_global_concurrency (settings s) - int (active_count s)))"
      using 2(1) by (auto simp: admission_capacity_def active_count_def Let_def split: if_splits)
    ultimately show ?thesis using 2(2,5) by auto
  qed simp
  then show "active_count s' = active_count s + length as" "length as \<le> hard"
    "as \<noteq> [] \<Longrightarrow> int (active_count s') \<le> set_global_concurrency (settings s) \<and> set_global_concurrency (settings s) \<le> 64"
    by blast+
qed


lemma step_active:
  assumes step: "store_step D windows s s'" and wf: "store_wf s" and bound: "active_count s \<le> 64"
  shows "active_count s' \<le> 64"
  using step
proof cases
  case (step_admit lid now hard policies as)
  show ?thesis
  proof (cases "as = []")
    case True
    with admit_active(1)[OF step_admit wf] bound show ?thesis by simp
  next
    case False
    from admit_active(3)[OF step_admit wf this] show ?thesis by simp
  qed
next
  case (step_begin pid lid now v n)
  from begin_active[OF this] show ?thesis by simp
next
  case (step_start rid n now exe d)
  from start_active[OF this] bound show ?thesis by simp
next
  case (step_complete c)
  from complete_active[OF this(2)] bound show ?thesis by simp
next
  case step_pre_execution
  from failure_active(1)[OF this] bound show ?thesis by simp
next
  case step_runner_failure
  from failure_active(2)[OF this] bound show ?thesis by simp
next
  case step_delete
  from retention_active[OF this] bound show ?thesis by simp
qed (use bound in \<open>auto simp: active_count_def create_job_def update_job_def set_enabled_def set_environment_def set_setting_def
    and_then_eq_Inr end_lifetime_def
    dest!: create_job_runs update_job_runs set_enabled_runs remove_job_runs apply_import_runs settings_ops_frame
      enqueue_attempts materialize_attempts cancel_attempts artifact_ops_attempts\<close>)

interpretation bounded: transition_system "\<lambda>s. s = initial_store" "store_step D windows"
    "\<lambda>s. store_inv s \<and> active_count s \<le> 64" for D windows
proof unfold_locales
  show "store_inv s \<and> active_count s \<le> 64" if "s = initial_store" for s
    using that initial_store_inv by (simp add: active_count_def count_where_def initial_store_def)
  show "store_inv s' \<and> active_count s' \<le> 64" if "store_inv s \<and> active_count s \<le> 64" "store_step D windows s s'" for s s'
    using that machine.inv_step step_active unfolding store_inv_def by metis
qed

text \<open>An executing run that is not in quarantine has an active attempt of its own.\<close>

lemma executing_runs_bound:
  assumes wf: "store_wf s"
  shows "count_where (\<lambda>r. executing (run_st r) \<and> \<not> quarantined r) (runs s) \<le> active_count s"
proof -
  let ?p = "\<lambda>r. executing (run_st r) \<and> \<not> quarantined r"
  have ids: "distinct (map run_id (filter ?p (runs s)))" by (rule distinct_map_filter[OF wf_ids[OF wf]])
  have "run_id r \<in> att_run ` set (filter active_attempt (attempts s))" if "r \<in> set (filter ?p (runs s))" for r
  proof -
    have "expected_active r \<noteq> []" using that by (auto simp: expected_active_def)
    then have "filter active_attempt (attempts_of s (run_id r)) \<noteq> []"
      using run_ok_active[OF wf_run_ok[OF wf]] that by fastforce
    then show ?thesis by (force simp: attempts_of_def filter_empty_conv)
  qed
  then have "set (map run_id (filter ?p (runs s))) \<subseteq> set (map att_run (filter active_attempt (attempts s)))" by auto
  then have "card (set (map run_id (filter ?p (runs s)))) \<le> length (map att_run (filter active_attempt (attempts s)))"
    by (meson List.finite_set card_length card_mono order_trans)
  with distinct_card[OF ids] show ?thesis by (simp add: count_where_def active_count_def)
qed

text \<open>
  C12: in every reachable database at most 64 attempts are active and at most 64 runs execute
  outside quarantine, whatever the order of the transactions and of the changes of the
  configured concurrency.
\<close>

theorem concurrency_bounded:
  assumes "(store_step D windows)\<^sup>*\<^sup>* initial_store s"
  shows "active_count s \<le> 64 \<and> count_where (\<lambda>r. executing (run_st r) \<and> \<not> quarantined r) (runs s) \<le> 64"
proof -
  have "store_inv s \<and> active_count s \<le> 64" using bounded.reachable_inv[OF refl assms] .
  then show ?thesis using executing_runs_bound[of s] by (auto simp: store_inv_def)
qed


section \<open>Limits of one admission\<close>

definition executing_of :: "store \<Rightarrow> string \<Rightarrow> nat" where
  "executing_of s job = count_where (\<lambda>r. run_job r = job \<and> executing (run_st r)) (runs s)"

lemma active_by_job_count: "job_count (active_by_job s) job = int (executing_of s job)"
proof -
  have "job_count (fold (\<lambda>r m. if executing (run_st r)
        then Mapping.update (run_job r) (job_count m (run_job r) + 1) m else m) rs m) job =
      job_count m job + int (count_where (\<lambda>r. run_job r = job \<and> executing (run_st r)) rs)" for rs m
    by (induction rs arbitrary: m) (auto simp: job_count_def count_where_def lookup_update' split: option.splits)
  from this[of "runs s" Mapping.empty] show ?thesis
    by (simp add: active_by_job_def executing_of_def job_count_def)
qed

lemma admitted_simps [simp]:
  "ad_run (admitted row) = row_id row" "ad_job (admitted row) = row_job row" "ad_snapshot_json (admitted row) = row_snapshot row"
  "ad_number (admitted row) = snd row"
  by (cases row, simp add: admitted_def)+

text \<open>
  C2: an admission on a well-formed database admits no more attempts than the hard guard
  allows, never passes the configured concurrency, admits a run at most once and only one
  that the query accepts with the next number of its attempts, and each in turn only while
  the job has fewer executing and admitted runs than the limit of the policy in the run's own
  snapshot: one, unless overlap is allowed.
\<close>

theorem admit_within_limits:
  assumes wf: "store_wf s" and ok: "admit_tx lid now hard policies s = Inr (s', as)"
  shows "length as \<le> hard
    \<and> active_count s' = active_count s + length as
    \<and> (as \<noteq> [] \<longrightarrow> int (active_count s') \<le> set_global_concurrency (settings s))
    \<and> distinct (map ad_run as)
    \<and> (\<forall>a \<in> set as. (\<exists>r \<in> set (runs s). run_id r = ad_run a \<and> run_job r = ad_job a \<and> admissible s now r)
          \<and> ad_number a = next_attempt_number s (ad_run a))
    \<and> (\<forall>i < length as. \<exists>policy.
          Mapping.lookup policies (ad_run (as ! i)) = Some (ad_snapshot_json (as ! i), Inr policy)
          \<and> int (executing_of s (ad_job (as ! i)) + length (filter (\<lambda>a. ad_job a = ad_job (as ! i)) (take i as)))
              < policy_limit policy)"
proof -
  note counts = admit_active[OF ok wf]
  have "distinct (map ad_run as)
    \<and> (\<forall>a \<in> set as. (\<exists>r \<in> set (runs s). run_id r = ad_run a \<and> run_job r = ad_job a \<and> admissible s now r)
          \<and> ad_number a = next_attempt_number s (ad_run a))
    \<and> (\<forall>i < length as. \<exists>policy.
          Mapping.lookup policies (ad_run (as ! i)) = Some (ad_snapshot_json (as ! i), Inr policy)
          \<and> int (executing_of s (ad_job (as ! i)) + length (filter (\<lambda>a. ad_job a = ad_job (as ! i)) (take i as)))
              < policy_limit policy)"
    using ok
  proof (cases rule: admit_tx_result)
    case (2 capacity rows)
    have "distinct (map ad_run as)" using admit_select_effect(1)[OF 2(3) wf] by (simp add: 2(5) comp_def)
    moreover have "(\<exists>r \<in> set (runs s). run_id r = ad_run a \<and> run_job r = ad_job a \<and> admissible s now r)
        \<and> ad_number a = next_attempt_number s (ad_run a)" if "a \<in> set as" for a
      using that selected_pending[OF 2(3) wf] by (auto simp: 2(5))
    moreover have "\<exists>policy. Mapping.lookup policies (ad_run (as ! i)) = Some (ad_snapshot_json (as ! i), Inr policy)
          \<and> int (executing_of s (ad_job (as ! i)) + length (filter (\<lambda>a. ad_job a = ad_job (as ! i)) (take i as)))
              < policy_limit policy" if "i < length as" for i
    proof -
      have i: "i < length rows" using that 2(5) by simp
      with admit_select_effect(4)[OF 2(3) wf] obtain policy where "row_policy policies (rows ! i) policy"
        "job_count (active_by_job s) (row_job (rows ! i)) + int (length (rows_of (row_job (rows ! i)) (take i rows)))
          < policy_limit policy" by (auto simp: within_limits_def)
      then show ?thesis
        using i by (auto simp: 2(5) row_policy_def active_by_job_count take_map rows_of_def filter_map comp_def)
    qed
    ultimately show ?thesis by blast
  qed simp
  with counts show ?thesis by blast
qed

lemma lookup_prepared:
  "distinct (map run_id rs) \<Longrightarrow> r \<in> set rs \<Longrightarrow>
   Mapping.lookup (fold (\<lambda>r m. Mapping.update (run_id r) (f r) m) rs m) (run_id r) = Some (f r)"
proof (induction rs arbitrary: m)
  case (Cons x rs)
  have keep: "Mapping.lookup (fold (\<lambda>r m. Mapping.update (run_id r) (f r) m) ys m) k = Mapping.lookup m k"
    if "k \<notin> run_id ` set ys" for ys m k
    using that by (induction ys arbitrary: m) (auto simp: lookup_update')
  show ?case
  proof (cases "r = x")
    case True
    then show ?thesis using Cons.prems(1) keep[of "run_id x" rs] by (simp add: lookup_update')
  next
    case False
    then show ?thesis using Cons by simp
  qed
qed simp

lemma eligible_ids: "store_wf s \<Longrightarrow> distinct (map run_id (eligible_runs s now k))"
proof -
  assume wf: "store_wf s"
  have "mset (map run_id (sort_key (\<lambda>r. (run_eligible_at r, run_sequence r)) (filter (admissible s now) (runs s)))) =
      mset (map run_id (filter (admissible s now) (runs s)))" by simp
  then have "distinct (map run_id (sort_key (\<lambda>r. (run_eligible_at r, run_sequence r)) (filter (admissible s now) (runs s))))"
    using distinct_map_filter[OF wf_ids[OF wf]] by (metis mset_eq_imp_distinct_iff)
  then show ?thesis by (simp add: eligible_runs_def take_map[symmetric] distinct_take)
qed

text \<open>
  C13: admission leaves no capacity unused without a reason: when an admission that no other
  transaction interrupts admits fewer attempts than the free capacity, then every run that
  its scan found eligible was admitted, or its job has as many executing and admitted runs
  as the limit of the policy in that run's snapshot.
\<close>

theorem admit_work_conserving:
  assumes wf: "store_wf s" and ok: "admit D lid now hard s = Inr (s', as)"
    and capacity: "admission_capacity s hard = Inr capacity" and spare: "length as < capacity"
    and r: "r \<in> set (eligible_runs s now (scan_limit capacity))"
  shows "run_id r \<in> ad_run ` set as
    \<or> (\<exists>policy. snapshot_admission_policy D (run_snapshot_json r) = Inr policy
         \<and> policy_limit policy
             \<le> int (executing_of s (run_job r) + length (filter (\<lambda>a. ad_job a = run_job r) as)))"
proof -
  have "hard \<noteq> 0" using capacity spare by (auto simp: admission_capacity_def Let_def split: if_splits)
  then obtain policies where prep: "admit_prepare D now hard s = Inr policies"
    and tx: "admit_tx lid now hard policies s = Inr (s', as)"
    using ok by (auto simp: admit_def and_then_eq_Inr)
  have policies: "policies = fold (\<lambda>r m. Mapping.update (run_id r)
      (run_snapshot_json r, snapshot_admission_policy D (run_snapshot_json r)) m)
      (eligible_runs s now (scan_limit capacity)) Mapping.empty"
    using prep by (simp add: admit_prepare_def capacity)
  have look: "Mapping.lookup policies (run_id r) = Some (run_snapshot_json r, snapshot_admission_policy D (run_snapshot_json r))"
    unfolding policies
    by (rule lookup_prepared[OF eligible_ids[OF wf] r, of "\<lambda>r. (run_snapshot_json r, snapshot_admission_policy D (run_snapshot_json r))"])
  from tx obtain rows where sel: "admit_select now capacity policies s = Inr rows" and as: "as = map admitted rows"
    using capacity spare by (auto simp: admit_tx_def and_then_eq_Inr split: if_splits)
  have "(r, next_attempt_number s (run_id r)) \<in> set (map (\<lambda>r. (r, next_attempt_number s (run_id r)))
      (eligible_runs s now (scan_limit capacity)))" using r by simp
  from admit_select_effect(5)[OF sel wf _ this] spare as
  have "settled policies (active_by_job s) rows (r, next_attempt_number s (run_id r))" by simp
  then consider "(r, next_attempt_number s (run_id r)) \<in> set rows"
    | "at_limit policies (active_by_job s) rows (r, next_attempt_number s (run_id r))"
    using look by (auto simp: settled_def unprepared_def)
  then show ?thesis
  proof cases
    case 1
    then show ?thesis unfolding as by force
  next
    case 2
    then show ?thesis
      using look by (auto simp: at_limit_def row_policy_def active_by_job_count as rows_of_def filter_map comp_def)
  qed
qed

end
