(* ===== verification/Store_Guarantees.thy ===== *)
theory Store_Guarantees
  imports Store_Machine
begin

text \<open>
  Contracts of single operations of the store: repeated completions, the preview of a
  cancellation, the recovery at the start of a daemon's lifetime, and the compare-and-swap
  of a schedule cursor.
\<close>

section \<open>Queries after updates\<close>

lemma query_update_key:
  assumes "\<And>x. p (f x) = p x"
  shows "query_row p (update_where p f xs) = map_option f (query_row p xs)"
  using assms by (induction xs) (auto simp: query_row_def update_where_def)

lemma query_update_other:
  assumes "query_row p xs = Some x" and "\<not> q x" and "\<And>y. p (f y) = p y"
  shows "query_row p (update_where q f xs) = Some x"
  using assms by (induction xs) (auto simp: query_row_def update_where_def split: if_splits)

lemma query_update_both:
  assumes "query_row p xs = Some x" and "q x" and "\<And>y. p (f y) = p y"
  shows "query_row p (update_where (\<lambda>y. p y \<and> q y) f xs) = Some (f x)"
  using assms by (induction xs) (auto simp: query_row_def update_where_def split: if_splits)

lemma runs_frame [simp]:
  "runs (update_attempts q g x) = runs x" "runs (update_artifacts o' h x) = runs x"
  "runs (delete_intents rid x) = runs x" "runs (replace_intent i x) = runs x"
  "runs (update_runs p f x) = update_where p f (runs x)"
  by (simp_all add: update_attempts_def update_artifacts_def delete_intents_def replace_intent_def update_runs_def)

lemma soft_remove_frame [simp]:
  "runs (soft_remove_after_one_time_completion D rid now x) = runs x"
  "attempts (soft_remove_after_one_time_completion D rid now x) = attempts x"
  "retry_intents (soft_remove_after_one_time_completion D rid now x) = retry_intents x"
  by (simp_all add: soft_remove_after_one_time_completion_def Let_def push_event_def split: option.splits)

lemma intents_frame [simp]:
  "retry_intents (update_runs p f x) = retry_intents x" "retry_intents (update_attempts q g x) = retry_intents x"
  "retry_intents (delete_intents rid x) = filter (\<lambda>i. intent_run i \<noteq> rid) (retry_intents x)"
  "retry_intents (replace_intent i x) = filter (\<lambda>j. intent_run j \<noteq> intent_run i) (retry_intents x) @ [i]"
  "retry_intents (push_event t k j r d x) = retry_intents x"
  by (simp_all add: update_runs_def update_attempts_def delete_intents_def replace_intent_def push_event_def)

lemma attempts_frame' [simp]:
  "attempts (update_runs p f x) = attempts x" "attempts (delete_intents rid x) = attempts x"
  "attempts (replace_intent i x) = attempts x"
  "attempts (update_attempts q g x) = update_where q g (attempts x)"
  by (simp_all add: update_runs_def delete_intents_def replace_intent_def update_attempts_def)

text \<open>The attempt that a completion finds active, and its run.\<close>

lemma active_attempt_row:
  assumes wf: "store_wf s" and one: "count_where (\<lambda>a. this_attempt rid n a \<and> active_attempt a) (attempts s) = 1"
  obtains a r where "query_row (this_attempt rid n) (attempts s) = Some a" and "active_attempt a"
    and "query_row (\<lambda>r. run_id r = rid) (runs s) = Some r" and "executing (run_st r)" and "run_finished_at r = None"
proof -
  have "filter (\<lambda>a. this_attempt rid n a \<and> active_attempt a) (attempts s) \<noteq> []"
    using one unfolding count_where_def by (metis list.size(3) zero_neq_one)
  then obtain a where a: "a \<in> set (attempts s)" "this_attempt rid n a" "active_attempt a"
    unfolding filter_empty_conv by blast
  have q: "query_row (this_attempt rid n) (attempts s) = Some a"
    by (rule query_row_key[where p = "this_attempt rid n", OF wf_keys[OF wf] a(1,2)]) (use a(2) in \<open>auto simp: this_attempt_def attempt_key_def\<close>)
  obtain r where r: "r \<in> set (runs s)" "run_id r = rid"
    using wf_owner[OF wf a(1)] a(2) by (auto simp: this_attempt_def)
  have qr: "query_row (\<lambda>r. run_id r = rid) (runs s) = Some r"
    by (rule query_row_key[OF wf_ids[OF wf] r(1)]) (use r(2) in auto)
  have "a \<in> set (filter active_attempt (attempts_of s (run_id r)))"
    using a r(2) by (auto simp: attempts_of_def this_attempt_def)
  then have "filter active_attempt (attempts_of s (run_id r)) \<noteq> []" by (metis empty_iff list.set(1))
  then have "expected_active r \<noteq> []" using run_ok_active[OF wf_run_ok[OF wf r(1)]] by (metis map_is_Nil_conv)
  then have ex: "executing (run_st r)" by (auto simp: expected_active_def split: if_splits)
  then have "\<not> is_terminal (run_st r)" by (auto simp: is_terminal_def)
  then have "run_finished_at r = None" using run_ok_finished[OF wf_run_ok[OF wf r(1)]] by blast
  with q a(3) qr ex show ?thesis using that by blast
qed

lemma no_active_after:
  assumes "\<And>a. \<not> active_attempt (f a)"
  shows "count_where (\<lambda>a. this_attempt rid n a \<and> active_attempt a)
    (update_where (\<lambda>a. this_attempt rid n a \<and> active_attempt a) f xs) = 0"
  using assms by (auto simp: count_where_def update_where_def filter_empty_conv)


section \<open>Completions\<close>

lemma complete_known_again:
  assumes wf: "store_wf s" and st: "st \<notin> {AttStarting, AttRunning}" and ok: "complete_known D c st s = Inr s'"
  shows "complete_known D c st s' = Inr s'"
proof (cases "count_where (\<lambda>a. this_attempt (comp_run c) (comp_number c) a \<and> active_attempt a) (attempts s) = 1")
  case False
  then have "s' = s" using ok by (auto simp: complete_known_def Let_def split: if_splits)
  then show ?thesis using ok by simp
next
  case True
  from active_attempt_row[OF wf True] obtain a r where a: "query_row (this_attempt (comp_run c) (comp_number c)) (attempts s) = Some a"
      "active_attempt a" and r: "query_row (\<lambda>r. run_id r = comp_run c) (runs s) = Some r" "run_finished_at r = None" by blast
  let ?f = "\<lambda>a. a\<lparr>att_st := st, att_finished_at := Some (comp_now c),
                  att_duration := Some (comp_duration c), att_exit_code := comp_exit_code c,
                  att_http_status := map_option int (comp_http_status c),
                  att_http_content_type := comp_http_content_type c,
                  att_result_class := Some (attempt_state_name st),
                  att_error_message := Some (comp_reason c)\<rparr>"
  have atts: "attempts s' = update_where (\<lambda>a. this_attempt (comp_run c) (comp_number c) a \<and> active_attempt a) ?f (attempts s)"
    using ok True by (auto simp: complete_known_def Let_def split: if_splits option.splits)
  have qa: "query_row (this_attempt (comp_run c) (comp_number c)) (attempts s') = Some (?f a)"
    unfolding atts by (rule query_update_both[where q = active_attempt, OF a]) (simp add: this_attempt_def)
  have none: "count_where (\<lambda>a. this_attempt (comp_run c) (comp_number c) a \<and> active_attempt a) (attempts s') = 0"
    unfolding atts by (rule no_active_after) (use st in auto)
  have guard: "\<not> (comp_retry c \<noteq> None \<and> st \<notin> {AttFailed, AttTimedOut})"
    using ok by (auto simp: complete_known_def Let_def split: if_splits)
  have "completion_already_committed s' c st"
  proof (cases "comp_retry c")
    case None
    then have runs: "runs s' = update_where (\<lambda>x. run_id x = comp_run c)
          (\<lambda>x. x\<lparr>run_st := run_of_attempt st, run_reason := Some (comp_reason c), run_finished_at := Some (comp_now c)\<rparr>) (runs s)"
      and intents: "retry_intents s' = filter (\<lambda>i. intent_run i \<noteq> comp_run c) (retry_intents s)"
      using ok True by (auto simp: complete_known_def Let_def split: if_splits)
    show ?thesis
      by (simp add: completion_already_committed_def qa runs query_update_key r(1) None intents)
  next
    case (Some plan)
    then have runs: "runs s' = update_where (\<lambda>x. run_id x = comp_run c)
          (\<lambda>x. x\<lparr>run_st := RetryWait, run_eligible_at := rp_not_before plan, run_reason := Some (comp_reason c)\<rparr>) (runs s)"
      and intents: "\<lparr>intent_run = comp_run c, intent_prior_attempt = comp_number c,
          intent_not_before = rp_not_before plan,
          intent_classification = rp_classification plan, intent_created_at = comp_now c\<rparr> \<in> set (retry_intents s')"
      using ok True by (auto simp: complete_known_def Let_def split: if_splits)
    have "\<exists>i \<in> set (retry_intents s'). intent_run i = comp_run c
        \<and> intent_prior_attempt i = comp_number c \<and> intent_not_before i = rp_not_before plan
        \<and> intent_classification i = rp_classification plan \<and> intent_created_at i = comp_now c"
      using intents by (rule bexI[rotated]) simp
    then show ?thesis
      by (simp add: completion_already_committed_def qa runs query_update_key r Some)
  qed
  then show ?thesis using none guard by (simp add: complete_known_def Let_def)
qed

lemma complete_unconfirmed_again:
  assumes wf: "store_wf s" and ok: "complete_unconfirmed c s = Inr s'"
  shows "complete_unconfirmed c s' = Inr s'"
proof (cases "count_where (\<lambda>a. this_attempt (comp_run c) (comp_number c) a \<and> active_attempt a) (attempts s) = 1")
  case False
  then have "s' = s" using ok by (auto simp: complete_unconfirmed_def Let_def split: if_splits)
  then show ?thesis using ok by simp
next
  case True
  from active_attempt_row[OF wf True] obtain a r where a: "query_row (this_attempt (comp_run c) (comp_number c)) (attempts s) = Some a"
      "active_attempt a" and r: "query_row (\<lambda>r. run_id r = comp_run c) (runs s) = Some r" by blast
  let ?f = "\<lambda>a. a\<lparr>att_st := AttInterruptedUnknown, att_finished_at := Some (comp_now c),
                  att_duration := Some (comp_duration c),
                  att_result_class := Some ''termination_unconfirmed'',
                  att_error_message := Some (comp_reason c)\<rparr>"
  let ?g = "\<lambda>x. x\<lparr>run_st := Running, run_reason := Some ''termination_unconfirmed'', run_finished_at := None\<rparr>"
  let ?h = "\<lambda>r. r\<lparr>run_st := Failed,
                  run_reason := Some ''replacement failed: predecessor termination unconfirmed'',
                  run_finished_at := Some (comp_now c), run_replacement_candidate := False\<rparr>"
  have retry: "comp_retry c = None" using ok by (auto simp: complete_unconfirmed_def Let_def split: if_splits)
  have atts: "attempts s' = update_where (\<lambda>a. this_attempt (comp_run c) (comp_number c) a \<and> active_attempt a) ?f (attempts s)"
    using ok True by (auto simp: complete_unconfirmed_def fail_replacements_def Let_def split: if_splits option.splits)
  have qa: "query_row (this_attempt (comp_run c) (comp_number c)) (attempts s') = Some (?f a)"
    unfolding atts by (rule query_update_both[where q = active_attempt, OF a]) (simp add: this_attempt_def)
  have none: "count_where (\<lambda>a. this_attempt (comp_run c) (comp_number c) a \<and> active_attempt a) (attempts s') = 0"
    unfolding atts by (rule no_active_after) simp
  let ?rs = "update_where (\<lambda>x. run_id x = comp_run c) ?g (runs s)"
  have quarantined: "query_row (\<lambda>r. run_id r = comp_run c) ?rs = Some (?g r)"
    by (simp add: query_update_key r)
  define s1 where "s1 = delete_intents (comp_run c) (update_attempts
      (\<lambda>a. this_attempt (comp_run c) (comp_number c) a \<and> active_attempt a) ?f s)"
  define s2 where "s2 = update_runs (\<lambda>x. run_id x = comp_run c) ?g s1"
  have rs2: "runs s2 = ?rs" by (simp add: s1_def s2_def)
  have "query_row (\<lambda>r. run_id r = comp_run c) (runs s') = Some (?g r)"
  proof -
    obtain r0 where "query_row (\<lambda>r. run_id r = comp_run c \<and> executing (run_st r)) (runs s) = Some r0"
      using ok True by (auto simp: complete_unconfirmed_def Let_def split: if_splits option.splits)
    then have q1: "query_row (\<lambda>r. run_id r = comp_run c \<and> executing (run_st r)) (runs s1) = Some r0" by (simp add: s1_def)
    have "s' = push_event (comp_now c) ''termination_unconfirmed'' (Some (run_job r0)) (Some (comp_run c))
        (JObject [(''detail'', JString (comp_reason c))])
        (if run_cancellation_reason r0 = Some ''replacement'' then fail_replacements (run_job r0) (comp_now c) s2 else s2)"
      using ok True q1 unfolding complete_unconfirmed_def Let_def s1_def[symmetric] s2_def[symmetric]
      by (simp split: if_splits)
    then have "runs s' = ?rs \<or> runs s' = update_where
        (\<lambda>r. run_job r = run_job r0 \<and> run_replacement_candidate r \<and> pending (run_st r)) ?h ?rs"
      by (cases "run_cancellation_reason r0 = Some ''replacement''") (simp_all add: fail_replacements_def Let_def rs2)
    moreover have "query_row (\<lambda>r. run_id r = comp_run c)
        (update_where (\<lambda>r. run_job r = job \<and> run_replacement_candidate r \<and> pending (run_st r)) ?h ?rs) = Some (?g r)" for job
      by (rule query_update_other[OF quarantined]) simp_all
    ultimately show ?thesis using quarantined by (elim disjE) simp_all
  qed
  then have "termination_completion_committed s' c" by (simp add: termination_completion_committed_def qa)
  then show ?thesis using none retry by (simp add: complete_unconfirmed_def Let_def)
qed

lemma complete_attempt_again:
  assumes "store_wf s" and "documented_completion c" and "complete_attempt D c s = Inr s'"
  shows "complete_attempt D c s' = Inr s'"
  using assms complete_known_again complete_unconfirmed_again
  by (auto simp: complete_attempt_def documented_completion_def split: completion_state.splits if_splits)

text \<open>
  Recording the outcome of an attempt is idempotent: once a completion was accepted on a
  well-formed database, sending the same completion again is accepted and changes nothing,
  for final states, retries and quarantine.
\<close>

theorem completion_idempotent:
  assumes "store_wf s" and "documented_completion c" and "complete_attempt D c s = Inr s'"
  shows "complete_attempt D c s' = Inr s'"
  using assms by (rule complete_attempt_again)


section \<open>Cancellation\<close>

text \<open>
  C32: the preview of a cancellation and the cancellation itself decide alike: on a
  well-formed database the preview fails exactly when the cancellation fails, with the same
  error, and when it succeeds the cancellation succeeds with the outcome that was announced.
\<close>

theorem cancellation_preview_exact:
  assumes wf: "store_wf s"
  shows "(case preview_cancellation s rid ack of
      Inl e \<Rightarrow> cancel_with_acknowledgement D rid now ack s = Inl e
    | Inr p \<Rightarrow> \<exists>s'. cancel_with_acknowledgement D rid now ack s = Inr (s', preview_outcome p))"
proof (cases "query_row (\<lambda>r. run_id r = rid) (runs s)")
  case None
  then show ?thesis by (simp add: preview_cancellation_def cancel_with_acknowledgement_def)
next
  case (Some r)
  then have r: "r \<in> set (runs s)" "run_id r = rid" by (auto simp: query_row_def find_Some_iff)
  show ?thesis
  proof (cases "cancel_decision rid (run_st r) (run_reason r) ack")
    case (Inl e)
    then show ?thesis by (simp add: preview_cancellation_def cancel_with_acknowledgement_def Some)
  next
    case (Inr outcome)
    have "count_where (\<lambda>x. run_id x = rid \<and> quarantined x) (runs s) = 1" if "outcome = AcknowledgedUnconfirmed"
    proof -
      have "quarantined r"
        using Inr that by (auto simp: cancel_decision_def Let_def split: if_splits)
      then have "filter (\<lambda>x. run_id x = rid \<and> quarantined x) (runs s) = [r]"
        using r by (intro filter_key[OF wf_ids[OF wf] r(1)]) auto
      then show ?thesis by (simp add: count_where_def)
    qed
    with Inr show ?thesis
      by (cases outcome) (simp_all add: preview_cancellation_def cancel_with_acknowledgement_def Some)
  qed
qed


section \<open>Recovery\<close>

text \<open>
  C14: the start of a daemon's lifetime on a well-formed database leaves no attempt active, no
  run executing except those in quarantine, and the new lifetime as the only open one; every
  run that was executing outside quarantine ends as interrupted, the others keep their state,
  and the number reported is that of the attempts that were found active.
\<close>

theorem begin_lifetime_recovers:
  assumes wf: "store_wf s" and ok: "begin_lifetime D pid lid now v s = Inr (s', n)"
  shows "(\<forall>a \<in> set (attempts s'). \<not> active_attempt a)
    \<and> (\<forall>r \<in> set (runs s'). executing (run_st r) \<longrightarrow> quarantined r)
    \<and> map life_id (filter (\<lambda>l. life_ended_at l = None) (lifetimes s')) = [lid]
    \<and> map run_st (runs s') = map (\<lambda>r. if stale_run r then InterruptedUnknown else run_st r) (runs s)
    \<and> n = count_where active_attempt (attempts s)"
proof (intro conjI)
  note rows = begin_lifetime_rows[OF ok]
  show "\<forall>a \<in> set (attempts s'). \<not> active_attempt a" unfolding rows by (auto simp: update_where_def)
  show "map run_st (runs s') = map (\<lambda>r. if stale_run r then InterruptedUnknown else run_st r) (runs s)"
    unfolding rows by (simp add: update_where_def)
  have "run_st r \<noteq> Starting" if "r \<in> set (runs s)" "run_reason r = Some ''termination_unconfirmed''" for r
    using run_ok_reason[OF wf_run_ok[OF wf that(1)] that(2)] by (auto simp: is_terminal_def)
  then show "\<forall>r \<in> set (runs s'). executing (run_st r) \<longrightarrow> quarantined r"
    unfolding rows by (auto simp: update_where_def stale_run_def split: if_splits)
  show "n = count_where active_attempt (attempts s)"
    using ok by (auto simp: begin_lifetime_def Let_def split: if_splits)
  have "lifetimes (fold (\<lambda>rid. soft_remove_after_one_time_completion D rid now) ids x) = lifetimes x" for ids x
    by (induction ids arbitrary: x)
      (simp_all add: soft_remove_after_one_time_completion_def Let_def push_event_def split: option.splits)
  then show "map life_id (filter (\<lambda>l. life_ended_at l = None) (lifetimes s')) = [lid]"
    using ok by (auto simp: begin_lifetime_def Let_def update_where_def filter_empty_conv split: if_splits)
qed


section \<open>Schedule cursors\<close>

lemma pushed_summaries_rows [simp]:
  "runs (fold (\<lambda>(m, d). push_event now (rs_kind m) (Some job) None d) items x) = runs x"
  "cursors (fold (\<lambda>(m, d). push_event now (rs_kind m) (Some job) None d) items x) = cursors x"
  by (induction items arbitrary: x) auto

lemma materialize_all_cursors:
  "materialize_all now items (x, m) = Inr (x', m') \<Longrightarrow> cursors x' = cursors x \<and> jobs x' = jobs x"
proof (induction items arbitrary: x m)
  case (Cons item items)
  from Cons.prems obtain x1 m1 where one: "materialize_one now item (x, m) = Inr (x1, m1)"
    and rest: "materialize_all now items (x1, m1) = Inr (x', m')" by (auto simp: and_then_eq_Inr)
  have fold: "cursors (fold f xs y) = cursors y \<and> jobs (fold f xs y) = jobs y"
    if "\<And>x y. cursors (f x y) = cursors y \<and> jobs (f x y) = jobs y" for f :: "'b \<Rightarrow> store \<Rightarrow> store" and xs y
    using that by (induction xs arbitrary: y) simp_all
  have sup: "cursors (supersede_for_replacement job now successor y) = cursors y
      \<and> jobs (supersede_for_replacement job now successor y) = jobs y" for job successor y
    by (simp add: supersede_for_replacement_def Let_def update_runs_def push_event_def supersede_one_def delete_intents_def fold)
  have "cursors x1 = cursors x \<and> jobs x1 = jobs x"
    using one unfolding materialize_one_def Let_def
    by (auto simp: make_room_def sup insert_run_def next_queue_sequence_def split: prod.splits if_splits)
  with Cons.IH[OF rest] show ?case by simp
qed simp

lemma advanced_cursor_mismatch:
  assumes c: "c \<in> set (cursors (advance_cursor job cursor now s))"
    and current: "map_option job_current_revision (query_row (\<lambda>j. job_id j = job \<and> job_removed_at j = None) (jobs s))
      = Some (cu_expected_revision cursor)"
    and moved: "cu_new_cursor cursor \<noteq> cu_expected_cursor cursor"
    and key: "cur_job c = job" "cur_revision c = cu_expected_revision cursor"
  shows "cur_cursor c \<noteq> cu_expected_cursor cursor"
proof -
  from c obtain c0 where c0: "c0 \<in> set (cursors s)" "c = (if cursor_matches s job cursor c0 then c0\<lparr>cur_cursor := cu_new_cursor cursor,
          cur_one_time_resolved := (cu_resolve_one_time cursor \<or> cur_one_time_resolved c0),
          cur_updated_at := now, cur_disabled_since := None\<rparr> else c0)"
    unfolding advance_cursor_def update_where_def by auto
  show ?thesis
  proof (cases "cursor_matches s job cursor c0")
    case True
    then have "cur_cursor c = cu_new_cursor cursor" using c0(2) by simp
    then show ?thesis using moved by simp
  next
    case False
    then have "c = c0" using c0(2) by simp
    then show ?thesis using False key current by (auto simp: cursor_matches_def)
  qed
qed

text \<open>
  C31: the cursor of a schedule is advanced by compare-and-swap: a materialization succeeds
  only when the cursor of the live job's current revision still has the expected value, and
  once it moved the cursor, any other materialization that expects the old value at the same
  revision fails with a conflict and inserts nothing.
\<close>

theorem materialize_cursor_swap:
  assumes ok: "materialize_tx job cursor new_runs summaries now planned s = Inr (s', result)"
    and moved: "cu_new_cursor cursor \<noteq> cu_expected_cursor cursor"
    and same: "cu_expected_revision later = cu_expected_revision cursor" "cu_expected_cursor later = cu_expected_cursor cursor"
  shows "(\<exists>c \<in> set (cursors s). cursor_matches s job cursor c)
    \<and> materialize_tx job later more_runs more_summaries then' prepared s' = Inl (StoreConflict ''schedule cursor changed'')"
proof
  obtain policies details where planned: "planned = (policies, details)" by (cases planned)
  have one: "count_where (cursor_matches s job cursor) (cursors s) = 1"
    using ok by (auto simp: materialize_tx_def planned split: if_splits)
  then have "filter (cursor_matches s job cursor) (cursors s) \<noteq> []"
    unfolding count_where_def by (metis list.size(3) zero_neq_one)
  then show "\<exists>c \<in> set (cursors s). cursor_matches s job cursor c" unfolding filter_empty_conv by blast
  have curs: "cursors s' = cursors (advance_cursor job cursor now s)"
    using ok one by (auto simp: materialize_tx_def planned Let_def and_then_eq_Inr resolve_one_time_def
        dest!: materialize_all_cursors split: if_splits)
  from \<open>\<exists>c \<in> set (cursors s). cursor_matches s job cursor c\<close>
  have current: "map_option job_current_revision (query_row (\<lambda>j. job_id j = job \<and> job_removed_at j = None) (jobs s))
      = Some (cu_expected_revision cursor)" by (auto simp: cursor_matches_def)
  then have "\<not> cursor_matches s' job later c" if "c \<in> set (cursors s')" for c
    using advanced_cursor_mismatch[OF that[unfolded curs] current moved] same by (auto simp: cursor_matches_def)
  then have "count_where (cursor_matches s' job later) (cursors s') = 0" by (simp add: count_where_def filter_empty_conv)
  then show "materialize_tx job later more_runs more_summaries then' prepared s' = Inl (StoreConflict ''schedule cursor changed'')"
    by (cases prepared) (simp add: materialize_tx_def)
qed

end
