(* ===== verification/Occurrences.thy ===== *)
theory Occurrences
  imports Concurrency_Bound Store_Guarantees
begin

text \<open>
  Occurrences of a schedule are materialized at most once: no two scheduled or catch-up runs
  of a database have the same job, revision and nominal time. The unique index of the table
  enforces it at every insert; the lemmas show that no update of a row breaks it.
\<close>

definition occurrence :: "run_row \<Rightarrow> string \<times> string \<times> int \<times> run_trigger \<times> int option" where
  "occurrence r = (run_id r, run_job r, run_revision r, run_trig r, run_nominal r)"

definition same_occurrence :: "run_row \<Rightarrow> run_row \<Rightarrow> bool" where
  "same_occurrence r x \<longleftrightarrow>
     run_trig r \<noteq> TriggerManual \<and> run_trig x \<noteq> TriggerManual \<and> run_job r = run_job x
     \<and> run_revision r = run_revision x \<and> run_nominal r = run_nominal x"

definition occurrences_unique :: "store \<Rightarrow> bool" where
  "occurrences_unique s \<longleftrightarrow>
     (\<forall>r \<in> set (runs s). \<forall>x \<in> set (runs s). same_occurrence r x \<longrightarrow> run_id r = run_id x)"

lemma occurrences_uniqueD:
  "occurrences_unique s \<Longrightarrow> r \<in> set (runs s) \<Longrightarrow> x \<in> set (runs s) \<Longrightarrow> same_occurrence r x \<Longrightarrow> run_id r = run_id x"
  unfolding occurrences_unique_def by blast

lemma occurrences_cong: "runs s' = runs s \<Longrightarrow> occurrences_unique s' \<longleftrightarrow> occurrences_unique s"
  unfolding occurrences_unique_def by simp

lemma same_occurrence_key:
  "occurrence r = occurrence r' \<Longrightarrow> occurrence x = occurrence x' \<Longrightarrow>
   (same_occurrence r x \<longleftrightarrow> same_occurrence r' x') \<and> run_id r = run_id r' \<and> run_id x = run_id x'"
  by (simp add: occurrence_def same_occurrence_def)

lemma occurrences_update [simp]:
  "(\<And>r. occurrence (f r) = occurrence r) \<Longrightarrow> map occurrence (update_where p f rs) = map occurrence rs"
  by (simp add: update_where_def)

lemma occurrence_updates [simp]:
  "occurrence (r\<lparr>run_st := st\<rparr>) = occurrence r" "occurrence (r\<lparr>run_reason := why\<rparr>) = occurrence r"
  "occurrence (r\<lparr>run_finished_at := t\<rparr>) = occurrence r" "occurrence (r\<lparr>run_replacement_candidate := b\<rparr>) = occurrence r"
  "occurrence (r\<lparr>run_cancellation_requested_at := t\<rparr>) = occurrence r" "occurrence (r\<lparr>run_cancellation_reason := w\<rparr>) = occurrence r"
  "occurrence (r\<lparr>run_eligible_at := e\<rparr>) = occurrence r"
  by (simp_all add: occurrence_def)

lemma fold_runs:
  "(\<And>x y. map occurrence (runs (f x y)) = map occurrence (runs y)) \<Longrightarrow>
   map occurrence (runs (fold f xs y)) = map occurrence (runs y)"
  by (induction xs arbitrary: y) simp_all

lemma supersede_runs [simp]: "map occurrence (runs (supersede_for_replacement job now successor x)) = map occurrence (runs x)"
  by (simp add: supersede_for_replacement_def supersede_one_def Let_def fold_runs)

lemma make_room_runs [simp]: "map occurrence (runs (make_room job now successor outcome x)) = map occurrence (runs x)"
  by (simp add: make_room_def)

lemma same_occurrences: "map occurrence (runs s') = map occurrence (runs s) \<Longrightarrow> occurrences_unique s \<Longrightarrow> occurrences_unique s'"
proof -
  assume eq: "map occurrence (runs s') = map occurrence (runs s)" and uniq: "occurrences_unique s"
  have origin: "\<exists>y \<in> set (runs s). occurrence r = occurrence y" if "r \<in> set (runs s')" for r
    using that eq by (metis imageE image_eqI list.set_map)
  show ?thesis
    unfolding occurrences_unique_def
  proof (intro ballI impI)
    fix r x assume r: "r \<in> set (runs s')" and x: "x \<in> set (runs s')" and same: "same_occurrence r x"
    obtain r' where r': "r' \<in> set (runs s)" "occurrence r = occurrence r'" using origin[OF r] ..
    obtain x' where x': "x' \<in> set (runs s)" "occurrence x = occurrence x'" using origin[OF x] ..
    note key = same_occurrence_key[OF r'(2) x'(2)]
    with same occurrences_uniqueD[OF uniq r'(1) x'(1)] show "run_id r = run_id x" by simp
  qed
qed


section \<open>The operations that add no run\<close>

lemma cancel_occurrences:
  "cancel_with_acknowledgement D rid now ack s = Inr (s', outcome) \<Longrightarrow> map occurrence (runs s') = map occurrence (runs s)"
  unfolding cancel_with_acknowledgement_def
  by (auto simp: and_then_eq_Inr split: option.splits if_splits) (auto split: cancel_outcome.split_asm if_splits)

lemma start_occurrences:
  "mark_attempt_running_inner D rid n now exe s = Inr (s', d) \<Longrightarrow> map occurrence (runs s') = map occurrence (runs s)"
  unfolding mark_attempt_running_inner_def cancel_before_spawn_def Let_def
  by (auto split: option.splits if_splits)

lemma complete_occurrences:
  "complete_attempt D c s = Inr s' \<Longrightarrow> map occurrence (runs s') = map occurrence (runs s)"
  unfolding complete_attempt_def complete_unconfirmed_def complete_known_def fail_replacements_def Let_def
  by (auto split: completion_state.splits option.splits if_splits)

lemma failure_occurrences:
  "complete_pre_execution_failure D rid n out now why s = Inr s' \<Longrightarrow> map occurrence (runs s') = map occurrence (runs s)"
  "complete_runner_failure D rid n now why started s = Inr s' \<Longrightarrow> map occurrence (runs s') = map occurrence (runs s)"
  unfolding complete_pre_execution_failure_def complete_runner_failure_def runner_failure_end_def
    runner_failure_changes_def Let_def and_then_eq_Inr
  by (auto split: option.splits if_splits)

lemma begin_occurrences:
  "begin_lifetime D pid lid now v s = Inr (s', n) \<Longrightarrow> map occurrence (runs s') = map occurrence (runs s)"
  using begin_lifetime_rows[of D pid lid now v s s' n] by simp

lemma artifact_ops_occurrences:
  "reconcile_output_finalized out now s = Inr s' \<Longrightarrow> runs s' = runs s"
  "reconcile_output_missing rid n now s = Inr s' \<Longrightarrow> runs s' = runs s"
  "mark_output_prune_pending pc now s = Inr s' \<Longrightarrow> runs s' = runs s"
  "finish_output_prune pc now s = Inr s' \<Longrightarrow> runs s' = runs s"
  "mark_run_retention_pending rc now s = Inr s' \<Longrightarrow> runs s' = runs s"
  by (auto simp: reconcile_output_finalized_def reconcile_output_missing_def mark_output_prune_pending_def
      finish_output_prune_def mark_run_retention_pending_def Let_def split: if_splits)

lemma admit_rows_occurrences:
  "admit_rows lid now rows s = Inr s' \<Longrightarrow> map occurrence (runs s') = map occurrence (runs s)"
proof (induction rows arbitrary: s)
  case (Cons row rows)
  obtain r n where row: "row = (r, n)" by (cases row)
  with Cons.prems obtain s1 where s1: "admit_row lid now (r, n) s = Inr s1"
    and rest: "admit_rows lid now rows s1 = Inr s'" by (auto simp: and_then_eq_Inr)
  from Cons.IH[OF rest] show ?case unfolding admit_row_tables(1)[OF s1] by simp
qed simp

lemma admit_occurrences:
  "admit_tx lid now hard policies s = Inr (s', as) \<Longrightarrow> map occurrence (runs s') = map occurrence (runs s)"
  by (erule admit_tx_result) (auto dest: admit_rows_occurrences)


section \<open>The operations that add runs\<close>

lemma insert_occurrence:
  assumes "run_constraints x row" and "occurrences_unique x"
  shows "occurrences_unique (insert_run row x)"
proof -
  have "\<not> same_occurrence r row" "\<not> same_occurrence row r" if "r \<in> set (runs x)" for r
    using assms(1) that unfolding run_constraints_def same_occurrence_def by auto
  then show ?thesis
    using assms(2) unfolding occurrences_unique_def by (auto simp: insert_run_def)
qed

lemma room_unique:
  assumes "next_queue_sequence s = (n, s1)" and "occurrences_unique s"
  shows "occurrences_unique (make_room job now successor outcome s1)"
  using assms(2) by (rule same_occurrences[rotated]) (use assms(1) in \<open>auto simp: next_queue_sequence_def\<close>)

lemma push_event_unique: "occurrences_unique (push_event t k j r d x) \<longleftrightarrow> occurrences_unique x"
  by (rule occurrences_cong) simp

lemma enqueue_occurrences:
  assumes "enqueue_manual_tx reference rid now prepared s = Inr s'" and "occurrences_unique s"
  shows "occurrences_unique s'"
proof -
  obtain job policy where p: "prepared = (job, policy)" by (cases prepared)
  obtain n s1 where seq: "next_queue_sequence s = (n, s1)" by (cases "next_queue_sequence s")
  define outcome where "outcome = overlap_decision policy (job_quarantined s1 (jr_id job)) False (active_runs s1 (jr_id job))"
  let ?s2 = "make_room (jr_id job) now rid outcome s1" let ?row = "manual_row rid now job n outcome"
  have "run_constraints ?s2 ?row" and s': "s' = push_event now ''manual_enqueued'' (Some (jr_id job)) (Some rid) (JObject [])
      (insert_run ?row ?s2)"
    using assms(1) unfolding enqueue_manual_tx_def p seq Let_def prod.case outcome_def[symmetric]
    by (auto split: option.splits if_splits)
  then show ?thesis using insert_occurrence[OF _ room_unique[OF seq assms(2)]] by (simp only: push_event_unique)
qed

lemma materialize_one_occurrences:
  assumes "materialize_one now item (x, m) = Inr (x', m')" and "occurrences_unique x"
  shows "occurrences_unique x'"
proof -
  obtain n policy where item: "item = (n, policy)" by (cases item)
  obtain q x1 where seq: "next_queue_sequence x = (q, x1)" by (cases "next_queue_sequence x")
  define outcome where "outcome = overlap_decision policy (job_quarantined x1 (ns_job n))
      (ns_trigger n = TriggerCatchUp) (active_runs x1 (ns_job n))"
  let ?x2 = "make_room (ns_job n) now (ns_id n) outcome x1" let ?row = "scheduled_row n now q outcome"
  have "x' = ?x2 \<or> run_constraints ?x2 ?row \<and> x' = insert_run ?row ?x2"
    using assms(1) unfolding materialize_one_def item seq Let_def prod.case outcome_def[symmetric] by (auto split: if_splits)
  then show ?thesis using room_unique[OF seq assms(2)] insert_occurrence by metis
qed

lemma materialize_all_occurrences:
  "materialize_all now items (x, m) = Inr (x', m') \<Longrightarrow> occurrences_unique x \<Longrightarrow> occurrences_unique x'"
proof (induction items arbitrary: x m)
  case (Cons item items)
  from Cons.prems(1) obtain x1 m1 where one: "materialize_one now item (x, m) = Inr (x1, m1)"
    and rest: "materialize_all now items (x1, m1) = Inr (x', m')" by (auto simp: and_then_eq_Inr)
  from Cons.IH[OF rest] materialize_one_occurrences[OF one] Cons.prems(2) show ?case by blast
qed simp

lemma materialize_occurrences:
  assumes "materialize_tx job cursor new_runs summaries now planned s = Inr (s', result)" and "occurrences_unique s"
  shows "occurrences_unique s'"
proof -
  obtain policies details where planned: "planned = (policies, details)" by (cases planned)
  define s2 where "s2 = (if cu_resolve_one_time cursor then resolve_one_time job now (advance_cursor job cursor now s)
    else advance_cursor job cursor now s)"
  obtain s3 where all: "materialize_all now (zip new_runs policies) (s2, \<lparr>mat_inserted = 0, mat_duplicates = 0\<rparr>) = Inr (s3, result)"
    and s': "runs s' = runs s3"
    using assms(1) unfolding materialize_tx_def planned Let_def prod.case s2_def[symmetric]
    by (auto simp: and_then_eq_Inr split: if_splits)
  have "runs s2 = runs s" by (simp add: s2_def resolve_one_time_def advance_cursor_def)
  then have "occurrences_unique s2" using assms(2) occurrences_cong by blast
  from materialize_all_occurrences[OF all this] s' show ?thesis using occurrences_cong by blast
qed

lemma retention_occurrences:
  "finish_run_retention rc s = Inr s' \<Longrightarrow> occurrences_unique s \<Longrightarrow> occurrences_unique s'"
  by (auto simp: finish_run_retention_def delete_run_def occurrences_unique_def split: if_splits)

text \<open>Every other step keeps the occurrences as they are.\<close>

lemma step_same_occurrences:
  assumes "store_step D windows s s'"
  shows "map occurrence (runs s') = map occurrence (runs s)
    \<or> (\<exists>reference rid now prepared. enqueue_manual_tx reference rid now prepared s = Inr s')
    \<or> (\<exists>job cursor new_runs summaries now planned result.
         materialize_tx job cursor new_runs summaries now planned s = Inr (s', result))
    \<or> (\<exists>rc. finish_run_retention rc s = Inr s')"
  using assms
proof cases
  case step_enqueue
  then show ?thesis by blast
next
  case step_materialize
  then show ?thesis by blast
next
  case step_delete
  then show ?thesis by blast
qed (auto simp: create_job_def update_job_def set_enabled_def set_environment_def set_setting_def
    and_then_eq_Inr end_lifetime_def
    dest!: create_job_runs update_job_runs set_enabled_runs remove_job_runs apply_import_runs settings_ops_frame
      artifact_ops_occurrences admit_occurrences cancel_occurrences start_occurrences complete_occurrences
      failure_occurrences begin_occurrences)

lemma step_occurrences: "occurrences_unique s \<Longrightarrow> store_step D windows s s' \<Longrightarrow> occurrences_unique s'"
  using step_same_occurrences[of D windows s s']
  by (blast intro: same_occurrences enqueue_occurrences materialize_occurrences retention_occurrences)

interpretation once: transition_system "\<lambda>s. s = initial_store" "store_step D windows" occurrences_unique for D windows
proof unfold_locales
  show "occurrences_unique s" if "s = initial_store" for s using that by (simp add: occurrences_unique_def initial_store_def)
qed (rule step_occurrences)

text \<open>
  In every reachable database an occurrence of a schedule exists at most once: two
  scheduled or catch-up runs of the same job and revision with the same nominal time are the
  same run, however often and by however many processes the occurrence was materialized.
\<close>

theorem occurrences_exactly_once:
  assumes "(store_step D windows)\<^sup>*\<^sup>* initial_store s"
  shows "occurrences_unique s"
  by (rule once.reachable_inv[OF refl assms])

end
