(* ===== verification/Store_Trace.thy ===== *)
theory Store_Trace
  imports Occurrences
begin

text \<open>
  A concrete history of a database: a job is created, run by hand, admitted by a daemon,
  started and completed, and later deleted by retention. The theorems on reachable databases apply to its states.
\<close>

definition queued_store :: store where
  "queued_store = projr (enqueue_manual_tx ''backup'' ''r'' 10
     (projr (enqueue_manual_prepare plain_codecs ''backup'' sample_store)) sample_store)"

definition lifetime_store :: store where
  "lifetime_store = fst (projr (begin_lifetime plain_codecs 7 ''l'' 11 ''1.0'' queued_store))"

definition sample_policies :: prepared_admission where
  "sample_policies = projr (admit_prepare plain_codecs 12 4 lifetime_store)"

definition admitted_store :: store where
  "admitted_store = fst (projr (admit_tx ''l'' 12 4 sample_policies lifetime_store))"

definition running_store :: store where
  "running_store = fst (projr (mark_attempt_running plain_codecs ''r'' 1 13 admitted_store))"

definition sample_completion :: attempt_completion where
  "sample_completion =
     \<lparr>comp_run = ''r'', comp_number = 1, comp_now = 20, comp_duration = 7, comp_state = CompletedAs AttSucceeded,
      comp_exit_code = Some 0, comp_http_status = None, comp_http_content_type = None, comp_reason = ''exit 0'',
      comp_retry = None\<rparr>"

definition completed_store :: store where
  "completed_store = projr (complete_attempt plain_codecs sample_completion running_store)"

lemma projr_Inr: "\<not> isl x \<Longrightarrow> x = Inr (projr x)"
  by simp

lemma sample_step_create: "store_step plain_codecs False initial_store sample_store"
  by (rule step_create[where job = sample_create and r = "read_job sample_store (cj_id sample_create)"]) code_simp

lemma sample_step_enqueue: "store_step plain_codecs False sample_store queued_store"
  unfolding queued_store_def by (rule step_enqueue, rule projr_Inr) code_simp

lemma sample_step_begin: "store_step plain_codecs False queued_store lifetime_store"
  by (rule step_begin[where pid = 7 and lid = "''l''" and now = 11 and v = "''1.0''" and n = 0]) code_simp

lemma sample_admitted:
  "admit_tx ''l'' 12 4 sample_policies lifetime_store = Inr (admitted_store,
     [\<lparr>ad_run = ''r'', ad_job = ''a'', ad_number = 1, ad_trigger = TriggerManual, ad_nominal = None, ad_snapshot_json = ''{}''\<rparr>])"
  by code_simp

lemma sample_step_admit: "store_step plain_codecs False lifetime_store admitted_store"
  by (rule step_admit[OF sample_admitted])

lemma sample_step_start: "store_step plain_codecs False admitted_store running_store"
  by (rule step_start[where rid = "''r''" and n = 1 and now = 13 and exe = None and d = Ready]) code_simp

lemma sample_completed: "complete_attempt plain_codecs sample_completion running_store = Inr completed_store"
  by code_simp

lemma sample_documented: "documented_completion sample_completion"
  by code_simp

lemma sample_step_complete: "store_step plain_codecs False running_store completed_store"
  by (rule step_complete[OF sample_documented sample_completed])

lemmas then_step = rtranclp.rtrancl_into_rtrancl[where r = "store_step plain_codecs False"]

lemma reachable_lifetime: "(store_step plain_codecs False)\<^sup>*\<^sup>* initial_store lifetime_store"
  by (rule then_step[OF then_step[OF then_step[OF rtranclp.rtrancl_refl sample_step_create] sample_step_enqueue] sample_step_begin])

lemma reachable_running: "(store_step plain_codecs False)\<^sup>*\<^sup>* initial_store running_store"
  by (rule then_step[OF then_step[OF reachable_lifetime sample_step_admit] sample_step_start])

lemma reachable_completed: "(store_step plain_codecs False)\<^sup>*\<^sup>* initial_store completed_store"
  by (rule then_step[OF reachable_running sample_step_complete])

lemma running_to_completed: "(store_step plain_codecs False)\<^sup>*\<^sup>* running_store completed_store"
  using sample_step_complete by blast

theorem reachable_store_invariant_witness: "store_wf completed_store \<and> jobs_wf completed_store"
  using reachable_store_invariant[OF reachable_completed] by simp

text \<open>The whole life of a run: completed, its output found missing, claimed for retention, and deleted.\<close>

definition missing_store :: store where
  "missing_store = projr (reconcile_output_missing ''r'' 1 21 completed_store)"

definition sample_retention :: run_retention_candidate where
  "sample_retention = \<lparr>rrc_run = ''r'', rrc_job = ''a'', rrc_finished_at = 20\<rparr>"

definition reserved_store :: store where
  "reserved_store = projr (mark_run_retention_pending sample_retention 7776000000021 missing_store)"

definition pruned_store :: store where
  "pruned_store = projr (finish_run_retention sample_retention reserved_store)"

lemma sample_step_missing: "store_step plain_codecs False completed_store missing_store"
  unfolding missing_store_def by (rule step_missing, rule projr_Inr) code_simp

lemma sample_step_reserve: "store_step plain_codecs False missing_store reserved_store"
  unfolding reserved_store_def by (rule step_reserve, rule projr_Inr) code_simp

lemma sample_step_delete: "store_step plain_codecs False reserved_store pruned_store"
  unfolding pruned_store_def by (rule step_delete, rule projr_Inr) code_simp

definition sample_history :: "nat \<Rightarrow> store" where
  "sample_history i = [initial_store, sample_store, queued_store, lifetime_store, admitted_store, running_store, completed_store,
     missing_store, reserved_store, pruned_store] ! i"

lemmas sample_steps = sample_step_create sample_step_enqueue sample_step_begin sample_step_admit sample_step_start
  sample_step_complete sample_step_missing sample_step_reserve sample_step_delete

lemma sample_history_steps: "i < 9 \<Longrightarrow> store_step plain_codecs False (sample_history i) (sample_history (Suc i))"
  using sample_steps by (auto simp: sample_history_def less_Suc_eq numeral_eq_Suc)

lemma sample_history_start: "sample_history 0 = initial_store"
  by (simp add: sample_history_def)

theorem runs_never_lost_witness:
  "\<exists>r. runs (sample_history 2) = [r] \<and> run_st r = Queued
     \<and> (\<exists>r' \<in> set (runs (sample_history 6)). same_run r r' \<and> run_st r' = Succeeded)
     \<and> (\<exists>k. 2 \<le> k \<and> k < 9 \<and> run_lost_at sample_history r k)"
proof -
  obtain r where r: "runs (sample_history 2) = [r]" "run_st r = Queued" "run_id r = ''r''"
  proof
    show "runs (sample_history 2) = [hd (runs queued_store)]" by code_simp
    show "run_st (hd (runs queued_store)) = Queued" "run_id (hd (runs queued_store)) = ''r''" by code_simp+
  qed
  have "list_all (\<lambda>k. map run_id (runs (sample_history k)) = [''r'']) [3, 4, 5, 6]" by code_simp
  then have "\<not> run_lost_at sample_history r k" if "2 \<le> k" "k < 6" for k
  proof -
    have "Suc k \<in> {3, 4, 5, 6}" using that by auto
    with \<open>list_all _ _\<close> have "map run_id (runs (sample_history (Suc k))) = [''r'']" by auto
    then show ?thesis using r(3) unfolding run_lost_at_def by (metis list.set_intros(1) list.set_map)
  qed
  moreover have "map run_st (runs (sample_history 6)) = [Succeeded]" by code_simp
  moreover note trace = runs_never_lost[where \<sigma> = sample_history and n = 9 and i = 2 and r = r, OF sample_history_start sample_history_steps]
  ultimately have "\<exists>r' \<in> set (runs (sample_history 6)). same_run r r' \<and> run_st r' = Succeeded"
    using trace[where j = 6] r(1) by fastforce
  moreover have "runs (sample_history 9) = []" by code_simp
  ultimately show ?thesis using trace[where j = 9] r by simp
qed

theorem revisions_append_only_witness: "catalogue_grows running_store completed_store"
  by (rule revisions_append_only[OF reachable_running running_to_completed])

theorem concurrency_bounded_witness: "active_count running_store \<le> 64"
  using concurrency_bounded[OF reachable_running] by simp

theorem occurrences_exactly_once_witness: "occurrences_unique completed_store"
  by (rule occurrences_exactly_once[OF reachable_completed])

lemma lifetime_store_wf: "store_wf lifetime_store"
  using machine.reachable_inv[OF refl reachable_lifetime] by (simp add: store_inv_def)

lemma running_store_wf: "store_wf running_store"
  using machine.reachable_inv[OF refl reachable_running] by (simp add: store_inv_def)

theorem admit_within_limits_witness: "active_count admitted_store = active_count lifetime_store + 1"
  using admit_within_limits[OF lifetime_store_wf sample_admitted] by simp

theorem admit_work_conserving_witness:
  "''r'' \<in> ad_run ` set [\<lparr>ad_run = ''r'', ad_job = ''a'', ad_number = 1, ad_trigger = TriggerManual, ad_nominal = None,
      ad_snapshot_json = ''{}''\<rparr>]
   \<or> (\<exists>policy. snapshot_admission_policy plain_codecs ''{}'' = Inr policy
        \<and> policy_limit policy \<le> int (executing_of lifetime_store ''a'' + 1))"
proof -
  have ok: "admit plain_codecs ''l'' 12 4 lifetime_store = Inr (admitted_store,
     [\<lparr>ad_run = ''r'', ad_job = ''a'', ad_number = 1, ad_trigger = TriggerManual, ad_nominal = None, ad_snapshot_json = ''{}''\<rparr>])"
    by code_simp
  have capacity: "admission_capacity lifetime_store 4 = Inr 4" by code_simp
  have r: "hd (runs lifetime_store) \<in> set (eligible_runs lifetime_store 12 (scan_limit 4))" by code_simp
  have "run_id (hd (runs lifetime_store)) = ''r''" "run_job (hd (runs lifetime_store)) = ''a''"
    "run_snapshot_json (hd (runs lifetime_store)) = ''{}''" by code_simp+
  with admit_work_conserving[OF lifetime_store_wf ok capacity _ r] show ?thesis by simp
qed

theorem completion_idempotent_witness:
  "complete_attempt plain_codecs sample_completion completed_store = Inr completed_store"
  by (rule completion_idempotent[OF running_store_wf sample_documented sample_completed])

theorem cancellation_preview_exact_witness:
  "\<exists>s'. cancel_with_acknowledgement plain_codecs ''r'' 14 False running_store = Inr (s', CancellationRequested)"
proof -
  have "preview_cancellation running_store ''r'' False =
      Inr \<lparr>preview_state = Running, preview_outcome = CancellationRequested, preview_already_requested = False\<rparr>" by code_simp
  with cancellation_preview_exact[OF running_store_wf, where rid = "''r''" and ack = False and D = plain_codecs and now = 14] show ?thesis by simp
qed

theorem begin_lifetime_recovers_witness:
  "\<exists>s'. begin_lifetime plain_codecs 8 ''m'' 30 ''1.0'' running_store = Inr (s', 1)
     \<and> map run_st (runs s') = [InterruptedUnknown]"
proof -
  let ?x = "begin_lifetime plain_codecs 8 ''m'' 30 ''1.0'' running_store"
  have ok: "?x = Inr (fst (projr ?x), 1)" by code_simp
  have "map (\<lambda>r. if stale_run r then InterruptedUnknown else run_st r) (runs running_store) = [InterruptedUnknown]" by code_simp
  with begin_lifetime_recovers[OF running_store_wf ok] ok show ?thesis by metis
qed

definition sample_cursor :: cursor_update where
  "sample_cursor =
     \<lparr>cu_expected_revision = 1, cu_expected_cursor = 5, cu_new_cursor = 60, cu_resolve_one_time = False\<rparr>"

definition sample_occurrence :: new_scheduled_run where
  "sample_occurrence =
     \<lparr>ns_id = ''o'', ns_job = ''a'', ns_revision = 1, ns_trigger = TriggerScheduled, ns_nominal = 60,
      ns_requested_at = 61, ns_eligible_at = 60, ns_snapshot_json = ''{}''\<rparr>"

theorem materialize_cursor_swap_witness:
  "\<exists>s' result. materialize_tx ''a'' sample_cursor [sample_occurrence] [] 61
       ([\<lparr>snap_overlap = ''skip'', snap_per_job_concurrency = 1\<rparr>], []) sample_store = Inr (s', result)
     \<and> materialize_tx ''a'' sample_cursor [sample_occurrence] [] 62
         ([\<lparr>snap_overlap = ''skip'', snap_per_job_concurrency = 1\<rparr>], []) s' = Inl (StoreConflict ''schedule cursor changed'')"
proof -
  let ?x = "materialize_tx ''a'' sample_cursor [sample_occurrence] [] 61
       ([\<lparr>snap_overlap = ''skip'', snap_per_job_concurrency = 1\<rparr>], []) sample_store"
  have ok: "?x = Inr (fst (projr ?x), \<lparr>mat_inserted = 1, mat_duplicates = 0\<rparr>)" by code_simp
  have "cu_new_cursor sample_cursor \<noteq> cu_expected_cursor sample_cursor" by code_simp
  from materialize_cursor_swap[OF ok this refl refl] ok show ?thesis by metis
qed

end
