(* ===== verification/Redaction.thy ===== *)
theory Redaction
  imports Lifecycle Json_Values
begin

text \<open>
  The redaction boundary of \<^verbatim>\<open>crates/locron-core/src/redact.rs\<close>: every document that leaves
  the program passes through these functions. A \<open>serde_json::Value\<close> is a \<open>json\<close> value whose
  objects list their members in key order, as the ordered map of the package does; parsing and
  printing of JSON text belong to the package and are parameters. The relation \<open>hidden\<close>
  describes, without reference to the functions, two definitions that differ only in secrets;
  the theorems say that a document does not depend on the secrets, and that redaction leaves
  everything else as it was.
\<close>


section \<open>JSON documents\<close>

text \<open>\<open>Value::get\<close> with a member name; values other than objects have no members.\<close>

fun member :: "json \<Rightarrow> string \<Rightarrow> json option" where
  "member (JObject members) key = map_of members key"
| "member _ key = None"

text \<open>Assigning through \<open>Value::get_mut\<close>: only an existing member changes.\<close>

fun update_member :: "string \<Rightarrow> (json \<Rightarrow> json) \<Rightarrow> (string \<times> json) list \<Rightarrow> (string \<times> json) list" where
  "update_member key f [] = []"
| "update_member key f ((k, v) # rest) =
     (if k = key then (k, f v) # rest else (k, v) # update_member key f rest)"

fun update_key :: "string \<Rightarrow> (json \<Rightarrow> json) \<Rightarrow> json \<Rightarrow> json" where
  "update_key key f (JObject members) = JObject (update_member key f members)"
| "update_key key f v = v"

text \<open>\<open>for value in values.values_mut()\<close> on an object.\<close>

fun map_members :: "(json \<Rightarrow> json) \<Rightarrow> json \<Rightarrow> json" where
  "map_members f (JObject members) = JObject (map (\<lambda>(k, v). (k, f v)) members)"
| "map_members f v = v"

text \<open>\<open>Map::insert\<close>, which keeps the order of the keys.\<close>

fun insert_member :: "string \<Rightarrow> json \<Rightarrow> (string \<times> json) list \<Rightarrow> (string \<times> json) list" where
  "insert_member key v [] = [(key, v)]"
| "insert_member key v ((k, x) # rest) =
     (if k = key then (key, v) # rest
      else if key < k then (key, v) # (k, x) # rest
      else (k, x) # insert_member key v rest)"

fun as_str :: "json \<Rightarrow> string option" where
  "as_str (JString s) = Some s"
| "as_str _ = None"

fun as_i64 :: "json \<Rightarrow> int option" where
  "as_i64 (JInt i) = (if in_i64 i then Some i else None)"
| "as_i64 _ = None"

fun as_array :: "json \<Rightarrow> json list option" where
  "as_array (JArray xs) = Some xs"
| "as_array _ = None"

definition redacted_text :: json where
  "redacted_text = JString ''<redacted>''"


section \<open>Redacting a definition\<close>

definition redact_environment :: "json \<Rightarrow> json" where
  "redact_environment = update_key ''environment'' (update_key ''values'' (map_members (\<lambda>v. redacted_text)))"

definition redact_header :: "json \<Rightarrow> json" where
  "redact_header v =
     (if Option.bind (member v ''source'') as_str = Some ''inline''
      then update_key ''value'' (\<lambda>inline. redacted_text) v else v)"

definition redact_headers :: "json \<Rightarrow> json" where
  "redact_headers = update_key ''target'' (update_key ''headers'' (map_members redact_header))"

definition redact_body :: "json \<Rightarrow> json" where
  "redact_body = update_key ''target'' (update_key ''body'' (\<lambda>body. if body = JNull then JNull else redacted_text))"

lemma size_get: "member d key = Some v \<Longrightarrow> size v < size d"
proof (cases d)
  case (JObject members)
  moreover have "map_of ms key = Some v \<Longrightarrow> size v < Suc (size_list (size_prod (\<lambda>_. 0) size) ms)" for ms
    by (induction ms) (auto split: if_splits)
  ultimately show "member d key = Some v \<Longrightarrow> size v < size d"
    by simp
qed simp_all

function redact_definition :: "json \<Rightarrow> json" where
  "redact_definition definition_doc =
     (case member definition_doc ''definition'' of
        Some nested \<Rightarrow> update_key ''definition'' (\<lambda>_. redact_definition nested) definition_doc
      | None \<Rightarrow> redact_body (redact_headers (redact_environment definition_doc)))"
  by pat_completeness auto
termination by (relation "measure size") (auto dest: size_get)

declare redact_definition.simps [simp del]


section \<open>Redacting documents\<close>

datatype 'e document_error = Json 'e | Panic string

text \<open>\<open>parse\<close> and \<open>print\<close> are \<open>serde_json::from_str\<close> and \<open>serde_json::to_string\<close>.\<close>

definition redact_text_member ::
    "(string \<Rightarrow> 'e + json) \<Rightarrow> (json \<Rightarrow> 'e + string) \<Rightarrow> string \<Rightarrow> json \<Rightarrow> 'e + json" where
  "redact_text_member parse print key v =
     (case member v key of
        None \<Rightarrow> Inr v
      | Some text \<Rightarrow>
          let source = (case as_str text of Some s \<Rightarrow> s | None \<Rightarrow> ''{}'')
          in and_then (parse source) (\<lambda>parsed.
             and_then (print (redact_definition parsed)) (\<lambda>printed.
               Inr (update_key key (\<lambda>_. JString printed) v))))"

definition redacted_job_document ::
    "(string \<Rightarrow> 'e + json) \<Rightarrow> (json \<Rightarrow> 'e + string) \<Rightarrow> json \<Rightarrow> 'e + json" where
  "redacted_job_document parse print v = redact_text_member parse print ''definition_json'' v"

definition redacted_run_document ::
    "(string \<Rightarrow> 'e + json) \<Rightarrow> (json \<Rightarrow> 'e + string) \<Rightarrow> json \<Rightarrow> 'e + json" where
  "redacted_run_document parse print v = redact_text_member parse print ''snapshot_json'' v"

definition json_option :: "json option \<Rightarrow> json" where
  "json_option x = (case x of None \<Rightarrow> JNull | Some v \<Rightarrow> v)"

definition minimum :: "int list \<Rightarrow> int option" where
  "minimum xs = (case xs of [] \<Rightarrow> None | x # rest \<Rightarrow> Some (fold min rest x))"

definition running_at :: "json \<Rightarrow> int option" where
  "running_at attempt = as_i64 (json_option (member attempt ''running_at_us''))"

definition actual_started :: "json \<Rightarrow> int option" where
  "actual_started attempts = Option.bind (as_array attempts) (\<lambda>xs. minimum (List.map_filter running_at xs))"

definition run_duration :: "int option \<Rightarrow> int option \<Rightarrow> int option" where
  "run_duration started finished =
     (case (started, finished) of
        (Some s, Some f) \<Rightarrow>
          (case i64_checked (f - s) of
             Some duration \<Rightarrow> if 0 \<le> duration then Some duration else None
           | None \<Rightarrow> None)
      | _ \<Rightarrow> None)"

definition redacted_observable_run_document ::
    "(string \<Rightarrow> 'e + json) \<Rightarrow> (json \<Rightarrow> 'e + string) \<Rightarrow> json \<Rightarrow> json \<Rightarrow> 'e document_error + json" where
  "redacted_observable_run_document parse print run attempts =
     (let source = (case Option.bind (member run ''trigger'') as_str of Some s \<Rightarrow> s | None \<Rightarrow> '''');
          finished = Option.bind (member run ''finished_at_us'') as_i64;
          state = (case Option.bind (member run ''state'') as_str of Some s \<Rightarrow> s | None \<Rightarrow> '''');
          outcome = (if terminal_run_state state then Some state else None);
          started = actual_started attempts;
          duration = run_duration started finished
      in and_then (map_err Json (redacted_run_document parse print run)) (\<lambda>v.
           case v of
             JObject members \<Rightarrow>
               Inr (JObject (insert_member ''attempts'' attempts
                 (insert_member ''duration_us'' (json_option (map_option JInt duration))
                 (insert_member ''actual_started_at_us'' (json_option (map_option JInt started))
                 (insert_member ''outcome'' (json_option (map_option JString outcome))
                 (insert_member ''source'' (JString source) members))))))
           | _ \<Rightarrow> Inl (Panic ''run records serialize as objects'')))"

definition configured_marker :: json where
  "configured_marker = JObject [(''configured'', JBool True), (''value_redacted'', JBool True)]"

definition redacted_settings_document :: "json \<Rightarrow> 'e document_error + json" where
  "redacted_settings_document v =
     (let environment =
            (case member v ''environment'' of
               Some (JObject members) \<Rightarrow> map (\<lambda>(name, _). (name, configured_marker)) members
             | _ \<Rightarrow> [])
      in case v of
           JObject members \<Rightarrow> Inr (JObject (insert_member ''environment'' (JObject environment) members))
         | _ \<Rightarrow> Inl (Panic ''settings serialize as an object''))"



section \<open>Members of objects\<close>

lemma update_member_same: "update_member k f (update_member k g ms) = update_member k (\<lambda>v. f (g v)) ms"
  by (induction ms) auto

lemma update_member_swap:
  "k \<noteq> k' \<Longrightarrow> update_member k f (update_member k' g ms) = update_member k' g (update_member k f ms)"
  by (induction ms) auto

lemma map_of_update_member:
  "map_of (update_member k f ms) k' = (if k' = k then map_option f (map_of ms k) else map_of ms k')"
  by (induction ms) auto

lemma update_member_cong:
  "(\<And>v. map_of ms k = Some v \<Longrightarrow> f v = g v) \<Longrightarrow> update_member k f ms = update_member k g ms"
  by (induction ms) auto

lemma update_key_same [simp]: "update_key k f (update_key k g d) = update_key k (\<lambda>v. f (g v)) d"
  by (cases d) (simp_all add: update_member_same)

lemma update_key_swap: "k \<noteq> k' \<Longrightarrow> update_key k f (update_key k' g d) = update_key k' g (update_key k f d)"
  by (cases d) (simp_all add: update_member_swap)

lemma get_update_key [simp]: "member (update_key k f d) k' = (if k' = k then map_option f (member d k) else member d k')"
  by (cases d) (simp_all add: map_of_update_member)

lemma update_key_cong: "(\<And>v. member d k = Some v \<Longrightarrow> f v = g v) \<Longrightarrow> update_key k f d = update_key k g d"
  by (cases d) (auto intro: update_member_cong)

lemma get_map_members [simp]: "member (map_members f d) k = map_option f (member d k)"
  by (cases d) (auto simp: map_of_map)

lemma map_members_update:
  assumes "\<And>v. member d k = Some v \<Longrightarrow> f (g v) = f v"
  shows "map_members f (update_key k g d) = map_members f d"
proof (cases d)
  case (JObject ms)
  have "(\<And>v. map_of ms k = Some v \<Longrightarrow> f (g v) = f v) \<Longrightarrow>
      map (\<lambda>(k, v). (k, f v)) (update_member k g ms) = map (\<lambda>(k, v). (k, f v)) ms"
    by (induction ms) (auto split: if_splits)
  then show ?thesis
    using assms JObject by simp
qed simp_all

lemma update_key_id: "(\<And>v. member d k = Some v \<Longrightarrow> f v = v) \<Longrightarrow> update_key k f d = d"
proof (cases d)
  case (JObject ms)
  have "(\<And>v. map_of ms k = Some v \<Longrightarrow> f v = v) \<Longrightarrow> update_member k f ms = ms"
    by (induction ms) (auto split: if_splits)
  then show "(\<And>v. member d k = Some v \<Longrightarrow> f v = v) \<Longrightarrow> update_key k f d = d"
    using JObject by simp
qed simp_all


section \<open>Paths and secrets\<close>

fun value_at :: "json \<Rightarrow> string list \<Rightarrow> json option" where
  "value_at d [] = Some d"
| "value_at d (k # ks) = Option.bind (member d k) (\<lambda>v. value_at v ks)"

fun set_path :: "string list \<Rightarrow> json \<Rightarrow> json \<Rightarrow> json" where
  "set_path [] v d = v"
| "set_path (k # ks) v d = update_key k (set_path ks v) d"

text \<open>
  Two definitions that differ in one secret: an environment value, the value of an inline
  header, or a request body; at the top or inside the wrapper that the command line uses.
\<close>

inductive hidden :: "json \<Rightarrow> json \<Rightarrow> bool" where
  environment_value:
    "member d ''definition'' = None \<Longrightarrow> hidden d (set_path [''environment'', ''values'', name] secret d)"
| header_value:
    "member d ''definition'' = None \<Longrightarrow>
     value_at d [''target'', ''headers'', name, ''source''] = Some (JString ''inline'') \<Longrightarrow>
     hidden d (set_path [''target'', ''headers'', name, ''value''] secret d)"
| request_body:
    "member d ''definition'' = None \<Longrightarrow> value_at d [''target'', ''body''] = Some body \<Longrightarrow>
     body \<noteq> JNull \<Longrightarrow> secret \<noteq> JNull \<Longrightarrow> hidden d (set_path [''target'', ''body''] secret d)"
| wrapped:
    "member d ''definition'' = Some nested \<Longrightarrow> hidden nested nested' \<Longrightarrow>
     hidden d (set_path [''definition''] nested' d)"

definition redact_plain :: "json \<Rightarrow> json" where
  "redact_plain d = redact_body (redact_headers (redact_environment d))"

lemma redact_unwrapped: "member d ''definition'' = None \<Longrightarrow> redact_definition d = redact_plain d"
  by (subst redact_definition.simps) (simp add: redact_plain_def)

lemma redact_plain_environment: "redact_plain (set_path [''environment'', ''values'', name] secret d) = redact_plain d"
  by (simp add: redact_plain_def redact_environment_def map_members_update)

lemma redact_plain_header:
  assumes "value_at d [''target'', ''headers'', name, ''source''] = Some (JString ''inline'')"
  shows "redact_plain (set_path [''target'', ''headers'', name, ''value''] secret d) = redact_plain d"
proof -
  have "redact_headers (set_path [''target'', ''headers'', name, ''value''] secret d) = redact_headers d"
    unfolding redact_headers_def set_path.simps update_key_same
    by (intro update_key_cong map_members_update)
      (use assms in \<open>auto simp: redact_header_def bind_eq_Some_conv\<close>)
  then show ?thesis
    by (simp add: redact_plain_def redact_environment_def redact_headers_def update_key_swap[of "''target''" "''environment''"])
qed

lemma redact_plain_body:
  assumes "value_at d [''target'', ''body''] = Some body" "body \<noteq> JNull" "secret \<noteq> JNull"
  shows "redact_plain (set_path [''target'', ''body''] secret d) = redact_plain d"
proof -
  let ?B = "\<lambda>body. if body = JNull then JNull else redacted_text"
  let ?H = "update_key ''headers'' (map_members redact_header)"
  have "update_key ''target'' (\<lambda>v. ?H (update_key ''body'' (\<lambda>v. redacted_text) v)) d
      = update_key ''target'' (\<lambda>v. ?H (update_key ''body'' ?B v)) d"
    by (intro update_key_cong arg_cong[where f = ?H]) (use assms in \<open>auto simp: bind_eq_Some_conv\<close>)
  then show ?thesis
    using assms(3)
    by (simp add: redact_plain_def redact_environment_def redact_headers_def redact_body_def
        update_key_swap[of "''target''" "''environment''"] update_key_swap[of "''body''" "''headers''"])
qed

lemma get_set_path_other: "k \<noteq> key \<Longrightarrow> member (set_path (k # ks) v d) key = member d key"
  by simp

lemma hidden_same:
  assumes "hidden d d'"
  shows "redact_definition d' = redact_definition d"
  using assms
proof induction
  case (environment_value d name secret)
  then show ?case
    by (subst (1 2) redact_unwrapped) (simp_all add: redact_plain_environment del: set_path.simps, simp)
next
  case (header_value d name secret)
  then show ?case
    by (subst (1 2) redact_unwrapped) (simp_all add: redact_plain_header del: set_path.simps, simp)
next
  case (request_body d body secret)
  then show ?case
    by (subst (1 2) redact_unwrapped) (simp_all add: redact_plain_body del: set_path.simps, simp)
next
  case (wrapped d nested nested')
  then show ?case
    by (subst (1 2) redact_definition.simps) simp
qed

text \<open>C19: Redaction hides secrets. Two definitions that differ only in an environment value, in the
  value of an inline header or in a non-null request body, at the top level or inside the
  wrapper of the command line, have the same redacted form: nothing about a secret can be read
  off the document that is shown.\<close>

theorem redaction_hides_secrets:
  assumes "hidden d d'"
  shows "redact_definition d' = redact_definition d"
  using assms by (rule hidden_same)

definition sample_definition :: json where
  "sample_definition = JObject
     [(''environment'', JObject [(''values'', JObject [(''TOKEN'', JString ''s3cret'')])]),
      (''target'', JObject [(''body'', JNull),
         (''headers'', JObject [(''Authorization'', JObject [(''source'', JString ''inline''), (''value'', JString ''key'')]),
                              (''X-Ref'', JObject [(''source'', JString ''environment''), (''value'', JString ''NAME'')])])])]"

theorem redaction_hides_secrets_witness:
  "redact_definition (set_path [''target'', ''headers'', ''Authorization'', ''value''] (JString ''other'') sample_definition)
     = redact_definition sample_definition"
  by (intro redaction_hides_secrets hidden.header_value) (simp_all add: sample_definition_def)


section \<open>What redaction keeps\<close>

lemma member_redact_header: "member (redact_header v) k =
    (if k = ''value'' \<and> Option.bind (member v ''source'') as_str = Some ''inline''
     then map_option (\<lambda>_. redacted_text) (member v k) else member v k)"
  by (simp add: redact_header_def)

lemma redact_header_twice: "redact_header (redact_header v) = redact_header v"
  by (cases "Option.bind (member v ''source'') as_str = Some ''inline''") (simp_all add: redact_header_def)

lemma redact_plain_twice: "redact_plain (redact_plain d) = redact_plain d"
proof -
  have merge: "map_members f (map_members g v) = map_members (\<lambda>x. f (g x)) v" for f g v
    by (cases v) auto
  have body_twice: "(if (if b = JNull then JNull else redacted_text) = JNull then JNull else redacted_text)
      = (if b = JNull then JNull else redacted_text)" for b
    by (simp add: redacted_text_def)
  show ?thesis
    unfolding redact_plain_def redact_environment_def redact_headers_def redact_body_def
    by (simp add: update_key_swap[of "''target''" "''environment''"] update_key_swap[of "''body''" "''headers''"]
        merge redact_header_twice body_twice)
qed

text \<open>C29: redaction is exact. In the redacted form of a definition without the command line's
  wrapper, members other than the environment and the target are as before; of the environment
  only the values are replaced, and every variable name stays; of the target only non-null
  bodies and the values of inline headers are replaced, and headers that refer to a variable
  stay as they are. Redacting again changes nothing.\<close>

theorem redaction_exact:
  assumes "member d ''definition'' = None"
  shows "(k \<noteq> ''environment'' \<and> k \<noteq> ''target'' \<longrightarrow> member (redact_definition d) k = member d k) \<and>
    (k \<noteq> ''values'' \<longrightarrow>
       value_at (redact_definition d) [''environment'', k] = value_at d [''environment'', k]) \<and>
    value_at (redact_definition d) [''environment'', ''values'', name]
      = map_option (\<lambda>_. redacted_text) (value_at d [''environment'', ''values'', name]) \<and>
    (k \<noteq> ''headers'' \<and> k \<noteq> ''body'' \<longrightarrow>
       value_at (redact_definition d) [''target'', k] = value_at d [''target'', k]) \<and>
    value_at (redact_definition d) [''target'', ''body'']
      = map_option (\<lambda>b. if b = JNull then JNull else redacted_text) (value_at d [''target'', ''body'']) \<and>
    value_at (redact_definition d) [''target'', ''headers'', name, k] =
      (if k = ''value'' \<and> Option.bind (value_at d [''target'', ''headers'', name, ''source'']) as_str = Some ''inline''
       then map_option (\<lambda>_. redacted_text) (value_at d [''target'', ''headers'', name, k])
       else value_at d [''target'', ''headers'', name, k]) \<and>
    redact_definition (redact_definition d) = redact_definition d"
proof -
  have flat: "redact_definition d = redact_plain d"
    by (rule redact_unwrapped[OF assms])
  have "member (redact_plain d) ''definition'' = None"
    using assms by (simp add: redact_plain_def redact_environment_def redact_headers_def redact_body_def)
  then have again: "redact_definition (redact_plain d) = redact_plain d"
    by (simp add: redact_unwrapped redact_plain_twice)
  have last: "value_at x [''target'', ''headers'', name, key]
      = Option.bind (value_at x [''target'', ''headers'', name]) (\<lambda>v. member v key)" for x key
    by (cases "member x ''target''"; simp; cases "member (the (member x ''target'')) ''headers''"; simp)
  have all: "value_at (redact_plain d) [''target'', ''headers'', name]
      = map_option redact_header (value_at d [''target'', ''headers'', name])"
    by (simp add: redact_plain_def redact_environment_def redact_headers_def redact_body_def
        map_option_bind bind_map_option o_def)
  have header: "value_at (redact_plain d) [''target'', ''headers'', name, k] =
      (if k = ''value'' \<and> Option.bind (value_at d [''target'', ''headers'', name, ''source'']) as_str = Some ''inline''
       then map_option (\<lambda>_. redacted_text) (value_at d [''target'', ''headers'', name, k])
       else value_at d [''target'', ''headers'', name, k])"
    unfolding last all by (cases "value_at d [''target'', ''headers'', name]")
      (simp_all add: member_redact_header del: value_at.simps)
  show ?thesis
    unfolding flat again header
    by (simp add: redact_plain_def redact_environment_def redact_headers_def redact_body_def
        map_option_bind bind_map_option o_def)
qed

theorem redaction_exact_witness:
  "member sample_definition ''definition'' = None \<and>
   value_at (redact_definition sample_definition) [''environment'', ''values'', ''TOKEN''] = Some redacted_text \<and>
   value_at (redact_definition sample_definition) [''target'', ''body''] = Some JNull"
  using redaction_exact[of sample_definition "''kind''" "''TOKEN''"] by (simp add: sample_definition_def)


section \<open>Documents\<close>

lemma redact_text_member_hides:
  assumes "parse s = Inr d" "parse s' = Inr d'" "redact_definition d' = redact_definition d"
  shows "redact_text_member parse print key (update_key key (\<lambda>_. JString s') v)
    = redact_text_member parse print key (update_key key (\<lambda>_. JString s) v)"
proof (cases "member v key")
  case None
  then have "update_key key f v = v" for f
    by (intro update_key_id) simp
  then show ?thesis
    by simp
next
  case (Some x)
  then show ?thesis
    using assms by (simp add: redact_text_member_def)
qed

lemma update_member_absent: "k \<notin> fst ` set ms \<Longrightarrow> update_member k f ms = ms"
  by (induction ms) auto

lemma insert_member_update:
  "sorted_wrt (<) (map fst ms) \<Longrightarrow> insert_member k v (update_member k f ms) = insert_member k v ms"
proof (induction ms)
  case (Cons p ms)
  obtain k' x where p: "p = (k', x)"
    by (cases p)
  have "update_member k f ms = ms" if "k < k'"
    using Cons.prems that by (intro update_member_absent) (auto simp: p)
  then show ?case
    using Cons by (auto simp: p)
qed simp

text \<open>C28: No document that is shown depends on a secret. The job document is the same for two
  definition texts that parse to definitions differing only in a secret; so is the observable run
  document for two snapshots; and the settings document is the same for two environments with
  the same variable names.\<close>

theorem redacted_documents_hide_secrets:
  assumes "parse s = Inr d" "parse s' = Inr d'" "hidden d d'"
    "sorted_wrt (<) (map fst settings)" "map fst env' = map fst env"
  shows "redacted_job_document parse print (update_key ''definition_json'' (\<lambda>_. JString s') job)
      = redacted_job_document parse print (update_key ''definition_json'' (\<lambda>_. JString s) job) \<and>
    redacted_observable_run_document parse print (update_key ''snapshot_json'' (\<lambda>_. JString s') run) attempts
      = redacted_observable_run_document parse print (update_key ''snapshot_json'' (\<lambda>_. JString s) run) attempts \<and>
    redacted_settings_document (update_key ''environment'' (\<lambda>_. JObject env') (JObject settings))
      = redacted_settings_document (update_key ''environment'' (\<lambda>_. JObject env) (JObject settings))"
proof -
  note same = hidden_same[OF assms(3)]
  have names: "map (\<lambda>(name, _). (name, configured_marker)) env' = map (\<lambda>(name, _). (name, configured_marker)) env"
    using arg_cong[OF assms(5), of "map (\<lambda>n. (n, configured_marker))"] by (simp add: case_prod_unfold o_def)
  show ?thesis
    using names redact_text_member_hides[OF assms(1,2) same, of print]
    by (simp add: redacted_job_document_def redacted_observable_run_document_def redacted_run_document_def
        redacted_settings_document_def Let_def map_of_update_member insert_member_update[OF assms(4)]
        split: option.splits)
qed


theorem redacted_documents_hide_secrets_witness:
  "redacted_job_document (\<lambda>s. Inr (set_path [''environment'', ''values'', ''TOKEN''] (JString s) sample_definition))
      (\<lambda>d. Inr ''printed'' :: unit + string) (update_key ''definition_json'' (\<lambda>_. JString ''b'') (JObject [(''definition_json'', JNull)]))
   = redacted_job_document (\<lambda>s. Inr (set_path [''environment'', ''values'', ''TOKEN''] (JString s) sample_definition))
      (\<lambda>d. Inr ''printed'') (update_key ''definition_json'' (\<lambda>_. JString ''a'') (JObject [(''definition_json'', JNull)]))"
proof -
  let ?parse = "\<lambda>s. Inr (set_path [''environment'', ''values'', ''TOKEN''] (JString s) sample_definition) :: unit + json"
  have "hidden (set_path [''environment'', ''values'', ''TOKEN''] (JString ''a'') sample_definition)
      (set_path [''environment'', ''values'', ''TOKEN''] (JString ''b'')
        (set_path [''environment'', ''values'', ''TOKEN''] (JString ''a'') sample_definition))"
    by (rule hidden.environment_value) (simp add: sample_definition_def)
  then have "hidden (set_path [''environment'', ''values'', ''TOKEN''] (JString ''a'') sample_definition)
      (set_path [''environment'', ''values'', ''TOKEN''] (JString ''b'') sample_definition)"
    by (simp add: sample_definition_def)
  then show ?thesis
    using redacted_documents_hide_secrets[of ?parse "''a''" _ "''b''" _ "[]" "[]" "[]" "\<lambda>d. Inr ''printed''"
        "JObject [(''definition_json'', JNull)]"] by simp
qed

end
