(* ===== verification/Daemon.thy ===== *)
theory Daemon
  imports Locron_Prelude Transition_Systems
begin

text \<open>
  The daemon of \<^verbatim>\<open>crates/locron-engine/src/daemon.rs\<close>: the loop of \<open>Daemon::run_until\<close>, the
  stages of \<open>Daemon::tick\<close>, and the task that \<open>tick\<close> spawns for every admitted attempt. The
  asynchronous code is a state machine that moves by events: the replies of the store and of
  the runner (both behind traits or in other components), timers and shutdown. A \<open>select!\<close> marked
  \<open>biased\<close> prefers shutdown, so the other branches of it are enabled only while shutdown is not
  requested. The semaphore of hard-guard permits is a counter. Durations are in nanoseconds.
\<close>


section \<open>Configuration\<close>

definition MAX_GLOBAL_CONCURRENCY :: nat where
  "MAX_GLOBAL_CONCURRENCY = 64"

record daemon_config =
  global_concurrency :: nat
  safety_reconciliation :: nat
  shutdown_drain :: nat
  pre_spawn_retry_initial :: nat
  pre_spawn_retry_cap :: nat

definition DaemonConfig_default :: daemon_config where
  "DaemonConfig_default =
     \<lparr>global_concurrency = 16, safety_reconciliation = 30 * 1000000000, shutdown_drain = 30 * 1000000000,
      pre_spawn_retry_initial = 50 * 1000000, pre_spawn_retry_cap = 1000000000\<rparr>"

datatype runner_error =
    OutputPreparationError string
  | ExecutionInfrastructure string
  | ConfigurationError string

datatype runner_failure_kind = OutputPreparation | ExecutionMayHaveStarted

fun failure_kind :: "runner_error \<Rightarrow> runner_failure_kind" where
  "failure_kind (OutputPreparationError e) = OutputPreparation"
| "failure_kind (ConfigurationError e) = OutputPreparation"
| "failure_kind (ExecutionInfrastructure e) = ExecutionMayHaveStarted"

fun runner_error_text :: "runner_error \<Rightarrow> string" where
  "runner_error_text (OutputPreparationError e) = ''output preparation error: '' @ e"
| "runner_error_text (ExecutionInfrastructure e) = ''output error after execution may have begun: '' @ e"
| "runner_error_text (ConfigurationError e) = ''configuration error: '' @ e"

datatype completion_error = Transient string | Conflict string

datatype daemon_error =
    DaemonStoreError string
  | DaemonRunnerError runner_error
  | InvalidConcurrency
  | InvalidRetryTiming

definition Daemon_new :: "daemon_config \<Rightarrow> daemon_error + daemon_config" where
  "Daemon_new config =
     (if \<not> (1 \<le> global_concurrency config \<and> global_concurrency config \<le> MAX_GLOBAL_CONCURRENCY)
      then Inl InvalidConcurrency
      else if pre_spawn_retry_initial config = 0 \<or> pre_spawn_retry_cap config < pre_spawn_retry_initial config
      then Inl InvalidRetryTiming
      else Inr config)"

text \<open>\<open>Duration::MAX\<close>: the largest number of seconds and the largest fraction.\<close>

definition duration_max :: nat where
  "duration_max = u64_max * 1000000000 + 999999999"

definition next_retry_delay :: "nat \<Rightarrow> nat \<Rightarrow> nat" where
  "next_retry_delay current cap = min (if 2 * current \<le> duration_max then 2 * current else duration_max) cap"


section \<open>The task of one attempt\<close>

text \<open>
  What a task asks the store to persist: the outcome of the target, or a failure of the
  runner; both with the completion instant that was sampled once.
\<close>

datatype 'o completion_request =
    Complete 'o int
  | RunnerFailure runner_failure_kind string int

datatype 'o task =
    Marking nat
  | MarkBackoff nat
  | Executing
  | Settling "'o completion_request" nat bool
  | SettleBackoff "'o completion_request" nat
  | FallingBack string int
  | Finished

datatype 'o task_event =
    SeeShutdown
  | MarkRunningReply "string + bool"
  | Slept
  | ExecutionReturned "runner_error + 'o" int
  | CancellationReply "string + bool"
  | CompletionReply "completion_error + unit"

datatype 'o task_action =
    Degraded string
  | ExecuteTarget
  | CancelTarget
  | Request "'o completion_request"
  | Notify
  | ReleasePermit

definition completion_request_of :: "runner_error + 'o \<Rightarrow> int \<Rightarrow> 'o completion_request" where
  "completion_request_of result completed_at_us =
     (case result of
        Inr outcome \<Rightarrow> Complete outcome completed_at_us
      | Inl e \<Rightarrow> RunnerFailure (failure_kind e) (runner_error_text e) completed_at_us)"

text \<open>The reason of the fallback after a permanent conflict.\<close>

definition conflict_reason :: "string \<Rightarrow> string" where
  "conflict_reason e = ''durable completion conflict after target outcome: '' @ e"

text \<open>
  One move of a task; \<open>None\<close> when the event cannot occur. The waiting call of a \<open>select!\<close> is
  dropped when shutdown is seen; the first completion is called outside any \<open>select!\<close>.
\<close>

definition mark_step :: "bool \<Rightarrow> nat \<Rightarrow> 'o task_event \<Rightarrow> ('o task \<times> 'o task_action list) option" where
  "mark_step shutdown delay ev =
     (case ev of
        SeeShutdown \<Rightarrow> if shutdown then Some (Finished, [ReleasePermit]) else None
      | MarkRunningReply reply \<Rightarrow>
          if shutdown then None
          else (case reply of
                  Inr True \<Rightarrow> Some (Executing, [ExecuteTarget])
                | Inr False \<Rightarrow> Some (Finished, [ReleasePermit, Notify])
                | Inl e \<Rightarrow> Some (MarkBackoff delay, [Degraded e]))
      | _ \<Rightarrow> None)"

definition backoff_step ::
    "bool \<Rightarrow> 'o task \<Rightarrow> 'o task_action list \<Rightarrow> 'o task_event \<Rightarrow> ('o task \<times> 'o task_action list) option" where
  "backoff_step shutdown resumed closing ev =
     (case ev of
        SeeShutdown \<Rightarrow> if shutdown then Some (Finished, closing) else None
      | Slept \<Rightarrow> if shutdown then None else Some (resumed, [])
      | _ \<Rightarrow> None)"

definition execute_step ::
    "daemon_config \<Rightarrow> 'o task_event \<Rightarrow> ('o task \<times> 'o task_action list) option" where
  "execute_step config ev =
     (case ev of
        ExecutionReturned result completed_at_us \<Rightarrow>
          Some (Settling (completion_request_of result completed_at_us) (pre_spawn_retry_initial config) True, [])
      | CancellationReply (Inr True) \<Rightarrow> Some (Executing, [CancelTarget])
      | CancellationReply (Inr False) \<Rightarrow> Some (Executing, [])
      | CancellationReply (Inl e) \<Rightarrow> Some (Executing, [Degraded e])
      | _ \<Rightarrow> None)"

definition settle_step ::
    "bool \<Rightarrow> 'o completion_request \<Rightarrow> nat \<Rightarrow> bool \<Rightarrow> 'o task_event \<Rightarrow> ('o task \<times> 'o task_action list) option" where
  "settle_step shutdown req delay first ev =
     (case ev of
        SeeShutdown \<Rightarrow> if shutdown \<and> \<not> first then Some (Finished, [Notify, ReleasePermit]) else None
      | CompletionReply reply \<Rightarrow>
          if shutdown \<and> \<not> first then None
          else (case reply of
                  Inr _ \<Rightarrow> Some (Finished, [Request req, Notify, ReleasePermit])
                | Inl (Conflict e) \<Rightarrow>
                    (case req of
                       Complete outcome completed_at_us \<Rightarrow>
                         Some (FallingBack (conflict_reason e) completed_at_us, [Request req])
                     | RunnerFailure kind reason completed_at_us \<Rightarrow>
                         Some (Finished, [Request req, Notify, ReleasePermit]))
                | Inl (Transient e) \<Rightarrow> Some (SettleBackoff req delay, [Request req, Degraded e]))
      | _ \<Rightarrow> None)"

text \<open>The fallback ends the task whatever the store replies.\<close>

definition fallback_step ::
    "string \<Rightarrow> int \<Rightarrow> 'o task_event \<Rightarrow> ('o task \<times> 'o task_action list) option" where
  "fallback_step reason completed_at_us ev =
     (case ev of
        CompletionReply reply \<Rightarrow>
          Some (Finished,
            [Request (RunnerFailure ExecutionMayHaveStarted reason completed_at_us), Notify, ReleasePermit])
      | _ \<Rightarrow> None)"

fun task_step ::
    "daemon_config \<Rightarrow> bool \<Rightarrow> 'o task \<Rightarrow> 'o task_event \<Rightarrow> ('o task \<times> 'o task_action list) option" where
  "task_step config shutdown (Marking delay) ev = mark_step shutdown delay ev"
| "task_step config shutdown (MarkBackoff delay) ev =
     backoff_step shutdown (Marking (next_retry_delay delay (pre_spawn_retry_cap config))) [ReleasePermit] ev"
| "task_step config shutdown Executing ev = execute_step config ev"
| "task_step config shutdown (Settling req delay first) ev = settle_step shutdown req delay first ev"
| "task_step config shutdown (SettleBackoff req delay) ev =
     backoff_step shutdown (Settling req (next_retry_delay delay (pre_spawn_retry_cap config)) False)
       [Notify, ReleasePermit] ev"
| "task_step config shutdown (FallingBack reason completed_at_us) ev = fallback_step reason completed_at_us ev"
| "task_step config shutdown Finished ev = None"


section \<open>The loop\<close>

datatype phase =
    Beginning
  | AskingDelay
  | Sleeping nat
  | Reconciling
  | Maintaining nat
  | Admitting nat nat
  | Spawning nat nat "string list"
  | Draining
  | DrainElapsed
  | Ending
  | Stopped "daemon_error option"

record 'o daemon =
  d_phase :: phase
  d_permits :: nat
  d_tasks :: "(string \<times> 'o task) list"
  d_cancelled :: bool
  d_stop :: bool
  d_log :: "(string \<times> 'o task_action) list"

datatype 'o daemon_event =
    BeginReply "string + unit"
  | RequestStop
  | SeeStop
  | DelayReply "string + nat option"
  | WaitOver
  | ReconcileReply "string + nat"
  | MaintainReply "string + unit"
  | AdmitReply "string + string list"
  | SpawnNext
  | TaskMoves nat "'o task_event"
  | DrainTimeout
  | TasksDone
  | EndReply "string + unit"

definition initial_daemon :: "'o daemon" where
  "initial_daemon = \<lparr>d_phase = Beginning, d_permits = MAX_GLOBAL_CONCURRENCY, d_tasks = [],
     d_cancelled = False, d_stop = False, d_log = []\<rparr>"

text \<open>After reconciliation and maintenance: the checks on the permits before admission.\<close>

definition after_maintenance :: "nat \<Rightarrow> nat \<Rightarrow> phase" where
  "after_maintenance reconciled available =
     (if available > MAX_GLOBAL_CONCURRENCY then AskingDelay
      else if available = 0 then AskingDelay
      else Admitting reconciled available)"

definition admission_delay :: "daemon_config \<Rightarrow> string + nat option \<Rightarrow> nat" where
  "admission_delay config reply =
     (case reply of
        Inr (Some delay) \<Rightarrow> min delay (safety_reconciliation config)
      | Inr None \<Rightarrow> safety_reconciliation config
      | Inl e \<Rightarrow> safety_reconciliation config)"

text \<open>The stages of \<open>tick\<close>; a failed tick is logged and the loop goes on.\<close>

definition tick_step :: "daemon_config \<Rightarrow> 'o daemon \<Rightarrow> 'o daemon_event \<Rightarrow> 'o daemon option" where
  "tick_step config d ev =
     (case d_phase d of
        Reconciling \<Rightarrow>
          (case ev of
             ReconcileReply (Inr count) \<Rightarrow> Some (d\<lparr>d_phase := Maintaining count\<rparr>)
           | ReconcileReply (Inl e) \<Rightarrow> Some (d\<lparr>d_phase := AskingDelay\<rparr>)
           | _ \<Rightarrow> None)
      | Maintaining count \<Rightarrow>
          (case ev of
             MaintainReply reply \<Rightarrow> Some (d\<lparr>d_phase := after_maintenance count (d_permits d)\<rparr>)
           | _ \<Rightarrow> None)
      | Admitting count available \<Rightarrow>
          (case ev of
             AdmitReply (Inr attempts) \<Rightarrow> Some (d\<lparr>d_phase := Spawning count (length attempts) attempts\<rparr>)
           | AdmitReply (Inl e) \<Rightarrow> Some (d\<lparr>d_phase := AskingDelay\<rparr>)
           | _ \<Rightarrow> None)
      | Spawning count admitted attempts \<Rightarrow>
          (case ev of
             SpawnNext \<Rightarrow>
               (case attempts of
                  [] \<Rightarrow> Some (d\<lparr>d_phase := AskingDelay\<rparr>)
                | r # rest \<Rightarrow>
                    if d_permits d = 0 then None
                    else Some (d\<lparr>d_phase := Spawning count admitted rest, d_permits := d_permits d - 1,
                                 d_tasks := d_tasks d @ [(r, Marking (pre_spawn_retry_initial config))]\<rparr>))
           | _ \<Rightarrow> None)
      | _ \<Rightarrow> None)"

text \<open>A \<open>select!\<close> that prefers shutdown: the tick in progress is dropped.\<close>

definition unless_stopped :: "'o daemon \<Rightarrow> 'o daemon_event \<Rightarrow> 'o daemon option \<Rightarrow> 'o daemon option" where
  "unless_stopped d ev other =
     (if d_stop d then (case ev of SeeStop \<Rightarrow> Some (d\<lparr>d_phase := Draining\<rparr>) | _ \<Rightarrow> None) else other)"

definition drain_step :: "'o daemon \<Rightarrow> 'o daemon_event \<Rightarrow> 'o daemon option" where
  "drain_step d ev =
     (case ev of
        TasksDone \<Rightarrow> if d_tasks d = [] then Some (d\<lparr>d_phase := Ending\<rparr>) else None
      | DrainTimeout \<Rightarrow>
          if d_phase d = Draining \<and> d_tasks d \<noteq> []
          then Some (d\<lparr>d_phase := DrainElapsed, d_cancelled := True\<rparr>) else None
      | _ \<Rightarrow> None)"

definition loop_step :: "daemon_config \<Rightarrow> 'o daemon \<Rightarrow> 'o daemon_event \<Rightarrow> 'o daemon option" where
  "loop_step config d ev =
     (case d_phase d of
        Beginning \<Rightarrow>
          (case ev of
             BeginReply (Inr _) \<Rightarrow> Some (d\<lparr>d_phase := Reconciling\<rparr>)
           | BeginReply (Inl e) \<Rightarrow> Some (d\<lparr>d_phase := Stopped (Some (DaemonStoreError e))\<rparr>)
           | _ \<Rightarrow> None)
      | AskingDelay \<Rightarrow>
          (case ev of
             DelayReply reply \<Rightarrow> Some (d\<lparr>d_phase := Sleeping (admission_delay config reply)\<rparr>)
           | _ \<Rightarrow> None)
      | Sleeping delay \<Rightarrow>
          unless_stopped d ev (case ev of WaitOver \<Rightarrow> Some (d\<lparr>d_phase := Reconciling\<rparr>) | _ \<Rightarrow> None)
      | Draining \<Rightarrow> drain_step d ev
      | DrainElapsed \<Rightarrow> drain_step d ev
      | Ending \<Rightarrow>
          (case ev of
             EndReply (Inr _) \<Rightarrow> Some (d\<lparr>d_phase := Stopped None\<rparr>)
           | EndReply (Inl e) \<Rightarrow> Some (d\<lparr>d_phase := Stopped (Some (DaemonStoreError e))\<rparr>)
           | _ \<Rightarrow> None)
      | Stopped result \<Rightarrow> None
      | _ \<Rightarrow> unless_stopped d ev (tick_step config d ev))"

definition task_moves :: "daemon_config \<Rightarrow> 'o daemon \<Rightarrow> nat \<Rightarrow> 'o task_event \<Rightarrow> 'o daemon option" where
  "task_moves config d i ev =
     (if i \<ge> length (d_tasks d) then None
      else let (r, t) = d_tasks d ! i in
        case task_step config (d_cancelled d) t ev of
          None \<Rightarrow> None
        | Some (t', actions) \<Rightarrow>
            let d' = d\<lparr>d_log := d_log d @ map (\<lambda>a. (r, a)) actions\<rparr>
            in if t' = Finished
               then Some (d'\<lparr>d_tasks := take i (d_tasks d) @ drop (Suc i) (d_tasks d),
                             d_permits := Suc (d_permits d)\<rparr>)
               else Some (d'\<lparr>d_tasks := (d_tasks d)[i := (r, t')]\<rparr>))"

definition daemon_step :: "daemon_config \<Rightarrow> 'o daemon \<Rightarrow> 'o daemon_event \<Rightarrow> 'o daemon option" where
  "daemon_step config d ev =
     (case ev of
        RequestStop \<Rightarrow> Some (d\<lparr>d_stop := True\<rparr>)
      | TaskMoves i tev \<Rightarrow> task_moves config d i tev
      | _ \<Rightarrow> loop_step config d ev)"

end
