(* ===== verification/Daemon_Guarantees.thy ===== *)
theory Daemon_Guarantees
  imports Daemon
begin

text \<open>
  Guarantees of the daemon. Each attempt follows a protocol: it is executed at most once and only
  after its durable start, everything it asks the store to persist is the same request with the
  same instant (or the fallback after a conflict), and its permit is returned exactly once. The
  permits and the live attempts always add up to the hard guard, the lifetime ends only when
  no attempt is live, and after the drain window every attempt ends within four moves.
\<close>


section \<open>The protocol of an attempt\<close>

fun task_run ::
    "daemon_config \<Rightarrow> 'o task \<Rightarrow> (bool \<times> 'o task_event) list \<Rightarrow> ('o task \<times> 'o task_action list) option" where
  "task_run config t [] = Some (t, [])"
| "task_run config t ((shutdown, ev) # evs) =
     (case task_step config shutdown t ev of
        None \<Rightarrow> None
      | Some (t', actions) \<Rightarrow> map_option (\<lambda>(t'', rest). (t'', actions @ rest)) (task_run config t' evs))"

definition requests :: "'o task_action list \<Rightarrow> 'o completion_request list" where
  "requests actions = List.map_filter (\<lambda>a. case a of Request q \<Rightarrow> Some q | _ \<Rightarrow> None) actions"

abbreviation executions :: "'o task_action list \<Rightarrow> nat" where
  "executions actions \<equiv> count_list actions ExecuteTarget"

abbreviation releases :: "'o task_action list \<Rightarrow> nat" where
  "releases actions \<equiv> count_list actions ReleasePermit"

text \<open>The requests of an attempt: repetitions of one request, then at most the fallback.\<close>

definition repeats :: "'o completion_request \<Rightarrow> 'o completion_request list \<Rightarrow> bool" where
  "repeats req qs \<longleftrightarrow> (\<forall>q\<in>set qs. q = req)"

definition consistent :: "'o completion_request list \<Rightarrow> bool" where
  "consistent qs \<longleftrightarrow>
     (\<exists>req. repeats req qs \<or>
        (\<exists>outcome at' e qs'. req = Complete outcome at' \<and> repeats req qs' \<and>
           qs = qs' @ [RunnerFailure ExecutionMayHaveStarted (conflict_reason e) at']))"

fun on_track :: "'o task \<Rightarrow> 'o task_action list \<Rightarrow> bool" where
  "on_track (Marking d) acts \<longleftrightarrow> executions acts = 0 \<and> requests acts = [] \<and> releases acts = 0"
| "on_track (MarkBackoff d) acts \<longleftrightarrow> executions acts = 0 \<and> requests acts = [] \<and> releases acts = 0"
| "on_track Executing acts \<longleftrightarrow> executions acts = 1 \<and> requests acts = [] \<and> releases acts = 0"
| "on_track (Settling req d first) acts \<longleftrightarrow>
     executions acts = 1 \<and> releases acts = 0 \<and> repeats req (requests acts) \<and> (first \<or> requests acts \<noteq> [])"
| "on_track (SettleBackoff req d) acts \<longleftrightarrow>
     executions acts = 1 \<and> releases acts = 0 \<and> repeats req (requests acts) \<and> requests acts \<noteq> []"
| "on_track (FallingBack reason at') acts \<longleftrightarrow>
     executions acts = 1 \<and> releases acts = 0 \<and> requests acts \<noteq> [] \<and>
     (\<exists>outcome e. repeats (Complete outcome at') (requests acts) \<and> reason = conflict_reason e)"
| "on_track Finished acts \<longleftrightarrow>
     releases acts = 1 \<and> consistent (requests acts) \<and>
     (executions acts = 0 \<and> requests acts = [] \<or> executions acts = 1 \<and> requests acts \<noteq> [])"

lemma requests_simps [simp]:
  "requests [] = []" "requests (a @ b) = requests a @ requests b"
  "requests (Request q # acts) = q # requests acts" "requests (ExecuteTarget # acts) = requests acts"
  "requests (CancelTarget # acts) = requests acts" "requests (Notify # acts) = requests acts"
  "requests (ReleasePermit # acts) = requests acts" "requests (Degraded e # acts) = requests acts"
  by (simp_all add: requests_def List.map_filter_def)

lemma repeats_simps [simp]:
  "repeats req []" "repeats req (qs @ [q]) \<longleftrightarrow> repeats req qs \<and> q = req"
  by (auto simp: repeats_def)

lemma repeats_consistent [intro]: "repeats req qs \<Longrightarrow> consistent qs"
  by (auto simp: consistent_def)

lemma consistent_Nil [simp]: "consistent []"
  by (auto simp: consistent_def)

lemmas task_steps = mark_step_def backoff_step_def execute_step_def settle_step_def fallback_step_def

lemma on_track_step:
  assumes "on_track t acts" "task_step config shutdown t ev = Some (t', new)"
  shows "on_track t' (acts @ new)"
proof (cases t)
  case (Settling req d first)
  have "consistent (requests acts @ [req])" "consistent (requests acts)"
    using assms(1) Settling by (auto intro!: repeats_consistent[of req])
  then show ?thesis
    using assms Settling
    by (auto simp: settle_step_def
        split: task_event.splits if_splits sum.splits completion_error.splits completion_request.splits)
next
  case (SettleBackoff req d)
  then have "consistent (requests acts)"
    using assms(1) by auto
  then show ?thesis
    using assms SettleBackoff by (auto simp: backoff_step_def split: task_event.splits if_splits)
next
  case (FallingBack reason at')
  then obtain outcome e where "repeats (Complete outcome at') (requests acts)" "reason = conflict_reason e"
    using assms(1) by auto
  then have "consistent (requests acts @ [RunnerFailure ExecutionMayHaveStarted reason at'])"
    unfolding consistent_def by auto
  then show ?thesis
    using assms FallingBack by (auto simp: fallback_step_def split: task_event.splits)
qed (use assms in \<open>auto simp: task_steps split: task_event.splits if_splits sum.splits bool.splits\<close>)

lemma on_track_run:
  "task_run config t evs = Some (t', new) \<Longrightarrow> on_track t acts \<Longrightarrow> on_track t' (acts @ new)"
proof (induction config t evs arbitrary: acts new rule: task_run.induct)
  case (2 config t shutdown ev evs)
  then obtain t1 a1 rest where step: "task_step config shutdown t ev = Some (t1, a1)"
    "task_run config t1 evs = Some (t', rest)" "new = a1 @ rest"
    by (auto split: option.splits prod.splits)
  then show ?case
    using 2(1)[OF step(1) refl step(2), of "acts @ a1"] on_track_step[OF 2(3) step(1)] by simp
qed simp

text \<open>C18: The protocol of an attempt. Whatever the store, the runner, the timers and shutdown do, a
  spawned attempt executes its target at most once; everything it asks the store to persist is
  one request with one completion instant, repeated, followed at most by the fallback of a
  completion conflict with the same instant; nothing is persisted for a target that was not
  executed, and a task ends after executing its target only when it has asked at least once.
  Its permit is returned exactly when it ends.\<close>

theorem attempt_protocol:
  assumes "task_run config (Marking delay) evs = Some (t, actions)"
  shows "executions actions \<le> 1 \<and> consistent (requests actions) \<and>
    (requests actions \<noteq> [] \<longrightarrow> executions actions = 1) \<and>
    (t = Finished \<and> executions actions = 1 \<longrightarrow> requests actions \<noteq> []) \<and>
    releases actions = (if t = Finished then 1 else 0)"
proof -
  have "on_track t actions"
    using on_track_run[OF assms, of "[]"] by simp
  then show ?thesis
    by (cases t) auto
qed

definition sample_config :: daemon_config where
  "sample_config = DaemonConfig_default"

definition sample_events :: "(bool \<times> nat task_event) list" where
  "sample_events = [(False, MarkRunningReply (Inl ''busy'')), (False, Slept), (False, MarkRunningReply (Inr True)),
     (False, CancellationReply (Inr False)), (False, ExecutionReturned (Inr 7) 1000),
     (False, CompletionReply (Inl (Transient ''busy''))), (False, Slept), (False, CompletionReply (Inr ()))]"

theorem attempt_protocol_witness:
  "\<exists>actions. task_run sample_config (Marking 50000000) sample_events = Some (Finished, actions) \<and>
     requests actions = [Complete 7 1000, Complete 7 1000] \<and> executions actions \<le> 1 \<and> releases actions = 1"
proof -
  let ?actions = "[Degraded ''busy'', ExecuteTarget, Request (Complete 7 1000), Degraded ''busy'',
    Request (Complete 7 1000), Notify, ReleasePermit]"
  have run: "task_run sample_config (Marking 50000000) sample_events = Some (Finished, ?actions)"
    by (simp add: sample_events_def sample_config_def task_steps completion_request_of_def)
  show ?thesis
    using attempt_protocol[OF run] run by simp
qed


section \<open>Permits and the end of the lifetime\<close>

definition daemon_moves :: "daemon_config \<Rightarrow> 'o daemon \<Rightarrow> 'o daemon \<Rightarrow> bool" where
  "daemon_moves config d d' \<longleftrightarrow> (\<exists>ev. daemon_step config d ev = Some d')"

fun task_delay :: "'o task \<Rightarrow> nat option" where
  "task_delay (Marking d) = Some d"
| "task_delay (MarkBackoff d) = Some d"
| "task_delay (Settling req d first) = Some d"
| "task_delay (SettleBackoff req d) = Some d"
| "task_delay _ = None"

definition paced :: "daemon_config \<Rightarrow> 'o task \<Rightarrow> bool" where
  "paced config t \<longleftrightarrow>
     (case task_delay t of
        Some d \<Rightarrow> pre_spawn_retry_initial config \<le> d \<and> d \<le> pre_spawn_retry_cap config
      | None \<Rightarrow> True)"

text \<open>A configuration that \<open>Daemon::new\<close> accepts, with durations that exist.\<close>

definition sound_config :: "daemon_config \<Rightarrow> bool" where
  "sound_config config \<longleftrightarrow> Daemon_new config = Inr config \<and> pre_spawn_retry_cap config \<le> duration_max"

definition daemon_inv :: "daemon_config \<Rightarrow> 'o daemon \<Rightarrow> bool" where
  "daemon_inv config d \<longleftrightarrow>
     d_permits d + length (d_tasks d) = MAX_GLOBAL_CONCURRENCY \<and>
     (\<forall>(r, t)\<in>set (d_tasks d). t \<noteq> Finished \<and> (sound_config config \<longrightarrow> paced config t)) \<and>
     (case d_phase d of
        Beginning \<Rightarrow> d_tasks d = [] | Ending \<Rightarrow> d_tasks d = [] | Stopped _ \<Rightarrow> d_tasks d = []
      | Admitting count available \<Rightarrow> 0 < available \<and> available \<le> d_permits d
      | _ \<Rightarrow> True) \<and>
     (d_cancelled d \<longrightarrow> (case d_phase d of DrainElapsed \<Rightarrow> True | Ending \<Rightarrow> True | Stopped _ \<Rightarrow> True | _ \<Rightarrow> False))"

lemma sound_configD:
  "sound_config config \<Longrightarrow> 0 < pre_spawn_retry_initial config \<and>
    pre_spawn_retry_initial config \<le> pre_spawn_retry_cap config \<and> pre_spawn_retry_cap config \<le> duration_max"
  by (auto simp: sound_config_def Daemon_new_def split: if_splits)

lemma next_retry_delay_paced:
  "a \<le> d \<Longrightarrow> d \<le> c \<Longrightarrow> c \<le> duration_max \<Longrightarrow> a \<le> next_retry_delay d c \<and> next_retry_delay d c \<le> c"
  by (auto simp: next_retry_delay_def min_def)

lemma task_step_paced:
  assumes "paced config t" "sound_config config" "task_step config shutdown t ev = Some (t', actions)"
  shows "paced config t'"
proof (cases t)
  case (MarkBackoff d)
  then show ?thesis
    using assms sound_configD[OF assms(2)]
      next_retry_delay_paced[of "pre_spawn_retry_initial config" d "pre_spawn_retry_cap config"]
    by (auto simp: paced_def backoff_step_def split: task_event.splits if_splits)
next
  case (SettleBackoff req d)
  then show ?thesis
    using assms sound_configD[OF assms(2)]
      next_retry_delay_paced[of "pre_spawn_retry_initial config" d "pre_spawn_retry_cap config"]
    by (auto simp: paced_def backoff_step_def split: task_event.splits if_splits)
next
  case (Settling req d first)
  then show ?thesis
    using assms by (auto simp: paced_def settle_step_def
        split: task_event.splits if_splits sum.splits completion_error.splits completion_request.splits)
qed (use assms sound_configD[OF assms(2)] in \<open>auto simp: paced_def task_steps
      split: task_event.splits if_splits sum.splits bool.splits\<close>)

lemma task_moves_inv:
  assumes "daemon_inv config d" "task_moves config d i ev = Some d'"
  shows "daemon_inv config d'"
proof -
  have i: "i < length (d_tasks d)"
    using assms(2) by (auto simp: task_moves_def split: if_splits)
  obtain r t where t: "d_tasks d ! i = (r, t)"
    by force
  obtain t' actions where step: "task_step config (d_cancelled d) t ev = Some (t', actions)"
    using assms(2) i t by (auto simp: task_moves_def split: option.splits)
  have old: "(r, t) \<in> set (d_tasks d)"
    using i t by (metis nth_mem)
  then have paced: "sound_config config \<longrightarrow> paced config t'"
    using assms(1) task_step_paced[OF _ _ step] by (auto simp: daemon_inv_def)
  have rest: "set (take i (d_tasks d) @ drop (Suc i) (d_tasks d)) \<subseteq> set (d_tasks d)"
    using set_take_subset set_drop_subset by fastforce
  have nonempty: "d_tasks d \<noteq> []"
    using i by auto
  show ?thesis
  proof (cases "t' = Finished")
    case True
    then have "d' = d\<lparr>d_log := d_log d @ map (\<lambda>a. (r, a)) actions,
        d_tasks := take i (d_tasks d) @ drop (Suc i) (d_tasks d), d_permits := Suc (d_permits d)\<rparr>"
      using assms(2) i t step by (simp add: task_moves_def)
    then show ?thesis
      using assms(1) i rest nonempty unfolding daemon_inv_def by (auto split: phase.splits)
  next
    case False
    then have "d' = d\<lparr>d_log := d_log d @ map (\<lambda>a. (r, a)) actions, d_tasks := (d_tasks d)[i := (r, t')]\<rparr>"
      using assms(2) i t step by (simp add: task_moves_def)
    then show ?thesis
      using assms(1) i False paced nonempty set_update_subset_insert[of "d_tasks d" i "(r, t')"]
      unfolding daemon_inv_def by (auto split: phase.splits)
  qed
qed

lemma spawn_inv:
  assumes "daemon_inv config d" "d_phase d = Spawning count admitted (r # rest)" "d_permits d \<noteq> 0"
  shows "daemon_inv config (d\<lparr>d_phase := Spawning count admitted rest, d_permits := d_permits d - 1,
    d_tasks := d_tasks d @ [(r, Marking (pre_spawn_retry_initial config))]\<rparr>)"
  using assms sound_configD[of config] by (auto simp: daemon_inv_def paced_def)

lemma tick_step_inv:
  assumes "daemon_inv config d" "tick_step config d ev = Some d'"
  shows "daemon_inv config d'"
proof (cases "d_phase d")
  case (Spawning count admitted attempts)
  then show ?thesis
    using assms spawn_inv[OF assms(1)]
    by (cases attempts) (auto simp: tick_step_def daemon_inv_def[of _ "d\<lparr>d_phase := _\<rparr>"] daemon_inv_def[of _ d]
        split: daemon_event.splits if_splits)
next
  case (Maintaining count)
  then show ?thesis
    using assms by (auto simp: tick_step_def daemon_inv_def after_maintenance_def split: daemon_event.splits)
qed (use assms in \<open>auto simp: tick_step_def daemon_inv_def split: daemon_event.splits sum.splits\<close>)

lemma unless_stopped_inv:
  assumes "daemon_inv config d" "unless_stopped d ev other = Some d'" "\<not> d_cancelled d"
    "\<And>d''. other = Some d'' \<Longrightarrow> daemon_inv config d''"
  shows "daemon_inv config d'"
  using assms by (auto simp: unless_stopped_def daemon_inv_def split: if_splits daemon_event.splits)

lemma loop_step_inv:
  assumes "daemon_inv config d" "loop_step config d ev = Some d'"
  shows "daemon_inv config d'"
proof (cases "d_phase d")
  case (Sleeping delay)
  have "daemon_inv config d''" if "(case ev of WaitOver \<Rightarrow> Some (d\<lparr>d_phase := Reconciling\<rparr>) | _ \<Rightarrow> None) = Some d''" for d''
    using assms(1) Sleeping that by (auto simp: daemon_inv_def split: daemon_event.splits)
  then show ?thesis
    using assms Sleeping unless_stopped_inv[OF assms(1)] by (auto simp: loop_step_def daemon_inv_def[of _ d])
next
  case Draining
  then show ?thesis
    using assms by (auto simp: loop_step_def drain_step_def daemon_inv_def split: daemon_event.splits if_splits)
next
  case DrainElapsed
  then show ?thesis
    using assms by (auto simp: loop_step_def drain_step_def daemon_inv_def split: daemon_event.splits if_splits)
qed (use assms unless_stopped_inv[OF assms(1)] tick_step_inv[OF assms(1)] in
      \<open>auto simp: loop_step_def daemon_inv_def split: daemon_event.splits sum.splits\<close>)

lemma daemon_step_cases:
  assumes "daemon_step config d ev = Some d'"
  obtains (stop) "d' = d\<lparr>d_stop := True\<rparr>" | (task) i tev where "task_moves config d i tev = Some d'"
    | (loop) "loop_step config d ev = Some d'"
  using assms by (cases ev) (auto simp: daemon_step_def)

interpretation daemon_machine: transition_system "\<lambda>d. d = initial_daemon" "daemon_moves config" "daemon_inv config" for config
proof
  fix d :: "'a daemon"
  show "d = initial_daemon \<Longrightarrow> daemon_inv config d"
    by (simp add: initial_daemon_def daemon_inv_def)
next
  fix d d' :: "'a daemon"
  assume inv: "daemon_inv config d" and "daemon_moves config d d'"
  then obtain ev where "daemon_step config d ev = Some d'"
    unfolding daemon_moves_def by blast
  then show "daemon_inv config d'"
  proof (cases rule: daemon_step_cases)
    case stop
    then show ?thesis
      using inv by (cases "d_phase d") (auto simp: daemon_inv_def)
  next
    case (task i tev)
    then show ?thesis
      using inv task_moves_inv by blast
  next
    case loop
    then show ?thesis
      using inv loop_step_inv by blast
  qed
qed

text \<open>C22: The hard guard and the end of a lifetime. In every state that the daemon reaches, whatever
  the store, the attempts and the signals do, the free permits and the live attempts add up to
  64; so at most 64 targets execute at once, and the store is asked to admit at most as many
  attempts as permits are free. Live attempts wait between retries at least the configured initial and
  at most the configured maximal delay. The daemon ends the lifetime, and returns, only when no attempt
  is live.\<close>

theorem daemon_guard:
  assumes "(daemon_moves config)\<^sup>*\<^sup>* initial_daemon d" "sound_config config"
  shows "d_permits d + length (d_tasks d) = 64 \<and>
    length (filter (\<lambda>(r, t). t = Executing) (d_tasks d)) \<le> 64 \<and>
    (\<forall>count available. d_phase d = Admitting count available \<longrightarrow> available \<le> d_permits d) \<and>
    (\<forall>(r, t)\<in>set (d_tasks d). case task_delay t of
        Some w \<Rightarrow> pre_spawn_retry_initial config \<le> w \<and> w \<le> pre_spawn_retry_cap config | None \<Rightarrow> True) \<and>
    (d_phase d = Ending \<or> (\<exists>result. d_phase d = Stopped result) \<longrightarrow> d_tasks d = [])"
proof -
  have inv: "daemon_inv config d"
    using daemon_machine.reachable_inv[OF refl assms(1)] .
  have sum: "d_permits d + length (d_tasks d) = 64"
    and live: "\<forall>(r, t)\<in>set (d_tasks d). t \<noteq> Finished \<and> (sound_config config \<longrightarrow> paced config t)"
    and phase: "case d_phase d of
        Beginning \<Rightarrow> d_tasks d = [] | Ending \<Rightarrow> d_tasks d = [] | Stopped _ \<Rightarrow> d_tasks d = []
      | Admitting count available \<Rightarrow> 0 < available \<and> available \<le> d_permits d
      | _ \<Rightarrow> True"
    using inv by (simp_all add: daemon_inv_def MAX_GLOBAL_CONCURRENCY_def)
  have "length (filter (\<lambda>(r, t). t = Executing) (d_tasks d)) \<le> 64"
    using length_filter_le[of "\<lambda>(r, t). t = Executing" "d_tasks d"] sum by linarith
  moreover have "\<forall>count available. d_phase d = Admitting count available \<longrightarrow> available \<le> d_permits d"
    "d_phase d = Ending \<or> (\<exists>result. d_phase d = Stopped result) \<longrightarrow> d_tasks d = []"
    using phase by auto
  moreover have "\<forall>(r, t)\<in>set (d_tasks d). case task_delay t of
        Some w \<Rightarrow> pre_spawn_retry_initial config \<le> w \<and> w \<le> pre_spawn_retry_cap config | None \<Rightarrow> True"
    using live assms(2) by (auto simp: paced_def)
  ultimately show ?thesis
    using sum by blast
qed

text \<open>A daemon that admits two attempts.\<close>

definition busy_daemon :: "nat daemon" where
  "busy_daemon = \<lparr>d_phase = Spawning 0 2 [], d_permits = 62,
     d_tasks = [(''a'', Marking 50000000), (''b'', Marking 50000000)], d_cancelled = False, d_stop = False, d_log = []\<rparr>"

lemma busy_daemon_reachable: "(daemon_moves DaemonConfig_default)\<^sup>*\<^sup>* initial_daemon busy_daemon"
proof -
  have moves: "daemon_step DaemonConfig_default d ev = Some d' \<Longrightarrow> daemon_moves DaemonConfig_default d d'"
    for d d' :: "nat daemon" and ev
    by (auto simp: daemon_moves_def)
  let ?d = "\<lambda>ph. initial_daemon\<lparr>d_phase := ph\<rparr> :: nat daemon"
  let ?s1 = "initial_daemon\<lparr>d_phase := Spawning 0 2 [''b''], d_permits := 63, d_tasks := [(''a'', Marking 50000000)]\<rparr> :: nat daemon"
  note defs = daemon_step_def loop_step_def unless_stopped_def tick_step_def initial_daemon_def after_maintenance_def
    MAX_GLOBAL_CONCURRENCY_def DaemonConfig_default_def busy_daemon_def
  have "daemon_moves DaemonConfig_default initial_daemon (?d Reconciling)"
    by (rule moves[of _ "BeginReply (Inr ())"]) (simp add: defs)
  moreover have "daemon_moves DaemonConfig_default (?d Reconciling) (?d (Maintaining 0))"
    by (rule moves[of _ "ReconcileReply (Inr 0)"]) (simp add: defs)
  moreover have "daemon_moves DaemonConfig_default (?d (Maintaining 0)) (?d (Admitting 0 64))"
    by (rule moves[of _ "MaintainReply (Inr ())"]) (simp add: defs)
  moreover have "daemon_moves DaemonConfig_default (?d (Admitting 0 64)) (?d (Spawning 0 2 [''a'', ''b'']))"
    by (rule moves[of _ "AdmitReply (Inr [''a'', ''b''])"]) (simp add: defs)
  moreover have "daemon_moves DaemonConfig_default (?d (Spawning 0 2 [''a'', ''b''])) ?s1"
    by (rule moves[of _ SpawnNext]) (simp add: defs)
  moreover have "daemon_moves DaemonConfig_default ?s1 busy_daemon"
    by (rule moves[of _ SpawnNext]) (simp add: defs)
  ultimately show ?thesis
    by (meson rtranclp.rtrancl_refl rtranclp.rtrancl_into_rtrancl)
qed

theorem daemon_guard_witness:
  "d_permits busy_daemon + length (d_tasks busy_daemon) = 64 \<and> length (d_tasks busy_daemon) = 2"
  using daemon_guard[OF busy_daemon_reachable]
  by (simp add: sound_config_def Daemon_new_def DaemonConfig_default_def MAX_GLOBAL_CONCURRENCY_def
      duration_max_def u64_max_def) (simp add: busy_daemon_def)


section \<open>Shutdown\<close>

fun task_rank :: "'o task \<Rightarrow> nat" where
  "task_rank (Marking d) = 1"
| "task_rank (MarkBackoff d) = 1"
| "task_rank Executing = 4"
| "task_rank (Settling req d first) = (if first then 3 else 1)"
| "task_rank (SettleBackoff req d) = 1"
| "task_rank (FallingBack reason at') = 1"
| "task_rank Finished = 0"

definition poll :: "'o task_event \<Rightarrow> bool" where
  "poll ev \<longleftrightarrow> (case ev of CancellationReply _ \<Rightarrow> True | _ \<Rightarrow> False)"

lemma shutdown_rank:
  assumes "task_step config True t ev = Some (t', actions)" "\<not> poll ev"
  shows "task_rank t' < task_rank t"
  using assms
  by (cases t) (auto simp: task_steps poll_def
      split: task_event.splits if_splits sum.splits bool.splits completion_error.splits completion_request.splits)

lemma shutdown_enabled:
  assumes "t \<noteq> Finished"
  shows "\<exists>ev. \<not> poll ev \<and> task_step config True t ev \<noteq> None"
proof (cases t)
  case Executing
  then show ?thesis
    by (intro exI[of _ "ExecutionReturned (Inl (ConfigurationError [])) 0"]) (simp add: poll_def execute_step_def)
next
  case (Settling req d first)
  then show ?thesis
    by (cases first) (auto simp: poll_def settle_step_def intro: exI[of _ SeeShutdown] exI[of _ "CompletionReply (Inr ())"])
next
  case (FallingBack reason at')
  then show ?thesis
    by (intro exI[of _ "CompletionReply (Inr ())"]) (simp add: poll_def fallback_step_def)
qed (use assms in \<open>auto simp: poll_def task_steps intro: exI[of _ SeeShutdown]\<close>)

definition daemon_rank :: "'o daemon \<Rightarrow> nat" where
  "daemon_rank d = sum_list (map (\<lambda>(r, t). task_rank t) (d_tasks d))"

lemma daemon_rank_moves:
  assumes "task_moves config d i ev = Some d'" "d_cancelled d" "\<not> poll ev"
  shows "daemon_rank d' < daemon_rank d" "d_cancelled d'" "d_phase d' = d_phase d"
proof -
  have i: "i < length (d_tasks d)"
    using assms(1) by (auto simp: task_moves_def split: if_splits)
  obtain r t where t: "d_tasks d ! i = (r, t)"
    by force
  obtain t' actions where step: "task_step config True t ev = Some (t', actions)"
    using assms(1,2) i t by (auto simp: task_moves_def split: option.splits)
  have split: "d_tasks d = take i (d_tasks d) @ (r, t) # drop (Suc i) (d_tasks d)"
    using id_take_nth_drop[OF i] t by simp
  have rank: "daemon_rank d = sum_list (map (\<lambda>(r, t). task_rank t) (take i (d_tasks d))) + task_rank t
      + sum_list (map (\<lambda>(r, t). task_rank t) (drop (Suc i) (d_tasks d)))"
    unfolding daemon_rank_def by (subst split) simp
  have tasks': "d_tasks d' = take i (d_tasks d) @ drop (Suc i) (d_tasks d) \<or>
      d_tasks d' = take i (d_tasks d) @ (r, t') # drop (Suc i) (d_tasks d)"
    using assms(1,2) i t step upd_conv_take_nth_drop[OF i] by (auto simp: task_moves_def Let_def split: if_splits)
  show "daemon_rank d' < daemon_rank d"
    using tasks' shutdown_rank[OF step assms(3)] unfolding rank by (auto simp: daemon_rank_def[of d'])
  show "d_cancelled d'" "d_phase d' = d_phase d"
    using assms(1,2) i t step by (auto simp: task_moves_def Let_def split: if_splits)
qed

fun task_moves_all :: "daemon_config \<Rightarrow> 'o daemon \<Rightarrow> (nat \<times> 'o task_event) list \<Rightarrow> 'o daemon option" where
  "task_moves_all config d [] = Some d"
| "task_moves_all config d ((i, ev) # moves) =
     Option.bind (task_moves config d i ev) (\<lambda>d'. task_moves_all config d' moves)"

lemma moves_bounded:
  "task_moves_all config d moves = Some d' \<Longrightarrow> d_cancelled d \<Longrightarrow> \<forall>(i, ev)\<in>set moves. \<not> poll ev \<Longrightarrow>
   length moves + daemon_rank d' \<le> daemon_rank d \<and> d_cancelled d' \<and> d_phase d' = d_phase d"
proof (induction config d moves rule: task_moves_all.induct)
  case (2 config d i ev moves)
  then obtain d1 where d1: "task_moves config d i ev = Some d1" "task_moves_all config d1 moves = Some d'"
    by (auto simp: bind_eq_Some_conv)
  then show ?case
    using 2(1)[OF d1] 2(3,4) daemon_rank_moves[OF d1(1)] by fastforce
qed simp

lemma task_moves_all_reach: "task_moves_all config d moves = Some d' \<Longrightarrow> (daemon_moves config)\<^sup>*\<^sup>* d d'"
proof (induction config d moves rule: task_moves_all.induct)
  case (2 config d i ev moves)
  then obtain d1 where d1: "task_moves config d i ev = Some d1" "task_moves_all config d1 moves = Some d'"
    by (auto simp: bind_eq_Some_conv)
  have "daemon_moves config d d1"
    unfolding daemon_moves_def using d1(1) by (intro exI[of _ "TaskMoves i ev"]) (simp add: daemon_step_def)
  then show ?case
    using 2(1)[OF d1] by (rule converse_rtranclp_into_rtranclp)
qed simp

lemma daemon_rank_bound: "daemon_rank d \<le> 4 * length (d_tasks d)"
proof -
  have "task_rank t \<le> 4" for t :: "'a task"
    by (cases t) auto
  then have "sum_list (map (\<lambda>(r, t). task_rank t) ts) \<le> 4 * length ts" for ts :: "(string \<times> 'a task) list"
    by (induction ts) (auto simp: add_mono)
  then show ?thesis
    unfolding daemon_rank_def .
qed

text \<open>C26: Shutdown ends. Once the drain window has elapsed, the live attempts can make at most four
  moves each, apart from polls for a cancellation, however the store, the runner and the timers behave. As long as an attempt is
  live some attempt can move (for an executing one: when its target returns), and when none is
  live the daemon ends the lifetime.\<close>

theorem shutdown_ends:
  assumes "(daemon_moves config)\<^sup>*\<^sup>* initial_daemon d" "d_phase d = DrainElapsed" "d_cancelled d"
    "task_moves_all config d moves = Some d'" "\<forall>(i, ev)\<in>set moves. \<not> poll ev"
  shows "length moves \<le> 4 * length (d_tasks d) \<and>
    (d_tasks d' \<noteq> [] \<longrightarrow> (\<exists>i ev. \<not> poll ev \<and> task_moves config d' i ev \<noteq> None)) \<and>
    (d_tasks d' = [] \<longrightarrow> daemon_step config d' TasksDone = Some (d'\<lparr>d_phase := Ending\<rparr>))"
proof -
  have bounded: "length moves \<le> daemon_rank d" "d_cancelled d'" "d_phase d' = DrainElapsed"
    using moves_bounded[OF assms(4,3,5)] assms(2) by auto
  have inv: "daemon_inv config d'"
    using daemon_machine.reachable_inv[OF refl rtranclp_trans[OF assms(1) task_moves_all_reach[OF assms(4)]]] .
  have "\<exists>i ev. \<not> poll ev \<and> task_moves config d' i ev \<noteq> None" if live: "d_tasks d' \<noteq> []"
  proof -
    obtain r t rest where first: "d_tasks d' = (r, t) # rest"
      using live by (cases "d_tasks d'") auto
    then have "t \<noteq> Finished"
      using inv by (simp add: daemon_inv_def)
    then obtain ev where ev: "\<not> poll ev" "task_step config True t ev \<noteq> None"
      using shutdown_enabled by blast
    then have "task_moves config d' 0 ev \<noteq> None"
      using first bounded(2) by (auto simp: task_moves_def Let_def)
    then show ?thesis
      using ev(1) by blast
  qed
  then show ?thesis
    using bounded daemon_rank_bound[of d] by (auto simp: daemon_step_def loop_step_def drain_step_def)
qed

definition drained_daemon :: "nat daemon" where
  "drained_daemon = busy_daemon\<lparr>d_phase := DrainElapsed, d_stop := True, d_cancelled := True\<rparr>"

theorem shutdown_ends_witness:
  "(daemon_moves DaemonConfig_default)\<^sup>*\<^sup>* initial_daemon drained_daemon \<and>
   (\<exists>d'. task_moves_all DaemonConfig_default drained_daemon [(1, SeeShutdown), (0, SeeShutdown)] = Some d' \<and>
      2 \<le> 4 * length (d_tasks drained_daemon) \<and>
      daemon_step DaemonConfig_default d' TasksDone = Some (d'\<lparr>d_phase := Ending\<rparr>))"
proof -
  let ?m = "daemon_moves DaemonConfig_default :: nat daemon \<Rightarrow> _"
  let ?d1 = "busy_daemon\<lparr>d_stop := True\<rparr>" and ?d2 = "busy_daemon\<lparr>d_stop := True, d_phase := Draining\<rparr>"
  note defs = daemon_step_def loop_step_def unless_stopped_def drain_step_def drained_daemon_def busy_daemon_def
  have "?m busy_daemon ?d1"
    unfolding daemon_moves_def by (rule exI[of _ RequestStop]) (simp add: defs)
  moreover have "?m ?d1 ?d2"
    unfolding daemon_moves_def by (rule exI[of _ SeeStop]) (simp add: defs)
  moreover have "?m ?d2 drained_daemon"
    unfolding daemon_moves_def by (rule exI[of _ DrainTimeout]) (simp add: defs)
  ultimately have reach: "?m\<^sup>*\<^sup>* initial_daemon drained_daemon"
    using busy_daemon_reachable by (meson rtranclp.rtrancl_into_rtrancl)
  have "task_moves_all DaemonConfig_default drained_daemon [(1, SeeShutdown), (0, SeeShutdown)]
      = Some (drained_daemon\<lparr>d_tasks := [], d_permits := 64, d_log := [(''b'', ReleasePermit), (''a'', ReleasePermit)]\<rparr>)"
    by (simp add: task_moves_def mark_step_def drained_daemon_def busy_daemon_def)
  from shutdown_ends[OF reach _ _ this] reach this show ?thesis
    by (simp add: drained_daemon_def poll_def)
qed


section \<open>Attempts that are dropped\<close>

text \<open>
  A tick that is interrupted by shutdown while it spawns the admitted attempts drops the rest of
  them: they are durably admitted, but no task executes or settles them.
\<close>

lemma stop_drops_admitted:
  assumes "d_phase d = Spawning count admitted (r # rest)" "d_stop d"
  shows "daemon_step config d SeeStop = Some (d\<lparr>d_phase := Draining\<rparr>)"
    "daemon_step config d SpawnNext = None"
  using assms by (simp_all add: daemon_step_def loop_step_def unless_stopped_def)

text \<open>
  The fallback after a completion conflict is sent once: when the store fails transiently, the
  task ends without another attempt and without reporting the failure.
\<close>

lemma fallback_not_retried:
  "task_step config shutdown (FallingBack reason at') (CompletionReply (Inl (Transient e)))
     = task_step config shutdown (FallingBack reason at') (CompletionReply (Inr ()))"
  by (simp add: fallback_step_def)

end
