(* ===== verification/Frame_Format.thy ===== *)
theory Frame_Format
  imports Locron_Prelude "HOL-Library.Word"
begin

unbundle bit_operations_syntax

text \<open>
  The framed output files of attempts, as bytes: the little-endian integers of the frame
  header, the frames of \<^verbatim>\<open>crates/locron-store/src/output.rs\<close> and
  \<^verbatim>\<open>crates/locron-engine/src/output.rs\<close> (both crates write the same format), and the
  reference parser that the readers of both crates are compared with. The checksum comes from
  the package \<open>crc32fast\<close>: its hasher is a parameter, a record of its three functions, and the
  locale \<open>streaming_hasher\<close> states what its documentation promises, that feeding a text in
  pieces is feeding their concatenation. The bitwise definition of CRC-32 is an instance.
\<close>


section \<open>Little-endian integers\<close>

type_synonym byte = "8 word"
type_synonym u64 = "64 word"
type_synonym u32 = "32 word"

definition le_bytes :: "nat \<Rightarrow> 'a::len word \<Rightarrow> byte list" where
  "le_bytes n w = map (\<lambda>i. ucast (drop_bit (8 * i) w)) [0..<n]"

fun from_le :: "byte list \<Rightarrow> 'a::len word" where
  "from_le [] = 0"
| "from_le (b # bs) = ucast b OR push_bit 8 (from_le bs)"

text \<open>\<open>u64::to_le_bytes\<close>, \<open>u32::to_le_bytes\<close> and their inverses.\<close>

definition u64_to_le_bytes :: "u64 \<Rightarrow> byte list" where
  "u64_to_le_bytes w = le_bytes 8 w"

definition u32_to_le_bytes :: "u32 \<Rightarrow> byte list" where
  "u32_to_le_bytes w = le_bytes 4 w"

definition u64_from_le_bytes :: "byte list \<Rightarrow> u64" where
  "u64_from_le_bytes bs = from_le bs"

definition u32_from_le_bytes :: "byte list \<Rightarrow> u32" where
  "u32_from_le_bytes bs = from_le bs"

lemma length_le_bytes [simp]: "length (le_bytes n w) = n"
  by (simp add: le_bytes_def)

lemma le_bytes_Suc: "le_bytes (Suc n) w = ucast w # le_bytes n (drop_bit 8 w)"
proof -
  have shift: "map f [Suc 0..<Suc n] = map (\<lambda>i. f (Suc i)) [0..<n]" for f :: "nat \<Rightarrow> byte"
    by (simp only: map_Suc_upt[symmetric] list.map_comp o_def)
  show ?thesis
    unfolding le_bytes_def upt_conv_Cons[OF zero_less_Suc] list.map shift
    by (simp add: algebra_simps)
qed

lemma from_le_bytes: "from_le (le_bytes n w) = take_bit (8 * n) w"
proof (induction n arbitrary: w)
  case 0
  then show ?case by (simp add: le_bytes_def)
next
  case (Suc n)
  show ?case
    unfolding le_bytes_Suc from_le.simps Suc.IH
    by (rule bit_eqI)
      (auto simp: bit_simps bit_push_bit_iff bit_take_bit_iff bit_drop_bit_eq)
qed

lemma le_from_bytes: "8 * length bs \<le> LENGTH('a) \<Longrightarrow> le_bytes (length bs) (from_le bs :: 'a::len word) = bs"
proof (induction bs)
  case Nil
  then show ?case by (simp add: le_bytes_def)
next
  case (Cons b bs)
  let ?w = "from_le bs :: 'a word"
  have low: "(ucast (ucast b OR push_bit 8 ?w :: 'a word) :: byte) = b"
    by (rule bit_eqI) (use Cons.prems in \<open>auto simp: bit_simps bit_push_bit_iff\<close>)
  have small: "n < 8 * length bs" if "bit ?w n" for n
  proof -
    have "?w = from_le (le_bytes (length bs) ?w)"
      using Cons by simp
    then have "?w = take_bit (8 * length bs) ?w"
      by (simp only: from_le_bytes)
    then show ?thesis
      using that by (metis bit_take_bit_iff)
  qed
  have byte_end: "\<not> bit b (8 + n)" for n
    using bit_imp_le_length[of b "8 + n"] by auto
  have high: "drop_bit 8 (ucast b OR push_bit 8 ?w :: 'a word) = ?w"
    by (rule bit_eqI) (use Cons.prems byte_end in \<open>auto simp: bit_simps bit_push_bit_iff bit_drop_bit_eq dest: small\<close>)
  show ?case
    using Cons low high by (simp add: le_bytes_Suc)
qed

lemma u64_le_roundtrip [simp]: "u64_from_le_bytes (u64_to_le_bytes w) = w"
  by (simp add: u64_from_le_bytes_def u64_to_le_bytes_def from_le_bytes take_bit_word_eq_self)

lemma u32_le_roundtrip [simp]: "u32_from_le_bytes (u32_to_le_bytes w) = w"
  by (simp add: u32_from_le_bytes_def u32_to_le_bytes_def from_le_bytes take_bit_word_eq_self)

lemma u64_bytes_roundtrip: "length bs = 8 \<Longrightarrow> u64_to_le_bytes (u64_from_le_bytes bs) = bs"
  using le_from_bytes[of bs, where 'a = 64] by (simp add: u64_from_le_bytes_def u64_to_le_bytes_def)

lemma u32_bytes_roundtrip: "length bs = 4 \<Longrightarrow> u32_to_le_bytes (u32_from_le_bytes bs) = bs"
  using le_from_bytes[of bs, where 'a = 32] by (simp add: u32_from_le_bytes_def u32_to_le_bytes_def)

lemma length_to_le_bytes [simp]:
  "length (u64_to_le_bytes w) = 8" "length (u32_to_le_bytes v) = 4"
  by (simp_all add: u64_to_le_bytes_def u32_to_le_bytes_def)


section \<open>The checksum\<close>

text \<open>The functions \<open>Hasher::new\<close>, \<open>update\<close> and \<open>finalize\<close> of \<open>crc32fast\<close>.\<close>

record 'h hasher =
  hash_new :: 'h
  hash_update :: "'h \<Rightarrow> byte list \<Rightarrow> 'h"
  hash_finalize :: "'h \<Rightarrow> u32"

locale streaming_hasher =
  fixes H :: "'h hasher"
  assumes update_append: "hash_update H (hash_update H h a) b = hash_update H h (a @ b)"

text \<open>The reflected CRC-32 with polynomial \<open>0xEDB88320\<close>, one bit at a time.\<close>

definition crc32_bit :: "u32 \<Rightarrow> u32" where
  "crc32_bit c = (if bit c 0 then drop_bit 1 c XOR 0xEDB88320 else drop_bit 1 c)"

definition crc32_byte :: "u32 \<Rightarrow> byte \<Rightarrow> u32" where
  "crc32_byte c b = (crc32_bit ^^ 8) (c XOR ucast b)"

definition crc32 :: "u32 hasher" where
  "crc32 = \<lparr>hash_new = 0xFFFFFFFF, hash_update = foldl crc32_byte, hash_finalize = (\<lambda>c. NOT c)\<rparr>"

interpretation crc32: streaming_hasher crc32
  by unfold_locales (simp add: crc32_def)


section \<open>Frames\<close>

datatype frame_channel = Stdout | Stderr | Body

record frame =
  fr_channel :: frame_channel
  fr_sequence :: u64
  fr_elapsed_us :: u64
  fr_payload :: "byte list"

definition FRAME_HEADER_LEN :: nat where
  "FRAME_HEADER_LEN = 25"

definition MAX_FRAME_PAYLOAD :: nat where
  "MAX_FRAME_PAYLOAD = 1024 * 1024"

definition MAGIC :: "byte list" where
  "MAGIC = [76, 79, 67, 82, 79, 78, 0, 1]"

fun channel_code :: "frame_channel \<Rightarrow> byte" where
  "channel_code Stdout = 1"
| "channel_code Stderr = 2"
| "channel_code Body = 3"

definition decode_channel :: "byte \<Rightarrow> frame_channel option" where
  "decode_channel b =
     (if b = 1 then Some Stdout else if b = 2 then Some Stderr else if b = 3 then Some Body else None)"

text \<open>The 21 bytes of the header that the checksum covers.\<close>

definition frame_head :: "frame_channel \<Rightarrow> u64 \<Rightarrow> u64 \<Rightarrow> u32 \<Rightarrow> byte list" where
  "frame_head ch sq elapsed len =
     [channel_code ch] @ u64_to_le_bytes sq @ u64_to_le_bytes elapsed @ u32_to_le_bytes len"

definition checksum :: "'h hasher \<Rightarrow> byte list \<Rightarrow> byte list \<Rightarrow> u32" where
  "checksum H head payload = hash_finalize H (hash_update H (hash_update H (hash_new H) head) payload)"

definition encode_frame :: "'h hasher \<Rightarrow> frame \<Rightarrow> byte list" where
  "encode_frame H fr =
     (let head = frame_head (fr_channel fr) (fr_sequence fr) (fr_elapsed_us fr)
                   (of_nat (length (fr_payload fr)))
      in head @ u32_to_le_bytes (checksum H head (fr_payload fr)) @ fr_payload fr)"

definition encode_frames :: "'h hasher \<Rightarrow> frame list \<Rightarrow> byte list" where
  "encode_frames H frs = concat (map (encode_frame H) frs)"

definition frame_size :: "frame \<Rightarrow> nat" where
  "frame_size fr = FRAME_HEADER_LEN + length (fr_payload fr)"

definition valid_frame :: "u64 \<Rightarrow> frame \<Rightarrow> bool" where
  "valid_frame n fr \<longleftrightarrow> fr_sequence fr = n \<and> length (fr_payload fr) \<le> MAX_FRAME_PAYLOAD"

fun numbered :: "u64 \<Rightarrow> frame list \<Rightarrow> bool" where
  "numbered n [] \<longleftrightarrow> True"
| "numbered n (fr # frs) \<longleftrightarrow> valid_frame n fr \<and> numbered (n + 1) frs"

text \<open>The frames that lie completely within the first \<open>k\<close> bytes.\<close>

fun complete_frames :: "nat \<Rightarrow> frame list \<Rightarrow> frame list" where
  "complete_frames k [] = []"
| "complete_frames k (fr # frs) =
     (if frame_size fr \<le> k then fr # complete_frames (k - frame_size fr) frs else [])"

lemma decode_channel_code [simp]: "decode_channel (channel_code c) = Some c"
  by (cases c) (simp_all add: decode_channel_def)

lemma decode_channel_Some: "decode_channel b = Some c \<longleftrightarrow> b = channel_code c"
  by (cases c) (auto simp: decode_channel_def)

lemma length_frame_head [simp]: "length (frame_head ch sq e l) = 21"
  by (simp add: frame_head_def)

lemma length_encode_frame [simp]: "length (encode_frame H fr) = frame_size fr"
  by (simp add: encode_frame_def frame_size_def FRAME_HEADER_LEN_def Let_def)

lemma length_encode_frames: "length (encode_frames H frs) = sum_list (map frame_size frs)"
  by (induction frs) (simp_all add: encode_frames_def)

lemma encode_frames_simps [simp]:
  "encode_frames H [] = []"
  "encode_frames H (fr # frs) = encode_frame H fr @ encode_frames H frs"
  "encode_frames H (frs @ frs') = encode_frames H frs @ encode_frames H frs'"
  by (simp_all add: encode_frames_def)

lemma numbered_append [simp]:
  "numbered n (frs @ frs') \<longleftrightarrow> numbered n frs \<and> numbered (n + of_nat (length frs)) frs'"
  by (induction frs arbitrary: n) (simp_all add: algebra_simps)


section \<open>The reference parser\<close>

definition parse_frame :: "'h hasher \<Rightarrow> u64 \<Rightarrow> byte list \<Rightarrow> (frame \<times> byte list) option" where
  "parse_frame H n bs =
     (if length bs < FRAME_HEADER_LEN then None
      else let header = take 25 bs; rest = drop 25 bs;
               sq = u64_from_le_bytes (take 8 (drop 1 header));
               elapsed = u64_from_le_bytes (take 8 (drop 9 header));
               len = unat (u32_from_le_bytes (take 4 (drop 17 header)));
               expected = u32_from_le_bytes (take 4 (drop 21 header))
           in case decode_channel (header ! 0) of
                None \<Rightarrow> None
              | Some ch \<Rightarrow>
                  if len \<le> MAX_FRAME_PAYLOAD \<and> sq = n \<and> len \<le> length rest \<and>
                     checksum H (take 21 header) (take len rest) = expected
                  then Some (\<lparr>fr_channel = ch, fr_sequence = sq, fr_elapsed_us = elapsed,
                              fr_payload = take len rest\<rparr>, drop len rest)
                  else None)"

lemma unat_payload_length: "k \<le> MAX_FRAME_PAYLOAD \<Longrightarrow> unat (of_nat k :: u32) = k"
  by (simp add: unat_of_nat take_bit_nat_eq_self MAX_FRAME_PAYLOAD_def)

lemma parse_encoded:
  assumes "valid_frame n fr"
  shows "parse_frame H n (encode_frame H fr @ rest) = Some (fr, rest)"
proof -
  define head where "head = frame_head (fr_channel fr) (fr_sequence fr) (fr_elapsed_us fr)
    (of_nat (length (fr_payload fr)))"
  define c where "c = u32_to_le_bytes (checksum H head (fr_payload fr))"
  have bs: "encode_frame H fr @ rest = head @ c @ fr_payload fr @ rest"
    by (simp add: encode_frame_def head_def c_def Let_def)
  have len: "length head = 21" "length c = 4"
    by (simp_all add: head_def c_def)
  have parts: "head ! 0 = channel_code (fr_channel fr)"
    "take 8 (drop 1 head) = u64_to_le_bytes (fr_sequence fr)"
    "take 8 (drop 9 head) = u64_to_le_bytes (fr_elapsed_us fr)"
    "take 4 (drop 17 head) = u32_to_le_bytes (of_nat (length (fr_payload fr)))"
    by (simp_all add: head_def frame_head_def)
  have payload: "unat (of_nat (length (fr_payload fr)) :: u32) = length (fr_payload fr)"
    using assms by (simp add: unat_payload_length valid_frame_def)
  show ?thesis
    unfolding bs parse_frame_def Let_def
    using assms len parts payload
    by (simp add: nth_append c_def FRAME_HEADER_LEN_def valid_frame_def)
qed

lemma parse_frame_Some:
  assumes "parse_frame H n bs = Some (fr, rest)"
  shows "bs = encode_frame H fr @ rest \<and> valid_frame n fr"
proof -
  define header where "header = take 25 bs"
  define sq where "sq = take 8 (drop 1 header)"
  define elapsed where "elapsed = take 8 (drop 9 header)"
  define len where "len = take 4 (drop 17 header)"
  define c where "c = take 4 (drop 21 header)"
  let ?len = "unat (u32_from_le_bytes len)"
  have long: "length bs \<ge> 25"
    using assms by (simp add: parse_frame_def FRAME_HEADER_LEN_def split: if_splits)
  then have lengths: "length header = 25" "length sq = 8" "length elapsed = 8" "length len = 4" "length c = 4"
    by (simp_all add: header_def sq_def elapsed_def len_def c_def)
  obtain ch where ch: "decode_channel (header ! 0) = Some ch"
    and ok: "?len \<le> MAX_FRAME_PAYLOAD" "u64_from_le_bytes sq = n" "?len \<le> length (drop 25 bs)"
      "checksum H (take 21 header) (take ?len (drop 25 bs)) = u32_from_le_bytes c"
    and fr: "fr = \<lparr>fr_channel = ch, fr_sequence = u64_from_le_bytes sq,
        fr_elapsed_us = u64_from_le_bytes elapsed, fr_payload = take ?len (drop 25 bs)\<rparr>"
    and rest: "rest = drop ?len (drop 25 bs)"
    using assms unfolding parse_frame_def Let_def header_def[symmetric] sq_def[symmetric]
      elapsed_def[symmetric] len_def[symmetric] c_def[symmetric]
    by (auto split: if_splits option.splits)
  have pieces: "header = [header ! 0] @ sq @ elapsed @ len @ c"
    using lengths(1) by (intro nth_equalityI)
      (auto simp: sq_def elapsed_def len_def c_def nth_append nth_Cons' not_less)
  have head21: "take 21 header = [header ! 0] @ sq @ elapsed @ len"
    by (subst pieces) (use lengths in simp)
  have plen: "length (fr_payload fr) = ?len"
    using ok(3) by (simp add: fr)
  then have head: "frame_head (fr_channel fr) (fr_sequence fr) (fr_elapsed_us fr)
      (of_nat (length (fr_payload fr))) = take 21 header"
    using ch lengths unfolding plen
    by (simp add: frame_head_def fr head21 decode_channel_Some u64_bytes_roundtrip u32_bytes_roundtrip)
  have "encode_frame H fr @ rest = take 21 header @ c @ take ?len (drop 25 bs) @ rest"
    unfolding encode_frame_def Let_def head using ok(4) lengths
    by (simp add: fr u32_bytes_roundtrip)
  also have "\<dots> = header @ drop 25 bs"
    unfolding rest by (subst (2) pieces) (simp add: head21 append_take_drop_id del: drop_drop)
  also have "\<dots> = bs"
    by (simp add: header_def)
  finally show ?thesis
    using ok plen by (simp add: valid_frame_def fr)
qed

lemma parse_frame_iff:
  "parse_frame H n bs = Some (fr, rest) \<longleftrightarrow> bs = encode_frame H fr @ rest \<and> valid_frame n fr"
  using parse_frame_Some parse_encoded by metis

lemma parse_frame_shorter: "parse_frame H n bs = Some (fr, rest) \<Longrightarrow> length rest < length bs"
  by (auto simp: parse_frame_iff frame_size_def FRAME_HEADER_LEN_def)

function parse_frames :: "'h hasher \<Rightarrow> u64 \<Rightarrow> byte list \<Rightarrow> frame list" where
  "parse_frames H n bs =
     (case parse_frame H n bs of
        None \<Rightarrow> []
      | Some (fr, rest) \<Rightarrow> fr # parse_frames H (n + 1) rest)"
  by pat_completeness auto
termination
  by (relation "measure (\<lambda>(H, n, bs). length bs)") (auto dest: parse_frame_shorter)

declare parse_frames.simps [simp del]

lemma parse_frames_None: "parse_frame H n bs = None \<Longrightarrow> parse_frames H n bs = []"
  by (subst parse_frames.simps) simp

lemma parse_frames_encoded:
  "numbered n frs \<Longrightarrow>
   parse_frames H n (encode_frames H frs @ tail) = frs @ parse_frames H (n + of_nat (length frs)) tail"
proof (induction frs arbitrary: n)
  case (Cons fr frs)
  then show ?case
    by (subst parse_frames.simps) (simp add: parse_encoded algebra_simps)
qed simp

lemma parse_frames_split:
  "\<exists>rest. bs = encode_frames H (parse_frames H n bs) @ rest \<and>
     numbered n (parse_frames H n bs) \<and>
     parse_frame H (n + of_nat (length (parse_frames H n bs))) rest = None"
proof (induction H n bs rule: parse_frames.induct)
  case (1 H n bs)
  show ?case
  proof (cases "parse_frame H n bs")
    case None
    then show ?thesis
      by (simp add: parse_frames_None)
  next
    case (Some p)
    obtain fr rest where p: "p = (fr, rest)"
      by force
    from Some p have unfold: "parse_frames H n bs = fr # parse_frames H (n + 1) rest"
      by (subst parse_frames.simps) simp
    from 1[OF Some p[symmetric]] obtain rest' where
      "rest = encode_frames H (parse_frames H (n + 1) rest) @ rest'"
      "numbered (n + 1) (parse_frames H (n + 1) rest)"
      "parse_frame H (n + 1 + of_nat (length (parse_frames H (n + 1) rest))) rest' = None"
      by blast
    then show ?thesis
      using Some p parse_frame_iff[of H n bs fr rest] unfolding unfold
      by (intro exI[of _ rest']) (simp add: algebra_simps)
  qed
qed

text \<open>No strict prefix of a frame is a frame.\<close>

lemma parse_frame_cut:
  assumes "valid_frame n fr" "k < frame_size fr"
  shows "parse_frame H n (take k (encode_frame H fr)) = None"
proof (rule ccontr)
  assume "parse_frame H n (take k (encode_frame H fr)) \<noteq> None"
  then obtain fr' rest where "parse_frame H n (take k (encode_frame H fr)) = Some (fr', rest)"
    by auto
  then have cut: "take k (encode_frame H fr) = encode_frame H fr' @ rest" "valid_frame n fr'"
    by (simp_all add: parse_frame_iff)
  let ?tail = "drop k (encode_frame H fr)"
  have "encode_frame H fr = encode_frame H fr' @ rest @ ?tail"
    using cut(1) by (metis append.assoc append_take_drop_id)
  then have "Some (fr, []) = Some (fr', rest @ ?tail)"
    using parse_encoded[OF assms(1), of H "[]"] parse_encoded[OF cut(2), of H "rest @ ?tail"] by simp
  then show False
    using assms(2) by simp
qed

lemma complete_frames_prefix: "complete_frames k frs = take (length (complete_frames k frs)) frs"
  by (induction k frs rule: complete_frames.induct) auto

lemma parse_frames_cut:
  "numbered n frs \<Longrightarrow> parse_frames H n (take k (encode_frames H frs)) = complete_frames k frs"
proof (induction k frs arbitrary: n rule: complete_frames.induct)
  case (1 k)
  then show ?case
    by (simp add: parse_frames_None parse_frame_def FRAME_HEADER_LEN_def)
next
  case (2 k fr frs)
  show ?case
  proof (cases "frame_size fr \<le> k")
    case True
    then have "take k (encode_frames H (fr # frs))
      = encode_frames H [fr] @ take (k - frame_size fr) (encode_frames H frs)"
      by simp
    then show ?thesis
      using 2 True parse_frames_encoded[of n "[fr]" H] by simp
  next
    case False
    then show ?thesis
      using 2 by (simp add: parse_frames_None parse_frame_cut)
  qed
qed

lemma parse_frames_all: "numbered n frs \<Longrightarrow> parse_frames H n (encode_frames H frs) = frs"
  using parse_frames_encoded[of n frs H "[]"]
  by (simp add: parse_frames_None parse_frame_def FRAME_HEADER_LEN_def)

end
