(* ===== verification/Output_Files.thy ===== *)
theory Output_Files
  imports Frame_Format
begin

text \<open>
  The two writers and readers of framed output files: \<open>FrameWriter\<close>, \<open>FrameReader\<close> and
  \<open>repair_partial\<close> of \<^verbatim>\<open>crates/locron-store/src/output.rs\<close>, and \<open>OutputWriter\<close>,
  \<open>read_frames\<close> and \<open>repair_partial\<close> of \<^verbatim>\<open>crates/locron-engine/src/output.rs\<close>. An opened file is
  its bytes with a read position and the faults that the operating system may report; the
  \<open>write_all\<close> of a file or of a buffered writer is a parameter, and the locale \<open>byte_sink\<close>
  states its contract: a successful call appends all bytes, a failed one a prefix of them.
\<close>


section \<open>Input and output\<close>

datatype io_kind = UnexpectedEof | InvalidData | InvalidInput | Other_Kind nat

datatype io_error = IoError (error_kind: io_kind) (error_message: string)

record os_file =
  file_bytes :: "byte list"
  file_pos :: nat
  file_fault :: "nat \<Rightarrow> nat \<Rightarrow> io_error option"
  file_seek_fault :: "io_error option"

text \<open>\<open>Read::read_exact\<close>: the requested bytes, or an error; a file that ends early gives \<open>UnexpectedEof\<close>.\<close>

definition read_exact :: "os_file \<Rightarrow> nat \<Rightarrow> (io_error + byte list) \<times> os_file" where
  "read_exact f n =
     (case file_fault f (file_pos f) n of
        Some e \<Rightarrow> (Inl e, f)
      | None \<Rightarrow>
          if file_pos f + n \<le> length (file_bytes f)
          then (Inr (take n (drop (file_pos f) (file_bytes f))), f\<lparr>file_pos := file_pos f + n\<rparr>)
          else (Inl (IoError UnexpectedEof ''failed to fill whole buffer''),
                f\<lparr>file_pos := max (file_pos f) (length (file_bytes f))\<rparr>))"

text \<open>Consecutive \<open>write_all(..)?\<close> calls.\<close>

fun write_pieces :: "('s \<Rightarrow> byte list \<Rightarrow> io_error option \<times> 's) \<Rightarrow> 's \<Rightarrow> byte list list \<Rightarrow> io_error option \<times> 's" where
  "write_pieces w s [] = (None, s)"
| "write_pieces w s (p # ps) =
     (case w s p of (Some e, s') \<Rightarrow> (Some e, s') | (None, s') \<Rightarrow> write_pieces w s' ps)"

text \<open>\<open>slice::chunks\<close>.\<close>

function chunks :: "nat \<Rightarrow> 'a list \<Rightarrow> 'a list list" where
  "chunks n xs = (if n = 0 \<or> xs = [] then [] else take n xs # chunks n (drop n xs))"
  by pat_completeness auto
termination by (relation "measure (\<lambda>(n, xs). length xs)") auto

declare chunks.simps [simp del]

definition u32_try_from :: "nat \<Rightarrow> u32 option" where
  "u32_try_from n = (if n \<le> u32_max then Some (of_nat n) else None)"

definition u64_saturating_add :: "u64 \<Rightarrow> u64 \<Rightarrow> u64" where
  "u64_saturating_add a b = (if u64_max < unat a + unat b then - 1 else a + b)"

definition u64_saturating_sub :: "u64 \<Rightarrow> u64 \<Rightarrow> u64" where
  "u64_saturating_sub a b = (if b \<le> a then a - b else 0)"

definition u64_checked_add :: "u64 \<Rightarrow> u64 \<Rightarrow> u64 option" where
  "u64_checked_add a b = (if u64_max < unat a + unat b then None else Some (a + b))"


section \<open>The store: writing frames\<close>

record 's frame_writer =
  fw_file :: 's
  fw_sequence :: u64
  fw_physical :: u64

text \<open>\<open>FrameWriter::create\<close>: \<open>created\<close> is the outcome of \<open>create_private_new\<close>.\<close>

definition FrameWriter_create ::
    "('s \<Rightarrow> byte list \<Rightarrow> io_error option \<times> 's) \<Rightarrow> io_error + 's \<Rightarrow> io_error + 's frame_writer" where
  "FrameWriter_create write_all created =
     and_then created (\<lambda>file.
       case write_all file MAGIC of
         (Some e, file') \<Rightarrow> Inl e
       | (None, file') \<Rightarrow>
           Inr \<lparr>fw_file = file', fw_sequence = 0, fw_physical = of_nat (length MAGIC)\<rparr>)"

definition write_chunk ::
    "('s \<Rightarrow> byte list \<Rightarrow> io_error option \<times> 's) \<Rightarrow> 'h hasher \<Rightarrow> frame_channel \<Rightarrow> u64 \<Rightarrow>
     's frame_writer \<Rightarrow> byte list \<Rightarrow> io_error option \<times> 's frame_writer" where
  "write_chunk write_all H channel elapsed_us self chunk =
     (case u32_try_from (length chunk) of
        None \<Rightarrow> (Some (IoError InvalidInput ''frame too large''), self)
      | Some len \<Rightarrow>
          let h0 = hash_new H;
              h1 = hash_update H h0 [channel_code channel];
              h2 = hash_update H h1 (u64_to_le_bytes (fw_sequence self));
              h3 = hash_update H h2 (u64_to_le_bytes elapsed_us);
              h4 = hash_update H h3 (u32_to_le_bytes len);
              h5 = hash_update H h4 chunk;
              crc = hash_finalize H h5
          in case write_pieces write_all (fw_file self)
                    [[channel_code channel], u64_to_le_bytes (fw_sequence self),
                     u64_to_le_bytes elapsed_us, u32_to_le_bytes len, u32_to_le_bytes crc, chunk] of
               (Some e, file) \<Rightarrow> (Some e, self\<lparr>fw_file := file\<rparr>)
             | (None, file) \<Rightarrow>
                 (None, self\<lparr>fw_file := file, fw_sequence := fw_sequence self + 1,
                     fw_physical := fw_physical self + of_nat (FRAME_HEADER_LEN + length chunk)\<rparr>))"

fun write_chunks ::
    "('s \<Rightarrow> byte list \<Rightarrow> io_error option \<times> 's) \<Rightarrow> 'h hasher \<Rightarrow> frame_channel \<Rightarrow> u64 \<Rightarrow>
     's frame_writer \<Rightarrow> byte list list \<Rightarrow> io_error option \<times> 's frame_writer" where
  "write_chunks write_all H channel elapsed_us self [] = (None, self)"
| "write_chunks write_all H channel elapsed_us self (chunk # rest) =
     (case write_chunk write_all H channel elapsed_us self chunk of
        (Some e, self') \<Rightarrow> (Some e, self')
      | (None, self') \<Rightarrow> write_chunks write_all H channel elapsed_us self' rest)"

definition FrameWriter_write ::
    "('s \<Rightarrow> byte list \<Rightarrow> io_error option \<times> 's) \<Rightarrow> 'h hasher \<Rightarrow> 's frame_writer \<Rightarrow> frame_channel \<Rightarrow> u64 \<Rightarrow>
     byte list \<Rightarrow> io_error option \<times> 's frame_writer" where
  "FrameWriter_write write_all H self channel elapsed_us payload =
     write_chunks write_all H channel elapsed_us self (chunks MAX_FRAME_PAYLOAD payload)"

text \<open>\<open>FrameWriter::sync\<close>: \<open>flush\<close> and \<open>sync_all\<close> are the outcomes of the two calls on the file.\<close>

definition FrameWriter_sync ::
    "io_error option \<Rightarrow> io_error option \<Rightarrow> 's frame_writer \<Rightarrow> io_error + u64" where
  "FrameWriter_sync flush sync_all self =
     (case flush of Some e \<Rightarrow> Inl e | None \<Rightarrow>
        (case sync_all of Some e \<Rightarrow> Inl e | None \<Rightarrow> Inr (fw_physical self)))"


section \<open>The store: reading frames\<close>

datatype frame_read_error = Io io_error | InvalidFrame string

fun into_io :: "frame_read_error \<Rightarrow> io_error" where
  "into_io (Io e) = e"
| "into_io (InvalidFrame message) = IoError InvalidData message"

definition read_magic :: "os_file \<Rightarrow> io_error + os_file" where
  "read_magic file =
     (case read_exact file 8 of
        (Inl e, file') \<Rightarrow> Inl e
      | (Inr magic, file') \<Rightarrow>
          if magic \<noteq> MAGIC then Inl (IoError InvalidData ''bad output header'') else Inr file')"

definition read_frame ::
    "'h hasher \<Rightarrow> os_file \<Rightarrow> u64 \<Rightarrow> u64 \<Rightarrow> (frame_read_error + frame option) \<times> os_file \<times> u64 \<times> u64" where
  "read_frame H file next_seq valid =
     (case read_exact file FRAME_HEADER_LEN of
        (Inl e, file1) \<Rightarrow>
          if error_kind e = UnexpectedEof then (Inr None, file1, next_seq, valid)
          else (Inl (Io e), file1, next_seq, valid)
      | (Inr header, file1) \<Rightarrow>
          (case decode_channel (header ! 0) of
             None \<Rightarrow> (Inl (InvalidFrame ''bad channel''), file1, next_seq, valid)
           | Some channel \<Rightarrow>
               let sq = u64_from_le_bytes (take 8 (drop 1 header));
                   elapsed_us = u64_from_le_bytes (take 8 (drop 9 header));
                   len = unat (u32_from_le_bytes (take 4 (drop 17 header)));
                   expected = u32_from_le_bytes (take 4 (drop 21 header))
               in if len > MAX_FRAME_PAYLOAD \<or> sq \<noteq> next_seq
                  then (Inl (InvalidFrame ''invalid frame''), file1, next_seq, valid)
                  else (case read_exact file1 len of
                          (Inl e, file2) \<Rightarrow> (Inl (Io e), file2, next_seq, valid)
                        | (Inr payload, file2) \<Rightarrow>
                            if checksum H (take 21 header) payload \<noteq> expected
                            then (Inl (InvalidFrame ''checksum mismatch''), file2, next_seq, valid)
                            else (Inr (Some \<lparr>fr_channel = channel, fr_sequence = sq,
                                       fr_elapsed_us = elapsed_us, fr_payload = payload\<rparr>),
                                  file2, next_seq + 1, valid + of_nat (FRAME_HEADER_LEN + len)))))"

record frame_reader =
  rd_file :: os_file
  rd_next :: u64
  rd_valid :: u64

text \<open>\<open>FrameReader::open\<close>: \<open>opened\<close> is the outcome of \<open>open_private\<close>.\<close>

definition FrameReader_open :: "io_error + os_file \<Rightarrow> io_error + frame_reader" where
  "FrameReader_open opened =
     and_then opened (\<lambda>file. and_then (read_magic file) (\<lambda>file'.
       Inr \<lparr>rd_file = file', rd_next = 0, rd_valid = 8\<rparr>))"

definition next_frame :: "'h hasher \<Rightarrow> frame_reader \<Rightarrow> (io_error + frame option) \<times> frame_reader" where
  "next_frame H self =
     (case read_frame H (rd_file self) (rd_next self) (rd_valid self) of
        (r, file, n, v) \<Rightarrow> (map_err into_io r, \<lparr>rd_file = file, rd_next = n, rd_valid = v\<rparr>))"


section \<open>The store: repair\<close>

record output_repair =
  rep_frames :: u64
  rep_payload_bytes :: u64
  rep_physical_bytes :: u64
  rep_tail_removed :: u64

text \<open>
  The calls of \<open>RepairFile\<close> other than reading, by their outcomes: the length observed before
  and after the scan, \<open>set_len\<close> and \<open>sync_all\<close>.
\<close>

record repair_calls =
  first_len :: "io_error + u64"
  second_len :: "io_error + u64"
  set_len_fault :: "io_error option"
  sync_fault :: "io_error option"

lemma read_exact_ok:
  "read_exact f n = (Inr bs, f') \<Longrightarrow>
   file_pos f' = file_pos f + n \<and> file_pos f + n \<le> length (file_bytes f) \<and>
   file_bytes f' = file_bytes f \<and> length bs = n"
  by (auto simp: read_exact_def split: option.splits if_splits)

lemma read_frame_advances:
  assumes "read_frame H f n v = (Inr (Some fr), f', n', v')"
  shows "file_bytes f' = file_bytes f \<and> file_pos f < file_pos f' \<and> file_pos f' \<le> length (file_bytes f)"
  using assms unfolding read_frame_def
  by (auto simp: Let_def FRAME_HEADER_LEN_def split: prod.splits sum.splits option.splits if_splits
      dest!: read_exact_ok)

function repair_loop ::
    "'h hasher \<Rightarrow> os_file \<Rightarrow> u64 \<Rightarrow> u64 \<Rightarrow> output_repair \<Rightarrow> io_error + output_repair" where
  "repair_loop H file next_seq valid repair =
     (case read_frame H file next_seq valid of
        (Inr (Some fr), file', next_seq', valid') \<Rightarrow>
          repair_loop H file' next_seq' valid'
            (repair\<lparr>rep_frames := rep_frames repair + 1,
                    rep_payload_bytes := rep_payload_bytes repair + of_nat (length (fr_payload fr)),
                    rep_physical_bytes := valid'\<rparr>)
      | (Inr None, file', next_seq', valid') \<Rightarrow> Inr repair
      | (Inl (InvalidFrame message), file', next_seq', valid') \<Rightarrow> Inr repair
      | (Inl (Io e), file', next_seq', valid') \<Rightarrow>
          if error_kind e = UnexpectedEof then Inr repair else Inl e)"
  by pat_completeness auto
termination
proof (relation "measure (\<lambda>(H, file, n, v, r). length (file_bytes file) - file_pos file)")
qed (auto dest!: read_frame_advances[OF sym])

declare repair_loop.simps [simp del]

text \<open>The outcome of a repair and the bytes of the file afterwards.\<close>

definition repair_opened ::
    "'h hasher \<Rightarrow> repair_calls \<Rightarrow> os_file \<Rightarrow> (io_error + output_repair) \<times> byte list" where
  "repair_opened H calls file =
     (let bytes = file_bytes file;
          changed = IoError InvalidData ''output file length changed during repair''
      in case first_len calls of Inl e \<Rightarrow> (Inl e, bytes) | Inr original \<Rightarrow>
         (case read_magic file of Inl e \<Rightarrow> (Inl e, bytes) | Inr file1 \<Rightarrow>
         (case repair_loop H file1 0 8
                 \<lparr>rep_frames = 0, rep_payload_bytes = 0, rep_physical_bytes = of_nat (length MAGIC),
                  rep_tail_removed = 0\<rparr> of Inl e \<Rightarrow> (Inl e, bytes) | Inr repair \<Rightarrow>
         (if rep_physical_bytes repair > original then (Inl changed, bytes)
          else case second_len calls of Inl e \<Rightarrow> (Inl e, bytes) | Inr len \<Rightarrow>
         (if len \<noteq> original then (Inl changed, bytes)
          else case set_len_fault calls of Some e \<Rightarrow> (Inl e, bytes) | None \<Rightarrow>
         (let repair' = repair\<lparr>rep_tail_removed := original - rep_physical_bytes repair\<rparr>;
              bytes' = take (unat (rep_physical_bytes repair')) bytes
          in case sync_fault calls of Some e \<Rightarrow> (Inl e, bytes') | None \<Rightarrow> (Inr repair', bytes')))))))"


section \<open>The engine: capturing output\<close>

record output_stats =
  retained_bytes :: u64
  discarded_bytes :: u64
  physical_bytes :: u64
  truncated :: bool

record 's output_writer =
  ow_file :: 's
  ow_next_sequence :: u64
  ow_limit :: u64
  ow_stats :: output_stats

definition OutputWriter_create ::
    "('s \<Rightarrow> byte list \<Rightarrow> io_error option \<times> 's) \<Rightarrow> io_error + 's \<Rightarrow> u64 \<Rightarrow> io_error + 's output_writer" where
  "OutputWriter_create write_all created limit =
     and_then created (\<lambda>file.
       case write_all file MAGIC of
         (Some e, file') \<Rightarrow> Inl e
       | (None, file') \<Rightarrow>
           Inr \<lparr>ow_file = file', ow_next_sequence = 0, ow_limit = limit,
                ow_stats = \<lparr>retained_bytes = 0, discarded_bytes = 0,
                            physical_bytes = of_nat (length MAGIC), truncated = False\<rparr>\<rparr>)"

text \<open>\<open>Duration\<close> is its number of microseconds.\<close>

definition write_frame ::
    "('s \<Rightarrow> byte list \<Rightarrow> io_error option \<times> 's) \<Rightarrow> 'h hasher \<Rightarrow> frame_channel \<Rightarrow> nat \<Rightarrow>
     's output_writer \<Rightarrow> byte list \<Rightarrow> io_error option \<times> 's output_writer" where
  "write_frame write_all H channel elapsed self payload =
     (let elapsed_micros = of_nat (min elapsed u64_max) :: u64 in
      case u32_try_from (length payload) of
        None \<Rightarrow> (Some (IoError InvalidInput ''frame too large''), self)
      | Some len \<Rightarrow>
          let h0 = hash_new H;
              h1 = hash_update H h0 [channel_code channel];
              h2 = hash_update H h1 (u64_to_le_bytes (ow_next_sequence self));
              h3 = hash_update H h2 (u64_to_le_bytes elapsed_micros);
              h4 = hash_update H h3 (u32_to_le_bytes len);
              h5 = hash_update H h4 payload;
              crc = hash_finalize H h5
          in case write_pieces write_all (ow_file self)
                    [[channel_code channel], u64_to_le_bytes (ow_next_sequence self),
                     u64_to_le_bytes elapsed_micros, u32_to_le_bytes len, u32_to_le_bytes crc, payload] of
               (Some e, file) \<Rightarrow> (Some e, self\<lparr>ow_file := file\<rparr>)
             | (None, file) \<Rightarrow>
                 let stats = ow_stats self;
                     stats' = stats\<lparr>
                       retained_bytes := u64_saturating_add (retained_bytes stats) (of_nat (length payload)),
                       physical_bytes := u64_saturating_add
                         (u64_saturating_add (physical_bytes stats) (of_nat FRAME_HEADER_LEN))
                         (of_nat (length payload))\<rparr>
                 in (None, self\<lparr>ow_file := file,
                       ow_next_sequence := u64_saturating_add (ow_next_sequence self) 1,
                       ow_stats := stats'\<rparr>))"

fun write_frames ::
    "('s \<Rightarrow> byte list \<Rightarrow> io_error option \<times> 's) \<Rightarrow> 'h hasher \<Rightarrow> frame_channel \<Rightarrow> nat \<Rightarrow>
     's output_writer \<Rightarrow> byte list list \<Rightarrow> io_error option \<times> 's output_writer" where
  "write_frames write_all H channel elapsed self [] = (None, self)"
| "write_frames write_all H channel elapsed self (chunk # rest) =
     (case write_frame write_all H channel elapsed self chunk of
        (Some e, self') \<Rightarrow> (Some e, self')
      | (None, self') \<Rightarrow> write_frames write_all H channel elapsed self' rest)"

text \<open>
  The writer's file is a \<open>BufWriter\<close>: the state of \<open>write_all\<close> is what was handed over to it, which
  reaches the disk in order and in full at the next flush, not at each write.
\<close>

definition OutputWriter_write ::
    "('s \<Rightarrow> byte list \<Rightarrow> io_error option \<times> 's) \<Rightarrow> 'h hasher \<Rightarrow> 's output_writer \<Rightarrow> frame_channel \<Rightarrow> nat \<Rightarrow>
     byte list \<Rightarrow> io_error option \<times> 's output_writer" where
  "OutputWriter_write write_all H self channel elapsed payload =
     (let available = u64_saturating_sub (ow_limit self) (retained_bytes (ow_stats self));
          retained_len = unat (min available (of_nat (length payload)));
          r = (if retained_len > 0
               then write_frames write_all H channel elapsed self
                      (chunks MAX_FRAME_PAYLOAD (take retained_len payload))
               else (None, self))
      in case r of
           (Some e, self') \<Rightarrow> (Some e, self')
         | (None, self') \<Rightarrow>
             let discarded = of_nat (length payload - retained_len);
                 stats = ow_stats self'
             in (None, self'\<lparr>ow_stats := stats\<lparr>
                   discarded_bytes := u64_saturating_add (discarded_bytes stats) discarded,
                   truncated := (truncated stats \<or> discarded > 0)\<rparr>\<rparr>))"

text \<open>
  \<open>OutputWriter::finalize\<close>: the outcomes of \<open>flush\<close>, \<open>sync_all\<close> and \<open>rename_private\<close>; the
  counters are returned only when all three succeed.
\<close>

definition OutputWriter_finalize ::
    "io_error option \<Rightarrow> io_error option \<Rightarrow> io_error option \<Rightarrow> 's output_writer \<Rightarrow> io_error + output_stats" where
  "OutputWriter_finalize flush sync_all rename self =
     (case flush of Some e \<Rightarrow> Inl e | None \<Rightarrow>
     (case sync_all of Some e \<Rightarrow> Inl e | None \<Rightarrow>
     (case rename of Some e \<Rightarrow> Inl e | None \<Rightarrow> Inr (ow_stats self))))"


section \<open>The engine: scanning and repair\<close>

definition Channel_try_from :: "byte \<Rightarrow> io_error + frame_channel" where
  "Channel_try_from b = ok_or (IoError InvalidData ''unknown output channel'') (decode_channel b)"

text \<open>
  One round of the loop of \<open>scan_valid_frames\<close>: an error, the end of the valid frames, or a
  frame with the file and the counters after it.
\<close>

definition scan_step ::
    "'h hasher \<Rightarrow> os_file \<Rightarrow> u64 \<Rightarrow> u64 \<Rightarrow> u64 \<Rightarrow>
     io_error + (frame \<times> os_file \<times> u64 \<times> u64 \<times> u64) option" where
  "scan_step H file next_seq retained valid_len =
     (case read_exact file FRAME_HEADER_LEN of
        (Inl e, file1) \<Rightarrow> if error_kind e = UnexpectedEof then Inr None else Inl e
      | (Inr header, file1) \<Rightarrow>
          and_then (Channel_try_from (header ! 0)) (\<lambda>channel.
            let sq = u64_from_le_bytes (take 8 (drop 1 header));
                elapsed_micros = u64_from_le_bytes (take 8 (drop 9 header));
                len = unat (u32_from_le_bytes (take 4 (drop 17 header)));
                expected = u32_from_le_bytes (take 4 (drop 21 header))
            in if len > MAX_FRAME_PAYLOAD then Inr None
               else case read_exact file1 len of
                 (Inl e, file2) \<Rightarrow> if error_kind e = UnexpectedEof then Inr None else Inl e
               | (Inr payload, file2) \<Rightarrow>
                   if checksum H (take 21 header) payload \<noteq> expected \<or> sq \<noteq> next_seq then Inr None
                   else and_then (ok_or (IoError InvalidData ''output frame count overflow'')
                                   (u64_checked_add next_seq 1)) (\<lambda>next_seq'.
                        and_then (ok_or (IoError InvalidData ''output payload count overflow'')
                                   (u64_checked_add retained (of_nat len))) (\<lambda>retained'.
                        and_then (ok_or (IoError InvalidData ''output file length overflow'')
                                   (u64_checked_add valid_len (of_nat (FRAME_HEADER_LEN + len)))) (\<lambda>valid_len'.
                          Inr (Some (\<lparr>fr_channel = channel, fr_sequence = sq,
                                      fr_elapsed_us = elapsed_micros, fr_payload = payload\<rparr>,
                                     file2, next_seq', retained', valid_len')))))))"

lemma scan_step_advances:
  assumes "scan_step H f n r v = Inr (Some (fr, f', n', r', v'))"
  shows "file_bytes f' = file_bytes f \<and> file_pos f < file_pos f' \<and> file_pos f' \<le> length (file_bytes f)"
proof -
  obtain header f1 where hd: "read_exact f FRAME_HEADER_LEN = (Inr header, f1)"
    using assms by (auto simp: scan_step_def split: prod.splits sum.splits if_splits)
  let ?len = "unat (u32_from_le_bytes (take 4 (drop 17 header)))"
  obtain payload where pl: "read_exact f1 ?len = (Inr payload, f')"
    using assms hd
    by (cases "read_exact f1 ?len"; cases "fst (read_exact f1 ?len)")
      (auto simp: scan_step_def Let_def and_then_eq_Inr split: if_splits)
  show ?thesis
    using read_exact_ok[OF hd] read_exact_ok[OF pl] by (simp add: FRAME_HEADER_LEN_def)
qed

function scan_loop ::
    "'h hasher \<Rightarrow> os_file \<Rightarrow> u64 \<Rightarrow> u64 \<Rightarrow> u64 \<Rightarrow> io_error + frame list \<times> u64 \<times> u64" where
  "scan_loop H file next_seq retained valid_len =
     (case scan_step H file next_seq retained valid_len of
        Inl e \<Rightarrow> Inl e
      | Inr None \<Rightarrow> Inr ([], valid_len, retained)
      | Inr (Some (fr, file', next_seq', retained', valid_len')) \<Rightarrow>
          and_then (scan_loop H file' next_seq' retained' valid_len') (\<lambda>(frs, v, r). Inr (fr # frs, v, r)))"
  by pat_completeness auto
termination
proof (relation "measure (\<lambda>(H, file, n, r, v). length (file_bytes file) - file_pos file)")
qed (auto dest!: scan_step_advances)

declare scan_loop.simps [simp del]

text \<open>\<open>scan_valid_frames\<close>: the consumed frames, the valid length and the payload count.\<close>

definition scan_valid_frames :: "'h hasher \<Rightarrow> os_file \<Rightarrow> io_error + frame list \<times> u64 \<times> u64" where
  "scan_valid_frames H file =
     (case read_exact file 8 of
        (Inl e, file1) \<Rightarrow> Inl e
      | (Inr magic, file1) \<Rightarrow>
          if magic \<noteq> MAGIC then Inl (IoError InvalidData ''invalid output magic'')
          else and_then (scan_loop H file1 0 0 (of_nat (length MAGIC))) (\<lambda>result.
            case file_seek_fault file of Some e \<Rightarrow> Inl e | None \<Rightarrow> Inr result))"

definition read_frames :: "'h hasher \<Rightarrow> io_error + os_file \<Rightarrow> io_error + frame list" where
  "read_frames H opened =
     and_then opened (\<lambda>file. and_then (scan_valid_frames H file) (\<lambda>(frames, valid_len, retained). Inr frames))"

definition engine_repair_opened ::
    "'h hasher \<Rightarrow> repair_calls \<Rightarrow> os_file \<Rightarrow> (io_error + output_stats) \<times> byte list" where
  "engine_repair_opened H calls file =
     (let bytes = file_bytes file;
          changed = IoError InvalidData ''output file length changed during repair''
      in case first_len calls of Inl e \<Rightarrow> (Inl e, bytes) | Inr original \<Rightarrow>
         (case scan_valid_frames H file of Inl e \<Rightarrow> (Inl e, bytes) | Inr (frames, valid_len, retained) \<Rightarrow>
         (if valid_len > original then (Inl changed, bytes)
          else case second_len calls of Inl e \<Rightarrow> (Inl e, bytes) | Inr len \<Rightarrow>
         (if len \<noteq> original then (Inl changed, bytes)
          else case set_len_fault calls of Some e \<Rightarrow> (Inl e, bytes) | None \<Rightarrow>
         (let bytes' = take (unat valid_len) bytes
          in case sync_fault calls of Some e \<Rightarrow> (Inl e, bytes') | None \<Rightarrow>
             (Inr \<lparr>retained_bytes = retained, discarded_bytes = 0, physical_bytes = valid_len,
                   truncated = False\<rparr>, bytes'))))))"

end
