(* ===== verification/Output_Repair.thy ===== *)
theory Output_Repair
  imports Output_Files
begin

text \<open>
  The readers and the two repairs of output files against the reference parser of
  \<open>Frame_Format\<close>: on a file that nobody writes to and that reads without faults, the store
  keeps exactly the frames the reference parser finds, and the engine does the same unless the
  tail has a complete header with an unknown channel, which it reports as an error.
\<close>


section \<open>Quiet files\<close>

definition quiet :: "os_file \<Rightarrow> bool" where
  "quiet f \<longleftrightarrow> file_fault f = (\<lambda>_ _. None) \<and> file_pos f \<le> length (file_bytes f)"

definition unread :: "os_file \<Rightarrow> byte list" where
  "unread f = drop (file_pos f) (file_bytes f)"

text \<open>A file of these bytes, just opened, and the calls of a repair that meets no fault.\<close>

definition opened :: "byte list \<Rightarrow> os_file" where
  "opened bs = \<lparr>file_bytes = bs, file_pos = 0, file_fault = (\<lambda>_ _. None), file_seek_fault = None\<rparr>"

definition calm :: "byte list \<Rightarrow> repair_calls" where
  "calm bs = \<lparr>first_len = Inr (of_nat (length bs)), second_len = Inr (of_nat (length bs)),
              set_len_fault = None, sync_fault = None\<rparr>"

abbreviation eof :: io_error where
  "eof \<equiv> IoError UnexpectedEof ''failed to fill whole buffer''"

definition payload_total :: "frame list \<Rightarrow> nat" where
  "payload_total frs = sum_list (map (\<lambda>fr. length (fr_payload fr)) frs)"

definition frames_total :: "frame list \<Rightarrow> nat" where
  "frames_total frs = sum_list (map frame_size frs)"

lemma totals_simps [simp]:
  "payload_total [] = 0" "frames_total [] = 0"
  "payload_total (fr # frs) = length (fr_payload fr) + payload_total frs"
  "frames_total (fr # frs) = frame_size fr + frames_total frs"
  by (simp_all add: payload_total_def frames_total_def)

lemma length_encode_total: "length (encode_frames H frs) = frames_total frs"
  by (simp add: length_encode_frames frames_total_def)

lemma quiet_simps [simp]:
  "quiet f \<Longrightarrow> length (unread f) = length (file_bytes f) - file_pos f"
  "quiet (opened bs)" "unread (opened bs) = bs" "file_bytes (opened bs) = bs"
  by (simp_all add: quiet_def unread_def opened_def)

lemma read_exact_quiet:
  assumes "quiet f"
  shows "read_exact f n =
    (if n \<le> length (unread f) then (Inr (take n (unread f)), f\<lparr>file_pos := file_pos f + n\<rparr>)
     else (Inl eof, f\<lparr>file_pos := length (file_bytes f)\<rparr>))"
  using assms by (auto simp: read_exact_def quiet_def unread_def)

lemma quiet_skip:
  assumes "quiet f" "n \<le> length (unread f)"
  shows "quiet (f\<lparr>file_pos := file_pos f + n\<rparr>)" "unread (f\<lparr>file_pos := file_pos f + n\<rparr>) = drop n (unread f)"
  using assms by (auto simp: quiet_def unread_def add.commute)

lemma nth_take_header: "25 \<le> length bs \<Longrightarrow> take 25 bs ! 0 = bs ! 0"
  by simp


section \<open>The store's repair\<close>

lemma read_frame_quiet_Some:
  assumes "quiet f" "parse_frame H n (unread f) = Some (fr, rest)"
  shows "read_frame H f n v =
      (Inr (Some fr), f\<lparr>file_pos := file_pos f + frame_size fr\<rparr>, n + 1, v + of_nat (frame_size fr))"
    "quiet (f\<lparr>file_pos := file_pos f + frame_size fr\<rparr>)"
    "unread (f\<lparr>file_pos := file_pos f + frame_size fr\<rparr>) = rest"
proof -
  let ?bs = "unread f"
  let ?f1 = "f\<lparr>file_pos := file_pos f + 25\<rparr>"
  let ?len = "unat (u32_from_le_bytes (take 4 (drop 17 (take 25 ?bs))))"
  have long: "25 \<le> length ?bs"
    using assms(2) by (simp add: parse_frame_def FRAME_HEADER_LEN_def split: if_splits)
  have f1: "quiet ?f1" "unread ?f1 = drop 25 ?bs"
    using quiet_skip[OF assms(1) long] by simp_all
  obtain ch where parsed: "decode_channel (take 25 ?bs ! 0) = Some ch" "?len \<le> MAX_FRAME_PAYLOAD"
      "u64_from_le_bytes (take 8 (drop 1 (take 25 ?bs))) = n" "?len \<le> length (drop 25 ?bs)"
      "checksum H (take 21 (take 25 ?bs)) (take ?len (drop 25 ?bs))
        = u32_from_le_bytes (take 4 (drop 21 (take 25 ?bs)))"
    and fr: "fr = \<lparr>fr_channel = ch, fr_sequence = u64_from_le_bytes (take 8 (drop 1 (take 25 ?bs))),
      fr_elapsed_us = u64_from_le_bytes (take 8 (drop 9 (take 25 ?bs))), fr_payload = take ?len (drop 25 ?bs)\<rparr>"
    using assms(2) unfolding parse_frame_def Let_def by (auto split: if_splits option.splits)
  have size: "frame_size fr = 25 + ?len"
    using parsed(4) by (simp add: fr frame_size_def FRAME_HEADER_LEN_def del: length_drop)
  have read1: "read_exact f FRAME_HEADER_LEN = (Inr (take 25 ?bs), ?f1)"
    using long by (simp add: read_exact_quiet[OF assms(1)] FRAME_HEADER_LEN_def)
  have read2: "read_exact ?f1 ?len
      = (Inr (take ?len (drop 25 ?bs)), f\<lparr>file_pos := file_pos f + (25 + ?len)\<rparr>)"
    using parsed(4) by (simp add: read_exact_quiet[OF f1(1)] f1(2) add.assoc)
  show "read_frame H f n v =
      (Inr (Some fr), f\<lparr>file_pos := file_pos f + frame_size fr\<rparr>, n + 1, v + of_nat (frame_size fr))"
    unfolding read_frame_def read1 prod.case sum.case parsed(1) option.case Let_def read2
    using parsed fr size by (simp only: FRAME_HEADER_LEN_def) simp
  have "frame_size fr \<le> length ?bs"
    using assms(2) by (auto simp: parse_frame_iff)
  then show "quiet (f\<lparr>file_pos := file_pos f + frame_size fr\<rparr>)"
    "unread (f\<lparr>file_pos := file_pos f + frame_size fr\<rparr>) = rest"
    using quiet_skip[OF assms(1)] assms(2) by (auto simp: parse_frame_iff)
qed

lemma read_frame_quiet_None:
  assumes "quiet f" "parse_frame H n (unread f) = None"
  shows "(case read_frame H f n v of (r, _) \<Rightarrow>
    r = Inr None \<or> (\<exists>message. r = Inl (InvalidFrame message)) \<or> r = Inl (Io eof))"
proof (cases "25 \<le> length (unread f)")
  case False
  then show ?thesis
    by (simp add: read_frame_def read_exact_quiet[OF assms(1)] FRAME_HEADER_LEN_def)
next
  case True
  let ?bs = "unread f" and ?f1 = "f\<lparr>file_pos := file_pos f + 25\<rparr>"
  have f1: "quiet ?f1" "unread ?f1 = drop 25 ?bs"
    using quiet_skip[OF assms(1) True] by simp_all
  have read1: "read_exact f FRAME_HEADER_LEN = (Inr (take 25 ?bs), ?f1)"
    using True by (simp add: read_exact_quiet[OF assms(1)] FRAME_HEADER_LEN_def)
  let ?h = "take 25 ?bs"
  let ?len = "unat (u32_from_le_bytes (take 4 (drop 17 ?h)))"
  have long: "\<not> length ?bs < FRAME_HEADER_LEN"
    using True by (simp add: FRAME_HEADER_LEN_def)
  consider "decode_channel (?h ! 0) = None"
    | ch where "decode_channel (?h ! 0) = Some ch"
        "?len > MAX_FRAME_PAYLOAD \<or> u64_from_le_bytes (take 8 (drop 1 ?h)) \<noteq> n"
    | ch where "decode_channel (?h ! 0) = Some ch"
        "\<not> (?len > MAX_FRAME_PAYLOAD \<or> u64_from_le_bytes (take 8 (drop 1 ?h)) \<noteq> n)"
        "?len \<le> length (drop 25 ?bs) \<longrightarrow>
         checksum H (take 21 ?h) (take ?len (drop 25 ?bs)) \<noteq> u32_from_le_bytes (take 4 (drop 21 ?h))"
    using assms(2) long unfolding parse_frame_def Let_def
    by (auto simp del: length_drop drop_take take_take split: option.splits if_splits)
  then show ?thesis
  proof cases
    case 3
    then show ?thesis
      unfolding read_frame_def read1 prod.case sum.case Let_def read_exact_quiet[OF f1(1)] f1(2)
      by (cases "?len \<le> length (drop 25 ?bs)") (simp_all del: length_drop drop_take take_take)
  qed (unfold read_frame_def read1 prod.case sum.case Let_def, simp_all only: option.case if_True sum.inject, simp_all)
qed

lemma repair_loop_quiet:
  assumes "quiet f" "rep_physical_bytes r = v"
  shows "repair_loop H f n v r =
    (let frs = parse_frames H n (unread f)
     in Inr (r\<lparr>rep_frames := rep_frames r + of_nat (length frs),
               rep_payload_bytes := rep_payload_bytes r + of_nat (payload_total frs),
               rep_physical_bytes := v + of_nat (frames_total frs)\<rparr>))"
  using assms
proof (induction "length (unread f)" arbitrary: f n v r rule: less_induct)
  case less
  show ?case
  proof (cases "parse_frame H n (unread f)")
    case None
    have "repair_loop H f n v r = Inr r"
      using read_frame_quiet_None[OF less(2) None, of v]
      by (subst repair_loop.simps) (auto split: prod.splits)
    then show ?thesis
      using less(3) by (simp add: parse_frames_None[OF None])
  next
    case (Some p)
    obtain fr rest where p: "parse_frame H n (unread f) = Some (fr, rest)"
      using Some by force
    let ?f' = "f\<lparr>file_pos := file_pos f + frame_size fr\<rparr>"
    let ?r' = "r\<lparr>rep_frames := rep_frames r + 1,
        rep_payload_bytes := rep_payload_bytes r + of_nat (length (fr_payload fr)),
        rep_physical_bytes := v + of_nat (frame_size fr)\<rparr>"
    note step = read_frame_quiet_Some[OF less(2) p]
    have frs: "parse_frames H n (unread f) = fr # parse_frames H (n + 1) rest"
      by (subst parse_frames.simps) (simp add: p)
    have "repair_loop H f n v r = repair_loop H ?f' (n + 1) (v + of_nat (frame_size fr)) ?r'"
      by (subst repair_loop.simps) (simp add: step(1))
    also have "\<dots> = (let frs = parse_frames H (n + 1) rest
       in Inr (?r'\<lparr>rep_frames := rep_frames ?r' + of_nat (length frs),
               rep_payload_bytes := rep_payload_bytes ?r' + of_nat (payload_total frs),
               rep_physical_bytes := v + of_nat (frame_size fr) + of_nat (frames_total frs)\<rparr>))"
      using less(1)[of ?f' ?r' "v + of_nat (frame_size fr)" "n + 1"] step parse_frame_shorter[OF p] by simp
    finally show ?thesis
      by (simp add: frs Let_def algebra_simps)
  qed
qed


text \<open>The part of a file that a repair keeps: the header and the frames of the reference parser.\<close>

definition kept_frames :: "'h hasher \<Rightarrow> byte list \<Rightarrow> frame list" where
  "kept_frames H bs = parse_frames H 0 (drop 8 bs)"

definition kept_bytes :: "'h hasher \<Rightarrow> byte list \<Rightarrow> byte list" where
  "kept_bytes H bs = MAGIC @ encode_frames H (kept_frames H bs)"

definition has_magic :: "byte list \<Rightarrow> bool" where
  "has_magic bs \<longleftrightarrow> take 8 bs = MAGIC"

lemma length_MAGIC [simp]: "length MAGIC = 8"
  by (simp add: MAGIC_def)

lemma has_magic_iff: "has_magic bs \<longleftrightarrow> (\<exists>rest. bs = MAGIC @ rest)"
  by (metis append_eq_conv_conj append_take_drop_id has_magic_def length_MAGIC)

lemma has_magic_append [simp]: "has_magic (MAGIC @ bs)"
  by (simp add: has_magic_def)

lemma has_magic_long: "has_magic bs \<Longrightarrow> 8 \<le> length bs"
  by (auto simp: has_magic_iff)

lemma kept_frames_split:
  obtains rest where "drop 8 bs = encode_frames H (kept_frames H bs) @ rest"
    "numbered 0 (kept_frames H bs)" "parse_frame H (of_nat (length (kept_frames H bs))) rest = None"
  using parse_frames_split[of "drop 8 bs" H 0] by (auto simp: kept_frames_def)

lemma kept_bytes_split: "has_magic bs \<Longrightarrow> \<exists>rest. bs = kept_bytes H bs @ rest"
  by (rule kept_frames_split[of bs H])
    (metis append.assoc append_take_drop_id has_magic_def kept_bytes_def)

lemma length_kept_bytes: "length (kept_bytes H bs) = 8 + frames_total (kept_frames H bs)"
  by (simp add: kept_bytes_def length_encode_total)

lemma kept_bytes_prefix:
  assumes "has_magic bs"
  shows "take (length (kept_bytes H bs)) bs = kept_bytes H bs" "length (kept_bytes H bs) \<le> length bs"
proof -
  obtain rest where "bs = kept_bytes H bs @ rest"
    using kept_bytes_split[OF assms] by blast
  then show "take (length (kept_bytes H bs)) bs = kept_bytes H bs" "length (kept_bytes H bs) \<le> length bs"
    by (metis append_eq_conv_conj, metis le_add1 length_append)
qed

lemma kept_frames_encoded: "numbered 0 frs \<Longrightarrow> kept_frames H (MAGIC @ encode_frames H frs) = frs"
  by (simp add: kept_frames_def parse_frames_all)

lemma kept_frames_kept [simp]: "kept_frames H (kept_bytes H bs) = kept_frames H bs"
  unfolding kept_bytes_def by (rule kept_frames_split[of bs H]) (rule kept_frames_encoded)

lemma kept_bytes_kept [simp]: "kept_bytes H (kept_bytes H bs) = kept_bytes H bs"
  by (simp only: kept_bytes_def[of H "kept_bytes H bs"] kept_frames_kept) (simp add: kept_bytes_def)

lemma unat_of_nat_u64: "k < 2 ^ 64 \<Longrightarrow> unat (of_nat k :: u64) = k"
  by (simp add: unat_of_nat take_bit_nat_eq_self)

lemma read_magic_opened:
  "read_magic (opened bs) =
     (if length bs < 8 then Inl eof
      else if has_magic bs then Inr ((opened bs)\<lparr>file_pos := 8\<rparr>)
      else Inl (IoError InvalidData ''bad output header''))"
  by (simp add: read_magic_def read_exact_quiet has_magic_def) (simp add: opened_def)

lemma after_magic:
  "8 \<le> length bs \<Longrightarrow> quiet ((opened bs)\<lparr>file_pos := 8\<rparr>)"
  "unread ((opened bs)\<lparr>file_pos := 8\<rparr>) = drop 8 bs"
  by (simp_all add: quiet_def unread_def opened_def)

definition repaired :: "'h hasher \<Rightarrow> byte list \<Rightarrow> output_repair" where
  "repaired H bs = \<lparr>rep_frames = of_nat (length (kept_frames H bs)),
     rep_payload_bytes = of_nat (payload_total (kept_frames H bs)),
     rep_physical_bytes = of_nat (length (kept_bytes H bs)),
     rep_tail_removed = of_nat (length bs - length (kept_bytes H bs))\<rparr>"

lemma store_scan:
  assumes "has_magic bs"
  shows "repair_loop H ((opened bs)\<lparr>file_pos := 8\<rparr>) 0 8
      \<lparr>rep_frames = 0, rep_payload_bytes = 0, rep_physical_bytes = of_nat (length MAGIC), rep_tail_removed = 0\<rparr>
    = Inr ((repaired H bs)\<lparr>rep_tail_removed := 0\<rparr>)"
  using has_magic_long[OF assms]
  by (subst repair_loop_quiet)
    (simp_all add: after_magic kept_frames_def[symmetric] Let_def repaired_def length_kept_bytes)

lemma store_repair_calm:
  assumes "length bs < 2 ^ 64"
  shows "repair_opened H (calm bs) (opened bs) =
    (if length bs < 8 then (Inl eof, bs)
     else if has_magic bs then (Inr (repaired H bs), kept_bytes H bs)
     else (Inl (IoError InvalidData ''bad output header''), bs))"
proof (cases "has_magic bs")
  case True
  define k where "k = length (kept_bytes H bs)"
  have k: "k \<le> length bs" "take k bs = kept_bytes H bs"
    using kept_bytes_prefix[OF True] by (simp_all add: k_def)
  have physical: "rep_physical_bytes (repaired H bs) = of_nat k"
    by (simp add: repaired_def k_def)
  have unat: "unat (of_nat k :: u64) = k" "unat (of_nat (length bs) :: u64) = length bs"
    using k assms by (simp_all only: unat_of_nat_u64 le_less_trans)
  have cmp: "\<not> (of_nat (length bs) :: u64) < of_nat k"
    unfolding word_less_nat_alt unat using k by simp
  have removed: "(repaired H bs)\<lparr>rep_tail_removed := of_nat (length bs) - of_nat k\<rparr> = repaired H bs"
    using k by (simp add: repaired_def k_def of_nat_diff)
  show ?thesis
    using True has_magic_long[OF True] unat cmp removed k(2)
    unfolding repair_opened_def calm_def read_magic_opened Let_def
    by (simp add: store_scan[OF True, simplified] physical)
next
  case False
  then show ?thesis
    by (simp add: repair_opened_def calm_def read_magic_opened Let_def)
qed


section \<open>The engine's scan and repair\<close>

definition bad_channel_tail :: "'h hasher \<Rightarrow> u64 \<Rightarrow> byte list \<Rightarrow> bool" where
  "bad_channel_tail H n bs \<longleftrightarrow>
     (let rest = drop (frames_total (parse_frames H n bs)) bs
      in FRAME_HEADER_LEN \<le> length rest \<and> decode_channel (rest ! 0) = None)"

abbreviation unknown_channel :: io_error where
  "unknown_channel \<equiv> IoError InvalidData ''unknown output channel''"

lemma checked_add_Some:
  "unat a + unat b < 2 ^ 64 \<Longrightarrow> u64_checked_add a b = Some (a + b)"
  by (simp add: u64_checked_add_def u64_max_def)

lemma scan_step_quiet:
  assumes "quiet f" "parse_frame H n (unread f) = Some (fr, rest)" "unat n + 1 < 2 ^ 64"
    "unat r + length (fr_payload fr) < 2 ^ 64" "unat v + frame_size fr < 2 ^ 64"
  shows "scan_step H f n r v = Inr (Some (fr, f\<lparr>file_pos := file_pos f + frame_size fr\<rparr>, n + 1,
    r + of_nat (length (fr_payload fr)), v + of_nat (frame_size fr)))"
proof -
  let ?bs = "unread f" and ?f1 = "f\<lparr>file_pos := file_pos f + 25\<rparr>"
  let ?h = "take 25 ?bs"
  let ?len = "unat (u32_from_le_bytes (take 4 (drop 17 ?h)))"
  have long: "25 \<le> length ?bs"
    using assms(2) by (simp add: parse_frame_def FRAME_HEADER_LEN_def split: if_splits)
  have f1: "quiet ?f1" "unread ?f1 = drop 25 ?bs"
    using quiet_skip[OF assms(1) long] by simp_all
  obtain ch where parsed: "decode_channel (?h ! 0) = Some ch" "?len \<le> MAX_FRAME_PAYLOAD"
      "u64_from_le_bytes (take 8 (drop 1 ?h)) = n" "?len \<le> length (drop 25 ?bs)"
      "checksum H (take 21 ?h) (take ?len (drop 25 ?bs)) = u32_from_le_bytes (take 4 (drop 21 ?h))"
    and fr: "fr = \<lparr>fr_channel = ch, fr_sequence = u64_from_le_bytes (take 8 (drop 1 ?h)),
      fr_elapsed_us = u64_from_le_bytes (take 8 (drop 9 ?h)), fr_payload = take ?len (drop 25 ?bs)\<rparr>"
    using assms(2) unfolding parse_frame_def Let_def by (auto split: if_splits option.splits)
  have sizes: "length (fr_payload fr) = ?len" "frame_size fr = 25 + ?len"
    using parsed(4) by (simp_all add: fr frame_size_def FRAME_HEADER_LEN_def del: length_drop)
  have read1: "read_exact f FRAME_HEADER_LEN = (Inr ?h, ?f1)"
    using long by (simp add: read_exact_quiet[OF assms(1)] FRAME_HEADER_LEN_def)
  have read2: "read_exact ?f1 ?len = (Inr (take ?len (drop 25 ?bs)), f\<lparr>file_pos := file_pos f + (25 + ?len)\<rparr>)"
    using parsed(4) by (simp add: read_exact_quiet[OF f1(1)] f1(2) add.assoc)
  have len64: "unat (of_nat ?len :: u64) = ?len" "unat (of_nat (25 + ?len) :: u64) = 25 + ?len"
    by (rule unat_of_nat_u64, use parsed(2) in \<open>simp add: MAX_FRAME_PAYLOAD_def\<close>)+
  have sums: "u64_checked_add n 1 = Some (n + 1)" "u64_checked_add r (of_nat ?len) = Some (r + of_nat ?len)"
      "u64_checked_add v (of_nat (25 + ?len)) = Some (v + of_nat (25 + ?len))"
    using assms(3,4,5) sizes len64 by (simp_all only: checked_add_Some unat_1)
  show ?thesis
    unfolding scan_step_def read1 prod.case sum.case Channel_try_from_def parsed(1) ok_or_simps and_then_simps Let_def read2
    using parsed fr sizes sums by (simp only: FRAME_HEADER_LEN_def) simp
qed

lemma scan_step_end:
  assumes "quiet f" "parse_frame H n (unread f) = None"
  shows "scan_step H f n r v =
    (if FRAME_HEADER_LEN \<le> length (unread f) \<and> decode_channel (unread f ! 0) = None
     then Inl unknown_channel else Inr None)"
proof (cases "25 \<le> length (unread f)")
  case False
  then show ?thesis
    by (simp add: scan_step_def read_exact_quiet[OF assms(1)] FRAME_HEADER_LEN_def)
next
  case True
  let ?bs = "unread f" and ?f1 = "f\<lparr>file_pos := file_pos f + 25\<rparr>"
  let ?h = "take 25 ?bs"
  let ?len = "unat (u32_from_le_bytes (take 4 (drop 17 ?h)))"
  have f1: "quiet ?f1" "unread ?f1 = drop 25 ?bs"
    using quiet_skip[OF assms(1) True] by simp_all
  have read1: "read_exact f FRAME_HEADER_LEN = (Inr ?h, ?f1)"
    using True by (simp add: read_exact_quiet[OF assms(1)] FRAME_HEADER_LEN_def)
  have long: "\<not> length ?bs < FRAME_HEADER_LEN"
    using True by (simp add: FRAME_HEADER_LEN_def)
  show ?thesis
  proof (cases "decode_channel (?h ! 0)")
    case None
    then have first: "decode_channel (?bs ! 0) = None"
      using True by simp
    show ?thesis
      using long unfolding scan_step_def read1 prod.case sum.case Channel_try_from_def None
      by (simp add: not_less first)
  next
    case (Some ch)
    then have first: "decode_channel (?bs ! 0) = Some ch"
      using True by simp
    have "?len > MAX_FRAME_PAYLOAD \<or> \<not> ?len \<le> length (drop 25 ?bs) \<or>
        checksum H (take 21 ?h) (take ?len (drop 25 ?bs)) \<noteq> u32_from_le_bytes (take 4 (drop 21 ?h)) \<or>
        u64_from_le_bytes (take 8 (drop 1 ?h)) \<noteq> n"
      using assms(2) long Some unfolding parse_frame_def Let_def
      by (auto simp del: length_drop drop_take take_take split: if_splits)
    then have "scan_step H f n r v = Inr None"
      unfolding scan_step_def read1 prod.case sum.case Channel_try_from_def Some ok_or_simps and_then_simps
        Let_def read_exact_quiet[OF f1(1)] f1(2)
      by (cases "?len \<le> length (drop 25 ?bs)") (auto simp del: length_drop drop_take take_take)
    then show ?thesis
      by (simp add: first)
  qed
qed

lemma scan_loop_quiet:
  assumes "quiet f" "unat n + length (unread f) < 2 ^ 64" "unat r + length (unread f) < 2 ^ 64"
    "unat v + length (unread f) < 2 ^ 64"
  shows "scan_loop H f n r v =
    (let frs = parse_frames H n (unread f)
     in if bad_channel_tail H n (unread f) then Inl unknown_channel
        else Inr (frs, v + of_nat (frames_total frs), r + of_nat (payload_total frs)))"
  using assms
proof (induction "length (unread f)" arbitrary: f n r v rule: less_induct)
  case less
  show ?case
  proof (cases "parse_frame H n (unread f)")
    case None
    then show ?thesis
      by (subst scan_loop.simps)
        (simp add: scan_step_end[OF less(2)] parse_frames_None bad_channel_tail_def Let_def)
  next
    case (Some p)
    obtain fr rest where p: "parse_frame H n (unread f) = Some (fr, rest)"
      using Some by force
    let ?f' = "f\<lparr>file_pos := file_pos f + frame_size fr\<rparr>"
    let ?n' = "n + 1" and ?r' = "r + of_nat (length (fr_payload fr))" and ?v' = "v + of_nat (frame_size fr)"
    have bytes: "unread f = encode_frame H fr @ rest"
      using p by (simp add: parse_frame_iff)
    have size: "frame_size fr = 25 + length (fr_payload fr)"
      by (simp add: frame_size_def FRAME_HEADER_LEN_def)
    have len: "length (unread f) = frame_size fr + length rest"
      by (simp add: bytes)
    note next_file = read_frame_quiet_Some(2,3)[OF less(2) p]
    have frs: "parse_frames H n (unread f) = fr # parse_frames H ?n' rest"
      by (subst parse_frames.simps) (simp add: p)
    have tail: "bad_channel_tail H n (unread f) \<longleftrightarrow> bad_channel_tail H ?n' rest"
      unfolding bad_channel_tail_def frs by (simp add: bytes)
    have room: "unat ?n' + length rest < 2 ^ 64" "unat ?r' + length rest < 2 ^ 64" "unat ?v' + length rest < 2 ^ 64"
    proof -
      have add: "unat (a + of_nat k) \<le> unat a + k" for a :: u64 and k
        unfolding unat_word_ariths unat_of_nat
        by (meson add_left_mono mod_less_eq_dividend order_trans take_bit_nat_less_eq_self)
      show "unat ?n' + length rest < 2 ^ 64" "unat ?r' + length rest < 2 ^ 64" "unat ?v' + length rest < 2 ^ 64"
        using less(3,4,5) len size add[of n 1] add[of r "length (fr_payload fr)"] add[of v "frame_size fr"]
        by simp_all
    qed
    have step: "scan_step H f n r v = Inr (Some (fr, ?f', ?n', ?r', ?v'))"
      using less(3,4,5) len size by (intro scan_step_quiet[OF less(2) p]) simp_all
    have rec: "scan_loop H ?f' ?n' ?r' ?v' =
      (let frs = parse_frames H ?n' rest
       in if bad_channel_tail H ?n' rest then Inl unknown_channel
          else Inr (frs, ?v' + of_nat (frames_total frs), ?r' + of_nat (payload_total frs)))"
      by (rule less(1)[of ?f' ?n' ?r' ?v', unfolded next_file(2), OF _ next_file(1) room])
        (simp only: len size)
    show ?thesis
      by (subst scan_loop.simps) (simp add: step rec frs tail Let_def add.assoc[symmetric])
  qed
qed

lemma scan_calm:
  assumes "length bs < 2 ^ 64"
  shows "scan_valid_frames H (opened bs) =
    (if length bs < 8 then Inl eof
     else if \<not> has_magic bs then Inl (IoError InvalidData ''invalid output magic'')
     else if bad_channel_tail H 0 (drop 8 bs) then Inl unknown_channel
     else Inr (kept_frames H bs, of_nat (length (kept_bytes H bs)), of_nat (payload_total (kept_frames H bs))))"
proof (cases "8 \<le> length bs")
  case True
  have "scan_loop H ((opened bs)\<lparr>file_pos := 8\<rparr>) 0 0 8 =
    (if bad_channel_tail H 0 (drop 8 bs) then Inl unknown_channel
     else Inr (kept_frames H bs, of_nat (length (kept_bytes H bs)), of_nat (payload_total (kept_frames H bs))))"
    using assms True after_magic[of bs]
    by (subst scan_loop_quiet) (simp_all add: Let_def kept_frames_def[symmetric] length_kept_bytes)
  then show ?thesis
    using True
    by (simp add: scan_valid_frames_def read_exact_quiet has_magic_def) (simp add: opened_def)
qed (simp add: scan_valid_frames_def read_exact_quiet)

lemma engine_repair_calm:
  assumes "length bs < 2 ^ 64"
  shows "engine_repair_opened H (calm bs) (opened bs) =
    (case scan_valid_frames H (opened bs) of
       Inl e \<Rightarrow> (Inl e, bs)
     | Inr (frs, valid_len, retained) \<Rightarrow>
         (Inr \<lparr>retained_bytes = retained, discarded_bytes = 0, physical_bytes = valid_len, truncated = False\<rparr>,
          kept_bytes H bs))"
proof (cases "has_magic bs \<and> \<not> bad_channel_tail H 0 (drop 8 bs)")
  case True
  define k where "k = length (kept_bytes H bs)"
  have k: "k \<le> length bs" "take k bs = kept_bytes H bs"
    using kept_bytes_prefix[of bs H] True by (simp_all add: k_def)
  have unat: "unat (of_nat k :: u64) = k" "unat (of_nat (length bs) :: u64) = length bs"
    using k assms by (simp_all only: unat_of_nat_u64 le_less_trans)
  have cmp: "\<not> (of_nat (length bs) :: u64) < of_nat k"
    unfolding word_less_nat_alt unat using k by simp
  have scan: "scan_valid_frames H (opened bs)
      = Inr (kept_frames H bs, of_nat k, of_nat (payload_total (kept_frames H bs)))"
    using True has_magic_long[of bs] by (simp add: scan_calm[OF assms] k_def)
  show ?thesis
    unfolding engine_repair_opened_def scan using unat cmp k(2)
    by (simp add: calm_def Let_def)
next
  case False
  then have "\<exists>e. scan_valid_frames H (opened bs) = Inl e"
    unfolding scan_calm[OF assms] by auto
  then obtain e where "scan_valid_frames H (opened bs) = Inl e" ..
  then show ?thesis
    by (simp add: engine_repair_opened_def calm_def)
qed


section \<open>Guarantees of repair\<close>

lemma totals_bound: "payload_total frs \<le> frames_total frs" "length frs \<le> frames_total frs"
  by (induction frs) (simp_all add: frame_size_def FRAME_HEADER_LEN_def)

lemma repaired_counts:
  assumes "has_magic bs" "length bs < 2 ^ 64" "length bs = length (kept_bytes H bs) + t"
  shows "unat (rep_frames (repaired H bs)) = length (kept_frames H bs)"
    "unat (rep_payload_bytes (repaired H bs)) = payload_total (kept_frames H bs)"
    "unat (rep_physical_bytes (repaired H bs)) = length (kept_bytes H bs)"
    "unat (rep_tail_removed (repaired H bs)) = t"
  unfolding repaired_def output_repair.simps
  by (rule unat_of_nat_u64[THEN trans],
      use assms totals_bound[of "kept_frames H bs"] length_kept_bytes[of H bs] in linarith,
      use assms in simp)+

lemma repair_again:
  assumes "has_magic bs" "length bs < 2 ^ 64"
  shows "repair_opened H (calm (kept_bytes H bs)) (opened (kept_bytes H bs))
      = (Inr (repaired H (kept_bytes H bs)), kept_bytes H bs)"
    "rep_tail_removed (repaired H (kept_bytes H bs)) = 0"
    "rep_frames (repaired H (kept_bytes H bs)) = rep_frames (repaired H bs)"
proof -
  have "has_magic (kept_bytes H bs)" "length (kept_bytes H bs) < 2 ^ 64"
    using kept_bytes_prefix(2)[OF assms(1), of H] assms(2) by (simp_all add: kept_bytes_def)
  then show "repair_opened H (calm (kept_bytes H bs)) (opened (kept_bytes H bs))
      = (Inr (repaired H (kept_bytes H bs)), kept_bytes H bs)"
    using has_magic_long[of "kept_bytes H bs"] by (simp add: store_repair_calm)
qed (simp_all add: repaired_def)

text \<open>C17: Repairing an output file of the store that nobody else writes to. A file without the format
  header is refused and left as it is. Otherwise the file becomes the header followed by
  exactly the frames of the reference parser, the longest prefix of well-formed frames in
  sequence: it is a prefix of the old contents, the counters of the report are those of the
  kept frames, and the removed tail is the rest. Repairing again keeps every byte.\<close>

theorem store_repair_exact:
  assumes "length bs < 2 ^ 64" and "repair_opened H (calm bs) (opened bs) = (result, bs')"
  shows "(\<exists>e. result = Inl e \<and> bs' = bs \<and> \<not> has_magic bs) \<or>
    (\<exists>rep frs tail. result = Inr rep \<and> has_magic bs \<and>
       bs' = MAGIC @ encode_frames H frs \<and> bs = bs' @ tail \<and> numbered 0 frs \<and>
       parse_frame H (of_nat (length frs)) tail = None \<and>
       unat (rep_frames rep) = length frs \<and> unat (rep_payload_bytes rep) = payload_total frs \<and>
       unat (rep_physical_bytes rep) = length bs' \<and> unat (rep_tail_removed rep) = length tail \<and>
       (\<exists>rep'. repair_opened H (calm bs') (opened bs') = (Inr rep', bs') \<and>
          rep_tail_removed rep' = 0 \<and> rep_frames rep' = rep_frames rep))"
proof (cases "has_magic bs")
  case False
  then show ?thesis
    using assms(2) by (auto simp: store_repair_calm[OF assms(1)] split: if_splits)
next
  case True
  have result: "result = Inr (repaired H bs)" "bs' = kept_bytes H bs"
    using assms(2) True has_magic_long[OF True] by (simp_all add: store_repair_calm[OF assms(1)])
  obtain tail where tail: "drop 8 bs = encode_frames H (kept_frames H bs) @ tail"
      "numbered 0 (kept_frames H bs)" "parse_frame H (of_nat (length (kept_frames H bs))) tail = None"
    by (rule kept_frames_split)
  then have split: "bs = kept_bytes H bs @ tail"
    using True append_take_drop_id[of 8 bs] unfolding kept_bytes_def has_magic_def by simp
  have len: "length bs = length (kept_bytes H bs) + length tail"
    by (subst split) simp
  note counts = repaired_counts[OF True assms(1) len]
  have kept: "kept_bytes H bs = MAGIC @ encode_frames H (kept_frames H bs)"
    by (rule kept_bytes_def)
  show ?thesis
    unfolding result
    using True kept split tail(2,3) counts repair_again[OF True assms(1), of H] by blast
qed

text \<open>C27: the repairs of the two crates agree. On a file that nobody else writes to, the engine's
  repair keeps the same bytes and reports the same payload and file size as the store's, and
  refuses the same files, with one exception: when the first bytes after the kept frames form a
  complete frame header with an unknown channel, the engine reports an error and leaves the
  file as it is, where the store removes the tail.\<close>

theorem repairs_agree:
  assumes "length bs < 2 ^ 64"
  shows "case (engine_repair_opened H (calm bs) (opened bs), repair_opened H (calm bs) (opened bs)) of
      ((Inr stats, bs1), (Inr rep, bs2)) \<Rightarrow>
        bs1 = bs2 \<and> retained_bytes stats = rep_payload_bytes rep \<and> physical_bytes stats = rep_physical_bytes rep
    | ((Inl e, bs1), (Inl e', bs2)) \<Rightarrow> bs1 = bs \<and> bs2 = bs \<and> error_kind e = error_kind e'
    | ((Inl e, bs1), (Inr rep, bs2)) \<Rightarrow>
        bs1 = bs \<and> e = unknown_channel \<and>
        (\<exists>b tail. bs = bs2 @ b # tail \<and> 24 \<le> length tail \<and> decode_channel b = None)
    | ((Inr stats, bs1), (Inl e, bs2)) \<Rightarrow> False"
proof -
  have tail: "\<exists>b tail. bs = kept_bytes H bs @ b # tail \<and> 24 \<le> length tail \<and> decode_channel b = None"
    if "has_magic bs" "bad_channel_tail H 0 (drop 8 bs)"
  proof -
    let ?rest = "drop (frames_total (kept_frames H bs)) (drop 8 bs)"
    have rest: "25 \<le> length ?rest" "decode_channel (?rest ! 0) = None"
      using that(2) unfolding bad_channel_tail_def Let_def kept_frames_def[symmetric] FRAME_HEADER_LEN_def by blast+
    have "bs = kept_bytes H bs @ ?rest"
      using append_take_drop_id[of "length (kept_bytes H bs)" bs]
      unfolding kept_bytes_prefix(1)[OF that(1), of H]
      by (simp only: length_kept_bytes drop_drop add.commute)
    moreover obtain b t where "?rest = b # t"
      using rest(1) by (cases ?rest) auto
    ultimately show ?thesis
      using rest by (intro exI[of _ b] exI[of _ t]) auto
  qed
  show ?thesis
    unfolding engine_repair_calm[OF assms] store_repair_calm[OF assms] scan_calm[OF assms]
    using tail by (auto simp: repaired_def)
qed

text \<open>A repair that fails has not touched the file: whatever fault reading, measuring or
  truncating it reports, the bytes are those before the call, unless only the final sync failed.
  This holds for every file and every combination of faults, in both crates.\<close>

theorem failed_repair_keeps_file:
  assumes "repair_opened H calls f = (Inl e, bs) \<or> engine_repair_opened H calls f = (Inl e, bs)"
  shows "bs = file_bytes f \<or> sync_fault calls = Some e"
  using assms
  by (auto simp: repair_opened_def engine_repair_opened_def Let_def
      split: sum.splits option.splits if_splits prod.splits)

end
