(* ===== verification/Output_Capture.thy ===== *)
theory Output_Capture
  imports Output_Repair "HOL-Library.Sublist"
begin

text \<open>
  What the writers put into a file and what survives a crash. The contract of \<open>write_all\<close> and
  the contract of the hasher are locales; the guarantees of the writers are proved from them
  once and hold for the disk model at the end, a file that takes bytes up to a capacity, with
  the bitwise CRC-32. The capture theorem says what is retained under the allowance and what the
  counters mean; the recovery theorem says that output flushed before a failure survives the
  repair of either crate, whatever part of the later writes reached the file.
\<close>


section \<open>The contract of a byte sink\<close>

text \<open>
  The engine's file is a \<open>BufWriter\<close>: \<open>content\<close> is what was handed over to it, in order. The file
  on disk holds a prefix of that, all of it after a flush.
\<close>

locale byte_sink =
  fixes write_all :: "'s \<Rightarrow> byte list \<Rightarrow> io_error option \<times> 's"
    and content :: "'s \<Rightarrow> byte list"
  assumes write_ok: "write_all s bs = (None, s') \<Longrightarrow> content s' = content s @ bs"
    and write_fails: "write_all s bs = (Some e, s') \<Longrightarrow> \<exists>k. content s' = content s @ take k bs"
begin

lemma pieces_ok: "write_pieces write_all s ps = (None, s') \<Longrightarrow> content s' = content s @ concat ps"
  by (induction ps arbitrary: s) (auto simp: write_ok split: prod.splits option.splits)

lemma pieces_fail:
  "write_pieces write_all s ps = (Some e, s') \<Longrightarrow> \<exists>k. content s' = content s @ take k (concat ps)"
proof (induction ps arbitrary: s)
  case (Cons p ps)
  obtain r s1 where first: "write_all s p = (r, s1)"
    by force
  show ?case
  proof (cases r)
    case None
    then have "content s1 = content s @ p" and "write_pieces write_all s1 ps = (Some e, s')"
      using first Cons.prems by (simp_all add: write_ok)
    then obtain k where "content s' = content s @ p @ take k (concat ps)"
      using Cons.IH by fastforce
    then show ?thesis
      by (intro exI[of _ "length p + k"]) simp
  next
    case (Some e')
    then have "write_all s p = (Some e', s')"
      using first Cons.prems by simp
    from write_fails[OF this] obtain k where "content s' = content s @ take k p"
      by blast
    then show ?thesis
      by (intro exI[of _ "min k (length p)"]) (simp add: min_def)
  qed
qed simp

end

locale frame_sink = byte_sink write_all content + streaming_hasher H
  for write_all :: "'s \<Rightarrow> byte list \<Rightarrow> io_error option \<times> 's" and content and H :: "'h hasher"
begin

text \<open>The six pieces of a frame are the encoded frame.\<close>

lemma pieces_encode:
  "concat [[channel_code ch], u64_to_le_bytes sq, u64_to_le_bytes el, u32_to_le_bytes (of_nat (length p)),
     u32_to_le_bytes (hash_finalize H (hash_update H (hash_update H (hash_update H (hash_update H
       (hash_update H (hash_new H) [channel_code ch]) (u64_to_le_bytes sq)) (u64_to_le_bytes el))
       (u32_to_le_bytes (of_nat (length p)))) p)), p]
   = encode_frame H \<lparr>fr_channel = ch, fr_sequence = sq, fr_elapsed_us = el, fr_payload = p\<rparr>"
  by (simp add: encode_frame_def frame_head_def checksum_def update_append Let_def)

end


section \<open>Chunks and their frames\<close>

fun chunk_frames :: "frame_channel \<Rightarrow> u64 \<Rightarrow> u64 \<Rightarrow> byte list list \<Rightarrow> frame list" where
  "chunk_frames ch el sq [] = []"
| "chunk_frames ch el sq (p # ps) =
     \<lparr>fr_channel = ch, fr_sequence = sq, fr_elapsed_us = el, fr_payload = p\<rparr> # chunk_frames ch el (sq + 1) ps"

text \<open>The bytes of a frame with the channel and the time they were captured on.\<close>

definition tagged :: "frame \<Rightarrow> (frame_channel \<times> u64 \<times> byte) list" where
  "tagged fr = map (\<lambda>b. (fr_channel fr, fr_elapsed_us fr, b)) (fr_payload fr)"

definition tagged_frames :: "frame list \<Rightarrow> (frame_channel \<times> u64 \<times> byte) list" where
  "tagged_frames frs = concat (map tagged frs)"

lemma chunks_props:
  assumes "0 < n"
  shows "concat (chunks n xs) = xs \<and> (\<forall>c\<in>set (chunks n xs). c \<noteq> [] \<and> length c \<le> n)"
proof (induction "length xs" arbitrary: xs rule: less_induct)
  case less
  show ?case
  proof (cases "xs = []")
    case True
    then have "chunks n xs = []"
      by (subst chunks.simps) simp
    then show ?thesis
      using True by simp
  next
    case False
    then have unfold: "chunks n xs = take n xs # chunks n (drop n xs)"
      using assms by (subst chunks.simps) simp
    have shorter: "length (drop n xs) < length xs"
      using False assms by (cases xs) auto
    note rest = less[OF shorter]
    have first: "take n xs \<noteq> [] \<and> length (take n xs) \<le> n"
      using False assms by auto
    have "concat (chunks n xs) = xs"
      by (simp only: unfold concat.simps conjunct1[OF rest] append_take_drop_id)
    moreover have "c \<noteq> [] \<and> length c \<le> n" if "c \<in> set (chunks n xs)" for c
    proof -
      from that consider "c = take n xs" | "c \<in> set (chunks n (drop n xs))"
        by (auto simp only: unfold list.set)
      then show ?thesis
        using first bspec[OF conjunct2[OF rest]] by cases simp_all
    qed
    ultimately show ?thesis
      by blast
  qed
qed

lemma tagged_frames_simps [simp]:
  "tagged_frames [] = []" "tagged_frames (fr # frs) = tagged fr @ tagged_frames frs"
  "tagged_frames (frs @ frs') = tagged_frames frs @ tagged_frames frs'"
  by (simp_all add: tagged_frames_def)

lemma tagged_chunks: "tagged_frames (chunk_frames ch el sq ps) = map (\<lambda>b. (ch, el, b)) (concat ps)"
  by (induction ps arbitrary: sq) (simp_all add: tagged_def)

lemma numbered_chunks:
  "\<forall>c\<in>set ps. length c \<le> MAX_FRAME_PAYLOAD \<Longrightarrow> numbered sq (chunk_frames ch el sq ps)"
  by (induction ps arbitrary: sq) (simp_all add: valid_frame_def)

lemma length_tagged: "length (tagged_frames frs) = payload_total frs"
  by (induction frs) (simp_all add: tagged_def)

lemma nonempty_bound: "\<forall>fr\<in>set frs. fr_payload fr \<noteq> [] \<Longrightarrow> frames_total frs \<le> 26 * payload_total frs"
  by (induction frs) (auto simp: frame_size_def FRAME_HEADER_LEN_def simp flip: length_greater_0_conv)

lemma nonempty_chunks: "\<forall>c\<in>set ps. c \<noteq> [] \<Longrightarrow> \<forall>fr\<in>set (chunk_frames ch el sq ps). fr_payload fr \<noteq> []"
  by (induction ps arbitrary: sq) auto

lemma length_chunk_frames [simp]: "length (chunk_frames ch el sq ps) = length ps"
  by (induction ps arbitrary: sq) simp_all


section \<open>The engine's writer\<close>

text \<open>The file and the counters of a writer that has written these frames.\<close>

definition wrote :: "('s \<Rightarrow> byte list) \<Rightarrow> 'h hasher \<Rightarrow> 's output_writer \<Rightarrow> frame list \<Rightarrow> bool" where
  "wrote content H W frs \<longleftrightarrow>
     content (ow_file W) = MAGIC @ encode_frames H frs \<and> numbered 0 frs \<and>
     (\<forall>fr\<in>set frs. fr_payload fr \<noteq> []) \<and> ow_next_sequence W = of_nat (length frs) \<and>
     retained_bytes (ow_stats W) = of_nat (payload_total frs) \<and>
     physical_bytes (ow_stats W) = of_nat (8 + frames_total frs)"

definition same_allowance :: "'s output_writer \<Rightarrow> 's output_writer \<Rightarrow> bool" where
  "same_allowance W W' \<longleftrightarrow> ow_limit W' = ow_limit W \<and>
     discarded_bytes (ow_stats W') = discarded_bytes (ow_stats W) \<and>
     truncated (ow_stats W') = truncated (ow_stats W)"

abbreviation micros :: "nat \<Rightarrow> u64" where
  "micros el \<equiv> of_nat (min el u64_max)"

lemma saturating_add_of_nat:
  "a + b < 2 ^ 64 \<Longrightarrow> u64_saturating_add (of_nat a) (of_nat b) = of_nat (a + b)"
  by (simp add: u64_saturating_add_def unat_of_nat_u64 u64_max_def)

lemma payload_total_append [simp]:
  "payload_total (frs @ frs') = payload_total frs + payload_total frs'"
  "frames_total (frs @ frs') = frames_total frs + frames_total frs'"
  by (simp_all add: payload_total_def frames_total_def)

context frame_sink
begin

lemma write_frame_effect:
  assumes "wrote content H W frs" "p \<noteq> []" "length p \<le> MAX_FRAME_PAYLOAD"
    "8 + frames_total frs + 25 + length p < 2 ^ 64"
    and run: "write_frame write_all H ch el W p = (r, W')"
  defines "fr \<equiv> \<lparr>fr_channel = ch, fr_sequence = of_nat (length frs), fr_elapsed_us = micros el, fr_payload = p\<rparr>"
  shows "r = None \<Longrightarrow> wrote content H W' (frs @ [fr]) \<and> same_allowance W W'"
    and "r = Some e \<Longrightarrow> \<exists>k. content (ow_file W') = content (ow_file W) @ take k (encode_frame H fr)"
proof -
  let ?sq = "of_nat (length frs) :: u64"
  let ?pieces = "[[channel_code ch], u64_to_le_bytes ?sq, u64_to_le_bytes (micros el), u32_to_le_bytes (of_nat (length p)),
     u32_to_le_bytes (hash_finalize H (hash_update H (hash_update H (hash_update H (hash_update H
       (hash_update H (hash_new H) [channel_code ch]) (u64_to_le_bytes ?sq)) (u64_to_le_bytes (micros el)))
       (u32_to_le_bytes (of_nat (length p)))) p)), p]"
  have len: "u32_try_from (length p) = Some (of_nat (length p))"
    using assms(3) by (simp add: u32_try_from_def u32_max_def MAX_FRAME_PAYLOAD_def)
  have sq: "ow_next_sequence W = ?sq"
    using assms(1) by (simp add: wrote_def)
  have encoded: "concat ?pieces = encode_frame H fr"
    unfolding fr_def by (rule pieces_encode)
  obtain q s' where q: "write_pieces write_all (ow_file W) ?pieces = (q, s')"
    by force
  note unfolded = run[unfolded write_frame_def Let_def len option.case sq q prod.case]
  show "\<exists>k. content (ow_file W') = content (ow_file W) @ take k (encode_frame H fr)" if "r = Some e"
  proof -
    have "q = Some e" "W' = W\<lparr>ow_file := s'\<rparr>"
      using unfolded that by (auto split: option.splits)
    then show ?thesis
      using pieces_fail[of "ow_file W" ?pieces e s'] q unfolding encoded by simp
  qed
  show "wrote content H W' (frs @ [fr]) \<and> same_allowance W W'" if "r = None"
  proof -
    have small: "payload_total frs \<le> frames_total frs" "length frs \<le> frames_total frs"
      by (rule totals_bound)+
    have "q = None"
      using unfolded that by (auto split: option.splits)
    moreover from this have bytes: "content s' = content (ow_file W) @ encode_frame H fr"
      using pieces_ok[of "ow_file W" ?pieces s'] q unfolding encoded by simp
    moreover have sums: "u64_saturating_add ?sq 1 = of_nat (length frs + 1)"
      "u64_saturating_add (of_nat (payload_total frs)) (of_nat (length p)) = of_nat (payload_total frs + length p)"
      "u64_saturating_add (u64_saturating_add (of_nat (8 + frames_total frs)) (of_nat FRAME_HEADER_LEN)) (of_nat (length p))
        = of_nat (8 + frames_total frs + 25 + length p)"
      using saturating_add_of_nat[of "length frs" 1] saturating_add_of_nat[of "payload_total frs" "length p"]
        saturating_add_of_nat[of "8 + frames_total frs" 25] saturating_add_of_nat[of "8 + frames_total frs + 25" "length p"]
        assms(4) small by (simp_all only: FRAME_HEADER_LEN_def of_nat_1)
    ultimately show ?thesis
      using unfolded that assms(1,2,3)
      by (auto simp: wrote_def same_allowance_def fr_def valid_frame_def frame_size_def FRAME_HEADER_LEN_def
          add.commute add.left_commute)
  qed
qed

lemma write_frames_effect:
  assumes "wrote content H W frs" "\<forall>c\<in>set ps. c \<noteq> [] \<and> length c \<le> MAX_FRAME_PAYLOAD"
    "8 + frames_total (frs @ chunk_frames ch (micros el) (of_nat (length frs)) ps) < 2 ^ 64"
    and run: "write_frames write_all H ch el W ps = (r, W')"
  defines "new \<equiv> chunk_frames ch (micros el) (of_nat (length frs)) ps"
  shows "(r = None \<longrightarrow> wrote content H W' (frs @ new) \<and> same_allowance W W') \<and>
    (\<forall>e. r = Some e \<longrightarrow> (\<exists>k. content (ow_file W') = content (ow_file W) @ take k (encode_frames H new)))"
  using assms(1-4) unfolding new_def
proof (induction ps arbitrary: W frs)
  case Nil
  then show ?case
    by (simp add: same_allowance_def)
next
  case (Cons p ps)
  let ?fr = "\<lparr>fr_channel = ch, fr_sequence = of_nat (length frs), fr_elapsed_us = micros el, fr_payload = p\<rparr>"
  let ?new = "chunk_frames ch (micros el) (of_nat (length frs) + 1) ps"
  obtain q W1 where q: "write_frame write_all H ch el W p = (q, W1)"
    by force
  have room: "8 + frames_total frs + 25 + length p < 2 ^ 64"
    using Cons.prems(3) by (simp add: frame_size_def FRAME_HEADER_LEN_def)
  note effect = write_frame_effect[OF Cons.prems(1) _ _ room q]
  have p: "p \<noteq> []" "length p \<le> MAX_FRAME_PAYLOAD"
    using Cons.prems(2) by auto
  show ?case
  proof (cases q)
    case (Some e)
    then have "r = Some e" "W' = W1"
      using Cons.prems(4) q by simp_all
    moreover obtain k where k: "content (ow_file W1) = content (ow_file W) @ take k (encode_frame H ?fr)"
      using effect(2)[OF p Some] by blast
    ultimately show ?thesis
      by (auto intro!: exI[of _ "min k (frame_size ?fr)"] simp: min_def)
  next
    case None
    note ok = effect(1)[OF p None]
    have rest: "write_frames write_all H ch el W1 ps = (r, W')"
      using Cons.prems(4) q None by simp
    have size: "8 + frames_total ((frs @ [?fr]) @ chunk_frames ch (micros el) (of_nat (length (frs @ [?fr]))) ps) < 2 ^ 64"
      using Cons.prems(3) by (simp add: add.assoc add.commute)
    have IH: "(r = None \<longrightarrow> wrote content H W' ((frs @ [?fr]) @ ?new) \<and> same_allowance W1 W') \<and>
      (\<forall>e. r = Some e \<longrightarrow> (\<exists>k. content (ow_file W') = content (ow_file W1) @ take k (encode_frames H ?new)))"
      using Cons.IH[OF conjunct1[OF ok] _ size rest] Cons.prems(2) by (simp add: add.commute)
    have bytes: "content (ow_file W1) = content (ow_file W) @ encode_frame H ?fr"
      using ok Cons.prems(1) by (simp add: wrote_def)
    have "\<exists>k. content (ow_file W') = content (ow_file W) @ take k (encode_frame H ?fr @ encode_frames H ?new)"
      if failed: "r = Some e" for e
    proof -
      obtain k where "content (ow_file W') = content (ow_file W1) @ take k (encode_frames H ?new)"
        using IH failed by blast
      then show ?thesis
        by (intro exI[of _ "frame_size ?fr + k"]) (simp add: bytes)
    qed
    then show ?thesis
      using IH ok by (auto simp: same_allowance_def)
  qed
qed

end


section \<open>Capturing under an allowance\<close>

type_synonym captured_byte = "frame_channel \<times> u64 \<times> byte"

definition stream_of :: "frame_channel \<Rightarrow> nat \<Rightarrow> byte list \<Rightarrow> captured_byte list" where
  "stream_of ch el bs = map (\<lambda>b. (ch, micros el, b)) bs"

text \<open>
  A writer that was offered the bytes of \<open>stream\<close>: the frames hold the first bytes up to the
  allowance, and the counters are exact.
\<close>

definition captured ::
    "('s \<Rightarrow> byte list) \<Rightarrow> 'h hasher \<Rightarrow> 's output_writer \<Rightarrow> captured_byte list \<Rightarrow> frame list \<Rightarrow> bool" where
  "captured content H W stream frs \<longleftrightarrow>
     wrote content H W frs \<and> tagged_frames frs = take (unat (ow_limit W)) stream \<and>
     discarded_bytes (ow_stats W) = of_nat (length stream - unat (ow_limit W)) \<and>
     (truncated (ow_stats W) \<longleftrightarrow> unat (ow_limit W) < length stream)"

lemma captured_total: "captured content H W stream frs \<Longrightarrow> payload_total frs = min (length stream) (unat (ow_limit W))"
  by (metis captured_def length_tagged length_take)

lemma retained_length:
  fixes limit :: u64
  assumes "length stream + length payload < 2 ^ 64"
  defines "kept \<equiv> min (length stream) (unat limit)"
  shows "unat (min (u64_saturating_sub limit (of_nat kept)) (of_nat (length payload)))
    = min (unat limit - kept) (length payload)"
proof -
  have "unat (of_nat kept :: u64) = kept"
    using assms by (intro unat_of_nat_u64) simp
  then have "unat (u64_saturating_sub limit (of_nat kept)) = unat limit - kept"
    using assms(2) by (simp add: u64_saturating_sub_def word_le_nat_alt unat_sub)
  moreover have "unat (of_nat (length payload) :: u64) = length payload"
    using assms(1) by (intro unat_of_nat_u64) simp
  ultimately show ?thesis
    by (simp add: min_def word_le_nat_alt)
qed

context frame_sink
begin

lemma write_effect:
  assumes "captured content H W stream frs" "8 + 26 * (length stream + length payload) < 2 ^ 64"
    and run: "OutputWriter_write write_all H W ch el payload = (r, W')"
  shows "\<exists>new. tagged_frames (frs @ new) = take (unat (ow_limit W)) (stream @ stream_of ch el payload) \<and>
    numbered 0 (frs @ new) \<and> 8 + frames_total (frs @ new) < 2 ^ 64 \<and>
    (r = None \<longrightarrow> captured content H W' (stream @ stream_of ch el payload) (frs @ new) \<and> ow_limit W' = ow_limit W) \<and>
    (\<forall>e. r = Some e \<longrightarrow> (\<exists>k. content (ow_file W') = content (ow_file W) @ take k (encode_frames H new)))"
proof -
  let ?limit = "unat (ow_limit W)"
  define kept where "kept = min (length stream) ?limit"
  define room where "room = min (?limit - kept) (length payload)"
  define ps where "ps = chunks MAX_FRAME_PAYLOAD (take room payload)"
  define new where "new = chunk_frames ch (micros el) (of_nat (length frs)) ps"
  have wrote: "wrote content H W frs" and tags: "tagged_frames frs = take ?limit stream"
    and counts: "discarded_bytes (ow_stats W) = of_nat (length stream - ?limit)"
      "truncated (ow_stats W) \<longleftrightarrow> ?limit < length stream"
    using assms(1) by (simp_all add: captured_def)
  have retained: "retained_bytes (ow_stats W) = of_nat kept" "payload_total frs = kept"
    using wrote captured_total[OF assms(1)] by (simp_all add: wrote_def kept_def)
  have ps: "concat ps = take room payload" "\<forall>c\<in>set ps. c \<noteq> [] \<and> length c \<le> MAX_FRAME_PAYLOAD"
    using chunks_props[of MAX_FRAME_PAYLOAD "take room payload"] by (simp_all add: ps_def MAX_FRAME_PAYLOAD_def)
  have new: "tagged_frames new = stream_of ch el (take room payload)"
    by (simp add: new_def tagged_chunks ps(1) stream_of_def)
  have all_tags: "tagged_frames (frs @ new) = take ?limit (stream @ stream_of ch el payload)"
    by (simp add: tags new stream_of_def room_def kept_def take_map min_def)
  have numbers: "numbered 0 (frs @ new)"
    using wrote numbered_chunks[of ps "of_nat (length frs)" ch "micros el"] ps(2) by (simp add: wrote_def new_def)
  have "frames_total (frs @ new) \<le> 26 * payload_total (frs @ new)"
    using wrote nonempty_chunks[of ps] ps(2) by (intro nonempty_bound) (auto simp: wrote_def new_def)
  also have "\<dots> \<le> 26 * (length stream + length payload)"
    by (simp add: retained(2) kept_def new[THEN arg_cong[where f = length], unfolded length_tagged] stream_of_def room_def)
  finally have size: "8 + frames_total (frs @ new) < 2 ^ 64"
    using assms(2) by simp
  have room: "unat (min (u64_saturating_sub (ow_limit W) (retained_bytes (ow_stats W))) (of_nat (length payload))) = room"
    unfolding retained(1) room_def kept_def by (rule retained_length) (use assms(2) in simp)
  obtain q W1 where q: "write_frames write_all H ch el W ps = (q, W1)"
    by force
  have empty: "ps = []" if "room = 0"
    using ps that by (cases ps) auto
  have step: "(if 0 < room then write_frames write_all H ch el W ps else (None, W)) = (q, W1)"
    using q empty by (cases "room = 0") simp_all
  note effect = write_frames_effect[OF wrote ps(2) size[unfolded new_def] q, folded new_def]
  note unfolded = run[unfolded OutputWriter_write_def Let_def room ps_def[symmetric] step prod.case]
  have "\<exists>k. content (ow_file W') = content (ow_file W) @ take k (encode_frames H new)" if "r = Some e" for e
    using unfolded that effect by (auto split: option.splits)
  moreover have "captured content H W' (stream @ stream_of ch el payload) (frs @ new) \<and> ow_limit W' = ow_limit W"
    if "r = None"
  proof -
    have q_ok: "q = None"
      using unfolded that by (auto split: option.splits)
    then have W1: "wrote content H W1 (frs @ new)" "same_allowance W W1"
      using effect by auto
    let ?lost = "length payload - room"
    have lost: "length stream - ?limit + ?lost = length (stream @ stream_of ch el payload) - ?limit"
      by (simp add: room_def kept_def stream_of_def min_def add.commute)
    have word: "(0 :: u64) < of_nat ?lost \<longleftrightarrow> 0 < ?lost"
      using assms(2) unat_of_nat_u64[of ?lost] by (simp add: word_less_nat_alt)
    have sum: "u64_saturating_add (of_nat (length stream - ?limit)) (of_nat ?lost)
        = of_nat (length (stream @ stream_of ch el payload) - ?limit)"
      unfolding lost[symmetric] using assms(2) by (intro saturating_add_of_nat) simp
    have over: "?limit < length stream \<or> 0 < ?lost \<longleftrightarrow> ?limit < length (stream @ stream_of ch el payload)"
      using lost by linarith
    show ?thesis
      using unfolded q_ok W1 counts sum over all_tags word
      by (auto simp: captured_def wrote_def same_allowance_def)
  qed
  ultimately show ?thesis
    using all_tags numbers size by blast
qed

end


section \<open>A sequence of writes\<close>

text \<open>A writer that receives the output of an attempt piece by piece, up to the first failure.\<close>

fun capture ::
    "('s \<Rightarrow> byte list \<Rightarrow> io_error option \<times> 's) \<Rightarrow> 'h hasher \<Rightarrow> 's output_writer \<Rightarrow>
     (frame_channel \<times> nat \<times> byte list) list \<Rightarrow> io_error option \<times> 's output_writer" where
  "capture w H W [] = (None, W)"
| "capture w H W ((ch, el, payload) # rest) =
     (case OutputWriter_write w H W ch el payload of
        (Some e, W') \<Rightarrow> (Some e, W')
      | (None, W') \<Rightarrow> capture w H W' rest)"

definition stream_of_all :: "(frame_channel \<times> nat \<times> byte list) list \<Rightarrow> captured_byte list" where
  "stream_of_all pieces = concat (map (\<lambda>(ch, el, payload). stream_of ch el payload) pieces)"

definition offered :: "(frame_channel \<times> nat \<times> byte list) list \<Rightarrow> nat" where
  "offered pieces = length (stream_of_all pieces)"

lemma stream_of_all_simps [simp]:
  "stream_of_all [] = []"
  "stream_of_all ((ch, el, payload) # rest) = stream_of ch el payload @ stream_of_all rest"
  by (simp_all add: stream_of_all_def)

lemma length_stream_of [simp]: "length (stream_of ch el payload) = length payload"
  by (simp add: stream_of_def)

lemma wrote_size:
  assumes "wrote content H W frs" "8 + 26 * payload_total frs < 2 ^ 64"
  shows "length (content (ow_file W)) = 8 + frames_total frs" "8 + frames_total frs < 2 ^ 64"
  using assms nonempty_bound[of frs] by (simp_all add: wrote_def length_encode_total)

context frame_sink
begin

lemma created_captured:
  assumes "content s = []" "OutputWriter_create write_all (Inr s) limit = Inr W"
  shows "captured content H W [] [] \<and> ow_limit W = limit"
  using assms
  by (auto simp: OutputWriter_create_def captured_def wrote_def write_ok split: prod.splits option.splits)

lemma capture_effect:
  assumes "captured content H W stream frs" "8 + 26 * (length stream + offered pieces) < 2 ^ 64"
    "capture write_all H W pieces = (None, W')"
  shows "\<exists>new. captured content H W' (stream @ stream_of_all pieces) (frs @ new) \<and> ow_limit W' = ow_limit W"
  using assms
proof (induction pieces arbitrary: W stream frs)
  case Nil
  then show ?case
    by (intro exI[of _ "[]"]) simp
next
  case (Cons piece rest)
  obtain ch el payload where piece: "piece = (ch, el, payload)"
    by (cases piece)
  obtain r W1 where W1: "OutputWriter_write write_all H W ch el payload = (r, W1)"
    by force
  have ok: "r = None" "capture write_all H W1 rest = (None, W')"
    using Cons.prems(3) W1 by (auto simp: piece split: option.splits)
  have "8 + 26 * (length stream + length payload) < 2 ^ 64"
    using Cons.prems(2) by (simp add: piece offered_def)
  from write_effect[OF Cons.prems(1) this W1] ok(1) obtain new where new:
    "captured content H W1 (stream @ stream_of ch el payload) (frs @ new)" "ow_limit W1 = ow_limit W"
    by blast
  have "8 + 26 * (length (stream @ stream_of ch el payload) + offered rest) < 2 ^ 64"
    using Cons.prems(2) by (simp add: piece offered_def)
  from Cons.IH[OF new(1) this ok(2)] new(2) show ?case
    by (auto simp: piece)
qed

text \<open>A sequence of writes that may fail leaves a cut of the frames of what it was offered.\<close>

lemma capture_torn:
  assumes "captured content H W stream frs" "8 + 26 * (length stream + offered pieces) < 2 ^ 64"
    "capture write_all H W pieces = (r, W')"
  shows "\<exists>new j. prefix (tagged_frames (frs @ new)) (take (unat (ow_limit W)) (stream @ stream_of_all pieces)) \<and>
    numbered 0 (frs @ new) \<and> 8 + frames_total (frs @ new) < 2 ^ 64 \<and>
    content (ow_file W') = MAGIC @ encode_frames H frs @ take j (encode_frames H new)"
  using assms
proof (induction pieces arbitrary: W stream frs)
  case Nil
  have total: "payload_total frs \<le> length stream"
    using captured_total[OF Nil.prems(1)] by simp
  have "wrote content H W frs"
    using Nil.prems(1) by (simp add: captured_def)
  moreover from this(1) have "8 + frames_total frs < 2 ^ 64"
    by (rule wrote_size(2)) (use total Nil.prems(2) in simp)
  ultimately show ?case
    using Nil by (intro exI[of _ "[]"]) (simp add: captured_def wrote_def)
next
  case (Cons piece rest)
  obtain ch el payload where piece: "piece = (ch, el, payload)"
    by (cases piece)
  obtain q W1 where W1: "OutputWriter_write write_all H W ch el payload = (q, W1)"
    by force
  have room: "8 + 26 * (length stream + length payload) < 2 ^ 64"
    "8 + 26 * (length (stream @ stream_of ch el payload) + offered rest) < 2 ^ 64"
    using Cons.prems(2) by (simp_all add: piece offered_def)
  obtain new where tags: "tagged_frames (frs @ new) = take (unat (ow_limit W)) (stream @ stream_of ch el payload)"
    and new: "numbered 0 (frs @ new)" "8 + frames_total (frs @ new) < 2 ^ 64"
    and ok: "q = None \<longrightarrow> captured content H W1 (stream @ stream_of ch el payload) (frs @ new) \<and> ow_limit W1 = ow_limit W"
    and failed: "\<forall>e. q = Some e \<longrightarrow> (\<exists>k. content (ow_file W1) = content (ow_file W) @ take k (encode_frames H new))"
    using write_effect[OF Cons.prems(1) room(1) W1] by blast
  have bytes: "content (ow_file W) = MAGIC @ encode_frames H frs"
    using Cons.prems(1) by (simp add: captured_def wrote_def)
  show ?case
  proof (cases q)
    case (Some e)
    then have "W' = W1"
      using Cons.prems(3) W1 by (simp add: piece)
    moreover have "prefix (tagged_frames (frs @ new)) (take (unat (ow_limit W)) (stream @ stream_of_all (piece # rest)))"
      unfolding tags piece by (simp add: take_append)
    ultimately show ?thesis
      using Some failed new bytes by fastforce
  next
    case None
    then have next_run: "capture write_all H W1 rest = (r, W')"
      using Cons.prems(3) W1 by (simp add: piece)
    from Cons.IH[OF conjunct1[OF ok[rule_format, OF None]] room(2) next_run] ok None obtain more j where
      "prefix (tagged_frames ((frs @ new) @ more)) (take (unat (ow_limit W)) ((stream @ stream_of ch el payload) @ stream_of_all rest))"
      "numbered 0 ((frs @ new) @ more)" "8 + frames_total ((frs @ new) @ more) < 2 ^ 64"
      "content (ow_file W') = MAGIC @ encode_frames H (frs @ new) @ take j (encode_frames H more)"
      by auto
    then show ?thesis
      by (intro exI[of _ "new @ more"] exI[of _ "length (encode_frames H new) + j"]) (simp add: piece)
  qed
qed

lemma session_effect:
  assumes "content s = []" "OutputWriter_create write_all (Inr s) limit = Inr W0"
    "capture write_all H W0 pieces = (None, W)" "8 + 26 * offered pieces < 2 ^ 64"
  shows "\<exists>frs. captured content H W (stream_of_all pieces) frs \<and> ow_limit W = limit"
  using capture_effect[of W0 "[]" "[]" pieces W] created_captured[OF assms(1,2)] assms(3,4) by auto

end

lemma no_bad_tail:
  "numbered 0 frs \<Longrightarrow> \<not> bad_channel_tail H 0 (encode_frames H frs)"
  by (simp add: bad_channel_tail_def parse_frames_all FRAME_HEADER_LEN_def length_encode_total)

text \<open>C25: Captured output reads back exactly. When every write of an attempt's output to a new file
  succeeded, reading the file gives frames that hold, byte for byte in the order of capture and
  with channel and time, the first bytes up to the allowance; the counters say how many bytes
  were kept and dropped and how long the file is, and the truncation flag is set exactly when
  something was dropped.\<close>

theorem output_capture_exact:
  assumes "frame_sink write_all content H" "content s = []"
    "OutputWriter_create write_all (Inr s) limit = Inr W0" "capture write_all H W0 pieces = (None, W)"
    "8 + 26 * offered pieces < 2 ^ 64"
  shows "\<exists>frs. read_frames H (Inr (opened (content (ow_file W)))) = Inr frs \<and>
      tagged_frames frs = take (unat limit) (stream_of_all pieces) \<and>
      unat (retained_bytes (ow_stats W)) = min (unat limit) (offered pieces) \<and>
      unat (discarded_bytes (ow_stats W)) = offered pieces - unat limit \<and>
      unat (physical_bytes (ow_stats W)) = length (content (ow_file W)) \<and>
      (truncated (ow_stats W) \<longleftrightarrow> unat limit < offered pieces)"
proof -
  obtain frs where frs: "captured content H W (stream_of_all pieces) frs" "ow_limit W = limit"
    using frame_sink.session_effect[OF assms] by blast
  have wrote: "wrote content H W frs"
    using frs(1) by (simp add: captured_def)
  have total: "payload_total frs = min (offered pieces) (unat limit)"
    using captured_total[OF frs(1)] frs(2) by (simp add: offered_def)
  have "8 + 26 * payload_total frs < 2 ^ 64"
    using assms(5) unfolding total by simp
  note size = wrote_size[OF wrote this]
  have bytes: "content (ow_file W) = MAGIC @ encode_frames H frs" "numbered 0 frs"
    using wrote by (simp_all add: wrote_def)
  have "read_frames H (Inr (opened (content (ow_file W)))) = Inr frs"
    using size bytes no_bad_tail[OF bytes(2), of H]
    by (simp add: read_frames_def scan_calm kept_frames_encoded)
  moreover have "unat (retained_bytes (ow_stats W)) = min (unat limit) (offered pieces)"
      "unat (discarded_bytes (ow_stats W)) = offered pieces - unat limit"
      "unat (physical_bytes (ow_stats W)) = length (content (ow_file W))"
    using wrote frs size total assms(5) unat_of_nat_u64[of "min (offered pieces) (unat limit)"]
      unat_of_nat_u64[of "offered pieces - unat limit"] unat_of_nat_u64[of "8 + frames_total frs"]
    by (simp_all add: captured_def wrote_def min.commute offered_def)
  ultimately show ?thesis
    using frs by (auto simp: captured_def offered_def)
qed


section \<open>Recovery after a failure\<close>

lemma complete_frames_keep:
  "frames_total frs \<le> k \<Longrightarrow>
   complete_frames k (frs @ new) = frs @ complete_frames (k - frames_total frs) new"
  by (induction frs arbitrary: k) auto

lemma prefix_tagged: "prefix frs frs' \<Longrightarrow> prefix (tagged_frames frs) (tagged_frames frs')"
  by (auto simp: prefix_def)

lemma complete_frames_is_prefix: "prefix (complete_frames k frs) frs"
  by (metis complete_frames_prefix take_is_prefix)

lemma encode_frame_first: "encode_frame H fr ! 0 = channel_code (fr_channel fr)"
  by (simp add: encode_frame_def frame_head_def Let_def)

lemma bad_tail_after_frame:
  assumes "valid_frame n fr"
  shows "bad_channel_tail H n (encode_frame H fr @ bs) \<longleftrightarrow> bad_channel_tail H (n + 1) bs"
proof -
  have "parse_frames H n (encode_frame H fr @ bs) = fr # parse_frames H (n + 1) bs"
    by (subst parse_frames.simps) (simp add: parse_encoded[OF assms])
  then show ?thesis
    by (simp add: bad_channel_tail_def)
qed

lemma no_bad_cut_tail:
  "numbered n frs \<Longrightarrow> \<not> bad_channel_tail H n (take k (encode_frames H frs))"
proof (induction k frs arbitrary: n rule: complete_frames.induct)
  case (1 k)
  then show ?case
    by (simp add: bad_channel_tail_def FRAME_HEADER_LEN_def)
next
  case (2 k fr frs)
  show ?case
  proof (cases "frame_size fr \<le> k")
    case True
    then have bytes: "take k (encode_frames H (fr # frs))
      = encode_frame H fr @ take (k - frame_size fr) (encode_frames H frs)"
      by simp
    then show ?thesis
      using 2 True unfolding bytes by (simp add: bad_tail_after_frame)
  next
    case False
    then have cut: "take k (encode_frames H (fr # frs)) = take k (encode_frame H fr)"
      by simp
    have "parse_frames H n (take k (encode_frame H fr)) = []"
      using 2 False by (simp add: parse_frames_None parse_frame_cut)
    then show ?thesis
      unfolding bad_channel_tail_def cut
      by (cases "k = 0") (simp_all add: FRAME_HEADER_LEN_def encode_frame_first)
  qed
qed

text \<open>Repairing a file that holds frames up to a cut.\<close>

lemma repair_of_cut:
  assumes "numbered 0 frs" "8 + frames_total frs < 2 ^ 64" and bs_def: "bs = MAGIC @ take k (encode_frames H frs)"
  shows "\<exists>rep stats bs'. repair_opened H (calm bs) (opened bs) = (Inr rep, bs') \<and>
    engine_repair_opened H (calm bs) (opened bs) = (Inr stats, bs') \<and>
    read_frames H (Inr (opened bs')) = Inr (complete_frames k frs)"
proof -
  have size: "length bs < 2 ^ 64"
    using assms(2) by (simp add: bs_def length_encode_total)
  have magic: "has_magic bs" "\<not> length bs < 8"
    by (simp_all add: bs_def)
  have kept: "kept_frames H bs = complete_frames k frs"
    by (simp add: kept_frames_def bs_def parse_frames_cut[OF assms(1)])
  have tail: "\<not> bad_channel_tail H 0 (drop 8 bs)"
    using no_bad_cut_tail[OF assms(1)] by (simp add: bs_def)
  have kept_size: "length (kept_bytes H bs) < 2 ^ 64"
    using kept_bytes_prefix(2)[OF magic(1), of H] size by simp
  have numbers: "numbered 0 (kept_frames H bs)"
    by (rule kept_frames_split)
  have read: "read_frames H (Inr (opened (kept_bytes H bs))) = Inr (complete_frames k frs)"
    using no_bad_tail[OF numbers, of H]
    unfolding read_frames_def and_then_simps scan_calm[OF kept_size] kept_frames_kept kept
    by (simp add: kept_bytes_def kept)
  show ?thesis
    unfolding store_repair_calm[OF size] engine_repair_calm[OF size] scan_calm[OF size]
    using magic tail read by simp
qed

text \<open>C16: output that reached the file survives a failure. The writer hands its bytes to a buffer that
  is flushed from time to time, so after a failed write, a crash or an interruption the file
  holds some prefix of the bytes handed over, at least to the last flush. Let the writes of
  \<open>flushed\<close> have succeeded before that flush, and those of \<open>later\<close> have been offered after it,
  all successful or up to the first failure. Then the repairs of both crates succeed and leave
  the same file, and reading it gives all of \<open>flushed\<close> up to the allowance, and beyond it a
  prefix of what was offered later: nothing that had been flushed is lost, and nothing is
  invented, reordered or attributed to another channel or time.\<close>

theorem captured_output_survives:
  assumes "frame_sink write_all content H" "content s = []"
    "OutputWriter_create write_all (Inr s) limit = Inr W0" "capture write_all H W0 flushed = (None, W)"
    "capture write_all H W later = (r, W')"
    "8 + 26 * (offered flushed + offered later) < 2 ^ 64"
    "bs = take k (content (ow_file W'))" "length (content (ow_file W)) \<le> k"
  shows "\<exists>rep stats bs' frs. repair_opened H (calm bs) (opened bs) = (Inr rep, bs') \<and>
      engine_repair_opened H (calm bs) (opened bs) = (Inr stats, bs') \<and>
      read_frames H (Inr (opened bs')) = Inr frs \<and>
      prefix (take (unat limit) (stream_of_all flushed)) (tagged_frames frs) \<and>
      prefix (tagged_frames frs) (take (unat limit) (stream_of_all flushed @ stream_of_all later))"
proof -
  have "8 + 26 * offered flushed < 2 ^ 64"
    using assms(6) by simp
  then obtain frs where frs: "captured content H W (stream_of_all flushed) frs" "ow_limit W = limit"
    using frame_sink.session_effect[OF assms(1-4)] by blast
  have wrote: "content (ow_file W) = MAGIC @ encode_frames H frs"
    and tags: "tagged_frames frs = take (unat limit) (stream_of_all flushed)"
    using frs by (simp_all add: captured_def wrote_def)
  obtain new j where new: "prefix (tagged_frames (frs @ new)) (take (unat limit) (stream_of_all flushed @ stream_of_all later))"
      "numbered 0 (frs @ new)" "8 + frames_total (frs @ new) < 2 ^ 64"
    and j: "content (ow_file W') = MAGIC @ encode_frames H frs @ take j (encode_frames H new)"
    using frame_sink.capture_torn[OF assms(1) frs(1) _ assms(5)] assms(6) unfolding frs(2) offered_def by blast
  have far: "8 + frames_total frs \<le> k"
    using assms(8) wrote by (simp add: length_encode_total)
  let ?j = "min (k - 8) (frames_total frs + j)"
  have bs: "bs = MAGIC @ take ?j (encode_frames H (frs @ new))"
    using assms(7) far j by (auto simp: length_encode_total min_def take_append)
  have reach: "frames_total frs \<le> ?j"
    using far by simp
  from repair_of_cut[OF new(2,3) bs] obtain rep stats bs' where repaired:
    "repair_opened H (calm bs) (opened bs) = (Inr rep, bs')"
    "engine_repair_opened H (calm bs) (opened bs) = (Inr stats, bs')"
    "read_frames H (Inr (opened bs')) = Inr (complete_frames ?j (frs @ new))"
    by blast
  have "prefix (tagged_frames frs) (tagged_frames (complete_frames ?j (frs @ new)))"
    using complete_frames_keep[OF reach] by (simp add: prefix_tagged)
  moreover have "prefix (tagged_frames (complete_frames ?j (frs @ new))) (tagged_frames (frs @ new))"
    by (intro prefix_tagged complete_frames_is_prefix)
  then have "prefix (tagged_frames (complete_frames ?j (frs @ new)))
      (take (unat limit) (stream_of_all flushed @ stream_of_all later))"
    using new(1) by (rule prefix_order.trans)
  ultimately show ?thesis
    using repaired unfolding tags by blast
qed


section \<open>The two writers\<close>

lemma write_chunk_same_bytes:
  assumes "fw_file F = ow_file W" "fw_sequence F = ow_next_sequence W" "unat (ow_next_sequence W) + 1 < 2 ^ 64"
    "el \<le> u64_max" "write_chunk w H ch (of_nat el) F c = (r, F')" "write_frame w H ch el W c = (r', W')"
  shows "r' = r \<and> fw_file F' = ow_file W' \<and>
    (r = None \<longrightarrow> fw_sequence F' = ow_next_sequence W' \<and> unat (ow_next_sequence W') = unat (ow_next_sequence W) + 1)"
proof -
  have inc: "u64_saturating_add (ow_next_sequence W) 1 = ow_next_sequence W + 1"
    "unat (ow_next_sequence W + 1) = unat (ow_next_sequence W) + 1"
    using assms(3) by (simp_all add: u64_saturating_add_def u64_max_def unat_word_ariths)
  show ?thesis
    using assms inc unfolding write_chunk_def write_frame_def
    by (auto simp: min_def Let_def split: option.splits prod.splits)
qed

lemma write_chunks_same_bytes:
  assumes "fw_file F = ow_file W" "fw_sequence F = ow_next_sequence W" "unat (ow_next_sequence W) + length ps < 2 ^ 64"
    "el \<le> u64_max" "write_chunks w H ch (of_nat el) F ps = (r, F')" "write_frames w H ch el W ps = (r', W')"
  shows "r' = r \<and> fw_file F' = ow_file W'"
  using assms
proof (induction ps arbitrary: F W)
  case (Cons c ps)
  obtain q F1 where F1: "write_chunk w H ch (of_nat el) F c = (q, F1)"
    by force
  obtain q' W1 where W1: "write_frame w H ch el W c = (q', W1)"
    by force
  have "unat (ow_next_sequence W) + 1 < 2 ^ 64"
    using Cons.prems(3) by simp
  note step = write_chunk_same_bytes[OF Cons.prems(1,2) this Cons.prems(4) F1 W1]
  show ?case
  proof (cases q)
    case None
    then show ?thesis
      using Cons.IH[of F1 W1] Cons.prems F1 W1 step by simp
  next
    case (Some e)
    then show ?thesis
      using Cons.prems F1 W1 step by (auto simp: Some)
  qed
qed simp

lemma chunks_length: "0 < n \<Longrightarrow> length (chunks n xs) \<le> length xs"
proof -
  assume "0 < n"
  then have "\<forall>c\<in>set (chunks n xs). 1 \<le> length c" "concat (chunks n xs) = xs"
    using chunks_props[of n xs] by (auto simp: Suc_le_eq)
  moreover have "\<forall>c\<in>set cs. 1 \<le> length c \<Longrightarrow> length cs \<le> length (concat cs)" for cs :: "'a list list"
    by (induction cs) auto
  ultimately show ?thesis
    by metis
qed

text \<open>The two writers put the same bytes into a file. When the engine's writer has room for the
  whole payload under its allowance, it and the store's writer, standing at the same sequence
  number on the same file, leave the same file and report the same error, whatever the file
  does.\<close>

theorem writers_agree:
  assumes "fw_file F = ow_file W" "fw_sequence F = ow_next_sequence W"
    "unat (ow_next_sequence W) + length payload < 2 ^ 64" "el \<le> u64_max"
    "unat (retained_bytes (ow_stats W)) + length payload \<le> unat (ow_limit W)"
    "FrameWriter_write w H F ch (of_nat el) payload = (r, F')"
    "OutputWriter_write w H W ch el payload = (r', W')"
  shows "r' = r \<and> fw_file F' = ow_file W'"
proof -
  let ?ps = "chunks MAX_FRAME_PAYLOAD payload"
  let ?ret = "retained_bytes (ow_stats W)"
  have "?ret \<le> ow_limit W"
    using assms(5) by (simp add: word_le_nat_alt)
  then have "unat (u64_saturating_sub (ow_limit W) ?ret) = unat (ow_limit W) - unat ?ret"
    by (simp add: u64_saturating_sub_def unat_sub)
  moreover have "unat (of_nat (length payload) :: u64) = length payload"
    using assms(3) by (intro unat_of_nat_u64) simp
  ultimately have len: "unat (min (u64_saturating_sub (ow_limit W) ?ret) (of_nat (length payload))) = length payload"
    using assms(5) by (auto simp: min_def word_le_nat_alt)
  obtain q W1 where q: "write_frames w H ch el W ?ps = (q, W1)"
    by force
  have ps: "length ?ps \<le> length payload"
    by (rule chunks_length) (simp add: MAX_FRAME_PAYLOAD_def)
  then have step: "(if 0 < length payload then write_frames w H ch el W ?ps else (None, W)) = (q, W1)"
    using q by (cases ?ps) auto
  have same: "q = r \<and> fw_file F' = ow_file W1"
    using write_chunks_same_bytes[OF assms(1,2) _ assms(4) assms(6)[unfolded FrameWriter_write_def] q] assms(3) ps
    by simp
  have all: "take (length payload) payload = payload"
    by simp
  show ?thesis
    using assms(7)[unfolded OutputWriter_write_def Let_def len all step prod.case] same
    by (auto split: option.splits)
qed

end
