(* ===== verification/Output_Disk.thy ===== *)
theory Output_Disk
  imports Output_Capture
begin

text \<open>
  A disk of limited capacity as an instance of the byte sink, with the bitwise CRC-32, and
  concrete output files at which the theorems on output files apply.
\<close>

record disk =
  disk_bytes :: "byte list"
  disk_capacity :: nat

definition disk_write_all :: "disk \<Rightarrow> byte list \<Rightarrow> io_error option \<times> disk" where
  "disk_write_all d bs =
     (let room = disk_capacity d - length (disk_bytes d)
      in if length bs \<le> room then (None, d\<lparr>disk_bytes := disk_bytes d @ bs\<rparr>)
         else (Some (IoError (Other_Kind 28) ''No space left on device''),
               d\<lparr>disk_bytes := disk_bytes d @ take room bs\<rparr>))"

interpretation disk: frame_sink disk_write_all disk_bytes crc32
  by unfold_locales (auto simp: disk_write_all_def Let_def split: if_splits)

definition empty_disk :: disk where
  "empty_disk = \<lparr>disk_bytes = [], disk_capacity = 50\<rparr>"

definition W0 :: "disk output_writer" where
  "W0 = \<lparr>ow_file = empty_disk\<lparr>disk_bytes := MAGIC\<rparr>, ow_next_sequence = 0, ow_limit = 3,
         ow_stats = \<lparr>retained_bytes = 0, discarded_bytes = 0, physical_bytes = 8, truncated = False\<rparr>\<rparr>"

lemma created: "OutputWriter_create disk_write_all (Inr empty_disk) 3 = Inr W0"
  by (simp add: OutputWriter_create_def disk_write_all_def empty_disk_def W0_def)

definition W1 :: "disk output_writer" where
  "W1 = snd (capture disk_write_all crc32 W0 [(Stdout, 1, [104, 105])])"

definition W2 :: "disk output_writer" where
  "W2 = snd (OutputWriter_write disk_write_all crc32 W1 Stderr 2 [33, 34])"

lemmas disk_run = OutputWriter_write_def write_frame_def disk_write_all_def W0_def empty_disk_def
  u64_saturating_sub_def chunks.simps u32_try_from_def u32_max_def MAX_FRAME_PAYLOAD_def Let_def
  u64_saturating_add_def u64_max_def

lemma captured_once: "capture disk_write_all crc32 W0 [(Stdout, 1, [104, 105])] = (None, W1)"
proof -
  have "fst (capture disk_write_all crc32 W0 [(Stdout, 1, [104, 105])]) = None"
    by (simp add: disk_run)
  then show ?thesis
    unfolding W1_def by (metis prod.collapse)
qed

text \<open>The next write does not fit on the disk.\<close>

lemma disk_full: "OutputWriter_write disk_write_all crc32 W1 Stderr 2 [33, 34]
    = (Some (IoError (Other_Kind 28) ''No space left on device''), W2)"
proof -
  have "fst (OutputWriter_write disk_write_all crc32 W1 Stderr 2 [33, 34])
    = Some (IoError (Other_Kind 28) ''No space left on device'')"
    unfolding W1_def by (simp add: disk_run)
  then show ?thesis
    unfolding W2_def by (metis prod.collapse)
qed

theorem output_capture_exact_witness:
  "\<exists>frs. read_frames crc32 (Inr (opened (disk_bytes (ow_file W1)))) = Inr frs \<and>
      tagged_frames frs = [(Stdout, 1, 104), (Stdout, 1, 105)] \<and>
      unat (retained_bytes (ow_stats W1)) = 2 \<and> \<not> truncated (ow_stats W1)"
  using output_capture_exact[OF disk.frame_sink_axioms _ created captured_once]
  by (auto simp: empty_disk_def offered_def stream_of_def u64_max_def)

lemma captured_until_full: "capture disk_write_all crc32 W1 [(Stderr, 2, [33, 34])]
    = (Some (IoError (Other_Kind 28) ''No space left on device''), W2)"
  by (simp add: disk_full)

theorem captured_output_survives_witness:
  "\<exists>rep stats bs' frs.
      repair_opened crc32 (calm (disk_bytes (ow_file W2))) (opened (disk_bytes (ow_file W2))) = (Inr rep, bs') \<and>
      engine_repair_opened crc32 (calm (disk_bytes (ow_file W2))) (opened (disk_bytes (ow_file W2))) = (Inr stats, bs') \<and>
      read_frames crc32 (Inr (opened bs')) = Inr frs \<and>
      prefix [(Stdout, 1, 104), (Stdout, 1, 105)] (tagged_frames frs) \<and>
      prefix (tagged_frames frs) [(Stdout, 1, 104), (Stdout, 1, 105), (Stderr, 2, 33)]"
  using captured_output_survives[OF disk.frame_sink_axioms _ created captured_once captured_until_full _ refl,
      of "length (disk_bytes (ow_file W1)) + length (disk_bytes (ow_file W2))"]
  by (simp add: empty_disk_def offered_def stream_of_def u64_max_def)

definition torn_file :: "byte list" where
  "torn_file = MAGIC @ [1, 0, 0]"

theorem store_repair_exact_witness:
  "repair_opened crc32 (calm torn_file) (opened torn_file) =
     (Inr \<lparr>rep_frames = 0, rep_payload_bytes = 0, rep_physical_bytes = 8, rep_tail_removed = 3\<rparr>, MAGIC) \<and>
   (\<exists>tail. torn_file = MAGIC @ tail \<and> length tail = 3 \<and> parse_frame crc32 0 tail = None)"
proof -
  have kept: "kept_frames crc32 torn_file = []"
    by (simp add: kept_frames_def torn_file_def parse_frames_None parse_frame_def FRAME_HEADER_LEN_def)
  have run: "repair_opened crc32 (calm torn_file) (opened torn_file) =
     (Inr \<lparr>rep_frames = 0, rep_payload_bytes = 0, rep_physical_bytes = 8, rep_tail_removed = 3\<rparr>, MAGIC)"
    by (subst store_repair_calm)
      (simp_all add: repaired_def kept_bytes_def kept, simp_all add: torn_file_def)
  show ?thesis
    using store_repair_exact[OF _ run] run by (auto simp: torn_file_def)
qed

theorem repairs_agree_witness:
  "\<exists>stats rep bs'. engine_repair_opened crc32 (calm torn_file) (opened torn_file) = (Inr stats, bs') \<and>
     repair_opened crc32 (calm torn_file) (opened torn_file) = (Inr rep, bs') \<and>
     retained_bytes stats = rep_payload_bytes rep"
proof -
  have "length torn_file < 2 ^ 64" "\<not> bad_channel_tail crc32 0 (drop 8 torn_file)" "has_magic torn_file" "\<not> length torn_file < 8"
    by (auto simp: torn_file_def bad_channel_tail_def FRAME_HEADER_LEN_def Let_def)
  then show ?thesis
    using repairs_agree[of torn_file crc32]
    by (simp add: engine_repair_calm store_repair_calm scan_calm split: prod.splits)
qed

theorem failed_repair_keeps_file_witness:
  "repair_opened crc32 (calm [1, 2]) (opened [1, 2]) = (Inl eof, [1, 2]) \<and> [1, 2] = file_bytes (opened [1, 2 :: byte])"
proof -
  have run: "repair_opened crc32 (calm [1, 2]) (opened [1, 2]) = (Inl eof, [1, 2])"
    by (simp add: store_repair_calm)
  show ?thesis
    using failed_repair_keeps_file[OF disjI1[OF run]] run by simp
qed

theorem writers_agree_witness:
  "\<exists>r F'. FrameWriter_write disk_write_all crc32
      \<lparr>fw_file = empty_disk, fw_sequence = 0, fw_physical = 8\<rparr> Stdout (of_nat 1) [104, 105] = (r, F') \<and>
    fst (OutputWriter_write disk_write_all crc32 (W0\<lparr>ow_file := empty_disk\<rparr>) Stdout 1 [104, 105]) = r \<and>
    fw_file F' = ow_file (snd (OutputWriter_write disk_write_all crc32 (W0\<lparr>ow_file := empty_disk\<rparr>) Stdout 1 [104, 105]))"
  using writers_agree[of "\<lparr>fw_file = empty_disk, fw_sequence = 0, fw_physical = 8\<rparr>" "W0\<lparr>ow_file := empty_disk\<rparr>"
      "[104, 105]" 1 disk_write_all crc32 Stdout]
  by (simp add: W0_def u64_max_def) (metis prod.collapse)

end
