(* ===== verification/Reconcile_Pass.thy ===== *)
theory Reconcile_Pass
  imports Occurrences Schedule Job_Contracts
begin

text \<open>
  The reconciliation pass of the daemon, \<open>StoreAdapter::reconcile\<close> in
  \<^verbatim>\<open>crates/locron-cli/src/main.rs\<close>, where the schedules meet the store: every enabled job is
  reconciled from its cursor to the current instant and the result is materialized in one
  transaction. The state of the adapter is the flag of the first pass, the last clock sample and
  the cache of compiled schedules; the clock and the fresh run identities are arguments. Errors
  keep their structure instead of their text, and a failed \<open>expect\<close> is \<open>None\<close>.
\<close>


section \<open>The pass\<close>

record adapter =
  first_reconcile :: bool
  last_clock_sample :: "(int \<times> nat) option"
  compiled_schedules :: "((string \<times> int) \<times> compiled_schedule) list"

datatype reconcile_error =
    ReconcileStore store_error
  | ReconcileSchedule validation_error
  | ReconcileJson string
  | ReconcileTimezone string

definition clock_discontinuity :: "(int \<times> nat) option \<Rightarrow> int \<Rightarrow> nat \<Rightarrow> bool" where
  "clock_discontinuity sample now monotonic =
     (case sample of
        None \<Rightarrow> False
      | Some (previous_wall, previous_monotonic) \<Rightarrow>
          let wall_delta = now - previous_wall;
              monotonic_delta = int (monotonic - previous_monotonic)
          in \<bar>wall_delta - monotonic_delta\<bar> > 1000000)"

definition elapsed_kind_of :: "bool \<Rightarrow> bool \<Rightarrow> job_record \<Rightarrow> elapsed_kind" where
  "elapsed_kind_of startup discontinuity job =
     (if startup \<or> discontinuity \<or> jr_disabled_since job \<noteq> None then Missed else Normal)"

definition new_scheduled_runs ::
    "(string \<Rightarrow> nat \<Rightarrow> string) \<Rightarrow> job_record \<Rightarrow> int \<Rightarrow> selected_occurrence list \<Rightarrow> new_scheduled_run list" where
  "new_scheduled_runs fresh job now chosen =
     map (\<lambda>(i, occurrence).
       \<lparr>ns_id = fresh (jr_id job) i, ns_job = jr_id job, ns_revision = jr_current_revision job,
        ns_trigger = (if catch_up occurrence then TriggerCatchUp else TriggerScheduled),
        ns_nominal = epoch_micros (nominal occurrence), ns_requested_at = now, ns_eligible_at = now,
        ns_snapshot_json = jr_definition_json job\<rparr>) (enumerate 0 chosen)"

fun summary_kind :: "omitted_range_kind \<Rightarrow> string" where
  "summary_kind StartDeadline = ''missed_start_deadline''"
| "summary_kind MissedRunOmission = ''missed_policy_skipped''"
| "summary_kind CatchUpLimit = ''catch_up_omitted''"

definition reconciliation_summaries :: "omitted_range list \<Rightarrow> reconciliation_summary list" where
  "reconciliation_summaries ranges =
     map (\<lambda>summary. \<lparr>rs_kind = summary_kind (range_kind summary), rs_count = range_count summary,
        rs_first_nominal = epoch_micros (range_first summary),
        rs_last_nominal = epoch_micros (range_last summary)\<rparr>) ranges"

definition resolves_one_time :: "schedule \<Rightarrow> int \<Rightarrow> bool" where
  "resolves_one_time sched now = (case sched of ScheduleAt at \<Rightarrow> epoch_micros at \<le> now | _ \<Rightarrow> False)"

text \<open>The compiled schedule of a job, from the cache or compiled and kept there.\<close>

definition cached_schedule ::
    "'d::linorder jiff_dates \<Rightarrow> ('d, 'z) jiff_zones \<Rightarrow> ((string \<times> int) \<times> compiled_schedule) list \<Rightarrow> job_record
     \<Rightarrow> schedule \<Rightarrow> ((validation_error + compiled_schedule) \<times> ((string \<times> int) \<times> compiled_schedule) list) option" where
  "cached_schedule J Z cache job sched =
     (let key = (jr_id job, jr_current_revision job);
          kept = filter (\<lambda>((jid, revision), _). jid \<noteq> jr_id job \<or> revision = jr_current_revision job) cache
      in case map_of kept key of
           Some compiled \<Rightarrow> Some (Inr compiled, kept)
         | None \<Rightarrow>
             (case Schedule_compile J Z sched of
                None \<Rightarrow> None
              | Some (Inl e) \<Rightarrow> Some (Inl e, kept)
              | Some (Inr compiled) \<Rightarrow> Some (Inr compiled, (key, compiled) # kept)))"

definition reconcile_job ::
    "'d::linorder jiff_dates \<Rightarrow> ('d, 'z) jiff_zones \<Rightarrow> codecs \<Rightarrow> 'z \<Rightarrow> (string \<Rightarrow> nat \<Rightarrow> string) \<Rightarrow> bool \<Rightarrow> bool \<Rightarrow> int
     \<Rightarrow> job_record \<Rightarrow> store \<times> ((string \<times> int) \<times> compiled_schedule) list
     \<Rightarrow> ((reconcile_error + nat) \<times> store \<times> ((string \<times> int) \<times> compiled_schedule) list) option" where
  "reconcile_job J Z D local_timezone fresh startup discontinuity now job state =
     (case state of (s, cache) \<Rightarrow>
        case definition_from_str D (jr_definition_json job) of
          None \<Rightarrow> Some (Inl (ReconcileJson (jr_definition_json job)), s, cache)
        | Some definition' \<Rightarrow>
            if now \<le> jr_cursor job then Some (Inr 0, s, cache)
            else
              case cached_schedule J Z cache job (definition_schedule definition') of
                None \<Rightarrow> None
              | Some (Inl e, cache') \<Rightarrow> Some (Inl (ReconcileSchedule e), s, cache')
              | Some (Inr compiled, cache') \<Rightarrow>
                  let policy = definition_policy definition' in
                  case CompiledSchedule_reconcile J Z compiled (Timestamp (jr_cursor job)) (Timestamp now)
                         (missed_run policy) (start_deadline policy) (catch_up_limit policy) local_timezone
                         (elapsed_kind_of startup discontinuity job) of
                    None \<Rightarrow> None
                  | Some (Inl e) \<Rightarrow> Some (Inl (ReconcileSchedule e), s, cache')
                  | Some (Inr reconciliation) \<Rightarrow>
                      case materialize_with_summaries D (jr_id job)
                             \<lparr>cu_expected_revision = jr_current_revision job, cu_expected_cursor = jr_cursor job,
                              cu_new_cursor = now,
                              cu_resolve_one_time = resolves_one_time (definition_schedule definition') now\<rparr>
                             (new_scheduled_runs fresh job now (selected reconciliation))
                             (reconciliation_summaries (omitted reconciliation)) now s of
                        Inl e \<Rightarrow> Some (Inl (ReconcileStore e), s, cache')
                      | Inr (s', result) \<Rightarrow> Some (Inr (mat_inserted result), s', cache'))"

text \<open>
  The first error ends the pass; what was materialized for earlier jobs is committed and stays.
\<close>

fun reconcile_jobs ::
    "'d::linorder jiff_dates \<Rightarrow> ('d, 'z) jiff_zones \<Rightarrow> codecs \<Rightarrow> 'z \<Rightarrow> (string \<Rightarrow> nat \<Rightarrow> string) \<Rightarrow> bool \<Rightarrow> bool \<Rightarrow> int
     \<Rightarrow> job_record list \<Rightarrow> store \<times> ((string \<times> int) \<times> compiled_schedule) list
     \<Rightarrow> ((reconcile_error + nat) \<times> store \<times> ((string \<times> int) \<times> compiled_schedule) list) option" where
  "reconcile_jobs J Z D local_timezone fresh startup discontinuity now [] state = Some (Inr 0, state)"
| "reconcile_jobs J Z D local_timezone fresh startup discontinuity now (job # rest) state =
     (case reconcile_job J Z D local_timezone fresh startup discontinuity now job state of
        None \<Rightarrow> None
      | Some (Inl e, state') \<Rightarrow> Some (Inl e, state')
      | Some (Inr inserted, state') \<Rightarrow>
          map_option (\<lambda>(r, state''). (map_sum id (\<lambda>others. inserted + others) r, state''))
            (reconcile_jobs J Z D local_timezone fresh startup discontinuity now rest state'))"

text \<open>\<open>reconcile\<close>: the jobs are read once; each materialization is a transaction of its own.\<close>

definition reconcile ::
    "'d::linorder jiff_dates \<Rightarrow> ('d, 'z) jiff_zones \<Rightarrow> codecs \<Rightarrow> string + 'z \<Rightarrow> (string \<Rightarrow> nat \<Rightarrow> string) \<Rightarrow> int \<Rightarrow> nat
     \<Rightarrow> adapter \<Rightarrow> store \<Rightarrow> ((reconcile_error + nat) \<times> store \<times> adapter) option" where
  "reconcile J Z D resolved_zone fresh now monotonic self s =
     (let discontinuity = clock_discontinuity (last_clock_sample self) now monotonic in
      case resolved_zone of
        Inl e \<Rightarrow> Some (Inl (ReconcileTimezone e), s, self)
      | Inr local_timezone \<Rightarrow>
          let startup = first_reconcile self;
              job_list = list_jobs s False;
              current = map (\<lambda>job. (jr_id job, jr_current_revision job)) job_list;
              cache = filter (\<lambda>(key, _). key \<in> set current) (compiled_schedules self)
          in case reconcile_jobs J Z D local_timezone fresh startup discontinuity now job_list (s, cache) of
               None \<Rightarrow> None
             | Some (Inl e, s', cache') \<Rightarrow> Some (Inl e, s', self\<lparr>compiled_schedules := cache'\<rparr>)
             | Some (Inr inserted, s', cache') \<Rightarrow>
                 Some (Inr inserted, s', \<lparr>first_reconcile = False, last_clock_sample = Some (now, monotonic),
                                          compiled_schedules = cache'\<rparr>))"


section \<open>Accounting for occurrences\<close>

text \<open>The summaries of omitted occurrences that the database holds for a job.\<close>

definition summary_kinds :: "string set" where
  "summary_kinds = {''missed_start_deadline'', ''missed_policy_skipped'', ''catch_up_omitted''}"

fun event_count :: "json \<Rightarrow> nat" where
  "event_count (JObject ((key, JInt n) # members)) = (if key = ''count'' then nat n else 0)"
| "event_count _ = 0"

definition summary_of :: "string \<Rightarrow> event_row \<Rightarrow> bool" where
  "summary_of job e \<longleftrightarrow> event_job e = Some job \<and> event_kind e \<in> summary_kinds"

definition summarized :: "store \<Rightarrow> string \<Rightarrow> nat" where
  "summarized s job = sum_list (map (\<lambda>e. event_count (event_details e)) (filter (summary_of job) (events s)))"

lemma summarized_push [simp]:
  "summarized (push_event at kind j r details s) job =
     summarized s job + (if j = Some job \<and> kind \<in> summary_kinds then event_count details else 0)"
  by (simp add: summarized_def push_event_def summary_of_def)

lemma summarized_frame: "events s' = events s \<Longrightarrow> summarized s' job = summarized s job"
  by (simp add: summarized_def)

text \<open>A run of the job and revision for the occurrence, and identities and sequences still free.\<close>

definition placed :: "store \<Rightarrow> new_scheduled_run \<Rightarrow> bool" where
  "placed s n \<longleftrightarrow>
     (\<exists>r \<in> set (runs s). run_trig r \<noteq> TriggerManual \<and> run_job r = ns_job n \<and> run_revision r = ns_revision n
        \<and> run_nominal r = Some (ns_nominal n))"

definition sequenced :: "store \<Rightarrow> bool" where
  "sequenced s \<longleftrightarrow> 0 < next_sequence s \<and> (\<forall>r \<in> set (runs s). run_sequence r < next_sequence s)"

lemma wf_sequenced: "store_wf s \<Longrightarrow> sequenced s"
  unfolding sequenced_def using wf_sequence wf_next by blast

lemma placed_mono: "placed s n \<Longrightarrow> set (runs s) \<subseteq> set (runs s') \<Longrightarrow> placed s' n"
  unfolding placed_def by blast

lemma not_replaced: "snap_overlap p \<noteq> ''replace'' \<Longrightarrow> overlap_decision p q e a \<noteq> Replace"
  by (simp add: overlap_decision_def)

lemma materialize_one_placed:
  assumes ok: "materialize_one now (n, p) (x, m) = Inr (x', m')" and keep: "snap_overlap p \<noteq> ''replace''"
    and seq: "sequenced x" and fresh: "ns_id n \<notin> run_id ` set (runs x)" and trigger: "ns_trigger n \<noteq> TriggerManual"
  shows "sequenced x' \<and> placed x' n \<and> set (runs x) \<subseteq> set (runs x')
    \<and> run_id ` set (runs x') \<subseteq> insert (ns_id n) (run_id ` set (runs x)) \<and> events x' = events x"
proof -
  obtain q x1 where x1: "next_queue_sequence x = (q, x1)" by (cases "next_queue_sequence x")
  define outcome where "outcome = overlap_decision p (job_quarantined x1 (ns_job n))
      (ns_trigger n = TriggerCatchUp) (active_runs x1 (ns_job n))"
  let ?row = "scheduled_row n now q outcome"
  have plain: "outcome \<noteq> Replace" unfolding outcome_def by (rule not_replaced[OF keep])
  have same: "runs x1 = runs x" "events x1 = events x" "next_sequence x1 = q + 1" "q = next_sequence x"
    using x1 by (auto simp: next_queue_sequence_def)
  have step: "if run_constraints x1 ?row then x' = insert_run ?row x1 else x' = x1"
    using ok unfolding materialize_one_def x1 Let_def prod.case outcome_def[symmetric] make_room_def
    by (auto simp: plain split: if_splits)
  have seq1: "sequenced x1" using seq same unfolding sequenced_def by force
  show ?thesis
  proof (cases "run_constraints x1 ?row")
    case True
    then show ?thesis
      using step seq seq1 same trigger by (auto simp: sequenced_def placed_def insert_run_def scheduled_row_def)
  next
    case False
    have "0 < run_sequence ?row" "\<forall>r \<in> set (runs x1). run_id r \<noteq> run_id ?row \<and> run_sequence r \<noteq> run_sequence ?row"
      using seq same fresh by (auto simp: sequenced_def scheduled_row_def image_iff)
    moreover have "run_trig ?row \<noteq> TriggerManual" "run_nominal ?row = Some (ns_nominal n)"
        "\<not> run_replacement_candidate ?row"
      using trigger plain by (simp_all add: scheduled_row_def)
    ultimately have "\<exists>r \<in> set (runs x1). run_trig r \<noteq> TriggerManual \<and> run_job r = run_job ?row
        \<and> run_revision r = run_revision ?row \<and> run_nominal r = run_nominal ?row"
      using False unfolding run_constraints_def by auto
    then have "placed x1 n" by (simp add: placed_def scheduled_row_def)
    then show ?thesis using step False seq1 same by auto
  qed
qed

definition free_to_place :: "store \<Rightarrow> (new_scheduled_run \<times> snapshot_policy) list \<Rightarrow> bool" where
  "free_to_place x items \<longleftrightarrow>
     sequenced x \<and> distinct (map (ns_id \<circ> fst) items)
     \<and> (\<forall>(n, p) \<in> set items. snap_overlap p \<noteq> ''replace'' \<and> ns_trigger n \<noteq> TriggerManual
          \<and> ns_id n \<notin> run_id ` set (runs x))"

lemma materialize_all_placed:
  "materialize_all now items (x, m) = Inr (x', m') \<Longrightarrow> free_to_place x items \<Longrightarrow>
   (\<forall>(n, p) \<in> set items. placed x' n) \<and> set (runs x) \<subseteq> set (runs x') \<and> events x' = events x"
proof (induction items arbitrary: x m)
  case (Cons item items)
  obtain n p where item: "item = (n, p)" by (cases item)
  from Cons.prems(1) obtain x1 m1 where one: "materialize_one now (n, p) (x, m) = Inr (x1, m1)"
    and rest: "materialize_all now items (x1, m1) = Inr (x', m')" by (auto simp: and_then_eq_Inr item)
  have one': "sequenced x1 \<and> placed x1 n \<and> set (runs x) \<subseteq> set (runs x1)
      \<and> run_id ` set (runs x1) \<subseteq> insert (ns_id n) (run_id ` set (runs x)) \<and> events x1 = events x"
    by (rule materialize_one_placed[OF one]) (use Cons.prems(2) item in \<open>auto simp: free_to_place_def\<close>)
  have free: "distinct (map (ns_id \<circ> fst) items)" "ns_id n \<notin> (ns_id \<circ> fst) ` set items"
    "\<forall>(k, l) \<in> set items. snap_overlap l \<noteq> ''replace'' \<and> ns_trigger k \<noteq> TriggerManual \<and> ns_id k \<notin> run_id ` set (runs x)"
    using Cons.prems(2) unfolding free_to_place_def item by simp_all
  have "ns_id k \<notin> run_id ` set (runs x1)" if "(k, l) \<in> set items" for k l
  proof -
    have "ns_id k \<noteq> ns_id n" using free(2) that by force
    moreover have "ns_id k \<notin> run_id ` set (runs x)" using free(3) that by blast
    ultimately show ?thesis using one' by blast
  qed
  then have "\<forall>(k, l) \<in> set items. snap_overlap l \<noteq> ''replace'' \<and> ns_trigger k \<noteq> TriggerManual \<and> ns_id k \<notin> run_id ` set (runs x1)"
    using free(3) by fast
  then have "free_to_place x1 items"
    using conjunct1[OF one'] free(1) unfolding free_to_place_def by (intro conjI) simp_all
  note later = Cons.IH[OF rest this]
  then show ?case using one' placed_mono[of x1 n x'] item by auto
qed simp

lemma pushed_summaries:
  "(\<forall>(m, d) \<in> set items. rs_kind m \<in> summary_kinds) \<Longrightarrow>
   summarized (fold (\<lambda>(m, d). push_event now (rs_kind m) (Some job) None d) items x) job =
     summarized x job + sum_list (map (\<lambda>(m, d). event_count d) items)"
  by (induction items arbitrary: x) auto

lemma collect_zip: "collect f xs = Inr ys \<Longrightarrow> (x, y) \<in> set (zip xs ys) \<Longrightarrow> x \<in> set xs \<and> f x = Inr y"
proof (induction xs arbitrary: ys)
  case (Cons a xs)
  then show ?case by (auto simp: and_then_eq_Inr)
qed simp

lemma collect_all: "collect f xs = Inr ys \<Longrightarrow> x \<in> set xs \<Longrightarrow> \<exists>y. (x, y) \<in> set (zip xs ys)"
  by (metis collect_length in_set_impl_in_set_zip1)

lemma prepared_counts:
  "collect (\<lambda>m. if rs_count m = 0 \<or> rs_first_nominal m > rs_last_nominal m then Inl e
       else Inr (JObject [(''count'', JInt (int (rs_count m))), first m, final m])) ms = Inr details \<Longrightarrow>
   sum_list (map (\<lambda>(m, d). event_count d) (zip ms details)) = sum_list (map rs_count ms)"
  by (induction ms arbitrary: details) (auto simp: and_then_eq_Inr split: if_splits)

lemma new_run_fields:
  "map ns_id (new_scheduled_runs fresh job now chosen) = map (fresh (jr_id job)) [0..<length chosen]"
  "map ns_nominal (new_scheduled_runs fresh job now chosen) = map (epoch_micros \<circ> nominal) chosen"
  by (rule nth_equalityI; simp add: new_scheduled_runs_def nth_enumerate_eq)+

lemma new_run_owner:
  "k \<in> set (new_scheduled_runs fresh job now chosen) \<Longrightarrow>
   ns_job k = jr_id job \<and> ns_revision k = jr_current_revision job \<and> ns_snapshot_json k = jr_definition_json job
   \<and> ns_trigger k \<noteq> TriggerManual \<and> ns_id k \<in> range (fresh (jr_id job))"
  by (auto simp: new_scheduled_runs_def split: if_splits)

lemma summaries_of:
  "sum_list (map rs_count (reconciliation_summaries ranges)) = sum_list (map range_count ranges)"
  "\<forall>m \<in> set (reconciliation_summaries ranges). rs_kind m \<in> summary_kinds"
proof -
  have "summary_kind kind \<in> summary_kinds" for kind by (cases kind) (simp_all add: summary_kinds_def)
  then show "\<forall>m \<in> set (reconciliation_summaries ranges). rs_kind m \<in> summary_kinds"
    by (simp add: reconciliation_summaries_def)
qed (simp add: reconciliation_summaries_def comp_def)

text \<open>
  What a materialization leaves: a run for every occurrence handed to it, the omitted counts in
  the event log, and the cursor of the job at its new position.
\<close>

lemma materialize_accounts:
  assumes ok: "materialize_with_summaries D job cu ns ms now s = Inr (s', result)"
    and seq: "sequenced s" and ids: "distinct (map ns_id ns)" "ns_id ` set ns \<inter> run_id ` set (runs s) = {}"
    and triggers: "\<forall>n \<in> set ns. ns_trigger n \<noteq> TriggerManual"
    and keep: "\<forall>n \<in> set ns. \<forall>p. snapshot_admission_policy D (ns_snapshot_json n) = Inr p \<longrightarrow> snap_overlap p \<noteq> ''replace''"
    and kinds: "\<forall>m \<in> set ms. rs_kind m \<in> summary_kinds"
  shows "(\<forall>n \<in> set ns. placed s' n) \<and> summarized s' job = summarized s job + sum_list (map rs_count ms)
    \<and> (\<exists>c \<in> set (cursors s'). cur_job c = job \<and> cur_revision c = cu_expected_revision cu \<and> cur_cursor c = cu_new_cursor cu)"
proof -
  obtain policies details where prepared: "materialize_prepare D job cu ns ms = Inr (policies, details)"
    and tx: "materialize_tx job cu ns ms now (policies, details) s = Inr (s', result)"
    using ok by (auto simp: materialize_with_summaries_def and_then_eq_Inr)
  define s2 where "s2 = (if cu_resolve_one_time cu then resolve_one_time job now (advance_cursor job cu now s)
    else advance_cursor job cu now s)"
  obtain s3 where all: "materialize_all now (zip ns policies) (s2, \<lparr>mat_inserted = 0, mat_duplicates = 0\<rparr>) = Inr (s3, result)"
    and s': "s' = fold (\<lambda>(m, d). push_event now (rs_kind m) (Some job) None d) (zip ms details) s3"
    using tx unfolding materialize_tx_def Let_def prod.case s2_def[symmetric] by (auto simp: and_then_eq_Inr split: if_splits)
  have s2: "runs s2 = runs s" "next_sequence s2 = next_sequence s" "summarized s2 job = summarized s job"
    by (simp_all add: s2_def resolve_one_time_def advance_cursor_def summarized_def push_event_def summary_of_def summary_kinds_def)
  have len: "length policies = length ns"
    using prepared by (auto simp: materialize_prepare_def and_then_eq_Inr dest: collect_length)
  have planned: "n \<in> set ns \<and> snapshot_admission_policy D (ns_snapshot_json n) = Inr p" if "(n, p) \<in> set (zip ns policies)" for n p
    using prepared that by (auto simp: materialize_prepare_def and_then_eq_Inr dest!: collect_zip split: if_splits)
  have "map (ns_id \<circ> fst) (zip ns policies) = map ns_id ns"
    using len by (simp add: map_map[symmetric] del: map_map)
  moreover have "\<forall>(n, p) \<in> set (zip ns policies). snap_overlap p \<noteq> ''replace'' \<and> ns_trigger n \<noteq> TriggerManual
      \<and> ns_id n \<notin> run_id ` set (runs s2)"
  proof (clarify, intro conjI)
    fix n p assume item: "(n, p) \<in> set (zip ns policies)"
    show "snap_overlap p \<noteq> ''replace''" using planned[OF item] keep by blast
    show "ns_trigger n \<noteq> TriggerManual" using planned[OF item] triggers by blast
    show "ns_id n \<notin> run_id ` set (runs s2)" using planned[OF item] ids(2) s2(1) by auto
  qed
  moreover have "sequenced s2" using seq s2 by (simp add: sequenced_def)
  ultimately have "free_to_place s2 (zip ns policies)"
    unfolding free_to_place_def using ids(1) by (intro conjI) simp_all
  note after = materialize_all_placed[OF all this]
  have "placed s' n" if n: "n \<in> set ns" for n
  proof -
    obtain p where "(n, p) \<in> set (zip ns policies)" using n len by (metis in_set_impl_in_set_zip1)
    with after have "placed s3 n" by blast
    then show ?thesis by (simp add: placed_def s')
  qed
  moreover have "summarized s' job = summarized s job + sum_list (map rs_count ms)"
  proof -
    have "sum_list (map (\<lambda>(m, d). event_count d) (zip ms details)) = sum_list (map rs_count ms)"
      using prepared by (auto simp: materialize_prepare_def and_then_eq_Inr dest: prepared_counts)
    moreover have "summarized s3 job = summarized s job" using after s2(3) summarized_frame by metis
    ultimately show ?thesis
      using kinds by (subst s', subst pushed_summaries) (auto dest: set_zip_leftD)
  qed
  moreover have "\<exists>c \<in> set (cursors s'). cur_job c = job \<and> cur_revision c = cu_expected_revision cu \<and> cur_cursor c = cu_new_cursor cu"
  proof -
    have "count_where (cursor_matches s job cu) (cursors s) = 1" using tx by (auto simp: materialize_tx_def split: if_splits)
    then obtain c where c: "c \<in> set (cursors s)" "cursor_matches s job cu c"
      by (metis count_where_def filter_False length_0_conv zero_neq_one)
    have "cursors s' = cursors (advance_cursor job cu now s)"
      using materialize_all_cursors[OF all] by (simp add: s' s2_def resolve_one_time_def)
    moreover from c have "\<exists>c' \<in> set (cursors (advance_cursor job cu now s)). cur_job c' = job
        \<and> cur_revision c' = cu_expected_revision cu \<and> cur_cursor c' = cu_new_cursor cu"
      by (intro bexI[of _ "c\<lparr>cur_cursor := cu_new_cursor cu,
                cur_one_time_resolved := (cu_resolve_one_time cu \<or> cur_one_time_resolved c),
                cur_updated_at := now, cur_disabled_since := None\<rparr>"])
        (auto simp: advance_cursor_def update_where_def cursor_matches_def)
    ultimately show ?thesis by simp
  qed
  ultimately show ?thesis by blast
qed


section \<open>The cache of compiled schedules\<close>

definition revision_of :: "revision_row list \<Rightarrow> string \<times> int \<Rightarrow> revision_row option" where
  "revision_of revisions key = query_row (\<lambda>v. rev_job v = fst key \<and> rev_revision v = snd key) revisions"

definition compiled_of ::
    "'d::linorder jiff_dates \<Rightarrow> ('d, 'z) jiff_zones \<Rightarrow> codecs \<Rightarrow> revision_row list \<Rightarrow> string \<times> int
     \<Rightarrow> compiled_schedule option" where
  "compiled_of J Z D revisions key =
     Option.bind (revision_of revisions key) (\<lambda>v.
     Option.bind (definition_from_str D (rev_definition_json v)) (\<lambda>d.
       case Schedule_compile J Z (definition_schedule d) of Some (Inr c) \<Rightarrow> Some c | _ \<Rightarrow> None))"

text \<open>Every entry of the cache is what compiling the stored revision of its key gives.\<close>

definition cache_ok ::
    "'d::linorder jiff_dates \<Rightarrow> ('d, 'z) jiff_zones \<Rightarrow> codecs \<Rightarrow> revision_row list
     \<Rightarrow> ((string \<times> int) \<times> compiled_schedule) list \<Rightarrow> bool" where
  "cache_ok J Z D revisions cache \<longleftrightarrow> (\<forall>(key, c) \<in> set cache. compiled_of J Z D revisions key = Some c)"

definition current_definition :: "revision_row list \<Rightarrow> job_record \<Rightarrow> bool" where
  "current_definition revisions job \<longleftrightarrow>
     map_option rev_definition_json (revision_of revisions (jr_id job, jr_current_revision job)) = Some (jr_definition_json job)"

lemma listed_current: "job \<in> set (list_jobs s all) \<Longrightarrow> current_definition (job_revisions s) job"
  by (auto simp: list_jobs_def map_filter_def joined_job_def current_revision_of_def current_definition_def revision_of_def
      map_job_def split: option.splits)

lemma cache_ok_filter: "cache_ok J Z D vs cache \<Longrightarrow> cache_ok J Z D vs (filter P cache)"
  unfolding cache_ok_def by auto

lemma cached_schedule_ok:
  assumes ok: "cache_ok J Z D vs cache" and job: "current_definition vs job"
    and def: "definition_from_str D (jr_definition_json job) = Some d"
  shows "\<exists>cache'. cache_ok J Z D vs cache' \<and>
    cached_schedule J Z cache job (definition_schedule d) = map_option (\<lambda>r. (r, cache')) (Schedule_compile J Z (definition_schedule d))"
proof -
  let ?key = "(jr_id job, jr_current_revision job)" and ?compile = "Schedule_compile J Z (definition_schedule d)"
  let ?kept = "filter (\<lambda>((jid, revision), _). jid \<noteq> jr_id job \<or> revision = jr_current_revision job) cache"
  have kept: "cache_ok J Z D vs ?kept" by (rule cache_ok_filter[OF ok])
  have key: "compiled_of J Z D vs ?key = (case ?compile of Some (Inr c) \<Rightarrow> Some c | _ \<Rightarrow> None)"
    using job def by (auto simp: compiled_of_def current_definition_def)
  show ?thesis
  proof (cases "map_of ?kept ?key")
    case (Some c)
    then have "compiled_of J Z D vs ?key = Some c" using kept map_of_SomeD unfolding cache_ok_def by fast
    then have "?compile = Some (Inr c)" using key by (auto split: option.splits sum.splits)
    then show ?thesis using Some kept by (auto simp: cached_schedule_def)
  next
    case None
    let ?cache' = "case ?compile of Some (Inr c) \<Rightarrow> (?key, c) # ?kept | _ \<Rightarrow> ?kept"
    have "cache_ok J Z D vs ?cache'"
      using kept key unfolding cache_ok_def by (simp split: option.splits sum.splits)
    moreover have "cached_schedule J Z cache job (definition_schedule d) = map_option (\<lambda>r. (r, ?cache')) ?compile"
      using None by (simp add: cached_schedule_def Let_def split: option.splits sum.splits)
    ultimately show ?thesis by blast
  qed
qed

abbreviation outcome_of :: "('r \<times> store \<times> 'c) option \<Rightarrow> ('r \<times> store) option" where
  "outcome_of x \<equiv> map_option (\<lambda>(r, s, c). (r, s)) x"

text \<open>What a job does to the database does not depend on the cache, and the cache stays right.\<close>

lemma reconcile_job_cache:
  assumes "cache_ok J Z D vs cache" and "current_definition vs job"
  shows "\<exists>cache'. cache_ok J Z D vs cache' \<and>
    reconcile_job J Z D zone fresh startup discontinuity now job (s, cache) =
      map_option (\<lambda>(r, s'). (r, s', cache')) (outcome_of (reconcile_job J Z D zone fresh startup discontinuity now job (s, [])))"
proof (cases "definition_from_str D (jr_definition_json job)")
  case (Some d)
  have empty: "cache_ok J Z D vs []" by (simp add: cache_ok_def)
  obtain cache1 where cache1: "cache_ok J Z D vs cache1"
    and c1: "cached_schedule J Z cache job (definition_schedule d) = map_option (\<lambda>r. (r, cache1)) (Schedule_compile J Z (definition_schedule d))"
    using cached_schedule_ok[OF assms Some] by blast
  obtain cache0 where c0: "cached_schedule J Z [] job (definition_schedule d) = map_option (\<lambda>r. (r, cache0)) (Schedule_compile J Z (definition_schedule d))"
    using cached_schedule_ok[OF empty assms(2) Some] by blast
  show ?thesis
  proof (cases "now \<le> jr_cursor job")
    case True
    then show ?thesis using assms(1) Some by (auto simp: reconcile_job_def)
  next
    case False
    then show ?thesis
      using cache1 Some
      by (intro exI[of _ cache1]) (simp add: reconcile_job_def c0 c1 Let_def split: option.splits sum.splits prod.splits)
  qed
qed (use assms in \<open>auto simp: reconcile_job_def\<close>)


lemma reconcile_jobs_cache:
  "cache_ok J Z D vs cache \<Longrightarrow> \<forall>job \<in> set js. current_definition vs job \<Longrightarrow>
   \<exists>cache'. cache_ok J Z D vs cache' \<and>
     reconcile_jobs J Z D zone fresh startup discontinuity now js (s, cache) =
       map_option (\<lambda>(r, s'). (r, s', cache')) (outcome_of (reconcile_jobs J Z D zone fresh startup discontinuity now js (s, [])))"
proof (induction js arbitrary: s cache)
  case (Cons job js)
  let ?job = "\<lambda>cache. reconcile_job J Z D zone fresh startup discontinuity now job (s, cache)"
  have current: "current_definition vs job" "\<forall>job \<in> set js. current_definition vs job" and empty: "cache_ok J Z D vs []"
    using Cons.prems(2) by (simp_all add: cache_ok_def)
  obtain c1 where c1: "cache_ok J Z D vs c1" "?job cache = map_option (\<lambda>(r, s'). (r, s', c1)) (outcome_of (?job []))"
    using reconcile_job_cache[OF Cons.prems(1) current(1)] by blast
  obtain c0 where c0: "cache_ok J Z D vs c0" "?job [] = map_option (\<lambda>(r, s'). (r, s', c0)) (outcome_of (?job []))"
    using reconcile_job_cache[OF empty current(1)] by blast
  consider "?job [] = None" | e s1 where "?job [] = Some (Inl e, s1, c0)" | k s1 where "?job [] = Some (Inr k, s1, c0)"
    using c0(2) by (cases "?job []") (auto, metis sum.exhaust)
  then show ?case
  proof cases
    case 3
    obtain d1 where "cache_ok J Z D vs d1" "reconcile_jobs J Z D zone fresh startup discontinuity now js (s1, c1) =
        map_option (\<lambda>(r, s'). (r, s', d1)) (outcome_of (reconcile_jobs J Z D zone fresh startup discontinuity now js (s1, [])))"
      using Cons.IH[OF c1(1) current(2)] by blast
    moreover obtain d0 where "reconcile_jobs J Z D zone fresh startup discontinuity now js (s1, c0) =
        map_option (\<lambda>(r, s'). (r, s', d0)) (outcome_of (reconcile_jobs J Z D zone fresh startup discontinuity now js (s1, [])))"
      using Cons.IH[OF c0(1) current(2)] by blast
    ultimately show ?thesis
      using 3 c1(2) by (auto simp: option.map_comp comp_def case_prod_beta)
  qed (use c1 in auto)
qed auto

text \<open>Either the database is left as it was or one materialization moved the cursor.\<close>

lemma reconcile_job_effect:
  assumes "reconcile_job J Z D zone fresh startup discontinuity now job (s, cache) = Some (r, s', cache')"
  shows "s' = s \<and> (\<forall>n. r = Inr n \<longrightarrow> now \<le> jr_cursor job) \<or>
    (\<exists>cu ns ms planned result. cu_expected_revision cu = jr_current_revision job \<and> cu_new_cursor cu = now
       \<and> materialize_tx (jr_id job) cu ns ms now planned s = Inr (s', result))"
proof (cases "s' = s \<and> (\<forall>n. r = Inr n \<longrightarrow> now \<le> jr_cursor job)")
  case False
  then obtain cu ns ms result where "cu_expected_revision cu = jr_current_revision job" "cu_new_cursor cu = now"
    "materialize_with_summaries D (jr_id job) cu ns ms now s = Inr (s', result)"
    using assms by (fastforce simp: reconcile_job_def Let_def split: option.splits sum.splits if_splits)
  then show ?thesis by (auto simp: materialize_with_summaries_def and_then_eq_Inr)
qed simp

lemma reconcile_job_revisions:
  "reconcile_job J Z D zone fresh startup discontinuity now job (s, cache) = Some (r, s', cache') \<Longrightarrow>
   job_revisions s' = job_revisions s"
  by (drule reconcile_job_effect) (auto dest!: materialize_kept simp: catalogue_kept_def)

lemma reconcile_jobs_revisions:
  "reconcile_jobs J Z D zone fresh startup discontinuity now js (s, cache) = Some (r, s', cache') \<Longrightarrow>
   job_revisions s' = job_revisions s"
proof (induction js arbitrary: s cache r)
  case (Cons job js)
  then show ?case
    by (fastforce split: option.splits sum.splits prod.splits dest: reconcile_job_revisions)
qed simp


section \<open>The cursors after a pass\<close>

definition reached :: "int \<Rightarrow> job_record \<Rightarrow> store \<Rightarrow> bool" where
  "reached now job s \<longleftrightarrow>
     (\<exists>k \<in> set (cursors s). cur_job k = jr_id job \<and> cur_revision k = jr_current_revision job \<and> now \<le> cur_cursor k)"

lemma materialize_cursors:
  assumes "materialize_tx job cursor new_runs summaries now planned s = Inr (s', result)"
  shows "cursors s' = cursors (advance_cursor job cursor now s) \<and> (\<exists>c \<in> set (cursors s). cursor_matches s job cursor c)"
proof -
  have one: "count_where (cursor_matches s job cursor) (cursors s) = 1"
    using assms by (auto simp: materialize_tx_def split: if_splits prod.splits)
  then have "\<exists>c \<in> set (cursors s). cursor_matches s job cursor c"
    by (metis count_where_def filter_False length_0_conv zero_neq_one)
  then show ?thesis
    using assms one by (auto simp: materialize_tx_def Let_def and_then_eq_Inr resolve_one_time_def
        dest!: materialize_all_cursors split: if_splits prod.splits)
qed

lemma advance_reached:
  assumes new: "cu_new_cursor cursor = now" and row: "reached now j s \<or>
    jr_id j = job \<and> jr_current_revision j = cu_expected_revision cursor \<and> (\<exists>c \<in> set (cursors s). cursor_matches s job cursor c)"
  shows "reached now j (advance_cursor job cursor at s)"
proof -
  obtain k where k: "k \<in> set (cursors s)" "cur_job k = jr_id j" "cur_revision k = jr_current_revision j"
    "now \<le> cur_cursor k \<or> cursor_matches s job cursor k"
    using row by (elim disjE conjE bexE) (auto simp: reached_def cursor_matches_def)
  let ?k = "if cursor_matches s job cursor k then k\<lparr>cur_cursor := cu_new_cursor cursor,
      cur_one_time_resolved := (cu_resolve_one_time cursor \<or> cur_one_time_resolved k),
      cur_updated_at := at, cur_disabled_since := None\<rparr> else k"
  have "?k \<in> set (cursors (advance_cursor job cursor at s))"
    using k(1) by (auto simp: advance_cursor_def update_where_def)
  moreover have "cur_job ?k = jr_id j" "cur_revision ?k = jr_current_revision j" "now \<le> cur_cursor ?k"
    using k new by auto
  ultimately show ?thesis unfolding reached_def by blast
qed

lemma reconcile_job_reached:
  assumes ok: "reconcile_job J Z D zone fresh startup discontinuity now job (s, cache) = Some (r, s', cache')"
  shows "reached now j s \<Longrightarrow> reached now j s'" and "r = Inr n \<Longrightarrow> jr_cursor job < now \<Longrightarrow> reached now job s'"
proof -
  have moved: "reached now j s' \<or> (s' = s \<and> (\<forall>n. r = Inr n \<longrightarrow> now \<le> jr_cursor job))" if "reached now j s \<or> j = job" for j
    using reconcile_job_effect[OF ok]
  proof (elim disjE exE conjE)
    fix cu ns ms planned result
    assume cu: "cu_expected_revision cu = jr_current_revision job" "cu_new_cursor cu = now"
      and tx: "materialize_tx (jr_id job) cu ns ms now planned s = Inr (s', result)"
    from materialize_cursors[OF tx] have "reached now j (advance_cursor (jr_id job) cu now s)"
      using that cu(1) by (intro advance_reached[OF cu(2)]) auto
    with materialize_cursors[OF tx] show ?thesis by (simp add: reached_def)
  qed blast
  from moved[of j] show "reached now j s \<Longrightarrow> reached now j s'" by blast
  from moved[of job] show "r = Inr n \<Longrightarrow> jr_cursor job < now \<Longrightarrow> reached now job s'" by auto
qed

lemma reconcile_jobs_reached:
  "reconcile_jobs J Z D zone fresh startup discontinuity now js (s, cache) = Some (r, s', cache') \<Longrightarrow>
   reached now j s \<or> (\<exists>n. r = Inr n) \<and> j \<in> set js \<and> jr_cursor j < now \<Longrightarrow> reached now j s'"
proof (induction js arbitrary: s cache r)
  case (Cons job js)
  from Cons.prems(1) obtain r1 s1 c1 where one: "reconcile_job J Z D zone fresh startup discontinuity now job (s, cache) = Some (r1, s1, c1)"
    by (auto split: option.splits)
  show ?case
  proof (cases r1)
    case (Inl e)
    with Cons.prems one show ?thesis using reconcile_job_reached(1)[OF one] by auto
  next
    case (Inr k)
    then obtain r2 where rest: "reconcile_jobs J Z D zone fresh startup discontinuity now js (s1, c1) = Some (r2, s', cache')"
      and r: "r = map_sum id (\<lambda>others. k + others) r2" using Cons.prems(1) one by auto
    have "(\<exists>n. r2 = Inr n) \<longleftrightarrow> (\<exists>n. r = Inr n)" using r by (cases r2) auto
    then show ?thesis
      using Cons.IH[OF rest] Cons.prems(2) reconcile_job_reached[OF one] Inr by auto
  qed
qed simp

lemma listed_cursor:
  assumes "job \<in> set (list_jobs s all)" and "now \<le> jr_cursor job"
  shows "reached now job s"
proof -
  obtain j v k where k: "query_row (\<lambda>c. cur_job c = job_id j \<and> cur_revision c = job_current_revision j) (cursors s) = Some k"
    and job: "job = map_job j v k"
    using assms(1) by (auto simp: list_jobs_def map_filter_def joined_job_def current_cursor_of_def split: option.splits)
  from k have "k \<in> set (cursors s) \<and> cur_job k = job_id j \<and> cur_revision k = job_current_revision j"
    by (auto simp: query_row_def find_Some_iff)
  then show ?thesis using assms(2) unfolding reached_def job by (auto simp: map_job_def)
qed


section \<open>Properties\<close>

definition range_runs :: "store \<Rightarrow> job_record \<Rightarrow> timestamp set" where
  "range_runs s job =
     {t. \<exists>r \<in> set (runs s). run_trig r \<noteq> TriggerManual \<and> run_job r = jr_id job
           \<and> run_revision r = jr_current_revision job \<and> run_nominal r = Some (epoch_micros t)}"

text \<open>
  C11: a reconciliation of a one-time or fixed-interval schedule loses no occurrence (calendar
  schedules are excluded by \<open>exact_range\<close>). When it succeeds for a job that does not replace
  its predecessors, the cursor of the job stands at the instant of the pass and the occurrences
  since the old cursor divide into two: those that have a run of the job's revision in the
  database, and as many others as the new summaries in the event log count.
\<close>

theorem reconcile_job_accounts:
  assumes ok: "reconcile_job J Z D zone fresh startup discontinuity now job (s, cache) = Some (Inr n, s', cache')"
    and job: "definition_from_str D (jr_definition_json job) = Some def" "jr_cursor job < now"
    and compiled: "cached_schedule J Z cache job (definition_schedule def) = Some (Inr c, cache')"
    and exact: "exact_range c (Timestamp (jr_cursor job))" "exact_range c (Timestamp now)"
    and limit: "1 \<le> catch_up_limit (definition_policy def)" "catch_up_limit (definition_policy def) \<le> 1000"
    and wf: "store_wf s" and ids: "inj (fresh (jr_id job))" "range (fresh (jr_id job)) \<inter> run_id ` set (runs s) = {}"
    and keep: "\<forall>p. snapshot_admission_policy D (jr_definition_json job) = Inr p \<longrightarrow> snap_overlap p \<noteq> ''replace''"
  shows "(\<exists>chosen \<subseteq> range_runs s' job.
      chosen \<subseteq> schedule_occurrences c \<inter> {Timestamp (jr_cursor job)<..Timestamp now} \<and>
      card chosen + (summarized s' (jr_id job) - summarized s (jr_id job)) =
        card (schedule_occurrences c \<inter> {Timestamp (jr_cursor job)<..Timestamp now})) \<and>
    summarized s (jr_id job) \<le> summarized s' (jr_id job) \<and>
    (\<exists>k \<in> set (cursors s'). cur_job k = jr_id job \<and> cur_revision k = jr_current_revision job \<and> cur_cursor k = now)"
proof -
  let ?policy = "definition_policy def"
  let ?cu = "\<lparr>cu_expected_revision = jr_current_revision job, cu_expected_cursor = jr_cursor job,
    cu_new_cursor = now, cu_resolve_one_time = resolves_one_time (definition_schedule def) now\<rparr>"
  obtain rec result where rec: "CompiledSchedule_reconcile J Z c (Timestamp (jr_cursor job)) (Timestamp now)
      (missed_run ?policy) (start_deadline ?policy) (catch_up_limit ?policy) zone
      (elapsed_kind_of startup discontinuity job) = Some (Inr rec)"
    and mat: "materialize_with_summaries D (jr_id job) ?cu (new_scheduled_runs fresh job now (selected rec))
      (reconciliation_summaries (omitted rec)) now s = Inr (s', result)"
    using ok job compiled by (auto simp: reconcile_job_def Let_def split: option.splits sum.splits)
  let ?ns = "new_scheduled_runs fresh job now (selected rec)" and ?ms = "reconciliation_summaries (omitted rec)"
  have "Timestamp (jr_cursor job) < Timestamp now" using job(2) by (simp add: less_timestamp_def)
  note accounted = range_accounted[OF exact this limit rec]
  have distinct: "distinct (map ns_id ?ns)"
    unfolding new_run_fields using ids(1) by (auto simp: distinct_map intro: inj_on_subset)
  have "(\<forall>k \<in> set ?ns. placed s' k) \<and> summarized s' (jr_id job) = summarized s (jr_id job) + sum_list (map rs_count ?ms)
    \<and> (\<exists>k \<in> set (cursors s'). cur_job k = jr_id job \<and> cur_revision k = cu_expected_revision ?cu \<and> cur_cursor k = cu_new_cursor ?cu)"
    by (rule materialize_accounts[OF mat wf_sequenced[OF wf] distinct _ _ _ summaries_of(2)])
      (use ids(2) keep new_run_owner in \<open>fastforce+\<close>)
  then have after: "\<forall>k \<in> set ?ns. placed s' k" "summarized s' (jr_id job) = summarized s (jr_id job) + sum_list (map range_count (omitted rec))"
    "\<exists>k \<in> set (cursors s'). cur_job k = jr_id job \<and> cur_revision k = jr_current_revision job \<and> cur_cursor k = now"
    by (simp_all add: summaries_of(1))
  have "nominal ` set (selected rec) \<subseteq> range_runs s' job"
  proof
    fix t assume "t \<in> nominal ` set (selected rec)"
    then have "epoch_micros t \<in> set (map ns_nominal ?ns)" unfolding new_run_fields by auto
    then obtain k where k: "k \<in> set ?ns" "ns_nominal k = epoch_micros t" by auto
    from after(1) k(1) have "placed s' k" ..
    then show "t \<in> range_runs s' job" using new_run_owner[OF k(1)] k(2) by (simp add: placed_def range_runs_def)
  qed
  moreover have "card (nominal ` set (selected rec)) = length (selected rec)"
    using accounted by (metis distinct_card length_map list.set_map strict_sorted_iff)
  ultimately have "\<exists>chosen \<subseteq> range_runs s' job.
      chosen \<subseteq> schedule_occurrences c \<inter> {Timestamp (jr_cursor job)<..Timestamp now} \<and>
      card chosen + (summarized s' (jr_id job) - summarized s (jr_id job)) =
        card (schedule_occurrences c \<inter> {Timestamp (jr_cursor job)<..Timestamp now})"
    using accounted after(2) by (intro exI[of _ "nominal ` set (selected rec)"]) auto
  then show ?thesis using after(2,3) by simp
qed

text \<open>
  C23: a reconciliation pass that succeeds has reconciled every enabled job up to the instant of
  the pass: the cursor of each job's current revision stands at that instant or later.
\<close>

theorem reconcile_pass_complete:
  assumes "reconcile J Z D resolved fresh now monotonic self s = Some (Inr n, s', self')"
  shows "\<forall>job \<in> set (list_jobs s False). reached now job s'"
proof
  fix job assume job: "job \<in> set (list_jobs s False)"
  let ?cache = "filter (\<lambda>(key, _). key \<in> set (map (\<lambda>job. (jr_id job, jr_current_revision job)) (list_jobs s False)))
    (compiled_schedules self)"
  obtain zone where "reconcile_jobs J Z D zone fresh (first_reconcile self) (clock_discontinuity (last_clock_sample self) now monotonic) now
      (list_jobs s False) (s, ?cache) = Some (Inr n, s', compiled_schedules self')"
    using assms by (auto simp: reconcile_def Let_def split: option.splits sum.splits)
  from reconcile_jobs_reached[OF this, of job] job listed_cursor[OF job, of now] show "reached now job s'"
    by (cases "now \<le> jr_cursor job") auto
qed

text \<open>
  C24: the cache of compiled schedules is invisible: with a cache whose entries are the compiled
  schedules of the stored revisions, a pass has the outcome and the effect on the database it
  has with an empty cache, and leaves such a cache behind for the next one.
\<close>

theorem reconcile_cache_transparent:
  assumes "cache_ok J Z D (job_revisions s) (compiled_schedules self)"
  shows "outcome_of (reconcile J Z D resolved fresh now monotonic self s) =
      outcome_of (reconcile J Z D resolved fresh now monotonic (self\<lparr>compiled_schedules := []\<rparr>) s) \<and>
    (\<forall>r s' self'. reconcile J Z D resolved fresh now monotonic self s = Some (r, s', self') \<longrightarrow>
       cache_ok J Z D (job_revisions s') (compiled_schedules self'))"
proof (cases resolved)
  case (Inr zone)
  let ?keep = "filter (\<lambda>(key, _). key \<in> set (map (\<lambda>job. (jr_id job, jr_current_revision job)) (list_jobs s False)))"
  let ?jobs = "\<lambda>cache. reconcile_jobs J Z D zone fresh (first_reconcile self)
    (clock_discontinuity (last_clock_sample self) now monotonic) now (list_jobs s False) (s, cache)"
  have "\<forall>job \<in> set (list_jobs s False). current_definition (job_revisions s) job" using listed_current by blast
  then obtain cache' where cache': "cache_ok J Z D (job_revisions s) cache'"
    "?jobs (?keep (compiled_schedules self)) = map_option (\<lambda>(r, s'). (r, s', cache')) (outcome_of (?jobs []))"
    using reconcile_jobs_cache[OF cache_ok_filter[OF assms]] by blast
  have same: "outcome_of (reconcile J Z D resolved fresh now monotonic self s) =
      outcome_of (reconcile J Z D resolved fresh now monotonic (self\<lparr>compiled_schedules := []\<rparr>) s)"
    using cache'(2) Inr by (auto simp: reconcile_def Let_def split: option.splits sum.splits)
  have "cache_ok J Z D (job_revisions s') (compiled_schedules self')"
    if "reconcile J Z D resolved fresh now monotonic self s = Some (r, s', self')" for r s' self'
  proof -
    have "?jobs (?keep (compiled_schedules self)) = Some (r, s', compiled_schedules self')"
      using that Inr by (auto simp: reconcile_def Let_def split: option.splits sum.splits)
    moreover from this have "compiled_schedules self' = cache'" unfolding cache'(2) by auto
    ultimately show ?thesis using cache'(1) by (simp add: reconcile_jobs_revisions)
  qed
  with same show ?thesis by blast
qed (use assms in \<open>auto simp: reconcile_def\<close>)


section \<open>A concrete pass\<close>

definition minutely_definition :: job_definition where
  "minutely_definition =
     \<lparr>definition_schedule = ScheduleEvery (DurationMicros 60000000) (Timestamp 0),
      definition_target = Shell ''true'' ''/bin/sh'', definition_cwd = ''/'', definition_environment = \<lparr>env_file = None, env_values = [], env_path = None\<rparr>,
      definition_policy = ExecutionPolicy_default\<lparr>missed_run := MissedLatest\<rparr>, definition_action = Retain\<rparr>"

definition minutely_codecs :: codecs where
  "minutely_codecs = plain_codecs\<lparr>definition_from_str := (\<lambda>_. Some minutely_definition)\<rparr>"

definition minutely_store :: store where
  "minutely_store = projr (create_job_tx (sample_create\<lparr>cj_now := 0, cj_cursor := 0\<rparr>) initial_store)"

definition minutely_job :: job_record where
  "minutely_job = hd (list_jobs minutely_store False)"

definition fresh_id :: "string \<Rightarrow> nat \<Rightarrow> string" where
  "fresh_id jid i = jid @ replicate i CHR ''x''"

definition minutely_result :: "(store \<times> materialized_run) store_result" where
  "minutely_result = materialize_with_summaries plain_codecs ''a''
     \<lparr>cu_expected_revision = 1, cu_expected_cursor = 0, cu_new_cursor = 200000000, cu_resolve_one_time = False\<rparr>
     (new_scheduled_runs fresh_id minutely_job 200000000 (selected sample_result))
     (reconciliation_summaries (omitted sample_result)) 200000000 minutely_store"

lemma minutely_listed: "list_jobs minutely_store False = [minutely_job]"
  by code_simp

lemma minutely_job_fields:
  "jr_id minutely_job = ''a''" "jr_current_revision minutely_job = 1" "jr_cursor minutely_job = 0"
  "jr_definition_json minutely_job = ''{}''"
  by code_simp+

lemma minutely_schedule:
  "cached_schedule sample_dates sample_zones [] minutely_job (definition_schedule minutely_definition) =
     Some (Inr sample_every, [((''a'', 1), sample_every)])"
  by (simp add: cached_schedule_def Schedule_compile_def minutely_definition_def minutely_job_fields sample_every_def
      interval_occurrences_def)

lemma minutely_materialized: "minutely_result = Inr (fst (projr minutely_result), \<lparr>mat_inserted = 1, mat_duplicates = 0\<rparr>)"
  by code_simp

lemma minutely_fields:
  "definition_from_str minutely_codecs text = Some minutely_definition"
  "missed_run (definition_policy minutely_definition) = MissedLatest"
  "start_deadline (definition_policy minutely_definition) = None"
  "catch_up_limit (definition_policy minutely_definition) = 100"
  "resolves_one_time (definition_schedule minutely_definition) now = False"
  "elapsed_kind_of True False minutely_job = Missed"
  by (simp_all add: minutely_codecs_def minutely_definition_def ExecutionPolicy_default_def resolves_one_time_def elapsed_kind_of_def)

lemma minutely_policy: "snapshot_admission_policy minutely_codecs = snapshot_admission_policy plain_codecs"
  by (rule ext) (simp add: snapshot_admission_policy_def minutely_codecs_def)

lemma minutely_materialize: "materialize_with_summaries minutely_codecs = materialize_with_summaries plain_codecs"
  by (intro ext) (simp only: materialize_with_summaries_def materialize_prepare_def minutely_policy)

lemma minutely_reconciled:
  "reconcile_job sample_dates sample_zones minutely_codecs () fresh_id True False 200000000 minutely_job (minutely_store, []) =
     Some (Inr 1, fst (projr minutely_result), [((''a'', 1), sample_every)])"
proof -
  have "materialize_with_summaries minutely_codecs ''a''
      \<lparr>cu_expected_revision = 1, cu_expected_cursor = 0, cu_new_cursor = 200000000, cu_resolve_one_time = False\<rparr>
      (new_scheduled_runs fresh_id minutely_job 200000000 (selected sample_result))
      (reconciliation_summaries (omitted sample_result)) 200000000 minutely_store =
      Inr (fst (projr minutely_result), \<lparr>mat_inserted = 1, mat_duplicates = 0\<rparr>)"
    using minutely_materialized unfolding minutely_materialize minutely_result_def .
  then show ?thesis
    by (simp add: reconcile_job_def minutely_schedule minutely_job_fields minutely_fields sample_reconcile)
qed

theorem reconcile_job_accounts_witness:
  "\<exists>n s' cache'. reconcile_job sample_dates sample_zones minutely_codecs () fresh_id True False 200000000 minutely_job
       (minutely_store, []) = Some (Inr n, s', cache')
     \<and> (\<exists>chosen \<subseteq> range_runs s' minutely_job.
          card chosen + (summarized s' ''a'' - summarized minutely_store ''a'') =
            card (schedule_occurrences sample_every \<inter> {Timestamp 0<..Timestamp 200000000}))"
proof -
  have wf: "store_wf minutely_store" and none: "runs minutely_store = []" by code_simp+
  have inj: "inj (fresh_id (jr_id minutely_job))" by (rule injI) (simp add: fresh_id_def)
  have keep: "\<forall>p. snapshot_admission_policy minutely_codecs (jr_definition_json minutely_job) = Inr p \<longrightarrow> snap_overlap p \<noteq> ''replace''"
    by (simp add: minutely_policy minutely_job_fields snapshot_admission_policy_def plain_codecs_def json_get_def)
  note accounts = reconcile_job_accounts[OF minutely_reconciled minutely_fields(1) _ minutely_schedule _ _ _ _ wf inj _ keep]
  show ?thesis
    using accounts minutely_reconciled sample_exact[of 0] sample_exact[of 200000000]
    by (auto simp: minutely_job_fields minutely_fields none)
qed

definition minutely_adapter :: adapter where
  "minutely_adapter = \<lparr>first_reconcile = True, last_clock_sample = None, compiled_schedules = []\<rparr>"

lemma minutely_pass:
  "reconcile sample_dates sample_zones minutely_codecs (Inr ()) fresh_id 200000000 7 minutely_adapter minutely_store =
     Some (Inr 1, fst (projr minutely_result), \<lparr>first_reconcile = False, last_clock_sample = Some (200000000, 7),
       compiled_schedules = [((''a'', 1), sample_every)]\<rparr>)"
  by (simp add: reconcile_def minutely_adapter_def minutely_listed minutely_reconciled clock_discontinuity_def)

theorem reconcile_pass_complete_witness:
  "reached 200000000 minutely_job (fst (projr minutely_result))"
  using reconcile_pass_complete[OF minutely_pass] by (simp add: minutely_listed)

theorem reconcile_cache_transparent_witness:
  "cache_ok sample_dates sample_zones minutely_codecs (job_revisions (fst (projr minutely_result))) [((''a'', 1), sample_every)]"
proof -
  have "cache_ok sample_dates sample_zones minutely_codecs (job_revisions minutely_store) (compiled_schedules minutely_adapter)"
    by (simp add: cache_ok_def minutely_adapter_def)
  from reconcile_cache_transparent[OF this, of "Inr ()" fresh_id 200000000 7] minutely_pass show ?thesis by simp
qed

end
