(* ===== verification/State_Paths.thy ===== *)
theory State_Paths
  imports Store_Tables
begin

text \<open>
  The layout of the state directory, \<^verbatim>\<open>crates/locron-store/src/paths.rs\<close>, and the identities of
  \<^verbatim>\<open>crates/locron-core/src/id.rs\<close>. Paths are their text; \<open>PathBuf::join\<close> is the one of Unix. The
  variables of the process environment and the directory that the user names are arguments.
\<close>


section \<open>Paths\<close>

text \<open>An absolute second path replaces the first; otherwise one separator stands between them.\<close>

definition path_join :: "string \<Rightarrow> string \<Rightarrow> string" where
  "path_join a b =
     (if b \<noteq> [] \<and> hd b = CHR ''/'' then b
      else if a = [] \<or> last a = CHR ''/'' then a @ b
      else a @ CHR ''/'' # b)"

record state_paths =
  sp_root :: string
  sp_database :: string
  sp_daemon_lock :: string
  sp_daemon_activation_lock :: string
  sp_dashboard_activation_lock :: string
  sp_daemon_worker_activation_lock :: string
  sp_dashboard_worker_activation_lock :: string
  sp_dashboard_lock :: string
  sp_wake_socket :: string
  sp_outputs :: string
  sp_temporary :: string

definition StatePaths_new :: "string \<Rightarrow> state_paths" where
  "StatePaths_new root =
     \<lparr>sp_root = root,
      sp_database = path_join root ''state.db'',
      sp_daemon_lock = path_join root ''daemon.lock'',
      sp_daemon_activation_lock = path_join root ''daemon.activation.lock'',
      sp_dashboard_activation_lock = path_join root ''dashboard.activation.lock'',
      sp_daemon_worker_activation_lock = path_join root ''daemon.worker.activation.lock'',
      sp_dashboard_worker_activation_lock = path_join root ''dashboard.worker.activation.lock'',
      sp_dashboard_lock = path_join root ''dashboard.lock'',
      sp_wake_socket = path_join root ''wake.sock'',
      sp_outputs = path_join root ''outputs'',
      sp_temporary = path_join root ''tmp''\<rparr>"

text \<open>The default directory of the platform: macOS or another Unix.\<close>

definition platform_default :: "bool \<Rightarrow> (string \<Rightarrow> string option) \<Rightarrow> string store_result" where
  "platform_default macos var =
     (if macos
      then map_sum id (\<lambda>home. path_join home ''Library/Application Support/locron'')
             (ok_or StoreStateDirectoryUnavailable (var ''HOME''))
      else case var ''XDG_STATE_HOME'' of
             Some path \<Rightarrow>
               if path \<noteq> [] then Inr (path_join path ''locron'')
               else map_sum id (\<lambda>home. path_join home ''.local/state/locron'')
                      (ok_or StoreStateDirectoryUnavailable (var ''HOME''))
           | None \<Rightarrow>
               map_sum id (\<lambda>home. path_join home ''.local/state/locron'')
                 (ok_or StoreStateDirectoryUnavailable (var ''HOME'')))"

definition StatePaths_discover ::
    "bool \<Rightarrow> (string \<Rightarrow> string option) \<Rightarrow> string option \<Rightarrow> state_paths store_result" where
  "StatePaths_discover macos var override_dir =
     (case override_dir of
        Some path \<Rightarrow> Inr (StatePaths_new path)
      | None \<Rightarrow>
          (case var ''LOCRON_STATE_DIR'' of
             Some path \<Rightarrow> Inr (StatePaths_new path)
           | None \<Rightarrow> map_sum id StatePaths_new (platform_default macos var)))"

definition output_directory :: "codecs \<Rightarrow> state_paths \<Rightarrow> string \<Rightarrow> string store_result" where
  "output_directory D self rid =
     and_then (validate_uuid D rid) (\<lambda>_. Inr (path_join (sp_outputs self) rid))"

definition zero_attempt :: store_error where
  "zero_attempt = StoreInvalidIdentity ''attempt number must be positive''"

definition partial_output :: "codecs \<Rightarrow> state_paths \<Rightarrow> string \<Rightarrow> nat \<Rightarrow> string store_result" where
  "partial_output D self rid attempt =
     (if attempt = 0 then Inl zero_attempt
      else and_then (output_directory D self rid) (\<lambda>dir. Inr (path_join dir (show_nat attempt @ ''.partial''))))"

definition final_output :: "codecs \<Rightarrow> state_paths \<Rightarrow> string \<Rightarrow> nat \<Rightarrow> string store_result" where
  "final_output D self rid attempt =
     (if attempt = 0 then Inl zero_attempt
      else and_then (output_directory D self rid) (\<lambda>dir. Inr (path_join dir (show_nat attempt @ ''.log''))))"


section \<open>Identities\<close>

text \<open>
  \<open>uuid_id!\<close>: one parser for the three identities, named by the field of its errors. The package's
  parser and canonical form are the field \<open>uuid_hyphenated\<close> of the codecs; its error text is an
  argument.
\<close>

definition uuid_id_from_str :: "codecs \<Rightarrow> string \<Rightarrow> (string \<Rightarrow> string) \<Rightarrow> string \<Rightarrow> validation_error + string" where
  "uuid_id_from_str D kind explain value =
     (case uuid_hyphenated D value of
        None \<Rightarrow> Inl (ValidationError_new kind ''invalid_uuid'' (explain value))
      | Some canonical \<Rightarrow>
          if value \<noteq> canonical
          then Inl (ValidationError_new kind ''non_canonical_uuid'' ''identity must use lowercase canonical UUID syntax'')
          else Inr canonical)"

definition positive_number_new :: "string \<Rightarrow> string \<Rightarrow> nat \<Rightarrow> validation_error + nat" where
  "positive_number_new kind descr value =
     (if value = 0
      then Inl (ValidationError_new kind ''zero_sequence'' (descr @ '' must be greater than zero''))
      else Inr value)"


section \<open>Names of output files\<close>

text \<open>
  \<open>is_canonical_uuid\<close> and \<open>is_canonical_output_name\<close> of \<^verbatim>\<open>crates/locron-cli/src/maintenance.rs\<close>, by
  which the sweep for orphans recognizes run directories and output files.
\<close>

definition is_canonical_uuid :: "codecs \<Rightarrow> string \<Rightarrow> bool" where
  "is_canonical_uuid D value \<longleftrightarrow> uuid_hyphenated D value = Some value \<and> value = to_ascii_lowercase value"

definition u16_max :: nat where
  "u16_max = 65535"

definition is_canonical_output_name :: "string \<Rightarrow> bool" where
  "is_canonical_output_name name \<longleftrightarrow>
     (case split_once CHR ''.'' name of
        None \<Rightarrow> False
      | Some (attempt, extension) \<Rightarrow>
          \<not> (attempt \<noteq> [] \<and> hd attempt = CHR ''0'')
          \<and> (case parse_unsigned u16_max attempt of Some number \<Rightarrow> number > 0 | None \<Rightarrow> False)
          \<and> (extension = ''partial'' \<or> extension = ''log''))"


section \<open>Lemmas\<close>

lemma split_once_iff: "split_once c s = Some (a, b) \<longleftrightarrow> s = a @ c # b \<and> c \<notin> set a"
proof (induction s arbitrary: a)
  case (Cons x s)
  then show ?case by (cases a) auto
qed simp

lemma separated_eq:
  fixes c :: char
  assumes "a @ c # b = a' @ c # b'" and "c \<notin> set a" and "c \<notin> set a'"
  shows "a = a' \<and> b = b'"
proof -
  have "split_once c (a @ c # b) = Some (a, b)" "split_once c (a' @ c # b') = Some (a', b')"
    using assms(2,3) by (simp_all add: split_once_iff)
  then show ?thesis unfolding assms(1) by simp
qed

lemma digits_show:
  "ds \<noteq> [] \<Longrightarrow> list_all is_digit ds \<Longrightarrow> hd ds \<noteq> CHR ''0'' \<Longrightarrow> ds = show_nat (decimal_value ds) \<and> 0 < decimal_value ds"
proof (induction ds rule: rev_induct)
  case (snoc d ds)
  have d: "digit_value d < 10" "char_of (48 + digit_value d) = d"
    using snoc.prems(2) by (auto simp: is_digit_def digit_value_def)
  show ?case
  proof (cases "ds = []")
    case True
    then have "d \<noteq> CHR ''0''" using snoc.prems by simp
    moreover have "char_of (48 :: nat) = CHR ''0''" by code_simp
    ultimately have "digit_value d \<noteq> 0" using d(2) by (metis add_0_right)
    then show ?thesis using True d by (simp add: decimal_value_def show_nat.simps[of "digit_value d"])
  next
    case False
    then have IH: "ds = show_nat (decimal_value ds)" "0 < decimal_value ds" using snoc by auto
    then show ?thesis
      using d by (simp add: decimal_value_snoc show_nat.simps[of "decimal_value ds * 10 + digit_value d"])
  qed
qed simp

lemma show_nat_head: "0 < n \<Longrightarrow> hd (show_nat n) \<noteq> CHR ''0''"
proof (induction n rule: show_nat.induct)
  case (1 n)
  show ?case
  proof (cases "n < 10")
    case True
    have "char_of (48 + n) \<noteq> CHR ''0''"
    proof
      assume "char_of (48 + n) = CHR ''0''"
      then have "(of_char (char_of (48 + n)) :: nat) = of_char (CHR ''0'')" by simp
      then show False using True 1(2) by simp
    qed
    then show ?thesis using True by (simp add: show_nat.simps[of n])
  next
    case False
    then show ?thesis using 1 show_nat_decimal[of "n div 10"] by (simp add: show_nat.simps[of n])
  qed
qed

lemma digits_plain:
  "list_all is_digit ds \<Longrightarrow> CHR ''.'' \<notin> set ds \<and> CHR ''/'' \<notin> set ds \<and> CHR ''+'' \<notin> set ds"
  by (induction ds) (auto simp: is_digit_def)

lemma show_nat_inj: "show_nat n = show_nat m \<Longrightarrow> n = m"
  by (metis show_nat_decimal)

text \<open>
  The names that the sweep accepts: the printed attempt numbers and, beside them, numbers with
  a leading plus sign, which no output path has.
\<close>

lemma canonical_output_name_iff:
  "is_canonical_output_name name \<longleftrightarrow>
     (\<exists>ext \<in> {''partial'', ''log''}.
        (\<exists>n. 0 < n \<and> n \<le> u16_max \<and> name = show_nat n @ CHR ''.'' # ext) \<or>
        (\<exists>ds. name = CHR ''+'' # ds @ CHR ''.'' # ext \<and> ds \<noteq> [] \<and> list_all is_digit ds
           \<and> 0 < decimal_value ds \<and> decimal_value ds \<le> u16_max))" (is "?L \<longleftrightarrow> ?R")
proof
  assume L: ?L
  then obtain attempt ext where split: "split_once CHR ''.'' name = Some (attempt, ext)" and ext: "ext \<in> {''partial'', ''log''}"
    and zero: "\<not> (attempt \<noteq> [] \<and> hd attempt = CHR ''0'')"
    and number: "\<exists>k. parse_unsigned u16_max attempt = Some k \<and> 0 < k"
    by (auto simp: is_canonical_output_name_def split: option.splits)
  have name: "name = attempt @ CHR ''.'' # ext" using split by (simp add: split_once_iff)
  obtain ds where ds: "ds = strip_plus attempt" "ds \<noteq> []" "list_all is_digit ds" "0 < decimal_value ds" "decimal_value ds \<le> u16_max"
    using number by (auto simp: parse_unsigned_def Let_def split: if_splits)
  show ?R
  proof (cases "attempt = CHR ''+'' # ds")
    case True
    then show ?thesis using name ext ds by auto
  next
    case False
    then have "attempt = ds" using ds(1,2) by (auto simp: strip_plus_def split: list.splits if_splits)
    then have "attempt = show_nat (decimal_value ds)" using digits_show[of ds] ds(2,3) zero by auto
    then show ?thesis using name ext ds(4,5) by blast
  qed
next
  assume ?R
  then obtain attempt ext where name: "name = attempt @ CHR ''.'' # ext" and ext: "ext \<in> {''partial'', ''log''}"
    and attempt: "(\<exists>n. 0 < n \<and> n \<le> u16_max \<and> attempt = show_nat n) \<or> (\<exists>ds. attempt = CHR ''+'' # ds \<and> ds \<noteq> [] \<and> list_all is_digit ds
           \<and> 0 < decimal_value ds \<and> decimal_value ds \<le> u16_max)"
    by (elim bexE disjE exE conjE) (metis append_Cons)+
  from attempt have "CHR ''.'' \<notin> set attempt \<and> \<not> (attempt \<noteq> [] \<and> hd attempt = CHR ''0'') \<and>
      (\<exists>k. parse_unsigned u16_max attempt = Some k \<and> 0 < k)"
  proof
    assume "\<exists>n. 0 < n \<and> n \<le> u16_max \<and> attempt = show_nat n"
    then show ?thesis using digits_plain show_nat_decimal show_nat_head parse_unsigned_show by blast
  next
    assume "\<exists>ds. attempt = CHR ''+'' # ds \<and> ds \<noteq> [] \<and> list_all is_digit ds \<and> 0 < decimal_value ds \<and> decimal_value ds \<le> u16_max"
    then show ?thesis using digits_plain by (auto simp: parse_unsigned_def strip_plus_def)
  qed
  then show ?L using ext by (auto simp: is_canonical_output_name_def name split_once_iff[THEN iffD2])
qed

lemma plus_name_accepted: "is_canonical_output_name ''+5.log''"
  unfolding canonical_output_name_iff
  by (intro bexI[of _ "''log''"] disjI2 exI[of _ "''5''"])
    (simp_all add: is_digit_def decimal_value_def digit_value_def u16_max_def)


section \<open>Output paths\<close>

text \<open>The canonical form of a UUID in the documentation of its package.\<close>

definition canonical_uuids :: "codecs \<Rightarrow> bool" where
  "canonical_uuids D \<longleftrightarrow>
     (\<forall>t h. uuid_hyphenated D t = Some h \<longrightarrow> length h = 36 \<and> list_all (\<lambda>c. c \<in> set ''0123456789abcdef-'') h)"

definition output_path :: "codecs \<Rightarrow> state_paths \<Rightarrow> bool \<Rightarrow> string \<Rightarrow> nat \<Rightarrow> string store_result" where
  "output_path D self finished rid n = (if finished then final_output D self rid n else partial_output D self rid n)"

definition output_name :: "bool \<Rightarrow> nat \<Rightarrow> string" where
  "output_name finished n = show_nat n @ CHR ''.'' # (if finished then ''log'' else ''partial'')"

lemma output_name_inj: "output_name f n = output_name f' n' \<Longrightarrow> f = f' \<and> n = n'"
proof -
  assume eq: "output_name f n = output_name f' n'"
  have "CHR ''.'' \<notin> set (show_nat k)" for k using digits_plain show_nat_decimal by blast
  from separated_eq[OF eq[unfolded output_name_def] this this] show ?thesis
    using show_nat_inj by (auto split: if_splits)
qed

lemma output_name_plain: "CHR ''/'' \<notin> set (output_name f n)"
  using digits_plain[of "show_nat n"] show_nat_decimal[of n] by (auto simp: output_name_def)

lemma canonical_uuid_plain:
  assumes "canonical_uuids D" and "validate_uuid D rid = Inr ()"
  shows "is_canonical_uuid D rid \<and> rid \<noteq> [] \<and> CHR ''/'' \<notin> set rid \<and> CHR ''.'' \<notin> set rid"
proof -
  have rid: "uuid_hyphenated D rid = Some rid" "to_ascii_lowercase rid = rid"
    using assms(2) by (auto simp: validate_uuid_def split: option.splits if_splits)
  have "length rid = 36 \<and> list_all (\<lambda>c. c \<in> set ''0123456789abcdef-'') rid"
    using assms(1) rid(1) by (simp add: canonical_uuids_def)
  then have "rid \<noteq> []" "c \<in> set rid \<Longrightarrow> c \<in> set ''0123456789abcdef-''" for c
    by (auto simp: list_all_iff simp del: set_simps)
  then show ?thesis using rid by (auto simp: is_canonical_uuid_def)
qed

lemma path_join_plain: "b \<noteq> [] \<Longrightarrow> CHR ''/'' \<notin> set b \<Longrightarrow> a \<noteq> [] \<Longrightarrow> last a \<noteq> CHR ''/'' \<Longrightarrow> path_join a b = a @ CHR ''/'' # b"
  by (cases b) (auto simp: path_join_def)

lemma outputs_plain: "sp_outputs (StatePaths_new root) \<noteq> [] \<and> last (sp_outputs (StatePaths_new root)) \<noteq> CHR ''/''"
  by (simp add: StatePaths_new_def path_join_def)

lemma output_path_shape:
  assumes D: "canonical_uuids D" and path: "output_path D (StatePaths_new root) f rid n = Inr p"
  shows "p = sp_outputs (StatePaths_new root) @ CHR ''/'' # rid @ CHR ''/'' # output_name f n \<and> 0 < n \<and> validate_uuid D rid = Inr ()"
proof -
  let ?o = "sp_outputs (StatePaths_new root)"
  have n: "0 < n" and valid: "validate_uuid D rid = Inr ()"
    and p: "p = path_join (path_join ?o rid) (output_name f n)"
    using path by (auto simp: output_path_def final_output_def partial_output_def output_directory_def output_name_def
        and_then_eq_Inr split: if_splits)
  note rid = canonical_uuid_plain[OF D valid]
  have "path_join ?o rid = ?o @ CHR ''/'' # rid" using rid outputs_plain by (simp add: path_join_plain)
  moreover have "last rid \<noteq> CHR ''/''" using rid last_in_set by metis
  ultimately show ?thesis
    using n valid rid output_name_plain[of f n] unfolding p by (simp add: path_join_plain output_name_def)
qed

lemma validate_uuid_canonical: "validate_uuid D rid = Inr () \<longleftrightarrow> is_canonical_uuid D rid"
  by (auto simp: validate_uuid_def is_canonical_uuid_def split: option.splits)

lemma output_path_accepted: "(\<exists>p. output_path D self f rid n = Inr p) \<longleftrightarrow> 0 < n \<and> is_canonical_uuid D rid"
  by (auto simp: output_path_def final_output_def partial_output_def output_directory_def and_then_eq_Inr
      simp flip: validate_uuid_canonical)

lemma output_path_inj:
  assumes D: "canonical_uuids D" and path: "output_path D (StatePaths_new root) f rid n = Inr p"
    and path': "output_path D (StatePaths_new root) f' rid' n' = Inr p"
  shows "f' = f \<and> rid' = rid \<and> n' = n"
proof -
  note shape = output_path_shape[OF D path] and shape' = output_path_shape[OF D path']
  note rid = canonical_uuid_plain[OF D conjunct2[OF conjunct2[OF shape]]]
  note rid' = canonical_uuid_plain[OF D conjunct2[OF conjunct2[OF shape']]]
  have "rid @ CHR ''/'' # output_name f n = rid' @ CHR ''/'' # output_name f' n'"
    using conjunct1[OF shape] conjunct1[OF shape'] by simp
  from separated_eq[OF this] rid rid' show ?thesis
    using output_name_inj[of f n f' n'] by simp
qed


section \<open>Properties\<close>

text \<open>
  C38: the paths of attempt outputs. A path is handed out for exactly the canonical run
  identities and the positive attempt numbers. It lies directly in the directory of its run
  under the managed output directory, under the printed attempt number with the extension of
  its stage; neither name contains a separator and the sweep for orphans recognizes both, so
  no identity can reach outside. And the paths of two outputs coincide only for the same run,
  attempt and stage.
\<close>

theorem output_paths_sound:
  assumes D: "canonical_uuids D" and n: "n \<le> u16_max"
  shows "((\<exists>p. output_path D (StatePaths_new root) f rid n = Inr p) \<longleftrightarrow> 0 < n \<and> is_canonical_uuid D rid) \<and>
    (\<forall>p. output_path D (StatePaths_new root) f rid n = Inr p \<longrightarrow>
      (\<exists>name. p = path_join root ''outputs'' @ CHR ''/'' # rid @ CHR ''/'' # name
        \<and> name = show_nat n @ (if f then ''.log'' else ''.partial'')
        \<and> CHR ''/'' \<notin> set rid \<and> CHR ''/'' \<notin> set name \<and> rid \<notin> {[], ''.'', ''..''} \<and> name \<notin> {[], ''.'', ''..''}
        \<and> is_canonical_output_name name)
      \<and> (\<forall>f' rid' n'. output_path D (StatePaths_new root) f' rid' n' = Inr p \<longrightarrow> f' = f \<and> rid' = rid \<and> n' = n))"
proof (intro conjI allI impI)
  show "(\<exists>p. output_path D (StatePaths_new root) f rid n = Inr p) \<longleftrightarrow> 0 < n \<and> is_canonical_uuid D rid"
    by (rule output_path_accepted)
  fix p assume path: "output_path D (StatePaths_new root) f rid n = Inr p"
  note shape = output_path_shape[OF D path]
  note rid = canonical_uuid_plain[OF D conjunct2[OF conjunct2[OF shape]]]
  have "rid \<notin> {[], ''.'', ''..''}" using rid by auto
  moreover have "is_canonical_output_name (output_name f n)"
    using shape n by (auto simp: canonical_output_name_iff output_name_def)
  moreover have "output_name f n \<notin> {[], ''.'', ''..''}"
    using show_nat_decimal[of n] digits_plain[of "show_nat n"] by (cases "show_nat n") (auto simp: output_name_def)
  moreover have "output_name f n = show_nat n @ (if f then ''.log'' else ''.partial'')" by (simp add: output_name_def)
  moreover have "sp_outputs (StatePaths_new root) = path_join root ''outputs''" by (simp add: StatePaths_new_def)
  ultimately show "\<exists>name. p = path_join root ''outputs'' @ CHR ''/'' # rid @ CHR ''/'' # name
        \<and> name = show_nat n @ (if f then ''.log'' else ''.partial'')
        \<and> CHR ''/'' \<notin> set rid \<and> CHR ''/'' \<notin> set name \<and> rid \<notin> {[], ''.'', ''..''} \<and> name \<notin> {[], ''.'', ''..''}
        \<and> is_canonical_output_name name"
    using shape rid output_name_plain[of f n] by metis
  show "f' = f" "rid' = rid" "n' = n" if "output_path D (StatePaths_new root) f' rid' n' = Inr p" for f' rid' n'
    using output_path_inj[OF D path that] by blast+
qed

definition strict_codecs :: codecs where
  "strict_codecs =
     \<lparr>from_str = (\<lambda>t. Inr (JObject [])), definition_from_str = (\<lambda>t. None),
      uuid_hyphenated = (\<lambda>t. if length t = 36 \<and> list_all (\<lambda>c. c \<in> set ''0123456789abcdef-'') t then Some t else None),
      environment_from_str = (\<lambda>t. Inr []), environment_to_string = (\<lambda>e. ''{}'')\<rparr>"

theorem output_paths_sound_witness:
  "(\<exists>p name. output_path strict_codecs (StatePaths_new ''/s'') True ''018f0000-0000-7000-8000-000000000001'' 3 = Inr p
     \<and> p = path_join ''/s'' ''outputs'' @ CHR ''/'' # ''018f0000-0000-7000-8000-000000000001'' @ CHR ''/'' # name
     \<and> is_canonical_output_name name)
   \<and> \<not> (\<exists>p. output_path strict_codecs (StatePaths_new ''/s'') True ''../../etc'' 3 = Inr p)"
proof -
  have D: "canonical_uuids strict_codecs" by (simp add: canonical_uuids_def strict_codecs_def)
  have n: "3 \<le> u16_max" by (simp add: u16_max_def)
  note sound = output_paths_sound[OF D n, where root = "''/s''" and f = True]
  have "\<not> is_canonical_uuid strict_codecs ''../../etc''" by code_simp
  then have refused: "\<not> (\<exists>p. output_path strict_codecs (StatePaths_new ''/s'') True ''../../etc'' 3 = Inr p)"
    using sound[where rid = "''../../etc''"] by blast
  have "is_canonical_uuid strict_codecs ''018f0000-0000-7000-8000-000000000001''" by code_simp
  with sound[where rid = "''018f0000-0000-7000-8000-000000000001''"] obtain p
    where "output_path strict_codecs (StatePaths_new ''/s'') True ''018f0000-0000-7000-8000-000000000001'' 3 = Inr p" by auto
  with sound[where rid = "''018f0000-0000-7000-8000-000000000001''"] refused show ?thesis by blast
qed

end
