(* ===== verification/Attempt_Target.thy ===== *)
theory Attempt_Target
  imports State_Paths Store_Runs
begin

text \<open>
  What an admitted attempt executes: \<open>engine_target\<close> and \<open>resolve_attempt_executable\<close> of
  \<^verbatim>\<open>crates/locron-cli/src/main.rs\<close> with \<open>resolve_executable\<close> of \<^verbatim>\<open>crates/locron-core/src/execution.rs\<close>,
  in the Unix build. What the file system and the packages answer is an argument: the variables
  of the process, the text and the bytes of files, which paths are regular files, the parser of
  URLs, the text of an instant and the text of a JSON error.
\<close>


section \<open>Executables\<close>

text \<open>
  \<open>Path::components().count()\<close>: the root, a leading dot of a relative path, and the segments
  that are neither empty nor a dot.
\<close>

definition component_count :: "string \<Rightarrow> nat" where
  "component_count path =
     (let segments = split_on CHR ''/'' path
      in (if is_absolute path \<or> hd segments = ''.'' then 1 else 0)
         + length (filter (\<lambda>s. s \<noteq> [] \<and> s \<noteq> ''.'') segments))"

definition search_directories :: "string \<Rightarrow> env \<Rightarrow> string list" where
  "search_directories cwd environment =
     (let search_path = (case environment_value False environment ''PATH'' of None \<Rightarrow> '''' | Some p \<Rightarrow> p)
      in map (\<lambda>directory. if is_absolute directory then directory else path_join cwd directory)
           (split_on CHR '':'' search_path))"

definition resolve_executable :: "(string \<Rightarrow> bool) \<Rightarrow> string \<Rightarrow> string \<Rightarrow> env \<Rightarrow> string option" where
  "resolve_executable is_file executable cwd environment =
     (if executable = [] \<or> NUL \<in> set executable \<or> \<not> is_absolute cwd then None
      else
        let bearing = (is_absolute executable \<or> component_count executable > 1);
            candidates =
              (if bearing
               then [if is_absolute executable then executable else path_join cwd executable]
               else map (\<lambda>directory. path_join directory executable) (search_directories cwd environment))
        in find is_file candidates)"

definition resolve_attempt_executable :: "(string \<Rightarrow> bool) \<Rightarrow> string \<Rightarrow> string \<Rightarrow> env \<Rightarrow> string + string" where
  "resolve_attempt_executable is_file executable cwd environment =
     and_then (ok_or (''executable not found: '' @ executable)
         (resolve_executable is_file executable cwd environment)) (\<lambda>resolved.
       Inr (if is_absolute resolved then resolved else path_join cwd resolved))"


section \<open>Targets\<close>

record process_spec =
  ps_executable :: string
  ps_args :: "string list"
  ps_cwd :: string
  ps_env :: env

record http_spec =
  hs_method :: string
  hs_url :: string
  hs_headers :: "(string \<times> string) list"
  hs_body :: "nat list option"
  hs_success_statuses :: "nat list"
  hs_follow_redirects :: bool

datatype target_spec = ProcessSpec process_spec | HttpSpec http_spec

text \<open>What the attempt asks of its surroundings.\<close>

record surroundings =
  process_variables :: "process_variable list"
  read_text :: "string \<Rightarrow> string + string"
  read_input :: "string \<Rightarrow> string + nat list"
  regular_file :: "string \<Rightarrow> bool"
  parse_url :: "string \<Rightarrow> string + string"
  show_instant :: "int \<Rightarrow> string"
  json_error :: "string \<Rightarrow> string"

fun trigger_name :: "run_trigger \<Rightarrow> string" where
  "trigger_name TriggerScheduled = ''scheduled''"
| "trigger_name TriggerCatchUp = ''catch_up''"
| "trigger_name TriggerManual = ''manual''"

definition identity_entries :: "surroundings \<Rightarrow> admit_attempt \<Rightarrow> env" where
  "identity_entries S attempt =
     [(''LOCRON_JOB_ID'', ad_job attempt), (''LOCRON_RUN_ID'', ad_run attempt),
      (''LOCRON_ATTEMPT'', show_int (ad_number attempt)), (''LOCRON_TRIGGER'', trigger_name (ad_trigger attempt)),
      (''LOCRON_SCHEDULED_AT'', (case ad_nominal attempt of None \<Rightarrow> '''' | Some t \<Rightarrow> show_instant S t))]"

definition attempt_environment ::
    "surroundings \<Rightarrow> job_definition \<Rightarrow> admit_attempt \<Rightarrow> settings_record \<Rightarrow> string + env" where
  "attempt_environment S def attempt config =
     map_sum id (fold (\<lambda>(k, v). btree_insert k v) (identity_entries S attempt))
       (effective_environment False (process_variables S) (read_text S) (rec_execution_path config)
          (rec_environment config) (definition_environment def))"

definition header_value :: "env \<Rightarrow> http_header_source \<Rightarrow> string + string" where
  "header_value environment source =
     (case source of
        Inline v \<Rightarrow> Inr v
      | FromEnvironment name \<Rightarrow>
          ok_or (''header environment '' @ name @ '' is missing'') (environment_value False environment name))"

definition http_request_body :: "surroundings \<Rightarrow> http_target \<Rightarrow> string + nat list option" where
  "http_request_body S http =
     (case (http_body http, http_body_file http) of
        (Some body, None) \<Rightarrow> Inr (Some body)
      | (None, Some path) \<Rightarrow> map_sum (\<lambda>error. ''HTTP body file: '' @ error) Some (read_input S path)
      | (None, None) \<Rightarrow> Inr None
      | (Some _, Some _) \<Rightarrow> Inl ''conflicting HTTP body sources'')"

definition engine_target ::
    "surroundings \<Rightarrow> job_definition \<Rightarrow> admit_attempt \<Rightarrow> settings_record \<Rightarrow> string + target_spec" where
  "engine_target S def attempt config =
     and_then (attempt_environment S def attempt config) (\<lambda>environment.
       case definition_target def of
         Process executable args \<Rightarrow>
           and_then (resolve_attempt_executable (regular_file S) executable (definition_cwd def) environment) (\<lambda>resolved.
           and_then (validate_direct_executable resolved) (\<lambda>_.
             Inr (ProcessSpec \<lparr>ps_executable = resolved, ps_args = args, ps_cwd = definition_cwd def,
                               ps_env = environment\<rparr>)))
       | Shell command shell \<Rightarrow>
           and_then (resolve_attempt_executable (regular_file S) shell (definition_cwd def) environment) (\<lambda>resolved.
           and_then (shell_arguments resolved command) (\<lambda>args.
             Inr (ProcessSpec \<lparr>ps_executable = resolved, ps_args = args, ps_cwd = definition_cwd def,
                               ps_env = environment\<rparr>)))
       | Http http \<Rightarrow>
           and_then (collect (\<lambda>(name, source). map_sum id (Pair name) (header_value environment source))
               (http_headers http)) (\<lambda>headers.
           and_then (parse_url S (http_url http)) (\<lambda>url.
           and_then (http_request_body S http) (\<lambda>body.
             Inr (HttpSpec \<lparr>hs_method = HttpMethod_as_str (http_method http), hs_url = url, hs_headers = headers,
                            hs_body = body, hs_success_statuses = http_success_statuses http,
                            hs_follow_redirects = http_follow_redirects http\<rparr>)))))"


section \<open>Lemmas\<close>

lemma unix_environment_value [simp]: "environment_value False e name = map_of e name"
  by (induction e) (auto simp: environment_name_def)

lemma path_join_absolute: "is_absolute a \<Longrightarrow> is_absolute (path_join a b)"
  by (cases a) (auto simp: is_absolute_def path_join_def starts_with_def, cases b, auto)

lemma resolved_executable:
  assumes "resolve_attempt_executable is_file executable cwd environment = Inr resolved"
  shows "is_absolute resolved \<and> is_file resolved"
proof -
  obtain found where found: "resolve_executable is_file executable cwd environment = Some found"
    and resolved: "resolved = (if is_absolute found then found else path_join cwd found)"
    using assms by (auto simp: resolve_attempt_executable_def and_then_eq_Inr ok_or_eq_Inr)
  have "is_absolute cwd" using found by (auto simp: resolve_executable_def split: if_splits)
  moreover from found have "is_file found" by (auto simp: resolve_executable_def Let_def find_Some_iff split: if_splits)
  moreover have "is_absolute found"
    using found calculation(1)
    by (auto simp: resolve_executable_def Let_def find_Some_iff search_directories_def path_join_absolute split: if_splits)
  ultimately show ?thesis using resolved by simp
qed

lemma fold_insert_other:
  "name \<notin> fst ` set entries \<Longrightarrow> map_of (fold (\<lambda>(k, v). btree_insert k v) entries m) name = map_of m name"
  by (induction entries arbitrary: m) auto

lemma identity_reserved: "name \<in> fst ` set (identity_entries S attempt) \<Longrightarrow> is_reserved_environment_name False name"
  by (auto simp: identity_entries_def is_reserved_environment_name_def starts_with_def environment_name_def)

lemma attempt_environment_values:
  assumes "attempt_environment S def attempt config = Inr e"
  shows "map_of e ''LOCRON_JOB_ID'' = Some (ad_job attempt)"
    "map_of e ''LOCRON_RUN_ID'' = Some (ad_run attempt)"
    "map_of e ''LOCRON_ATTEMPT'' = Some (show_int (ad_number attempt))"
    "map_of e ''LOCRON_TRIGGER'' = Some (trigger_name (ad_trigger attempt))"
    "\<exists>base. effective_environment False (process_variables S) (read_text S) (rec_execution_path config)
          (rec_environment config) (definition_environment def) = Inr base
        \<and> (\<forall>name. \<not> is_reserved_environment_name False name \<longrightarrow> map_of e name = map_of base name)"
proof -
  obtain base where base: "effective_environment False (process_variables S) (read_text S) (rec_execution_path config)
          (rec_environment config) (definition_environment def) = Inr base"
    and e: "e = fold (\<lambda>(k, v). btree_insert k v) (identity_entries S attempt) base"
    using assms unfolding attempt_environment_def by (cases "effective_environment False (process_variables S) (read_text S)
        (rec_execution_path config) (rec_environment config) (definition_environment def)") auto
  show "map_of e ''LOCRON_JOB_ID'' = Some (ad_job attempt)" "map_of e ''LOCRON_RUN_ID'' = Some (ad_run attempt)"
    "map_of e ''LOCRON_ATTEMPT'' = Some (show_int (ad_number attempt))"
    "map_of e ''LOCRON_TRIGGER'' = Some (trigger_name (ad_trigger attempt))"
    by (simp_all add: e identity_entries_def)
  have "map_of e name = map_of base name" if "\<not> is_reserved_environment_name False name" for name
    unfolding e using that identity_reserved by (blast intro: fold_insert_other)
  then show "\<exists>base. effective_environment False (process_variables S) (read_text S) (rec_execution_path config)
          (rec_environment config) (definition_environment def) = Inr base
        \<and> (\<forall>name. \<not> is_reserved_environment_name False name \<longrightarrow> map_of e name = map_of base name)"
    using base by blast
qed


section \<open>Properties\<close>

text \<open>
  C39: the process of an attempt is what its job says. Its executable is an absolute path of
  a regular file, found in the job's own directory and search path; it runs in the job's
  directory, with the arguments of a direct command or with the shell's \<open>-c\<close>; and its
  environment identifies job, run, attempt and trigger whatever the configuration sets, while
  every other variable is the one of the layered environment.
\<close>

theorem engine_target_sound:
  assumes "engine_target S def attempt config = Inr (ProcessSpec p)"
  shows "is_absolute (ps_executable p) \<and> regular_file S (ps_executable p) \<and> ps_cwd p = definition_cwd def \<and>
    (\<forall>executable args. definition_target def = Process executable args \<longrightarrow> ps_args p = args) \<and>
    (\<forall>command shell. definition_target def = Shell command shell \<longrightarrow> ps_args p = [''-c'', command]) \<and>
    map_of (ps_env p) ''LOCRON_JOB_ID'' = Some (ad_job attempt) \<and>
    map_of (ps_env p) ''LOCRON_RUN_ID'' = Some (ad_run attempt) \<and>
    map_of (ps_env p) ''LOCRON_ATTEMPT'' = Some (show_int (ad_number attempt)) \<and>
    map_of (ps_env p) ''LOCRON_TRIGGER'' = Some (trigger_name (ad_trigger attempt)) \<and>
    (\<exists>base. effective_environment False (process_variables S) (read_text S) (rec_execution_path config)
          (rec_environment config) (definition_environment def) = Inr base
        \<and> (\<forall>name. \<not> is_reserved_environment_name False name \<longrightarrow> map_of (ps_env p) name = map_of base name))"
proof -
  obtain e where e: "attempt_environment S def attempt config = Inr e"
    using assms by (auto simp: engine_target_def and_then_eq_Inr)
  have env: "ps_env p = e" and cwd: "ps_cwd p = definition_cwd def"
    and exe: "\<exists>x. resolve_attempt_executable (regular_file S) x (definition_cwd def) e = Inr (ps_executable p)"
    and args: "\<forall>executable args. definition_target def = Process executable args \<longrightarrow> ps_args p = args"
      "\<forall>command shell. definition_target def = Shell command shell \<longrightarrow> ps_args p = [''-c'', command]"
    using assms e by (auto simp: engine_target_def and_then_eq_Inr shell_arguments_def split: target.splits if_splits)
  have "is_absolute (ps_executable p) \<and> regular_file S (ps_executable p)"
    using exe resolved_executable by blast
  then show ?thesis using attempt_environment_values[OF e] env cwd args by simp
qed

definition sample_surroundings :: surroundings where
  "sample_surroundings =
     \<lparr>process_variables = [], read_text = (\<lambda>_. Inl ''not found''), read_input = (\<lambda>_. Inl ''not found''),
      regular_file = (\<lambda>path. path = ''/usr/bin/backup''), parse_url = Inr, show_instant = show_int,
      json_error = (\<lambda>_. ''syntax error'')\<rparr>"

definition sample_attempt :: admit_attempt where
  "sample_attempt =
     \<lparr>ad_run = ''r'', ad_job = ''a'', ad_number = 1, ad_trigger = TriggerManual, ad_nominal = None, ad_snapshot_json = ''{}''\<rparr>"

definition sample_settings :: settings_record where
  "sample_settings =
     \<lparr>rec_global_concurrency = 4, rec_execution_path = ''/bin:/usr/bin'', rec_run_retention_count = 9,
      rec_run_retention_age = None, rec_output_limit = 1000, rec_per_run_output_limit = 100, rec_environment = []\<rparr>"

definition backup_definition :: job_definition where
  "backup_definition =
     \<lparr>definition_schedule = ScheduleAt (Timestamp 0), definition_target = Process ''backup'' [''--all''],
      definition_cwd = ''/home'', definition_environment = \<lparr>env_file = None, env_values = [], env_path = None\<rparr>,
      definition_policy = ExecutionPolicy_default, definition_action = Retain\<rparr>"

theorem engine_target_sound_witness:
  "\<exists>p. engine_target sample_surroundings backup_definition sample_attempt sample_settings = Inr (ProcessSpec p)
     \<and> regular_file sample_surroundings (ps_executable p) \<and> map_of (ps_env p) ''LOCRON_RUN_ID'' = Some ''r''"
proof -
  have "\<exists>p. engine_target sample_surroundings backup_definition sample_attempt sample_settings = Inr (ProcessSpec p)"
    by (simp add: engine_target_def attempt_environment_def effective_environment_def apply_environment_layer_def
        validate_environment_layer_def minimal_environment_def map_filter_def sample_surroundings_def backup_definition_def
        sample_attempt_def sample_settings_def resolve_attempt_executable_def resolve_executable_def identity_entries_def
        validate_direct_executable_def search_directories_def component_count_def is_absolute_def starts_with_def path_join_def NUL_def char_of_def)
  then obtain p where p: "engine_target sample_surroundings backup_definition sample_attempt sample_settings = Inr (ProcessSpec p)" ..
  have "ad_run sample_attempt = ''r''" by (simp add: sample_attempt_def)
  with p engine_target_sound[OF p] show ?thesis by auto
qed

end
