(* ===== verification/Store_Adapter.thy ===== *)
theory Store_Adapter
  imports Attempt_Target Output_Files Daemon Admission Store_Guarantees Store_Jobs Store_Retention
begin

text \<open>
  The adapter between daemon and store, \<open>impl DaemonStore for StoreAdapter\<close> in
  \<^verbatim>\<open>crates/locron-cli/src/main.rs\<close>: admission prepares what an attempt executes and captures, and
  fails the attempts whose configuration does not allow it; completion decides on a retry and
  stores output and result. The methods map a database to a reply and a database. Instants
  that the adapter samples and the file operations of a new output file are arguments.
\<close>


section \<open>Errors\<close>

definition hex_digit :: "nat \<Rightarrow> char" where
  "hex_digit n = ''0123456789abcdef'' ! n"

fun show_hex :: "nat \<Rightarrow> string" where
  "show_hex n = (if n < 16 then [hex_digit n] else show_hex (n div 16) @ [hex_digit (n mod 16)])"

declare show_hex.simps [simp del]

definition state_directory_text :: string where
  "state_directory_text = ''state directory cannot be discovered; use --state-dir <PATH> or set LOCRON_STATE_DIR to select a private local directory''"

fun store_error_text :: "store_error \<Rightarrow> string" where
  "store_error_text (StoreObserved e) = e"
| "store_error_text StoreAdmissionTimeout = ''writer admission deadline elapsed''"
| "store_error_text StoreMaintenanceDeferred = ''automatic maintenance yielded to foreground work''"
| "store_error_text StoreReadOnly = ''state store was opened read-only''"
| "store_error_text (StoreIo e) = e"
| "store_error_text (StoreSqlite e) = e"
| "store_error_text (StoreJson e) = e"
| "store_error_text StoreDaemonAlreadyRunning = ''another locron daemon owns this state directory''"
| "store_error_text StoreMigrationRequiresDaemonRestart = ''database migration requires the running daemon to restart''"
| "store_error_text (StoreSchemaTooNew found supported) =
     ''database schema '' @ show_int found @ '' is newer than supported schema '' @ show_int supported"
| "store_error_text (StoreNotLocronDatabase ident) =
     ''database application id 0x'' @ show_hex (nat (ident mod 2 ^ 32)) @ '' does not identify locron state''"
| "store_error_text (StoreMigrationChecksumMismatch version expected found) =
     ''migration '' @ show_int version @ '' checksum mismatch: expected '' @ expected @ '', found '' @ found"
| "store_error_text (StoreMissingMigration version) = ''migration record '' @ show_int version @ '' is missing''"
| "store_error_text StoreMigrationConflict = ''migration raced another initializer''"
| "store_error_text StoreStateDirectoryUnavailable = state_directory_text"
| "store_error_text (StoreStateDirectoryDiscoveryFailed e) = state_directory_text"
| "store_error_text (StoreUnsafePath path) = ''unsafe managed path: '' @ path"
| "store_error_text (StoreInvalidIdentity e) = ''invalid identity: '' @ e"
| "store_error_text (StoreNotFound e) = ''not found: '' @ e"
| "store_error_text (StoreConflict e) = ''durable conflict: '' @ e"

definition map_completion_error :: "store_error \<Rightarrow> completion_error" where
  "map_completion_error e =
     (case e of StoreConflict _ \<Rightarrow> Conflict (store_error_text e) | other \<Rightarrow> Transient (store_error_text other))"

definition io_error_text :: "io_error \<Rightarrow> string" where
  "io_error_text e = error_message e"


section \<open>Outcomes\<close>

datatype outcome_kind =
    OutcomeSucceeded
  | OutcomeFailedRetryable
  | OutcomeFailed
  | OutcomeTimedOut
  | OutcomeCancelled
  | OutcomeTerminationUnconfirmed

record execution_outcome =
  oc_kind :: outcome_kind
  oc_exit_code :: "int option"
  oc_http_status :: "nat option"
  oc_http_content_type :: "string option"
  oc_reason :: string
  oc_duration_micros :: nat
  oc_output :: output_stats

fun retry_class_of :: "outcome_kind \<Rightarrow> retry_class" where
  "retry_class_of OutcomeSucceeded = RetrySucceeded"
| "retry_class_of OutcomeFailedRetryable = KnownFailure"
| "retry_class_of OutcomeTimedOut = Timeout"
| "retry_class_of OutcomeCancelled = RetryCancelled"
| "retry_class_of OutcomeTerminationUnconfirmed = RetryInterruptedUnknown"
| "retry_class_of OutcomeFailed = Configuration"

fun completion_state_of :: "outcome_kind \<Rightarrow> completion_state" where
  "completion_state_of OutcomeSucceeded = CompletedAs AttSucceeded"
| "completion_state_of OutcomeTimedOut = CompletedAs AttTimedOut"
| "completion_state_of OutcomeCancelled = CompletedAs AttCancelled"
| "completion_state_of OutcomeTerminationUnconfirmed = TerminationUnconfirmed"
| "completion_state_of OutcomeFailed = CompletedAs AttFailed"
| "completion_state_of OutcomeFailedRetryable = CompletedAs AttFailed"

definition i64_or_max :: "nat \<Rightarrow> int" where
  "i64_or_max n = unwrap_or i64_max (i64_try_from n)"

definition output_record_of :: "string \<Rightarrow> int \<Rightarrow> output_stats \<Rightarrow> output_record" where
  "output_record_of rid n stats =
     \<lparr>out_run = rid, out_number = n, out_retained = i64_or_max (unat (retained_bytes stats)),
      out_physical = i64_or_max (unat (physical_bytes stats)),
      out_discarded = i64_or_max (unat (discarded_bytes stats)), out_truncated = truncated stats\<rparr>"


section \<open>Preparing attempts\<close>

record admitted_attempt =
  aa_run :: string
  aa_target :: target_spec
  aa_number :: nat
  aa_partial_output :: string
  aa_final_output :: string
  aa_output_limit :: nat
  aa_timeout :: "nat option"

text \<open>What is left of a limit, never negative.\<close>

definition remaining_bytes :: "int \<Rightarrow> int \<Rightarrow> int" where
  "remaining_bytes limit retained = max 0 (i64_saturating (limit - retained))"

definition u16_try_from :: "int \<Rightarrow> nat option" where
  "u16_try_from n = (if 0 \<le> n \<and> n \<le> 65535 then Some (nat n) else None)"

definition prepare_attempt ::
    "codecs \<Rightarrow> surroundings \<Rightarrow> state_paths \<Rightarrow> settings_record \<Rightarrow> int \<Rightarrow> store \<Rightarrow> admit_attempt
     \<Rightarrow> string + admitted_attempt" where
  "prepare_attempt D S paths config global_retained s attempt =
     and_then (ok_or (json_error S (ad_snapshot_json attempt)) (definition_from_str D (ad_snapshot_json attempt))) (\<lambda>def.
     and_then (engine_target S def attempt config) (\<lambda>target.
     and_then (ok_or ''attempt number overflow'' (u16_try_from (ad_number attempt))) (\<lambda>number.
     let run_remaining = remaining_bytes (rec_per_run_output_limit config) (retained_run_output_bytes (ad_run attempt) s);
         global_remaining = remaining_bytes (rec_output_limit config) global_retained
     in and_then (map_err store_error_text (partial_output D paths (ad_run attempt) number)) (\<lambda>partial.
        and_then (map_err store_error_text (final_output D paths (ad_run attempt) number)) (\<lambda>final.
          Inr \<lparr>aa_run = ad_run attempt, aa_target = target, aa_number = number,
               aa_partial_output = partial, aa_final_output = final,
               aa_output_limit = nat (min run_remaining global_remaining),
               aa_timeout = map_option get (timeout (definition_policy def))\<rparr>)))))"

text \<open>The file operations on a new output file: created at a path, written, flushed, synced, renamed.\<close>

record 's output_files =
  of_create :: "string \<Rightarrow> io_error + 's"
  of_write :: "'s \<Rightarrow> byte list \<Rightarrow> io_error option \<times> 's"
  of_flush :: "'s \<Rightarrow> io_error option"
  of_sync :: "'s \<Rightarrow> io_error option"
  of_rename :: "string \<Rightarrow> string \<Rightarrow> io_error option"

text \<open>The output of an attempt that is not executed: an empty file, or the reason for its absence.\<close>

definition empty_output ::
    "codecs \<Rightarrow> 's output_files \<Rightarrow> state_paths \<Rightarrow> admit_attempt \<Rightarrow> string + output_record" where
  "empty_output D F paths attempt =
     (case u16_try_from (ad_number attempt) of
        None \<Rightarrow> Inl ''; attempt number cannot be represented in an output path''
      | Some number \<Rightarrow>
          (case partial_output D paths (ad_run attempt) number of
             Inl e \<Rightarrow> Inl (''; output path is invalid: '' @ store_error_text e)
           | Inr partial \<Rightarrow>
               (case final_output D paths (ad_run attempt) number of
                  Inl e \<Rightarrow> Inl (''; output path is invalid: '' @ store_error_text e)
                | Inr final \<Rightarrow>
                    (case OutputWriter_create (of_write F) (of_create F partial) 0 of
                       Inl e \<Rightarrow> Inl (''; output creation also failed: '' @ io_error_text e)
                     | Inr writer \<Rightarrow>
                         (case OutputWriter_finalize (of_flush F (ow_file writer)) (of_sync F (ow_file writer))
                                 (of_rename F partial final) writer of
                            Inl e \<Rightarrow> Inl (''; output finalization also failed: '' @ io_error_text e)
                          | Inr stats \<Rightarrow> Inr (output_record_of (ad_run attempt) (ad_number attempt) stats))))))"

definition fail_admitted_attempt ::
    "codecs \<Rightarrow> 's output_files \<Rightarrow> state_paths \<Rightarrow> int \<Rightarrow> string \<Rightarrow> admit_attempt \<Rightarrow> store \<Rightarrow> string + store" where
  "fail_admitted_attempt D F paths now configuration_reason attempt s =
     (let reason = ''runtime configuration failure: '' @ configuration_reason;
          written = empty_output D F paths attempt;
          reason' = (case written of Inl more_text \<Rightarrow> reason @ more_text | Inr _ \<Rightarrow> reason);
          out = (case written of Inl _ \<Rightarrow> None | Inr record \<Rightarrow> Some record)
      in map_err store_error_text
           (complete_pre_execution_failure D (ad_run attempt) (ad_number attempt) out now reason' s))"

text \<open>The loop of \<open>admit\<close>: an attempt that cannot be failed ends it and drops what was prepared.\<close>

fun prepare_attempts ::
    "codecs \<Rightarrow> surroundings \<Rightarrow> 's output_files \<Rightarrow> state_paths \<Rightarrow> settings_record \<Rightarrow> int
     \<Rightarrow> (admit_attempt \<Rightarrow> int) \<Rightarrow> admit_attempt list \<Rightarrow> store \<Rightarrow> (string + admitted_attempt list) \<times> store" where
  "prepare_attempts D S F paths config global_retained clock [] s = (Inr [], s)"
| "prepare_attempts D S F paths config global_retained clock (attempt # rest) s =
     (case prepare_attempt D S paths config global_retained s attempt of
        Inr ready \<Rightarrow>
          (case prepare_attempts D S F paths config global_retained clock rest s of
             (r, s') \<Rightarrow> (map_sum id ((#) ready) r, s'))
      | Inl e \<Rightarrow>
          (case fail_admitted_attempt D F paths (clock attempt) e attempt s of
             Inl e' \<Rightarrow> (Inl e', s)
           | Inr s' \<Rightarrow> prepare_attempts D S F paths config global_retained clock rest s'))"

definition adapter_admit ::
    "codecs \<Rightarrow> surroundings \<Rightarrow> 's output_files \<Rightarrow> state_paths \<Rightarrow> string \<Rightarrow> int \<Rightarrow> (admit_attempt \<Rightarrow> int) \<Rightarrow> nat
     \<Rightarrow> store \<Rightarrow> (string + admitted_attempt list) \<times> store" where
  "adapter_admit D S F paths lid now clock capacity s =
     (case read_settings D False s of
        Inl e \<Rightarrow> (Inl (store_error_text e), s)
      | Inr config \<Rightarrow>
          let global_retained = retained_output_bytes s in
          (case admit D lid now capacity s of
             Inl e \<Rightarrow> (Inl (store_error_text e), s)
           | Inr (s', admitted_list) \<Rightarrow> prepare_attempts D S F paths config global_retained clock admitted_list s'))"


section \<open>The other methods\<close>

definition resolved_executable_of :: "target_spec \<Rightarrow> string option" where
  "resolved_executable_of target =
     (case target of ProcessSpec p \<Rightarrow> Some (ps_executable p) | HttpSpec _ \<Rightarrow> None)"

text \<open>The store refuses a relative executable before the transaction starts.\<close>

definition mark_attempt_running_with_executable ::
    "codecs \<Rightarrow> string \<Rightarrow> int \<Rightarrow> int \<Rightarrow> string option \<Rightarrow> store \<Rightarrow> (store \<times> start_decision) store_result" where
  "mark_attempt_running_with_executable D rid n now resolved_executable s =
     (case resolved_executable of
        Some path \<Rightarrow>
          if \<not> is_absolute path then Inl (StoreConflict ''resolved executable must be absolute'')
          else mark_attempt_running_inner D rid n now (Some path) s
      | None \<Rightarrow> mark_attempt_running_inner D rid n now None s)"

definition adapter_mark_running ::
    "codecs \<Rightarrow> int \<Rightarrow> admitted_attempt \<Rightarrow> store \<Rightarrow> (string + bool) \<times> store" where
  "adapter_mark_running D now attempt s =
     (case mark_attempt_running_with_executable D (aa_run attempt) (int (aa_number attempt)) now
             (resolved_executable_of (aa_target attempt)) s of
        Inl e \<Rightarrow> (Inl (store_error_text e), s)
      | Inr (s', decision) \<Rightarrow> (Inr (decision = Ready), s'))"

definition completion_of :: "job_definition \<Rightarrow> admitted_attempt \<Rightarrow> execution_outcome \<Rightarrow> int \<Rightarrow> attempt_completion" where
  "completion_of def attempt outcome completed_at =
     \<lparr>comp_run = aa_run attempt, comp_number = int (aa_number attempt), comp_now = completed_at,
      comp_duration = i64_or_max (oc_duration_micros outcome), comp_state = completion_state_of (oc_kind outcome),
      comp_exit_code = oc_exit_code outcome, comp_http_status = oc_http_status outcome,
      comp_http_content_type = oc_http_content_type outcome, comp_reason = oc_reason outcome,
      comp_retry = map_option (\<lambda>d. \<lparr>rp_not_before = not_before_us d, rp_classification = classification d\<rparr>)
        (decide_retry (definition_policy def) (aa_number attempt) completed_at (retry_class_of (oc_kind outcome)))\<rparr>"

definition adapter_complete ::
    "codecs \<Rightarrow> surroundings \<Rightarrow> admitted_attempt \<Rightarrow> execution_outcome \<Rightarrow> int \<Rightarrow> store
     \<Rightarrow> (completion_error + unit) \<times> store" where
  "adapter_complete D S attempt outcome completed_at s =
     (case read_run s (aa_run attempt) of
        Inl e \<Rightarrow> (Inl (Transient (store_error_text e)), s)
      | Inr run \<Rightarrow>
          (case definition_from_str D (run_snapshot_json run) of
             None \<Rightarrow> (Inl (Transient (json_error S (run_snapshot_json run))), s)
           | Some def \<Rightarrow>
               (case finalize_output (output_record_of (aa_run attempt) (int (aa_number attempt)) (oc_output outcome))
                       completed_at s of
                  Inl e \<Rightarrow> (Inl (map_completion_error e), s)
                | Inr s1 \<Rightarrow>
                    (case complete_attempt D (completion_of def attempt outcome completed_at) s1 of
                       Inl e \<Rightarrow> (Inl (map_completion_error e), s1)
                     | Inr s2 \<Rightarrow> (Inr (), s2)))))"

text \<open>
  The same call when the store's own calls fail: a read or a transaction can be refused with
  an error of the driver, of the file system or of the admission of writers, and an error can
  be reported of a transaction that had committed.
\<close>

datatype store_fault = NoFault | NotCommitted store_error | CommittedUnreported store_error

fun under_fault :: "store_fault \<Rightarrow> store store_result \<Rightarrow> store \<Rightarrow> (store_error + unit) \<times> store" where
  "under_fault (NotCommitted e) r s = (Inl e, s)"
| "under_fault (CommittedUnreported e) (Inr s') s = (Inl e, s')"
| "under_fault fault (Inl e) s = (Inl e, s)"
| "under_fault NoFault (Inr s') s = (Inr (), s')"

record completion_faults =
  cf_read :: "store_error option"
  cf_finalize :: store_fault
  cf_complete :: store_fault

definition adapter_complete_faulty ::
    "codecs \<Rightarrow> surroundings \<Rightarrow> completion_faults \<Rightarrow> admitted_attempt \<Rightarrow> execution_outcome \<Rightarrow> int \<Rightarrow> store
     \<Rightarrow> (completion_error + unit) \<times> store" where
  "adapter_complete_faulty D S faults attempt outcome completed_at s =
     (case (case cf_read faults of Some e \<Rightarrow> Inl e | None \<Rightarrow> read_run s (aa_run attempt)) of
        Inl e \<Rightarrow> (Inl (Transient (store_error_text e)), s)
      | Inr run \<Rightarrow>
          (case definition_from_str D (run_snapshot_json run) of
             None \<Rightarrow> (Inl (Transient (json_error S (run_snapshot_json run))), s)
           | Some def \<Rightarrow>
               (case under_fault (cf_finalize faults)
                       (finalize_output (output_record_of (aa_run attempt) (int (aa_number attempt)) (oc_output outcome))
                          completed_at s) s of
                  (Inl e, s1) \<Rightarrow> (Inl (map_completion_error e), s1)
                | (Inr _, s1) \<Rightarrow>
                    (case under_fault (cf_complete faults)
                            (complete_attempt D (completion_of def attempt outcome completed_at) s1) s1 of
                       (Inl e, s2) \<Rightarrow> (Inl (map_completion_error e), s2)
                     | (Inr _, s2) \<Rightarrow> (Inr (), s2)))))"

definition adapter_complete_runner_failure ::
    "codecs \<Rightarrow> admitted_attempt \<Rightarrow> runner_failure_kind \<Rightarrow> string \<Rightarrow> int \<Rightarrow> store \<Rightarrow> (completion_error + unit) \<times> store" where
  "adapter_complete_runner_failure D attempt kind reason completed_at s =
     (case complete_runner_failure D (aa_run attempt) (int (aa_number attempt)) completed_at reason
             (kind = ExecutionMayHaveStarted) s of
        Inl e \<Rightarrow> (Inl (map_completion_error e), s)
      | Inr s' \<Rightarrow> (Inr (), s'))"

text \<open>The delay in microseconds.\<close>

definition adapter_next_admission_delay :: "int \<Rightarrow> store \<Rightarrow> nat option" where
  "adapter_next_admission_delay now s =
     map_option (\<lambda>earliest. nat (max 0 (i64_saturating (earliest - now)))) (earliest_pending_eligible_at s)"

end
