(* ===== verification/Adapter_Guarantees.thy ===== *)
theory Adapter_Guarantees
  imports Store_Adapter Store_Trace
begin

text \<open>
  What the daemon may rely on when it calls the adapter: its calls are transactions of the
  store's state machine, a completion can be sent again whatever faults the earlier deliveries
  met, an accepted completion has decided the run the way the retry policy says, and an
  admission hands over exactly the new attempts it could prepare.
\<close>

section \<open>Completion\<close>

lemma finalize_output_frame:
  assumes "finalize_output out now s = Inr s'"
  shows "runs s' = runs s" and "attempts s' = attempts s" and "next_sequence s' = next_sequence s"
  using assms
  by (auto simp: finalize_output_def reconcile_output_finalized_def Let_def split: if_splits)

lemma no_unfinished_after:
  assumes "\<And>o'. art_st (f o') \<notin> {ArtPending, ArtActive}"
  shows "count_where (\<lambda>o'. this_artifact rid n o' \<and> art_st o' \<in> {ArtPending, ArtActive})
    (update_where (\<lambda>o'. this_artifact rid n o' \<and> art_st o' \<in> {ArtPending, ArtActive}) f xs) = 0"
  using assms by (force simp: count_where_def update_where_def filter_empty_conv)

text \<open>What a finalized output leaves: one row with the counts of the file.\<close>

definition output_finalized :: "output_record \<Rightarrow> store \<Rightarrow> bool" where
  "output_finalized out s \<longleftrightarrow>
     (\<exists>o' \<in> set (artifacts s). this_artifact (out_run out) (out_number out) o' \<and> art_st o' = ArtFinalized
        \<and> art_path o' = log_path (out_run out) (out_number out)
        \<and> art_retained o' = out_retained out \<and> art_physical o' = out_physical out
        \<and> art_discarded o' = out_discarded out \<and> art_truncated o' = out_truncated out)"

lemma finalize_output_effect:
  assumes "finalize_output out now s = Inr s'"
  shows "output_finalized out s'"
    and "count_where (\<lambda>o'. this_artifact (out_run out) (out_number out) o' \<and> art_st o' \<in> {ArtPending, ArtActive})
      (artifacts s') \<noteq> 1"
proof -
  let ?mine = "\<lambda>o'. this_artifact (out_run out) (out_number out) o' \<and> art_st o' \<in> {ArtPending, ArtActive}"
  have "output_finalized out s' \<and> count_where ?mine (artifacts s') \<noteq> 1"
  proof (cases "count_where ?mine (artifacts s) = 1")
    case True
    with assms have s': "artifacts s' = update_where ?mine (finalize_artifact out now) (artifacts s)"
      by (auto simp: finalize_output_def reconcile_output_finalized_def Let_def update_artifacts_def split: if_splits)
    from True have "filter ?mine (artifacts s) \<noteq> []" by (auto simp: count_where_def)
    then obtain o' where "o' \<in> set (artifacts s)" "?mine o'" unfolding filter_empty_conv by blast
    then have "finalize_artifact out now o' \<in> set (artifacts s')" by (force simp: s' update_where_def)
    moreover have "this_artifact (out_run out) (out_number out) (finalize_artifact out now o')"
      using \<open>?mine o'\<close> by (simp add: finalize_artifact_def this_artifact_def)
    ultimately have "output_finalized out s'"
      unfolding output_finalized_def by (rule_tac bexI) (simp_all add: finalize_artifact_def)
    moreover have "count_where ?mine (artifacts s') = 0"
      unfolding s' by (rule no_unfinished_after) (simp add: finalize_artifact_def)
    ultimately show ?thesis by simp
  next
    case False
    with assms show ?thesis
      by (auto simp: finalize_output_def reconcile_output_finalized_def Let_def output_finalized_def split: if_splits)
  qed
  then show "output_finalized out s'" "count_where ?mine (artifacts s') \<noteq> 1" by blast+
qed

lemma finalize_output_again:
  assumes "output_finalized out s"
    and "count_where (\<lambda>o'. this_artifact (out_run out) (out_number out) o' \<and> art_st o' \<in> {ArtPending, ArtActive})
      (artifacts s) \<noteq> 1"
  shows "finalize_output out now s = Inr s"
  using assms by (simp add: finalize_output_def reconcile_output_finalized_def output_finalized_def Let_def)

lemma artifacts_frame [simp]:
  "artifacts (push_event t k j r d s) = artifacts s" "artifacts (delete_intents x s) = artifacts s"
  "artifacts (update_attempts q g s) = artifacts s" "artifacts (update_runs p f s) = artifacts s"
  "artifacts (replace_intent i s) = artifacts s" "artifacts (fail_replacements job now s) = artifacts s"
  "artifacts (soft_remove_after_one_time_completion D rid now s) = artifacts s"
  by (simp_all add: push_event_def delete_intents_def update_attempts_def update_runs_def replace_intent_def
      fail_replacements_def soft_remove_after_one_time_completion_def Let_def split: option.splits)

lemma complete_attempt_artifacts:
  "complete_attempt D c s = Inr s' \<Longrightarrow> artifacts s' = artifacts s"
  by (auto simp: complete_attempt_def complete_known_def complete_unconfirmed_def Let_def
      split: completion_state.splits if_splits option.splits)

lemma completion_of_simps [simp]:
  "comp_run (completion_of def attempt outcome t) = aa_run attempt"
  "comp_number (completion_of def attempt outcome t) = int (aa_number attempt)"
  "comp_now (completion_of def attempt outcome t) = t"
  "comp_state (completion_of def attempt outcome t) = completion_state_of (oc_kind outcome)"
  "comp_reason (completion_of def attempt outcome t) = oc_reason outcome"
  by (simp_all add: completion_of_def)

text \<open>The engine never sends the quarantine marker as a reason.\<close>

lemma completion_of_documented:
  assumes "oc_reason outcome \<noteq> ''termination_unconfirmed''"
  shows "documented_completion (completion_of def attempt outcome t)"
  using assms by (cases "oc_kind outcome") (auto simp: documented_completion_def)

lemma read_run_eq_Inr: "read_run s rid = Inr r \<longleftrightarrow> query_row (\<lambda>r. run_id r = rid) (runs s) = Some r"
  by (auto simp: read_run_def ok_or_def split: option.splits)

lemma read_run_cong: "runs s' = runs s \<Longrightarrow> read_run s' rid = read_run s rid"
  by (simp add: read_run_def)

text \<open>A run that was read is read again after an operation, with its snapshot.\<close>

lemma preserves_read_run:
  assumes "preserves s s'" and "store_wf s" and "read_run s rid = Inr r"
  obtains r' where "read_run s' rid = Inr r'" and "run_snapshot_json r' = run_snapshot_json r"
proof -
  from assms(3) have r: "r \<in> set (runs s)" "run_id r = rid" by (auto simp: read_run_eq_Inr dest: query_row_Some)
  from assms(1,2) have wf: "store_wf s'" and "run_moves s s'" by (auto simp: preserves_def)
  with r obtain r' where r': "r' \<in> set (runs s')" "run_id r' = rid" "run_snapshot_json r' = run_snapshot_json r"
    unfolding run_moves_def by metis
  have "query_row (\<lambda>r. run_id r = rid) (runs s') = Some r'"
    by (rule query_row_key[OF wf_ids[OF wf] r'(1)]) (use r'(2) in auto)
  with r'(3) that show ?thesis by (simp add: read_run_eq_Inr)
qed

text \<open>The ways a completion ends.\<close>

lemma adapter_complete_cases:
  assumes "adapter_complete D S attempt outcome t s = (reply, s')"
  obtains (unread) "s' = s" and "reply \<noteq> Inr ()"
  | (refused) run def e where "read_run s (aa_run attempt) = Inr run" and "definition_from_str D (run_snapshot_json run) = Some def"
      and "finalize_output (output_record_of (aa_run attempt) (int (aa_number attempt)) (oc_output outcome)) t s = Inr s'"
      and "complete_attempt D (completion_of def attempt outcome t) s' = Inl e" and "reply = Inl (map_completion_error e)"
  | (accepted) run def s1 where "read_run s (aa_run attempt) = Inr run" and "definition_from_str D (run_snapshot_json run) = Some def"
      and "finalize_output (output_record_of (aa_run attempt) (int (aa_number attempt)) (oc_output outcome)) t s = Inr s1"
      and "complete_attempt D (completion_of def attempt outcome t) s1 = Inr s'" and "reply = Inr ()"
  using assms by (auto simp: adapter_complete_def split: sum.splits option.splits)

text \<open>
  A call on the database that a call left gives the same reply and changes nothing, whether
  the first one was accepted, was refused before it wrote anything, or had stored the output
  and was refused after that.
\<close>

lemma adapter_complete_again:
  assumes "store_wf s" and "oc_reason outcome \<noteq> ''termination_unconfirmed''"
    and "adapter_complete D S attempt outcome t s = (reply, s')"
  shows "adapter_complete D S attempt outcome t s' = (reply, s')"
  using assms(3)
proof (cases rule: adapter_complete_cases)
  case unread
  then show ?thesis using assms(3) by simp
next
  case (refused run def e)
  note frame = finalize_output_frame(1)[OF refused(3)]
  note again = finalize_output_again[OF finalize_output_effect[OF refused(3)], of t]
  from refused(1) read_run_cong[OF frame] refused(2,4,5) again show ?thesis
    by (simp add: adapter_complete_def)
next
  case (accepted run def s1)
  let ?out = "output_record_of (aa_run attempt) (int (aa_number attempt)) (oc_output outcome)"
  note frame = finalize_output_frame[OF accepted(3)]
  have fin: "preserves s s1" by (rule same_runs_preserves[OF frame])
  then have wf1: "store_wf s1" using assms(1) by (simp add: preserves_def)
  note doc = completion_of_documented[OF assms(2), of def attempt t]
  have "preserves s s'" using preserves_trans[OF fin complete_attempt_preserves[OF doc accepted(4)]] .
  from preserves_read_run[OF this assms(1) accepted(1)] obtain run'
    where run': "read_run s' (aa_run attempt) = Inr run'" "run_snapshot_json run' = run_snapshot_json run" by blast
  have arts: "artifacts s' = artifacts s1" by (rule complete_attempt_artifacts[OF accepted(4)])
  have "finalize_output ?out t s' = Inr s'"
    using finalize_output_effect[OF accepted(3)] by (intro finalize_output_again) (simp_all add: output_finalized_def arts)
  moreover have "complete_attempt D (completion_of def attempt outcome t) s' = Inr s'"
    by (rule complete_attempt_again[OF wf1 doc accepted(4)])
  ultimately show ?thesis using run' accepted(2,5) by (simp add: adapter_complete_def)
qed

lemma adapter_complete_wf:
  assumes "store_wf s" and "oc_reason outcome \<noteq> ''termination_unconfirmed''"
    and "adapter_complete D S attempt outcome t s = (reply, s')"
  shows "store_wf s'"
  using assms(3)
proof (cases rule: adapter_complete_cases)
  case (refused run def e)
  with same_runs_preserves[OF finalize_output_frame[OF refused(3)]] assms(1) show ?thesis by (simp add: preserves_def)
next
  case (accepted run def s1)
  with same_runs_preserves[OF finalize_output_frame[OF accepted(3)]] assms(1)
    complete_attempt_preserves[OF completion_of_documented[OF assms(2)] accepted(4)]
  show ?thesis by (simp add: preserves_def)
qed (use assms(1) in simp)

text \<open>Faults: the store's own conflicts are decisions, not faults.\<close>

fun transient_fault :: "store_fault \<Rightarrow> bool" where
  "transient_fault NoFault \<longleftrightarrow> True"
| "transient_fault (NotCommitted e) \<longleftrightarrow> (\<forall>why. e \<noteq> StoreConflict why)"
| "transient_fault (CommittedUnreported e) \<longleftrightarrow> (\<forall>why. e \<noteq> StoreConflict why)"

definition transient_faults :: "completion_faults \<Rightarrow> bool" where
  "transient_faults faults \<longleftrightarrow> transient_fault (cf_finalize faults) \<and> transient_fault (cf_complete faults)"

lemma under_fault_state: "under_fault f r s = (reply, s') \<Longrightarrow> s' = s \<or> r = Inr s'"
  by (cases "(f, r, s)" rule: under_fault.cases) auto

lemma transient_completion_error: "(\<forall>why. e \<noteq> StoreConflict why) \<Longrightarrow> \<exists>text. map_completion_error e = Transient text"
  by (cases e) (auto simp: map_completion_error_def)

text \<open>The databases that a faulty call can leave: untouched, with the output stored, or completed.\<close>

lemma adapter_complete_faulty_state:
  assumes "adapter_complete_faulty D S faults attempt outcome t s = (reply, s')"
  obtains (untouched) "s' = s"
  | (stored) run def where "read_run s (aa_run attempt) = Inr run" and "definition_from_str D (run_snapshot_json run) = Some def"
      and "finalize_output (output_record_of (aa_run attempt) (int (aa_number attempt)) (oc_output outcome)) t s = Inr s'"
  | (completed) "adapter_complete D S attempt outcome t s = (Inr (), s')"
proof -
  let ?out = "output_record_of (aa_run attempt) (int (aa_number attempt)) (oc_output outcome)"
  show ?thesis
  proof (cases "s' = s")
    case False
    with assms obtain run def r1 s1 where run: "read_run s (aa_run attempt) = Inr run" "definition_from_str D (run_snapshot_json run) = Some def"
      and first: "under_fault (cf_finalize faults) (finalize_output ?out t s) s = (r1, s1)"
      and rest: "s' = s1 \<or> (\<exists>r2. under_fault (cf_complete faults) (complete_attempt D (completion_of def attempt outcome t) s1) s1 = (r2, s') \<and> r1 = Inr ())"
      by (auto simp: adapter_complete_faulty_def split: sum.splits option.splits prod.splits)
    from under_fault_state[OF first] have one: "s1 = s \<or> finalize_output ?out t s = Inr s1" .
    show ?thesis
    proof (cases "s' = s1")
      case True
      with one False show ?thesis using stored[OF run] by simp
    next
      case two: False
      with rest obtain r2 where second: "under_fault (cf_complete faults) (complete_attempt D (completion_of def attempt outcome t) s1) s1 = (r2, s')"
        and r1: "r1 = Inr ()" by blast
      from under_fault_state[OF second] two have done2: "complete_attempt D (completion_of def attempt outcome t) s1 = Inr s'" by simp
      from first r1 have "finalize_output ?out t s = Inr s1"
        by (cases "(cf_finalize faults, finalize_output ?out t s, s)" rule: under_fault.cases) auto
      with run done2 show ?thesis by (intro completed) (simp add: adapter_complete_def)
    qed
  qed (rule untouched)
qed

definition no_faults :: completion_faults where
  "no_faults = \<lparr>cf_read = None, cf_finalize = NoFault, cf_complete = NoFault\<rparr>"

lemma adapter_complete_no_faults: "adapter_complete_faulty D S no_faults attempt outcome t s = adapter_complete D S attempt outcome t s"
  by (simp add: adapter_complete_faulty_def adapter_complete_def no_faults_def split: sum.splits option.splits)

lemma under_fault_decided:
  assumes "transient_fault f" and "under_fault f r s = (reply, s')"
  shows "(\<exists>e msg. reply = Inl e \<and> map_completion_error e = Transient msg) \<or> under_fault NoFault r s = (reply, s')"
  using assms transient_completion_error by (cases "(f, r, s)" rule: under_fault.cases) fastforce+

lemma adapter_complete_faulty_reply:
  assumes "transient_faults faults" and "adapter_complete_faulty D S faults attempt outcome t s = (reply, s')"
  shows "(\<exists>e. reply = Inl (Transient e)) \<or> adapter_complete D S attempt outcome t s = (reply, s')"
proof (cases "cf_read faults")
  case None
  have transient: "transient_fault (cf_finalize faults)" "transient_fault (cf_complete faults)"
    using assms(1) by (auto simp: transient_faults_def)
  show ?thesis
    using assms(2) under_fault_decided[OF transient(1)] under_fault_decided[OF transient(2)]
    unfolding adapter_complete_no_faults[symmetric]
    by (fastforce simp: adapter_complete_faulty_def no_faults_def None split: sum.splits option.splits prod.splits)
qed (use assms(2) in \<open>auto simp: adapter_complete_faulty_def\<close>)

lemma adapter_complete_after_fault:
  assumes "store_wf s" and "oc_reason outcome \<noteq> ''termination_unconfirmed''"
    and "adapter_complete_faulty D S faults attempt outcome t s = (reply, s')"
  shows "adapter_complete D S attempt outcome t s' = adapter_complete D S attempt outcome t s \<and> store_wf s'"
  using assms(3)
proof (cases rule: adapter_complete_faulty_state)
  case untouched
  with assms(1) show ?thesis by simp
next
  case (stored run def)
  note frame = finalize_output_frame[OF stored(3)]
  note again = finalize_output_again[OF finalize_output_effect[OF stored(3)], of t]
  have "store_wf s'" using same_runs_preserves[OF frame] assms(1) by (simp add: preserves_def)
  with stored read_run_cong[OF frame(1)] again show ?thesis by (simp add: adapter_complete_def)
next
  case completed
  with adapter_complete_again[OF assms(1,2) completed] adapter_complete_wf[OF assms(1,2) completed] show ?thesis by simp
qed

text \<open>
  C5: a completion can be sent again whatever happened to the earlier ones. The read and the two
  transactions of a delivery may each be refused by a busy or failing database, or fail after
  they committed. After any number of such deliveries, with no other writer in between, a
  delivery without faults gives the reply and leaves the database of a single delivery on the
  first database; and a faulty delivery answers with a transient error, upon which the daemon
  repeats it, or with exactly that reply and database. So no outcome is recorded twice or
  lost, and a fault never turns into the conflict that would make the daemon give up.
\<close>

theorem adapter_complete_repeatable:
  assumes "store_wf s" and "oc_reason outcome \<noteq> ''termination_unconfirmed''"
    and "s' = fold (\<lambda>faults s. snd (adapter_complete_faulty D S faults attempt outcome t s)) deliveries s"
  shows "adapter_complete D S attempt outcome t s' = adapter_complete D S attempt outcome t s
    \<and> (\<forall>faults reply s''. transient_faults faults \<longrightarrow>
         adapter_complete_faulty D S faults attempt outcome t s' = (reply, s'') \<longrightarrow>
         (\<exists>e. reply = Inl (Transient e)) \<or> adapter_complete D S attempt outcome t s = (reply, s''))"
proof -
  have "adapter_complete D S attempt outcome t s' = adapter_complete D S attempt outcome t s"
    using assms(1,3)
  proof (induction deliveries arbitrary: s)
    case (Cons faults deliveries)
    obtain reply s1 where "adapter_complete_faulty D S faults attempt outcome t s = (reply, s1)" by fastforce
    with Cons.IH[of s1] Cons.prems adapter_complete_after_fault[OF Cons.prems(1) assms(2)] show ?case by simp
  qed simp
  with adapter_complete_faulty_reply show ?thesis by metis
qed

text \<open>An accepted completion is one that the store would recognise as committed.\<close>

lemma completed_not_active:
  assumes "documented_completion c" and "complete_attempt D c s = Inr s'"
  shows "count_where (\<lambda>a. this_attempt (comp_run c) (comp_number c) a \<and> active_attempt a) (attempts s') \<noteq> 1"
proof (cases "count_where (\<lambda>a. this_attempt (comp_run c) (comp_number c) a \<and> active_attempt a) (attempts s) = 1")
  case False
  with assms(2) have "s' = s"
    by (auto simp: complete_attempt_def complete_known_def complete_unconfirmed_def Let_def
        split: completion_state.splits if_splits)
  with False show ?thesis by simp
next
  case True
  with assms obtain f where f: "\<And>a. \<not> active_attempt (f a)"
    and s': "attempts s' = update_where (\<lambda>a. this_attempt (comp_run c) (comp_number c) a \<and> active_attempt a) f (attempts s)"
  proof (cases "comp_state c")
    case TerminationUnconfirmed
    with assms(2) True show ?thesis
      by (intro that[of "\<lambda>a. a\<lparr>att_st := AttInterruptedUnknown, att_finished_at := Some (comp_now c),
            att_duration := Some (comp_duration c), att_result_class := Some ''termination_unconfirmed'',
            att_error_message := Some (comp_reason c)\<rparr>"])
        (auto simp: complete_attempt_def complete_unconfirmed_def fail_replacements_def Let_def split: if_splits option.splits)
  next
    case (CompletedAs st)
    with assms True show ?thesis
      by (intro that[of "\<lambda>a. a\<lparr>att_st := st, att_finished_at := Some (comp_now c),
            att_duration := Some (comp_duration c), att_exit_code := comp_exit_code c,
            att_http_status := map_option int (comp_http_status c), att_http_content_type := comp_http_content_type c,
            att_result_class := Some (attempt_state_name st), att_error_message := Some (comp_reason c)\<rparr>"])
        (auto simp: documented_completion_def complete_attempt_def complete_known_def Let_def split: if_splits option.splits)
  qed (auto simp: complete_attempt_def split: if_splits)
  have "count_where (\<lambda>a. this_attempt (comp_run c) (comp_number c) a \<and> active_attempt a) (attempts s') = 0"
    unfolding s' by (rule no_active_after[OF f])
  then show ?thesis by simp
qed

lemma accepted_committed:
  assumes "store_wf s" and "documented_completion c" and "complete_attempt D c s = Inr s'"
  shows "comp_state c = CompletedAs st \<Longrightarrow> completion_already_committed s' c st"
    and "comp_state c = TerminationUnconfirmed \<Longrightarrow> termination_completion_committed s' c"
  using complete_attempt_again[OF assms] completed_not_active[OF assms(2,3)]
  by (auto simp: complete_attempt_def complete_known_def complete_unconfirmed_def Let_def split: if_splits)

text \<open>The end of a run that is not tried again.\<close>

fun final_state_of :: "outcome_kind \<Rightarrow> run_state" where
  "final_state_of OutcomeSucceeded = Succeeded"
| "final_state_of OutcomeTimedOut = TimedOut"
| "final_state_of OutcomeCancelled = Cancelled"
| "final_state_of OutcomeFailed = Failed"
| "final_state_of OutcomeFailedRetryable = Failed"
| "final_state_of OutcomeTerminationUnconfirmed = Running"

text \<open>What the database says of a run whose attempt ended with an outcome.\<close>

definition outcome_recorded ::
    "job_definition \<Rightarrow> admitted_attempt \<Rightarrow> execution_outcome \<Rightarrow> int \<Rightarrow> run_row \<Rightarrow> store \<Rightarrow> bool" where
  "outcome_recorded def attempt outcome t run s \<longleftrightarrow>
     (if oc_kind outcome = OutcomeTerminationUnconfirmed then quarantined run
      else case decide_retry (definition_policy def) (aa_number attempt) t (retry_class_of (oc_kind outcome)) of
        Some d \<Rightarrow>
          run_st run = RetryWait \<and> run_eligible_at run = not_before_us d \<and> run_finished_at run = None
          \<and> (\<exists>i \<in> set (retry_intents s). intent_run i = aa_run attempt \<and> intent_prior_attempt i = int (aa_number attempt)
               \<and> intent_not_before i = not_before_us d)
      | None \<Rightarrow>
          run_st run = final_state_of (oc_kind outcome) \<and> run_finished_at run = Some t
          \<and> \<not> (\<exists>i \<in> set (retry_intents s). intent_run i = aa_run attempt))"

lemma committed_outcome_recorded:
  assumes "completion_already_committed s (completion_of def attempt outcome t) st"
    and "completion_state_of (oc_kind outcome) = CompletedAs st"
  shows "\<exists>run. read_run s (aa_run attempt) = Inr run \<and> outcome_recorded def attempt outcome t run s"
  using assms
  by (cases "oc_kind outcome")
    (auto simp: completion_already_committed_def outcome_recorded_def read_run_eq_Inr completion_of_def
      split: option.splits)

lemma quarantine_recorded:
  assumes "termination_completion_committed s (completion_of def attempt outcome t)"
    and "oc_kind outcome = OutcomeTerminationUnconfirmed"
  shows "\<exists>run. read_run s (aa_run attempt) = Inr run \<and> outcome_recorded def attempt outcome t run s"
  using assms
  by (auto simp: termination_completion_committed_def outcome_recorded_def read_run_eq_Inr
      split: option.splits)

text \<open>
  C4: an accepted completion has decided the run. On a well-formed database the run then
  waits for its next attempt, with the eligibility and the intent that the retry policy of
  its snapshot computes, exactly when that policy allows a retry of this attempt and
  outcome; without one it has the final state of the outcome, finished at the sampled
  instant, and no intent is left; an attempt whose termination is unconfirmed puts it in
  quarantine. The output of the attempt is finalized with the counts of its file.
\<close>

theorem adapter_complete_decides:
  assumes "store_wf s" and "oc_reason outcome \<noteq> ''termination_unconfirmed''"
    and "adapter_complete D S attempt outcome t s = (Inr (), s')"
  shows "\<exists>run def. read_run s' (aa_run attempt) = Inr run \<and> definition_from_str D (run_snapshot_json run) = Some def
    \<and> outcome_recorded def attempt outcome t run s'
    \<and> output_finalized (output_record_of (aa_run attempt) (int (aa_number attempt)) (oc_output outcome)) s'"
  using assms(3)
proof (cases rule: adapter_complete_cases)
  case (accepted run def s1)
  have fin: "preserves s s1" by (rule same_runs_preserves[OF finalize_output_frame[OF accepted(3)]])
  then have wf1: "store_wf s1" using assms(1) by (simp add: preserves_def)
  note doc = completion_of_documented[OF assms(2), of def attempt t]
  have "preserves s s'" using preserves_trans[OF fin complete_attempt_preserves[OF doc accepted(4)]] .
  from preserves_read_run[OF this assms(1) accepted(1)] obtain run'
    where run': "read_run s' (aa_run attempt) = Inr run'" "run_snapshot_json run' = run_snapshot_json run" by blast
  have "\<exists>run. read_run s' (aa_run attempt) = Inr run \<and> outcome_recorded def attempt outcome t run s'"
    using accepted_committed[OF wf1 doc accepted(4)] committed_outcome_recorded quarantine_recorded
    by (cases "oc_kind outcome") fastforce+
  moreover have "output_finalized (output_record_of (aa_run attempt) (int (aa_number attempt)) (oc_output outcome)) s'"
    using finalize_output_effect(1)[OF accepted(3)] complete_attempt_artifacts[OF accepted(4)]
    by (simp add: output_finalized_def)
  ultimately show ?thesis using run' accepted(2) by auto
qed simp_all


section \<open>Admission\<close>

abbreviation ready_key :: "admitted_attempt \<Rightarrow> string \<times> int" where
  "ready_key aa \<equiv> (aa_run aa, int (aa_number aa))"

abbreviation admitted_key :: "admit_attempt \<Rightarrow> string \<times> int" where
  "admitted_key ad \<equiv> (ad_run ad, ad_number ad)"

lemma remaining_bytes_le: "remaining_bytes limit retained \<le> max 0 (limit - retained)"
  by (auto simp: remaining_bytes_def i64_saturating_def i64_min_def le_max_iff_disj min_le_iff_disj)

lemma prepare_attempt_key:
  assumes "prepare_attempt D S paths config g s ad = Inr ready"
  shows "ready_key ready = admitted_key ad"
    and "int (aa_output_limit ready) \<le> max 0 (rec_output_limit config - g)"
proof -
  from assms obtain number where number: "u16_try_from (ad_number ad) = Some number"
    and key: "aa_run ready = ad_run ad" "aa_number ready = number"
    and limit: "aa_output_limit ready = nat (min (remaining_bytes (rec_per_run_output_limit config)
        (retained_run_output_bytes (ad_run ad) s)) (remaining_bytes (rec_output_limit config) g))"
    by (auto simp: prepare_attempt_def and_then_eq_Inr map_err_eq_Inr ok_or_def Let_def split: option.splits)
  have "int number = ad_number ad" using number by (auto simp: u16_try_from_def split: if_splits)
  then show "ready_key ready = admitted_key ad" by (simp add: key)
  show "int (aa_output_limit ready) \<le> max 0 (rec_output_limit config - g)"
    using remaining_bytes_le[of "rec_output_limit config" g] by (auto simp: limit)
qed

lemma fail_admitted_attempts:
  assumes "fail_admitted_attempt D F paths now why ad s = Inr s'"
  obtains f where "\<And>a. \<not> active_attempt (f a)"
    and "attempts s' = update_where (\<lambda>a. this_attempt (ad_run ad) (ad_number ad) a \<and> active_attempt a) f (attempts s)"
proof -
  from assms obtain out why' where "complete_pre_execution_failure D (ad_run ad) (ad_number ad) out now why' s = Inr s'"
    by (auto simp: fail_admitted_attempt_def map_err_def Let_def split: sum.splits)
  then show ?thesis
    by (intro that[of "\<lambda>a. a\<lparr>att_st := AttFailed, att_finished_at := Some now, att_duration := Some 0,
          att_result_class := Some ''failed'', att_error_message := Some why'\<rparr>"])
      (auto simp: complete_pre_execution_failure_def Let_def split: if_splits option.splits)
qed

text \<open>
  The loop leaves alone the attempts it hands over and those it was not given, and the
  others do not stay active.
\<close>

lemma prepare_attempts_effect:
  assumes "prepare_attempts D S F paths config g clock ads s = (Inr ready, s')" and "distinct (map admitted_key ads)"
  shows "ready_key ` set ready \<subseteq> admitted_key ` set ads
    \<and> (\<forall>a \<in> set (attempts s). attempt_key a \<notin> admitted_key ` set ads - ready_key ` set ready \<longrightarrow> a \<in> set (attempts s'))
    \<and> (\<forall>a \<in> set (attempts s'). active_attempt a \<longrightarrow>
         a \<in> set (attempts s) \<and> attempt_key a \<notin> admitted_key ` set ads - ready_key ` set ready)
    \<and> (\<forall>aa \<in> set ready. int (aa_output_limit aa) \<le> max 0 (rec_output_limit config - g))"
  using assms
proof (induction ads arbitrary: s ready)
  case (Cons ad ads)
  have distinct_tl: "distinct (map admitted_key ads)" using Cons.prems(2) by simp
  show ?case
  proof (cases "prepare_attempt D S paths config g s ad")
    case (Inr r)
    with Cons.prems(1) obtain rest where rest: "prepare_attempts D S F paths config g clock ads s = (Inr rest, s')"
      and ready: "ready = r # rest"
      by (auto split: prod.splits sum.splits simp: map_sum_def)
    note key = prepare_attempt_key[OF Inr]
    have fresh: "admitted_key ad \<notin> admitted_key ` set ads" using Cons.prems(2) by (auto simp: image_iff)
    have "admitted_key ` set (ad # ads) - ready_key ` set ready = admitted_key ` set ads - ready_key ` set rest"
      using fresh key(1) by (auto simp: ready)
    moreover note IH = Cons.IH[OF rest distinct_tl]
    moreover have "ready_key ` set ready \<subseteq> admitted_key ` set (ad # ads)" using IH key(1) by (auto simp: ready)
    moreover have "\<forall>aa \<in> set ready. int (aa_output_limit aa) \<le> max 0 (rec_output_limit config - g)"
      using IH key(2) unfolding ready by simp
    ultimately show ?thesis by presburger
  next
    case (Inl e)
    with Cons.prems(1) obtain s1 where failed: "fail_admitted_attempt D F paths (clock ad) e ad s = Inr s1"
      and rest: "prepare_attempts D S F paths config g clock ads s1 = (Inr ready, s')"
      by (auto split: sum.splits)
    from fail_admitted_attempts[OF failed] obtain f where f: "\<And>a. \<not> active_attempt (f a)"
      and s1: "attempts s1 = update_where (\<lambda>a. this_attempt (ad_run ad) (ad_number ad) a \<and> active_attempt a) f (attempts s)" by metis
    have IH: "ready_key ` set ready \<subseteq> admitted_key ` set ads"
      "\<And>a. a \<in> set (attempts s1) \<Longrightarrow> attempt_key a \<notin> admitted_key ` set ads - ready_key ` set ready \<Longrightarrow> a \<in> set (attempts s')"
      "\<And>a. a \<in> set (attempts s') \<Longrightarrow> active_attempt a \<Longrightarrow>
         a \<in> set (attempts s1) \<and> attempt_key a \<notin> admitted_key ` set ads - ready_key ` set ready"
      "\<forall>aa \<in> set ready. int (aa_output_limit aa) \<le> max 0 (rec_output_limit config - g)"
      using Cons.IH[OF rest distinct_tl] by blast+
    have fresh: "admitted_key ad \<notin> ready_key ` set ready" using Cons.prems(2) IH(1) by (auto simp: image_iff subset_iff)
    have kept: "a \<in> set (attempts s1)" if "a \<in> set (attempts s)" "attempt_key a \<noteq> admitted_key ad" for a
      using that by (auto simp: s1 update_where_def this_attempt_def attempt_key_def image_iff intro!: bexI[of _ a])
    have origin: "a \<in> set (attempts s) \<and> attempt_key a \<noteq> admitted_key ad" if "a \<in> set (attempts s1)" "active_attempt a" for a
      using that f by (auto simp: s1 update_where_def this_attempt_def attempt_key_def split: if_splits)
    have gone: "admitted_key ` set (ad # ads) - ready_key ` set ready
        = insert (admitted_key ad) (admitted_key ` set ads - ready_key ` set ready)" using fresh by auto
    have "ready_key ` set ready \<subseteq> admitted_key ` set (ad # ads)" using IH(1) by auto
    moreover have "a \<in> set (attempts s')"
      if "a \<in> set (attempts s)" "attempt_key a \<notin> admitted_key ` set (ad # ads) - ready_key ` set ready" for a
      using that IH(2) kept unfolding gone by blast
    moreover have "a \<in> set (attempts s) \<and> attempt_key a \<notin> admitted_key ` set (ad # ads) - ready_key ` set ready"
      if "a \<in> set (attempts s')" "active_attempt a" for a
      using that IH(3)[of a] origin[of a] unfolding gone by blast
    ultimately show ?thesis using IH(4) by blast
  qed
qed auto

lemma prepare_attempts_distinct:
  assumes "prepare_attempts D S F paths config g clock ads s = (Inr ready, s')" and "distinct (map admitted_key ads)"
  shows "distinct (map ready_key ready)"
  using assms
proof (induction ads arbitrary: s ready)
  case (Cons ad ads)
  show ?case
  proof (cases "prepare_attempt D S paths config g s ad")
    case (Inr r)
    with Cons.prems(1) obtain rest where rest: "prepare_attempts D S F paths config g clock ads s = (Inr rest, s')"
      and ready: "ready = r # rest"
      by (auto split: prod.splits sum.splits simp: map_sum_def)
    have dist: "distinct (map admitted_key ads)" "admitted_key ad \<notin> admitted_key ` set ads"
      using Cons.prems(2) by (auto simp: image_iff)
    have "ready_key ` set rest \<subseteq> admitted_key ` set ads" using prepare_attempts_effect[OF rest dist(1)] by blast
    then have "ready_key r \<notin> set (map ready_key rest)" using dist(2) unfolding prepare_attempt_key(1)[OF Inr] set_map by (rule contra_subsetD)
    then show ?thesis using Cons.IH[OF rest dist(1)] by (simp only: ready list.map distinct.simps simp_thms)
  next
    case (Inl e)
    with Cons show ?thesis by (auto split: sum.splits)
  qed
qed simp

lemma admit_result:
  assumes "store_wf s" and "admit D lid now capacity s = Inr (s', ads)"
  obtains rows where "ads = map admitted rows" and "distinct (map admitted_key ads)"
    and "attempts s' = attempts s @ map (\<lambda>(r, n). starting_attempt (run_id r) n lid now) rows"
proof (cases "capacity = 0")
  case True
  with assms(2) that[of "[]"] show ?thesis by (simp add: admit_def)
next
  case False
  with assms(2) obtain prepared where "admit_tx lid now capacity prepared s = Inr (s', ads)"
    by (auto simp: admit_def and_then_eq_Inr)
  then show ?thesis
  proof (cases rule: admit_tx_result)
    case 1
    with that[of "[]"] show ?thesis by simp
  next
    case (2 n rows)
    have "distinct (map row_id rows)" by (rule admit_select_effect(1)[OF 2(3) assms(1)])
    then have "distinct (map admitted_key ads)"
      unfolding 2(5) by (induction rows) (force simp: admitted_def split: prod.splits)+
    with that[of rows] 2(5) admit_rows_attempts[OF 2(4)] show ?thesis by simp
  qed
qed

text \<open>
  C6: an admission that succeeds hands over exactly the attempts it started and could prepare.
  Every active attempt of the database after it that was not there before is handed over,
  nothing is handed over twice, and everything handed over is a new attempt in the starting
  state of this lifetime: its run and number are those of no attempt of the database before,
  so no earlier attempt is handed over again. The attempts that were started and not handed
  over, whose configuration did not allow execution, are not active any more. No attempt may
  write more output than the configured total leaves.
\<close>

theorem adapter_admit_accounts:
  assumes "store_wf s" and "read_settings D False s = Inr config"
    and "adapter_admit D S F paths lid now clock capacity s = (Inr ready, s')"
  shows "(\<forall>a \<in> set (attempts s'). active_attempt a \<longrightarrow> a \<notin> set (attempts s) \<longrightarrow>
        (\<exists>aa \<in> set ready. att_run a = aa_run aa \<and> att_number a = int (aa_number aa)))
    \<and> distinct (map (\<lambda>aa. (aa_run aa, int (aa_number aa))) ready)
    \<and> (\<forall>aa \<in> set ready.
        (\<forall>a \<in> set (attempts s). att_run a \<noteq> aa_run aa \<or> att_number a \<noteq> int (aa_number aa))
        \<and> (\<exists>a \<in> set (attempts s'). att_run a = aa_run aa \<and> att_number a = int (aa_number aa)
             \<and> att_st a = AttStarting \<and> att_lifetime a = lid))
    \<and> (\<forall>aa \<in> set ready. int (aa_output_limit aa) \<le> max 0 (rec_output_limit config - retained_output_bytes s))"
proof -
  from assms(2,3) obtain s1 ads where ads: "admit D lid now capacity s = Inr (s1, ads)"
    and loop: "prepare_attempts D S F paths config (retained_output_bytes s) clock ads s1 = (Inr ready, s')"
    by (auto simp: adapter_admit_def Let_def split: sum.splits prod.splits)
  from admit_result[OF assms(1) ads] obtain rows where rows: "ads = map admitted rows"
    and dist: "distinct (map admitted_key ads)"
    and new: "attempts s1 = attempts s @ map (\<lambda>(r, n). starting_attempt (run_id r) n lid now) rows" by blast
  note effect = prepare_attempts_effect[OF loop dist]
  have wf1: "store_wf s1"
    using ads assms(1) admit_tx_preserves by (auto simp: admit_def and_then_eq_Inr preserves_def split: if_splits)
  have started: "attempt_key a \<in> admitted_key ` set ads" if "a \<in> set (attempts s1)" "a \<notin> set (attempts s)" for a
    using that by (force simp: new rows admitted_def attempt_key_def starting_attempt_def)
  have start: "\<exists>a \<in> set (attempts s1). attempt_key a = k \<and> att_st a = AttStarting \<and> att_lifetime a = lid"
    if "k \<in> admitted_key ` set ads" for k
    using that by (force simp: new rows admitted_def attempt_key_def starting_attempt_def)
  have "map attempt_key (attempts s1) = map attempt_key (attempts s) @ map admitted_key ads"
    by (simp add: new rows admitted_def attempt_key_def starting_attempt_def case_prod_unfold)
  then have old: "attempt_key ` set (attempts s) \<inter> admitted_key ` set ads = {}"
    using wf_keys[OF wf1] by auto
  have "attempt_key a \<in> ready_key ` set ready" if "a \<in> set (attempts s')" "active_attempt a" "a \<notin> set (attempts s)" for a
    using effect started[of a] that by blast
  moreover have "\<exists>a \<in> set (attempts s'). attempt_key a = ready_key aa \<and> att_st a = AttStarting \<and> att_lifetime a = lid"
    if "aa \<in> set ready" for aa
    using effect start[of "ready_key aa"] that by blast
  moreover have "attempt_key a \<noteq> ready_key aa" if "aa \<in> set ready" "a \<in> set (attempts s)" for aa a
    using effect old that by blast
  moreover have "\<forall>aa \<in> set ready. int (aa_output_limit aa) \<le> max 0 (rec_output_limit config - retained_output_bytes s)"
    using effect by blast
  ultimately show ?thesis using prepare_attempts_distinct[OF loop dist] by (auto simp: attempt_key_def image_iff)
qed


section \<open>The adapter in the state machine\<close>

lemma prepare_attempts_steps:
  "(store_step D windows)\<^sup>*\<^sup>* s (snd (prepare_attempts D S F paths config g clock ads s))"
proof (induction ads arbitrary: s)
  case (Cons ad ads)
  show ?case
  proof (cases "prepare_attempt D S paths config g s ad")
    case (Inr r)
    with Cons.IH[of s] show ?thesis by (auto split: prod.splits)
  next
    case (Inl e)
    show ?thesis
    proof (cases "fail_admitted_attempt D F paths (clock ad) e ad s")
      case (Inr s1)
      then have "store_step D windows s s1"
        by (auto simp: fail_admitted_attempt_def map_err_eq_Inr Let_def intro: step_pre_execution)
      then show ?thesis using Cons.IH[of s1] Inl Inr by (simp add: converse_rtranclp_into_rtranclp)
    qed (simp add: Inl)
  qed
qed simp

lemma admit_steps: "admit D lid now capacity s = Inr (s', ads) \<Longrightarrow> (store_step D windows)\<^sup>*\<^sup>* s s'"
  by (auto simp: admit_def and_then_eq_Inr split: if_splits intro: r_into_rtranclp step_admit)

lemma adapter_admit_steps:
  "(store_step D windows)\<^sup>*\<^sup>* s (snd (adapter_admit D S F paths lid now clock capacity s))"
proof (cases "read_settings D False s")
  case (Inr config)
  show ?thesis
  proof (cases "admit D lid now capacity s")
    case (Inr x)
    obtain s1 ads where x: "x = (s1, ads)" by (cases x)
    from admit_steps[OF Inr[unfolded x], of windows]
      prepare_attempts_steps[of D windows s1 S F paths config "retained_output_bytes s" clock ads]
    show ?thesis by (simp add: adapter_admit_def \<open>read_settings D False s = Inr config\<close> Inr x Let_def)
  qed (simp add: adapter_admit_def Inr Let_def)
qed (simp add: adapter_admit_def)

lemma adapter_complete_steps:
  assumes "oc_reason outcome \<noteq> ''termination_unconfirmed''"
  shows "(store_step D windows)\<^sup>*\<^sup>* s (snd (adapter_complete D S attempt outcome t s))"
proof -
  obtain reply s' where r: "adapter_complete D S attempt outcome t s = (reply, s')" by fastforce
  then have "(store_step D windows)\<^sup>*\<^sup>* s s'"
  proof (cases rule: adapter_complete_cases)
    case (refused run def e)
    then show ?thesis by (auto simp: finalize_output_def intro: step_finalized)
  next
    case (accepted run def s1)
    then have "store_step D windows s s1" by (auto simp: finalize_output_def intro: step_finalized)
    moreover have "store_step D windows s1 s'"
      using completion_of_documented[OF assms] accepted(4) by (rule step_complete)
    ultimately show ?thesis by auto
  qed simp
  then show ?thesis by (simp add: r)
qed

text \<open>A call of the daemon, with what the adapter reads of its surroundings.\<close>

datatype 's adapter_call =
    CallAdmit surroundings "'s output_files" state_paths string int "admit_attempt \<Rightarrow> int" nat
  | CallMarkRunning int admitted_attempt
  | CallComplete surroundings admitted_attempt execution_outcome int
  | CallRunnerFailure admitted_attempt runner_failure_kind string int

fun adapter_effect :: "codecs \<Rightarrow> 's adapter_call \<Rightarrow> store \<Rightarrow> store" where
  "adapter_effect D (CallAdmit S F paths lid now clock capacity) s = snd (adapter_admit D S F paths lid now clock capacity s)"
| "adapter_effect D (CallMarkRunning now attempt) s = snd (adapter_mark_running D now attempt s)"
| "adapter_effect D (CallComplete S attempt outcome t) s = snd (adapter_complete D S attempt outcome t s)"
| "adapter_effect D (CallRunnerFailure attempt kind reason t) s =
     snd (adapter_complete_runner_failure D attempt kind reason t s)"

fun plain_reason :: "'s adapter_call \<Rightarrow> bool" where
  "plain_reason (CallComplete S attempt outcome t) \<longleftrightarrow> oc_reason outcome \<noteq> ''termination_unconfirmed''"
| "plain_reason call \<longleftrightarrow> True"

lemma adapter_effect_steps:
  "plain_reason call \<Longrightarrow> (store_step D windows)\<^sup>*\<^sup>* s (adapter_effect D call s)"
  using adapter_admit_steps adapter_complete_steps
  by (cases call) (auto simp: adapter_mark_running_def mark_attempt_running_with_executable_def adapter_complete_runner_failure_def
      split: sum.splits option.splits if_splits intro: step_start step_runner_failure)

text \<open>
  The daemon's calls refine the store's state machine. Whatever sequence of admissions,
  starts, completions and failures the daemon sends through the adapter, accepted or
  refused, with any surroundings and instants, its effect on the database is a sequence of
  the store's transactions; so a reachable database stays well formed.
\<close>

theorem adapter_refines_store:
  assumes "(store_step D windows)\<^sup>*\<^sup>* initial_store s" and "list_all plain_reason calls"
  shows "(store_step D windows)\<^sup>*\<^sup>* s (fold (adapter_effect D) calls s)
    \<and> store_inv (fold (adapter_effect D) calls s)"
proof -
  have steps: "(store_step D windows)\<^sup>*\<^sup>* s (fold (adapter_effect D) calls s)"
    using assms(2)
  proof (induction calls arbitrary: s)
    case (Cons call calls)
    then show ?case using adapter_effect_steps[of call D windows s] by (auto intro: rtranclp_trans)
  qed simp
  then show ?thesis
    using machine.reachable_inv[OF refl rtranclp_trans[OF assms(1) steps]] steps by blast
qed


section \<open>A concrete attempt\<close>

definition backup_codecs :: codecs where
  "backup_codecs = plain_codecs\<lparr>definition_from_str := (\<lambda>_. Some backup_definition)\<rparr>"

definition handed_attempt :: admitted_attempt where
  "handed_attempt =
     \<lparr>aa_run = ''r'', aa_target = ProcessSpec \<lparr>ps_executable = ''/usr/bin/backup'', ps_args = [], ps_cwd = ''/home'', ps_env = []\<rparr>,
      aa_number = 1, aa_partial_output = ''p'', aa_final_output = ''f'', aa_output_limit = 100, aa_timeout = None\<rparr>"

definition plain_outcome :: execution_outcome where
  "plain_outcome =
     \<lparr>oc_kind = OutcomeSucceeded, oc_exit_code = Some 0, oc_http_status = None, oc_http_content_type = None,
      oc_reason = ''exit 0'', oc_duration_micros = 7,
      oc_output = \<lparr>retained_bytes = 3, discarded_bytes = 0, physical_bytes = 24, truncated = False\<rparr>\<rparr>"

definition plain_record :: output_record where
  "plain_record = \<lparr>out_run = ''r'', out_number = 1, out_retained = 3, out_physical = 24, out_discarded = 0, out_truncated = False\<rparr>"

definition accepted_store :: store where
  "accepted_store = projr (complete_attempt backup_codecs sample_completion (projr (finalize_output plain_record 20 running_store)))"

lemma complete_attempt_codecs: "isl (complete_attempt D c s) = isl (complete_attempt D' c s)"
  by (simp add: complete_attempt_def complete_known_def Let_def split: completion_state.splits option.splits)

lemma plain_parts:
  "output_record_of ''r'' 1 (oc_output plain_outcome) = plain_record"
  "completion_of backup_definition handed_attempt plain_outcome 20 = sample_completion"
  by (simp_all add: plain_outcome_def plain_record_def output_record_of_def completion_of_def handed_attempt_def
      sample_completion_def i64_or_max_def i64_try_from_def i64_max_def decide_retry_def retry_classification_def backup_definition_def unwrap_or_def)

lemma sample_accepted:
  "adapter_complete backup_codecs sample_surroundings handed_attempt plain_outcome 20 running_store = (Inr (), accepted_store)"
proof -
  have run: "\<not> isl (read_run running_store ''r'')" by code_simp
  have fin: "\<not> isl (finalize_output plain_record 20 running_store)" by code_simp
  have fin2: "\<not> isl (complete_attempt backup_codecs sample_completion (projr (finalize_output plain_record 20 running_store)))"
  proof -
    have "\<not> isl (complete_attempt plain_codecs sample_completion (projr (finalize_output plain_record 20 running_store)))" by code_simp
    then show ?thesis by (simp add: complete_attempt_codecs[where D = backup_codecs and D' = plain_codecs])
  qed
  have parts: "aa_run handed_attempt = ''r''" "int (aa_number handed_attempt) = 1"
    "definition_from_str backup_codecs = (\<lambda>_. Some backup_definition)"
    by (simp_all add: handed_attempt_def backup_codecs_def)
  show ?thesis
    using run fin fin2 unfolding adapter_complete_def parts plain_parts accepted_store_def
    by (auto simp: isl_def plain_parts split: sum.splits)
qed

text \<open>The database is busy, then the output is stored and the error hides it, then the outcome is recorded and the error hides it.\<close>

definition faulty_deliveries :: "completion_faults list" where
  "faulty_deliveries =
     [no_faults\<lparr>cf_finalize := NotCommitted (StoreSqlite ''database is locked'')\<rparr>,
      no_faults\<lparr>cf_finalize := CommittedUnreported (StoreIo ''disk I/O error'')\<rparr>,
      no_faults\<lparr>cf_complete := CommittedUnreported (StoreSqlite ''disk I/O error'')\<rparr>]"

theorem adapter_complete_repeatable_witness:
  "adapter_complete backup_codecs sample_surroundings handed_attempt plain_outcome 20
     (fold (\<lambda>faults s. snd (adapter_complete_faulty backup_codecs sample_surroundings faults handed_attempt plain_outcome 20 s))
        faulty_deliveries running_store) = (Inr (), accepted_store)"
  using adapter_complete_repeatable[OF running_store_wf _ refl, where outcome = plain_outcome and D = backup_codecs
      and S = sample_surroundings and attempt = handed_attempt and t = 20 and deliveries = faulty_deliveries] sample_accepted
  by (simp add: plain_outcome_def)

theorem adapter_complete_decides_witness:
  "\<exists>run def. read_run accepted_store ''r'' = Inr run \<and> outcome_recorded def handed_attempt plain_outcome 20 run accepted_store"
  using adapter_complete_decides[OF running_store_wf _ sample_accepted] by (auto simp: plain_outcome_def handed_attempt_def)

theorem adapter_refines_store_witness:
  "store_inv (fold (adapter_effect plain_codecs)
     [CallMarkRunning 14 handed_attempt :: unit adapter_call, CallRunnerFailure handed_attempt ExecutionMayHaveStarted ''lost'' 20] running_store)"
  using adapter_refines_store[OF reachable_running, of "[CallMarkRunning 14 handed_attempt :: unit adapter_call,
    CallRunnerFailure handed_attempt ExecutionMayHaveStarted ''lost'' 20]"] by simp

text \<open>The settings, and a file system on which every operation succeeds.\<close>

definition plain_files :: "byte list output_files" where
  "plain_files =
     \<lparr>of_create = (\<lambda>_. Inr []), of_write = (\<lambda>bytes new. (None, bytes @ new)), of_flush = (\<lambda>_. None),
      of_sync = (\<lambda>_. None), of_rename = (\<lambda>_ _. None)\<rparr>"

definition state_root :: state_paths where
  "state_root = StatePaths_new ''/state''"

lemma backup_admit:
  "admit backup_codecs ''l'' 12 4 lifetime_store = Inr (admitted_store, [sample_attempt])"
proof -
  have "admit plain_codecs ''l'' 12 4 lifetime_store = Inr (admitted_store, [sample_attempt])" by code_simp
  moreover have "snapshot_admission_policy backup_codecs = snapshot_admission_policy plain_codecs"
    by (rule ext) (simp add: snapshot_admission_policy_def backup_codecs_def)
  ultimately show ?thesis by (simp add: admit_def admit_prepare_def)
qed

definition initial_settings :: settings_record where
  "initial_settings =
     \<lparr>rec_global_concurrency = 16, rec_execution_path = ''/usr/local/bin:/usr/bin:/bin'', rec_run_retention_count = 10000,
      rec_run_retention_age = Some 7776000000000, rec_output_limit = 268435456, rec_per_run_output_limit = 10485760,
      rec_environment = []\<rparr>"

lemma backup_settings: "read_settings backup_codecs False lifetime_store = Inr initial_settings"
proof -
  have "read_settings plain_codecs False lifetime_store = Inr initial_settings" by code_simp
  then show ?thesis by (simp add: read_settings_def parse_environment_json_def backup_codecs_def)
qed

lemma backup_prepared:
  "\<exists>ready. prepare_attempt backup_codecs sample_surroundings state_root initial_settings g s sample_attempt = Inr ready
     \<and> aa_run ready = ''r''"
proof -
  have "\<exists>p. engine_target sample_surroundings backup_definition sample_attempt initial_settings = Inr (ProcessSpec p)"
    by (simp add: engine_target_def attempt_environment_def effective_environment_def apply_environment_layer_def
        validate_environment_layer_def minimal_environment_def map_filter_def sample_surroundings_def backup_definition_def
        sample_attempt_def initial_settings_def resolve_attempt_executable_def resolve_executable_def identity_entries_def
        validate_direct_executable_def search_directories_def component_count_def is_absolute_def starts_with_def path_join_def
        NUL_def char_of_def)
  moreover have "u16_try_from (ad_number sample_attempt) = Some 1"
    by (simp add: u16_try_from_def sample_attempt_def)
  moreover have lower: "to_ascii_lowercase ''r'' = ''r''" by code_simp
  moreover have "\<exists>x. partial_output backup_codecs state_root (ad_run sample_attempt) 1 = Inr x"
    "\<exists>x. final_output backup_codecs state_root (ad_run sample_attempt) 1 = Inr x"
    by (simp_all add: lower partial_output_def final_output_def output_directory_def validate_uuid_def backup_codecs_def
        plain_codecs_def sample_attempt_def)
  ultimately show ?thesis
    by (auto simp: prepare_attempt_def backup_codecs_def Let_def ok_or_def sample_attempt_def)
qed

theorem adapter_admit_accounts_witness:
  "\<exists>ready s'. adapter_admit backup_codecs sample_surroundings plain_files state_root ''l'' 12 (\<lambda>_. 13) 4 lifetime_store = (Inr [ready], s')
     \<and> aa_run ready = ''r'' \<and> (\<exists>a \<in> set (attempts s'). att_run a = ''r'' \<and> att_st a = AttStarting)"
proof -
  from backup_prepared[of "retained_output_bytes lifetime_store" admitted_store] obtain ready
    where "prepare_attempt backup_codecs sample_surroundings state_root initial_settings (retained_output_bytes lifetime_store)
        admitted_store sample_attempt = Inr ready" and r: "aa_run ready = ''r''" by blast
  then have ok: "adapter_admit backup_codecs sample_surroundings plain_files state_root ''l'' 12 (\<lambda>_. 13) 4 lifetime_store
      = (Inr [ready], admitted_store)"
    by (simp add: adapter_admit_def backup_settings backup_admit Let_def)
  from adapter_admit_accounts[OF lifetime_store_wf backup_settings ok] ok r show ?thesis by auto
qed

end
