(* ===== verification/Maintenance.thy ===== *)
theory Maintenance
  imports Store_Adapter
begin

text \<open>
  Automatic maintenance, \<^verbatim>\<open>crates/locron-cli/src/maintenance.rs\<close> on the Unix build: one bounded pass
  that resumes interrupted deletions of output, recovers the output of lost attempts, enforces
  the output limits, deletes the metadata of old runs, and sweeps files that no row refers to.
  A pass runs on a database and a file system. What it learns from outside (the deadline, the
  writers it yields to, refused store calls, faults of file operations, directory listings)
  is answered by a record of functions of the number of questions asked so far.
\<close>


section \<open>A pass\<close>

text \<open>An error: whether it is the marker of deferral, and the text of its outermost context.\<close>

record failure =
  fl_deferred :: bool
  fl_text :: string

definition failing :: "string \<Rightarrow> failure" where
  "failing msg = \<lparr>fl_deferred = False, fl_text = msg\<rparr>"

definition store_failure :: "store_error \<Rightarrow> failure" where
  "store_failure e = \<lparr>fl_deferred = (e = StoreMaintenanceDeferred), fl_text = store_error_text e\<rparr>"

datatype fs_object = FsMissing | FsDirectory | FsRegular "byte list" int | FsOther

datatype guard_reply = GuardOk | GuardSkip | GuardError string

record outside =
  ou_expired :: "nat \<Rightarrow> bool"
  ou_yield :: "nat \<Rightarrow> store_error + bool"
  ou_busy :: "nat \<Rightarrow> store_error option"
  ou_fault :: "nat \<Rightarrow> string option"
  ou_read_fault :: "nat \<Rightarrow> nat \<Rightarrow> nat \<Rightarrow> io_error option"
  ou_calls :: "nat \<Rightarrow> repair_calls"
  ou_entries :: "nat \<Rightarrow> string \<Rightarrow> (string + string) list"
  ou_guard :: "nat \<Rightarrow> string \<Rightarrow> guard_reply"

record maintenance_report =
  mr_actions :: nat
  mr_outputs_recovered :: nat
  mr_outputs_missing :: nat
  mr_outputs_pruned :: nat
  mr_runs_pruned :: nat
  mr_orphans_removed :: nat

definition MaintenanceReport_default :: maintenance_report where
  "MaintenanceReport_default =
     \<lparr>mr_actions = 0, mr_outputs_recovered = 0, mr_outputs_missing = 0, mr_outputs_pruned = 0, mr_runs_pruned = 0,
      mr_orphans_removed = 0\<rparr>"

text \<open>
  The cursor of the sweep between passes: the directories left, and the open directory with the
  entries left, the entry that was put back first.
\<close>

record run_scan =
  rs_directory :: string
  rs_run :: string
  rs_entries :: "(string + string) list"

record maintenance_cursor =
  mc_outputs :: "string option"
  mc_directories :: "(string + string) list option"
  mc_current :: "run_scan option"
  mc_guard :: bool

definition MaintenanceCursor_reset :: maintenance_cursor where
  "MaintenanceCursor_reset = \<lparr>mc_outputs = None, mc_directories = None, mc_current = None, mc_guard = False\<rparr>"

record pass =
  ps_db :: store
  ps_files :: "string \<Rightarrow> fs_object"
  ps_asked :: nat
  ps_deferred :: bool
  ps_report :: maintenance_report
  ps_errors :: "string list"
  ps_cursor :: maintenance_cursor

definition MAX_ACTIONS :: nat where
  "MAX_ACTIONS = 100"

definition OUTPUT_MAX_AGE_US :: int where
  "OUTPUT_MAX_AGE_US = 30 * 24 * 60 * 60 * 1000000"

definition ORPHAN_GRACE_US :: int where
  "ORPHAN_GRACE_US = 60 * 60 * 1000000"

type_synonym 'a action = "pass \<Rightarrow> (failure + 'a) \<times> pass"

definition ret :: "'a \<Rightarrow> 'a action" where
  "ret x p = (Inr x, p)"

definition fail_with :: "failure \<Rightarrow> 'a action" where
  "fail_with e p = (Inl e, p)"

definition bind_action :: "'a action \<Rightarrow> ('a \<Rightarrow> 'b action) \<Rightarrow> 'b action" where
  "bind_action m f p = (case m p of (Inl e, p') \<Rightarrow> (Inl e, p') | (Inr x, p') \<Rightarrow> f x p')"

text \<open>The result of an action as a value, for the code that inspects it.\<close>

definition attempt_action :: "'a action \<Rightarrow> (failure + 'a) action" where
  "attempt_action m p = (case m p of (r, p') \<Rightarrow> (Inr r, p'))"

definition with_context :: "string \<Rightarrow> 'a action \<Rightarrow> 'a action" where
  "with_context msg m p = (case m p of (r, p') \<Rightarrow> (map_err (fl_text_update (\<lambda>_. msg)) r, p'))"

definition ask :: "(nat \<Rightarrow> 'a) \<Rightarrow> 'a action" where
  "ask f p = (Inr (f (ps_asked p)), p\<lparr>ps_asked := Suc (ps_asked p)\<rparr>)"

definition change :: "(pass \<Rightarrow> pass) \<Rightarrow> unit action" where
  "change f p = (Inr (), f p)"

definition inspect :: "(pass \<Rightarrow> 'a) \<Rightarrow> 'a action" where
  "inspect f p = (Inr (f p), p)"

definition lift_store :: "'a store_result \<Rightarrow> 'a action" where
  "lift_store r = (case r of Inl e \<Rightarrow> fail_with (store_failure e) | Inr x \<Rightarrow> ret x)"

text \<open>Calls of the store: refused before they begin, or answered by the database.\<close>

definition store_query :: "outside \<Rightarrow> (store \<Rightarrow> 'a store_result) \<Rightarrow> 'a action" where
  "store_query X f =
     bind_action (ask (ou_busy X)) (\<lambda>busy.
       case busy of Some e \<Rightarrow> fail_with (store_failure e)
       | None \<Rightarrow> bind_action (inspect (\<lambda>p. f (ps_db p))) lift_store)"

definition store_write :: "outside \<Rightarrow> (store \<Rightarrow> store store_result) \<Rightarrow> unit action" where
  "store_write X f =
     bind_action (store_query X f) (\<lambda>s'. change (\<lambda>p. p\<lparr>ps_db := s'\<rparr>))"


section \<open>The budget\<close>

definition remaining :: "outside \<Rightarrow> nat action" where
  "remaining X =
     bind_action (inspect ps_deferred) (\<lambda>deferred.
       if deferred then ret 0
       else bind_action (ask (ou_expired X)) (\<lambda>expired.
              if expired then ret 0 else inspect (\<lambda>p. MAX_ACTIONS - mr_actions (ps_report p))))"

definition unit_ready :: "outside \<Rightarrow> bool action" where
  "unit_ready X =
     bind_action (inspect ps_deferred) (\<lambda>deferred.
       if deferred then ret False
       else bind_action (ask (ou_expired X)) (\<lambda>expired.
              if expired then ret False
              else bind_action (ask (ou_yield X)) (\<lambda>yielding.
                     bind_action (lift_store yielding) (\<lambda>y. ret (\<not> y)))))"

definition ready :: "outside \<Rightarrow> bool action" where
  "ready X = bind_action (remaining X) (\<lambda>n. if n > 0 then unit_ready X else ret False)"

definition record_error :: "string \<Rightarrow> failure \<Rightarrow> unit action" where
  "record_error msg e =
     change (\<lambda>p. if fl_deferred e then p\<lparr>ps_deferred := True\<rparr>
                 else p\<lparr>ps_errors := ps_errors p @ [msg @ '': '' @ fl_text e]\<rparr>)"

definition take_action :: "outside \<Rightarrow> bool action" where
  "take_action X =
     bind_action (attempt_action (ready X)) (\<lambda>r.
       case r of
         Inr True \<Rightarrow> bind_action (change (ps_report_update (mr_actions_update Suc))) (\<lambda>_. ret True)
       | Inr False \<Rightarrow> bind_action (change (ps_deferred_update (\<lambda>_. True))) (\<lambda>_. ret False)
       | Inl e \<Rightarrow> bind_action (record_error ''check maintenance admission'' e) (\<lambda>_. ret False))"

fun join_text :: "string \<Rightarrow> string list \<Rightarrow> string" where
  "join_text sep [] = []"
| "join_text sep [x] = x"
| "join_text sep (x # xs) = x @ sep @ join_text sep xs"

definition finish :: "maintenance_report action" where
  "finish p =
     (if ps_errors p = [] then (Inr (ps_report p), p)
      else (Inl (failing (''maintenance completed with '' @ show_nat (length (ps_errors p)) @ '' error(s): ''
                   @ join_text ''; '' (ps_errors p))), p))"

definition unless_ready_defer :: "outside \<Rightarrow> unit action" where
  "unless_ready_defer X =
     bind_action (unit_ready X) (\<lambda>ok. if ok then ret () else fail_with (store_failure StoreMaintenanceDeferred))"

text \<open>One action of the budget for each candidate; its failure is recorded and the loop goes on.\<close>

fun spend_each ::
    "outside \<Rightarrow> ('c \<Rightarrow> 'r action) \<Rightarrow> ('r \<Rightarrow> maintenance_report \<Rightarrow> maintenance_report) \<Rightarrow> ('c \<Rightarrow> string) \<Rightarrow> 'c list \<Rightarrow> unit action" where
  "spend_each X body counted msg [] = ret ()"
| "spend_each X body counted msg (c # cs) =
     bind_action (take_action X) (\<lambda>ok.
       if \<not> ok then ret ()
       else bind_action (attempt_action (body c)) (\<lambda>r.
              bind_action (case r of Inr x \<Rightarrow> change (ps_report_update (counted x)) | Inl e \<Rightarrow> record_error (msg c) e)
                (\<lambda>_. spend_each X body counted msg cs)))"


section \<open>Files\<close>

datatype file_kind = KindMissing | KindRegular | KindUnsafe

definition file_system :: "outside \<Rightarrow> ((string \<Rightarrow> fs_object) \<Rightarrow> 'a) \<Rightarrow> 'a action" where
  "file_system X f =
     bind_action (ask (ou_fault X)) (\<lambda>fault.
       case fault of Some e \<Rightarrow> fail_with (failing e) | None \<Rightarrow> inspect (\<lambda>p. f (ps_files p)))"

definition file_kind_of :: "outside \<Rightarrow> string \<Rightarrow> file_kind action" where
  "file_kind_of X path =
     file_system X (\<lambda>fs. case fs path of
       FsMissing \<Rightarrow> KindMissing | FsRegular _ _ \<Rightarrow> KindRegular | FsDirectory \<Rightarrow> KindUnsafe | FsOther \<Rightarrow> KindUnsafe)"

definition is_safe_directory :: "outside \<Rightarrow> string \<Rightarrow> bool action" where
  "is_safe_directory X path = file_system X (\<lambda>fs. fs path = FsDirectory)"

definition require_directory :: "outside \<Rightarrow> string \<Rightarrow> unit action" where
  "require_directory X path =
     bind_action (is_safe_directory X path) (\<lambda>ok.
       if ok then ret () else fail_with (failing (''managed path is missing, symbolic, or not a directory: '' @ path)))"

definition sync_directory :: "outside \<Rightarrow> unit action" where
  "sync_directory X = file_system X (\<lambda>_. ())"

definition change_files :: "outside \<Rightarrow> ((string \<Rightarrow> fs_object) \<Rightarrow> string \<Rightarrow> fs_object) \<Rightarrow> unit action" where
  "change_files X f = bind_action (file_system X (\<lambda>_. ())) (\<lambda>_. change (ps_files_update f))"

definition rename :: "outside \<Rightarrow> string \<Rightarrow> string \<Rightarrow> unit action" where
  "rename X from_path to_path = change_files X (\<lambda>fs. fs(to_path := fs from_path, from_path := FsMissing))"

definition remove_file :: "outside \<Rightarrow> string \<Rightarrow> unit action" where
  "remove_file X path = change_files X (\<lambda>fs. fs(path := FsMissing))"

text \<open>\<open>repair_partial\<close> of the store on the file at a path, which keeps a modification time.\<close>

definition repair_file :: "'h hasher \<Rightarrow> outside \<Rightarrow> string \<Rightarrow> output_repair action" where
  "repair_file H X path =
     bind_action (file_system X (\<lambda>fs. fs path)) (\<lambda>object.
     bind_action (ask (ou_read_fault X)) (\<lambda>faults.
     bind_action (ask (ou_calls X)) (\<lambda>calls.
       case object of
         FsRegular bytes modified \<Rightarrow>
           (case repair_opened H calls \<lparr>file_bytes = bytes, file_pos = 0, file_fault = faults, file_seek_fault = None\<rparr> of
              (r, bytes') \<Rightarrow>
                bind_action (change (ps_files_update (\<lambda>fs. fs(path := FsRegular bytes' modified)))) (\<lambda>_.
                  case r of Inl e \<Rightarrow> fail_with (failing (io_error_text e)) | Inr repair \<Rightarrow> ret repair))
       | _ \<Rightarrow> fail_with (failing ''not a regular file''))))"


section \<open>Recovery of output\<close>

definition recovered_record :: "string \<Rightarrow> int \<Rightarrow> output_repair \<Rightarrow> output_record" where
  "recovered_record rid n repaired =
     \<lparr>out_run = rid, out_number = n, out_retained = i64_or_max (unat (rep_payload_bytes repaired)),
      out_physical = i64_or_max (unat (rep_physical_bytes repaired)), out_discarded = 0, out_truncated = False\<rparr>"

definition note_missing :: "outside \<Rightarrow> string \<Rightarrow> int \<Rightarrow> int \<Rightarrow> bool action" where
  "note_missing X rid n now = bind_action (store_write X (reconcile_output_missing rid n now)) (\<lambda>_. ret False)"

text \<open>The repair of whichever file exists, or \<open>None\<close> when there is none.\<close>

definition repair_found ::
    "'h hasher \<Rightarrow> outside \<Rightarrow> string \<Rightarrow> string \<Rightarrow> file_kind \<Rightarrow> file_kind \<Rightarrow> output_repair option action" where
  "repair_found H X partial final partial_kind final_kind =
     (case (partial_kind, final_kind) of
        (KindRegular, KindMissing) \<Rightarrow>
          bind_action (unless_ready_defer X) (\<lambda>_.
          bind_action (with_context ''repair partial frame tail'' (repair_file H X partial)) (\<lambda>repair.
          bind_action (unless_ready_defer X) (\<lambda>_.
          bind_action (with_context ''atomically finalize repaired output'' (rename X partial final)) (\<lambda>_.
          bind_action (sync_directory X) (\<lambda>_. ret (Some repair))))))
      | (KindRegular, KindRegular) \<Rightarrow> fail_with (failing ''both partial and final output files exist'')
      | (KindRegular, KindUnsafe) \<Rightarrow>
          fail_with (failing ''final output path is occupied by an unsafe filesystem object'')
      | (_, KindRegular) \<Rightarrow>
          bind_action (unless_ready_defer X) (\<lambda>_.
          bind_action (with_context ''repair finalized frame tail'' (repair_file H X final)) (\<lambda>repair. ret (Some repair)))
      | (_, _) \<Rightarrow> ret None)"

definition recover_output ::
    "codecs \<Rightarrow> 'h hasher \<Rightarrow> outside \<Rightarrow> state_paths \<Rightarrow> int \<Rightarrow> output_recovery_candidate \<Rightarrow> bool action" where
  "recover_output D H X paths now candidate =
     (let rid = orc_run candidate; n = orc_attempt candidate in
      bind_action (unless_ready_defer X) (\<lambda>_.
      case u16_try_from n of
        None \<Rightarrow> fail_with (failing ''attempt number is outside path range'')
      | Some attempt \<Rightarrow>
          bind_action (lift_store (partial_output D paths rid attempt)) (\<lambda>partial.
          bind_action (lift_store (final_output D paths rid attempt)) (\<lambda>final.
          if orc_path candidate \<noteq> rid @ ''/'' @ show_nat attempt @ ''.partial''
          then fail_with (failing ''database output path is not the canonical partial path'')
          else bind_action (is_safe_directory X (path_join (sp_outputs paths) rid)) (\<lambda>safe.
            if \<not> safe then note_missing X rid n now
            else bind_action (file_kind_of X partial) (\<lambda>partial_kind.
                 bind_action (file_kind_of X final) (\<lambda>final_kind.
                 bind_action (repair_found H X partial final partial_kind final_kind) (\<lambda>found.
                   case found of
                     None \<Rightarrow> note_missing X rid n now
                   | Some repaired \<Rightarrow>
                       bind_action (store_write X (reconcile_output_finalized (recovered_record rid n repaired) now))
                         (\<lambda>_. ret True)))))))))"

definition count_recovered :: "bool \<Rightarrow> maintenance_report \<Rightarrow> maintenance_report" where
  "count_recovered found =
     (if found then mr_outputs_recovered_update Suc else mr_outputs_missing_update Suc)"

definition recover_referenced_outputs ::
    "codecs \<Rightarrow> 'h hasher \<Rightarrow> outside \<Rightarrow> state_paths \<Rightarrow> string \<Rightarrow> int \<Rightarrow> unit action" where
  "recover_referenced_outputs D H X paths lid now =
     bind_action (remaining X) (\<lambda>limit.
     bind_action (with_context ''list referenced partial outputs''
         (store_query X (\<lambda>s. Inr (referenced_partial_artifacts limit lid s)))) (\<lambda>candidates.
       spend_each X (recover_output D H X paths now) count_recovered
         (\<lambda>c. ''recover output '' @ orc_run c @ ''/'' @ show_int (orc_attempt c)) candidates))"


section \<open>Deletion of output\<close>

definition remove_and_finish_output ::
    "codecs \<Rightarrow> outside \<Rightarrow> state_paths \<Rightarrow> int \<Rightarrow> bool \<Rightarrow> retention_candidate \<Rightarrow> unit action" where
  "remove_and_finish_output D X paths now mark_pending candidate =
     (let rid = rc_run candidate; directory = path_join (sp_outputs paths) rid;
          done_with = store_write X (finish_output_prune candidate now)
      in case u16_try_from (rc_attempt candidate) of
        None \<Rightarrow> fail_with (failing ''retention attempt number is outside path range'')
      | Some attempt \<Rightarrow>
          bind_action (lift_store (final_output D paths rid attempt)) (\<lambda>path.
          if rc_path candidate \<noteq> rid @ ''/'' @ show_nat attempt @ ''.log''
          then fail_with (failing ''database output path is not the canonical final path'')
          else
            bind_action (if mark_pending then store_write X (mark_output_prune_pending candidate now) else ret ()) (\<lambda>_.
            bind_action (unless_ready_defer X) (\<lambda>_.
            bind_action (file_system X (\<lambda>fs. fs directory)) (\<lambda>parent.
              case parent of
                FsMissing \<Rightarrow> done_with
              | FsDirectory \<Rightarrow>
                  bind_action (file_kind_of X path) (\<lambda>kind.
                    case kind of
                      KindRegular \<Rightarrow>
                        bind_action (with_context ''remove retained output'' (remove_file X path)) (\<lambda>_.
                        bind_action (sync_directory X) (\<lambda>_. done_with))
                    | KindMissing \<Rightarrow> done_with
                    | KindUnsafe \<Rightarrow> fail_with (failing ''refusing to remove symbolic link or non-file output''))
              | _ \<Rightarrow> fail_with (failing ''refusing to traverse unsafe output parent''))))))"

definition resume_output_prunes :: "codecs \<Rightarrow> outside \<Rightarrow> state_paths \<Rightarrow> int \<Rightarrow> unit action" where
  "resume_output_prunes D X paths now =
     bind_action (remaining X) (\<lambda>limit.
     bind_action (with_context ''list pending output prunes'' (store_query X (\<lambda>s. Inr (pending_output_prunes limit s)))) (\<lambda>candidates.
       spend_each X (remove_and_finish_output D X paths now False) (\<lambda>_. mr_outputs_pruned_update Suc)
         (\<lambda>_. ''resume output prune'') candidates))"

definition prune_pending_run_outputs :: "codecs \<Rightarrow> outside \<Rightarrow> state_paths \<Rightarrow> int \<Rightarrow> string set \<Rightarrow> unit action" where
  "prune_pending_run_outputs D X paths now pending_ids =
     (if pending_ids = {} then ret ()
      else bind_action (remaining X) (\<lambda>limit.
        if limit = 0 then ret ()
        else bind_action (with_context ''list outputs for pending metadata retention''
               (store_query X (output_retention_candidates MAX_ACTIONS))) (\<lambda>candidates.
             spend_each X (remove_and_finish_output D X paths now True) (\<lambda>_. mr_outputs_pruned_update Suc)
               (\<lambda>_. ''prune output before metadata'') (filter (\<lambda>c. rc_run c \<in> pending_ids) candidates))))"

fun prune_over_limits ::
    "codecs \<Rightarrow> outside \<Rightarrow> state_paths \<Rightarrow> int \<Rightarrow> int \<Rightarrow> int \<Rightarrow> int \<Rightarrow> retention_candidate list \<Rightarrow> unit action" where
  "prune_over_limits D X paths now cutoff limit retained [] = ret ()"
| "prune_over_limits D X paths now cutoff limit retained (c # cs) =
     (if rc_finalized_at c \<ge> cutoff \<and> retained \<le> limit then prune_over_limits D X paths now cutoff limit retained cs
      else bind_action (take_action X) (\<lambda>ok.
        if \<not> ok then ret ()
        else bind_action (attempt_action (remove_and_finish_output D X paths now True c)) (\<lambda>r.
          case r of
            Inr _ \<Rightarrow>
              bind_action (change (ps_report_update (mr_outputs_pruned_update Suc))) (\<lambda>_.
                prune_over_limits D X paths now cutoff limit (i64_saturating (retained - rc_physical c)) cs)
          | Inl e \<Rightarrow>
              bind_action (record_error ''prune retained output'' e) (\<lambda>_.
                prune_over_limits D X paths now cutoff limit retained cs))))"

definition prune_output_limits :: "codecs \<Rightarrow> outside \<Rightarrow> state_paths \<Rightarrow> int \<Rightarrow> unit action" where
  "prune_output_limits D X paths now =
     bind_action (remaining X) (\<lambda>budget.
       if budget = 0 then ret ()
       else bind_action (with_context ''read output retention settings'' (store_query X (read_settings D False))) (\<lambda>config.
            bind_action (with_context ''read retained output bytes'' (store_query X (\<lambda>s. Inr (retained_output_bytes s)))) (\<lambda>retained.
            bind_action (with_context ''list output retention candidates''
                (store_query X (output_retention_candidates MAX_ACTIONS))) (\<lambda>candidates.
              prune_over_limits D X paths now (i64_saturating (now - OUTPUT_MAX_AGE_US)) (rec_output_limit config)
                retained candidates))))"


section \<open>Deletion of runs\<close>

text \<open>A write whose conflict is not an error.\<close>

definition unless_conflict :: "outside \<Rightarrow> (store \<Rightarrow> store store_result) \<Rightarrow> bool action" where
  "unless_conflict X f =
     bind_action (store_query X (\<lambda>s. case f s of Inl (StoreConflict _) \<Rightarrow> Inr None | Inl e \<Rightarrow> Inl e | Inr s' \<Rightarrow> Inr (Some s')))
       (\<lambda>r. case r of None \<Rightarrow> ret False | Some s' \<Rightarrow> bind_action (change (\<lambda>p. p\<lparr>ps_db := s'\<rparr>)) (\<lambda>_. ret True))"

definition count_run :: "bool \<Rightarrow> maintenance_report \<Rightarrow> maintenance_report" where
  "count_run deleted = (if deleted then mr_runs_pruned_update Suc else id)"

definition finish_pending_runs :: "outside \<Rightarrow> run_retention_candidate list \<Rightarrow> unit action" where
  "finish_pending_runs X pending_runs =
     spend_each X (\<lambda>c. unless_conflict X (finish_run_retention c)) count_run (\<lambda>_. ''finish pending run retention'') pending_runs"

definition reserve_and_delete :: "outside \<Rightarrow> int \<Rightarrow> run_retention_candidate \<Rightarrow> bool action" where
  "reserve_and_delete X now c =
     bind_action (store_write X (mark_run_retention_pending c now)) (\<lambda>_.
     bind_action (attempt_action (unless_conflict X (finish_run_retention c))) (\<lambda>r.
       case r of
         Inr deleted \<Rightarrow> ret deleted
       | Inl e \<Rightarrow> bind_action (record_error ''finish selected run retention'' e) (\<lambda>_. ret False)))"

definition select_run_retention :: "outside \<Rightarrow> int \<Rightarrow> unit action" where
  "select_run_retention X now =
     bind_action (remaining X) (\<lambda>limit.
     bind_action (with_context ''list run metadata retention candidates''
         (store_query X (\<lambda>s. Inr (run_retention_candidates now limit s)))) (\<lambda>candidates.
       spend_each X (reserve_and_delete X now) count_run (\<lambda>_. ''select run metadata retention'') candidates))"


section \<open>The sweep for orphans\<close>

text \<open>What the loop does after one entry: it goes on, or it stops and puts the entry back.\<close>

datatype scan_reply = GoOn | PutBack

definition remove_orphan :: "outside \<Rightarrow> string \<Rightarrow> unit action" where
  "remove_orphan X path =
     bind_action (attempt_action (remove_file X path)) (\<lambda>removal.
       case removal of
         Inl e \<Rightarrow> record_error ''remove verified orphan output'' e
       | Inr _ \<Rightarrow>
           bind_action (change (ps_report_update (mr_orphans_removed_update Suc))) (\<lambda>_.
           bind_action (attempt_action (sync_directory X)) (\<lambda>synced.
             case synced of Inr _ \<Rightarrow> ret () | Inl e \<Rightarrow> record_error ''sync orphan output directory'' e)))"

definition modified_time :: "outside \<Rightarrow> string \<Rightarrow> int action" where
  "modified_time X path =
     bind_action (file_system X (\<lambda>fs. fs path)) (\<lambda>object.
     case object of
       FsRegular _ modified \<Rightarrow> with_context ''read orphan modification time'' (file_system X (\<lambda>_. modified))
     | _ \<Rightarrow> fail_with (failing ''entity not found''))"

definition scan_entry :: "outside \<Rightarrow> int \<Rightarrow> string \<Rightarrow> string \<Rightarrow> string \<Rightarrow> scan_reply action" where
  "scan_entry X cutoff directory rid name =
     (let path = path_join directory name in
      if \<not> is_canonical_output_name name then ret GoOn
      else bind_action (file_kind_of X path) (\<lambda>kind.
        if kind \<noteq> KindRegular then ret GoOn
        else bind_action (attempt_action (store_query X (\<lambda>s. Inr (output_artifact_references rid (rid @ ''/'' @ name) s)))) (\<lambda>referenced.
          case referenced of
            Inr True \<Rightarrow> ret GoOn
          | Inl e \<Rightarrow> bind_action (record_error ''verify output artifact reference'' e) (\<lambda>_. ret PutBack)
          | Inr False \<Rightarrow>
              bind_action (modified_time X path) (\<lambda>modified.
                if modified > cutoff then ret GoOn
                else bind_action (take_action X) (\<lambda>ok.
                  if \<not> ok then ret PutBack
                  else bind_action (remove_orphan X path) (\<lambda>_. ret GoOn))))))"

abbreviation set_cursor :: "(maintenance_cursor \<Rightarrow> maintenance_cursor) \<Rightarrow> unit action" where
  "set_cursor f \<equiv> change (ps_cursor_update f)"

text \<open>The open directory, after the check at the head of the loop; whether the loop goes on after it.\<close>

fun scan_run :: "outside \<Rightarrow> int \<Rightarrow> string \<Rightarrow> string \<Rightarrow> (string + string) list \<Rightarrow> bool action" where
  "scan_run X cutoff directory rid [] =
     bind_action (set_cursor (mc_current_update (\<lambda>_. Some \<lparr>rs_directory = directory, rs_run = rid, rs_entries = []\<rparr>))) (\<lambda>_.
     bind_action (ready X) (\<lambda>ok.
       if \<not> ok then ret False
       else bind_action (is_safe_directory X directory) (\<lambda>_.
         bind_action (set_cursor (mc_current_update (\<lambda>_. None))) (\<lambda>_. ret True))))"
| "scan_run X cutoff directory rid (entry # entries) =
     bind_action (set_cursor (mc_current_update (\<lambda>_. Some \<lparr>rs_directory = directory, rs_run = rid, rs_entries = entry # entries\<rparr>))) (\<lambda>_.
     bind_action (ready X) (\<lambda>ok.
       if \<not> ok then ret False
       else bind_action (is_safe_directory X directory) (\<lambda>safe.
         if \<not> safe then bind_action (set_cursor (mc_current_update (\<lambda>_. None))) (\<lambda>_. ret True)
         else (case entry of
             Inl e \<Rightarrow> fail_with (failing e)
           | Inr name \<Rightarrow>
               bind_action (scan_entry X cutoff directory rid name) (\<lambda>reply.
                 case reply of
                   PutBack \<Rightarrow> ret False
                 | GoOn \<Rightarrow>
                     bind_action (set_cursor (mc_current_update (\<lambda>_. Some \<lparr>rs_directory = directory, rs_run = rid, rs_entries = entries\<rparr>))) (\<lambda>_.
                     bind_action (ready X) (\<lambda>again.
                       if \<not> again then ret False else scan_run X cutoff directory rid entries)))))))"

fun scan_directories :: "codecs \<Rightarrow> outside \<Rightarrow> state_paths \<Rightarrow> int \<Rightarrow> (string + string) list \<Rightarrow> unit action" where
  "scan_directories D X paths cutoff [] =
     bind_action (ready X) (\<lambda>ok.
       if \<not> ok then ret ()
       else set_cursor (\<lambda>c. c\<lparr>mc_current := None, mc_directories := None\<rparr>))"
| "scan_directories D X paths cutoff (found # rest) =
     bind_action (ready X) (\<lambda>ok.
       if \<not> ok then ret ()
       else bind_action (set_cursor (mc_directories_update (\<lambda>_. Some rest))) (\<lambda>_.
         case found of
           Inl e \<Rightarrow> fail_with (failing e)
         | Inr rid \<Rightarrow>
             if \<not> is_canonical_uuid D rid then scan_directories D X paths cutoff rest
             else let directory = path_join (sp_outputs paths) rid in
               bind_action (is_safe_directory X directory) (\<lambda>safe.
                 if \<not> safe then scan_directories D X paths cutoff rest
                 else bind_action (ask (ou_guard X)) (\<lambda>guard.
                   case guard directory of
                     GuardSkip \<Rightarrow> scan_directories D X paths cutoff rest
                   | GuardError e \<Rightarrow> fail_with (failing ''validate orphan output directory'')
                   | GuardOk \<Rightarrow>
                       bind_action (file_system X (\<lambda>_. ())) (\<lambda>_.
                       bind_action (ask (ou_entries X)) (\<lambda>listing.
                       bind_action (scan_run X cutoff directory rid (listing directory)) (\<lambda>go_on.
                         if go_on then scan_directories D X paths cutoff rest else ret ())))))))"

definition remove_verified_orphans :: "codecs \<Rightarrow> outside \<Rightarrow> state_paths \<Rightarrow> int \<Rightarrow> unit action" where
  "remove_verified_orphans D X paths now =
     bind_action (ready X) (\<lambda>ok.
       if \<not> ok \<or> now < ORPHAN_GRACE_US then ret ()
       else
         let cutoff = (now - ORPHAN_GRACE_US) * 1000 in
         bind_action (inspect (\<lambda>p. mc_directories (ps_cursor p))) (\<lambda>known.
         bind_action (case known of
             Some names \<Rightarrow> ret names
           | None \<Rightarrow>
               bind_action (file_system X (\<lambda>_. ())) (\<lambda>_.
               bind_action (ask (ou_entries X)) (\<lambda>listing.
               bind_action (set_cursor (\<lambda>c. c\<lparr>mc_directories := Some (listing (sp_outputs paths)), mc_outputs := Some (sp_outputs paths)\<rparr>))
                 (\<lambda>_. ret (listing (sp_outputs paths)))))) (\<lambda>names.
         bind_action (inspect (\<lambda>p. mc_current (ps_cursor p))) (\<lambda>current.
           case current of
             None \<Rightarrow> scan_directories D X paths cutoff names
           | Some scan \<Rightarrow>
               bind_action (ready X) (\<lambda>again.
                 if \<not> again then ret ()
                 else bind_action (scan_run X cutoff (rs_directory scan) (rs_run scan) (rs_entries scan)) (\<lambda>go_on.
                   if go_on then scan_directories D X paths cutoff names else ret ()))))))"


section \<open>One pass\<close>

text \<open>
  The macro \<open>phase!\<close> and the checks between the phases: a deferred phase ends the pass with its
  report, another error ends it with that error.
\<close>

definition phase :: "unit action \<Rightarrow> maintenance_report action \<Rightarrow> maintenance_report action" where
  "phase m next_phase =
     bind_action (attempt_action m) (\<lambda>r.
       case r of Inr _ \<Rightarrow> next_phase | Inl e \<Rightarrow> if fl_deferred e then finish else fail_with e)"

definition when_ready :: "outside \<Rightarrow> maintenance_report action \<Rightarrow> maintenance_report action" where
  "when_ready X next_phase = bind_action (ready X) (\<lambda>ok. if ok then next_phase else finish)"

definition admit_output_root :: "outside \<Rightarrow> state_paths \<Rightarrow> unit action" where
  "admit_output_root X paths =
     bind_action (inspect (\<lambda>p. mc_guard (ps_cursor p))) (\<lambda>guarded.
     bind_action (if guarded then ret ()
       else bind_action (ask (ou_guard X)) (\<lambda>guard.
         case guard (sp_outputs paths) of
           GuardOk \<Rightarrow> set_cursor (\<lambda>c. c\<lparr>mc_guard := True, mc_outputs := Some (sp_outputs paths)\<rparr>)
         | _ \<Rightarrow> fail_with (failing ''validate managed output root''))) (\<lambda>_.
       with_context ''validate managed output root'' (require_directory X (sp_outputs paths))))"

definition maintain_inner ::
    "codecs \<Rightarrow> 'h hasher \<Rightarrow> outside \<Rightarrow> state_paths \<Rightarrow> string \<Rightarrow> int \<Rightarrow> maintenance_report action" where
  "maintain_inner D H X paths lid now =
     bind_action (admit_output_root X paths) (\<lambda>_.
     when_ready X (phase (resume_output_prunes D X paths now) (
     when_ready X (phase (recover_referenced_outputs D H X paths lid now) (
     when_ready X (
       bind_action (attempt_action (with_context ''list pending run retention'' (store_query X (pending_run_retention MAX_ACTIONS)))) (\<lambda>r.
       case r of
         Inl e \<Rightarrow> if fl_deferred e then finish else fail_with e
       | Inr pending_runs \<Rightarrow>
           when_ready X (phase (prune_pending_run_outputs D X paths now (rrc_run ` set pending_runs)) (
           when_ready X (phase (prune_output_limits D X paths now) (
           bind_action (finish_pending_runs X pending_runs) (\<lambda>_.
           when_ready X (phase (select_run_retention X now) (
           when_ready X (phase (remove_verified_orphans D X paths now)
             finish)))))))))))))))"

text \<open>The state between passes, and a pass on it.\<close>

record maintained =
  mt_db :: store
  mt_files :: "string \<Rightarrow> fs_object"
  mt_cursor :: maintenance_cursor

definition Pass_new :: "maintained \<Rightarrow> maintenance_cursor \<Rightarrow> pass" where
  "Pass_new w cursor =
     \<lparr>ps_db = mt_db w, ps_files = mt_files w, ps_asked = 0, ps_deferred = False, ps_report = MaintenanceReport_default,
      ps_errors = [], ps_cursor = cursor\<rparr>"

definition maintain_with_cursor ::
    "codecs \<Rightarrow> 'h hasher \<Rightarrow> outside \<Rightarrow> state_paths \<Rightarrow> state_paths \<Rightarrow> string \<Rightarrow> int \<Rightarrow> maintained
     \<Rightarrow> (failure + maintenance_report) \<times> maintained" where
  "maintain_with_cursor D H X store_paths paths lid now w =
     (if store_paths \<noteq> paths then (Inl (failing ''maintenance store and state paths do not match''), w)
      else
        let cursor = (case mc_outputs (mt_cursor w) of
              Some outputs \<Rightarrow> if outputs \<noteq> sp_outputs paths then MaintenanceCursor_reset else mt_cursor w
            | None \<Rightarrow> mt_cursor w)
        in case maintain_inner D H X paths lid now (Pass_new w cursor) of
             (result, p) \<Rightarrow>
               (result, \<lparr>mt_db = ps_db p, mt_files = ps_files p,
                         mt_cursor = (if isl result then MaintenanceCursor_reset else ps_cursor p)\<rparr>))"

end
