(* ===== verification/Pass_Contracts.thy ===== *)
theory Pass_Contracts
  imports Maintenance
begin

text \<open>
  Contracts of a maintenance pass as relations between the state before and after an action.
  A relation that the bookkeeping of the pass and its effects on files and database satisfy is
  satisfied by the whole pass.
\<close>

section \<open>Relations kept by actions\<close>

definition keeps :: "(pass \<Rightarrow> pass \<Rightarrow> bool) \<Rightarrow> 'a action \<Rightarrow> bool" where
  "keeps R m \<longleftrightarrow> (\<forall>p. R p (snd (m p)))"

text \<open>An action that an action of the budget was taken for.\<close>

definition paid :: "(pass \<Rightarrow> pass \<Rightarrow> bool) \<Rightarrow> outside \<Rightarrow> 'a action \<Rightarrow> bool" where
  "paid R X m \<longleftrightarrow> (\<forall>p q r. take_action X p = (Inr True, q) \<longrightarrow> R q r \<longrightarrow> R p (snd (m r)))"

text \<open>The updates of a report that count at most one result.\<close>

definition counters :: "(maintenance_report \<Rightarrow> maintenance_report) set" where
  "counters = {id, mr_outputs_recovered_update Suc, mr_outputs_missing_update Suc, mr_outputs_pruned_update Suc,
     mr_runs_pruned_update Suc, mr_orphans_removed_update Suc}"

text \<open>The directory of the cursor is the output directory of its run.\<close>

definition good_cursor :: "codecs \<Rightarrow> state_paths \<Rightarrow> maintenance_cursor \<Rightarrow> bool" where
  "good_cursor D paths c \<longleftrightarrow>
     (case mc_current c of None \<Rightarrow> True
      | Some scan \<Rightarrow> rs_directory scan = path_join (sp_outputs paths) (rs_run scan) \<and> is_canonical_uuid D (rs_run scan))"

locale pass_relation =
  fixes D :: codecs and paths :: state_paths and R :: "pass \<Rightarrow> pass \<Rightarrow> bool"
  assumes R_refl: "R p p"
    and R_trans: "R p q \<Longrightarrow> R q r \<Longrightarrow> R p r"
    and R_bad: "\<not> good_cursor D paths (ps_cursor p) \<Longrightarrow> R p q"
    and R_asked: "R p (p\<lparr>ps_asked := k\<rparr>)"
    and R_deferred: "R p (p\<lparr>ps_deferred := b\<rparr>)"
    and R_errors: "R p (p\<lparr>ps_errors := es\<rparr>)"
    and R_cursor: "(good_cursor D paths (ps_cursor p) \<Longrightarrow> good_cursor D paths c) \<Longrightarrow> R p (p\<lparr>ps_cursor := c\<rparr>)"
    and R_spend: "mr_actions (ps_report p) < MAX_ACTIONS \<Longrightarrow> R p (p\<lparr>ps_report := mr_actions_update Suc (ps_report p)\<rparr>)"
    and R_count: "counted \<in> counters \<Longrightarrow> mr_actions (ps_report p) < MAX_ACTIONS
      \<Longrightarrow> R (p\<lparr>ps_report := mr_actions_update Suc (ps_report p)\<rparr>) r
      \<Longrightarrow> R p (r\<lparr>ps_report := counted (ps_report r)\<rparr>)"
begin

lemma keeps_ret: "keeps R (ret x)"
  by (simp add: keeps_def ret_def R_refl)

lemma keeps_fail: "keeps R (fail_with e)"
  by (simp add: keeps_def fail_with_def R_refl)

lemma keeps_ask: "keeps R (ask f)"
  by (simp add: keeps_def ask_def R_asked)

lemma keeps_inspect: "keeps R (inspect f)"
  by (simp add: keeps_def inspect_def R_refl)

lemma keeps_bind:
  assumes "keeps R m" and "\<And>x. keeps R (f x)"
  shows "keeps R (bind_action m f)"
  unfolding keeps_def
proof
  fix p
  obtain r q where mp: "m p = (r, q)" by (cases "m p")
  with assms(1) have "R p q" unfolding keeps_def by (metis snd_conv)
  then show "R p (snd (bind_action m f p))"
    using assms(2) R_trans unfolding keeps_def by (cases r) (auto simp: bind_action_def mp)
qed

text \<open>What follows an action only matters from the states of which the relation says something.\<close>

lemma keeps_bind_result:
  assumes "keeps R m" and "\<And>p q x p'. \<not> R p q \<Longrightarrow> m p = (Inr x, p') \<Longrightarrow> keeps R (f x)"
  shows "keeps R (bind_action m f)"
  unfolding keeps_def
proof (rule allI, rule ccontr)
  fix p assume not_kept: "\<not> R p (snd (bind_action m f p))"
  obtain r q where m: "m p = (r, q)" by (cases "m p")
  with assms(1) have pq: "R p q" unfolding keeps_def by (metis snd_conv)
  show False
  proof (cases r)
    case (Inl e)
    then show False using not_kept pq by (simp add: bind_action_def m)
  next
    case (Inr x)
    then have "R q (snd (f x q))" using assms(2)[OF not_kept] m by (simp add: keeps_def)
    then show False using not_kept R_trans[OF pq] by (simp add: bind_action_def m Inr)
  qed
qed

lemma keeps_if: "(b \<Longrightarrow> keeps R m) \<Longrightarrow> (\<not> b \<Longrightarrow> keeps R m') \<Longrightarrow> keeps R (if b then m else m')"
  by simp

lemma keeps_sum: "(\<And>e. keeps R (f e)) \<Longrightarrow> (\<And>x. keeps R (g x)) \<Longrightarrow> keeps R (case s of Inl e \<Rightarrow> f e | Inr x \<Rightarrow> g x)"
  by (cases s) simp_all

lemma keeps_option: "keeps R a \<Longrightarrow> (\<And>x. keeps R (g x)) \<Longrightarrow> keeps R (case s of None \<Rightarrow> a | Some x \<Rightarrow> g x)"
  by (cases s) simp_all

lemma keeps_attempt: "keeps R m \<Longrightarrow> keeps R (attempt_action m)"
  by (simp add: keeps_def attempt_action_def split: prod.splits) (metis snd_conv)

lemma keeps_context: "keeps R m \<Longrightarrow> keeps R (with_context msg m)"
  by (simp add: keeps_def with_context_def split: prod.splits) (metis snd_conv)

lemma keeps_lift: "keeps R (lift_store r)"
  by (cases r) (simp_all add: lift_store_def keeps_ret keeps_fail)

lemma keeps_bind_lift: "(\<And>x. r = Inr x \<Longrightarrow> keeps R (f x)) \<Longrightarrow> keeps R (bind_action (lift_store r) f)"
  by (rule keeps_bind_result[OF keeps_lift]) (auto simp: lift_store_def ret_def fail_with_def split: sum.splits)

lemma keeps_query: "keeps R (store_query X f)"
  unfolding store_query_def
  by (intro keeps_bind keeps_ask) (auto split: option.splits intro!: keeps_bind keeps_fail keeps_inspect keeps_lift)

lemma keeps_remaining: "keeps R (remaining X)"
  unfolding remaining_def by (intro keeps_bind keeps_inspect) (auto intro!: keeps_bind keeps_ret keeps_ask keeps_inspect)

lemma keeps_unit_ready: "keeps R (unit_ready X)"
  unfolding unit_ready_def
  by (intro keeps_bind keeps_inspect) (auto intro!: keeps_bind keeps_ret keeps_ask keeps_lift)

lemma keeps_ready: "keeps R (ready X)"
  unfolding ready_def by (intro keeps_bind keeps_remaining) (auto intro: keeps_unit_ready keeps_ret)

lemma keeps_defer: "keeps R (unless_ready_defer X)"
  unfolding unless_ready_defer_def by (intro keeps_bind keeps_unit_ready) (auto intro: keeps_fail keeps_ret)

lemma keeps_record: "keeps R (record_error msg e)"
  by (simp add: keeps_def record_error_def change_def R_deferred R_errors)

lemma keeps_file_system: "keeps R (file_system X f)"
  unfolding file_system_def
  by (intro keeps_bind keeps_ask) (auto split: option.splits intro: keeps_fail keeps_inspect)

lemma keeps_looks: "keeps R (file_kind_of X path)" "keeps R (is_safe_directory X path)" "keeps R (sync_directory X)"
  unfolding file_kind_of_def is_safe_directory_def sync_directory_def by (rule keeps_file_system)+

lemma keeps_require: "keeps R (require_directory X path)"
  unfolding require_directory_def by (intro keeps_bind keeps_looks) (auto intro: keeps_ret keeps_fail)

lemma keeps_finish: "keeps R finish"
  by (simp add: keeps_def finish_def R_refl)

lemma keeps_set_cursor:
  assumes "\<And>c. good_cursor D paths c \<Longrightarrow> good_cursor D paths (f c)"
  shows "keeps R (set_cursor f)"
proof -
  have "ps_cursor_update f p = p\<lparr>ps_cursor := f (ps_cursor p)\<rparr>" for p :: pass by simp
  then show ?thesis using assms R_cursor unfolding keeps_def change_def by (metis snd_conv)
qed

lemmas keeps_rules = keeps_ret keeps_fail keeps_ask keeps_inspect keeps_bind keeps_attempt keeps_context keeps_lift
  keeps_query keeps_remaining keeps_unit_ready keeps_ready keeps_defer keeps_record keeps_file_system keeps_looks
  keeps_require keeps_finish

end

lemma store_query_result: "store_query X f p = (Inr x, q) \<Longrightarrow> f (ps_db p) = Inr x \<and> ps_db q = ps_db p"
  by (auto simp: store_query_def bind_action_def ask_def inspect_def lift_store_def ret_def fail_with_def
      split: option.splits sum.splits)

text \<open>An action is only taken while the budget lasts.\<close>

lemma remaining_less:
  assumes "remaining X p = (Inr n, q)" and "0 < n"
  shows "mr_actions (ps_report q) < MAX_ACTIONS"
  using assms by (auto simp: remaining_def bind_action_def inspect_def ask_def ret_def split: if_splits)

lemma unit_ready_report: "ps_report (snd (unit_ready X p)) = ps_report p"
  by (auto simp: unit_ready_def bind_action_def inspect_def ask_def ret_def lift_store_def fail_with_def split: sum.splits)

lemma ready_budget: "ready X p = (Inr True, q) \<Longrightarrow> mr_actions (ps_report q) < MAX_ACTIONS"
  unfolding ready_def bind_action_def
  by (auto split: prod.splits sum.splits if_splits simp: ret_def dest: remaining_less)
    (metis remaining_less unit_ready_report snd_conv)

lemma take_action_cases:
  obtains (taken) q where "snd (ready X p) = q" and "mr_actions (ps_report q) < MAX_ACTIONS"
      and "take_action X p = (Inr True, q\<lparr>ps_report := mr_actions_update Suc (ps_report q)\<rparr>)"
  | (refused) q where "snd (ready X p) = q" and "take_action X p = (Inr False, q\<lparr>ps_deferred := True\<rparr>)"
  | (broken) q e where "snd (ready X p) = q"
      and "take_action X p = (Inr False, snd (record_error ''check maintenance admission'' e q))"
proof (cases "ready X p")
  case (Pair r q)
  show ?thesis
  proof (cases r)
    case (Inl e)
    then show ?thesis
      using Pair broken[of q e] by (simp add: take_action_def bind_action_def attempt_action_def ret_def record_error_def change_def)
  next
    case (Inr ok)
    then show ?thesis
      using Pair taken[of q] refused[of q] ready_budget[of X p q]
      by (cases ok) (simp_all add: take_action_def bind_action_def attempt_action_def ret_def change_def)
  qed
qed

context pass_relation
begin

lemma keeps_take: "keeps R (take_action X)"
  unfolding keeps_def
proof
  fix p
  have q: "R p (snd (ready X p))" using keeps_ready by (simp add: keeps_def)
  show "R p (snd (take_action X p))"
  proof (cases rule: take_action_cases[of X p])
    case (taken q)
    then show ?thesis using R_trans[OF q] R_spend[of q] by simp
  next
    case (refused q)
    then show ?thesis using R_trans[OF q] R_deferred[of q] by simp
  next
    case (broken q e)
    then show ?thesis using R_trans[OF q] keeps_record[of "''check maintenance admission''" e] by (simp add: keeps_def)
  qed
qed

lemma paid_keeps: "keeps R m \<Longrightarrow> paid R X m"
  using keeps_take unfolding paid_def keeps_def by (metis R_trans snd_conv)

lemma paid_count:
  assumes "counted \<in> counters"
  shows "paid R X (change (ps_report_update counted))"
  unfolding paid_def
proof (intro allI impI)
  fix p q r assume q: "take_action X p = (Inr True, q)" and r: "R q r"
  have ready: "R p (snd (ready X p))" using keeps_ready by (simp add: keeps_def)
  from q show "R p (snd (change (ps_report_update counted) r))"
  proof (cases rule: take_action_cases[of X p])
    case (taken q0)
    have "R q0 (r\<lparr>ps_report := counted (ps_report r)\<rparr>)"
      by (rule R_count[OF assms taken(2)]) (use q r taken(3) in simp)
    then have "R p (r\<lparr>ps_report := counted (ps_report r)\<rparr>)" using R_trans[OF ready] taken(1) by metis
    moreover have "ps_report_update counted r = r\<lparr>ps_report := counted (ps_report r)\<rparr>" by simp
    ultimately show ?thesis unfolding change_def snd_conv by metis
  qed simp_all
qed

lemma paid_bind_later: "keeps R m \<Longrightarrow> (\<And>x. paid R X (f x)) \<Longrightarrow> paid R X (bind_action m f)"
  unfolding paid_def keeps_def bind_action_def
  by (auto split: prod.splits sum.splits) (metis R_trans keeps_def keeps_take snd_conv)+

lemma paid_bind_now: "paid R X m \<Longrightarrow> (\<And>x. keeps R (f x)) \<Longrightarrow> paid R X (bind_action m f)"
  unfolding paid_def keeps_def bind_action_def
  by (auto split: prod.splits sum.splits) (metis R_trans snd_conv)+

text \<open>What follows a taken action may count one result.\<close>

lemma keeps_spend:
  assumes "keeps R no" and "paid R X yes"
  shows "keeps R (bind_action (take_action X) (\<lambda>ok. if \<not> ok then no else yes))"
  unfolding keeps_def
proof
  fix p
  obtain ok q where take: "take_action X p = (Inr ok, q)" by (cases rule: take_action_cases[of X p]) auto
  have "R p q" using keeps_take take unfolding keeps_def by (metis snd_conv)
  then show "R p (snd (bind_action (take_action X) (\<lambda>ok. if \<not> ok then no else yes) p))"
    using assms take R_refl R_trans unfolding keeps_def paid_def by (cases ok) (auto simp: bind_action_def)
qed

lemma keeps_spend_each:
  assumes "\<And>c. c \<in> set cs \<Longrightarrow> keeps R (body c)" and "\<And>x. counted x \<in> counters"
  shows "keeps R (spend_each X body counted msg cs)"
  using assms(1)
proof (induction cs)
  case Nil
  then show ?case by (simp add: keeps_ret)
next
  case (Cons c cs)
  have rest: "keeps R (spend_each X body counted msg cs)" using Cons by simp
  have "paid R X (case r of Inr x \<Rightarrow> change (ps_report_update (counted x)) | Inl e \<Rightarrow> record_error (msg c) e)" for r
    using assms(2) by (cases r) (auto intro: paid_count paid_keeps keeps_record)
  then have "paid R X (bind_action (attempt_action (body c)) (\<lambda>r.
      bind_action (case r of Inr x \<Rightarrow> change (ps_report_update (counted x)) | Inl e \<Rightarrow> record_error (msg c) e)
        (\<lambda>_. spend_each X body counted msg cs)))"
    using Cons.prems rest by (intro paid_bind_later paid_bind_now keeps_attempt) auto
  from keeps_spend[OF keeps_ret this] show ?case by simp
qed

end


section \<open>Effects\<close>

text \<open>A path at which the relation allows any change.\<close>

definition free_path :: "(pass \<Rightarrow> pass \<Rightarrow> bool) \<Rightarrow> string \<Rightarrow> bool" where
  "free_path R path \<longleftrightarrow> (\<forall>p object. R p (p\<lparr>ps_files := (ps_files p)(path := object)\<rparr>))"

context pass_relation
begin

lemma keeps_change: "(\<And>p. R p (f p)) \<Longrightarrow> keeps R (change f)"
  by (simp add: keeps_def change_def)

lemma free_change: "free_path R path \<Longrightarrow> keeps R (change (ps_files_update (\<lambda>fs. fs(path := g fs))))"
proof (rule keeps_change)
  fix p assume "free_path R path"
  then have "R p (p\<lparr>ps_files := (ps_files p)(path := g (ps_files p))\<rparr>)" by (simp add: free_path_def)
  moreover have "ps_files_update (\<lambda>fs. fs(path := g fs)) p = p\<lparr>ps_files := (ps_files p)(path := g (ps_files p))\<rparr>" by simp
  ultimately show "R p (ps_files_update (\<lambda>fs. fs(path := g fs)) p)" by metis
qed

lemma keeps_remove_file: "free_path R path \<Longrightarrow> keeps R (remove_file X path)"
  unfolding remove_file_def change_files_def by (intro keeps_bind keeps_file_system free_change)

lemma keeps_rename:
  assumes "free_path R a" and "free_path R b"
  shows "keeps R (rename X a b)"
proof -
  have "R p (p\<lparr>ps_files := (ps_files p)(b := ps_files p a, a := FsMissing)\<rparr>)" for p
  proof (rule R_trans)
    let ?q = "p\<lparr>ps_files := (ps_files p)(b := ps_files p a)\<rparr>"
    show "R p ?q" using assms(2) by (simp add: free_path_def)
    have "R ?q (?q\<lparr>ps_files := (ps_files ?q)(a := FsMissing)\<rparr>)" using assms(1) unfolding free_path_def by blast
    then show "R ?q (p\<lparr>ps_files := (ps_files p)(b := ps_files p a, a := FsMissing)\<rparr>)" by simp
  qed
  moreover have "ps_files_update (\<lambda>fs. fs(b := fs a, a := FsMissing)) p = p\<lparr>ps_files := (ps_files p)(b := ps_files p a, a := FsMissing)\<rparr>"
    for p :: pass by simp
  ultimately have "keeps R (change (ps_files_update (\<lambda>fs. fs(b := fs a, a := FsMissing))))"
    by (intro keeps_change) metis
  then show ?thesis unfolding rename_def change_files_def by (intro keeps_bind keeps_file_system)
qed

lemma keeps_repair: "free_path R path \<Longrightarrow> keeps R (repair_file H X path)"
  unfolding repair_file_def
  by (intro keeps_bind keeps_file_system keeps_ask)
    (auto split: fs_object.splits prod.splits intro!: keeps_bind keeps_sum keeps_fail keeps_ret free_change)

lemma keeps_write:
  assumes "\<And>p s'. f (ps_db p) = Inr s' \<Longrightarrow> R p (p\<lparr>ps_db := s'\<rparr>)"
  shows "keeps R (store_write X f)"
  unfolding keeps_def
proof
  fix p
  have query: "R p (snd (store_query X f p))" using keeps_query[of X f] by (simp add: keeps_def)
  obtain r q where rq: "store_query X f p = (r, q)" by fastforce
  show "R p (snd (store_write X f p))"
  proof (cases r)
    case (Inr s')
    with rq have "f (ps_db q) = Inr s'" using store_query_result[of X f p s' q] by simp
    then show ?thesis using R_trans[OF query] assms rq Inr by (simp add: store_write_def bind_action_def change_def)
  qed (use query rq in \<open>simp add: store_write_def bind_action_def\<close>)
qed

lemma keeps_unless_conflict:
  assumes "\<And>p s'. f (ps_db p) = Inr s' \<Longrightarrow> R p (p\<lparr>ps_db := s'\<rparr>)"
  shows "keeps R (unless_conflict X f)"
  unfolding keeps_def
proof
  fix p
  let ?q = "\<lambda>s. case f s of Inl (StoreConflict _) \<Rightarrow> Inr None | Inl e \<Rightarrow> Inl e | Inr s' \<Rightarrow> Inr (Some s')"
  have query: "R p (snd (store_query X ?q p))" using keeps_query[of X ?q] by (simp add: keeps_def)
  obtain r q where rq: "store_query X ?q p = (r, q)" by fastforce
  show "R p (snd (unless_conflict X f p))"
  proof (cases "\<exists>s'. r = Inr (Some s')")
    case True
    then obtain s' where r: "r = Inr (Some s')" ..
    with rq store_query_result[of X ?q p "Some s'" q] have "f (ps_db q) = Inr s'"
      by (auto split: sum.splits store_error.splits)
    then show ?thesis
      using R_trans[OF query] assms by (simp add: unless_conflict_def bind_action_def rq r change_def ret_def)
  next
    case False
    then show ?thesis
      using query by (cases r) (auto simp: unless_conflict_def bind_action_def rq ret_def split: option.splits)
  qed
qed

lemma keeps_repair_found:
  "free_path R partial \<Longrightarrow> free_path R final \<Longrightarrow> keeps R (repair_found H X partial final k1 k2)"
  unfolding repair_found_def
  by (cases k1; cases k2) (auto intro!: keeps_bind keeps_defer keeps_context keeps_repair keeps_rename keeps_looks keeps_ret keeps_fail)

lemma keeps_recover_output:
  assumes "\<And>k path. u16_try_from (orc_attempt c) = Some k \<Longrightarrow>
      partial_output D paths (orc_run c) k = Inr path \<or> final_output D paths (orc_run c) k = Inr path \<Longrightarrow> free_path R path"
    and "keeps R (store_write X (reconcile_output_missing (orc_run c) (orc_attempt c) now))"
    and "\<And>out. out_run out = orc_run c \<Longrightarrow> out_number out = orc_attempt c \<Longrightarrow> keeps R (store_write X (reconcile_output_finalized out now))"
  shows "keeps R (recover_output D H X paths now c)"
proof (cases "u16_try_from (orc_attempt c)")
  case None
  then show ?thesis by (simp add: recover_output_def Let_def keeps_bind keeps_defer keeps_fail)
next
  case (Some k)
  have missing: "keeps R (note_missing X (orc_run c) (orc_attempt c) now)"
    unfolding note_missing_def by (intro keeps_bind assms(2) keeps_ret)
  have finalized: "keeps R (store_write X (reconcile_output_finalized (recovered_record (orc_run c) (orc_attempt c) repaired) now))"
    for repaired by (rule assms(3)) (simp_all add: recovered_record_def)
  show ?thesis
    unfolding recover_output_def Let_def Some option.case
    by (intro keeps_bind[OF keeps_defer] keeps_bind_lift keeps_if keeps_fail missing keeps_bind[OF keeps_looks(2)]
        keeps_bind[OF keeps_looks(1)] keeps_bind[OF keeps_repair_found] keeps_option keeps_bind[OF finalized] keeps_ret)
      (use assms(1)[OF Some] in auto)
qed

lemma keeps_remove_output:
  assumes "\<And>k path. u16_try_from (rc_attempt c) = Some k \<Longrightarrow> final_output D paths (rc_run c) k = Inr path \<Longrightarrow> free_path R path"
    and "keeps R (store_write X (mark_output_prune_pending c now))" and "keeps R (store_write X (finish_output_prune c now))"
  shows "keeps R (remove_and_finish_output D X paths now mark c)"
proof (cases "u16_try_from (rc_attempt c)")
  case None
  then show ?thesis by (simp add: remove_and_finish_output_def Let_def keeps_fail)
next
  case (Some k)
  show ?thesis
    unfolding remove_and_finish_output_def Let_def Some option.case
    using assms(2,3) assms(1)[OF Some]
    by (intro keeps_bind_lift keeps_if keeps_fail keeps_bind[OF keeps_if] keeps_bind[OF keeps_defer] keeps_bind[OF keeps_file_system] keeps_ret)
      (auto split: fs_object.splits file_kind.splits
        intro!: keeps_bind keeps_fail keeps_looks keeps_context keeps_remove_file)
qed

lemma paid_remove_orphan: "free_path R path \<Longrightarrow> paid R X (remove_orphan X path)"
proof -
  assume "free_path R path"
  moreover have "mr_orphans_removed_update Suc \<in> counters" by (simp add: counters_def)
  ultimately show ?thesis
    unfolding remove_orphan_def
    by (intro paid_bind_later keeps_attempt keeps_remove_file)
      (auto split: sum.splits intro!: paid_keeps[OF keeps_record] paid_bind_now paid_count keeps_bind keeps_attempt keeps_looks
        keeps_sum keeps_ret keeps_record)
qed

text \<open>An entry of the sweep changes its file only where no row refers to it.\<close>

lemma keeps_scan_entry:
  assumes "\<And>p q. \<not> R p q \<Longrightarrow> is_canonical_output_name name
      \<Longrightarrow> \<not> output_artifact_references rid (rid @ ''/'' @ name) (ps_db p) \<Longrightarrow> free_path R (path_join directory name)"
  shows "keeps R (scan_entry X cutoff directory rid name)"
proof (cases "is_canonical_output_name name")
  case True
  let ?path = "path_join directory name"
  let ?ask = "attempt_action (store_query X (\<lambda>s. Inr (output_artifact_references rid (rid @ ''/'' @ name) s)))"
  have time: "keeps R (modified_time X ?path)"
    unfolding modified_time_def
    by (intro keeps_bind keeps_file_system) (auto split: fs_object.splits intro: keeps_context keeps_file_system keeps_fail)
  have remove: "free_path R ?path \<Longrightarrow> keeps R (bind_action (modified_time X ?path) (\<lambda>modified.
      if modified > cutoff then ret GoOn
      else bind_action (take_action X) (\<lambda>ok. if \<not> ok then ret PutBack
        else bind_action (remove_orphan X ?path) (\<lambda>_. ret GoOn))))"
    by (intro keeps_bind[OF time] keeps_if keeps_spend keeps_ret paid_bind_now paid_remove_orphan)
  have "keeps R (bind_action ?ask (\<lambda>referenced.
          case referenced of
            Inr True \<Rightarrow> ret GoOn
          | Inl e \<Rightarrow> bind_action (record_error ''verify output artifact reference'' e) (\<lambda>_. ret PutBack)
          | Inr False \<Rightarrow> bind_action (modified_time X ?path) (\<lambda>modified.
              if modified > cutoff then ret GoOn
              else bind_action (take_action X) (\<lambda>ok. if \<not> ok then ret PutBack
                else bind_action (remove_orphan X ?path) (\<lambda>_. ret GoOn)))))"
  proof (rule keeps_bind_result[OF keeps_attempt[OF keeps_query]])
    fix p q x p' assume not_kept: "\<not> R p q" and "?ask p = (Inr x, p')"
    then have "x = Inr False \<Longrightarrow> \<not> output_artifact_references rid (rid @ ''/'' @ name) (ps_db p)"
      by (auto simp: attempt_action_def split: prod.splits dest: store_query_result)
    with assms[OF not_kept True] remove
    show "keeps R (case x of Inr True \<Rightarrow> ret GoOn
          | Inl e \<Rightarrow> bind_action (record_error ''verify output artifact reference'' e) (\<lambda>_. ret PutBack)
          | Inr False \<Rightarrow> bind_action (modified_time X ?path) (\<lambda>modified.
              if modified > cutoff then ret GoOn
              else bind_action (take_action X) (\<lambda>ok. if \<not> ok then ret PutBack
                else bind_action (remove_orphan X ?path) (\<lambda>_. ret GoOn))))"
      by (cases x) (auto split: bool.splits intro: keeps_ret keeps_bind keeps_record)
  qed
  then show ?thesis
    unfolding scan_entry_def Let_def using True by (simp add: keeps_bind keeps_looks keeps_ret)
qed (simp add: scan_entry_def keeps_ret)

end


section \<open>Relations kept by a pass\<close>

text \<open>
  The effects of a pass one by one: the recovery of a candidate that may be recovered, the
  deletion of one output, the deletion of one run, and one entry of the sweep.
\<close>

locale pass_effects = pass_relation +
  fixes H :: "'h hasher" and X :: outside and lid :: string and now :: int
    and allowed :: "output_recovery_candidate \<Rightarrow> bool"
  assumes listed_allowed: "\<not> R p q \<Longrightarrow> c \<in> set (referenced_partial_artifacts limit lid (ps_db p)) \<Longrightarrow> allowed c"
    and keeps_recover: "allowed c \<Longrightarrow> keeps R (recover_output D H X paths now c)"
    and keeps_remove: "keeps R (remove_and_finish_output D X paths now mark rc)"
    and keeps_reserve: "keeps R (store_write X (mark_run_retention_pending rrc now))"
    and keeps_delete: "keeps R (unless_conflict X (finish_run_retention rrc))"
    and keeps_entry: "is_canonical_uuid D rid \<Longrightarrow> keeps R (scan_entry X cutoff (path_join (sp_outputs paths) rid) rid name)"
begin

lemma counters_simps:
  "mr_outputs_pruned_update Suc \<in> counters" "count_recovered b \<in> counters" "count_run b \<in> counters"
  by (simp_all add: counters_def count_recovered_def count_run_def)

text \<open>Where the relation says something, the candidates listed are those that may be recovered.\<close>

lemma keeps_recover_phase: "keeps R (recover_referenced_outputs D H X paths lid now)"
proof -
  let ?query = "\<lambda>limit. with_context ''list referenced partial outputs'' (store_query X (\<lambda>s. Inr (referenced_partial_artifacts limit lid s)))"
  let ?loop = "\<lambda>candidates. spend_each X (recover_output D H X paths now) count_recovered
         (\<lambda>c. ''recover output '' @ orc_run c @ ''/'' @ show_int (orc_attempt c)) candidates"
  have "keeps R (bind_action (?query limit) ?loop)" for limit
  proof (rule keeps_bind_result[OF keeps_context[OF keeps_query]])
    fix p q candidates p' assume not_kept: "\<not> R p q" and "?query limit p = (Inr candidates, p')"
    then have "candidates = referenced_partial_artifacts limit lid (ps_db p)"
      by (auto simp: with_context_def map_err_eq_Inr split: prod.splits dest: store_query_result)
    then show "keeps R (?loop candidates)"
      by (intro keeps_spend_each) (use listed_allowed[OF not_kept] keeps_recover counters_simps in auto)
  qed
  then show ?thesis unfolding recover_referenced_outputs_def by (rule keeps_bind[OF keeps_remaining])
qed

lemma keeps_prune_over: "keeps R (prune_over_limits D X paths now cutoff limit retained cs)"
proof (induction cs arbitrary: retained)
  case (Cons c cs)
  let ?yes = "bind_action (attempt_action (remove_and_finish_output D X paths now True c)) (\<lambda>r.
          case r of
            Inr _ \<Rightarrow>
              bind_action (change (ps_report_update (mr_outputs_pruned_update Suc))) (\<lambda>_.
                prune_over_limits D X paths now cutoff limit (i64_saturating (retained - rc_physical c)) cs)
          | Inl e \<Rightarrow>
              bind_action (record_error ''prune retained output'' e) (\<lambda>_.
                prune_over_limits D X paths now cutoff limit retained cs))"
  have "paid R X ?yes"
    by (intro paid_bind_later keeps_attempt keeps_remove)
      (auto split: sum.splits intro: paid_bind_now[OF paid_count[OF counters_simps(1)]] paid_keeps keeps_bind keeps_record Cons.IH)
  from keeps_spend[OF keeps_ret this] Cons.IH show ?case by simp
qed (simp add: keeps_ret)

lemma keeps_prune_phases:
  "keeps R (resume_output_prunes D X paths now)" "keeps R (prune_pending_run_outputs D X paths now ids)"
  "keeps R (prune_output_limits D X paths now)"
  unfolding resume_output_prunes_def prune_pending_run_outputs_def prune_output_limits_def
  by (intro keeps_bind keeps_if keeps_remaining keeps_context keeps_query keeps_ret keeps_spend_each keeps_remove
      keeps_prune_over counters_simps)+

lemma keeps_run_phases: "keeps R (finish_pending_runs X rcs)" "keeps R (select_run_retention X now)"
  unfolding finish_pending_runs_def select_run_retention_def reserve_and_delete_def
  by (auto intro!: keeps_bind keeps_remaining keeps_context keeps_query keeps_spend_each keeps_delete keeps_reserve
      keeps_attempt keeps_record keeps_ret counters_simps split: sum.splits)

lemma good_cursor_simps:
  "good_cursor D paths c \<Longrightarrow> good_cursor D paths (c\<lparr>mc_directories := ds\<rparr>)"
  "good_cursor D paths c \<Longrightarrow> good_cursor D paths (c\<lparr>mc_directories := ds, mc_outputs := os\<rparr>)"
  "good_cursor D paths c \<Longrightarrow> good_cursor D paths (c\<lparr>mc_guard := b, mc_outputs := os\<rparr>)"
  "good_cursor D paths (c\<lparr>mc_current := None\<rparr>)"
  "good_cursor D paths (c\<lparr>mc_current := None, mc_directories := ds\<rparr>)"
  "is_canonical_uuid D rid \<Longrightarrow> good_cursor D paths
     (c\<lparr>mc_current := Some \<lparr>rs_directory = path_join (sp_outputs paths) rid, rs_run = rid, rs_entries = es\<rparr>\<rparr>)"
  by (simp_all add: good_cursor_def)

lemma keeps_scan_run:
  assumes "is_canonical_uuid D rid"
  shows "keeps R (scan_run X cutoff (path_join (sp_outputs paths) rid) rid entries)"
proof (induction entries)
  case Nil
  show ?case
    by (auto intro!: keeps_bind keeps_set_cursor keeps_ready keeps_looks keeps_ret simp: good_cursor_simps assms)
next
  case (Cons entry entries)
  have "keeps R (scan_entry X cutoff (path_join (sp_outputs paths) rid) rid name)" for name
    by (rule keeps_entry[OF assms])
  with Cons.IH show ?case
    unfolding scan_run.simps
    by (intro keeps_bind keeps_if keeps_sum keeps_set_cursor keeps_ready keeps_looks keeps_ret keeps_fail)
      (auto simp: good_cursor_simps assms split: scan_reply.splits
        intro!: keeps_bind keeps_if keeps_set_cursor keeps_ready keeps_ret)
qed

lemma keeps_scan_directories: "keeps R (scan_directories D X paths cutoff names)"
proof (induction names)
  case Nil
  show ?case by (auto intro!: keeps_bind keeps_set_cursor keeps_ready keeps_ret simp: good_cursor_simps)
next
  case (Cons name names)
  have "keeps R (case g of GuardSkip \<Rightarrow> scan_directories D X paths cutoff names
      | GuardError e \<Rightarrow> fail_with (failing ''validate orphan output directory'')
      | GuardOk \<Rightarrow> bind_action (file_system X (\<lambda>_. ())) (\<lambda>_. bind_action (ask (ou_entries X)) (\<lambda>listing.
          bind_action (scan_run X cutoff (path_join (sp_outputs paths) rid) rid (listing (path_join (sp_outputs paths) rid))) (\<lambda>go_on.
            if go_on then scan_directories D X paths cutoff names else ret ()))))"
    if "is_canonical_uuid D rid" for g rid
    using that Cons.IH
    by (cases g) (auto intro!: keeps_bind keeps_if keeps_ret keeps_fail keeps_ask keeps_file_system keeps_scan_run)
  with Cons.IH show ?case
    unfolding scan_directories.simps Let_def
    by (intro keeps_bind keeps_if keeps_sum keeps_set_cursor keeps_ready keeps_looks keeps_ret keeps_fail keeps_ask)
      (simp_all add: good_cursor_simps)
qed

lemma keeps_resumed_scan:
  "R p (snd (case mc_current (ps_cursor p) of
     None \<Rightarrow> scan_directories D X paths cutoff names p
   | Some scan \<Rightarrow>
       bind_action (ready X) (\<lambda>again.
         if \<not> again then ret ()
         else bind_action (scan_run X cutoff (rs_directory scan) (rs_run scan) (rs_entries scan)) (\<lambda>go_on.
           if go_on then scan_directories D X paths cutoff names else ret ())) p))"
proof (cases "mc_current (ps_cursor p)")
  case None
  then show ?thesis using keeps_scan_directories by (simp add: keeps_def)
next
  case (Some scan)
  show ?thesis
  proof (cases "good_cursor D paths (ps_cursor p)")
    case True
    with Some have scan: "rs_directory scan = path_join (sp_outputs paths) (rs_run scan)" "is_canonical_uuid D (rs_run scan)"
      by (auto simp: good_cursor_def)
    have "keeps R (bind_action (ready X) (\<lambda>again.
         if \<not> again then ret ()
         else bind_action (scan_run X cutoff (rs_directory scan) (rs_run scan) (rs_entries scan)) (\<lambda>go_on.
           if go_on then scan_directories D X paths cutoff names else ret ())))"
      unfolding scan(1) by (auto intro!: keeps_bind keeps_ready keeps_ret keeps_scan_directories keeps_scan_run scan(2))
    then show ?thesis using Some by (simp add: keeps_def)
  qed (rule R_bad)
qed

lemma keeps_orphans: "keeps R (remove_verified_orphans D X paths now)"
proof -
  let ?resume = "\<lambda>cutoff names current. case current of
             None \<Rightarrow> scan_directories D X paths cutoff names
           | Some scan \<Rightarrow>
               bind_action (ready X) (\<lambda>again.
                 if \<not> again then ret ()
                 else bind_action (scan_run X cutoff (rs_directory scan) (rs_run scan) (rs_entries scan)) (\<lambda>go_on.
                   if go_on then scan_directories D X paths cutoff names else ret ()))"
  have resume: "keeps R (bind_action (inspect (\<lambda>p. mc_current (ps_cursor p))) (?resume cutoff names))" for cutoff names
    unfolding keeps_def
  proof
    fix p
    show "R p (snd (bind_action (inspect (\<lambda>p. mc_current (ps_cursor p))) (?resume cutoff names) p))"
      using keeps_resumed_scan[of p cutoff names] by (simp add: bind_action_def inspect_def split: option.splits)
  qed
  have names: "keeps R (case known of
             Some names \<Rightarrow> ret names
           | None \<Rightarrow>
               bind_action (file_system X (\<lambda>_. ())) (\<lambda>_.
               bind_action (ask (ou_entries X)) (\<lambda>listing.
               bind_action (set_cursor (\<lambda>c. c\<lparr>mc_directories := Some (listing (sp_outputs paths)), mc_outputs := Some (sp_outputs paths)\<rparr>))
                 (\<lambda>_. ret (listing (sp_outputs paths))))))" for known
    by (intro keeps_bind keeps_option keeps_ret keeps_file_system keeps_ask keeps_set_cursor) (simp add: good_cursor_simps)
  show ?thesis
    unfolding remove_verified_orphans_def Let_def
    by (intro keeps_bind[OF keeps_ready] keeps_if keeps_ret keeps_bind[OF keeps_inspect] keeps_bind[OF names] resume)
qed

lemma keeps_phase: "keeps R m \<Longrightarrow> keeps R next_phase \<Longrightarrow> keeps R (phase m next_phase)"
  unfolding phase_def by (intro keeps_bind keeps_attempt keeps_sum keeps_if keeps_finish keeps_fail)

lemma keeps_when_ready: "keeps R m \<Longrightarrow> keeps R (when_ready X m)"
  unfolding when_ready_def by (intro keeps_bind keeps_ready keeps_if keeps_finish)

lemma keeps_output_root: "keeps R (admit_output_root X paths)"
  unfolding admit_output_root_def
  by (intro keeps_bind keeps_inspect keeps_if keeps_ret keeps_ask keeps_context keeps_require)
    (auto split: guard_reply.splits intro!: keeps_fail keeps_set_cursor simp: good_cursor_simps)

lemma keeps_maintain: "keeps R (maintain_inner D H X paths lid now)"
  unfolding maintain_inner_def
  by (intro keeps_bind keeps_output_root keeps_when_ready keeps_phase keeps_prune_phases keeps_recover_phase keeps_attempt
      keeps_context keeps_query keeps_sum keeps_if keeps_finish keeps_fail keeps_run_phases keeps_orphans)

lemma pass_kept: "R (Pass_new w c) (snd (maintain_inner D H X paths lid now (Pass_new w c)))"
  using keeps_maintain by (simp add: keeps_def)

end

text \<open>
  A relation that does not look at the files and holds for every transaction of the store is
  kept by every effect.
\<close>

locale store_relation = pass_relation +
  assumes R_files: "R p (p\<lparr>ps_files := fs\<rparr>)"
    and R_step: "store_step D False (ps_db p) s' \<Longrightarrow> R p (p\<lparr>ps_db := s'\<rparr>)"
begin

lemma all_free: "free_path R path"
  by (simp add: free_path_def R_files)

lemma keeps_step: "(\<And>s s'. f s = Inr s' \<Longrightarrow> store_step D False s s') \<Longrightarrow> keeps R (store_write X f)"
  by (rule keeps_write) (rule R_step)

end

sublocale store_relation \<subseteq> effects: pass_effects D paths R H X lid now "\<lambda>_. True" for H X lid now
proof unfold_locales
  show "keeps R (recover_output D H X paths now c)" for c
    by (intro keeps_recover_output all_free keeps_step) (erule step_missing step_finalized)+
  show "keeps R (remove_and_finish_output D X paths now mark rc)" for mark rc
    by (intro keeps_remove_output all_free keeps_step) (erule step_prune step_pruned)+
  show "keeps R (store_write X (mark_run_retention_pending rrc now))" for rrc
    by (rule keeps_step) (erule step_reserve)
  show "keeps R (unless_conflict X (finish_run_retention rrc))" for rrc
    by (rule keeps_unless_conflict, rule R_step) (erule step_delete)
  show "keeps R (scan_entry X cutoff (path_join (sp_outputs paths) rid) rid name)" for cutoff rid name
    by (intro keeps_scan_entry all_free)
qed simp

end
