(* ===== verification/Maintenance_Guarantees.thy ===== *)
theory Maintenance_Guarantees
  imports Pass_Contracts Store_Trace
begin

text \<open>
  Guarantees of a maintenance pass, whatever the deadline, other writers and faults of the
  file system do: its effect on the database is a sequence of the store's transactions, it
  stays within its budget, and it never touches the file that a live attempt writes.
\<close>

section \<open>The store and the budget\<close>

definition stepped :: "codecs \<Rightarrow> state_paths \<Rightarrow> pass \<Rightarrow> pass \<Rightarrow> bool" where
  "stepped D paths p q \<longleftrightarrow>
     (good_cursor D paths (ps_cursor p) \<longrightarrow>
        good_cursor D paths (ps_cursor q) \<and> (store_step D False)\<^sup>*\<^sup>* (ps_db p) (ps_db q))"

interpretation steps: store_relation D paths "stepped D paths" for D paths
proof unfold_locales
  show "stepped D paths p (p\<lparr>ps_db := s'\<rparr>)" if "store_step D False (ps_db p) s'" for p s'
    using that by (auto simp: stepped_def)
qed (auto simp: stepped_def)

text \<open>The results a report counts.\<close>

definition results :: "maintenance_report \<Rightarrow> nat" where
  "results r =
     mr_outputs_recovered r + mr_outputs_missing r + mr_outputs_pruned r + mr_runs_pruned r + mr_orphans_removed r"

definition budgeted :: "codecs \<Rightarrow> state_paths \<Rightarrow> pass \<Rightarrow> pass \<Rightarrow> bool" where
  "budgeted D paths p q \<longleftrightarrow>
     (good_cursor D paths (ps_cursor p) \<longrightarrow>
        good_cursor D paths (ps_cursor q)
        \<and> (mr_actions (ps_report p) \<le> MAX_ACTIONS \<longrightarrow> mr_actions (ps_report q) \<le> MAX_ACTIONS)
        \<and> results (ps_report q) + mr_actions (ps_report p) \<le> results (ps_report p) + mr_actions (ps_report q))"

interpretation budget: store_relation D paths "budgeted D paths" for D paths
proof unfold_locales
  show "budgeted D paths p (p\<lparr>ps_report := mr_actions_update Suc (ps_report p)\<rparr>)"
    if "mr_actions (ps_report p) < MAX_ACTIONS" for p
    using that by (auto simp: budgeted_def results_def)
  show "budgeted D paths p (r\<lparr>ps_report := counted (ps_report r)\<rparr>)"
    if "counted \<in> counters" and "mr_actions (ps_report p) < MAX_ACTIONS"
      and "budgeted D paths (p\<lparr>ps_report := mr_actions_update Suc (ps_report p)\<rparr>) r" for p counted r
    using that by (auto simp: budgeted_def counters_def results_def)
qed (auto simp: budgeted_def)

lemma finish_report: "finish p = (Inr r, q) \<longleftrightarrow> ps_errors p = [] \<and> q = p \<and> r = ps_report p"
  by (auto simp: finish_def split: if_splits)

lemma phase_report:
  assumes "phase m next_phase p = (Inr r, q)" and "\<And>p q r. next_phase p = (Inr r, q) \<Longrightarrow> r = ps_report q"
  shows "r = ps_report q"
  using assms
  by (auto simp: phase_def bind_action_def attempt_action_def fail_with_def finish_report split: prod.splits sum.splits if_splits)

lemma when_ready_report:
  assumes "when_ready X next_phase p = (Inr r, q)" and "\<And>p q r. next_phase p = (Inr r, q) \<Longrightarrow> r = ps_report q"
  shows "r = ps_report q"
  using assms by (auto simp: when_ready_def bind_action_def finish_report split: prod.splits sum.splits if_splits)

lemma maintain_report:
  "maintain_inner D H X paths lid now p = (Inr r, q) \<Longrightarrow> r = ps_report q"
  unfolding maintain_inner_def bind_action_def attempt_action_def
  by (auto split: prod.splits sum.splits if_splits simp: fail_with_def finish_report
      elim!: when_ready_report phase_report)

lemma good_pass_cursor:
  "good_cursor D paths (mt_cursor w) \<Longrightarrow> good_cursor D paths
     (case mc_outputs (mt_cursor w) of Some outputs \<Rightarrow> if outputs \<noteq> sp_outputs paths then MaintenanceCursor_reset else mt_cursor w
      | None \<Rightarrow> mt_cursor w)"
  by (auto simp: good_cursor_def MaintenanceCursor_reset_def split: option.splits)

lemma maintain_result:
  assumes "maintain_with_cursor D H X store_paths paths lid now w = (result, w')"
  obtains (refused) "w' = w" and "isl result"
  | (passed) cursor p where "good_cursor D paths (mt_cursor w) \<Longrightarrow> good_cursor D paths cursor"
      and "maintain_inner D H X paths lid now (Pass_new w cursor) = (result, p)"
      and "mt_db w' = ps_db p" and "mt_files w' = ps_files p"
      and "good_cursor D paths (ps_cursor p) \<Longrightarrow> good_cursor D paths (mt_cursor w')"
proof (cases "store_paths = paths")
  case False
  then show ?thesis using assms refused by (auto simp: maintain_with_cursor_def)
next
  case True
  let ?cursor = "case mc_outputs (mt_cursor w) of Some outputs \<Rightarrow> if outputs \<noteq> sp_outputs paths then MaintenanceCursor_reset else mt_cursor w
      | None \<Rightarrow> mt_cursor w"
  obtain r p where r: "maintain_inner D H X paths lid now (Pass_new w ?cursor) = (r, p)" by fastforce
  then have "result = r" "w' = \<lparr>mt_db = ps_db p, mt_files = ps_files p,
      mt_cursor = (if isl r then MaintenanceCursor_reset else ps_cursor p)\<rparr>"
    using assms True unfolding maintain_with_cursor_def Let_def by auto
  with r good_pass_cursor[of D paths w] show ?thesis
    by (intro passed[of ?cursor p]) (auto simp: good_cursor_def MaintenanceCursor_reset_def)
qed

text \<open>
  A maintenance pass is a sequence of the store's transactions. Whatever the deadline,
  other writers and the file system do, and whether the pass succeeds or fails, a reachable
  database is taken to one that the transactions reach, so the invariant
  stays; the cursor of the next pass is in order again.
\<close>

theorem maintenance_refines_store:
  assumes "(store_step D False)\<^sup>*\<^sup>* initial_store (mt_db w)" and "good_cursor D paths (mt_cursor w)"
    and "maintain_with_cursor D H X store_paths paths lid now w = (result, w')"
  shows "(store_step D False)\<^sup>*\<^sup>* (mt_db w) (mt_db w') \<and> store_inv (mt_db w')
    \<and> good_cursor D paths (mt_cursor w')"
proof -
  have "(store_step D False)\<^sup>*\<^sup>* (mt_db w) (mt_db w') \<and> good_cursor D paths (mt_cursor w')"
    using assms(3)
  proof (cases rule: maintain_result)
    case (passed cursor p)
    with steps.effects.pass_kept[of D paths w cursor H X lid now] assms(2) show ?thesis
      by (simp add: stepped_def Pass_new_def)
  qed (use assms(2) in simp)
  then show ?thesis
    using machine.reachable_inv[OF refl rtranclp_trans[OF assms(1)]] by blast
qed

text \<open>
  C40: a pass stays within its budget. It takes at most a hundred actions, and it counts no
  more recovered, missing and pruned outputs, deleted runs and removed orphans than it took
  actions.
\<close>

theorem maintenance_bounded:
  assumes "good_cursor D paths (mt_cursor w)"
    and "maintain_with_cursor D H X store_paths paths lid now w = (Inr report, w')"
  shows "results report \<le> mr_actions report \<and> mr_actions report \<le> 100"
  using assms(2)
proof (cases rule: maintain_result)
  case (passed cursor p)
  from budget.effects.pass_kept[of D paths w cursor H X lid now] passed(1,2) assms(1)
  have "results (ps_report p) \<le> mr_actions (ps_report p) \<and> mr_actions (ps_report p) \<le> MAX_ACTIONS"
    by (simp add: budgeted_def Pass_new_def MaintenanceReport_default_def results_def)
  then show ?thesis using maintain_report[OF passed(2)] by (simp add: MAX_ACTIONS_def)
qed simp


section \<open>Live attempts\<close>

text \<open>The output of an attempt that a lifetime is executing.\<close>

definition live_output :: "string \<Rightarrow> string \<Rightarrow> nat \<Rightarrow> store \<Rightarrow> bool" where
  "live_output lid rid n s \<longleftrightarrow>
     (\<forall>a \<in> set (attempts s). this_attempt rid (int n) a \<longrightarrow> active_attempt a \<and> att_lifetime a = lid)
     \<and> (\<exists>o' \<in> set (artifacts s). this_artifact rid (int n) o' \<and> art_st o' \<in> {ArtPending, ArtActive}
          \<and> art_path o' = partial_path rid (int n))"

lemma live_update_artifacts:
  assumes "live_output lid rid n s" and "\<And>o'. this_artifact rid (int n) o' \<Longrightarrow> art_st o' \<in> {ArtPending, ArtActive} \<Longrightarrow> \<not> q o'"
  shows "live_output lid rid n (update_artifacts q f s)"
proof -
  from assms(1) obtain o' where o': "o' \<in> set (artifacts s)" "this_artifact rid (int n) o'" "art_st o' \<in> {ArtPending, ArtActive}"
      "art_path o' = partial_path rid (int n)" unfolding live_output_def by blast
  have "o' \<in> set (artifacts (update_artifacts q f s))"
    using o'(1) assms(2)[OF o'(2,3)] by (force simp: update_artifacts_def update_where_def)
  with o' assms(1) show ?thesis unfolding live_output_def by (auto simp: update_artifacts_def)
qed

lemma live_other_artifact:
  assumes "live_output lid rid n s" and "(rid', n') \<noteq> (rid, int n)"
  shows "reconcile_output_missing rid' n' now s = Inr s' \<Longrightarrow> live_output lid rid n s'"
    and "reconcile_output_finalized out now s = Inr s' \<Longrightarrow> out_run out = rid' \<Longrightarrow> out_number out = n' \<Longrightarrow> live_output lid rid n s'"
  using assms
  by (auto simp: reconcile_output_missing_def reconcile_output_finalized_def Let_def this_artifact_def split: if_splits
      intro!: live_update_artifacts)

lemma live_pruned:
  assumes "live_output lid rid n s"
  shows "mark_output_prune_pending c now s = Inr s' \<Longrightarrow> live_output lid rid n s'"
    and "finish_output_prune c now s = Inr s' \<Longrightarrow> live_output lid rid n s'"
  using assms
  by (auto simp: mark_output_prune_pending_def finish_output_prune_def candidate_artifact_def Let_def split: if_splits
      intro!: live_update_artifacts)

lemma live_retention:
  assumes "live_output lid rid n s"
  shows "mark_run_retention_pending rc now s = Inr s' \<Longrightarrow> live_output lid rid n s'"
    and "finish_run_retention rc s = Inr s' \<Longrightarrow> live_output lid rid n s'"
proof -
  show "live_output lid rid n s'" if "mark_run_retention_pending rc now s = Inr s'"
    using that assms by (auto simp: mark_run_retention_pending_def live_output_def split: if_splits)
  show "live_output lid rid n s'" if ok: "finish_run_retention rc s = Inr s'"
  proof (cases "s' = s")
    case False
    with ok have safe: "retention_safe rc s" and s': "s' = delete_run (rrc_run rc) s"
      by (auto simp: finish_run_retention_def split: if_splits)
    then have "rrc_run rc \<noteq> rid" using assms by (auto simp: live_output_def retention_safe_def this_artifact_def)
    then show ?thesis using assms by (auto simp: s' live_output_def delete_run_def this_artifact_def)
  qed (use assms in simp)
qed

text \<open>A pass leaves the output of a live attempt live, and its file as it is.\<close>

definition spared :: "codecs \<Rightarrow> state_paths \<Rightarrow> string \<Rightarrow> string \<Rightarrow> nat \<Rightarrow> string \<Rightarrow> pass \<Rightarrow> pass \<Rightarrow> bool" where
  "spared D paths lid rid n path p q \<longleftrightarrow>
     (good_cursor D paths (ps_cursor p) \<and> live_output lid rid n (ps_db p) \<longrightarrow>
        good_cursor D paths (ps_cursor q) \<and> live_output lid rid n (ps_db q) \<and> ps_files q path = ps_files p path)"

interpretation spare: pass_relation D paths "spared D paths lid rid n path" for D paths lid rid n path
  by unfold_locales (auto simp: spared_def)

lemma spared_free: "other \<noteq> path \<Longrightarrow> free_path (spared D paths lid rid n path) other"
  by (simp add: free_path_def spared_def)

lemma spared_db:
  assumes "live_output lid rid n (ps_db p) \<Longrightarrow> live_output lid rid n s'"
  shows "spared D paths lid rid n path p (p\<lparr>ps_db := s'\<rparr>)"
  using assms by (simp add: spared_def)

lemma other_output:
  assumes "canonical_uuids D" and "partial_output D (StatePaths_new root) rid n = Inr path"
  shows "partial_output D (StatePaths_new root) rid' n' = Inr other \<Longrightarrow> (rid', n') \<noteq> (rid, n) \<Longrightarrow> other \<noteq> path"
    and "final_output D (StatePaths_new root) rid' n' = Inr other \<Longrightarrow> other \<noteq> path"
  using output_path_inj[OF assms(1), of root False rid n path False rid' n']
    output_path_inj[OF assms(1), of root False rid n path True rid' n'] assms(2)
  by (auto simp: output_path_def)

lemma u16_try_from_Some: "u16_try_from m = Some k \<Longrightarrow> m = int k"
  by (auto simp: u16_try_from_def split: if_splits)

text \<open>The file of a live attempt is one that its row refers to.\<close>

lemma swept_file_referenced:
  assumes uuids: "canonical_uuids D" and path: "partial_output D (StatePaths_new root) rid n = Inr path"
    and live: "live_output lid rid n s" and rid': "is_canonical_uuid D rid'" and name: "is_canonical_output_name name"
    and same: "path_join (path_join (sp_outputs (StatePaths_new root)) rid') name = path"
  shows "output_artifact_references rid' (rid' @ ''/'' @ name) s"
proof -
  let ?o = "sp_outputs (StatePaths_new root)"
  have valid: "validate_uuid D rid' = Inr ()" using rid' by (auto simp: is_canonical_uuid_def validate_uuid_def)
  note plain' = canonical_uuid_plain[OF uuids valid]
  have shape: "path = ?o @ CHR ''/'' # rid @ CHR ''/'' # output_name False n" and v: "validate_uuid D rid = Inr ()"
    using output_path_shape[OF uuids, of root False rid n path] path by (auto simp: output_path_def)
  note plain = canonical_uuid_plain[OF uuids v]
  have nm: "name \<noteq> []" "CHR ''/'' \<notin> set name"
    using name digits_plain show_nat_decimal by (fastforce simp: canonical_output_name_iff)+
  have "path_join ?o rid' = ?o @ CHR ''/'' # rid'" using plain' outputs_plain by (simp add: path_join_plain)
  moreover have "last rid' \<noteq> CHR ''/''" using plain' last_in_set by metis
  ultimately have "path = ?o @ CHR ''/'' # rid' @ CHR ''/'' # name"
    using nm plain' unfolding same[symmetric] by (simp add: path_join_plain)
  with shape have "rid @ CHR ''/'' # output_name False n = rid' @ CHR ''/'' # name" by simp
  from separated_eq[OF this] plain plain' have "rid' = rid" "name = output_name False n" by auto
  moreover have "output_name False n = show_int (int n) @ ''.partial''" by (simp add: output_name_def show_int_def)
  ultimately show ?thesis
    using live by (auto simp: live_output_def output_artifact_references_def this_artifact_def partial_path_def)
qed

lemma spared_effects:
  assumes uuids: "canonical_uuids D" and path: "partial_output D (StatePaths_new root) rid n = Inr path"
  shows "pass_effects D (StatePaths_new root) (spared D (StatePaths_new root) lid rid n path) H X lid now
    (\<lambda>c. (orc_run c, orc_attempt c) \<noteq> (rid, int n))"
proof unfold_locales
  let ?paths = "StatePaths_new root" let ?R = "spared D ?paths lid rid n path"
  note others = other_output[OF uuids path]
  show "(orc_run c, orc_attempt c) \<noteq> (rid, int n)"
    if "\<not> ?R p q" and "c \<in> set (referenced_partial_artifacts limit lid (ps_db p))" for p q c limit
  proof -
    have "live_output lid rid n (ps_db p)" using that(1) by (auto simp: spared_def)
    with that(2) show ?thesis
      by (auto simp: referenced_partial_artifacts_def live_output_def this_attempt_def dest!: in_set_takeD)
  qed
  show "keeps ?R (recover_output D H X ?paths now c)" if c: "(orc_run c, orc_attempt c) \<noteq> (rid, int n)" for c
  proof (rule spare.keeps_recover_output)
    show "free_path ?R other"
      if "u16_try_from (orc_attempt c) = Some k"
        and "partial_output D ?paths (orc_run c) k = Inr other \<or> final_output D ?paths (orc_run c) k = Inr other" for k other
      using that c others[of "orc_run c" k other] u16_try_from_Some by (intro spared_free) auto
    show "keeps ?R (store_write X (reconcile_output_missing (orc_run c) (orc_attempt c) now))"
      by (intro spare.keeps_write spared_db) (rule live_other_artifact(1)[OF _ c])
    show "keeps ?R (store_write X (reconcile_output_finalized out now))"
      if "out_run out = orc_run c" "out_number out = orc_attempt c" for out
      by (intro spare.keeps_write spared_db) (rule live_other_artifact(2)[OF _ c _ that])
  qed
  show "keeps ?R (remove_and_finish_output D X ?paths now mark rc)" for mark rc
    by (intro spare.keeps_remove_output spare.keeps_write spared_db spared_free) (use others(2) live_pruned in blast)+
  show "keeps ?R (store_write X (mark_run_retention_pending rrc now))" for rrc
    by (intro spare.keeps_write spared_db) (use live_retention(1) in blast)
  show "keeps ?R (unless_conflict X (finish_run_retention rrc))" for rrc
    by (intro spare.keeps_unless_conflict spared_db) (use live_retention(2) in blast)
  show "keeps ?R (scan_entry X cutoff (path_join (sp_outputs ?paths) rid') rid' name)" if "is_canonical_uuid D rid'" for cutoff rid' name
  proof (intro spare.keeps_scan_entry spared_free)
    fix p q assume "\<not> ?R p q" and name: "is_canonical_output_name name"
      and free: "\<not> output_artifact_references rid' (rid' @ ''/'' @ name) (ps_db p)"
    then have "live_output lid rid n (ps_db p)" by (auto simp: spared_def)
    with swept_file_referenced[OF uuids path _ that name] free
    show "path_join (path_join (sp_outputs ?paths) rid') name \<noteq> path" by blast
  qed
qed

text \<open>
  C7: maintenance never interferes with a live attempt. On a well-formed database, a pass of
  the daemon that executes an attempt leaves the partial output file of that attempt exactly
  as it is and its row in the database as unfinished, whatever the candidates, the listings
  of directories and the faults are.
\<close>

theorem maintenance_spares_live_output:
  assumes "canonical_uuids D" and "store_wf (mt_db w)" and "good_cursor D (StatePaths_new root) (mt_cursor w)"
    and "a \<in> set (attempts (mt_db w))" and "att_run a = rid" and "att_number a = int n" and "active_attempt a" and "att_lifetime a = lid"
    and "o' \<in> set (artifacts (mt_db w))" and "art_run o' = rid" and "art_attempt o' = int n" and "art_st o' \<in> {ArtPending, ArtActive}"
    and "art_path o' = partial_path rid (int n)"
    and "partial_output D (StatePaths_new root) rid n = Inr path"
    and "maintain_with_cursor D H X store_paths (StatePaths_new root) lid now w = (result, w')"
  shows "mt_files w' path = mt_files w path \<and> live_output lid rid n (mt_db w')"
proof -
  have "b = a" if "b \<in> set (attempts (mt_db w))" "this_attempt rid (int n) b" for b
    using that assms(4-6) wf_keys[OF assms(2)] by (auto simp: distinct_map inj_on_def attempt_key_def this_attempt_def)
  then have live: "live_output lid rid n (mt_db w)"
    using assms(7-13) by (auto simp: live_output_def this_artifact_def)
  from assms(15) show ?thesis
  proof (cases rule: maintain_result)
    case (passed cursor p)
    have "spared D (StatePaths_new root) lid rid n path (Pass_new w cursor)
        (snd (maintain_inner D H X (StatePaths_new root) lid now (Pass_new w cursor)))"
      by (rule pass_effects.pass_kept[OF spared_effects[OF assms(1,14)]])
    with passed(1,2) assms(3) live show ?thesis by (simp add: spared_def Pass_new_def passed(3,4))
  qed (use live in simp)
qed


section \<open>Concrete passes\<close>

definition calm_outside :: outside where
  "calm_outside =
     \<lparr>ou_expired = (\<lambda>_. False), ou_yield = (\<lambda>_. Inr False), ou_busy = (\<lambda>_. None), ou_fault = (\<lambda>_. None),
      ou_read_fault = (\<lambda>_ _ _. None),
      ou_calls = (\<lambda>_. \<lparr>first_len = Inr 8, second_len = Inr 8, set_len_fault = None, sync_fault = None\<rparr>),
      ou_entries = (\<lambda>_ _. []), ou_guard = (\<lambda>_ _. GuardOk)\<rparr>"

definition trivial_hasher :: "unit hasher" where
  "trivial_hasher = \<lparr>hash_new = (), hash_update = (\<lambda>_ _. ()), hash_finalize = (\<lambda>_. 0)\<rparr>"

text \<open>A daemon was lost while a run was executing; its output file holds only the magic bytes.\<close>

definition lost_run :: maintained where
  "lost_run =
     \<lparr>mt_db = fst (projr (begin_lifetime plain_codecs 8 ''m'' 30 ''1.0'' running_store)),
      mt_files = (\<lambda>path. if path = ''/s/outputs'' \<or> path = ''/s/outputs/r'' then FsDirectory
        else if path = ''/s/outputs/r/1.partial'' then FsRegular MAGIC 0 else FsMissing),
      mt_cursor = MaintenanceCursor_reset\<rparr>"

lemma lost_run_cursor: "good_cursor D paths (mt_cursor lost_run)"
  by (simp add: lost_run_def good_cursor_def MaintenanceCursor_reset_def)

lemma lost_run_reachable: "(store_step plain_codecs False)\<^sup>*\<^sup>* initial_store (mt_db lost_run)"
proof -
  have "store_step plain_codecs False running_store (mt_db lost_run)"
    by (rule step_begin[where pid = 8 and lid = "''m''" and now = 30 and v = "''1.0''" and n = 1]) code_simp
  with reachable_running show ?thesis by (rule rtranclp.rtrancl_into_rtrancl)
qed

abbreviation recovery_pass :: "(failure + maintenance_report) \<times> maintained" where
  "recovery_pass \<equiv> maintain_with_cursor plain_codecs trivial_hasher calm_outside (StatePaths_new ''/s'') (StatePaths_new ''/s'') ''m'' 50 lost_run"

lemma recovery_pass_result: "fst recovery_pass = Inr (MaintenanceReport_default\<lparr>mr_actions := 1, mr_outputs_recovered := 1\<rparr>)"
  by code_simp

theorem maintenance_refines_store_witness:
  "fst recovery_pass = Inr (MaintenanceReport_default\<lparr>mr_actions := 1, mr_outputs_recovered := 1\<rparr>)
   \<and> store_inv (mt_db (snd recovery_pass))"
  using maintenance_refines_store[OF lost_run_reachable lost_run_cursor prod.collapse[symmetric], where H = trivial_hasher and X = calm_outside
      and store_paths = "StatePaths_new ''/s''" and paths = "StatePaths_new ''/s''" and lid = "''m''" and now = 50]
    recovery_pass_result by blast

theorem maintenance_bounded_witness:
  "\<exists>report. fst recovery_pass = Inr report \<and> mr_outputs_recovered report = 1 \<and> results report \<le> mr_actions report"
proof -
  have "recovery_pass = (Inr (MaintenanceReport_default\<lparr>mr_actions := 1, mr_outputs_recovered := 1\<rparr>), snd recovery_pass)"
    using recovery_pass_result prod.collapse by metis
  from maintenance_bounded[OF lost_run_cursor this] recovery_pass_result show ?thesis by simp
qed

text \<open>A daemon is about to execute a run; its output file exists.\<close>

definition live_id :: string where
  "live_id = ''018f0000-0000-7000-8000-000000000001''"

definition live_queued :: store where
  "live_queued = projr (enqueue_manual_tx ''backup'' live_id 10
     (projr (enqueue_manual_prepare plain_codecs ''backup'' sample_store)) sample_store)"

definition live_lifetime :: store where
  "live_lifetime = fst (projr (begin_lifetime plain_codecs 7 ''l'' 11 ''1.0'' live_queued))"

definition live_store :: store where
  "live_store = fst (projr (admit_tx ''l'' 12 4 (projr (admit_prepare plain_codecs 12 4 live_lifetime)) live_lifetime))"

lemma live_store_wf: "store_wf live_store"
proof -
  have "store_step plain_codecs False sample_store live_queued"
    unfolding live_queued_def by (rule step_enqueue, rule projr_Inr) code_simp
  moreover have "store_step plain_codecs False live_queued live_lifetime"
    by (rule step_begin[where pid = 7 and lid = "''l''" and now = 11 and v = "''1.0''" and n = 0]) code_simp
  moreover have "store_step plain_codecs False live_lifetime live_store"
  proof (rule step_admit)
    have "\<not> isl (admit_tx ''l'' 12 4 (projr (admit_prepare plain_codecs 12 4 live_lifetime)) live_lifetime)" by code_simp
    then show "admit_tx ''l'' 12 4 (projr (admit_prepare plain_codecs 12 4 live_lifetime)) live_lifetime
        = Inr (live_store, snd (projr (admit_tx ''l'' 12 4 (projr (admit_prepare plain_codecs 12 4 live_lifetime)) live_lifetime)))"
      by (simp add: live_store_def)
  qed
  ultimately have "(store_step plain_codecs False)\<^sup>*\<^sup>* initial_store live_store"
    using sample_step_create by (meson converse_rtranclp_into_rtranclp rtranclp.rtrancl_refl)
  from machine.reachable_inv[OF refl this] show ?thesis by (simp add: store_inv_def)
qed

definition live_run :: maintained where
  "live_run =
     \<lparr>mt_db = live_store, mt_files = (\<lambda>path. if path = ''/s/outputs/018f0000-0000-7000-8000-000000000001/1.partial''
        then FsRegular MAGIC 0 else FsDirectory), mt_cursor = MaintenanceCursor_reset\<rparr>"

theorem maintenance_spares_live_output_witness:
  "mt_files (snd (maintain_with_cursor strict_codecs trivial_hasher calm_outside (StatePaths_new ''/s'') (StatePaths_new ''/s'') ''l'' 50 live_run))
     ''/s/outputs/018f0000-0000-7000-8000-000000000001/1.partial'' = FsRegular MAGIC 0"
proof -
  have D: "canonical_uuids strict_codecs" by (simp add: canonical_uuids_def strict_codecs_def)
  have wf: "store_wf (mt_db live_run)" using live_store_wf by (simp add: live_run_def)
  have cursor: "good_cursor strict_codecs (StatePaths_new ''/s'') (mt_cursor live_run)"
    by (simp add: live_run_def good_cursor_def MaintenanceCursor_reset_def)
  have a: "hd (attempts live_store) \<in> set (attempts (mt_db live_run))" "att_run (hd (attempts live_store)) = live_id"
    "att_number (hd (attempts live_store)) = int 1" "active_attempt (hd (attempts live_store))"
    "att_lifetime (hd (attempts live_store)) = ''l''" by code_simp+
  have row: "hd (artifacts live_store) \<in> set (artifacts (mt_db live_run))" "art_run (hd (artifacts live_store)) = live_id"
    "art_attempt (hd (artifacts live_store)) = int 1" "art_st (hd (artifacts live_store)) \<in> {ArtPending, ArtActive}"
    "art_path (hd (artifacts live_store)) = partial_path live_id (int 1)" by code_simp+
  have path: "partial_output strict_codecs (StatePaths_new ''/s'') live_id 1
      = Inr ''/s/outputs/018f0000-0000-7000-8000-000000000001/1.partial''" by code_simp
  from maintenance_spares_live_output[OF D wf cursor a row path prod.collapse[symmetric], where H = trivial_hasher
      and X = calm_outside and store_paths = "StatePaths_new ''/s''" and now = 50] show ?thesis by (simp add: live_run_def)
qed

end
