(* ===== verification/Server_Guard.thy ===== *)
theory Server_Guard
  imports State_Paths Environment "HOL-Library.Word"
begin

text \<open>
  The security middleware of the dashboard server,
  \<^verbatim>\<open>crates/locron-server/src/middleware.rs\<close>, as the chain of layers that \<^verbatim>\<open>router\<close> applies: the Host
  allowlist, the Origin check, token authentication and the CSRF double submit. A layer
  either answers a request itself or passes it on. Whether a header value is readable as
  text is decided by the package \<open>http\<close> and is an argument.
\<close>

section \<open>Requests\<close>

datatype http_verb = GET | POST | PUT | PATCH | DELETE | OtherVerb string

datatype auth_kind = Unauthenticated | Bearer | Session

text \<open>Header fields in order with lower-case names; the body is \<open>None\<close> when it cannot be read.\<close>

record request =
  req_method :: http_verb
  req_path :: string
  req_headers :: "(string \<times> string) list"
  req_body :: "string option"
  req_auth :: "auth_kind option"

datatype response_body = ErrorEnvelope string string | HandlerBody string

record response =
  resp_status :: nat
  resp_headers :: "(string \<times> string) list"
  resp_body :: response_body

record app_state =
  app_token :: string
  app_bound_port :: nat

definition SESSION_COOKIE :: string where "SESSION_COOKIE = ''locron_session''"

definition CSRF_COOKIE :: string where "CSRF_COOKIE = ''csrf_token''"

definition CSRF_HEADER :: string where "CSRF_HEADER = ''x-csrf-token''"

definition CSRF_FORM_LIMIT :: nat where "CSRF_FORM_LIMIT = 1048576"

abbreviation session_path :: string where "session_path \<equiv> ''/api/v1/session''"

definition get_all :: "(string \<times> string) list \<Rightarrow> string \<Rightarrow> string list" where
  "get_all headers name = map snd (filter (\<lambda>h. fst h = name) headers)"

definition unsafe_method :: "http_verb \<Rightarrow> bool" where
  "unsafe_method v \<longleftrightarrow> v \<in> {POST, PUT, PATCH, DELETE}"


section \<open>Header values\<close>

definition single_header :: "(string \<Rightarrow> bool) \<Rightarrow> (string \<times> string) list \<Rightarrow> string \<Rightarrow> unit + string option" where
  "single_header readable headers name =
     (case get_all headers name of
        [] \<Rightarrow> Inr None
      | [v] \<Rightarrow> if readable v then Inr (Some v) else Inl ()
      | _ \<Rightarrow> Inl ())"

definition strip_prefix :: "string \<Rightarrow> string \<Rightarrow> string option" where
  "strip_prefix pre s = (if take (length pre) s = pre then Some (drop (length pre) s) else None)"

definition eq_ignore_ascii_case :: "string \<Rightarrow> string \<Rightarrow> bool" where
  "eq_ignore_ascii_case a b \<longleftrightarrow> to_ascii_lowercase a = to_ascii_lowercase b"

definition port_of :: "string \<Rightarrow> nat option" where
  "port_of rest =
     (if rest = [] then Some 80
      else case strip_prefix '':'' rest of
             None \<Rightarrow> None
           | Some port \<Rightarrow>
               if port = [] \<or> \<not> list_all is_digit port then None else parse_unsigned u16_max port)"

definition loopback_port :: "string \<Rightarrow> nat option" where
  "loopback_port authority =
     (case strip_prefix ''[::1]'' authority of
        Some rest \<Rightarrow> port_of rest
      | None \<Rightarrow>
          let hostname = takeWhile (\<lambda>c. c \<noteq> CHR '':'') authority
          in if \<not> eq_ignore_ascii_case hostname ''localhost'' \<and> hostname \<noteq> ''127.0.0.1'' then None
             else port_of (dropWhile (\<lambda>c. c \<noteq> CHR '':'') authority))"

definition is_hexdigit :: "char \<Rightarrow> bool" where
  "is_hexdigit c \<longleftrightarrow> c \<in> set ''0123456789abcdefABCDEF''"

definition valid_token_value :: "string \<Rightarrow> bool" where
  "valid_token_value v \<longleftrightarrow> length v = 64 \<and> list_all is_hexdigit v"

datatype cookie_state = CookieMissing | UniqueValidHex string | UniqueReadableMalformed | DuplicateOrUnreadable

text \<open>What one pair of a cookie field supplies for a name.\<close>

definition supplied_cookie :: "string \<Rightarrow> string \<Rightarrow> cookie_state option" where
  "supplied_cookie name pair =
     (case split_once (CHR ''='') pair of
        Some (key, v) \<Rightarrow>
          if trim key = name
          then Some (if key = name \<and> valid_token_value v then UniqueValidHex v else UniqueReadableMalformed)
          else None
      | None \<Rightarrow> if pair = name then Some UniqueReadableMalformed else None)"

fun scan_pairs :: "string \<Rightarrow> string list \<Rightarrow> cookie_state \<Rightarrow> cookie_state" where
  "scan_pairs name [] found = found"
| "scan_pairs name (pair # pairs) found =
     scan_pairs name pairs
       (case supplied_cookie name (trim pair) of
          None \<Rightarrow> found
        | Some supplied \<Rightarrow> if found = CookieMissing then supplied else DuplicateOrUnreadable)"

fun scan_cookies :: "(string \<Rightarrow> bool) \<Rightarrow> string \<Rightarrow> string list \<Rightarrow> cookie_state \<times> bool \<Rightarrow> cookie_state \<times> bool" where
  "scan_cookies readable name [] acc = acc"
| "scan_cookies readable name (cookies # others) (found, unreadable) =
     scan_cookies readable name others
       (if readable cookies then (scan_pairs name (split_on (CHR '';'') cookies) found, unreadable) else (found, True))"

definition cookie_value :: "(string \<Rightarrow> bool) \<Rightarrow> (string \<times> string) list \<Rightarrow> string \<Rightarrow> cookie_state" where
  "cookie_value readable headers name =
     (case scan_cookies readable name (get_all headers ''cookie'') (CookieMissing, False) of
        (found, unreadable) \<Rightarrow> if unreadable then DuplicateOrUnreadable else found)"

unbundle bit_operations_syntax

definition constant_time_eq :: "string \<Rightarrow> string \<Rightarrow> bool" where
  "constant_time_eq left right =
     (if length left \<noteq> length right then False
      else foldl (\<lambda>diff (a, b). diff OR ((of_nat (of_char a) :: 8 word) XOR of_nat (of_char b))) 0 (zip left right) = 0)"


section \<open>The layers\<close>

definition envelope_error :: "nat \<Rightarrow> string \<Rightarrow> string \<Rightarrow> response" where
  "envelope_error status category msg =
     \<lparr>resp_status = status, resp_headers = [(''content-type'', ''application/json'')],
      resp_body = ErrorEnvelope category msg\<rparr>"

definition refused :: "string \<Rightarrow> response" where
  "refused msg = envelope_error 403 ''refused'' msg"

definition unauthorized :: response where
  "unauthorized = envelope_error 401 ''unauthenticated'' ''a valid access token or session cookie is required''"

definition host_layer :: "(string \<Rightarrow> bool) \<Rightarrow> request \<Rightarrow> response + request" where
  "host_layer readable req =
     (case single_header readable (req_headers req) ''host'' of
        Inr (Some v) \<Rightarrow>
          if loopback_port v \<noteq> None then Inr req else Inl (refused ''request requires one valid loopback Host header'')
      | _ \<Rightarrow> Inl (refused ''request requires one valid loopback Host header''))"

definition origin_matches :: "app_state \<Rightarrow> string \<Rightarrow> bool" where
  "origin_matches st origin =
     (case Option.bind (strip_prefix ''http://'' origin) loopback_port of
        None \<Rightarrow> False | Some port \<Rightarrow> port = app_bound_port st)"

definition origin_layer :: "(string \<Rightarrow> bool) \<Rightarrow> app_state \<Rightarrow> request \<Rightarrow> response + request" where
  "origin_layer readable st req =
     (if unsafe_method (req_method req)
      then (case single_header readable (req_headers req) ''origin'' of
              Inr None \<Rightarrow> Inr req
            | Inr (Some v) \<Rightarrow>
                if origin_matches st v then Inr req
                else Inl (refused ''Origin must be one valid origin of this loopback server'')
            | Inl _ \<Rightarrow> Inl (refused ''Origin must be one valid origin of this loopback server''))
      else Inr req)"

definition entry_request :: "request \<Rightarrow> bool" where
  "entry_request req \<longleftrightarrow> req_method req = GET \<and> \<not> starts_with ''/api/'' (req_path req)"

definition paste_request :: "request \<Rightarrow> bool" where
  "paste_request req \<longleftrightarrow> req_method req = POST \<and> req_path req = session_path"

definition bearer_token :: "string \<Rightarrow> string option" where
  "bearer_token v = (case strip_prefix ''token '' v of Some t \<Rightarrow> Some t | None \<Rightarrow> strip_prefix ''Token '' v)"

definition auth_of :: "(string \<Rightarrow> bool) \<Rightarrow> app_state \<Rightarrow> request \<Rightarrow> response + auth_kind" where
  "auth_of readable st req =
     (case single_header readable (req_headers req) ''authorization'' of
        Inr (Some v) \<Rightarrow>
          (case bearer_token v of
             Some t \<Rightarrow> if constant_time_eq t (app_token st) then Inr Bearer else Inl unauthorized
           | None \<Rightarrow> Inl unauthorized)
      | Inr None \<Rightarrow>
          (case cookie_value readable (req_headers req) SESSION_COOKIE of
             UniqueValidHex cookie \<Rightarrow> Inr (if constant_time_eq cookie (app_token st) then Session else Unauthenticated)
           | CookieMissing \<Rightarrow> Inr Unauthenticated
           | _ \<Rightarrow> if entry_request req then Inr Unauthenticated else Inl unauthorized)
      | Inl _ \<Rightarrow> Inl unauthorized)"

definition authenticate :: "(string \<Rightarrow> bool) \<Rightarrow> app_state \<Rightarrow> request \<Rightarrow> response + request" where
  "authenticate readable st req =
     and_then (auth_of readable st req) (\<lambda>auth.
       if auth = Unauthenticated \<and> \<not> entry_request req \<and> \<not> paste_request req then Inl unauthorized
       else Inr (req\<lparr>req_auth := Some auth\<rparr>))"

fun form_value :: "string list \<Rightarrow> string option \<Rightarrow> string option" where
  "form_value [] found = found"
| "form_value (pair # pairs) found =
     (case split_once (CHR ''='') pair of
        None \<Rightarrow> if pair = CSRF_COOKIE then None else form_value pairs found
      | Some (key, v) \<Rightarrow>
          if key = CSRF_COOKIE
          then (if found \<noteq> None \<or> \<not> valid_token_value v then None else form_value pairs (Some v))
          else form_value pairs found)"

definition csrf_form_value :: "string \<Rightarrow> string option" where
  "csrf_form_value body = form_value (split_on (CHR ''&'') body) None"

text \<open>
  The field and the request with its body read and put back; a body beyond the limit, or one
  that cannot be read, is gone. \<open>utf8\<close> tells whether bytes are valid text.
\<close>

definition csrf_from_form_field ::
    "(string \<Rightarrow> bool) \<Rightarrow> (string \<Rightarrow> bool) \<Rightarrow> request \<Rightarrow> string option \<times> request" where
  "csrf_from_form_field readable utf8 req =
     (case single_header readable (req_headers req) ''content-type'' of
        Inr (Some content_type) \<Rightarrow>
          if eq_ignore_ascii_case (trim (hd (split_on (CHR '';'') content_type))) ''application/x-www-form-urlencoded''
          then (case req_body req of
                  Some bytes \<Rightarrow>
                    if length bytes \<le> CSRF_FORM_LIMIT
                    then (if utf8 bytes then csrf_form_value bytes else None, req)
                    else (None, req\<lparr>req_body := Some []\<rparr>)
                | None \<Rightarrow> (None, req\<lparr>req_body := Some []\<rparr>))
          else (None, req)
      | _ \<Rightarrow> (None, req))"

definition csrf_echo :: "(string \<Rightarrow> bool) \<Rightarrow> (string \<Rightarrow> bool) \<Rightarrow> request \<Rightarrow> string option \<times> request" where
  "csrf_echo readable utf8 req =
     (case single_header readable (req_headers req) CSRF_HEADER of
        Inr (Some v) \<Rightarrow> (if valid_token_value v then Some v else None, req)
      | Inr None \<Rightarrow> csrf_from_form_field readable utf8 req
      | Inl _ \<Rightarrow> (None, req))"

definition csrf_layer ::
    "(string \<Rightarrow> bool) \<Rightarrow> (string \<Rightarrow> bool) \<Rightarrow> request \<Rightarrow> response + request" where
  "csrf_layer readable utf8 req =
     (let auth = (case req_auth req of None \<Rightarrow> Unauthenticated | Some a \<Rightarrow> a);
          cookie = cookie_value readable (req_headers req) CSRF_COOKIE
      in if auth = Session \<and> req_method req = GET \<and> req_path req = session_path
            \<and> cookie \<in> {UniqueReadableMalformed, DuplicateOrUnreadable}
         then Inl unauthorized
         else if unsafe_method (req_method req) \<and> auth = Session
         then (case cookie of
                 UniqueValidHex c \<Rightarrow>
                   (case csrf_echo readable utf8 req of
                      (echoed, req') \<Rightarrow>
                        (case echoed of
                           Some v \<Rightarrow>
                             if constant_time_eq v c then Inr req'
                             else Inl (refused ''X-CSRF-Token does not match the csrf_token cookie'')
                         | None \<Rightarrow> Inl (refused ''X-CSRF-Token does not match the csrf_token cookie'')))
               | UniqueReadableMalformed \<Rightarrow>
                   if paste_request req \<and> single_header readable (req_headers req) CSRF_HEADER = Inr None then Inr req
                   else Inl (refused ''cookie-authenticated mutations require a CSRF token'')
               | _ \<Rightarrow> Inl (refused ''cookie-authenticated mutations require a CSRF token''))
         else Inr req)"

definition insert_header :: "string \<Rightarrow> string \<Rightarrow> response \<Rightarrow> response" where
  "insert_header name v r = r\<lparr>resp_headers := filter (\<lambda>h. fst h \<noteq> name) (resp_headers r) @ [(name, v)]\<rparr>"

definition referrer_policy :: "response \<Rightarrow> response" where
  "referrer_policy r = insert_header ''referrer-policy'' ''no-referrer'' r"

text \<open>
  The chain in the order of \<open>router\<close>: what reaches a handler, and the answer, with the routes
  and their handlers as an argument.
\<close>

definition guard_chain ::
    "(string \<Rightarrow> bool) \<Rightarrow> (string \<Rightarrow> bool) \<Rightarrow> app_state \<Rightarrow> request \<Rightarrow> response + request" where
  "guard_chain readable utf8 st req =
     and_then (host_layer readable req) (\<lambda>r1.
     and_then (origin_layer readable st r1) (\<lambda>r2.
     and_then (authenticate readable st r2) (csrf_layer readable utf8)))"

definition serve_request ::
    "(string \<Rightarrow> bool) \<Rightarrow> (string \<Rightarrow> bool) \<Rightarrow> app_state \<Rightarrow> (request \<Rightarrow> response) \<Rightarrow> request \<Rightarrow> response" where
  "serve_request readable utf8 st handler req =
     referrer_policy (case guard_chain readable utf8 st req of Inl r \<Rightarrow> r | Inr admitted \<Rightarrow> handler admitted)"


section \<open>What the parsers accept\<close>

lemma strip_prefix_Some [simp]: "strip_prefix pre s = Some rest \<longleftrightarrow> s = pre @ rest"
  by (auto simp: strip_prefix_def) (metis append_take_drop_id)

lemma strip_prefix_None: "strip_prefix pre s = None \<longleftrightarrow> (\<forall>rest. s \<noteq> pre @ rest)"
  by (metis option.exhaust option.distinct(1) strip_prefix_Some)

lemma single_header_Some [simp]:
  "single_header readable headers name = Inr (Some v) \<longleftrightarrow> get_all headers name = [v] \<and> readable v"
  by (auto simp: single_header_def split: list.splits)

lemma single_header_None [simp]:
  "single_header readable headers name = Inr None \<longleftrightarrow> get_all headers name = []"
  by (auto simp: single_header_def split: list.splits)

definition port_suffix :: "string \<Rightarrow> nat \<Rightarrow> bool" where
  "port_suffix rest p \<longleftrightarrow>
     rest = [] \<and> p = 80
     \<or> (\<exists>ds. rest = CHR '':'' # ds \<and> ds \<noteq> [] \<and> list_all is_digit ds \<and> p = decimal_value ds \<and> p \<le> u16_max)"

definition loopback_name :: "string \<Rightarrow> bool" where
  "loopback_name name \<longleftrightarrow>
     name = ''[::1]'' \<or> name = ''127.0.0.1'' \<or> to_ascii_lowercase name = ''localhost''"

lemma port_of_Some: "port_of rest = Some p \<longleftrightarrow> port_suffix rest p"
proof (cases rest)
  case Nil
  then show ?thesis by (auto simp: port_of_def port_suffix_def)
next
  case (Cons c ds)
  then show ?thesis
    by (auto simp: port_of_def port_suffix_def strip_prefix_def parse_unsigned_digits split: if_splits)
qed

lemma lowercase_no_colon: "to_ascii_lowercase name = ''localhost'' \<Longrightarrow> CHR '':'' \<notin> set name"
proof
  assume eq: "to_ascii_lowercase name = ''localhost''" and "CHR '':'' \<in> set name"
  then have "ascii_lower (CHR '':'') \<in> set (to_ascii_lowercase name)" by (auto simp: to_ascii_lowercase_def)
  with eq show False by (simp add: ascii_lower_def)
qed

lemma takeWhile_stop:
  assumes "c \<notin> set xs" "rest = [] \<or> (\<exists>ds. rest = c # ds)"
  shows "takeWhile (\<lambda>x. x \<noteq> c) (xs @ rest) = xs \<and> dropWhile (\<lambda>x. x \<noteq> c) (xs @ rest) = rest"
  using assms by (induction xs) auto

lemma loopback_port_Some:
  "loopback_port a = Some p \<longleftrightarrow> (\<exists>name rest. a = name @ rest \<and> loopback_name name \<and> port_suffix rest p)"
proof
  assume parsed: "loopback_port a = Some p"
  show "\<exists>name rest. a = name @ rest \<and> loopback_name name \<and> port_suffix rest p"
  proof (cases "strip_prefix ''[::1]'' a")
    case None
    let ?name = "takeWhile (\<lambda>c. c \<noteq> CHR '':'') a" and ?rest = "dropWhile (\<lambda>c. c \<noteq> CHR '':'') a"
    have "eq_ignore_ascii_case ?name ''localhost'' \<or> ?name = ''127.0.0.1''" and "port_suffix ?rest p"
      using parsed None by (auto simp: loopback_port_def Let_def port_of_Some split: if_splits)
    moreover have "to_ascii_lowercase ''localhost'' = ''localhost''" by code_simp
    ultimately have "loopback_name ?name" "port_suffix ?rest p"
      by (auto simp: loopback_name_def eq_ignore_ascii_case_def)
    then show ?thesis by (metis takeWhile_dropWhile_id)
  next
    case (Some rest)
    with parsed have "port_suffix rest p" by (simp add: loopback_port_def port_of_Some strip_prefix_def)
    with Some show ?thesis
      by (intro exI[of _ "''[::1]''"] exI[of _ rest]) (simp add: loopback_name_def)
  qed
next
  assume "\<exists>name rest. a = name @ rest \<and> loopback_name name \<and> port_suffix rest p"
  then obtain name rest where a: "a = name @ rest" and name: "loopback_name name" and rest: "port_suffix rest p"
    by blast
  show "loopback_port a = Some p"
  proof (cases "name = ''[::1]''")
    case True
    with a have "strip_prefix ''[::1]'' a = Some rest" by simp
    with rest show ?thesis unfolding loopback_port_def by (simp only: option.case port_of_Some)
  next
    case False
    have colon: "CHR '':'' \<notin> set name"
      using name False lowercase_no_colon by (auto simp: loopback_name_def)
    have "rest = [] \<or> (\<exists>ds. rest = CHR '':'' # ds)" using rest by (auto simp: port_suffix_def)
    with colon have split: "takeWhile (\<lambda>c. c \<noteq> CHR '':'') a = name" "dropWhile (\<lambda>c. c \<noteq> CHR '':'') a = rest"
      unfolding a using takeWhile_stop[of "CHR '':''" name rest] by blast+
    have "to_ascii_lowercase ''localhost'' = ''localhost''" by code_simp
    with name False have known: "eq_ignore_ascii_case name ''localhost'' \<or> name = ''127.0.0.1''"
      by (auto simp: loopback_name_def eq_ignore_ascii_case_def)
    then have "name \<noteq> [] \<and> hd name \<noteq> CHR ''[''"
      by (cases name) (auto simp: eq_ignore_ascii_case_def to_ascii_lowercase_def ascii_lower_def)
    then have "strip_prefix ''[::1]'' a = None" unfolding strip_prefix_None a by (cases name) auto
    with known rest split show ?thesis
      by (auto simp: loopback_port_def Let_def port_of_Some)
  qed
qed

lemma byte_eq: "(of_nat (of_char a) :: 8 word) = of_nat (of_char b) \<longleftrightarrow> a = b"
proof
  assume "(of_nat (of_char a) :: 8 word) = of_nat (of_char b)"
  then have "(of_char a :: nat) mod 256 = of_char b mod 256" by (simp add: word_of_nat_eq_iff take_bit_eq_mod)
  then show "a = b" by (simp add: of_char_mod_256)
qed simp

lemma diff_zero:
  "foldl (\<lambda>diff (a, b). diff OR ((of_nat (of_char a) :: 8 word) XOR of_nat (of_char b))) d ps = 0
     \<longleftrightarrow> d = 0 \<and> (\<forall>p \<in> set ps. fst p = snd p)"
proof (induction ps arbitrary: d)
  case (Cons p ps)
  have "x XOR y = 0 \<longleftrightarrow> x = y" for x y :: "8 word" by (metis xor_self_eq xor.assoc xor.left_neutral)
  with Cons show ?case by (auto simp: or_eq_0_iff byte_eq split: prod.splits)
qed simp

text \<open>The comparison that takes the same time for all texts of a length decides equality.\<close>

lemma constant_time_eq_iff [simp]: "constant_time_eq l r \<longleftrightarrow> l = r"
proof (cases "length l = length r")
  case True
  then have "(\<forall>p \<in> set (zip l r). fst p = snd p) \<longleftrightarrow> l = r"
    by (induction l r rule: list_induct2) auto
  with True show ?thesis by (simp add: constant_time_eq_def diff_zero)
qed (auto simp: constant_time_eq_def)

text \<open>The pairs that all cookie fields together supply under a name, trimmed.\<close>

definition cookie_pairs :: "(string \<times> string) list \<Rightarrow> string \<Rightarrow> string list" where
  "cookie_pairs headers name =
     filter (\<lambda>pair. supplied_cookie name pair \<noteq> None)
       (map trim (concat (map (split_on (CHR '';'')) (get_all headers ''cookie''))))"

definition sole_cookie :: "(string \<Rightarrow> bool) \<Rightarrow> (string \<times> string) list \<Rightarrow> string \<Rightarrow> string \<Rightarrow> bool" where
  "sole_cookie readable headers name v \<longleftrightarrow>
     list_all readable (get_all headers ''cookie'') \<and> valid_token_value v
     \<and> cookie_pairs headers name = [name @ ''='' @ v]"

definition gathered :: "string \<Rightarrow> cookie_state \<Rightarrow> string list \<Rightarrow> cookie_state" where
  "gathered name found pairs =
     (case filter (\<lambda>pair. supplied_cookie name pair \<noteq> None) pairs of
        [] \<Rightarrow> found
      | [pair] \<Rightarrow> if found = CookieMissing then the (supplied_cookie name pair) else DuplicateOrUnreadable
      | _ \<Rightarrow> DuplicateOrUnreadable)"

lemma supplied_not_missing: "supplied_cookie name pair \<noteq> Some CookieMissing"
  by (auto simp: supplied_cookie_def split: option.splits)

lemma gathered_Cons:
  "gathered name found (pair # pairs) =
     gathered name (case supplied_cookie name pair of
                     None \<Rightarrow> found
                   | Some supplied \<Rightarrow> if found = CookieMissing then supplied else DuplicateOrUnreadable) pairs"
  using supplied_not_missing[of name pair]
  by (auto simp: gathered_def split: list.splits option.splits)

lemma gathered_append: "gathered name found (ps @ qs) = gathered name (gathered name found ps) qs"
proof (induction ps arbitrary: found)
  case Nil
  then show ?case by (simp add: gathered_def)
next
  case (Cons p ps)
  then show ?case by (simp add: gathered_Cons)
qed

lemma scan_pairs_gathered: "scan_pairs name pairs found = gathered name found (map trim pairs)"
proof (induction pairs arbitrary: found)
  case Nil
  then show ?case by (simp add: gathered_def)
next
  case (Cons p ps)
  then show ?case by (simp add: gathered_Cons)
qed

lemma scan_cookies_gathered:
  "scan_cookies readable name cs (found, unreadable) =
     (gathered name found (map trim (concat (map (split_on (CHR '';'')) (filter readable cs)))),
      unreadable \<or> \<not> list_all readable cs)"
proof (induction cs arbitrary: found unreadable)
  case Nil
  then show ?case by (simp add: gathered_def)
next
  case (Cons c cs)
  then show ?case by (simp add: scan_pairs_gathered gathered_append)
qed

lemma supplied_valid:
  "supplied_cookie name pair = Some (UniqueValidHex v) \<longleftrightarrow>
     valid_token_value v \<and> split_once (CHR ''='') pair = Some (name, v) \<and> trim name = name"
  by (auto simp: supplied_cookie_def split: option.splits if_splits)

lemma split_once_Some: "split_once c s = Some (a, b) \<longleftrightarrow> s = a @ c # b \<and> c \<notin> set a"
proof (induction s arbitrary: a)
  case (Cons x xs)
  then show ?case by (cases a) auto
qed simp

lemma cookie_value_valid:
  assumes "CHR ''='' \<notin> set name" "trim name = name"
  shows "cookie_value readable headers name = UniqueValidHex v \<longleftrightarrow> sole_cookie readable headers name v"
proof -
  let ?cs = "get_all headers ''cookie''"
  have kept: "list_all readable ?cs \<Longrightarrow> filter readable ?cs = ?cs"
    by (simp add: list_all_iff filter_id_conv)
  have pair: "supplied_cookie name pair = Some (UniqueValidHex v)
                \<longleftrightarrow> valid_token_value v \<and> pair = name @ ''='' @ v" for pair
    using assms by (auto simp: supplied_valid split_once_Some)
  have "cookie_value readable headers name = UniqueValidHex v \<longleftrightarrow>
          list_all readable ?cs \<and> (\<exists>pair. cookie_pairs headers name = [pair]
             \<and> supplied_cookie name pair = Some (UniqueValidHex v))"
    by (auto simp: cookie_value_def scan_cookies_gathered kept gathered_def cookie_pairs_def
             split: list.splits dest!: filter_eq_ConsD)
  then show ?thesis by (auto simp: sole_cookie_def pair)
qed

lemma cookie_names:
  "trim SESSION_COOKIE = SESSION_COOKIE" "CHR ''='' \<notin> set SESSION_COOKIE"
  "trim CSRF_COOKIE = CSRF_COOKIE" "CHR ''='' \<notin> set CSRF_COOKIE"
  by code_simp+

text \<open>The fields of a form that name the CSRF value, with or without a value.\<close>

definition names_csrf :: "string \<Rightarrow> bool" where
  "names_csrf pair \<longleftrightarrow>
     (case split_once (CHR ''='') pair of None \<Rightarrow> pair = CSRF_COOKIE | Some (key, v) \<Rightarrow> key = CSRF_COOKIE)"

lemma form_value_found: "form_value pairs (Some w) = Some c \<longleftrightarrow> w = c \<and> filter names_csrf pairs = []"
proof (induction pairs)
  case (Cons pair pairs)
  then show ?case by (auto simp: names_csrf_def split: option.splits)
qed simp

lemma form_value_None:
  "form_value pairs None = Some c \<longleftrightarrow>
     valid_token_value c \<and> filter names_csrf pairs = [CSRF_COOKIE @ ''='' @ c]"
proof (induction pairs)
  case (Cons pair pairs)
  show ?case
  proof (cases "split_once (CHR ''='') pair")
    case None
    have "split_once (CHR ''='') (CSRF_COOKIE @ ''='' @ c) = Some (CSRF_COOKIE, c)"
      using cookie_names by (simp add: split_once_Some)
    with None Cons show ?thesis by (auto simp: names_csrf_def)
  next
    case (Some kv)
    obtain key v where kv: "kv = (key, v)" by (cases kv)
    then have pair: "pair = key @ ''='' @ v" using Some by (simp add: split_once_Some)
    show ?thesis
    proof (cases "key = CSRF_COOKIE")
      case True
      with Some kv have "names_csrf pair" by (simp add: names_csrf_def)
      with True Some kv pair show ?thesis by (auto simp: form_value_found)
    next
      case False
      with Some kv Cons show ?thesis by (simp add: names_csrf_def)
    qed
  qed
qed simp


section \<open>What the chain admits\<close>

definition loopback_host :: "(string \<Rightarrow> bool) \<Rightarrow> request \<Rightarrow> bool" where
  "loopback_host readable req \<longleftrightarrow>
     (\<exists>name rest p. get_all (req_headers req) ''host'' = [name @ rest] \<and> readable (name @ rest)
                  \<and> loopback_name name \<and> port_suffix rest p)"

definition own_origin :: "(string \<Rightarrow> bool) \<Rightarrow> app_state \<Rightarrow> request \<Rightarrow> bool" where
  "own_origin readable st req \<longleftrightarrow>
     get_all (req_headers req) ''origin'' = []
     \<or> (\<exists>name rest. get_all (req_headers req) ''origin'' = [''http://'' @ name @ rest]
                    \<and> readable (''http://'' @ name @ rest)
                    \<and> loopback_name name \<and> port_suffix rest (app_bound_port st))"

definition presents_bearer :: "(string \<Rightarrow> bool) \<Rightarrow> app_state \<Rightarrow> request \<Rightarrow> bool" where
  "presents_bearer readable st req \<longleftrightarrow>
     (\<exists>scheme \<in> {''token '', ''Token ''}.
        get_all (req_headers req) ''authorization'' = [scheme @ app_token st] \<and> readable (scheme @ app_token st))"

definition presents_session :: "(string \<Rightarrow> bool) \<Rightarrow> app_state \<Rightarrow> request \<Rightarrow> bool" where
  "presents_session readable st req \<longleftrightarrow>
     get_all (req_headers req) ''authorization'' = []
     \<and> sole_cookie readable (req_headers req) SESSION_COOKIE (app_token st)"

text \<open>The value of the CSRF cookie comes a second time, in the header or, without one, in the form.\<close>

definition form_body :: "(string \<Rightarrow> bool) \<Rightarrow> (string \<Rightarrow> bool) \<Rightarrow> request \<Rightarrow> string \<Rightarrow> bool" where
  "form_body readable utf8 req body \<longleftrightarrow>
     (\<exists>ct. get_all (req_headers req) ''content-type'' = [ct] \<and> readable ct
        \<and> eq_ignore_ascii_case (trim (hd (split_on (CHR '';'') ct))) ''application/x-www-form-urlencoded'')
     \<and> req_body req = Some body \<and> length body \<le> CSRF_FORM_LIMIT \<and> utf8 body"

definition double_submit :: "(string \<Rightarrow> bool) \<Rightarrow> (string \<Rightarrow> bool) \<Rightarrow> request \<Rightarrow> bool" where
  "double_submit readable utf8 req \<longleftrightarrow>
     (\<exists>c. sole_cookie readable (req_headers req) CSRF_COOKIE c
        \<and> (get_all (req_headers req) CSRF_HEADER = [c] \<and> readable c
           \<or> get_all (req_headers req) CSRF_HEADER = []
             \<and> (\<exists>body. form_body readable utf8 req body
                      \<and> filter names_csrf (split_on (CHR ''&'') body) = [CSRF_COOKIE @ ''='' @ c])))"

lemma host_layer_Inr: "host_layer readable req = Inr r \<longleftrightarrow> r = req \<and> loopback_host readable req"
proof -
  have "host_layer readable req = Inr r \<longleftrightarrow>
          r = req \<and> (\<exists>h p. single_header readable (req_headers req) ''host'' = Inr (Some h) \<and> loopback_port h = Some p)"
    by (auto simp: host_layer_def simp del: single_header_Some split: sum.splits option.splits)
  then show ?thesis by (auto simp: loopback_host_def loopback_port_Some)
qed

lemma origin_layer_Inr:
  "origin_layer readable st req = Inr r \<longleftrightarrow>
     r = req \<and> (unsafe_method (req_method req) \<longrightarrow> own_origin readable st req)"
proof -
  have "origin_layer readable st req = Inr r \<longleftrightarrow>
          r = req \<and> (unsafe_method (req_method req) \<longrightarrow>
            single_header readable (req_headers req) ''origin'' = Inr None
            \<or> (\<exists>h. single_header readable (req_headers req) ''origin'' = Inr (Some h) \<and> origin_matches st h))"
    by (auto simp: origin_layer_def simp del: single_header_Some single_header_None
             split: sum.splits option.splits)
  moreover have "origin_matches st h \<longleftrightarrow> (\<exists>a. h = ''http://'' @ a \<and> loopback_port a = Some (app_bound_port st))" for h
  proof -
    have "origin_matches st h \<longleftrightarrow> Option.bind (strip_prefix ''http://'' h) loopback_port = Some (app_bound_port st)"
      by (auto simp: origin_matches_def split: option.splits)
    then show ?thesis by (simp add: bind_eq_Some_conv)
  qed
  ultimately show ?thesis unfolding own_origin_def loopback_port_Some by (auto 0 3)
qed

lemma auth_of_Bearer: "auth_of readable st req = Inr Bearer \<longleftrightarrow> presents_bearer readable st req"
proof -
  have "bearer_token v = Some t \<longleftrightarrow> v = ''token '' @ t \<or> v = ''Token '' @ t" for v t
    by (auto simp: bearer_token_def strip_prefix_None split: option.splits)
  moreover have "auth_of readable st req = Inr Bearer \<longleftrightarrow>
      (\<exists>v. single_header readable (req_headers req) ''authorization'' = Inr (Some v) \<and> bearer_token v = Some (app_token st))"
    by (auto simp: auth_of_def simp del: single_header_Some single_header_None
             split: sum.splits option.splits if_splits cookie_state.splits)
  ultimately show ?thesis by (auto simp: presents_bearer_def)
qed

lemma auth_of_Session: "auth_of readable st req = Inr Session \<longleftrightarrow> presents_session readable st req"
proof -
  have "auth_of readable st req = Inr Session \<longleftrightarrow>
      single_header readable (req_headers req) ''authorization'' = Inr None
      \<and> cookie_value readable (req_headers req) SESSION_COOKIE = UniqueValidHex (app_token st)"
    by (auto simp: auth_of_def simp del: single_header_Some single_header_None
             split: sum.splits option.splits if_splits cookie_state.splits)
  then show ?thesis by (simp add: presents_session_def cookie_value_valid cookie_names)
qed

text \<open>A request without a credential: no Authorization field, and no session cookie that holds the token.\<close>

definition anonymous :: "(string \<Rightarrow> bool) \<Rightarrow> app_state \<Rightarrow> request \<Rightarrow> bool" where
  "anonymous readable st req \<longleftrightarrow>
     get_all (req_headers req) ''authorization'' = []
     \<and> \<not> sole_cookie readable (req_headers req) SESSION_COOKIE (app_token st)
     \<and> (entry_request req
        \<or> cookie_value readable (req_headers req) SESSION_COOKIE \<notin> {UniqueReadableMalformed, DuplicateOrUnreadable})"

lemma auth_of_Unauthenticated: "auth_of readable st req = Inr Unauthenticated \<longleftrightarrow> anonymous readable st req"
proof -
  have "auth_of readable st req = Inr Unauthenticated \<longleftrightarrow>
      single_header readable (req_headers req) ''authorization'' = Inr None
      \<and> cookie_value readable (req_headers req) SESSION_COOKIE \<noteq> UniqueValidHex (app_token st)
      \<and> (entry_request req
         \<or> cookie_value readable (req_headers req) SESSION_COOKIE \<notin> {UniqueReadableMalformed, DuplicateOrUnreadable})"
    by (auto simp: auth_of_def simp del: single_header_Some single_header_None
             split: sum.splits option.splits if_splits cookie_state.splits)
  then show ?thesis by (simp add: anonymous_def cookie_value_valid cookie_names)
qed

lemma csrf_echo_Some:
  "csrf_echo readable utf8 req = (Some c, r) \<longleftrightarrow>
     r = req \<and> valid_token_value c
     \<and> (get_all (req_headers req) CSRF_HEADER = [c] \<and> readable c
        \<or> get_all (req_headers req) CSRF_HEADER = []
          \<and> (\<exists>body. form_body readable utf8 req body
                   \<and> filter names_csrf (split_on (CHR ''&'') body) = [CSRF_COOKIE @ ''='' @ c]))"
proof -
  have "csrf_from_form_field readable utf8 req = (Some c, r) \<longleftrightarrow>
      r = req \<and> (\<exists>ct body. single_header readable (req_headers req) ''content-type'' = Inr (Some ct)
        \<and> eq_ignore_ascii_case (trim (hd (split_on (CHR '';'') ct))) ''application/x-www-form-urlencoded''
        \<and> req_body req = Some body \<and> length body \<le> CSRF_FORM_LIMIT \<and> utf8 body \<and> csrf_form_value body = Some c)"
    by (auto simp: csrf_from_form_field_def simp del: single_header_Some
             split: sum.splits option.splits if_splits)
  then have form: "csrf_from_form_field readable utf8 req = (Some c, r) \<longleftrightarrow>
      r = req \<and> (\<exists>body. form_body readable utf8 req body \<and> csrf_form_value body = Some c)"
    by (auto simp: form_body_def)
  have "csrf_echo readable utf8 req = (Some c, r) \<longleftrightarrow>
      single_header readable (req_headers req) CSRF_HEADER = Inr (Some c) \<and> valid_token_value c \<and> r = req
      \<or> single_header readable (req_headers req) CSRF_HEADER = Inr None
        \<and> csrf_from_form_field readable utf8 req = (Some c, r)"
    by (auto simp: csrf_echo_def simp del: single_header_Some single_header_None
             split: sum.splits option.splits if_splits)
  then show ?thesis by (auto simp: form csrf_form_value_def form_value_None)
qed

text \<open>What a request with the session cookie must show besides it.\<close>

definition csrf_clear :: "(string \<Rightarrow> bool) \<Rightarrow> (string \<Rightarrow> bool) \<Rightarrow> request \<Rightarrow> bool" where
  "csrf_clear readable utf8 req \<longleftrightarrow>
     (req_method req = GET \<and> req_path req = session_path \<longrightarrow>
        cookie_value readable (req_headers req) CSRF_COOKIE \<notin> {UniqueReadableMalformed, DuplicateOrUnreadable})
     \<and> (unsafe_method (req_method req) \<longrightarrow>
          double_submit readable utf8 req
          \<or> paste_request req \<and> get_all (req_headers req) CSRF_HEADER = []
            \<and> cookie_value readable (req_headers req) CSRF_COOKIE = UniqueReadableMalformed)"

lemma csrf_layer_exempt: "req_auth req \<noteq> Some Session \<Longrightarrow> csrf_layer readable utf8 req = Inr req"
  by (auto simp: csrf_layer_def split: option.splits)

lemma double_submit_echo:
  "double_submit readable utf8 req \<longleftrightarrow>
     (\<exists>c. cookie_value readable (req_headers req) CSRF_COOKIE = UniqueValidHex c
        \<and> csrf_echo readable utf8 req = (Some c, req))"
  by (auto simp: double_submit_def csrf_echo_Some cookie_value_valid cookie_names sole_cookie_def)

lemma csrf_layer_session:
  assumes "req_auth req = Some Session"
  shows "csrf_layer readable utf8 req = Inr r \<longleftrightarrow> r = req \<and> csrf_clear readable utf8 req"
proof -
  have same: "csrf_echo readable utf8 req = (Some c, r') \<Longrightarrow> r' = req" for c r'
    by (simp add: csrf_echo_Some)
  obtain echoed r' where echo: "csrf_echo readable utf8 req = (echoed, r')" by fastforce
  have safe: "\<not> unsafe_method GET" by (simp add: unsafe_method_def)
  show ?thesis
    using assms same echo safe
    by (cases "cookie_value readable (req_headers req) CSRF_COOKIE"; cases echoed)
       (auto simp: csrf_layer_def csrf_clear_def double_submit_echo)
qed

lemma csrf_clear_auth [simp]:
  "csrf_clear readable utf8 (req\<lparr>req_auth := a\<rparr>) = csrf_clear readable utf8 req"
  by (simp add: csrf_clear_def double_submit_def form_body_def paste_request_def)

lemma authenticate_Inr:
  "authenticate readable st req = Inr r \<longleftrightarrow>
     (\<exists>auth. auth_of readable st req = Inr auth \<and> r = req\<lparr>req_auth := Some auth\<rparr>
           \<and> (auth = Unauthenticated \<longrightarrow> entry_request req \<or> paste_request req))"
  by (auto simp: authenticate_def and_then_def split: sum.splits)

lemma csrf_layer_authed:
  "csrf_layer readable utf8 (req\<lparr>req_auth := Some auth\<rparr>) = Inr r \<longleftrightarrow>
     r = req\<lparr>req_auth := Some auth\<rparr> \<and> (auth = Session \<longrightarrow> csrf_clear readable utf8 req)"
  by (cases "auth = Session") (auto simp: csrf_layer_session csrf_layer_exempt)

lemma guard_chain_Inr:
  "guard_chain readable utf8 st req = Inr r \<longleftrightarrow>
     loopback_host readable req
     \<and> (unsafe_method (req_method req) \<longrightarrow> own_origin readable st req)
     \<and> (\<exists>authed. authenticate readable st req = Inr authed \<and> csrf_layer readable utf8 authed = Inr r)"
  by (auto simp: guard_chain_def and_then_eq_Inr host_layer_Inr origin_layer_Inr)

definition refusal :: "response \<Rightarrow> bool" where
  "refusal r \<longleftrightarrow> r = unauthorized \<or> (\<exists>msg. r = refused msg)"

lemma host_layer_Inl: "host_layer readable req = Inl r \<Longrightarrow> refusal r"
  by (auto simp: host_layer_def refusal_def split: sum.splits option.splits if_splits)

lemma origin_layer_Inl: "origin_layer readable st req = Inl r \<Longrightarrow> refusal r"
  by (auto simp: origin_layer_def refusal_def split: sum.splits option.splits if_splits)

lemma auth_of_Inl: "auth_of readable st req = Inl r \<Longrightarrow> refusal r"
  by (auto simp: auth_of_def refusal_def split: sum.splits option.splits if_splits cookie_state.splits)

lemma csrf_layer_Inl: "csrf_layer readable utf8 req = Inl r \<Longrightarrow> refusal r"
  unfolding csrf_layer_def Let_def refusal_def
  by (cases "cookie_value readable (req_headers req) CSRF_COOKIE")
     (auto split: option.splits if_splits prod.splits)

lemma guard_refusal: "guard_chain readable utf8 st req = Inl r \<Longrightarrow> refusal r"
  using host_layer_Inl origin_layer_Inl auth_of_Inl csrf_layer_Inl
  by (auto simp: guard_chain_def authenticate_def and_then_eq_Inl refusal_def[of unauthorized] split: if_splits)

lemma ex_auth_kind: "(\<exists>auth. P auth) \<longleftrightarrow> P Bearer \<or> P Session \<or> P Unauthenticated"
  by (metis auth_kind.exhaust)

text \<open>
  C8: A request reaches a handler exactly when it has one readable loopback Host; a POST, PUT,
  PATCH or DELETE names no Origin or this server's own; and it presents the token in the one
  Authorization field, or without such a field in the one session cookie and then also passes
  the CSRF check (an unsafe request sends the value of the one CSRF cookie a second time), or
  is a GET outside \<^verbatim>\<open>/api/\<close> or the paste of the token. The handler sees the request unchanged
  but for the recorded kind of authentication.
\<close>

theorem guard_admits:
  "guard_chain readable utf8 st req = Inr r \<longleftrightarrow>
     loopback_host readable req
     \<and> (unsafe_method (req_method req) \<longrightarrow> own_origin readable st req)
     \<and> (presents_bearer readable st req \<and> r = req\<lparr>req_auth := Some Bearer\<rparr>
        \<or> presents_session readable st req \<and> csrf_clear readable utf8 req \<and> r = req\<lparr>req_auth := Some Session\<rparr>
        \<or> anonymous readable st req \<and> (entry_request req \<or> paste_request req)
          \<and> r = req\<lparr>req_auth := Some Unauthenticated\<rparr>)"
proof -
  have "(\<exists>authed. authenticate readable st req = Inr authed \<and> csrf_layer readable utf8 authed = Inr r) \<longleftrightarrow>
      (\<exists>auth. auth_of readable st req = Inr auth
         \<and> (auth = Unauthenticated \<longrightarrow> entry_request req \<or> paste_request req)
         \<and> (auth = Session \<longrightarrow> csrf_clear readable utf8 req) \<and> r = req\<lparr>req_auth := Some auth\<rparr>)"
    by (auto simp: authenticate_Inr csrf_layer_authed)
  then show ?thesis
    by (auto simp: guard_chain_Inr ex_auth_kind auth_of_Bearer auth_of_Session auth_of_Unauthenticated)
qed

text \<open>
  Every answer carries the header \<^verbatim>\<open>Referrer-Policy: no-referrer\<close> once, and a request that the
  chain does not admit is answered with 401 or 403 and an error envelope, whatever the handlers do.
\<close>

theorem guard_screens:
  "get_all (resp_headers (serve_request readable utf8 st handler req)) ''referrer-policy'' = [''no-referrer'']
   \<and> ((\<forall>r. guard_chain readable utf8 st req \<noteq> Inr r) \<longrightarrow>
        resp_status (serve_request readable utf8 st handler req) \<in> {401, 403}
        \<and> (\<exists>category msg. resp_body (serve_request readable utf8 st handler req) = ErrorEnvelope category msg)
        \<and> serve_request readable utf8 st handler req = serve_request readable utf8 st other req)"
proof (intro conjI impI)
  show "get_all (resp_headers (serve_request readable utf8 st handler req)) ''referrer-policy'' = [''no-referrer'']"
    by (simp add: serve_request_def referrer_policy_def insert_header_def get_all_def)
next
  assume "\<forall>r. guard_chain readable utf8 st req \<noteq> Inr r"
  then obtain r where r: "guard_chain readable utf8 st req = Inl r" by (metis sum.exhaust)
  with guard_refusal[OF r] show
    "resp_status (serve_request readable utf8 st handler req) \<in> {401, 403}"
    "\<exists>category msg. resp_body (serve_request readable utf8 st handler req) = ErrorEnvelope category msg"
    "serve_request readable utf8 st handler req = serve_request readable utf8 st other req"
    by (auto simp: serve_request_def referrer_policy_def insert_header_def refusal_def refused_def
                   unauthorized_def envelope_error_def)
qed


section \<open>Instances\<close>

lemma trim_end_printable: "list_all printable s \<Longrightarrow> trim_end s = s"
proof (induction s)
  case (Cons c cs)
  then have "split_whitespace (c # cs) \<noteq> []"
    unfolding split_whitespace_def by (intro split_whitespace_printable[of c]) simp_all
  with Cons show ?case by simp
qed simp

lemma trim_start_printable: "list_all printable s \<Longrightarrow> trim_start s = s"
  by (subst trim_start.simps) (cases s; simp add: white_space_at_printable white_space_at_def[of "[]"])

lemma trim_printable: "list_all printable s \<Longrightarrow> trim s = s"
  by (simp add: trim_def trim_start_printable trim_end_printable del: trim_start.simps)

lemma trim_space: "list_all printable s \<Longrightarrow> trim (CHR '' '' # s) = s"
proof -
  assume s: "list_all printable s"
  have "white_space_at (CHR '' '' # s) = 1" by (simp add: white_space_at_def)
  then have "trim_start (CHR '' '' # s) = trim_start s" by (subst trim_start.simps) simp
  with s show ?thesis by (simp add: trim_def trim_start_printable trim_end_printable del: trim_start.simps)
qed

definition sample_token :: string where
  "sample_token = concat (replicate 4 ''0123456789abcdef'')"

definition sample_csrf :: string where
  "sample_csrf = concat (replicate 4 ''abcdef0123456789'')"

definition sample_state :: app_state where
  "sample_state = \<lparr>app_token = sample_token, app_bound_port = 10824\<rparr>"

text \<open>A run started from the dashboard: both cookies in one field, the CSRF value again in the header.\<close>

definition sample_request :: request where
  "sample_request =
     \<lparr>req_method = POST, req_path = ''/api/v1/jobs/j/run'',
      req_headers = [(''host'', ''LocalHost:10824''), (''origin'', ''http://localhost:10824''),
        (''cookie'', SESSION_COOKIE @ ''='' @ sample_token @ ''; '' @ CSRF_COOKIE @ ''='' @ sample_csrf),
        (CSRF_HEADER, sample_csrf)],
      req_body = Some [], req_auth = None\<rparr>"

lemma sample_host: "loopback_name ''LocalHost''" "loopback_name ''localhost''" "port_suffix '':10824'' 10824"
proof -
  have "to_ascii_lowercase ''LocalHost'' = ''localhost''" "to_ascii_lowercase ''localhost'' = ''localhost''"
    by code_simp+
  then show "loopback_name ''LocalHost''" "loopback_name ''localhost''" by (simp_all add: loopback_name_def)
  show "port_suffix '':10824'' 10824"
    by (simp add: port_suffix_def is_digit_def decimal_value_def digit_value_def u16_max_def)
qed

lemma sample_loopback: "loopback_host (\<lambda>_. True) sample_request"
proof -
  have "get_all (req_headers sample_request) ''host'' = [''LocalHost'' @ '':10824'']"
    by (simp add: sample_request_def get_all_def CSRF_HEADER_def)
  with sample_host show ?thesis unfolding loopback_host_def by blast
qed

lemma sample_origin: "own_origin (\<lambda>_. True) sample_state sample_request"
proof -
  have "get_all (req_headers sample_request) ''origin'' = [''http://'' @ ''localhost'' @ '':10824'']"
       "app_bound_port sample_state = 10824"
    by (simp_all add: sample_request_def sample_state_def get_all_def CSRF_HEADER_def)
  with sample_host show ?thesis unfolding own_origin_def by metis
qed

lemma sample_pieces:
  "get_all (req_headers sample_request) ''cookie''
     = [SESSION_COOKIE @ ''='' @ sample_token @ ''; '' @ CSRF_COOKIE @ ''='' @ sample_csrf]"
  "split_on (CHR '';'') (SESSION_COOKIE @ ''='' @ sample_token @ ''; '' @ CSRF_COOKIE @ ''='' @ sample_csrf)
     = [SESSION_COOKIE @ ''='' @ sample_token, CHR '' '' # CSRF_COOKIE @ ''='' @ sample_csrf]"
  "list_all printable (SESSION_COOKIE @ ''='' @ sample_token)"
  "list_all printable (CSRF_COOKIE @ ''='' @ sample_csrf)"
  "valid_token_value sample_token" "valid_token_value sample_csrf"
  by code_simp+

lemma sample_names:
  "supplied_cookie SESSION_COOKIE (SESSION_COOKIE @ ''='' @ sample_token) \<noteq> None"
  "supplied_cookie SESSION_COOKIE (CSRF_COOKIE @ ''='' @ sample_csrf) = None"
  "supplied_cookie CSRF_COOKIE (SESSION_COOKIE @ ''='' @ sample_token) = None"
  "supplied_cookie CSRF_COOKIE (CSRF_COOKIE @ ''='' @ sample_csrf) \<noteq> None"
proof -
  have key: "CHR ''='' \<notin> set k \<Longrightarrow> split_once (CHR ''='') (k @ ''='' @ v) = Some (k, v)" for k v
    by (simp add: split_once_Some)
  have "SESSION_COOKIE \<noteq> CSRF_COOKIE" by code_simp
  then show
    "supplied_cookie SESSION_COOKIE (SESSION_COOKIE @ ''='' @ sample_token) \<noteq> None"
    "supplied_cookie SESSION_COOKIE (CSRF_COOKIE @ ''='' @ sample_csrf) = None"
    "supplied_cookie CSRF_COOKIE (SESSION_COOKIE @ ''='' @ sample_token) = None"
    "supplied_cookie CSRF_COOKIE (CSRF_COOKIE @ ''='' @ sample_csrf) \<noteq> None"
    unfolding supplied_cookie_def key[OF cookie_names(2)] key[OF cookie_names(4)]
    by (simp_all add: cookie_names)
qed

lemma sample_cookies:
  "sole_cookie (\<lambda>_. True) (req_headers sample_request) SESSION_COOKIE sample_token"
  "sole_cookie (\<lambda>_. True) (req_headers sample_request) CSRF_COOKIE sample_csrf"
proof -
  have "map trim (concat (map (split_on (CHR '';'')) (get_all (req_headers sample_request) ''cookie'')))
          = [SESSION_COOKIE @ ''='' @ sample_token, CSRF_COOKIE @ ''='' @ sample_csrf]"
    using sample_pieces(1,2) trim_printable[OF sample_pieces(3)] trim_space[OF sample_pieces(4)] by simp
  then show
    "sole_cookie (\<lambda>_. True) (req_headers sample_request) SESSION_COOKIE sample_token"
    "sole_cookie (\<lambda>_. True) (req_headers sample_request) CSRF_COOKIE sample_csrf"
    unfolding sole_cookie_def cookie_pairs_def
    using sample_pieces(5,6) sample_names by (simp_all add: list_all_iff)
qed

lemma sample_submit: "double_submit (\<lambda>_. True) (\<lambda>_. True) sample_request"
proof -
  have "get_all (req_headers sample_request) CSRF_HEADER = [sample_csrf]" by code_simp
  with sample_cookies show ?thesis unfolding double_submit_def by blast
qed

theorem guard_admits_witness:
  "guard_chain (\<lambda>_. True) (\<lambda>_. True) sample_state sample_request = Inr (sample_request\<lparr>req_auth := Some Session\<rparr>)
   \<and> unsafe_method (req_method sample_request) \<and> own_origin (\<lambda>_. True) sample_state sample_request
   \<and> presents_session (\<lambda>_. True) sample_state sample_request"
proof -
  have unsafe: "unsafe_method (req_method sample_request)" by code_simp
  have session: "presents_session (\<lambda>_. True) sample_state sample_request"
  proof -
    have "get_all (req_headers sample_request) ''authorization'' = []" by code_simp
    with sample_cookies show ?thesis by (simp add: presents_session_def sample_state_def)
  qed
  have "csrf_clear (\<lambda>_. True) (\<lambda>_. True) sample_request"
    using sample_submit by (simp add: csrf_clear_def sample_request_def)
  then show ?thesis
    using guard_admits[of "\<lambda>_. True" "\<lambda>_. True" sample_state sample_request
        "sample_request\<lparr>req_auth := Some Session\<rparr>"] unsafe session sample_loopback sample_origin
    by blast
qed

definition sample_page :: response where
  "sample_page = \<lparr>resp_status = 200, resp_headers = [], resp_body = HandlerBody ''page''\<rparr>"

theorem guard_screens_witness:
  "resp_status (serve_request (\<lambda>_. True) (\<lambda>_. True) sample_state (\<lambda>_. sample_page)
     (sample_request\<lparr>req_headers := [(''host'', ''attacker.example'')]\<rparr>)) \<in> {401, 403}"
proof -
  have "\<forall>r. guard_chain (\<lambda>_. True) (\<lambda>_. True) sample_state
               (sample_request\<lparr>req_headers := [(''host'', ''attacker.example'')]\<rparr>) \<noteq> Inr r"
  proof -
    have "guard_chain (\<lambda>_. True) (\<lambda>_. True) sample_state
            (sample_request\<lparr>req_headers := [(''host'', ''attacker.example'')]\<rparr>)
            = Inl (refused ''request requires one valid loopback Host header'')"
      by code_simp
    then show ?thesis by simp
  qed
  with guard_screens[of "\<lambda>_. True" "\<lambda>_. True" sample_state "\<lambda>_. sample_page"
        "sample_request\<lparr>req_headers := [(''host'', ''attacker.example'')]\<rparr>"]
  show ?thesis by blast
qed

end
