(* ===== verification/Job_Transfer.thy ===== *)
theory Job_Transfer
  imports Job_Contracts Command Redaction
begin

text \<open>
  Export and import of jobs by the dashboard, \<^verbatim>\<open>crates/locron-server/src/transfer.rs\<close>, with the
  handler \<open>import_document\<close> of \<^verbatim>\<open>api.rs\<close>, and the export of the command line, \<open>export_job\<close> of
  \<^verbatim>\<open>crates/locron-cli/src/main.rs\<close>. Reading and printing of documents, definitions and tags belong
  to the package serde and are the fields of \<open>transfer_codecs\<close>; fresh identities are an argument.
\<close>

section \<open>Documents\<close>

datatype values_mode = RedactedValues | PlaintextValues

record export_job =
  xj_id :: string
  xj_name :: string
  xj_description :: "string option"
  xj_tags :: "string list"
  xj_enabled :: bool
  xj_definition :: job_definition
  xj_omitted_values :: "string list"

record export_document =
  xd_schema :: string
  xd_values_mode :: values_mode
  xd_settings :: settings_record
  xd_jobs :: "export_job list"
  xd_omitted_values :: "string list"

record transfer_codecs =
  document_from_slice :: "string \<Rightarrow> string + export_document"
  definition_to_string :: "job_definition \<Rightarrow> string + string"
  definition_to_value :: "job_definition \<Rightarrow> string + json"
  definition_from_value :: "json \<Rightarrow> string + job_definition"
  tags_from_str :: "string \<Rightarrow> string + string list"
  tags_to_string :: "string list \<Rightarrow> string"

datatype transfer_error =
    TransferStore store_error
  | TransferValidation validation_error
  | TransferMessage nat string string

type_synonym 'a transfer_result = "transfer_error + 'a"

definition EXPORT_SCHEMA :: string where
  "EXPORT_SCHEMA = ''locron.export/v1''"

definition default_execution_path :: string where
  "default_execution_path = ''/usr/local/bin:/usr/bin:/bin''"

definition default_settings :: settings_record where
  "default_settings =
     \<lparr>rec_global_concurrency = 16, rec_execution_path = default_execution_path,
      rec_run_retention_count = 10000, rec_run_retention_age = Some 7776000000000,
      rec_output_limit = 268435456, rec_per_run_output_limit = 10485760, rec_environment = []\<rparr>"

definition invalid_request :: "string \<Rightarrow> transfer_error" where
  "invalid_request msg = TransferMessage 400 ''invalid_request'' msg"

definition durable_conflict :: "string \<Rightarrow> transfer_error" where
  "durable_conflict msg = TransferMessage 409 ''durable_conflict'' msg"

text \<open>The elements of a \<open>BTreeSet\<close> of strings in order.\<close>

definition btree_set :: "string list \<Rightarrow> string list" where
  "btree_set xs = sort (remdups xs)"


section \<open>Export\<close>

fun as_object :: "json \<Rightarrow> (string \<times> json) list option" where
  "as_object (JObject members) = Some members"
| "as_object _ = None"

text \<open>\<open>Value::pointer\<close> with two keys.\<close>

definition pointer2 :: "json \<Rightarrow> string \<Rightarrow> string \<Rightarrow> json option" where
  "pointer2 v a b = Option.bind (member v a) (\<lambda>x. member x b)"

definition update2 :: "string \<Rightarrow> string \<Rightarrow> (json \<Rightarrow> json) \<Rightarrow> json \<Rightarrow> json" where
  "update2 a b f = update_key a (update_key b f)"

definition inline_header :: "json \<Rightarrow> bool" where
  "inline_header header \<longleftrightarrow> Option.bind (member header ''source'') as_str = Some ''inline''"

definition redact_export_definition :: "json \<Rightarrow> json \<times> string list" where
  "redact_export_definition definition_doc =
     (let (v1, o1) =
            (case Option.bind (pointer2 definition_doc ''environment'' ''values'') as_object of
               Some entries \<Rightarrow>
                 (update2 ''environment'' ''values'' (\<lambda>_. JObject []) definition_doc,
                  map (\<lambda>e. ''definition.environment.values.'' @ fst e) entries)
             | None \<Rightarrow> (definition_doc, []));
          (v2, o2) =
            (case Option.bind (pointer2 v1 ''target'' ''headers'') as_object of
               Some headers \<Rightarrow>
                 (update2 ''target'' ''headers'' (\<lambda>_. JObject (filter (\<lambda>h. \<not> inline_header (snd h)) headers)) v1,
                  map (\<lambda>h. ''definition.target.headers.'' @ fst h) (filter (\<lambda>h. inline_header (snd h)) headers))
             | None \<Rightarrow> (v1, []));
          (v3, o3) =
            (if (case pointer2 v2 ''target'' ''body'' of None \<Rightarrow> False | Some body \<Rightarrow> as_object body \<noteq> None)
             then (update2 ''target'' ''body'' (\<lambda>_. JNull) v2, [''definition.target.body''])
             else (v2, []))
      in (v3, btree_set (o1 @ o2 @ o3)))"

text \<open>Records in the order of their first reference, each once.\<close>

fun add_unseen :: "job_record list \<Rightarrow> job_record list \<Rightarrow> job_record list" where
  "add_unseen picked [] = picked"
| "add_unseen picked (r # rs) =
     add_unseen (if jr_id r \<in> jr_id ` set picked then picked else picked @ [r]) rs"

fun select_matching ::
    "(string \<Rightarrow> job_record \<Rightarrow> bool) \<Rightarrow> string \<Rightarrow> job_record list \<Rightarrow> string list \<Rightarrow> job_record list
     \<Rightarrow> job_record list transfer_result" where
  "select_matching matches complaint records [] picked = Inr picked"
| "select_matching matches complaint records (reference # references) picked =
     (let matched = filter (matches reference) records
      in if matched = [] then Inl (invalid_request (complaint @ reference))
         else select_matching matches complaint records references (add_unseen picked matched))"

definition names_reference :: "string \<Rightarrow> job_record \<Rightarrow> bool" where
  "names_reference reference r \<longleftrightarrow> jr_name r = reference \<or> jr_id r = reference"

definition has_tag :: "transfer_codecs \<Rightarrow> string \<Rightarrow> job_record \<Rightarrow> bool" where
  "has_tag T tag r \<longleftrightarrow> (case tags_from_str T (jr_tags_json r) of Inl _ \<Rightarrow> False | Inr tags \<Rightarrow> tag \<in> set tags)"

definition export_record ::
    "codecs \<Rightarrow> transfer_codecs \<Rightarrow> bool \<Rightarrow> job_record \<Rightarrow> export_job transfer_result" where
  "export_record D T plaintext r =
     and_then (map_err (\<lambda>e. TransferStore (StoreJson e)) (from_str D (jr_definition_json r))) (\<lambda>doc.
       let (out, omitted) = (if plaintext then (doc, []) else redact_export_definition doc)
       in and_then (map_err (\<lambda>e. TransferStore (StoreJson e)) (tags_from_str T (jr_tags_json r))) (\<lambda>tags.
          and_then (map_err (\<lambda>e. TransferStore (StoreJson e)) (definition_from_value T out)) (\<lambda>def.
            Inr \<lparr>xj_id = jr_id r, xj_name = jr_name r, xj_description = jr_description r, xj_tags = tags,
                 xj_enabled = jr_enabled r, xj_definition = def, xj_omitted_values = omitted\<rparr>)))"

definition build_export_document ::
    "codecs \<Rightarrow> transfer_codecs \<Rightarrow> bool \<Rightarrow> store \<Rightarrow> string list \<Rightarrow> string list \<Rightarrow> bool
     \<Rightarrow> export_document transfer_result" where
  "build_export_document D T windows s references tags plaintext =
     (let listed = list_jobs s True
      in and_then
           (if references = [] \<and> tags = [] then Inr listed
            else and_then (select_matching names_reference ''no job matches '' listed references []) (\<lambda>chosen.
                 select_matching (has_tag T) ''no jobs match tag '' listed tags chosen)) (\<lambda>records.
         and_then (map_err TransferStore (read_settings D windows s)) (\<lambda>current.
         and_then (collect (export_record D T plaintext) (sort_key jr_name records)) (\<lambda>exported.
           Inr \<lparr>xd_schema = EXPORT_SCHEMA,
                xd_values_mode = (if plaintext then PlaintextValues else RedactedValues),
                xd_settings = (if plaintext then current else current\<lparr>rec_environment := []\<rparr>),
                xd_jobs = exported,
                xd_omitted_values =
                  (if plaintext then []
                   else btree_set (map (\<lambda>e. ''settings.environment.'' @ fst e) (rec_environment current)))\<rparr>))))"

text \<open>The export of the command line works on the typed definition.\<close>

definition inline_source :: "http_header_source \<Rightarrow> bool" where
  "inline_source h \<longleftrightarrow> (case h of Inline _ \<Rightarrow> True | FromEnvironment _ \<Rightarrow> False)"

definition redact_target :: "target \<Rightarrow> target \<times> string list" where
  "redact_target t =
     (case t of
        Http http \<Rightarrow>
          (Http (http\<lparr>http_headers := filter (\<lambda>h. \<not> inline_source (snd h)) (http_headers http), http_body := None\<rparr>),
           map (\<lambda>h. ''definition.target.headers.'' @ fst h) (filter (\<lambda>h. inline_source (snd h)) (http_headers http))
           @ (if http_body http = None then [] else [''definition.target.body'']))
      | _ \<Rightarrow> (t, []))"

definition cli_redact :: "job_definition \<Rightarrow> job_definition \<times> string list" where
  "cli_redact def =
     (let (target, omitted) = redact_target (definition_target def)
      in (def\<lparr>definition_environment := (definition_environment def)\<lparr>env_values := []\<rparr>, definition_target := target\<rparr>,
          sort (map (\<lambda>e. ''definition.environment.values.'' @ fst e) (env_values (definition_environment def)) @ omitted)))"

definition cli_export_job ::
    "codecs \<Rightarrow> transfer_codecs \<Rightarrow> values_mode \<Rightarrow> job_record \<Rightarrow> string + export_job" where
  "cli_export_job D T mode r =
     and_then (ok_or ''invalid definition'' (definition_from_str D (jr_definition_json r))) (\<lambda>def.
       let (out, omitted) = (if mode = RedactedValues then cli_redact def else (def, []))
       in and_then (tags_from_str T (jr_tags_json r)) (\<lambda>tags.
            Inr \<lparr>xj_id = jr_id r, xj_name = jr_name r, xj_description = jr_description r, xj_tags = tags,
                 xj_enabled = jr_enabled r, xj_definition = out, xj_omitted_values = omitted\<rparr>))"

definition definition_contains_inline_values :: "job_definition \<Rightarrow> bool" where
  "definition_contains_inline_values def \<longleftrightarrow>
     env_values (definition_environment def) \<noteq> []
     \<or> (case definition_target def of
          Http http \<Rightarrow> http_body http \<noteq> None \<or> list_ex (\<lambda>h. inline_source (snd h)) (http_headers http)
        | _ \<Rightarrow> False)"


section \<open>Reading a document\<close>

definition lowercase_canonical_uuid :: "string \<Rightarrow> bool" where
  "lowercase_canonical_uuid v \<longleftrightarrow>
     list_all (\<lambda>b. b \<in> set ''0123456789abcdef-'') v \<and> map length (split_on (CHR ''-'') v) = [8, 4, 4, 4, 12]"

definition contains_inline_plaintext :: "json \<Rightarrow> bool" where
  "contains_inline_plaintext doc \<longleftrightarrow>
     (case Option.bind (pointer2 doc ''environment'' ''values'') as_object of None \<Rightarrow> False | Some es \<Rightarrow> es \<noteq> [])
     \<or> (case Option.bind (pointer2 doc ''target'' ''headers'') as_object of
          None \<Rightarrow> False | Some hs \<Rightarrow> list_ex (\<lambda>h. inline_header (snd h)) hs)
     \<or> (case pointer2 doc ''target'' ''body'' of None \<Rightarrow> False | Some body \<Rightarrow> body \<noteq> JNull)"

text \<open>
  The checks of one job; \<open>validate\<close> is the validation of a definition, \<open>None\<close> where it does not
  return.
\<close>

definition check_imported ::
    "transfer_codecs \<Rightarrow> (job_definition \<Rightarrow> (validation_error + unit) option) \<Rightarrow> bool \<Rightarrow> string list \<Rightarrow> string list
     \<Rightarrow> export_job \<Rightarrow> unit transfer_result option" where
  "check_imported T validate plaintext ids names job =
     (if length (xj_id job) \<noteq> 36 \<or> \<not> lowercase_canonical_uuid (xj_id job)
      then Some (Inl (invalid_request ''imported job UUID must be lowercase canonical text''))
      else if xj_id job \<in> set ids
      then Some (Inl (invalid_request (''duplicate imported job ID: '' @ xj_id job)))
      else if xj_name job \<in> set names
      then Some (Inl (invalid_request (''duplicate imported job name: '' @ xj_name job)))
      else case definition_to_value T (xj_definition job) of
        Inl e \<Rightarrow> Some (Inl (invalid_request e))
      | Inr doc \<Rightarrow>
          if \<not> plaintext \<and> contains_inline_plaintext doc
          then Some (Inl (invalid_request ''redacted export unexpectedly contains inline plaintext values''))
          else map_option (map_err TransferValidation) (validate (xj_definition job)))"

fun check_all_imported ::
    "transfer_codecs \<Rightarrow> (job_definition \<Rightarrow> (validation_error + unit) option) \<Rightarrow> bool \<Rightarrow> string list \<Rightarrow> string list
     \<Rightarrow> export_job list \<Rightarrow> unit transfer_result option" where
  "check_all_imported T validate plaintext ids names [] = Some (Inr ())"
| "check_all_imported T validate plaintext ids names (job # rest) =
     (case check_imported T validate plaintext ids names job of
        None \<Rightarrow> None
      | Some (Inl e) \<Rightarrow> Some (Inl e)
      | Some (Inr _) \<Rightarrow> check_all_imported T validate plaintext (xj_id job # ids) (xj_name job # names) rest)"

definition concurrency_or_64 :: "int \<Rightarrow> nat" where
  "concurrency_or_64 n = (if 0 \<le> n \<and> n \<le> 255 then nat n else 64)"

definition parse_import_document ::
    "transfer_codecs \<Rightarrow> (nat \<Rightarrow> job_definition \<Rightarrow> (validation_error + unit) option) \<Rightarrow> string \<Rightarrow> bool
     \<Rightarrow> export_document transfer_result option" where
  "parse_import_document T validate bytes accept_plaintext =
     (case document_from_slice T bytes of
        Inl e \<Rightarrow> Some (Inl (invalid_request e))
      | Inr doc \<Rightarrow>
          let plaintext = (xd_values_mode doc = PlaintextValues)
          in if xd_schema doc \<noteq> EXPORT_SCHEMA
             then Some (Inl (invalid_request (''unsupported export schema: '' @ xd_schema doc)))
             else if plaintext \<and> \<not> accept_plaintext
             then Some (Inl (invalid_request ''plaintext values require --accept-plaintext-values''))
             else if xd_omitted_values doc \<noteq> []
             then Some (Inl (invalid_request
                    (if plaintext then ''plaintext export must not contain omitted_values entries''
                     else ''redacted export contains omitted values and cannot be imported faithfully'')))
             else map_option (\<lambda>r. and_then r (\<lambda>_. Inr doc))
                    (check_all_imported T (validate (concurrency_or_64 (rec_global_concurrency (xd_settings doc))))
                       plaintext [] [] (xd_jobs doc)))"


section \<open>Planning\<close>

record planned_action =
  pa_action :: string
  pa_source_id :: string
  pa_destination_id :: string
  pa_name :: "string option"

record import_plan =
  ip_settings_changed :: bool
  ip_actions :: "planned_action list"
  ip_batch :: "import_batch option"

record plan_state =
  pl_actions :: "planned_action list"
  pl_batch :: "import_job list"
  pl_sources :: "(string \<times> string) list"

definition live_by_id :: "job_identity list \<Rightarrow> (string, string) map" where
  "live_by_id identities = map_of (rev (map (\<lambda>i. (ji_id i, ji_name i)) (filter (\<lambda>i. \<not> ji_removed i) identities)))"

definition live_by_name :: "job_identity list \<Rightarrow> (string, string) map" where
  "live_by_name identities = map_of (rev (map (\<lambda>i. (ji_name i, ji_id i)) (filter (\<lambda>i. \<not> ji_removed i) identities)))"

definition settings_changed :: "settings_record \<Rightarrow> settings_record \<Rightarrow> bool" where
  "settings_changed current imported \<longleftrightarrow>
     rec_global_concurrency current \<noteq> rec_global_concurrency imported
     \<or> rec_execution_path current \<noteq> rec_execution_path imported
     \<or> rec_run_retention_count current \<noteq> rec_run_retention_count imported
     \<or> rec_run_retention_age current \<noteq> rec_run_retention_age imported
     \<or> rec_output_limit current \<noteq> rec_output_limit imported
     \<or> rec_per_run_output_limit current \<noteq> rec_per_run_output_limit imported
     \<or> rec_environment current \<noteq> rec_environment imported"

definition claim_destination :: "string \<Rightarrow> string \<Rightarrow> plan_state \<Rightarrow> plan_state transfer_result" where
  "claim_destination dest source st =
     (case map_of (pl_sources st) dest of
        Some previous \<Rightarrow>
          if previous \<noteq> source
          then Inl (durable_conflict (''multiple imported jobs resolve to destination '' @ dest))
          else Inr (st\<lparr>pl_sources := (dest, source) # pl_sources st\<rparr>)
      | None \<Rightarrow> Inr (st\<lparr>pl_sources := (dest, source) # pl_sources st\<rparr>))"

definition resolve_destination :: "job_identity list \<Rightarrow> export_job \<Rightarrow> string option transfer_result" where
  "resolve_destination identities job =
     (let by_id = Option.bind (live_by_id identities (xj_id job)) (live_by_name identities);
          by_name = live_by_name identities (xj_name job)
      in case (by_id, by_name) of
           (Some id_dest, Some name_dest) \<Rightarrow>
             if id_dest \<noteq> name_dest
             then Inl (durable_conflict (''source ID '' @ xj_id job @ '' and name '' @ xj_name job
                    @ '' resolve to different destination jobs''))
             else Inr (Some id_dest)
         | (Some id_dest, None) \<Rightarrow> Inr (Some id_dest)
         | (None, name_dest) \<Rightarrow> Inr name_dest)"

definition plan_create ::
    "transfer_codecs \<Rightarrow> job_identity list \<Rightarrow> string \<Rightarrow> int \<Rightarrow> export_job \<Rightarrow> plan_state \<Rightarrow> plan_state transfer_result" where
  "plan_create T identities fresh now job st =
     (let preserve = (xj_id job \<notin> ji_id ` set identities);
          dest = (if preserve then xj_id job else ''<non-durable:'' @ xj_id job @ ''>'')
      in and_then (claim_destination dest (xj_id job) st) (\<lambda>st1.
         and_then (map_err invalid_request (definition_to_string T (xj_definition job))) (\<lambda>text.
           Inr (st1\<lparr>pl_actions := pl_actions st1 @
                      [\<lparr>pa_action = ''create'', pa_source_id = xj_id job, pa_destination_id = dest,
                        pa_name = Some (xj_name job)\<rparr>],
                    pl_batch := pl_batch st1 @
                      [ImportCreate
                         \<lparr>cj_id = (if preserve then xj_id job else fresh), cj_name = xj_name job,
                          cj_description = xj_description job, cj_tags_json = tags_to_string T (xj_tags job),
                          cj_enabled = xj_enabled job, cj_definition_json = text, cj_now = now, cj_cursor = now\<rparr>
                         \<lparr>ir_source_id = xj_id job, ir_source_name = xj_name job,
                          ir_expected_id_destination = None, ir_expected_name_destination = None\<rparr>]\<rparr>))))"

definition schedule_differs :: "codecs \<Rightarrow> job_record \<Rightarrow> export_job \<Rightarrow> bool" where
  "schedule_differs D current job \<longleftrightarrow>
     (case definition_from_str D (jr_definition_json current) of
        None \<Rightarrow> True | Some parsed \<Rightarrow> definition_schedule parsed \<noteq> definition_schedule (xj_definition job))"

definition identical_job ::
    "codecs \<Rightarrow> transfer_codecs \<Rightarrow> job_record \<Rightarrow> json \<Rightarrow> json \<Rightarrow> export_job \<Rightarrow> bool" where
  "identical_job D T current current_definition source_definition job \<longleftrightarrow>
     jr_name current = xj_name job \<and> jr_description current = xj_description job
     \<and> (case tags_from_str T (jr_tags_json current) of Inl _ \<Rightarrow> False | Inr tags \<Rightarrow> tags = xj_tags job)
     \<and> jr_enabled current = xj_enabled job \<and> current_definition = source_definition
     \<and> \<not> schedule_differs D current job"

definition keep_job :: "string \<Rightarrow> int \<Rightarrow> job_record \<Rightarrow> UpdateJob" where
  "keep_job dest now current =
     \<lparr>uj_id = dest, uj_expected_revision = jr_current_revision current, uj_name = jr_name current,
      uj_description = jr_description current, uj_tags_json = jr_tags_json current,
      uj_enabled = jr_enabled current, uj_definition_json = jr_definition_json current, uj_now = now,
      uj_cursor = jr_cursor current\<rparr>"

definition replace_job :: "codecs \<Rightarrow> transfer_codecs \<Rightarrow> string \<Rightarrow> int \<Rightarrow> job_record \<Rightarrow> export_job \<Rightarrow> UpdateJob transfer_result" where
  "replace_job D T dest now current job =
     and_then (map_err invalid_request (definition_to_string T (xj_definition job))) (\<lambda>text.
       Inr \<lparr>uj_id = dest, uj_expected_revision = jr_current_revision current, uj_name = xj_name job,
            uj_description = xj_description job, uj_tags_json = tags_to_string T (xj_tags job),
            uj_enabled = xj_enabled job, uj_definition_json = text, uj_now = now,
            uj_cursor = (if schedule_differs D current job then now else jr_cursor current)\<rparr>)"

definition plan_existing ::
    "codecs \<Rightarrow> transfer_codecs \<Rightarrow> store \<Rightarrow> job_identity list \<Rightarrow> string \<Rightarrow> int \<Rightarrow> export_job \<Rightarrow> plan_state
     \<Rightarrow> plan_state transfer_result" where
  "plan_existing D T s identities dest now job st =
     and_then (claim_destination dest (xj_id job) st) (\<lambda>st1.
     and_then (map_err TransferStore (Store_job s dest)) (\<lambda>current.
     and_then (map_err (TransferMessage 500 ''state_error'') (from_str D (jr_definition_json current))) (\<lambda>current_definition.
     and_then (map_err invalid_request (definition_to_value T (xj_definition job))) (\<lambda>source_definition.
       let resolution =
             \<lparr>ir_source_id = xj_id job, ir_source_name = xj_name job,
              ir_expected_id_destination = (if live_by_id identities (xj_id job) = None then None else Some dest),
              ir_expected_name_destination = (if live_by_name identities (xj_name job) = None then None else Some dest)\<rparr>
       in if identical_job D T current current_definition source_definition job
          then Inr (st1\<lparr>pl_actions := pl_actions st1 @
                          [\<lparr>pa_action = ''no_op'', pa_source_id = xj_id job, pa_destination_id = dest, pa_name = None\<rparr>],
                        pl_batch := pl_batch st1 @ [ImportVerify (keep_job dest now current) resolution]\<rparr>)
          else and_then (replace_job D T dest now current job) (\<lambda>update.
                 Inr (st1\<lparr>pl_actions := pl_actions st1 @
                            [\<lparr>pa_action = ''update'', pa_source_id = xj_id job, pa_destination_id = dest,
                              pa_name = Some (xj_name job)\<rparr>],
                          pl_batch := pl_batch st1 @ [ImportUpdate update resolution]\<rparr>))))))"

text \<open>
  The loop over the jobs; \<open>fresh n\<close> is the identity generated for the \<open>n\<close>th of them when it is
  created under a new one. A destination is only resolved from identities of the database.
\<close>

definition plan_job ::
    "codecs \<Rightarrow> transfer_codecs \<Rightarrow> store \<Rightarrow> job_identity list \<Rightarrow> (nat \<Rightarrow> string) \<Rightarrow> int \<Rightarrow> export_job \<Rightarrow> plan_state
     \<Rightarrow> plan_state transfer_result" where
  "plan_job D T s identities fresh now job st =
     and_then (resolve_destination identities job) (\<lambda>destination.
       case destination of
         None \<Rightarrow> plan_create T identities (fresh (length (pl_batch st))) now job st
       | Some dest \<Rightarrow> plan_existing D T s identities dest now job st)"

fun plan_jobs ::
    "codecs \<Rightarrow> transfer_codecs \<Rightarrow> store \<Rightarrow> job_identity list \<Rightarrow> (nat \<Rightarrow> string) \<Rightarrow> int \<Rightarrow> export_job list \<Rightarrow> plan_state
     \<Rightarrow> plan_state transfer_result" where
  "plan_jobs D T s identities fresh now [] st = Inr st"
| "plan_jobs D T s identities fresh now (job # rest) st =
     and_then (plan_job D T s identities fresh now job st) (plan_jobs D T s identities fresh now rest)"

definition plan_import ::
    "codecs \<Rightarrow> transfer_codecs \<Rightarrow> bool \<Rightarrow> (nat \<Rightarrow> string) \<Rightarrow> export_document \<Rightarrow> store option \<Rightarrow> int
     \<Rightarrow> import_plan transfer_result" where
  "plan_import D T windows fresh document st_opt now =
     (let identities = (case st_opt of Some s \<Rightarrow> job_identities s | None \<Rightarrow> []);
          s = (case st_opt of Some s \<Rightarrow> s | None \<Rightarrow> initial_store)
      in and_then (case st_opt of Some s \<Rightarrow> map_err TransferStore (read_settings D windows s) | None \<Rightarrow> Inr default_settings) (\<lambda>current.
           let changed = settings_changed current (xd_settings document)
           in and_then (plan_jobs D T s identities fresh now
                  (sort_key (\<lambda>j. (xj_name j, xj_id j)) (xd_jobs document))
                  \<lparr>pl_actions = [], pl_batch = [], pl_sources = []\<rparr>) (\<lambda>st.
                Inr \<lparr>ip_settings_changed = changed, ip_actions = pl_actions st,
                     ip_batch =
                       (if list_ex (\<lambda>a. pa_action a \<noteq> ''no_op'') (pl_actions st) \<or> changed
                        then Some \<lparr>ib_settings = xd_settings document, ib_jobs = pl_batch st, ib_now = now\<rparr>
                        else None)\<rparr>)))"

text \<open>The import of the handler \<open>import_document\<close> on an open database, without a dry run.\<close>

record import_report =
  rp_created :: nat
  rp_updated :: nat
  rp_no_op :: nat
  rp_settings_changed :: bool

definition import_document ::
    "codecs \<Rightarrow> transfer_codecs \<Rightarrow> bool \<Rightarrow> (nat \<Rightarrow> string) \<Rightarrow> export_document \<Rightarrow> int \<Rightarrow> store
     \<Rightarrow> (store \<times> import_report) transfer_result" where
  "import_document D T windows fresh document now s =
     and_then (plan_import D T windows fresh document (Some s) now) (\<lambda>plan.
     and_then (case ip_batch plan of
                 Some batch \<Rightarrow> map_err TransferStore (apply_import D windows batch s)
               | None \<Rightarrow> Inr (s, \<lparr>is_created = 0, is_updated = 0\<rparr>)) (\<lambda>(s', summary).
       Inr (s', \<lparr>rp_created = is_created summary, rp_updated = is_updated summary,
                 rp_no_op = length (xd_jobs document) - is_created summary - is_updated summary,
                 rp_settings_changed = ip_settings_changed plan\<rparr>)))"

end
