(* ===== verification/Import_Guarantees.thy ===== *)
theory Import_Guarantees
  imports Job_Transfer
begin

text \<open>
  What export and import guarantee: an import that could be planned is applied, and the
  database then holds every job and the settings of the document; what each export removes and keeps.
\<close>

section \<open>Applying a batch\<close>

fun item_id :: "import_job \<Rightarrow> string" where
  "item_id (ImportCreate c _) = cj_id c"
| "item_id (ImportUpdate u _) = uj_id u"
| "item_id (ImportVerify u _) = uj_id u"

fun item_name :: "import_job \<Rightarrow> string" where
  "item_name (ImportCreate c _) = cj_name c"
| "item_name (ImportUpdate u _) = uj_name u"
| "item_name (ImportVerify u _) = uj_name u"

definition no_other_live :: "store \<Rightarrow> string \<Rightarrow> string \<Rightarrow> bool" where
  "no_other_live s name jid \<longleftrightarrow> (\<forall>j \<in> set (jobs s). live j \<longrightarrow> job_name j = name \<longrightarrow> job_id j = jid)"

text \<open>What an item needs of the database at its turn.\<close>

fun item_ready :: "store \<Rightarrow> import_job \<Rightarrow> bool" where
  "item_ready s (ImportCreate c _) \<longleftrightarrow> \<not> job_id_exists s (cj_id c) \<and> \<not> live_name_exists s (cj_name c)"
| "item_ready s (ImportUpdate u _) \<longleftrightarrow>
     (\<exists>j \<in> set (jobs s). live j \<and> job_id j = uj_id u \<and> job_current_revision j = uj_expected_revision u)
     \<and> no_other_live s (uj_name u) (uj_id u)"
| "item_ready s (ImportVerify u _) \<longleftrightarrow> True"

definition updated_row :: "UpdateJob \<Rightarrow> int \<Rightarrow> job_row \<Rightarrow> job_row" where
  "updated_row u now j =
     j\<lparr>job_name := uj_name u, job_description := uj_description u, job_tags_json := uj_tags_json u,
       job_enabled := uj_enabled u, job_updated_at := now, job_current_revision := uj_expected_revision u + 1\<rparr>"

fun item_rows :: "int \<Rightarrow> import_job \<Rightarrow> job_row list \<Rightarrow> job_row list" where
  "item_rows now (ImportCreate c _) js = js @ [new_job_row c now]"
| "item_rows now (ImportUpdate u _) js = map (\<lambda>j. if job_id j = uj_id u then updated_row u now j else j) js"
| "item_rows now (ImportVerify u _) js = js"

fun item_revisions :: "int \<Rightarrow> import_job \<Rightarrow> revision_row list" where
  "item_revisions now (ImportCreate c _) =
     [\<lparr>rev_job = cj_id c, rev_revision = 1, rev_definition_json = cj_definition_json c, rev_created_at = now,
       rev_created_by = ''import''\<rparr>]"
| "item_revisions now (ImportUpdate u _) =
     [\<lparr>rev_job = uj_id u, rev_revision = uj_expected_revision u + 1, rev_definition_json = uj_definition_json u,
       rev_created_at = now, rev_created_by = ''import''\<rparr>]"
| "item_revisions now (ImportVerify u _) = []"

fun item_count :: "import_job \<Rightarrow> import_summary \<Rightarrow> import_summary" where
  "item_count (ImportCreate _ _) m = m\<lparr>is_created := is_created m + 1\<rparr>"
| "item_count (ImportUpdate _ _) m = m\<lparr>is_updated := is_updated m + 1\<rparr>"
| "item_count (ImportVerify _ _) m = m"

definition import_effect :: "int \<Rightarrow> import_job \<Rightarrow> store \<Rightarrow> store \<Rightarrow> bool" where
  "import_effect now i s s' \<longleftrightarrow>
     jobs s' = item_rows now i (jobs s) \<and> job_revisions s' = job_revisions s @ item_revisions now i
     \<and> settings s' = settings s \<and> jobs_wf s'"

lemma live_unfold: "live j \<longleftrightarrow> job_removed_at j = None"
  by (simp add: live_def)

lemma job_id_exists_ids: "job_id_exists s jid \<longleftrightarrow> jid \<in> set (map job_id (jobs s))"
  by (auto simp: job_id_exists_def)

lemma no_newer_revision:
  assumes wf: "jobs_wf s" and j: "j \<in> set (jobs s)" "job_current_revision j < n"
  shows "\<not> revision_exists s (job_id j) n"
proof
  assume "revision_exists s (job_id j) n"
  then have "known_revision (jobs s) (job_id j, n)"
    using wf_revs_known[OF wf] wf_curs_known[OF wf] by (force simp: revision_exists_def rev_key_def cur_key_def)
  then obtain x where "x \<in> set (jobs s)" "job_id x = job_id j" "n \<le> job_current_revision x"
    by (auto simp: known_revision_def)
  with wf_job_ids[OF wf] j show False by (auto simp: distinct_map dest!: inj_onD)
qed

lemma add_revision_ok:
  assumes "\<not> revision_exists s jid n" "0 < n" "job_id_exists s jid"
  shows "add_revision jid n d now by c en s =
    Inr (s\<lparr>job_revisions := job_revisions s @ [\<lparr>rev_job = jid, rev_revision = n, rev_definition_json = d,
             rev_created_at = now, rev_created_by = by\<rparr>],
           cursors := cursors s @ [\<lparr>cur_job = jid, cur_revision = n, cur_cursor = c, cur_one_time_resolved = False,
             cur_updated_at = now, cur_disabled_since = (if en then None else Some now)\<rparr>]\<rparr>)"
  using assms by (simp add: add_revision_def)

lemma push_event_settings: "settings (push_event t k j r d s) = settings s"
  by (rule push_event_jobs)

lemma import_create_effect:
  assumes wf: "jobs_wf s" and ready: "item_ready s (ImportCreate c r)"
  shows "\<exists>s'. import_one now (ImportCreate c r) (s, m) = Inr (s', item_count (ImportCreate c r) m)
    \<and> import_effect now (ImportCreate c r) s s'"
proof -
  let ?s1 = "s\<lparr>jobs := jobs s @ [new_job_row c now]\<rparr>"
  have fresh: "\<not> job_id_exists s (cj_id c)" "\<not> live_name_exists s (cj_name c)" using ready by auto
  have "\<not> revision_exists ?s1 (cj_id c) 1"
    using no_revision_of_unknown[OF wf fresh(1)] by (simp add: revision_exists_def)
  then obtain s2 where add: "add_revision (cj_id c) 1 (cj_definition_json c) now ''import'' (cj_cursor c) (cj_enabled c) ?s1 = Inr s2"
    and s2: "jobs s2 = jobs s @ [new_job_row c now]"
      "job_revisions s2 = job_revisions s @ item_revisions now (ImportCreate c r)" "settings s2 = settings s"
    by (auto simp: add_revision_def job_id_exists_def new_job_row_def)
  then have ins: "insert_job c now ''import'' s = Inr s2" using fresh by (simp add: insert_job_def)
  have "jobs_wf (push_event now k j x d s2)" for k j x d
    using insert_job_wf[OF wf ins] by (simp add: jobs_wf_cong[of "push_event now k j x d s2" s2])
  then show ?thesis using ins s2 by (simp add: import_effect_def)
qed

lemma import_update_effect:
  assumes wf: "jobs_wf s" and ready: "item_ready s (ImportUpdate u r)"
  shows "\<exists>s'. import_one now (ImportUpdate u r) (s, m) = Inr (s', item_count (ImportUpdate u r) m)
    \<and> import_effect now (ImportUpdate u r) s s'"
proof -
  let ?n = "uj_expected_revision u + 1"
  let ?s1 = "s\<lparr>jobs := item_rows now (ImportUpdate u r) (jobs s)\<rparr>"
  obtain j where j: "j \<in> set (jobs s)" "live j" "job_id j = uj_id u" "job_current_revision j = uj_expected_revision u"
    using ready by auto
  have "\<not> other_live_name s (uj_name u) (uj_id u)"
    using ready by (auto simp: other_live_name_def no_other_live_def live_unfold)
  then have upd: "update_job_row u now ?n s = Inr ?s1"
    by (simp add: update_job_row_def update_where_def updated_row_def)
  have "\<not> revision_exists ?s1 (uj_id u) ?n"
    using no_newer_revision[OF wf j(1), of ?n] j(3,4) by (simp add: revision_exists_def)
  moreover have "0 < ?n" using wf_current[OF wf j(1)] j(4) by simp
  moreover have "job_id_exists ?s1 (uj_id u)"
  proof -
    have "map job_id (jobs ?s1) = map job_id (jobs s)" by (simp add: updated_row_def)
    then show ?thesis using j(1,3) by (metis job_id_exists_ids image_eqI list.set_map)
  qed
  ultimately obtain s2 where add: "add_revision (uj_id u) ?n (uj_definition_json u) now ''import'' (uj_cursor u) (uj_enabled u) ?s1 = Inr s2"
    and s2: "jobs s2 = item_rows now (ImportUpdate u r) (jobs s)"
      "job_revisions s2 = job_revisions s @ item_revisions now (ImportUpdate u r)" "settings s2 = settings s"
    by (auto simp: add_revision_ok)
  have "job_current_revision x \<le> ?n" if "x \<in> set (jobs s)" "job_id x = uj_id u" for x
  proof -
    have "x = j" using that j(1,3) wf_job_ids[OF wf] by (metis distinct_map inj_onD)
    then show ?thesis using j(4) by simp
  qed
  from bump_revision_wf[OF wf upd add this]
  have "jobs_wf (push_event now k i x d s2)" for k i x d
    by (simp add: jobs_wf_cong[of "push_event now k i x d s2" s2])
  then show ?thesis using upd add s2 by (simp add: import_effect_def)
qed

lemma import_one_effect:
  assumes "jobs_wf s" "item_ready s i"
  shows "\<exists>s'. import_one now i (s, m) = Inr (s', item_count i m) \<and> import_effect now i s s'"
proof (cases i)
  case (ImportCreate c r)
  with assms import_create_effect show ?thesis by metis
next
  case (ImportUpdate u r)
  with assms import_update_effect show ?thesis by metis
next
  case (ImportVerify u r)
  with assms show ?thesis by (simp add: import_effect_def)
qed


text \<open>The turn of an item leaves the items with other identities and names ready.\<close>

lemma item_rows_other:
  "j \<in> set (item_rows now i js) \<Longrightarrow> j \<in> set js \<or> job_id j = item_id i \<and> (live j \<longrightarrow> job_name j = item_name i)"
  by (cases i) (auto simp: new_job_row_def updated_row_def)

lemma item_rows_kept: "j \<in> set js \<Longrightarrow> job_id j \<noteq> item_id i \<Longrightarrow> j \<in> set (item_rows now i js)"
  by (cases i) (auto simp: image_iff intro!: bexI[of _ j])

lemma item_ready_step:
  assumes ready: "item_ready s k" and rows: "jobs s' = item_rows now i (jobs s)"
    and other: "item_id k \<noteq> item_id i" "item_name k \<noteq> item_name i"
  shows "item_ready s' k"
proof (cases k)
  case (ImportCreate c r)
  have "\<not> job_id_exists s' (cj_id c)"
    using ready other ImportCreate by (auto simp: job_id_exists_def rows dest!: item_rows_other)
  moreover have "\<not> live_name_exists s' (cj_name c)"
    using ready other ImportCreate by (fastforce simp: live_name_exists_def rows live_unfold dest!: item_rows_other)
  ultimately show ?thesis by (simp add: ImportCreate)
next
  case (ImportUpdate u r)
  with ready obtain j where j: "j \<in> set (jobs s)" "live j" "job_id j = uj_id u"
      "job_current_revision j = uj_expected_revision u" and alone: "no_other_live s (uj_name u) (uj_id u)"
    by auto
  have "j \<in> set (jobs s')" using j item_rows_kept[of j "jobs s" i now] other ImportUpdate by (simp add: rows)
  moreover have "no_other_live s' (uj_name u) (uj_id u)"
    using alone other ImportUpdate item_rows_other[of _ now i "jobs s"] unfolding no_other_live_def rows by fastforce
  ultimately show ?thesis using j ImportUpdate by auto
qed simp

lemma import_all_effect:
  assumes "jobs_wf s" "list_all (item_ready s) items"
    and "distinct (map item_id items)" "distinct (map item_name items)"
  shows "\<exists>s'. import_all now items (s, m) = Inr (s', fold item_count items m)
    \<and> jobs s' = fold (item_rows now) items (jobs s)
    \<and> job_revisions s' = job_revisions s @ concat (map (item_revisions now) items)
    \<and> settings s' = settings s \<and> jobs_wf s'"
  using assms
proof (induction items arbitrary: s m)
  case (Cons i items)
  obtain s1 where one: "import_one now i (s, m) = Inr (s1, item_count i m)" and eff: "import_effect now i s s1"
    using import_one_effect[OF Cons.prems(1), of i] Cons.prems(2) by fastforce
  have "list_all (item_ready s1) items"
    unfolding list_all_iff
  proof
    fix k assume k: "k \<in> set items"
    then have "item_ready s k" "item_id k \<noteq> item_id i" "item_name k \<noteq> item_name i"
      using Cons.prems(2,3,4) by (auto simp: list_all_iff image_iff)
    then show "item_ready s1 k" using item_ready_step eff by (metis import_effect_def)
  qed
  with Cons.IH[of s1 "item_count i m"] Cons.prems(3,4) eff obtain s'
    where "import_all now items (s1, item_count i m) = Inr (s', fold item_count items (item_count i m))"
      "jobs s' = fold (item_rows now) items (jobs s1)"
      "job_revisions s' = job_revisions s1 @ concat (map (item_revisions now) items)"
      "settings s' = settings s1" "jobs_wf s'"
    by (auto simp: import_effect_def)
  with one eff show ?case by (auto simp: import_effect_def)
qed simp

text \<open>The rows after a batch: the row of an item is the one its own turn made, other rows are as before.\<close>

lemma fold_rows_kept:
  "j \<in> set js \<Longrightarrow> job_id j \<notin> item_id ` set items \<Longrightarrow> j \<in> set (fold (item_rows now) items js)"
proof (induction items arbitrary: js)
  case (Cons i items)
  then show ?case using item_rows_kept[of j js i now] by auto
qed simp

lemma fold_rows_created:
  assumes "ImportCreate c r \<in> set items" "distinct (map item_id items)"
  shows "new_job_row c now \<in> set (fold (item_rows now) items js)"
  using assms
proof (induction items arbitrary: js)
  case (Cons i items)
  show ?case
  proof (cases "i = ImportCreate c r")
    case True
    with Cons.prems show ?thesis by (auto simp: new_job_row_def intro!: fold_rows_kept)
  next
    case False
    with Cons show ?thesis by simp
  qed
qed simp

lemma fold_rows_updated:
  assumes "ImportUpdate u r \<in> set items" "distinct (map item_id items)" "j \<in> set js" "job_id j = uj_id u"
  shows "updated_row u now j \<in> set (fold (item_rows now) items js)"
  using assms
proof (induction items arbitrary: js)
  case (Cons i items)
  show ?case
  proof (cases "i = ImportUpdate u r")
    case True
    with Cons.prems show ?thesis by (auto simp: updated_row_def intro!: fold_rows_kept)
  next
    case False
    with Cons.prems have "item_id i \<noteq> job_id j" by (auto simp: rev_image_eqI)
    with Cons.prems have "j \<in> set (item_rows now i js)" using item_rows_kept[of j js i now] by metis
    with Cons False show ?thesis by simp
  qed
qed simp


section \<open>Resolving jobs\<close>

definition names_unambiguous :: "store \<Rightarrow> bool" where
  "names_unambiguous s \<longleftrightarrow> (\<forall>x \<in> set (jobs s). \<forall>y \<in> set (jobs s). live x \<longrightarrow> job_name x = job_id y \<longrightarrow> x = y)"

definition job_matches :: "export_job \<Rightarrow> job_row \<Rightarrow> bool" where
  "job_matches job j \<longleftrightarrow> job_id j = xj_id job \<or> job_name j = xj_name job"

definition resolved :: "store \<Rightarrow> export_job \<Rightarrow> job_row \<Rightarrow> bool" where
  "resolved s job j \<longleftrightarrow>
     j \<in> set (jobs s) \<and> live j \<and> job_matches job j \<and> (\<forall>x \<in> set (jobs s). live x \<longrightarrow> job_matches job x \<longrightarrow> x = j)"

definition unresolved :: "store \<Rightarrow> export_job \<Rightarrow> bool" where
  "unresolved s job \<longleftrightarrow> (\<forall>x \<in> set (jobs s). live x \<longrightarrow> \<not> job_matches job x)"

lemma wf_same_id: "jobs_wf s \<Longrightarrow> x \<in> set (jobs s) \<Longrightarrow> y \<in> set (jobs s) \<Longrightarrow> job_id x = job_id y \<Longrightarrow> x = y"
  using wf_job_ids by (metis distinct_map inj_onD)

lemma wf_same_name:
  "jobs_wf s \<Longrightarrow> x \<in> set (jobs s) \<Longrightarrow> y \<in> set (jobs s) \<Longrightarrow> live x \<Longrightarrow> live y \<Longrightarrow> job_name x = job_name y \<Longrightarrow> x = y"
  using wf_live_names[of s] by (auto simp: distinct_map inj_on_def)

lemma live_fun: "live = (\<lambda>j. job_removed_at j = None)"
  by (rule ext) (simp add: live_def)

lemma identities_live:
  "filter (\<lambda>i. \<not> ji_removed i) (job_identities s)
     = map (\<lambda>j. \<lparr>ji_id = job_id j, ji_name = job_name j, ji_removed = (job_removed_at j \<noteq> None)\<rparr>)
         (sort_key job_id (filter live (jobs s)))"
proof -
  have "filter (\<lambda>i. \<not> ji_removed i) (job_identities s)
     = map (\<lambda>j. \<lparr>ji_id = job_id j, ji_name = job_name j, ji_removed = (job_removed_at j \<noteq> None)\<rparr>)
         (filter live (sort_key job_id (jobs s)))"
    using live_fun by (simp add: job_identities_def filter_map comp_def)
  then show ?thesis by (simp add: filter_sort)
qed

lemma live_by_id_Some:
  assumes "jobs_wf s"
  shows "live_by_id (job_identities s) k = Some n \<longleftrightarrow> (\<exists>j \<in> set (jobs s). live j \<and> job_id j = k \<and> job_name j = n)"
proof -
  let ?js = "sort_key job_id (filter live (jobs s))"
  have "distinct (map fst (rev (map (\<lambda>j. (job_id j, job_name j)) ?js)))"
    using wf_job_ids[OF assms] by (simp add: rev_map comp_def distinct_map inj_on_def)
  then show ?thesis
    by (auto simp: live_by_id_def identities_live comp_def map_of_eq_Some_iff)
qed

lemma live_by_name_Some:
  assumes "jobs_wf s"
  shows "live_by_name (job_identities s) k = Some n \<longleftrightarrow> (\<exists>j \<in> set (jobs s). live j \<and> job_name j = k \<and> job_id j = n)"
proof -
  let ?js = "sort_key job_id (filter live (jobs s))"
  have "distinct (map fst (rev (map (\<lambda>j. (job_name j, job_id j)) ?js)))"
    using wf_live_names[OF assms] wf_job_ids[OF assms] by (simp add: rev_map comp_def distinct_map inj_on_def)
  then show ?thesis
    by (auto simp: live_by_name_def identities_live comp_def map_of_eq_Some_iff)
qed

lemma identity_ids: "ji_id ` set (job_identities s) = job_id ` set (jobs s)"
  by (auto simp: job_identities_def image_iff)

lemma by_id_Some:
  assumes "jobs_wf s"
  shows "Option.bind (live_by_id (job_identities s) k) (live_by_name (job_identities s)) = Some d
    \<longleftrightarrow> d = k \<and> (\<exists>j \<in> set (jobs s). live j \<and> job_id j = k)"
  by (auto simp: bind_eq_Some_conv live_by_id_Some[OF assms] live_by_name_Some[OF assms]
           dest: wf_same_name[OF assms])

lemma resolve_None:
  assumes "jobs_wf s"
  shows "resolve_destination (job_identities s) job = Inr None \<Longrightarrow> unresolved s job"
  using by_id_Some[OF assms, of "xj_id job"] live_by_name_Some[OF assms, of "xj_name job"]
  by (auto simp: resolve_destination_def Let_def unresolved_def job_matches_def split: option.splits if_splits)

lemma resolve_Some:
  assumes wf: "jobs_wf s" and res: "resolve_destination (job_identities s) job = Inr (Some d)"
  shows "\<exists>j. resolved s job j \<and> job_id j = d"
proof -
  let ?by_id = "Option.bind (live_by_id (job_identities s) (xj_id job)) (live_by_name (job_identities s))"
  let ?by_name = "live_by_name (job_identities s) (xj_name job)"
  have ds: "?by_id = Some d \<or> ?by_name = Some d" "\<forall>e. ?by_id = Some e \<longrightarrow> e = d" "\<forall>e. ?by_name = Some e \<longrightarrow> e = d"
    using res by (auto simp: resolve_destination_def Let_def split: option.splits if_splits)
  obtain j where j: "j \<in> set (jobs s)" "live j" "job_matches job j" "job_id j = d"
    using ds(1) by (auto simp: by_id_Some[OF wf] live_by_name_Some[OF wf] job_matches_def)
  moreover have "x = j" if "x \<in> set (jobs s)" "live x" "job_matches job x" for x
  proof -
    have "job_id x = d"
      using that ds(2,3) by (auto simp: by_id_Some[OF wf] live_by_name_Some[OF wf] job_matches_def)
    then show ?thesis using wf_same_id[OF wf that(1) j(1)] j(4) by simp
  qed
  ultimately show ?thesis unfolding resolved_def by blast
qed

lemma resolved_matches:
  "resolved s job j \<Longrightarrow> x \<in> set (jobs s) \<Longrightarrow> live x \<Longrightarrow> job_matches job x \<Longrightarrow> x = j"
  by (simp add: resolved_def)

lemma resolved_by_id:
  "resolved s job j \<Longrightarrow> (\<exists>x \<in> set (jobs s). live x \<and> job_id x = xj_id job) \<longleftrightarrow> job_id j = xj_id job"
  unfolding resolved_def job_matches_def by blast

lemma resolved_by_name:
  "resolved s job j \<Longrightarrow> (\<exists>x \<in> set (jobs s). live x \<and> job_name x = xj_name job) \<longleftrightarrow> job_name j = xj_name job"
  unfolding resolved_def job_matches_def by blast

lemma resolved_maps:
  assumes "jobs_wf s" "resolved s job j"
  shows "live_by_id (job_identities s) (xj_id job) = None \<longleftrightarrow> job_id j \<noteq> xj_id job"
    and "live_by_name (job_identities s) (xj_name job) = None \<longleftrightarrow> job_name j \<noteq> xj_name job"
proof -
  have "live_by_id (job_identities s) (xj_id job) \<noteq> None \<longleftrightarrow> (\<exists>x \<in> set (jobs s). live x \<and> job_id x = xj_id job)"
    by (auto simp: live_by_id_Some[OF assms(1)])
  then show "live_by_id (job_identities s) (xj_id job) = None \<longleftrightarrow> job_id j \<noteq> xj_id job"
    using resolved_by_id[OF assms(2)] by blast
  have "live_by_name (job_identities s) (xj_name job) \<noteq> None \<longleftrightarrow> (\<exists>x \<in> set (jobs s). live x \<and> job_name x = xj_name job)"
    by (auto simp: live_by_name_Some[OF assms(1)])
  then show "live_by_name (job_identities s) (xj_name job) = None \<longleftrightarrow> job_name j \<noteq> xj_name job"
    using resolved_by_name[OF assms(2)] by blast
qed

lemma live_joined:
  assumes wf: "jobs_wf s" and j: "j \<in> set (jobs s)"
  shows "\<exists>v c. v \<in> set (job_revisions s) \<and> rev_key v = job_key j \<and> joined_job s j = Some (map_job j v c)
    \<and> (live j \<longrightarrow> names_unambiguous s \<longrightarrow> Store_job s (job_id j) = Inr (map_job j v c))"
proof -
  obtain v c where v: "v \<in> set (job_revisions s)" "rev_key v = job_key j"
    and c: "c \<in> set (cursors s)" "cur_key c = job_key j"
    using wf_current[OF wf j] by (metis imageE)
  have "current_revision_of s j = Some v" unfolding current_revision_of_def
    by (rule query_row_key[OF wf_rev_keys[OF wf] v(1)]) (use v(2) in \<open>auto simp: rev_key_def job_key_def\<close>)
  moreover have "current_cursor_of s j = Some c" unfolding current_cursor_of_def
    by (rule query_row_key[OF wf_cur_keys[OF wf] c(1)]) (use c(2) in \<open>auto simp: cur_key_def job_key_def\<close>)
  ultimately have "joined_job s j = Some (map_job j v c)" by (simp add: joined_job_def)
  moreover have "Store_job s (job_id j) = Inr (map_job j v c)" if "live j" "names_unambiguous s"
    unfolding Store_job_def using that j
    by (intro read_job_by_id[OF wf j that(1) _ v c]) (auto simp: names_unambiguous_def)
  ultimately show ?thesis using v by blast
qed


section \<open>What a plan holds\<close>

definition resolution_for :: "export_job \<Rightarrow> job_row \<Rightarrow> import_resolution" where
  "resolution_for job j =
     \<lparr>ir_source_id = xj_id job, ir_source_name = xj_name job,
      ir_expected_id_destination = (if job_id j = xj_id job then Some (job_id j) else None),
      ir_expected_name_destination = (if job_name j = xj_name job then Some (job_id j) else None)\<rparr>"

text \<open>The item planned for a job, with \<open>fresh\<close> for the identity it may have to generate.\<close>

fun item_planned :: "codecs \<Rightarrow> transfer_codecs \<Rightarrow> store \<Rightarrow> string \<Rightarrow> int \<Rightarrow> export_job \<Rightarrow> import_job \<Rightarrow> bool" where
  "item_planned D T s fresh now job (ImportCreate c r) \<longleftrightarrow>
     unresolved s job
     \<and> cj_id c = (if job_id_exists s (xj_id job) then fresh else xj_id job)
     \<and> cj_name c = xj_name job \<and> cj_description c = xj_description job
     \<and> cj_tags_json c = tags_to_string T (xj_tags job) \<and> cj_enabled c = xj_enabled job
     \<and> definition_to_string T (xj_definition job) = Inr (cj_definition_json c)
     \<and> r = \<lparr>ir_source_id = xj_id job, ir_source_name = xj_name job,
            ir_expected_id_destination = None, ir_expected_name_destination = None\<rparr>"
| "item_planned D T s fresh now job (ImportUpdate u r) \<longleftrightarrow>
     (\<exists>j. resolved s job j \<and> uj_id u = job_id j \<and> uj_expected_revision u = job_current_revision j
        \<and> r = resolution_for job j)
     \<and> uj_name u = xj_name job \<and> uj_description u = xj_description job
     \<and> uj_tags_json u = tags_to_string T (xj_tags job) \<and> uj_enabled u = xj_enabled job
     \<and> definition_to_string T (xj_definition job) = Inr (uj_definition_json u)"
| "item_planned D T s fresh now job (ImportVerify u r) \<longleftrightarrow>
     (\<exists>j v c doc. resolved s job j \<and> r = resolution_for job j \<and> v \<in> set (job_revisions s) \<and> rev_key v = job_key j
        \<and> joined_job s j = Some (map_job j v c) \<and> u = keep_job (job_id j) now (map_job j v c)
        \<and> definition_to_value T (xj_definition job) = Inr doc \<and> from_str D (rev_definition_json v) = Inr doc
        \<and> job_name j = xj_name job \<and> job_description j = xj_description job \<and> job_enabled j = xj_enabled job
        \<and> tags_from_str T (job_tags_json j) = Inr (xj_tags job))"

fun existing_ids :: "import_job list \<Rightarrow> string list" where
  "existing_ids [] = []"
| "existing_ids (ImportCreate c r # items) = existing_ids items"
| "existing_ids (ImportUpdate u r # items) = uj_id u # existing_ids items"
| "existing_ids (ImportVerify u r # items) = uj_id u # existing_ids items"

fun is_verify :: "import_job \<Rightarrow> bool" where
  "is_verify (ImportVerify u r) = True"
| "is_verify _ = False"

text \<open>One round of planning: the item, its destination, and what the state remembers.\<close>

definition plan_round ::
    "codecs \<Rightarrow> transfer_codecs \<Rightarrow> store \<Rightarrow> (nat \<Rightarrow> string) \<Rightarrow> int \<Rightarrow> export_job \<Rightarrow> plan_state \<Rightarrow> plan_state \<Rightarrow> import_job \<Rightarrow> bool" where
  "plan_round D T s fresh now job st st' i \<longleftrightarrow>
     pl_batch st' = pl_batch st @ [i] \<and> item_planned D T s (fresh (length (pl_batch st))) now job i
     \<and> (\<exists>a. pl_actions st' = pl_actions st @ [a] \<and> (pa_action a = ''no_op'' \<longleftrightarrow> is_verify i))
     \<and> (\<exists>dest. pl_sources st' = (dest, xj_id job) # pl_sources st \<and> set (existing_ids [i]) \<subseteq> {dest}
           \<and> (xj_id job \<notin> snd ` set (pl_sources st) \<longrightarrow> dest \<notin> fst ` set (pl_sources st)))"

lemma claim_destination_Inr:
  "claim_destination dest source st = Inr st' \<longleftrightarrow>
     st' = st\<lparr>pl_sources := (dest, source) # pl_sources st\<rparr>
     \<and> (\<forall>previous. map_of (pl_sources st) dest = Some previous \<longrightarrow> previous = source)"
  by (auto simp: claim_destination_def split: option.splits)

lemma claim_new:
  assumes "\<forall>previous. map_of sources dest = Some previous \<longrightarrow> previous = source" "source \<notin> snd ` set sources"
  shows "dest \<notin> fst ` set sources"
proof
  assume "dest \<in> fst ` set sources"
  then obtain p where "map_of sources dest = Some p" by (metis not_None_eq map_of_eq_None_iff)
  moreover from this have "p \<in> snd ` set sources" by (metis map_of_SomeD rev_image_eqI snd_conv)
  ultimately show False using assms by auto
qed

lemma plan_create_round:
  assumes "unresolved s job" "plan_create T (job_identities s) (fresh (length (pl_batch st))) now job st = Inr st'"
  shows "\<exists>i. plan_round D T s fresh now job st st' i"
proof -
  have owned: "xj_id job \<in> ji_id ` set (job_identities s) \<longleftrightarrow> job_id_exists s (xj_id job)"
    by (simp add: identity_ids job_id_exists_ids)
  obtain dest printed where claim: "\<forall>previous. map_of (pl_sources st) dest = Some previous \<longrightarrow> previous = xj_id job"
    and print: "definition_to_string T (xj_definition job) = Inr printed"
    and st': "st' = st\<lparr>pl_sources := (dest, xj_id job) # pl_sources st,
        pl_actions := pl_actions st @ [\<lparr>pa_action = ''create'', pa_source_id = xj_id job, pa_destination_id = dest,
           pa_name = Some (xj_name job)\<rparr>],
        pl_batch := pl_batch st @ [ImportCreate
           \<lparr>cj_id = (if job_id_exists s (xj_id job) then fresh (length (pl_batch st)) else xj_id job),
            cj_name = xj_name job, cj_description = xj_description job,
            cj_tags_json = tags_to_string T (xj_tags job), cj_enabled = xj_enabled job, cj_definition_json = printed,
            cj_now = now, cj_cursor = now\<rparr>
           \<lparr>ir_source_id = xj_id job, ir_source_name = xj_name job,
            ir_expected_id_destination = None, ir_expected_name_destination = None\<rparr>]\<rparr>"
    using assms(2) unfolding plan_create_def Let_def owned
    by (auto simp: and_then_eq_Inr claim_destination_Inr map_err_eq_Inr split: if_splits)
  show ?thesis
    unfolding plan_round_def st'
    by (rule exI, intro conjI, simp)
       (use assms(1) print claim_new[OF claim] in auto)
qed


lemma plan_existing_round:
  assumes wf: "jobs_wf s" and alone: "names_unambiguous s" and res: "resolved s job j"
    and ok: "plan_existing D T s (job_identities s) (job_id j) now job st = Inr st'"
  shows "\<exists>i. plan_round D T s fresh now job st st' i"
proof -
  have j: "j \<in> set (jobs s)" "live j" using res by (simp_all add: resolved_def)
  obtain v c where v: "v \<in> set (job_revisions s)" "rev_key v = job_key j"
    and joined: "joined_job s j = Some (map_job j v c)" and read: "Store_job s (job_id j) = Inr (map_job j v c)"
    using live_joined[OF wf j(1)] j(2) alone by blast
  let ?cur = "map_job j v c"
  have resolution: "\<lparr>ir_source_id = xj_id job, ir_source_name = xj_name job,
      ir_expected_id_destination = (if live_by_id (job_identities s) (xj_id job) = None then None else Some (job_id j)),
      ir_expected_name_destination = (if live_by_name (job_identities s) (xj_name job) = None then None else Some (job_id j))\<rparr>
    = resolution_for job j"
    by (simp add: resolved_maps[OF wf res] resolution_for_def)
  obtain cd sd where claim: "\<forall>previous. map_of (pl_sources st) (job_id j) = Some previous \<longrightarrow> previous = xj_id job"
    and docs: "from_str D (jr_definition_json ?cur) = Inr cd" "definition_to_value T (xj_definition job) = Inr sd"
    and plan: "if identical_job D T ?cur cd sd job
      then st' = st\<lparr>pl_sources := (job_id j, xj_id job) # pl_sources st,
          pl_actions := pl_actions st @ [\<lparr>pa_action = ''no_op'', pa_source_id = xj_id job,
             pa_destination_id = job_id j, pa_name = None\<rparr>],
          pl_batch := pl_batch st @ [ImportVerify (keep_job (job_id j) now ?cur) (resolution_for job j)]\<rparr>
      else \<exists>u. replace_job D T (job_id j) now ?cur job = Inr u \<and> st' = st\<lparr>pl_sources := (job_id j, xj_id job) # pl_sources st,
          pl_actions := pl_actions st @ [\<lparr>pa_action = ''update'', pa_source_id = xj_id job,
             pa_destination_id = job_id j, pa_name = Some (xj_name job)\<rparr>],
          pl_batch := pl_batch st @ [ImportUpdate u (resolution_for job j)]\<rparr>"
    using ok unfolding plan_existing_def Let_def resolution read
    by (auto simp: and_then_eq_Inr claim_destination_Inr map_err_eq_Inr split: if_splits)
  show ?thesis
  proof (cases "identical_job D T ?cur cd sd job")
    case True
    then have same: "cd = sd" "job_name j = xj_name job" "job_description j = xj_description job"
        "job_enabled j = xj_enabled job" "tags_from_str T (job_tags_json j) = Inr (xj_tags job)"
      by (auto simp: identical_job_def map_job_def split: sum.splits)
    have "item_planned D T s f now job (ImportVerify (keep_job (job_id j) now ?cur) (resolution_for job j))" for f
      using res v joined docs same unfolding item_planned.simps
      by (intro exI[of _ j] exI[of _ v] exI[of _ c] exI[of _ sd]) (simp add: map_job_def)
    then show ?thesis
      using plan True claim_new[OF claim] unfolding plan_round_def
      by (intro exI[of _ "ImportVerify (keep_job (job_id j) now ?cur) (resolution_for job j)"])
         (auto simp: keep_job_def)
  next
    case False
    then obtain u where u: "replace_job D T (job_id j) now ?cur job = Inr u"
      and st': "st' = st\<lparr>pl_sources := (job_id j, xj_id job) # pl_sources st,
          pl_actions := pl_actions st @ [\<lparr>pa_action = ''update'', pa_source_id = xj_id job,
             pa_destination_id = job_id j, pa_name = Some (xj_name job)\<rparr>],
          pl_batch := pl_batch st @ [ImportUpdate u (resolution_for job j)]\<rparr>"
      using plan by auto
    have "item_planned D T s f now job (ImportUpdate u (resolution_for job j))" for f
      using u res by (auto simp: replace_job_def and_then_eq_Inr map_err_eq_Inr map_job_def intro!: exI[of _ j])
    moreover have "uj_id u = job_id j" using u by (auto simp: replace_job_def and_then_eq_Inr)
    ultimately show ?thesis
      using claim_new[OF claim] unfolding plan_round_def st'
      by (intro exI[of _ "ImportUpdate u (resolution_for job j)"]) auto
  qed
qed

lemma plan_job_round:
  assumes wf: "jobs_wf s" and alone: "names_unambiguous s"
    and ok: "plan_job D T s (job_identities s) fresh now job st = Inr st'"
  shows "\<exists>i. plan_round D T s fresh now job st st' i"
proof -
  obtain destination where res: "resolve_destination (job_identities s) job = Inr destination"
    and plan: "(case destination of
         None \<Rightarrow> plan_create T (job_identities s) (fresh (length (pl_batch st))) now job st
       | Some dest \<Rightarrow> plan_existing D T s (job_identities s) dest now job st) = Inr st'"
    using ok by (auto simp: plan_job_def and_then_eq_Inr)
  show ?thesis
  proof (cases destination)
    case None
    with plan plan_create_round[OF resolve_None[OF wf], of job T fresh st now st' D] res show ?thesis by simp
  next
    case (Some d)
    with resolve_Some[OF wf] res obtain j where "resolved s job j" "job_id j = d" by blast
    with plan Some plan_existing_round[OF wf alone, of job j D T now st st' fresh] show ?thesis by simp
  qed
qed

text \<open>The batch of a plan, item by item, from the \<open>n\<close>th job on.\<close>

fun planned_from ::
    "codecs \<Rightarrow> transfer_codecs \<Rightarrow> store \<Rightarrow> (nat \<Rightarrow> string) \<Rightarrow> int \<Rightarrow> nat \<Rightarrow> export_job list \<Rightarrow> import_job list \<Rightarrow> bool" where
  "planned_from D T s fresh now n [] items \<longleftrightarrow> items = []"
| "planned_from D T s fresh now n (job # rest) items \<longleftrightarrow>
     (\<exists>i others. items = i # others \<and> item_planned D T s (fresh n) now job i
        \<and> planned_from D T s fresh now (Suc n) rest others)"

lemma plan_jobs_rounds:
  assumes wf: "jobs_wf s" and alone: "names_unambiguous s"
    and ids: "distinct (map xj_id js)" "set (map xj_id js) \<inter> snd ` set (pl_sources st) = {}"
    and ok: "plan_jobs D T s (job_identities s) fresh now js st = Inr st'"
  shows "\<exists>items acts. pl_batch st' = pl_batch st @ items \<and> pl_actions st' = pl_actions st @ acts
    \<and> planned_from D T s fresh now (length (pl_batch st)) js items
    \<and> (list_ex (\<lambda>a. pa_action a \<noteq> ''no_op'') acts \<longleftrightarrow> \<not> list_all is_verify items)
    \<and> distinct (existing_ids items) \<and> set (existing_ids items) \<inter> fst ` set (pl_sources st) = {}"
  using ids ok
proof (induction js arbitrary: st)
  case (Cons job js)
  obtain st1 where one: "plan_job D T s (job_identities s) fresh now job st = Inr st1"
    and rest: "plan_jobs D T s (job_identities s) fresh now js st1 = Inr st'"
    using Cons.prems(3) by (auto simp: and_then_eq_Inr)
  obtain i where round: "plan_round D T s fresh now job st st1 i"
    using plan_job_round[OF wf alone one] by blast
  then obtain a dest where b: "pl_batch st1 = pl_batch st @ [i]"
    and planned: "item_planned D T s (fresh (length (pl_batch st))) now job i"
    and acts: "pl_actions st1 = pl_actions st @ [a]" "pa_action a = ''no_op'' \<longleftrightarrow> is_verify i"
    and src: "pl_sources st1 = (dest, xj_id job) # pl_sources st" "set (existing_ids [i]) \<subseteq> {dest}"
    and new: "xj_id job \<notin> snd ` set (pl_sources st) \<longrightarrow> dest \<notin> fst ` set (pl_sources st)"
    unfolding plan_round_def by blast
  have "distinct (map xj_id js)" "set (map xj_id js) \<inter> snd ` set (pl_sources st1) = {}"
    using Cons.prems(1,2) src(1) by auto
  with Cons.IH[OF _ _ rest] obtain items acts' where IH: "pl_batch st' = pl_batch st1 @ items"
      "pl_actions st' = pl_actions st1 @ acts'"
      "planned_from D T s fresh now (length (pl_batch st1)) js items"
      "list_ex (\<lambda>a. pa_action a \<noteq> ''no_op'') acts' \<longleftrightarrow> \<not> list_all is_verify items"
      "distinct (existing_ids items)" "set (existing_ids items) \<inter> fst ` set (pl_sources st1) = {}"
    by blast
  have dest: "dest \<notin> fst ` set (pl_sources st)" using new Cons.prems(2) by auto
  have "distinct (existing_ids (i # items)) \<and> set (existing_ids (i # items)) \<inter> fst ` set (pl_sources st) = {}"
    using IH(5,6) src dest by (cases i) auto
  moreover have "planned_from D T s fresh now (length (pl_batch st)) (job # js) (i # items)"
    using planned IH(3) b by simp
  ultimately show ?case
    using b acts IH(1,2,4) by (intro exI[of _ "i # items"] exI[of _ "a # acts'"]) auto
qed simp


section \<open>A plan can be applied\<close>

definition fresh_ids :: "codecs \<Rightarrow> (nat \<Rightarrow> string) \<Rightarrow> store \<Rightarrow> export_job list \<Rightarrow> bool" where
  "fresh_ids D fresh s js \<longleftrightarrow>
     inj_on fresh {..<length js}
     \<and> (\<forall>n < length js. validate_uuid D (fresh n) = Inr () \<and> \<not> job_id_exists s (fresh n) \<and> fresh n \<notin> xj_id ` set js)"

lemma fresh_idsD:
  assumes "fresh_ids D fresh s js" "n < length js"
  shows "m < length js \<Longrightarrow> fresh m = fresh n \<longleftrightarrow> m = n" "validate_uuid D (fresh n) = Inr ()"
    "\<not> job_id_exists s (fresh n)" "job \<in> set js \<Longrightarrow> fresh n \<noteq> xj_id job"
  using assms by (auto simp: fresh_ids_def inj_on_def)

lemma planned_names: "planned_from D T s fresh now n js items \<Longrightarrow> map item_name items = map xj_name js"
proof (induction js arbitrary: n items)
  case (Cons job js)
  then obtain i others where i: "items = i # others" "item_planned D T s (fresh n) now job i"
    and rest: "planned_from D T s fresh now (Suc n) js others" by auto
  have "item_name i = xj_name job" using i(2) by (cases i) (auto simp: keep_job_def map_job_def)
  with Cons.IH[OF rest] i(1) show ?case by simp
qed simp

lemma planned_item:
  "planned_from D T s fresh now n js items \<Longrightarrow> i \<in> set items \<Longrightarrow>
     \<exists>job \<in> set js. \<exists>m. n \<le> m \<and> m < n + length js \<and> item_planned D T s (fresh m) now job i"
proof (induction js arbitrary: n items)
  case (Cons job js)
  then obtain i' others where items: "items = i' # others" "item_planned D T s (fresh n) now job i'"
    and rest: "planned_from D T s fresh now (Suc n) js others" by auto
  show ?case
  proof (cases "i = i'")
    case True
    with items show ?thesis by auto
  next
    case False
    with Cons.prems(2) items(1) have "i \<in> set others" by simp
    with Cons.IH[OF rest] obtain job' m where "job' \<in> set js" "Suc n \<le> m" "m < Suc n + length js"
        "item_planned D T s (fresh m) now job' i" by blast
    then show ?thesis by (intro bexI[of _ job'] exI[of _ m]) auto
  qed
qed simp

lemma planned_job:
  "planned_from D T s fresh now n js items \<Longrightarrow> job \<in> set js \<Longrightarrow>
     \<exists>i \<in> set items. \<exists>m. item_planned D T s (fresh m) now job i"
  by (induction js arbitrary: n items) fastforce+

lemma existing_exists:
  assumes "item_planned D T s f now job i" "\<not> (\<exists>c r. i = ImportCreate c r)"
  shows "\<exists>j. resolved s job j \<and> item_id i = job_id j"
  using assms by (cases i) (auto simp: keep_job_def)

lemma existing_in: "i \<in> set items \<Longrightarrow> \<not> (\<exists>c r. i = ImportCreate c r) \<Longrightarrow> item_id i \<in> set (existing_ids items)"
  by (induction items rule: existing_ids.induct) auto

lemma resolved_exists: "resolved s job j \<Longrightarrow> job_id_exists s (job_id j)"
  by (auto simp: resolved_def job_id_exists_def)

text \<open>Where the identity of an item comes from.\<close>

lemma planned_origin:
  assumes "item_planned D T s f now job i" "\<not> job_id_exists s f"
  shows "(\<exists>c r. i = ImportCreate c r) \<and> \<not> job_id_exists s (item_id i) \<and> (item_id i = xj_id job \<or> item_id i = f)
    \<or> \<not> (\<exists>c r. i = ImportCreate c r) \<and> job_id_exists s (item_id i)"
proof (cases "\<exists>c r. i = ImportCreate c r")
  case True
  with assms show ?thesis by (auto split: if_splits)
next
  case False
  with existing_exists[OF assms(1)] resolved_exists show ?thesis by metis
qed

lemma planned_distinct:
  assumes "planned_from D T s fresh now (length us) js items" "fresh_ids D fresh s (us @ js)"
    "distinct (map xj_id js)" "distinct (existing_ids items)"
  shows "distinct (map item_id items)"
  using assms
proof (induction js arbitrary: items us)
  case (Cons job js)
  let ?n = "length us"
  from Cons obtain i others where items: "items = i # others" "item_planned D T s (fresh ?n) now job i"
    and rest: "planned_from D T s fresh now (Suc ?n) js others" by auto
  note fresh = fresh_idsD[OF Cons.prems(2)]
  have "fresh_ids D fresh s ((us @ [job]) @ js)" using Cons.prems(2) by simp
  moreover have "distinct (existing_ids others)" using Cons.prems(4) items(1) by (cases i) auto
  ultimately have IH: "distinct (map item_id others)" using Cons.IH[of "us @ [job]" others] rest Cons.prems(3) by simp
  have "item_id k \<noteq> item_id i" if k: "k \<in> set others" for k
  proof
    assume same: "item_id k = item_id i"
    obtain job' m where k': "job' \<in> set js" "Suc ?n \<le> m" "item_planned D T s (fresh m) now job' k"
      and m: "m < Suc ?n + length js"
      using planned_item[OF rest k] by blast
    have bounds: "?n < length (us @ job # js)" "m < length (us @ job # js)" using m by auto
    have "job' \<in> set (us @ job # js)" "job \<in> set (us @ job # js)" using k'(1) by auto
    note apart = fresh(4)[OF bounds(1) this(1)] fresh(4)[OF bounds(2) this(2)]
    have "xj_id job' \<noteq> xj_id job" using Cons.prems(3) k'(1) by (auto simp: image_iff)
    moreover have "fresh m \<noteq> fresh ?n" using fresh(1)[OF bounds] k'(2) by auto
    ultimately have "\<not> (\<exists>c r. i = ImportCreate c r) \<and> \<not> (\<exists>c r. k = ImportCreate c r)"
      using planned_origin[OF items(2) fresh(3)[OF bounds(1)]] planned_origin[OF k'(3) fresh(3)[OF bounds(2)]]
        same apart by metis
    then have "item_id i \<in> set (existing_ids others)" "existing_ids items = item_id i # existing_ids others"
      using existing_in[OF k] same items(1) by (metis, cases i, auto)
    with Cons.prems(4) show False by simp
  qed
  then have "item_id i \<notin> item_id ` set others" by (metis imageE)
  with IH items(1) show ?case by simp
qed simp


text \<open>The checks of the applying transaction pass for every item of the plan.\<close>

lemma find_resolved:
  assumes "resolved s job j" "\<And>x. p x \<Longrightarrow> live x \<and> job_matches job x"
  shows "map_option job_id (query_row p (jobs s)) = (if p j then Some (job_id j) else None)"
proof (cases "query_row p (jobs s)")
  case None
  then have "\<not> p j" using assms(1) by (auto simp: query_row_def find_None_iff resolved_def)
  with None show ?thesis by simp
next
  case (Some x)
  then have "x \<in> set (jobs s)" "p x" by (auto simp: query_row_def find_Some_iff)
  with resolved_matches[OF assms(1)] assms(2) have "x = j" by blast
  with Some \<open>p x\<close> show ?thesis by simp
qed

lemma find_unresolved:
  assumes "unresolved s job" "\<And>x. p x \<Longrightarrow> live x \<and> job_matches job x"
  shows "query_row p (jobs s) = None"
  using assms by (auto simp: query_row_def find_None_iff unresolved_def)

lemma resolution_valid:
  assumes "resolved s job j"
  shows "validate_import_resolution s (resolution_for job j) = Inr ()"
  using assms
    find_resolved[OF assms, of "\<lambda>x. job_id x = xj_id job \<and> job_removed_at x = None"]
    find_resolved[OF assms, of "\<lambda>x. job_name x = xj_name job \<and> job_removed_at x = None"]
  by (auto simp: validate_import_resolution_def resolution_for_def job_matches_def live_unfold resolved_def)

lemma resolution_valid_new:
  assumes "unresolved s job"
  shows "validate_import_resolution s \<lparr>ir_source_id = xj_id job, ir_source_name = xj_name job,
           ir_expected_id_destination = None, ir_expected_name_destination = None\<rparr> = Inr ()"
  using find_unresolved[OF assms, of "\<lambda>x. job_id x = xj_id job \<and> job_removed_at x = None"]
    find_unresolved[OF assms, of "\<lambda>x. job_name x = xj_name job \<and> job_removed_at x = None"]
  by (simp add: validate_import_resolution_def job_matches_def live_unfold)

lemma no_other_resolved:
  assumes "resolved s job j"
  shows "no_other_live s (xj_name job) (job_id j)" "\<not> other_live_name s (xj_name job) (job_id j)"
proof -
  have "x = j" if "x \<in> set (jobs s)" "live x" "job_name x = xj_name job" for x
    using resolved_matches[OF assms that(1,2)] that(3) by (simp add: job_matches_def)
  then show "no_other_live s (xj_name job) (job_id j)" "\<not> other_live_name s (xj_name job) (job_id j)"
    unfolding no_other_live_def other_live_name_def live_unfold by blast+
qed

lemma import_destination_resolved:
  assumes "jobs_wf s" "j \<in> set (jobs s)" "live j" "joined_job s j = Some rec"
  shows "import_destination s (job_id j) = Inr rec"
proof -
  have "filter (\<lambda>x. job_id x = job_id j \<and> job_removed_at x = None) (jobs s) = [j]"
    by (rule filter_key[OF wf_job_ids[OF assms(1)] assms(2)]) (use assms(3) in \<open>auto simp: live_unfold\<close>)
  with assms(4) show ?thesis by (simp add: import_destination_def List.map_filter_def ok_or_def)
qed

lemma planned_check:
  assumes wf: "jobs_wf s" and planned: "item_planned D T s f now job i"
    and ids: "validate_uuid D (xj_id job) = Inr ()" "validate_uuid D f = Inr ()" "\<not> job_id_exists s f"
  shows "check_import D s i = Inr ()" and "item_ready s i"
proof (atomize (full), cases i)
  case (ImportCreate c r)
  have new: "\<not> live_name_exists s (xj_name job)"
    using planned ImportCreate by (auto simp: unresolved_def job_matches_def live_name_exists_def live_unfold)
  moreover have "\<not> job_id_exists s (cj_id c)" "validate_uuid D (cj_id c) = Inr ()" "cj_name c = xj_name job"
    using planned ids ImportCreate by (auto split: if_splits)
  ultimately show "check_import D s i = Inr () \<and> item_ready s i"
    using planned ImportCreate resolution_valid_new[of s job] by (auto simp: check_import_def)
next
  case (ImportUpdate u r)
  then obtain j where j: "resolved s job j" "uj_id u = job_id j" "uj_expected_revision u = job_current_revision j"
      "r = resolution_for job j" and name: "uj_name u = xj_name job"
    using planned by auto
  have row: "j \<in> set (jobs s)" "live j" using j(1) by (simp_all add: resolved_def)
  obtain v c where joined: "joined_job s j = Some (map_job j v c)" using live_joined[OF wf row(1)] by blast
  have "check_destination s u (\<lambda>_. Inr ()) = Inr ()"
    using import_destination_resolved[OF wf row joined] j(2,3) name no_other_resolved[OF j(1)]
    by (simp add: check_destination_def map_job_def)
  then show "check_import D s i = Inr () \<and> item_ready s i"
    using ImportUpdate resolution_valid[OF j(1)] j no_other_resolved[OF j(1)] name row
    by (auto simp: check_import_def)
next
  case (ImportVerify u r)
  then obtain j v c where j: "resolved s job j" "r = resolution_for job j" "joined_job s j = Some (map_job j v c)"
      "u = keep_job (job_id j) now (map_job j v c)" and name: "job_name j = xj_name job"
    using planned by auto
  have row: "j \<in> set (jobs s)" "live j" using j(1) by (simp_all add: resolved_def)
  have "check_destination s u (\<lambda>current. if \<not> import_job_matches current u then Inl e else Inr ()) = Inr ()" for e
    using import_destination_resolved[OF wf row j(3)] j(4) name no_other_resolved[OF j(1)]
    by (simp add: check_destination_def keep_job_def map_job_def import_job_matches_def)
  then show "check_import D s i = Inr () \<and> item_ready s i"
    using ImportVerify resolution_valid[OF j(1)] j(2) by (simp add: check_import_def)
qed


section \<open>After an import\<close>

text \<open>What the package serde promises of the texts that an import stores and reads again.\<close>

definition transfer_laws :: "codecs \<Rightarrow> transfer_codecs \<Rightarrow> bool" where
  "transfer_laws D T \<longleftrightarrow>
     (\<forall>tags. tags_from_str T (tags_to_string T tags) = Inr tags)
     \<and> (\<forall>d t. definition_to_string T d = Inr t \<longrightarrow>
          (\<exists>doc. definition_to_value T d = Inr doc \<and> from_str D t = Inr doc))"

lemma transfer_lawsD:
  assumes "transfer_laws D T"
  shows "tags_from_str T (tags_to_string T tags) = Inr tags"
    and "definition_to_string T d = Inr t \<Longrightarrow> \<exists>doc. definition_to_value T d = Inr doc \<and> from_str D t = Inr doc"
  using assms unfolding transfer_laws_def by blast+

text \<open>A database holds a job of a document.\<close>

definition holds_job :: "codecs \<Rightarrow> transfer_codecs \<Rightarrow> store \<Rightarrow> export_job \<Rightarrow> bool" where
  "holds_job D T s job \<longleftrightarrow>
     (\<exists>j \<in> set (jobs s). \<exists>v \<in> set (job_revisions s). \<exists>doc.
        live j \<and> job_name j = xj_name job \<and> job_description j = xj_description job
        \<and> job_enabled j = xj_enabled job \<and> tags_from_str T (job_tags_json j) = Inr (xj_tags job)
        \<and> rev_key v = job_key j
        \<and> definition_to_value T (xj_definition job) = Inr doc \<and> from_str D (rev_definition_json v) = Inr doc)"

lemma rows_hold:
  assumes laws: "transfer_laws D T" and planned: "item_planned D T s f now job i" and i: "i \<in> set items"
    and ids: "distinct (map item_id items)" and wf: "jobs_wf s"
    and others: "\<And>k. k \<in> set items \<Longrightarrow> item_id k = item_id i \<Longrightarrow> k = i"
    and s': "jobs s' = fold (item_rows now) items (jobs s)"
      "job_revisions s' = job_revisions s @ concat (map (item_revisions now) items)"
  shows "holds_job D T s' job"
proof (cases i)
  case (ImportCreate c r)
  let ?v = "hd (item_revisions now i)"
  have "new_job_row c now \<in> set (jobs s')" using fold_rows_created[OF i[unfolded ImportCreate] ids] s'(1) by simp
  moreover have "?v \<in> set (job_revisions s')" using i ImportCreate by (auto simp: s'(2) intro!: bexI[of _ i])
  moreover obtain doc where "definition_to_value T (xj_definition job) = Inr doc" "from_str D (cj_definition_json c) = Inr doc"
    using transfer_lawsD(2)[OF laws, of "xj_definition job" "cj_definition_json c"] planned ImportCreate by auto
  ultimately show ?thesis
    using laws planned ImportCreate unfolding holds_job_def
    by (intro bexI[of _ "new_job_row c now"] bexI[of _ ?v] exI[of _ doc])
       (auto simp: new_job_row_def live_unfold transfer_laws_def rev_key_def job_key_def)
next
  case (ImportUpdate u r)
  let ?v = "hd (item_revisions now i)"
  obtain j where j: "resolved s job j" "uj_id u = job_id j" using planned ImportUpdate by auto
  then have "updated_row u now j \<in> set (jobs s')"
    using fold_rows_updated[OF i[unfolded ImportUpdate] ids] s'(1) by (simp add: resolved_def)
  moreover have "?v \<in> set (job_revisions s')" using i ImportUpdate by (auto simp: s'(2) intro!: bexI[of _ i])
  moreover obtain doc where "definition_to_value T (xj_definition job) = Inr doc" "from_str D (uj_definition_json u) = Inr doc"
    using transfer_lawsD(2)[OF laws, of "xj_definition job" "uj_definition_json u"] planned ImportUpdate by auto
  ultimately show ?thesis
    using laws planned ImportUpdate j unfolding holds_job_def
    by (intro bexI[of _ "updated_row u now j"] bexI[of _ ?v] exI[of _ doc])
       (auto simp: updated_row_def resolved_def live_unfold transfer_laws_def rev_key_def job_key_def)
next
  case (ImportVerify u r)
  then obtain j v c doc where j: "resolved s job j" "u = keep_job (job_id j) now (map_job j v c)"
    and v: "v \<in> set (job_revisions s)" "rev_key v = job_key j"
    and same: "definition_to_value T (xj_definition job) = Inr doc" "from_str D (rev_definition_json v) = Inr doc"
      "job_name j = xj_name job" "job_description j = xj_description job" "job_enabled j = xj_enabled job"
      "tags_from_str T (job_tags_json j) = Inr (xj_tags job)"
    using planned by auto
  have "fold (item_rows now) items (jobs s) = fold (item_rows now) (filter (\<lambda>k. k \<noteq> i) items) (jobs s)"
    using ImportVerify by (induction items arbitrary: s rule: rev_induct) (auto simp: fold_append)
  moreover have "job_id j \<notin> item_id ` set (filter (\<lambda>k. k \<noteq> i) items)"
    using others ImportVerify j(2) by (auto simp: keep_job_def)
  ultimately have "j \<in> set (jobs s')"
    using fold_rows_kept[of j "jobs s"] j(1) s'(1) by (simp add: resolved_def)
  with v same j(1) show ?thesis unfolding holds_job_def resolved_def s'(2) by auto
qed

lemma fold_count:
  "is_created (fold item_count items m) = is_created m + length (filter (\<lambda>i. \<exists>c r. i = ImportCreate c r) items)"
  "is_updated (fold item_count items m) = is_updated m + length (filter (\<lambda>i. \<exists>u r. i = ImportUpdate u r) items)"
proof (induction items arbitrary: m)
  case (Cons i items)
  { case 1 show ?case using Cons.IH(1) by (cases i) simp_all }
  { case 2 show ?case using Cons.IH(2) by (cases i) simp_all }
qed simp_all

lemma resolved_not_unresolved: "resolved s job j \<Longrightarrow> \<not> unresolved s job"
  by (auto simp: resolved_def unresolved_def)

lemma planned_created:
  "planned_from D T s fresh now n js items \<Longrightarrow>
     length (filter (\<lambda>i. \<exists>c r. i = ImportCreate c r) items) = length (filter (unresolved s) js)"
proof (induction js arbitrary: n items)
  case (Cons job js)
  then obtain i others where items: "items = i # others" "item_planned D T s (fresh n) now job i"
    and rest: "planned_from D T s fresh now (Suc n) js others" by auto
  have "(\<exists>c r. i = ImportCreate c r) \<longleftrightarrow> unresolved s job"
    using items(2) resolved_not_unresolved by (cases i) auto
  with Cons.IH[OF rest] items(1) show ?case by simp
qed simp

lemma planned_length: "planned_from D T s fresh now n js items \<Longrightarrow> length items = length js"
  using planned_names by (metis length_map)


text \<open>What a parsed document has, and that the identities it may hold are accepted by the store.\<close>

lemma check_all_imported_ok:
  assumes "check_all_imported T validate plaintext ids names js = Some (Inr ())"
  shows "distinct (map xj_id js) \<and> distinct (map xj_name js)
    \<and> set (map xj_id js) \<inter> set ids = {} \<and> set (map xj_name js) \<inter> set names = {}
    \<and> (\<forall>job \<in> set js. length (xj_id job) = 36 \<and> lowercase_canonical_uuid (xj_id job))"
  using assms
proof (induction js arbitrary: ids names)
  case (Cons job js)
  have one: "check_imported T validate plaintext ids names job = Some (Inr ())"
    and rest: "check_all_imported T validate plaintext (xj_id job # ids) (xj_name job # names) js = Some (Inr ())"
    using Cons.prems by (auto split: option.splits sum.splits)
  have "length (xj_id job) = 36" "lowercase_canonical_uuid (xj_id job)" "xj_id job \<notin> set ids" "xj_name job \<notin> set names"
    using one by (auto simp: check_imported_def split: if_splits)
  with Cons.IH[OF rest] show ?case by auto
qed simp

lemma parsed_document:
  assumes "parse_import_document T validate bytes accept = Some (Inr doc)"
  shows "distinct (map xj_id (xd_jobs doc))" "distinct (map xj_name (xd_jobs doc))"
    "\<And>job. job \<in> set (xd_jobs doc) \<Longrightarrow> length (xj_id job) = 36 \<and> lowercase_canonical_uuid (xj_id job)"
proof -
  obtain v p where "check_all_imported T v p [] [] (xd_jobs doc) = Some (Inr ())"
    using assms by (auto simp: parse_import_document_def Let_def and_then_eq_Inr split: sum.splits if_splits)
  from check_all_imported_ok[OF this]
  show "distinct (map xj_id (xd_jobs doc))" "distinct (map xj_name (xd_jobs doc))"
    "\<And>job. job \<in> set (xd_jobs doc) \<Longrightarrow> length (xj_id job) = 36 \<and> lowercase_canonical_uuid (xj_id job)"
    by blast+
qed

definition uuid_law :: "codecs \<Rightarrow> bool" where
  "uuid_law D \<longleftrightarrow> (\<forall>v. length v = 36 \<longrightarrow> lowercase_canonical_uuid v \<longrightarrow> uuid_hyphenated D v = Some v)"

lemma canonical_lowercase: "lowercase_canonical_uuid v \<Longrightarrow> to_ascii_lowercase v = v"
proof -
  have "ascii_lower b = b" if "b \<in> set ''0123456789abcdef-''" for b
    using that by (auto simp: ascii_lower_def)
  then show "lowercase_canonical_uuid v \<Longrightarrow> to_ascii_lowercase v = v"
    by (auto simp: lowercase_canonical_uuid_def to_ascii_lowercase_def list_all_iff intro!: map_idI)
qed

lemma canonical_accepted:
  "uuid_law D \<Longrightarrow> length v = 36 \<Longrightarrow> lowercase_canonical_uuid v \<Longrightarrow> validate_uuid D v = Inr ()"
  by (simp add: uuid_law_def validate_uuid_def canonical_lowercase)

lemma settings_unchanged: "\<not> settings_changed a b \<Longrightarrow> a = b"
  by (simp add: settings_changed_def)

lemma imported_settings_read:
  assumes codec: "environment_codec D" and env: "btree_wf (rec_environment r)"
    and ok: "validate_import_settings windows r = Inr ()" and s': "settings s' = settings (import_settings D r now s)"
  shows "read_settings D windows s' = Inr r"
proof -
  have "validate_entries windows (rec_environment r) = Inr ()"
    using ok by (auto simp: validate_import_settings_def split: if_splits)
  moreover have "environment_from_str D (environment_to_string D (rec_environment r)) = Inr (rec_environment r)"
    using codec env by (simp add: environment_codec_def)
  ultimately show ?thesis
    by (simp add: read_settings_def parse_environment_json_def s' import_settings_def map_err_def)
qed

lemma all_verified:
  "list_all is_verify items \<Longrightarrow> fold (item_rows now) items js = js \<and> concat (map (item_revisions now) items) = []"
proof (induction items arbitrary: js)
  case (Cons i items)
  then show ?case by (cases i) auto
qed simp

lemma collect_all_Inr: "(\<And>x. x \<in> set xs \<Longrightarrow> f x = Inr ()) \<Longrightarrow> \<exists>us. collect f xs = Inr us"
  by (induction xs) (auto simp: and_then_eq_Inr)

text \<open>The plan of a parsed document, in the form the applying transaction needs.\<close>

lemma plan_import_items:
  assumes wf: "jobs_wf s" and alone: "names_unambiguous s" and fresh: "fresh_ids D fresh s (xd_jobs doc)"
    and ids: "distinct (map xj_id (xd_jobs doc))" and names: "distinct (map xj_name (xd_jobs doc))"
    and plan: "plan_import D T windows fresh doc (Some s) now = Inr plan"
  shows "\<exists>js items current. mset js = mset (xd_jobs doc) \<and> planned_from D T s fresh now 0 js items
    \<and> distinct (map item_id items) \<and> distinct (map item_name items)
    \<and> read_settings D windows s = Inr current
    \<and> ip_settings_changed plan = settings_changed current (xd_settings doc)
    \<and> ip_batch plan = (if list_all is_verify items \<and> \<not> settings_changed current (xd_settings doc) then None
         else Some \<lparr>ib_settings = xd_settings doc, ib_jobs = items, ib_now = now\<rparr>)"
proof -
  let ?js = "sort_key (\<lambda>j. (xj_name j, xj_id j)) (xd_jobs doc)"
  let ?st = "\<lparr>pl_actions = [], pl_batch = [], pl_sources = []\<rparr>"
  obtain current st where current: "read_settings D windows s = Inr current"
    and st: "plan_jobs D T s (job_identities s) fresh now ?js ?st = Inr st"
    and p: "plan = \<lparr>ip_settings_changed = settings_changed current (xd_settings doc), ip_actions = pl_actions st,
        ip_batch = (if list_ex (\<lambda>a. pa_action a \<noteq> ''no_op'') (pl_actions st) \<or> settings_changed current (xd_settings doc)
           then Some \<lparr>ib_settings = xd_settings doc, ib_jobs = pl_batch st, ib_now = now\<rparr> else None)\<rparr>"
    using plan unfolding plan_import_def Let_def by (auto simp: and_then_eq_Inr map_err_eq_Inr)
  have perm: "mset ?js = mset (xd_jobs doc)" by simp
  have dist: "distinct (map xj_id ?js)" "distinct (map xj_name ?js)"
    using ids names mset_map[of xj_id] mset_map[of xj_name] perm by (metis mset_eq_imp_distinct_iff)+
  have fr: "fresh_ids D fresh s ?js" using fresh by (simp add: fresh_ids_def)
  obtain items acts where rounds: "pl_batch st = items" "pl_actions st = acts"
      "planned_from D T s fresh now 0 ?js items"
      "list_ex (\<lambda>a. pa_action a \<noteq> ''no_op'') acts \<longleftrightarrow> \<not> list_all is_verify items" "distinct (existing_ids items)"
    using plan_jobs_rounds[OF wf alone dist(1) _ st] by auto
  have "distinct (map item_id items)"
    using planned_distinct[of D T s fresh now "[]" ?js items] rounds(3,5) fr dist(1) by simp
  moreover have "distinct (map item_name items)" using planned_names[OF rounds(3)] dist(2) by simp
  ultimately show ?thesis
    using perm rounds current p by (intro exI[of _ ?js] exI[of _ items] exI[of _ current]) auto
qed


text \<open>What the import leaves as it was, and what it has stored.\<close>

definition imported :: "codecs \<Rightarrow> transfer_codecs \<Rightarrow> export_document \<Rightarrow> store \<Rightarrow> store \<Rightarrow> bool" where
  "imported D T doc s s' \<longleftrightarrow>
     jobs_wf s' \<and> (\<forall>job \<in> set (xd_jobs doc). holds_job D T s' job)
     \<and> (\<forall>j \<in> set (jobs s). \<not> live j \<or> (\<forall>job \<in> set (xd_jobs doc). \<not> job_matches job j) \<longrightarrow> j \<in> set (jobs s'))
     \<and> (\<forall>v \<in> set (job_revisions s). v \<in> set (job_revisions s'))"

lemma imported_rows:
  assumes laws: "transfer_laws D T" and wf: "jobs_wf s" "jobs_wf s'" and fresh: "fresh_ids D fresh s (xd_jobs doc)"
    and js: "mset js = mset (xd_jobs doc)" "planned_from D T s fresh now 0 js items"
    and ids: "distinct (map item_id items)"
    and s': "jobs s' = fold (item_rows now) items (jobs s)"
      "job_revisions s' = job_revisions s @ concat (map (item_revisions now) items)"
  shows "imported D T doc s s'"
  unfolding imported_def
proof (intro conjI ballI impI)
  have same: "k = i" if "k \<in> set items" "i \<in> set items" "item_id k = item_id i" for k i
    using that ids by (metis distinct_map inj_onD)
  have set: "set js = set (xd_jobs doc)" "length js = length (xd_jobs doc)"
    using js(1) by (metis set_mset_mset, metis size_mset)
  show "jobs_wf s'" by (rule wf(2))
  show "holds_job D T s' job" if "job \<in> set (xd_jobs doc)" for job
  proof -
    obtain i m where i: "i \<in> set items" "item_planned D T s (fresh m) now job i"
      using planned_job[OF js(2)] \<open>job \<in> set (xd_jobs doc)\<close> set(1) by blast
    show ?thesis by (rule rows_hold[OF laws i(2,1) ids wf(1) same[OF _ i(1)] s'])
  qed
  show "v \<in> set (job_revisions s')" if "v \<in> set (job_revisions s)" for v using that s'(2) by simp
  fix j assume j: "j \<in> set (jobs s)" and free: "\<not> live j \<or> (\<forall>job \<in> set (xd_jobs doc). \<not> job_matches job j)"
  have "item_id i \<noteq> job_id j" if i: "i \<in> set items" for i
  proof
    assume eq: "item_id i = job_id j"
    obtain job m where p: "job \<in> set js" "m < length js" "item_planned D T s (fresh m) now job i"
      using planned_item[OF js(2) i] by auto
    have "\<not> job_id_exists s (fresh m)" using fresh_idsD(3)[OF fresh] p(2) set(2) by simp
    moreover have "job_id_exists s (item_id i)" using j eq by (auto simp: job_id_exists_def)
    ultimately have "\<not> (\<exists>c r. i = ImportCreate c r)" using planned_origin[OF p(3)] by blast
    then obtain j' where "resolved s job j'" "item_id i = job_id j'" using existing_exists[OF p(3)] by blast
    moreover from this have "j' = j" using wf_same_id[OF wf(1) _ j] eq by (simp add: resolved_def)
    ultimately show False using free p(1) set(1) by (auto simp: resolved_def)
  qed
  then have "job_id j \<notin> item_id ` set items" by (metis imageE)
  then show "j \<in> set (jobs s')" using fold_rows_kept[OF j] s'(1) by simp
qed

lemma planned_counts:
  assumes "mset js = mset all" "planned_from D T s fresh now 0 js items"
  shows "is_created (fold item_count items \<lparr>is_created = 0, is_updated = 0\<rparr>) = length (filter (unresolved s) all)"
    and "is_created (fold item_count items \<lparr>is_created = 0, is_updated = 0\<rparr>)
       + is_updated (fold item_count items \<lparr>is_created = 0, is_updated = 0\<rparr>) \<le> length all"
proof -
  show "is_created (fold item_count items \<lparr>is_created = 0, is_updated = 0\<rparr>) = length (filter (unresolved s) all)"
    using planned_created[OF assms(2)] assms(1) by (simp add: fold_count) (metis mset_filter size_mset)
  have "length (filter (\<lambda>i. \<exists>c r. i = ImportCreate c r) xs) + length (filter (\<lambda>i. \<exists>u r. i = ImportUpdate u r) xs) \<le> length xs" for xs
    by (induction xs) auto
  moreover have "length items = length all" using planned_length[OF assms(2)] assms(1) by (metis size_mset)
  ultimately show "is_created (fold item_count items \<lparr>is_created = 0, is_updated = 0\<rparr>)
       + is_updated (fold item_count items \<lparr>is_created = 0, is_updated = 0\<rparr>) \<le> length all"
    by (simp add: fold_count) metis
qed

lemma planned_checked:
  assumes wf: "jobs_wf s" and fresh: "fresh_ids D fresh s all"
    and js: "mset js = mset all" "planned_from D T s fresh now 0 js items"
    and uuids: "\<And>job. job \<in> set all \<Longrightarrow> validate_uuid D (xj_id job) = Inr ()" and i: "i \<in> set items"
  shows "check_import D s i = Inr () \<and> item_ready s i"
proof -
  obtain job m where p: "job \<in> set js" "m < length js" "item_planned D T s (fresh m) now job i"
    using planned_item[OF js(2) i] by auto
  have "set js = set all" "length js = length all" using js(1) by (metis set_mset_mset, metis size_mset)
  with planned_check[OF wf p(3)] fresh_idsD(2,3)[OF fresh] p(1,2) uuids show ?thesis by simp
qed

lemma applied_batch:
  assumes wf: "jobs_wf s" and dist: "distinct (map item_id items)" "distinct (map item_name items)"
    and checked: "\<And>i. i \<in> set items \<Longrightarrow> check_import D s i = Inr () \<and> item_ready s i"
    and valid: "validate_import_settings windows r = Inr ()"
  shows "\<exists>s'. apply_import D windows \<lparr>ib_settings = r, ib_jobs = items, ib_now = now\<rparr> s
        = Inr (s', fold item_count items \<lparr>is_created = 0, is_updated = 0\<rparr>)
    \<and> jobs_wf s' \<and> jobs s' = fold (item_rows now) items (jobs s)
    \<and> job_revisions s' = job_revisions s @ concat (map (item_revisions now) items)
    \<and> settings s' = settings (import_settings D r now s)"
proof -
  let ?m = "\<lparr>is_created = 0, is_updated = 0\<rparr> :: import_summary"
  obtain us where us: "collect (check_import D s) items = Inr us"
    using collect_all_Inr[of items "check_import D s"] checked by metis
  obtain s1 where s1: "import_all now items (s, ?m) = Inr (s1, fold item_count items ?m)"
    "jobs s1 = fold (item_rows now) items (jobs s)"
    "job_revisions s1 = job_revisions s @ concat (map (item_revisions now) items)" "jobs_wf s1"
    using import_all_effect[OF wf _ dist, of now ?m] checked by (auto simp: list_all_iff)
  let ?s' = "push_event now ''import_applied'' None None (JObject []) (import_settings D r now s1)"
  have same: "jobs ?s' = jobs s1" "job_revisions ?s' = job_revisions s1" "cursors ?s' = cursors s1"
    "settings ?s' = settings (import_settings D r now s)"
    by (simp_all add: import_settings_def)
  have "jobs_wf ?s'" using s1(4) same jobs_wf_cong by blast
  with valid us s1 same show ?thesis by (intro exI[of _ ?s']) (simp add: apply_import_def)
qed

text \<open>
  C9: an import that could be planned succeeds, under the conditions named here. Let a document be read without error, its settings
  be valid (the plan does not check them; a document with, say, a negative retention count is
  planned and then refused) and the database be well formed, with no live job named like the
  identity of another, and let the identities drawn for new jobs be fresh. If the plan on this
  database succeeds, then so does the import: afterwards the database is well
  formed and holds every job of the document by its name, with its description, tags, state and
  definition; the settings read back as those of the document; every removed job and every job
  that no job of the document names or identifies keeps its row, and no revision is lost. The
  report counts as created exactly the jobs that named and identified nothing, and its three
  numbers add up to the jobs of the document.
\<close>

theorem import_document_applies:
  assumes parsed: "parse_import_document T validate bytes accept = Some (Inr doc)"
    and wf: "jobs_wf s" and alone: "names_unambiguous s" and fresh: "fresh_ids D fresh s (xd_jobs doc)"
    and laws: "transfer_laws D T" "uuid_law D" "environment_codec D"
    and valid: "btree_wf (rec_environment (xd_settings doc))" "validate_import_settings windows (xd_settings doc) = Inr ()"
    and plan: "plan_import D T windows fresh doc (Some s) now = Inr plan"
  shows "\<exists>s' report. import_document D T windows fresh doc now s = Inr (s', report)
    \<and> imported D T doc s s' \<and> read_settings D windows s' = Inr (xd_settings doc)
    \<and> rp_created report = length (filter (unresolved s) (xd_jobs doc))
    \<and> rp_created report + rp_updated report + rp_no_op report = length (xd_jobs doc)"
proof -
  note doc = parsed_document[OF parsed]
  obtain js items current where js: "mset js = mset (xd_jobs doc)" "planned_from D T s fresh now 0 js items"
    and dist: "distinct (map item_id items)" "distinct (map item_name items)"
    and current: "read_settings D windows s = Inr current"
    and changed: "ip_settings_changed plan = settings_changed current (xd_settings doc)"
    and batch: "ip_batch plan = (if list_all is_verify items \<and> \<not> settings_changed current (xd_settings doc) then None
         else Some \<lparr>ib_settings = xd_settings doc, ib_jobs = items, ib_now = now\<rparr>)"
    using plan_import_items[OF wf alone fresh doc(1,2) plan] by blast
  define count where "count = fold item_count items \<lparr>is_created = 0, is_updated = 0\<rparr>"
  note counts = planned_counts[OF js, folded count_def]
  have checked: "check_import D s i = Inr () \<and> item_ready s i" if i: "i \<in> set items" for i
    using planned_checked[OF wf fresh js _ i] canonical_accepted[OF laws(2)] doc(3) by blast
  show ?thesis
  proof (cases "ip_batch plan")
    case None
    then have quiet: "list_all is_verify items" "\<not> settings_changed current (xd_settings doc)"
      using batch by (auto split: if_splits)
    then have "imported D T doc s s"
      using imported_rows[OF laws(1) wf wf fresh js dist(1)] all_verified[OF quiet(1)] by simp
    moreover have "is_created count = 0 \<and> is_updated count = 0"
      using quiet(1) by (auto simp: count_def fold_count filter_empty_conv list_all_iff)
    ultimately show ?thesis
      using None plan current settings_unchanged[OF quiet(2)] counts(1)
      by (simp add: import_document_def)
  next
    case (Some b)
    then have b: "b = \<lparr>ib_settings = xd_settings doc, ib_jobs = items, ib_now = now\<rparr>"
      using batch by (auto split: if_splits)
    obtain s' where applied: "apply_import D windows b s = Inr (s', count)" and s': "jobs_wf s'"
      "jobs s' = fold (item_rows now) items (jobs s)"
      "job_revisions s' = job_revisions s @ concat (map (item_revisions now) items)"
      "settings s' = settings (import_settings D (xd_settings doc) now s)"
      using applied_batch[OF wf dist checked valid(2)] unfolding b count_def by blast
    have "imported D T doc s s'" by (rule imported_rows[OF laws(1) wf s'(1) fresh js dist(1) s'(2,3)])
    moreover have "read_settings D windows s' = Inr (xd_settings doc)"
      by (rule imported_settings_read[OF laws(3) valid s'(4)])
    ultimately show ?thesis
      using plan Some applied counts by (simp add: import_document_def map_err_def)
  qed
qed


section \<open>What an export removes\<close>

lemma redact_target_cases:
  "redact_target (Process p args) = (Process p args, [])" "redact_target (Shell c sh) = (Shell c sh, [])"
  by (simp_all add: redact_target_def)

lemma cli_redact_nothing:
  assumes "\<not> definition_contains_inline_values def"
  shows "cli_redact def = (def, [])"
proof -
  have "redact_target (definition_target def) = (definition_target def, [])"
    using assms
    by (auto simp: definition_contains_inline_values_def redact_target_def list_ex_iff filter_id_conv filter_empty_conv
             split: target.splits)
  with assms show ?thesis by (simp add: cli_redact_def definition_contains_inline_values_def)
qed

lemma cli_redact_clean: "\<not> definition_contains_inline_values (fst (cli_redact def))"
  by (auto simp: cli_redact_def definition_contains_inline_values_def redact_target_def list_ex_iff
           split: prod.splits target.splits)

text \<open>The texts that may be secret, blanked: the values of variables and inline headers, and the body.\<close>

definition blank_header :: "string \<times> http_header_source \<Rightarrow> string \<times> http_header_source" where
  "blank_header h = (fst h, if inline_source (snd h) then Inline [] else snd h)"

definition blank_target :: "target \<Rightarrow> target" where
  "blank_target t =
     (case t of
        Http http \<Rightarrow> Http (http\<lparr>http_headers := map blank_header (http_headers http), http_body := map_option (\<lambda>_. []) (http_body http)\<rparr>)
      | _ \<Rightarrow> t)"

definition blank_values :: "job_definition \<Rightarrow> job_definition" where
  "blank_values def =
     def\<lparr>definition_environment := (definition_environment def)\<lparr>env_values := map (\<lambda>e. (fst e, [])) (env_values (definition_environment def))\<rparr>,
         definition_target := blank_target (definition_target def)\<rparr>"

text \<open>Where a definition has such texts, and what of its target is not one.\<close>

definition inline_value_paths :: "job_definition \<Rightarrow> string set" where
  "inline_value_paths def =
     {''definition.environment.values.'' @ n |n v. (n, v) \<in> set (env_values (definition_environment def))}
     \<union> {''definition.target.headers.'' @ n |n v http. definition_target def = Http http \<and> (n, Inline v) \<in> set (http_headers http)}
     \<union> {''definition.target.body'' |body http. definition_target def = Http http \<and> http_body http = Some body}"

fun kept_target :: "target \<Rightarrow> target \<Rightarrow> bool" where
  "kept_target (Http h) (Http h') \<longleftrightarrow>
     http_method h' = http_method h \<and> http_url h' = http_url h \<and> http_body_file h' = http_body_file h
     \<and> http_success_statuses h' = http_success_statuses h \<and> http_follow_redirects h' = http_follow_redirects h
     \<and> (\<forall>n v. (n, FromEnvironment v) \<in> set (http_headers h') \<longleftrightarrow> (n, FromEnvironment v) \<in> set (http_headers h))"
| "kept_target t t' \<longleftrightarrow> t' = t"

lemma blank_header_simps [simp]:
  "inline_source (snd (blank_header h)) = inline_source (snd h)" "fst (blank_header h) = fst h"
  "\<not> inline_source (snd h) \<Longrightarrow> blank_header h = h"
  by (simp_all add: blank_header_def inline_source_def)

lemma blank_kept_headers:
  "map blank_header (filter (\<lambda>h. \<not> inline_source (snd h)) hs) = filter (\<lambda>h. \<not> inline_source (snd h)) hs"
  by (rule map_idI) simp

lemma redact_blank_target: "redact_target (blank_target t) = redact_target t"
  by (cases t) (simp_all add: blank_target_def redact_target_def filter_map comp_def blank_kept_headers)

lemma cli_redact_blank: "cli_redact (blank_values def) = cli_redact def"
  by (simp add: cli_redact_def blank_values_def redact_blank_target comp_def split: prod.splits)

lemma named_paths: "(\<lambda>e. f (fst e)) ` set es = {f n |n v. (n, v) \<in> set es}"
  by force

lemma inline_paths: "(\<lambda>h. f (fst h)) ` set (filter (\<lambda>h. inline_source (snd h)) hs) = {f n |n v. (n, Inline v) \<in> set hs}"
proof -
  have "inline_source (snd h) \<longleftrightarrow> (\<exists>v. h = (fst h, Inline v))" for h :: "string \<times> http_header_source"
    by (cases "snd h") (auto simp: inline_source_def prod_eq_iff)
  then have "set (filter (\<lambda>h. inline_source (snd h)) hs) = {(n, Inline v) |n v. (n, Inline v) \<in> set hs}" by auto
  then show ?thesis by force
qed

lemma redact_target_paths:
  "set (snd (redact_target t)) =
     {''definition.target.headers.'' @ n |n v http. t = Http http \<and> (n, Inline v) \<in> set (http_headers http)}
     \<union> {''definition.target.body'' |body http. t = Http http \<and> http_body http = Some body}"
proof (cases t)
  case (Http http)
  have "set (snd (redact_target t)) = (\<lambda>h. ''definition.target.headers.'' @ fst h) ` set (filter (\<lambda>h. inline_source (snd h)) (http_headers http))
      \<union> (if http_body http = None then {} else {''definition.target.body''})"
    by (simp only: redact_target_def Http target.case snd_conv set_append set_map) simp
  then show ?thesis unfolding inline_paths Http by auto
qed (simp_all add: redact_target_def)

lemma cli_redact_paths: "set (snd (cli_redact def)) = inline_value_paths def"
proof -
  have "set (snd (cli_redact def)) = (\<lambda>e. ''definition.environment.values.'' @ fst e) ` set (env_values (definition_environment def))
      \<union> set (snd (redact_target (definition_target def)))"
    by (simp add: cli_redact_def split: prod.splits)
  then show ?thesis unfolding named_paths redact_target_paths inline_value_paths_def by (simp only: Un_assoc)
qed

lemma redact_target_kept: "kept_target t (fst (redact_target t))"
  by (cases t) (auto simp: redact_target_def inline_source_def)

lemma cli_redact_kept:
  "definition_schedule (fst (cli_redact def)) = definition_schedule def"
  "definition_cwd (fst (cli_redact def)) = definition_cwd def"
  "definition_policy (fst (cli_redact def)) = definition_policy def"
  "definition_action (fst (cli_redact def)) = definition_action def"
  "env_file (definition_environment (fst (cli_redact def))) = env_file (definition_environment def)"
  "env_path (definition_environment (fst (cli_redact def))) = env_path (definition_environment def)"
  "kept_target (definition_target def) (definition_target (fst (cli_redact def)))"
  using redact_target_kept[of "definition_target def"] by (auto simp: cli_redact_def split: prod.splits)

text \<open>
  C10: a redacted export of the command line shows nothing of a job's inline values and everything
  else. The exported definition has no variable, no inline header and no body; the list of
  omitted values is sorted and names exactly those the stored definition has; a definition
  without any is exported unchanged. The values themselves do not matter: a record whose
  definition differs in nothing but the texts of its variables, inline headers and body is
  exported to the same document. Identity, name, description, tags, state, schedule, working
  directory, policy, completion action, the references to files and the rest of the target
  are those of the record.
\<close>

theorem cli_export_redacts:
  assumes "cli_export_job D T RedactedValues r = Inr x"
  shows "\<exists>def. definition_from_str D (jr_definition_json r) = Some def
    \<and> \<not> definition_contains_inline_values (xj_definition x)
    \<and> sorted (xj_omitted_values x) \<and> set (xj_omitted_values x) = inline_value_paths def
    \<and> (\<not> definition_contains_inline_values def \<longrightarrow> xj_definition x = def)
    \<and> (\<forall>def' stored. blank_values def' = blank_values def \<longrightarrow> definition_from_str D stored = Some def' \<longrightarrow>
         cli_export_job D T RedactedValues (r\<lparr>jr_definition_json := stored\<rparr>) = Inr x)
    \<and> xj_id x = jr_id r \<and> xj_name x = jr_name r \<and> xj_description x = jr_description r \<and> xj_enabled x = jr_enabled r
    \<and> tags_from_str T (jr_tags_json r) = Inr (xj_tags x)
    \<and> definition_schedule (xj_definition x) = definition_schedule def
    \<and> definition_cwd (xj_definition x) = definition_cwd def
    \<and> definition_policy (xj_definition x) = definition_policy def
    \<and> definition_action (xj_definition x) = definition_action def
    \<and> env_file (definition_environment (xj_definition x)) = env_file (definition_environment def)
    \<and> env_path (definition_environment (xj_definition x)) = env_path (definition_environment def)
    \<and> kept_target (definition_target def) (definition_target (xj_definition x))"
proof -
  obtain def tags where def: "definition_from_str D (jr_definition_json r) = Some def" and tags: "tags_from_str T (jr_tags_json r) = Inr tags"
    and x: "x = \<lparr>xj_id = jr_id r, xj_name = jr_name r, xj_description = jr_description r, xj_tags = tags, xj_enabled = jr_enabled r,
        xj_definition = fst (cli_redact def), xj_omitted_values = snd (cli_redact def)\<rparr>"
    using assms
    by (auto simp: cli_export_job_def and_then_eq_Inr ok_or_def Let_def split: option.splits prod.splits)
  have "sorted (snd (cli_redact def))" by (simp add: cli_redact_def split: prod.splits)
  moreover have "cli_export_job D T RedactedValues (r\<lparr>jr_definition_json := stored\<rparr>) = Inr x"
    if "blank_values def' = blank_values def" and "definition_from_str D stored = Some def'" for def' stored
    using that tags cli_redact_blank[of def] cli_redact_blank[of def']
    by (simp add: cli_export_job_def ok_or_def x case_prod_unfold Let_def)
  ultimately show ?thesis
    using def tags cli_redact_clean cli_redact_nothing cli_redact_paths cli_redact_kept by (intro exI[of _ def]) (simp add: x)
qed

lemma pointer2_update2 [simp]:
  "pointer2 (update2 a b f d) a' b' =
     (if a' = a \<and> b' = b then map_option f (pointer2 d a b) else pointer2 d a' b')"
  by (cases "member d a") (auto simp: pointer2_def update2_def)

text \<open>
  The redacted export of the dashboard leaves an inline body in the document: a body that is not
  a JSON object (a stored definition has an array of bytes) stays where it is, and the list
  of omitted values does not mention it.
\<close>

theorem dashboard_export_keeps_body:
  assumes "pointer2 doc ''target'' ''body'' = Some body" "as_object body = None"
  shows "pointer2 (fst (redact_export_definition doc)) ''target'' ''body'' = Some body
    \<and> ''definition.target.body'' \<notin> set (snd (redact_export_definition doc))"
  using assms
  by (auto simp: redact_export_definition_def Let_def btree_set_def split: prod.splits option.splits if_splits)

text \<open>A job's own list of omitted values plays no part when the dashboard reads a document.\<close>

lemma job_omissions_ignored:
  "check_all_imported T v p ids names (map (\<lambda>j. j\<lparr>xj_omitted_values := om j\<rparr>) js)
     = check_all_imported T v p ids names js"
proof (induction js arbitrary: ids names)
  case (Cons job js)
  have "check_imported T v p ids names (job\<lparr>xj_omitted_values := om job\<rparr>) = check_imported T v p ids names job"
    by (simp add: check_imported_def split: sum.split)
  with Cons.IH show ?case by (simp split: option.split sum.split)
qed simp


section \<open>Instances\<close>

definition plain_transfer :: "export_document \<Rightarrow> transfer_codecs" where
  "plain_transfer doc =
     \<lparr>document_from_slice = (\<lambda>_. Inr doc), definition_to_string = (\<lambda>_. Inr ''{}''),
      definition_to_value = (\<lambda>_. Inr (JObject [])), definition_from_value = (\<lambda>_. Inl ''unused''),
      tags_from_str = (\<lambda>t. case plain_words [] [] t of None \<Rightarrow> Inl ''syntax'' | Some ws \<Rightarrow> Inr ws),
      tags_to_string = (\<lambda>tags. concat (map plain_word tags))\<rparr>"

lemma plain_transfer_laws: "transfer_laws plain_codecs (plain_transfer doc)"
  by (simp add: transfer_laws_def plain_transfer_def plain_codecs_def plain_words_words)

lemma plain_uuid_law: "uuid_law plain_codecs"
  by (simp add: uuid_law_def plain_codecs_def)

definition letter_definition :: job_definition where
  "letter_definition =
     \<lparr>definition_schedule = ScheduleAt (Timestamp 0),
      definition_target = Http \<lparr>http_method = Post, http_url = ''https://example.org'',
        http_headers = [(''authorization'', Inline ''secret''), (''x-user'', FromEnvironment ''USER'')],
        http_body = Some [1, 2, 3], http_body_file = None, http_success_statuses = [200], http_follow_redirects = False\<rparr>,
      definition_cwd = ''/'', definition_environment = \<lparr>env_file = None, env_values = [(''TOKEN'', ''t'')], env_path = None\<rparr>,
      definition_policy = ExecutionPolicy_default, definition_action = Retain\<rparr>"

definition sample_export :: "job_definition \<Rightarrow> string \<Rightarrow> string \<Rightarrow> export_job" where
  "sample_export def jid name =
     \<lparr>xj_id = jid, xj_name = name, xj_description = None, xj_tags = [''daily''], xj_enabled = True,
      xj_definition = def, xj_omitted_values = []\<rparr>"

text \<open>One job of the document names the job of the database, the other is new.\<close>

definition sample_document :: "job_definition \<Rightarrow> export_document" where
  "sample_document def =
     \<lparr>xd_schema = EXPORT_SCHEMA, xd_values_mode = PlaintextValues,
      xd_settings = default_settings\<lparr>rec_global_concurrency := 8\<rparr>,
      xd_jobs = [sample_export def ''01234567-89ab-4def-8123-456789abcdef'' ''nightly'',
                 sample_export def ''11234567-89ab-4def-8123-456789abcdef'' ''backup''],
      xd_omitted_values = []\<rparr>"

abbreviation sample_transfer :: "job_definition \<Rightarrow> transfer_codecs" where
  "sample_transfer def \<equiv> plain_transfer (sample_document def)"

definition sample_fresh :: "nat \<Rightarrow> string" where
  "sample_fresh n = ''ffffffff-ffff-4fff-8fff-fffffffffff'' @ (if n = 0 then ''0'' else ''1'')"

lemma sample_parsed:
  "parse_import_document (sample_transfer def) (\<lambda>_ _. Some (Inr ())) [] True = Some (Inr (sample_document def))"
proof -
  have ids: "lowercase_canonical_uuid ''01234567-89ab-4def-8123-456789abcdef''"
    "lowercase_canonical_uuid ''11234567-89ab-4def-8123-456789abcdef''" by code_simp+
  then show ?thesis
    by (simp add: parse_import_document_def plain_transfer_def sample_document_def sample_export_def
          check_imported_def map_err_def)
qed

lemma sample_planned:
  "\<exists>plan. plan_import plain_codecs (sample_transfer def) False sample_fresh (sample_document def) (Some sample_store) 9 = Inr plan"
proof -
  have "\<not> isl (plan_import plain_codecs (sample_transfer def) False sample_fresh (sample_document def) (Some sample_store) 9)"
    by code_simp
  then show ?thesis
    by (cases "plan_import plain_codecs (sample_transfer def) False sample_fresh (sample_document def) (Some sample_store) 9")
       simp_all
qed

lemma sample_fresh_ids: "fresh_ids plain_codecs sample_fresh sample_store (xd_jobs (sample_document def))"
proof -
  have two: "n < 2 \<longleftrightarrow> n = 0 \<or> n = 1" for n :: nat by auto
  have "validate_uuid plain_codecs (sample_fresh 0) = Inr ()" "validate_uuid plain_codecs (sample_fresh 1) = Inr ()"
    "\<not> job_id_exists sample_store (sample_fresh 0)" "\<not> job_id_exists sample_store (sample_fresh 1)" by code_simp+
  then show ?thesis
    by (auto simp: fresh_ids_def sample_document_def sample_export_def two inj_on_def sample_fresh_def numeral_2_eq_2
             split: if_splits)
qed

lemma sample_unambiguous: "names_unambiguous sample_store"
  by (simp add: names_unambiguous_def) code_simp


theorem import_document_applies_witness:
  "\<exists>s' report. import_document plain_codecs (sample_transfer letter_definition) False sample_fresh
       (sample_document letter_definition) 9 sample_store = Inr (s', report)
     \<and> imported plain_codecs (sample_transfer letter_definition) (sample_document letter_definition) sample_store s'
     \<and> rp_created report = 1"
proof -
  let ?doc = "sample_document letter_definition"
  obtain plan where plan: "plan_import plain_codecs (sample_transfer letter_definition) False sample_fresh ?doc
      (Some sample_store) 9 = Inr plan"
    using sample_planned by blast
  have env: "btree_wf (rec_environment (xd_settings ?doc))"
    by (simp add: sample_document_def default_settings_def btree_wf_def)
  have "validate_import_settings False (xd_settings (sample_document def)) = Inr ()" for def by code_simp
  moreover have "length (filter (unresolved sample_store) (xd_jobs (sample_document def))) = 1" for def by code_simp
  ultimately show ?thesis
    using import_document_applies[OF sample_parsed sample_jobs_wf sample_unambiguous sample_fresh_ids
        plain_transfer_laws plain_uuid_law plain_codecs_environment env _ plan] by force
qed

definition letter_codecs :: codecs where
  "letter_codecs = plain_codecs\<lparr>definition_from_str := (\<lambda>_. Some letter_definition)\<rparr>"

definition letter_record :: job_record where
  "letter_record = (created_record sample_create)\<lparr>jr_tags_json := []\<rparr>"

theorem cli_export_redacts_witness:
  "\<exists>x. cli_export_job letter_codecs (sample_transfer letter_definition) RedactedValues letter_record = Inr x
     \<and> set (xj_omitted_values x) = {''definition.environment.values.TOKEN'', ''definition.target.headers.authorization'', ''definition.target.body''}
     \<and> (\<exists>http. definition_target (xj_definition x) = Http http \<and> (''x-user'', FromEnvironment ''USER'') \<in> set (http_headers http))"
proof -
  have stored: "definition_from_str letter_codecs t = Some letter_definition" for t by (simp add: letter_codecs_def)
  have "\<exists>x. cli_export_job letter_codecs (sample_transfer letter_definition) RedactedValues letter_record = Inr x"
    by (simp add: cli_export_job_def stored letter_record_def plain_transfer_def ok_or_def split: prod.splits)
  then obtain x where x: "cli_export_job letter_codecs (sample_transfer letter_definition) RedactedValues letter_record = Inr x" ..
  have "inline_value_paths letter_definition
      = {''definition.environment.values.TOKEN'', ''definition.target.headers.authorization'', ''definition.target.body''}"
    by (auto simp: inline_value_paths_def letter_definition_def)
  moreover have "\<exists>http. t = Http http \<and> (''x-user'', FromEnvironment ''USER'') \<in> set (http_headers http)"
    if "kept_target (definition_target letter_definition) t" for t
    using that by (cases t) (auto simp: letter_definition_def)
  ultimately show ?thesis using x cli_export_redacts[OF x] stored by auto
qed

theorem dashboard_export_keeps_body_witness:
  "pointer2 (fst (redact_export_definition (JObject [(''target'', JObject [(''body'', JArray [JInt 104, JInt 105])])])))
     ''target'' ''body'' = Some (JArray [JInt 104, JInt 105])"
proof -
  have "pointer2 (JObject [(''target'', JObject [(''body'', JArray [JInt 104, JInt 105])])]) ''target'' ''body''
    = Some (JArray [JInt 104, JInt 105])" by (simp add: pointer2_def)
  from dashboard_export_keeps_body[OF this] show ?thesis by simp
qed

end
