(* ===== verification/Replacement_Trace.thy ===== *)
theory Replacement_Trace
  imports Store_Trace
begin

text \<open>
  A history of a job with the overlap policy \<open>replace\<close>: a manual run replaces its predecessor,
  executes and succeeds, but keeps the mark of a replacement candidate. The unique index of
  that mark then refuses the next replacement.
\<close>

definition replacing_codecs :: codecs where
  "replacing_codecs = plain_codecs\<lparr>from_str := (\<lambda>_. Inr (JObject [(''policy'', JObject [(''overlap'', JString ''replace'')])]))\<rparr>"

definition queue_run :: "string \<Rightarrow> int \<Rightarrow> store \<Rightarrow> store store_result" where
  "queue_run rid now s = and_then (enqueue_manual_prepare replacing_codecs ''backup'' s) (\<lambda>prepared. enqueue_manual_tx ''backup'' rid now prepared s)"

definition start_run :: "string \<Rightarrow> int \<Rightarrow> store \<Rightarrow> store store_result" where
  "start_run rid now s =
     and_then (admit replacing_codecs ''l'' now 4 s) (\<lambda>(s1, _).
     and_then (mark_attempt_running replacing_codecs rid 1 now s1) (\<lambda>(s2, _). Inr s2))"

definition end_run :: "string \<Rightarrow> int \<Rightarrow> attempt_state \<Rightarrow> store \<Rightarrow> store store_result" where
  "end_run rid now st s =
     complete_attempt replacing_codecs
       \<lparr>comp_run = rid, comp_number = 1, comp_now = now, comp_duration = 1, comp_state = CompletedAs st, comp_exit_code = None,
        comp_http_status = None, comp_http_content_type = None, comp_reason = ''end'', comp_retry = None\<rparr> s"

text \<open>Run \<open>p\<close> executes, \<open>q\<close> replaces it, executes and succeeds; then \<open>r\<close> executes.\<close>

definition replaced_once :: "store store_result" where
  "replaced_once =
     and_then (begin_lifetime replacing_codecs 7 ''l'' 9 ''1.0'' sample_store) (\<lambda>(s0, _).
     and_then (queue_run ''p'' 10 s0) (\<lambda>s1.
     and_then (start_run ''p'' 11 s1) (\<lambda>s2.
     and_then (queue_run ''q'' 12 s2) (\<lambda>s3.
     and_then (end_run ''p'' 13 AttCancelled s3) (\<lambda>s4.
     and_then (start_run ''q'' 14 s4) (\<lambda>s5.
     and_then (end_run ''q'' 15 AttSucceeded s5) (\<lambda>s6.
     and_then (queue_run ''r'' 16 s6) (\<lambda>s7. start_run ''r'' 17 s7))))))))"

lemma replaced_once_ends:
  "\<not> isl replaced_once \<and> map (\<lambda>r. (run_id r, run_st r, run_replacement_candidate r)) (runs (projr replaced_once))
     = [(''p'', Cancelled, False), (''q'', Succeeded, True), (''r'', Running, False)]"
  by code_simp

lemma second_replacement_refused:
  "queue_run ''s'' 18 (projr replaced_once) = Inl (StoreSqlite ''constraint failed'')"
  by code_simp

end
