(* ===== verification/Spec2Isabelle.thy ===== *)
theory Spec2Isabelle
  imports Lifecycle Policy Admission Schedule Command Store_Trace Redaction Daemon_Guarantees Output_Disk Reconcile_Pass Adapter_Guarantees Maintenance_Guarantees Server_Guard Import_Guarantees Replacement_Trace
begin

text \<open>
  \<^bold>\<open>Verification of locron.\<close> locron is a local scheduler: jobs with calendar, interval or one-time
  schedules run commands and HTTP requests, and everything that was due, ran, was skipped or
  was captured is kept in a database. The sources are four crates under
  \<^verbatim>\<open>src/crates/\<close>; this development models the parts that decide what happens: the values and
  schedules of \<^verbatim>\<open>locron-core\<close>, the transactions of \<^verbatim>\<open>locron-store\<close>, the daemon of
  \<^verbatim>\<open>locron-engine\<close>, and the glue of \<^verbatim>\<open>locron-cli\<close> that lets the daemon work on the store.

  \<^bold>\<open>How the parts interact.\<close> A command creates a job; the store keeps its revisions, its cursor and
  its settings. The daemon owns the state directory for one lifetime. On every tick it lets
  the adapter reconcile (compute the occurrences since the cursor of each job and materialize
  them as runs, advancing the cursor by compare-and-swap), admits runs within the limits of
  concurrency, starts an attempt of each, captures its output in a framed file, and completes
  it in the store, which either schedules a retry or finishes the run. Between ticks
  maintenance recovers the output of lost attempts and enforces retention. Documents that
  leave the program pass the redaction boundary.

  \<^bold>\<open>Conventions.\<close> \<open>Result<T, E>\<close> is the sum type with the error on the left (\<open>and_then\<close> is the
  operator \<open>?\<close>), \<open>Option\<close> is \<open>option\<close>, structs are records, enums datatypes. \<open>i64\<close> is \<open>int\<close> with
  its checked and saturating operations written out, \<open>u64\<close> and \<open>u32\<close> in files and bit sets are
  words, small unsigned fields are \<open>nat\<close> with their bounds checked where the code checks them.
  Text is the list of its UTF-8 bytes as characters. An operation that writes maps a state to
  a result with the new state. What comes from outside the sources is an argument with the
  laws the code relies on as hypotheses: the packages \<open>jiff\<close> (calendar and zones), \<open>serde_json\<close>
  and \<open>uuid\<close> (record \<open>codecs\<close>), \<open>url\<close> and \<open>crc32fast\<close>, the clock, the file system, and SQLite,
  whose tables are lists of rows and whose constraints are predicates.

  \<^bold>\<open>Shared theories.\<close> \<open>Locron_Prelude\<close> has results, saturating arithmetic and the collections of
  simplification rules; \<open>Rust_Text\<close> the string functions of the standard library; \<open>Json_Values\<close> the
  JSON values; \<open>Transition_Systems\<close> the locales for invariants and histories of state machines,
  interpreted for the store and the daemon.

  \<^bold>\<open>Values and schedules\<close> (\<^verbatim>\<open>locron-core\<close>). \<open>Locron_Time\<close> (\<^verbatim>\<open>time.rs\<close>, \<^verbatim>\<open>error.rs\<close>): instants, durations
  and their texts, round trip and bounds. \<open>Lifecycle\<close> (\<^verbatim>\<open>lifecycle.rs\<close>): the machines of runs and
  attempts and their terminal states (the store has its own transitions). \<open>Policy\<close> (\<^verbatim>\<open>policy.rs\<close>). \<open>Environment\<close> and \<open>Target\<close>
  (\<^verbatim>\<open>execution.rs\<close>, \<^verbatim>\<open>target.rs\<close>): layered environments with their precedence, environment files read
  exactly, validation. \<open>Job_Definition\<close> and \<open>Command\<close> (\<^verbatim>\<open>command.rs\<close>). \<open>Interval_Schedule\<close>, \<open>Cron_Field\<close>, \<open>Day_Cycle\<close>,
  \<open>Cron\<close>, \<open>Schedule_Types\<close>, \<open>Schedule\<close> (\<^verbatim>\<open>schedule.rs\<close>): intervals in closed form, calendar fields, the
  compressed set of matching days with rank and select, searches over dates, compilation,
  preview and reconciliation. The main theorems compare the arithmetic with a reference
  selection over the finite list of occurrences: nothing is lost, the policy for missed runs
  is followed, and two consecutive reconciliations cover what one would; they are about one-time
  and interval schedules. \<open>Redaction\<close>
  (\<^verbatim>\<open>redact.rs\<close>): documents that differ only in secrets are redacted alike.

  \<^bold>\<open>Store\<close> (\<^verbatim>\<open>locron-store\<close>). \<open>Store_Tables\<close> has the tables of the migrated schema as the record
  \<open>store\<close>, the constraints an insert can violate and the errors. \<open>Store_Runs\<close> (\<^verbatim>\<open>store.rs\<close>,
  \<^verbatim>\<open>cancellation.rs\<close>): queueing, materialization, cancellation, lifetimes, admission, start and
  completion of attempts. \<open>Store_Jobs\<close>: creation, update, import, removal, settings. \<open>Store_Retention\<close>:
  candidate queries and two-phase deletion. \<open>Store_Invariant\<close>, \<open>Store_Steps\<close>, \<open>Store_Admission\<close>,
  \<open>Job_Catalogue\<close>, \<open>Job_Contracts\<close>, \<open>Catalogue_Frame\<close> prove what every operation keeps. \<open>Store_Machine\<close>
  makes each write transaction a step with arbitrary arguments, so that its reachable states
  cover every interleaving of processes, and proves the invariant and the histories: what
  becomes of a run along a sequence of transactions until retention deletes it, and that
  revisions are only appended;
  \<open>Concurrency_Bound\<close>, \<open>Store_Guarantees\<close> and \<open>Occurrences\<close> add the limits and fairness of admission, repeated
  completions, recovery, compare-and-swap and the uniqueness of occurrences. \<open>Store_Trace\<close> is a concrete
  history at which these theorems apply; \<open>Replacement_Trace\<close> is a history that shows a defect of
  the replacement mark. \<open>State_Paths\<close> (\<^verbatim>\<open>paths.rs\<close>, \<^verbatim>\<open>id.rs\<close>): the state directory and the paths of
  outputs, which stay inside it and determine their attempt.

  \<^bold>\<open>Output files\<close> (\<^verbatim>\<open>output.rs\<close> of \<^verbatim>\<open>locron-store\<close> and \<^verbatim>\<open>locron-engine\<close>). \<open>Frame_Format\<close> has the bytes of frames
  and a reference parser; \<open>Output_Files\<close> the two writers, readers and repairs over files that may
  fail; \<open>Output_Repair\<close> and \<open>Output_Capture\<close> prove that repair keeps exactly the longest well-formed
  prefix, that captured output reads back, and that what was flushed survives a failure; \<open>Output_Disk\<close> is a disk of
  limited capacity as an instance.

  \<^bold>\<open>Daemon\<close> (\<^verbatim>\<open>locron-engine\<close>, \<^verbatim>\<open>locron-cli\<close>). \<open>Admission\<close> (\<^verbatim>\<open>admission.rs\<close>): round robin and retry
  decisions. \<open>Daemon\<close> and \<open>Daemon_Guarantees\<close> (\<^verbatim>\<open>daemon.rs\<close>): the loop, the tick and the task of an
  attempt as state machines whose events are the replies of store and runner; an attempt
  executes at most once, permits and live attempts always add up to 64, shutdown ends.
  \<open>Reconcile_Pass\<close> (\<^verbatim>\<open>main.rs\<close>): the pass over all jobs with its cache. \<open>Attempt_Target\<close>: what an attempt
  executes. \<open>Store_Adapter\<close> and \<open>Adapter_Guarantees\<close> (\<^verbatim>\<open>impl DaemonStore for StoreAdapter\<close>): admission
  with the preparation of attempts, start and completion; the calls of the daemon are
  transactions of the store machine, a completion may be repeated after any sequence of faults of
  the store and decides the run as the retry policy says, and an admission hands over exactly
  the new attempts it could prepare. \<open>Maintenance\<close>,
  \<open>Pass_Contracts\<close>, \<open>Maintenance_Guarantees\<close> (\<^verbatim>\<open>maintenance.rs\<close>): one bounded pass over database and
  file system; contracts of a pass are relations that its bookkeeping and its effects
  satisfy, and three of them give the steps of the store machine, the budget, and the safety of
  live output.

  \<^bold>\<open>Dashboard\<close> (\<^verbatim>\<open>locron-server\<close>). \<open>Server_Guard\<close> (\<^verbatim>\<open>middleware.rs\<close> and the layers of \<open>router\<close>): parsing of Host,
  Origin, cookies and the form field, the comparison of tokens, and the chain of layers; a
  request is admitted exactly when a declarative specification says so, and a refused one is
  answered without a handler. \<open>Job_Transfer\<close> (\<^verbatim>\<open>transfer.rs\<close>, \<open>import_document\<close> of \<^verbatim>\<open>api.rs\<close>, \<open>export_job\<close> of
  \<^verbatim>\<open>main.rs\<close>) exports and imports jobs: documents, redaction, reading, the plan and its application
  by \<open>apply_import\<close> of the store; \<open>validate\<close> stands for \<open>JobDefinition_validate\<close>. \<open>Import_Guarantees\<close>
  shows that what could be planned is applied and what the database holds then, what exactly the
  command line leaves out of an export, and, by a lemma, that the dashboard exports the body of
  a request.

  \<^bold>\<open>Termination and fuel.\<close> Recursion is structural or has a proved measure (frames left in a file,
  bytes left, the candidates of a round). The selection loop of admission has the fuel
  \<open>Suc (length rows)\<close>: each round that makes progress removes a row, and the lemmas show that it
  is enough. The loops of calendar schedules that walk over dates of the package are partial
  functions whose value \<open>None\<close> is not returning; the theorems that compare reconciliation with a
  reference are about interval and one-time schedules, and those on calendar schedules are
  about fields and the set of matching days. Retries of the daemon are steps of a machine,
  without a bound.

  \<^bold>\<open>Not modelled.\<close> Execution of targets (processes, sockets, HTTP), local control sockets, file
  permissions and locks, schema migration (the model starts from the migrated database), the
  command line, the handlers of the HTTP server and the MCP server around the modelled operations, services and
  updates, and everything specific to Windows. These are input and output, packages or
  presentation; where modelled code depends on them their outcomes are arguments. Reads
  of several transactions by one operation are modelled where the source rereads and
  checks again; the pass of maintenance is modelled without transactions of other processes
  between its own.
\<close>

end
